(* ===== verification/Prelude.thy ===== *)
theory Prelude
  imports Main "HOL-Library.Word"
begin

text \<open>
  Shared ground of the development: the outcome type of C code that may leave through
  \<open>exit\<close>, \<open>abort\<close> or undefined behaviour, and the parts of the C library the sources
  use on strings and numbers (\<open>strchr\<close>, \<open>strncmp\<close>, \<open>strtol\<close>, \<open>atoi\<close>, bounded copies,
  decimal output).  A C string is a \<open>string\<close> without its terminating null byte; a
  possibly null \<open>char *\<close> is a \<open>string option\<close>.
\<close>

unbundle bit_operations_syntax

named_theorems outcome_simps \<open>evaluation of sequenced outcomes\<close>
named_theorems clib_simps \<open>characteristic equations of the C library functions\<close>

section \<open>Outcomes\<close>

text \<open>
  \<open>Ret v s\<close> is a normal return with value \<open>v\<close> in state \<open>s\<close>, \<open>Exited n s\<close> a call of
  \<open>exit(n)\<close> or \<open>_exit(n)\<close>, \<open>Aborted s\<close> a call of \<open>abort()\<close>, and \<open>Undefd\<close> behaviour
  that ISO C leaves undefined.
\<close>

datatype ('a, 's) outcome = Ret 'a 's | Exited int 's | Aborted 's | Undefd

fun andThen :: "('a, 's) outcome \<Rightarrow> ('a \<Rightarrow> 's \<Rightarrow> ('b, 's) outcome) \<Rightarrow> ('b, 's) outcome" where
  "andThen (Ret v s) k = k v s"
| "andThen (Exited n s) k = Exited n s"
| "andThen (Aborted s) k = Aborted s"
| "andThen Undefd k = Undefd"

declare andThen.simps [outcome_simps]

text \<open>\<open>always P r\<close>: the state in which \<open>r\<close> leaves the code satisfies \<open>P\<close>.
  \<open>returns P r\<close>: if \<open>r\<close> is a normal return, value and state satisfy \<open>P\<close>.\<close>

fun always :: "('s \<Rightarrow> bool) \<Rightarrow> ('a, 's) outcome \<Rightarrow> bool" where
  "always P (Ret v s) = P s"
| "always P (Exited n s) = P s"
| "always P (Aborted s) = P s"
| "always P Undefd = True"

fun returns :: "('a \<Rightarrow> 's \<Rightarrow> bool) \<Rightarrow> ('a, 's) outcome \<Rightarrow> bool" where
  "returns P (Ret v s) = P v s"
| "returns P (Exited n s) = True"
| "returns P (Aborted s) = True"
| "returns P Undefd = True"

lemma always_andThen:
  assumes "always P r" and "\<And>v s. r = Ret v s \<Longrightarrow> P s \<Longrightarrow> always P (k v s)"
  shows "always P (andThen r k)"
  using assms by (cases r) auto

lemma always_mono: "always P r \<Longrightarrow> (\<And>s. P s \<Longrightarrow> Q s) \<Longrightarrow> always Q r"
  by (cases r) auto

lemma always_RetD: "always P r \<Longrightarrow> r = Ret v s \<Longrightarrow> P s"
  by simp

text \<open>\<open>within strict P r\<close>: \<open>r\<close> leaves the code in a state that satisfies \<open>P\<close>, and, for
  \<open>strict\<close>, its behaviour is defined.\<close>

definition within :: "bool \<Rightarrow> ('s \<Rightarrow> bool) \<Rightarrow> ('a, 's) outcome \<Rightarrow> bool" where
  "within strict P r \<longleftrightarrow> always P r \<and> (strict \<longrightarrow> r \<noteq> Undefd)"

lemma within_simps [simp]:
  "within u P (Ret v s) = P s" "within u P (Exited n s) = P s" "within u P (Aborted s) = P s"
  "within u P Undefd \<longleftrightarrow> \<not> u"
  by (auto simp: within_def)

lemma within_andThen:
  assumes "within u P r" and "\<And>v s. r = Ret v s \<Longrightarrow> P s \<Longrightarrow> within u P (k v s)"
  shows "within u P (andThen r k)"
  using assms by (cases r) auto

lemma within_mono: "within u P r \<Longrightarrow> (\<And>s. P s \<Longrightarrow> Q s) \<Longrightarrow> within u Q r"
  by (cases r) auto

lemma within_always: "within u P r \<Longrightarrow> always P r"
  by (simp add: within_def)

lemma returns_andThen:
  assumes "returns Q r" and "\<And>v s. r = Ret v s \<Longrightarrow> Q v s \<Longrightarrow> returns P (k v s)"
  shows "returns P (andThen r k)"
  using assms by (cases r) auto

lemma andThen_eq_Ret [simp]:
  "andThen r k = Ret w t \<longleftrightarrow> (\<exists>v s. r = Ret v s \<and> k v s = Ret w t)"
  by (cases r) auto

lemma andThen_assoc: "andThen (andThen r f) g = andThen r (\<lambda>v s. andThen (f v s) g)"
  by (cases r) auto

lemma andThen_eq_Undefd:
  "andThen r k = Undefd \<longleftrightarrow> r = Undefd \<or> (\<exists>v s. r = Ret v s \<and> k v s = Undefd)"
  by (cases r) auto

text \<open>What \<open>fork\<close> returns: -1 with \<open>errno\<close>, the id of the child in the parent, 0 in the child.\<close>

datatype fork_result = ForkFailed int | InParent int | InChild

section \<open>Characters and C strings\<close>

abbreviation nl :: char where "nl \<equiv> CHR 0x0A"

definition isspace :: "char \<Rightarrow> bool" where
  "isspace c \<longleftrightarrow> c \<in> {CHR '' '', CHR 0x09, CHR 0x0A, CHR 0x0B, CHR 0x0C, CHR 0x0D}"

definition isdigit :: "char \<Rightarrow> bool" where
  "isdigit c \<longleftrightarrow> 48 \<le> (of_char c :: nat) \<and> (of_char c :: nat) \<le> 57"

definition isprint :: "char \<Rightarrow> bool" where
  "isprint c \<longleftrightarrow> 32 \<le> (of_char c :: nat) \<and> (of_char c :: nat) \<le> 126"

definition unlines :: "string list \<Rightarrow> string" where
  "unlines ls = concat (map (\<lambda>l. l @ [nl]) ls)"

text \<open>\<open>strchr s c\<close>: the suffix of \<open>s\<close> that starts at the first \<open>c\<close>, \<open>None\<close> for the
  null pointer.\<close>

fun strchr :: "string \<Rightarrow> char \<Rightarrow> string option" where
  "strchr [] c = None"
| "strchr (x # xs) c = (if x = c then Some (x # xs) else strchr xs c)"

text \<open>The part of \<open>s\<close> before the first \<open>c\<close>: what is left of the string when the byte
  found by \<open>strchr\<close> is overwritten with the null byte.\<close>

definition before :: "string \<Rightarrow> char \<Rightarrow> string" where
  "before s c = takeWhile (\<lambda>x. x \<noteq> c) s"

text \<open>\<open>strncmp a b n = 0\<close>: the first \<open>n\<close> bytes agree, the null terminator of a
  shorter string taking part in the comparison.\<close>

definition strncmp_eq :: "string \<Rightarrow> string \<Rightarrow> nat \<Rightarrow> bool" where
  "strncmp_eq a b n \<longleftrightarrow> take n a = take n b"

text \<open>\<open>snprintf\<close> into a buffer of \<open>sz\<close> bytes keeps \<open>sz - 1\<close> characters.\<close>

definition snprintf :: "nat \<Rightarrow> string \<Rightarrow> string" where
  "snprintf sz s = take (sz - 1) s"

lemma snprintf_fits [simp]: "length s < sz \<Longrightarrow> snprintf sz s = s"
  by (simp add: snprintf_def)

lemma length_snprintf_le: "length (snprintf sz s) \<le> sz - 1"
  by (simp add: snprintf_def)

lemma strchr_None [simp]: "strchr s c = None \<longleftrightarrow> c \<notin> set s"
  by (induction s) auto

lemma strchr_Some_iff:
  "strchr s c = Some r \<longleftrightarrow> (\<exists>r'. s = before s c @ r \<and> r = c # r')"
  by (induction s) (auto simp: before_def)

lemma strchr_tl_shorter: "strchr s c = Some r \<Longrightarrow> length (tl r) < length s"
  by (induction s) (auto split: if_splits)

lemma strchr_Some_split: "strchr s c = Some r \<Longrightarrow> \<exists>r'. s = before s c @ c # r' \<and> r = c # r'"
  by (auto simp: strchr_Some_iff)

lemma strchr_append_Cons [simp]: "c \<notin> set a \<Longrightarrow> strchr (a @ c # b) c = Some (c # b)"
  by (induction a) auto

lemma before_append_Cons [simp]: "c \<notin> set a \<Longrightarrow> before (a @ c # b) c = a"
  by (simp add: before_def takeWhile_append1) (induction a, auto)

lemma before_absent [simp]: "c \<notin> set a \<Longrightarrow> before a c = a"
  unfolding before_def by (rule takeWhile_eq_all_conv [THEN iffD2]) auto

lemma before_notin [simp]: "c \<notin> set (before s c)"
  by (auto simp: before_def dest: set_takeWhileD)

lemma strncmp_eq_prefix:
  "strncmp_eq a b (length a) \<longleftrightarrow> (\<exists>r. b = a @ r)"
  by (metis append_eq_conv_conj append_take_drop_id strncmp_eq_def take_all_iff order_refl)

section \<open>Numbers\<close>

definition digit_val :: "char \<Rightarrow> nat option" where
  "digit_val c =
     (let n = (of_char c :: nat) in
      if 48 \<le> n \<and> n \<le> 57 then Some (n - 48)
      else if 97 \<le> n \<and> n \<le> 122 then Some (n - 87)
      else if 65 \<le> n \<and> n \<le> 90 then Some (n - 55)
      else None)"

definition is_digit_in :: "nat \<Rightarrow> char \<Rightarrow> bool" where
  "is_digit_in base c = (case digit_val c of None \<Rightarrow> False | Some d \<Rightarrow> d < base)"

definition digits_value :: "nat \<Rightarrow> string \<Rightarrow> nat" where
  "digits_value base ds =
     foldl (\<lambda>a c. a * base + (case digit_val c of None \<Rightarrow> 0 | Some d \<Rightarrow> d)) 0 ds"

text \<open>The base prefix of \<open>strtol\<close>: \<open>0x\<close> is taken off for base 16, and for base 0 the
  prefix selects the base.  A \<open>0x\<close> that no hexadecimal digit follows is the digit 0.\<close>

fun strtol_prefix :: "nat \<Rightarrow> string \<Rightarrow> nat \<times> string" where
  "strtol_prefix base (z # x # d # r) =
     (if (base = 0 \<or> base = 16) \<and> z = CHR ''0'' \<and> (x = CHR ''x'' \<or> x = CHR ''X'') \<and> is_digit_in 16 d
      then (16, d # r)
      else if base = 0 then (if z = CHR ''0'' then 8 else 10, z # x # d # r)
      else (base, z # x # d # r))"
| "strtol_prefix base s =
     (if base = 0 then (case s of z # _ \<Rightarrow> (if z = CHR ''0'' then 8 else 10, s) | [] \<Rightarrow> (10, s))
      else (base, s))"

definition LONG_MAX :: int where "LONG_MAX = 2 ^ 63 - 1"
definition LONG_MIN :: int where "LONG_MIN = - (2 ^ 63)"
definition INT_MAX :: int where "INT_MAX = 2 ^ 31 - 1"
definition INT_MIN :: int where "INT_MIN = - (2 ^ 31)"

fun strtol_sign :: "string \<Rightarrow> bool \<times> string" where
  "strtol_sign [] = (False, [])"
| "strtol_sign (c # r) =
     (if c = CHR ''-'' then (True, r) else if c = CHR ''+'' then (False, r) else (False, c # r))"

text \<open>\<open>strtol\<close> with a 64-bit \<open>long\<close>: value, the text at \<open>endptr\<close>, and whether \<open>errno\<close>
  was set to \<open>ERANGE\<close>.  With no digits the value is 0 and \<open>endptr\<close> is the argument.\<close>

definition strtol :: "string \<Rightarrow> nat \<Rightarrow> int \<times> string \<times> bool" where
  "strtol s base =
     (let (neg, s2) = strtol_sign (dropWhile isspace s);
          (b, s3) = strtol_prefix base s2;
          ds = takeWhile (is_digit_in b) s3;
          rest = dropWhile (is_digit_in b) s3;
          v = (if neg then - int (digits_value b ds) else int (digits_value b ds))
      in if ds = [] then (0, s, False)
         else if v > LONG_MAX then (LONG_MAX, rest, True)
         else if v < LONG_MIN then (LONG_MIN, rest, True)
         else (v, rest, False))"

text \<open>Conversion of a \<open>long\<close> to \<open>int\<close>, and \<open>atoi\<close> as the C library computes it.\<close>

definition cast_int :: "int \<Rightarrow> int" where
  "cast_int v = signed_take_bit 31 v"

definition atoi :: "string \<Rightarrow> int" where
  "atoi s = cast_int (fst (strtol s 10))"

text \<open>Decimal output, as \<open>%d\<close> and \<open>%ld\<close> print it.\<close>

definition digit_char :: "nat \<Rightarrow> char" where
  "digit_char d = char_of (48 + d)"

fun show_nat :: "nat \<Rightarrow> string" where
  "show_nat n = (if n < 10 then [digit_char n] else show_nat (n div 10) @ [digit_char (n mod 10)])"

declare show_nat.simps [simp del]

definition show_int :: "int \<Rightarrow> string" where
  "show_int i = (if i < 0 then CHR ''-'' # show_nat (nat (- i)) else show_nat (nat i))"

lemma digit_val_digit_char [simp]: "d < 10 \<Longrightarrow> digit_val (digit_char d) = Some d"
  by (simp add: digit_val_def digit_char_def of_char_of Let_def)

lemma is_digit_in_digit_char [simp]: "d < 10 \<Longrightarrow> is_digit_in 10 (digit_char d)"
  by (simp add: is_digit_in_def)

lemma digits_value_snoc:
  "digits_value b (ds @ [c]) =
     digits_value b ds * b + (case digit_val c of None \<Rightarrow> 0 | Some d \<Rightarrow> d)"
  by (simp add: digits_value_def)

lemma show_nat_digits: "c \<in> set (show_nat n) \<Longrightarrow> is_digit_in 10 c"
proof (induction n rule: show_nat.induct)
  case (1 n)
  then show ?case by (cases "n < 10") (auto simp: show_nat.simps [of n])
qed

lemma digits_value_show_nat [simp]: "digits_value 10 (show_nat n) = n"
proof (induction n rule: show_nat.induct)
  case (1 n)
  show ?case
  proof (cases "n < 10")
    case True
    then show ?thesis by (simp add: show_nat.simps [of n] digits_value_def)
  next
    case False
    with 1 show ?thesis by (simp add: show_nat.simps [of n] digits_value_snoc)
  qed
qed

lemma show_nat_nonempty [simp]: "show_nat n \<noteq> []"
  by (subst show_nat.simps) simp

lemma show_nat_length: "n < 10 ^ d \<Longrightarrow> 0 < d \<Longrightarrow> length (show_nat n) \<le> d"
proof (induction d arbitrary: n)
  case (Suc d)
  show ?case
  proof (cases "n < 10")
    case True
    then show ?thesis by (simp add: show_nat.simps)
  next
    case False
    with Suc.prems have "n div 10 < 10 ^ d" "0 < d" by (auto simp: less_mult_imp_div_less intro: gr0I)
    with Suc.IH [of "n div 10"] False show ?thesis by (subst show_nat.simps) simp
  qed
qed simp

lemma takeWhile_digits_show_nat:
  assumes "\<And>c r'. r = c # r' \<Longrightarrow> \<not> is_digit_in 10 c"
  shows "takeWhile (is_digit_in 10) (show_nat n @ r) = show_nat n"
    and "dropWhile (is_digit_in 10) (show_nat n @ r) = r"
proof -
  have r: "takeWhile (is_digit_in 10) r = []" "dropWhile (is_digit_in 10) r = r"
    using assms by (cases r; simp)+
  show "takeWhile (is_digit_in 10) (show_nat n @ r) = show_nat n"
    using r show_nat_digits by (simp add: takeWhile_append2)
  show "dropWhile (is_digit_in 10) (show_nat n @ r) = r"
    using r show_nat_digits by (simp add: dropWhile_append2)
qed

lemma strtol_prefix_10 [simp]: "strtol_prefix 10 s = (10, s)"
  by (cases "(10::nat, s)" rule: strtol_prefix.cases) auto

lemma digit_not_space: "is_digit_in 10 c \<Longrightarrow> \<not> isspace c \<and> c \<noteq> CHR ''-'' \<and> c \<noteq> CHR ''+''"
  by (auto simp: is_digit_in_def isspace_def digit_val_def Let_def split: if_splits)

lemma strtol_show_int:
  assumes "LONG_MIN \<le> i" "i \<le> LONG_MAX" and "\<And>c r'. r = c # r' \<Longrightarrow> \<not> is_digit_in 10 c"
  shows "strtol (show_int i @ r) 10 = (i, r, False)"
proof (cases "i < 0")
  case True
  note tw = takeWhile_digits_show_nat [of r "nat (- i)", OF assms(3)]
  from True have "show_int i = CHR ''-'' # show_nat (nat (- i))" by (simp add: show_int_def)
  with True assms(1,2) tw show ?thesis
    by (simp add: strtol_def isspace_def)
next
  case False
  note tw = takeWhile_digits_show_nat [of r "nat i", OF assms(3)]
  obtain c cs where cs: "show_nat (nat i) = c # cs" by (cases "show_nat (nat i)") auto
  then have "is_digit_in 10 c" using show_nat_digits [of c "nat i"] by simp
  with cs have "dropWhile isspace (show_nat (nat i) @ r) = show_nat (nat i) @ r"
    and "strtol_sign (show_nat (nat i) @ r) = (False, show_nat (nat i) @ r)"
    by (auto dest: digit_not_space)
  with False assms(1,2) tw show ?thesis
    by (simp add: strtol_def show_int_def)
qed

lemma strtol_range: "strtol s b = (v, r, e) \<Longrightarrow> LONG_MIN \<le> v \<and> v \<le> LONG_MAX"
  by (auto simp: strtol_def Let_def LONG_MIN_def LONG_MAX_def split: if_splits prod.splits)

lemma cast_int_id: "INT_MIN \<le> v \<Longrightarrow> v \<le> INT_MAX \<Longrightarrow> cast_int v = v"
  unfolding cast_int_def INT_MIN_def INT_MAX_def
  by (rule signed_take_bit_int_eq_self) auto

lemma int_is_long: "INT_MIN \<le> i \<Longrightarrow> i \<le> INT_MAX \<Longrightarrow> LONG_MIN \<le> i \<and> i \<le> LONG_MAX"
  by (auto simp: INT_MIN_def INT_MAX_def LONG_MIN_def LONG_MAX_def)

lemma atoi_show_int: "INT_MIN \<le> i \<Longrightarrow> i \<le> INT_MAX \<Longrightarrow> atoi (show_int i) = i"
  using strtol_show_int [of i "[]"] int_is_long [of i] by (simp add: atoi_def cast_int_id)

end
