(* ===== verification/Get_Num.thy ===== *)
theory Get_Num
  imports Prelude
begin

text \<open>
  \<open>src/tlpi-book/lib/get_num.c\<close>: conversion of a command-line argument to a number.
  A failure writes a diagnostic and leaves through \<open>exit(EXIT_FAILURE)\<close>; it is the left
  value of a sum, carrying the text sent to \<open>stderr\<close>.
\<close>

definition GN_NONNEG :: "32 word" where "GN_NONNEG = 0x01"
definition GN_GT_0 :: "32 word" where "GN_GT_0 = 0x02"
definition GN_ANY_BASE :: "32 word" where "GN_ANY_BASE = 0x40"
definition GN_BASE_8 :: "32 word" where "GN_BASE_8 = 0x80"
definition GN_BASE_16 :: "32 word" where "GN_BASE_16 = 0x100"

lemmas GN_defs = GN_NONNEG_def GN_GT_0_def GN_ANY_BASE_def GN_BASE_8_def GN_BASE_16_def

definition gnFail :: "string \<Rightarrow> string \<Rightarrow> string option \<Rightarrow> string option \<Rightarrow> string" where
  "gnFail fname msg arg name =
     fname @ '' error'' @
     (case name of None \<Rightarrow> '''' | Some nm \<Rightarrow> '' (in '' @ nm @ '')'') @
     '': '' @ msg @ [nl] @
     (case arg of None \<Rightarrow> ''''
      | Some a \<Rightarrow> if a = [] then '''' else ''        offending text: '' @ a @ [nl])"

definition gn_base :: "32 word \<Rightarrow> nat" where
  "gn_base flags =
     (if flags AND GN_ANY_BASE \<noteq> 0 then 0
      else if flags AND GN_BASE_8 \<noteq> 0 then 8
      else if flags AND GN_BASE_16 \<noteq> 0 then 16 else 10)"

definition getNum :: "string \<Rightarrow> string option \<Rightarrow> 32 word \<Rightarrow> string option \<Rightarrow> string + int" where
  "getNum fname arg flags name =
     (case arg of
        None \<Rightarrow> Inl (gnFail fname ''null or empty string'' arg name)
      | Some a \<Rightarrow>
        if a = [] then Inl (gnFail fname ''null or empty string'' arg name)
        else
          (let (res, endptr, erange) = strtol a (gn_base flags) in
           if erange then Inl (gnFail fname ''strtol() failed'' arg name)
           else if endptr \<noteq> [] then Inl (gnFail fname ''nonnumeric characters'' arg name)
           else if flags AND GN_NONNEG \<noteq> 0 \<and> res < 0
             then Inl (gnFail fname ''negative value not allowed'' arg name)
           else if flags AND GN_GT_0 \<noteq> 0 \<and> res \<le> 0
             then Inl (gnFail fname ''value must be > 0'' arg name)
           else Inr res))"

definition getLong :: "string option \<Rightarrow> 32 word \<Rightarrow> string option \<Rightarrow> string + int" where
  "getLong arg flags name = getNum ''getLong'' arg flags name"

definition getInt :: "string option \<Rightarrow> 32 word \<Rightarrow> string option \<Rightarrow> string + int" where
  "getInt arg flags name =
     (case getNum ''getInt'' arg flags name of
        Inl e \<Rightarrow> Inl e
      | Inr res \<Rightarrow>
        if res > INT_MAX \<or> res < INT_MIN
        then Inl (gnFail ''getInt'' ''integer out of range'' arg name)
        else Inr (cast_int res))"

lemma getNum_Inr_iff:
  "getNum fname (Some a) flags name = Inr v \<longleftrightarrow>
     a \<noteq> [] \<and> strtol a (gn_base flags) = (v, [], False) \<and>
     (flags AND GN_NONNEG \<noteq> 0 \<longrightarrow> 0 \<le> v) \<and> (flags AND GN_GT_0 \<noteq> 0 \<longrightarrow> 0 < v)"
  by (auto simp: getNum_def Let_def split: prod.splits if_splits)

lemma getNum_InrD:
  assumes "getNum fname arg flags name = Inr v"
  obtains a where "arg = Some a" "a \<noteq> []" "strtol a (gn_base flags) = (v, [], False)"
    "flags AND GN_NONNEG \<noteq> 0 \<Longrightarrow> 0 \<le> v" "flags AND GN_GT_0 \<noteq> 0 \<Longrightarrow> 0 < v"
proof (cases arg)
  case None
  with assms show ?thesis by (simp add: getNum_def)
next
  case (Some a)
  with assms that show ?thesis by (auto simp: getNum_Inr_iff)
qed

lemma getInt_Inr_iff:
  "getInt arg flags name = Inr v \<longleftrightarrow>
     getNum ''getInt'' arg flags name = Inr v \<and> INT_MIN \<le> v \<and> v \<le> INT_MAX"
  by (auto simp: getInt_def cast_int_id split: sum.splits)

text \<open>
  C39. A number that \<open>getInt\<close> accepts is the value \<open>strtol\<close> reads from the whole argument,
  fits an \<open>int\<close>, and obeys the restriction the flags ask for.
\<close>

theorem getInt_sound:
  assumes "getInt arg flags name = Inr v"
  shows "INT_MIN \<le> v \<and> v \<le> INT_MAX \<and>
    (\<exists>a. arg = Some a \<and> a \<noteq> [] \<and> strtol a (gn_base flags) = (v, [], False)) \<and>
    (flags AND GN_NONNEG \<noteq> 0 \<longrightarrow> 0 \<le> v) \<and> (flags AND GN_GT_0 \<noteq> 0 \<longrightarrow> 0 < v)"
  using assms by (auto simp: getInt_Inr_iff elim!: getNum_InrD)

theorem getInt_sound_witness:
  "getInt (Some ''42'') GN_GT_0 None = Inr 42 \<and> (42::int) \<le> INT_MAX"
proof -
  have h: "getInt (Some ''42'') GN_GT_0 None = Inr 42" by code_simp
  show ?thesis using h getInt_sound [OF h] by simp
qed

text \<open>
  Round trip: the decimal text of any \<open>int\<close> that the flags allow is read back as that
  number, and the text of a \<open>long\<close> that no \<open>int\<close> holds is refused by \<open>getInt\<close> though
  \<open>getLong\<close> reads it.
\<close>

theorem getNum_roundtrip:
  assumes "LONG_MIN \<le> i" "i \<le> LONG_MAX" and "gn_base flags = 10"
    and "flags AND GN_NONNEG \<noteq> 0 \<longrightarrow> 0 \<le> i" and "flags AND GN_GT_0 \<noteq> 0 \<longrightarrow> 0 < i"
  shows "getLong (Some (show_int i)) flags name = Inr i \<and>
    getInt (Some (show_int i)) flags name =
      (if INT_MIN \<le> i \<and> i \<le> INT_MAX then Inr i
       else Inl (gnFail ''getInt'' ''integer out of range'' (Some (show_int i)) name))"
proof -
  have "strtol (show_int i) 10 = (i, [], False)"
    using strtol_show_int [of i "[]"] assms(1,2) by simp
  moreover have "show_int i \<noteq> []" by (simp add: show_int_def)
  ultimately have *: "getNum fname (Some (show_int i)) flags name = Inr i" for fname
    using assms(3-5) by (simp add: getNum_Inr_iff)
  then show ?thesis by (auto simp: getLong_def getInt_def cast_int_id)
qed

theorem getNum_roundtrip_witness:
  "getLong (Some ''-7'') 0 None = Inr (- 7) \<and> getInt (Some ''-7'') 0 None = Inr (- 7)"
proof -
  have s: "show_int (- 7) = ''-7''" by code_simp
  have "getLong (Some (show_int (- 7))) 0 None = Inr (- 7) \<and>
      getInt (Some (show_int (- 7))) 0 None = Inr (- 7)"
    using getNum_roundtrip [of "- 7" 0 None]
    by (simp add: LONG_MIN_def LONG_MAX_def INT_MIN_def INT_MAX_def gn_base_def)
  then show ?thesis by (simp add: s)
qed

end
