(* ===== verification/Error_Functions.thy ===== *)
theory Error_Functions
  imports Prelude
begin

text \<open>
  \<open>src/tlpi-book/lib/error_functions.c\<close>: the diagnostic functions every program of the
  tree reports failures with.  The state is what they can change of the process:
  \<open>errno\<close> and the two standard streams.  The text of the caller's message (what
  \<open>vsnprintf\<close> makes of \<open>format\<close> and its arguments) is an argument, and so are the table
  \<open>ename\<close> (the build generates it), \<open>strerror\<close>, and the effect that calls into \<open>stdio\<close>
  may have on \<open>errno\<close>.
\<close>

record errenv =
  ename :: "int \<Rightarrow> string"
  MAX_ENAME :: int
  strerror :: "int \<Rightarrow> string"
  stdio_errno :: "int \<Rightarrow> int"      \<comment> \<open>\<open>errno\<close> after a \<open>stdio\<close> call\<close>
  EF_DUMPCORE :: "string option"      \<comment> \<open>the environment variable\<close>

record streams =
  errno :: int
  out_pending :: string               \<comment> \<open>bytes in the buffer of \<open>stdout\<close>\<close>
  out_done :: string                  \<comment> \<open>bytes that reached file descriptor 1\<close>
  err_done :: string                  \<comment> \<open>bytes that reached file descriptor 2\<close>

definition EXIT_FAILURE :: int where "EXIT_FAILURE = 1"
definition EXIT_SUCCESS :: int where "EXIT_SUCCESS = 0"
definition BUF_SIZE :: nat where "BUF_SIZE = 500"

definition fflush_stdout :: "errenv \<Rightarrow> streams \<Rightarrow> streams" where
  "fflush_stdout env s =
     s\<lparr>out_pending := [], out_done := out_done s @ out_pending s, errno := stdio_errno env (errno s)\<rparr>"

definition fputs_stderr :: "errenv \<Rightarrow> string \<Rightarrow> streams \<Rightarrow> streams" where
  "fputs_stderr env t s = s\<lparr>err_done := err_done s @ t, errno := stdio_errno env (errno s)\<rparr>"

text \<open>\<open>exit\<close> runs the \<open>stdio\<close> clean-up, which writes out what \<open>stdout\<close> holds; \<open>_exit\<close>
  and \<open>abort\<close> do not.\<close>

definition exit_proc :: "errenv \<Rightarrow> int \<Rightarrow> streams \<Rightarrow> ('a, streams) outcome" where
  "exit_proc env n s = Exited n (fflush_stdout env s)"

definition terminate :: "errenv \<Rightarrow> bool \<Rightarrow> streams \<Rightarrow> (unit, streams) outcome" where
  "terminate env useExit3 s =
     (if (case EF_DUMPCORE env of None \<Rightarrow> False | Some t \<Rightarrow> t \<noteq> []) then Aborted s
      else if useExit3 then exit_proc env EXIT_FAILURE s
      else Exited EXIT_FAILURE s)"

definition errText :: "errenv \<Rightarrow> bool \<Rightarrow> int \<Rightarrow> string" where
  "errText env useErr err =
     (if useErr
      then snprintf BUF_SIZE ('' ['' @ (if err > 0 \<and> err \<le> MAX_ENAME env then ename env err else ''?UNKNOWN?'')
                              @ '' '' @ strerror env err @ '']'')
      else snprintf BUF_SIZE '':'')"

definition outputError ::
    "errenv \<Rightarrow> bool \<Rightarrow> int \<Rightarrow> bool \<Rightarrow> string \<Rightarrow> streams \<Rightarrow> streams" where
  "outputError env useErr err flushStdout msg s =
     (let userMsg = snprintf BUF_SIZE msg;
          buf = snprintf BUF_SIZE (''ERROR'' @ errText env useErr err @ '' '' @ userMsg @ [nl]);
          s1 = (if flushStdout then fflush_stdout env s else s)
      in fputs_stderr env buf s1)"

definition errMsg :: "errenv \<Rightarrow> string \<Rightarrow> streams \<Rightarrow> (unit, streams) outcome" where
  "errMsg env msg s =
     (let savedErrno = errno s; s1 = outputError env True (errno s) True msg s
      in Ret () (s1\<lparr>errno := savedErrno\<rparr>))"

definition errExit :: "errenv \<Rightarrow> string \<Rightarrow> streams \<Rightarrow> (unit, streams) outcome" where
  "errExit env msg s = terminate env True (outputError env True (errno s) True msg s)"

definition err_exit :: "errenv \<Rightarrow> string \<Rightarrow> streams \<Rightarrow> (unit, streams) outcome" where
  "err_exit env msg s = terminate env False (outputError env True (errno s) False msg s)"

definition errExitEN :: "errenv \<Rightarrow> int \<Rightarrow> string \<Rightarrow> streams \<Rightarrow> (unit, streams) outcome" where
  "errExitEN env errnum msg s = terminate env True (outputError env True errnum True msg s)"

definition fatal :: "errenv \<Rightarrow> string \<Rightarrow> streams \<Rightarrow> (unit, streams) outcome" where
  "fatal env msg s = terminate env True (outputError env False 0 True msg s)"

definition usageErr :: "errenv \<Rightarrow> string \<Rightarrow> streams \<Rightarrow> (unit, streams) outcome" where
  "usageErr env msg s =
     exit_proc env EXIT_FAILURE
       (fputs_stderr env msg (fputs_stderr env ''Usage: '' (fflush_stdout env s)))"

definition cmdLineErr :: "errenv \<Rightarrow> string \<Rightarrow> streams \<Rightarrow> (unit, streams) outcome" where
  "cmdLineErr env msg s =
     exit_proc env EXIT_FAILURE
       (fputs_stderr env msg (fputs_stderr env ''Command-line usage error: '' (fflush_stdout env s)))"

lemmas stream_defs = fflush_stdout_def fputs_stderr_def exit_proc_def

definition error_line :: "errenv \<Rightarrow> bool \<Rightarrow> int \<Rightarrow> string \<Rightarrow> string" where
  "error_line env useErr err msg = ''ERROR'' @ errText env useErr err @ '' '' @ msg @ [nl]"

lemma outputError_streams:
  "err_done (outputError env u e fl msg s) =
     err_done s @ snprintf BUF_SIZE (''ERROR'' @ errText env u e @ '' '' @ snprintf BUF_SIZE msg @ [nl])"
  "out_done (outputError env u e fl msg s) = (if fl then out_done s @ out_pending s else out_done s)"
  "out_pending (outputError env u e fl msg s) = (if fl then [] else out_pending s)"
  by (simp_all add: outputError_def stream_defs Let_def)

lemma outputError_fits:
  assumes "length (error_line env u e msg) < BUF_SIZE"
  shows "err_done (outputError env u e fl msg s) = err_done s @ error_line env u e msg"
  using assms by (simp add: outputError_streams error_line_def)

text \<open>
  \<open>errMsg\<close> returns to its caller with \<open>errno\<close> as it found it whatever the \<open>stdio\<close>
  calls did to it, after everything pending on \<open>stdout\<close> was written and a diagnostic of at
  most \<open>BUF_SIZE - 1\<close> bytes was appended to \<open>stderr\<close>.
\<close>

theorem errMsg_preserves_errno:
  "\<exists>t s'. errMsg env msg s = Ret () s' \<and> errno s' = errno s \<and>
     out_done s' = out_done s @ out_pending s \<and> out_pending s' = [] \<and>
     err_done s' = err_done s @ t \<and> length t \<le> BUF_SIZE - 1 \<and>
     (if length (error_line env True (errno s) msg) < BUF_SIZE
      then t = error_line env True (errno s) msg
      else t = take (BUF_SIZE - 1) (''ERROR'' @ errText env True (errno s) @ '' '' @ snprintf BUF_SIZE msg @ [nl]))"
  by (auto simp: errMsg_def Let_def outputError_streams error_line_def snprintf_def)

text \<open>
  None of the terminating functions returns.  With \<open>EF_DUMPCORE\<close> unset each ends in
  \<open>exit\<close> with status \<open>EXIT_FAILURE\<close>; \<open>errExit\<close> writes out the pending \<open>stdout\<close> bytes
  once and before it stops, \<open>err_exit\<close> never writes them, so that a child made by
  \<open>fork\<close> does not repeat output its parent still holds.
\<close>

theorem termination_functions:
  assumes "EF_DUMPCORE env = None"
  shows "(\<exists>s'. errExit env msg s = Exited EXIT_FAILURE s' \<and>
            out_done s' = out_done s @ out_pending s \<and> out_pending s' = []) \<and>
         (\<exists>s'. errExitEN env n msg s = Exited EXIT_FAILURE s' \<and>
            out_done s' = out_done s @ out_pending s \<and> out_pending s' = []) \<and>
         (\<exists>s'. fatal env msg s = Exited EXIT_FAILURE s' \<and>
            out_done s' = out_done s @ out_pending s \<and> out_pending s' = []) \<and>
         (\<exists>s'. err_exit env msg s = Exited EXIT_FAILURE s' \<and>
            out_done s' = out_done s \<and> out_pending s' = out_pending s)"
  using assms
  by (simp add: errExit_def err_exit_def fatal_def errExitEN_def terminate_def
      outputError_streams stream_defs)

definition example_env :: errenv where
  "example_env = \<lparr>ename = (\<lambda>_. ''EPERM''), MAX_ENAME = 133, strerror = (\<lambda>_. ''no''),
     stdio_errno = (\<lambda>_. 25), EF_DUMPCORE = None\<rparr>"

theorem termination_functions_witness:
  "EF_DUMPCORE example_env = None \<and>
   (\<exists>s'. err_exit example_env ''x'' \<lparr>errno = 1, out_pending = ''ab'', out_done = [], err_done = []\<rparr>
      = Exited EXIT_FAILURE s' \<and> out_pending s' = ''ab'')"
proof -
  have "EF_DUMPCORE example_env = None" by (simp add: example_env_def)
  from this termination_functions [OF this, of "''x''"
      "\<lparr>errno = 1, out_pending = ''ab'', out_done = [], err_done = []\<rparr>" 1]
  show ?thesis by auto
qed

end
