(* ===== verification/Rdwrn.thy ===== *)
theory Rdwrn
  imports Prelude
begin

text \<open>
  \<open>src/tlpi-book/sockets/rdwrn.c\<close>: \<open>readn\<close> and \<open>writen\<close>, which hide partial transfers
  and interrupted system calls.  The system calls \<open>read\<close> and \<open>write\<close> on one descriptor
  are parameters: functions of the kernel's state and the requested bytes.  A loop that
  the kernel may interrupt for ever is a \<^theory_text>\<open>partial_function\<close> in the option type.
\<close>

definition EINTR :: int where "EINTR = 4"
definition EINVAL :: int where "EINVAL = 22"

text \<open>One \<open>read\<close>: some bytes (none at end of file), or -1 with \<open>errno\<close> set.  The result
  of a library function: the count it returns, or -1 with \<open>errno\<close>.\<close>

datatype io_read = Data string | ReadErr int
datatype io_write = Wrote nat | WriteErr int
datatype io_ret = Count nat | Fail int

type_synonym 'k reader = "'k \<Rightarrow> nat \<Rightarrow> io_read \<times> 'k"
type_synonym 'k writer = "'k \<Rightarrow> string \<Rightarrow> io_write \<times> 'k"

text \<open>\<open>readn_loop rd n buf k\<close>: the loop of \<open>readn\<close> with the bytes \<open>buf\<close> already stored
  (\<open>totRead\<close> is their number).\<close>

partial_function (option) readn_loop ::
    "'k reader \<Rightarrow> nat \<Rightarrow> string \<Rightarrow> 'k \<Rightarrow> (io_ret \<times> string \<times> 'k) option" where
  "readn_loop rd n buf k =
     (if length buf < n
      then (case rd k (n - length buf) of
              (Data bs, k') \<Rightarrow>
                (if bs = [] then Some (Count (length buf), buf, k')
                 else readn_loop rd n (buf @ bs) k')
            | (ReadErr e, k') \<Rightarrow>
                (if e = EINTR then readn_loop rd n buf k' else Some (Fail e, buf, k')))
      else Some (Count (length buf), buf, k))"

definition readn :: "'k reader \<Rightarrow> nat \<Rightarrow> 'k \<Rightarrow> (io_ret \<times> string \<times> 'k) option" where
  "readn rd n k = readn_loop rd n [] k"

text \<open>\<open>writen_loop wr n todo k\<close>: the loop of \<open>writen\<close> with \<open>todo\<close> the bytes from \<open>buf\<close>
  on.  A write that returns 0 is treated as an error, with \<open>errno\<close> as it was.\<close>

partial_function (option) writen_loop ::
    "'k writer \<Rightarrow> int \<Rightarrow> nat \<Rightarrow> string \<Rightarrow> 'k \<Rightarrow> (io_ret \<times> 'k) option" where
  "writen_loop wr errno0 n todo k =
     (if todo \<noteq> []
      then (case wr k todo of
              (Wrote m, k') \<Rightarrow>
                (if m = 0 then Some (Fail errno0, k')
                 else writen_loop wr errno0 n (drop m todo) k')
            | (WriteErr e, k') \<Rightarrow>
                (if e = EINTR then writen_loop wr e n todo k' else Some (Fail e, k')))
      else Some (Count n, k))"

definition writen :: "'k writer \<Rightarrow> int \<Rightarrow> string \<Rightarrow> 'k \<Rightarrow> (io_ret \<times> 'k) option" where
  "writen wr errno0 buffer k = writen_loop wr errno0 (length buffer) buffer k"

section \<open>Byte sources\<close>

text \<open>
  What \<open>read(2)\<close> promises of a descriptor with the bytes \<open>avail k\<close> still to be delivered:
  a successful read hands over a prefix of them of at most the size asked for, it returns
  0 only at the end, and an interrupted call takes nothing.  \<open>budget\<close> bounds the
  interruptions still to come.
\<close>

locale byte_source =
  fixes rd :: "'k \<Rightarrow> nat \<Rightarrow> io_read \<times> 'k"
    and avail :: "'k \<Rightarrow> string"
    and budget :: "'k \<Rightarrow> nat"
  assumes rd_data: "rd k n = (Data bs, k') \<Longrightarrow> 0 < n \<Longrightarrow>
      avail k = bs @ avail k' \<and> length bs \<le> n \<and> budget k' \<le> budget k"
    and rd_eof: "rd k n = (Data [], k') \<Longrightarrow> 0 < n \<Longrightarrow> avail k = []"
    and rd_intr: "rd k n = (ReadErr e, k') \<Longrightarrow>
      e = EINTR \<and> avail k' = avail k \<and> budget k' < budget k"
begin

lemma readn_loop_correct:
  "length buf \<le> n \<Longrightarrow>
   \<exists>k'. readn_loop rd n buf k =
          Some (Count (min n (length (buf @ avail k))), take n (buf @ avail k), k') \<and>
        avail k' = drop (n - length buf) (avail k) \<and> budget k' \<le> budget k"
proof (induction "(n - length buf) + budget k" arbitrary: buf k rule: less_induct)
  case less
  show ?case
  proof (cases "length buf < n")
    case False
    with less.prems show ?thesis by (simp add: readn_loop.simps [of rd n buf k])
  next
    case True
    obtain r k1 where r: "rd k (n - length buf) = (r, k1)" by fastforce
    show ?thesis
    proof (cases r)
      case (ReadErr e)
      with r rd_intr have e: "e = EINTR" "avail k1 = avail k" "budget k1 < budget k" by blast+
      with less.hyps [of buf k1] less.prems show ?thesis
        using True r ReadErr by (force simp: readn_loop.simps [of rd n buf k])
    next
      case (Data bs)
      with r True rd_data have bs: "avail k = bs @ avail k1" "length bs \<le> n - length buf"
        "budget k1 \<le> budget k" by (meson zero_less_diff)+
      show ?thesis
      proof (cases "bs = []")
        case True
        with r Data rd_eof [of k "n - length buf" k1] \<open>length buf < n\<close> bs show ?thesis
          by (simp add: readn_loop.simps [of rd n buf k])
      next
        case False
        with bs \<open>length buf < n\<close> have "n - length (buf @ bs) + budget k1 < n - length buf + budget k"
          by (cases bs) auto
        from less.hyps [OF this] bs False \<open>length buf < n\<close> obtain k' where
          "readn_loop rd n (buf @ bs) k1 = Some (Count (min n (length ((buf @ bs) @ avail k1))),
             take n ((buf @ bs) @ avail k1), k')"
          "avail k' = drop (n - length (buf @ bs)) (avail k1)" "budget k' \<le> budget k1" by fastforce
        with bs False r Data \<open>length buf < n\<close> show ?thesis
          by (auto simp: readn_loop.simps [of rd n buf k])
      qed
    qed
  qed
qed

lemma readn_correct:
  "\<exists>k'. readn rd n k = Some (Count (min n (length (avail k))), take n (avail k), k') \<and>
        avail k' = drop n (avail k) \<and> budget k' \<le> budget k"
  using readn_loop_correct [of "[]" n k] by (simp add: readn_def)

end

section \<open>Byte sinks\<close>

locale byte_sink =
  fixes wr :: "'k \<Rightarrow> string \<Rightarrow> io_write \<times> 'k"
    and written :: "'k \<Rightarrow> string"
    and wbudget :: "'k \<Rightarrow> nat"
  assumes wr_data: "wr k bs = (Wrote m, k') \<Longrightarrow> bs \<noteq> [] \<Longrightarrow>
      0 < m \<and> m \<le> length bs \<and> written k' = written k @ take m bs \<and> wbudget k' \<le> wbudget k"
    and wr_intr: "wr k bs = (WriteErr e, k') \<Longrightarrow>
      e = EINTR \<and> written k' = written k \<and> wbudget k' < wbudget k"
begin

lemma writen_loop_correct:
  "\<exists>k'. writen_loop wr e0 n todo k = Some (Count n, k') \<and> written k' = written k @ todo"
proof (induction "length todo + wbudget k" arbitrary: todo k e0 rule: less_induct)
  case less
  show ?case
  proof (cases "todo = []")
    case True
    then show ?thesis by (simp add: writen_loop.simps [of wr e0 n "[]" k])
  next
    case False
    obtain r k1 where r: "wr k todo = (r, k1)" by fastforce
    show ?thesis
    proof (cases r)
      case (WriteErr e)
      with r wr_intr have e: "e = EINTR" "written k1 = written k" "wbudget k1 < wbudget k" by blast+
      with less.hyps [of todo k1 e] False r WriteErr show ?thesis
        by (simp add: writen_loop.simps [of wr e0 n todo k])
    next
      case (Wrote m)
      with r False wr_data have m: "0 < m" "m \<le> length todo"
        "written k1 = written k @ take m todo" "wbudget k1 \<le> wbudget k" by blast+
      with less.hyps [of "drop m todo" k1 e0] False r Wrote show ?thesis
        by (simp add: writen_loop.simps [of wr e0 n todo k])
    qed
  qed
qed

lemma writen_correct:
  "\<exists>k'. writen wr e0 buffer k = Some (Count (length buffer), k') \<and>
        written k' = written k @ buffer"
  unfolding writen_def by (rule writen_loop_correct)

end

section \<open>A stream socket\<close>

text \<open>
  A stream: the bytes in flight and, call by call, whether the next system call is
  interrupted (\<open>None\<close>) or transfers at most \<open>Suc m\<close> bytes (\<open>Some m\<close>).  When the schedule
  is used up, a call transfers all it can.
\<close>

type_synonym stream = "string \<times> nat option list"

fun stream_read :: "stream \<Rightarrow> nat \<Rightarrow> io_read \<times> stream" where
  "stream_read (bs, []) n = (Data (take n bs), (drop n bs, []))"
| "stream_read (bs, None # sch) n = (ReadErr EINTR, (bs, sch))"
| "stream_read (bs, Some m # sch) n =
     (Data (take (min n (Suc m)) bs), (drop (min n (Suc m)) bs, sch))"

fun stream_write :: "stream \<Rightarrow> string \<Rightarrow> io_write \<times> stream" where
  "stream_write (bs, []) out = (Wrote (length out), (bs @ out, []))"
| "stream_write (bs, None # sch) out = (WriteErr EINTR, (bs, sch))"
| "stream_write (bs, Some m # sch) out =
     (Wrote (min (length out) (Suc m)), (bs @ take (Suc m) out, sch))"

interpretation src: byte_source stream_read fst "\<lambda>k. length (snd k)"
proof unfold_locales
  fix k k' :: stream and n bs
  assume "stream_read k n = (Data bs, k')" and "0 < n"
  then show "fst k = bs @ fst k' \<and> length bs \<le> n \<and> length (snd k') \<le> length (snd k)"
    by (cases "(k, n)" rule: stream_read.cases) auto
next
  fix k k' :: stream and n
  assume "stream_read k n = (Data [], k')" and "0 < n"
  then show "fst k = []"
    by (cases "(k, n)" rule: stream_read.cases) auto
next
  fix k k' :: stream and n e
  assume "stream_read k n = (ReadErr e, k')"
  then show "e = EINTR \<and> fst k' = fst k \<and> length (snd k') < length (snd k)"
    by (cases "(k, n)" rule: stream_read.cases) auto
qed

interpretation snk: byte_sink stream_write fst "\<lambda>k. length (snd k)"
proof unfold_locales
  fix k k' :: stream and bs m
  assume "stream_write k bs = (Wrote m, k')" and "bs \<noteq> []"
  then show "0 < m \<and> m \<le> length bs \<and> fst k' = fst k @ take m bs \<and> length (snd k') \<le> length (snd k)"
    by (cases "(k, bs)" rule: stream_write.cases) (auto simp: min_def)
next
  fix k k' :: stream and bs e
  assume "stream_write k bs = (WriteErr e, k')"
  then show "e = EINTR \<and> fst k' = fst k \<and> length (snd k') < length (snd k)"
    by (cases "(k, bs)" rule: stream_write.cases) auto
qed

text \<open>
  For every \<open>read\<close> that keeps the contract of a byte source, \<open>readn\<close> returns, and it
  returns exactly the next \<open>n\<close> bytes, or all that are left when the stream ends before:
  partial reads and interrupted calls are invisible, and no byte beyond the \<open>n\<close> is taken.
\<close>

theorem readn_total:
  assumes "byte_source rd avail budget"
  shows "\<exists>k'. readn rd n k = Some (Count (min n (length (avail k))), take n (avail k), k') \<and>
    avail k' = drop n (avail k)"
  using byte_source.readn_correct [OF assms] by blast

theorem readn_total_witness:
  "\<exists>k'. readn stream_read 4 (''abcdef'', [Some 0, None, Some 1]) = Some (Count 4, ''abcd'', k') \<and>
    fst k' = ''ef''"
  using readn_total [OF src.byte_source_axioms, of 4 "(''abcdef'', [Some 0, None, Some 1])"]
  by (simp add: eval_nat_numeral)

text \<open>
  For every \<open>write\<close> that keeps the contract of a byte sink, \<open>writen\<close> returns the full
  count and the sink has received the whole buffer, once and in order.
\<close>

theorem writen_total:
  assumes "byte_sink wr written wbudget"
  shows "\<exists>k'. writen wr e0 buffer k = Some (Count (length buffer), k') \<and>
    written k' = written k @ buffer"
  using byte_sink.writen_correct [OF assms] by blast

theorem writen_total_witness:
  "\<exists>k'. writen stream_write 0 ''hello'' ([], [None, Some 1]) = Some (Count 5, k') \<and> fst k' = ''hello''"
  using writen_total [OF snk.byte_sink_axioms, of 0 "''hello''" "([], [None, Some 1])"]
  by (simp add: eval_nat_numeral)

text \<open>
  The error path: an error other than an interruption ends \<open>readn\<close> and \<open>writen\<close> at
  once with -1 and that \<open>errno\<close>, whatever had been transferred before.
\<close>

theorem rdwrn_errors:
  assumes "e \<noteq> EINTR" and "length buf < n" and "rd k (n - length buf) = (ReadErr e, k1)"
    and "todo \<noteq> []" and "wr k todo = (WriteErr e, k2)"
  shows "readn_loop rd n buf k = Some (Fail e, buf, k1) \<and>
    writen_loop wr e0 n todo k = Some (Fail e, k2)"
  using assms
  by (simp add: readn_loop.simps [of rd n buf k] writen_loop.simps [of wr e0 n todo k])

theorem rdwrn_errors_witness:
  "readn_loop (\<lambda>k n. (ReadErr 5, k)) 3 ''a'' () = Some (Fail 5, ''a'', ()) \<and>
   writen_loop (\<lambda>k b. (WriteErr 5, k)) 0 3 ''xy'' () = Some (Fail 5, ())"
  by (rule rdwrn_errors) (simp_all add: EINTR_def)

end
