(* ===== verification/Read_Line.thy ===== *)
theory Read_Line
  imports Rdwrn
begin

text \<open>
  \<open>src/tlpi-book/sockets/read_line.c\<close> and \<open>read_line_buf.c\<close>: two readers of text lines.
  \<open>readLine\<close> asks the kernel for one byte at a time, retries after a signal and closes the
  line with a null byte; \<open>readLineBuf\<close> reads blocks of \<open>RL_MAX_BUF\<close> bytes into a
  structure of its own and keeps what follows the line for the next call.  The locale
  \<open>line_source\<close> is the contract both provide to their clients.
\<close>

definition first_line :: "string \<Rightarrow> string" where
  "first_line s = (if nl \<in> set s then before s nl @ [nl] else s)"

definition rest_lines :: "string \<Rightarrow> string" where
  "rest_lines s = drop (length (first_line s)) s"

lemma first_line_rest [simp]: "first_line s @ rest_lines s = s"
proof (cases "strchr s nl")
  case None
  then show ?thesis by (simp add: first_line_def rest_lines_def)
next
  case (Some r)
  then obtain r' where s: "s = before s nl @ nl # r'" using strchr_Some_split by blast
  then have "first_line s = before s nl @ [nl]" by (metis first_line_def in_set_conv_decomp)
  with s show ?thesis by (metis append_eq_conv_conj append.assoc append_Cons append_Nil rest_lines_def)
qed

lemma first_line_empty [simp]: "first_line [] = []" "rest_lines [] = []"
  by (simp_all add: first_line_def rest_lines_def)

lemma first_line_Nil [simp]: "first_line s = [] \<longleftrightarrow> s = []"
  by (auto simp: first_line_def)

lemma first_line_Cons:
  "first_line (c # s) = (if c = nl then [nl] else c # first_line s)"
  by (auto simp: first_line_def before_def)

lemma rest_lines_Cons: "rest_lines (c # s) = (if c = nl then s else rest_lines s)"
  by (simp add: rest_lines_def first_line_Cons)

lemma rest_lines_shorter: "s \<noteq> [] \<Longrightarrow> length (rest_lines s) < length s"
  by (simp add: rest_lines_def)

section \<open>The contract\<close>

text \<open>
  \<open>get_line n h\<close> fills a buffer of \<open>n\<close> bytes from the input \<open>pending h\<close>: it consumes one
  line, stores at most \<open>cap n\<close> bytes of it and returns their number; the excess is
  dropped.  Never more than \<open>n\<close> bytes of the buffer are written.
\<close>

locale line_source =
  fixes get_line :: "nat \<Rightarrow> 'h \<Rightarrow> (io_ret \<times> string \<times> 'h) option"
    and pending :: "'h \<Rightarrow> string"
    and ok :: "'h \<Rightarrow> bool"
    and cap :: "nat \<Rightarrow> nat"
  assumes get_line: "ok h \<Longrightarrow> 0 < n \<Longrightarrow>
      \<exists>mem h'. get_line n h = Some (Count (min (cap n) (length (first_line (pending h)))), mem, h') \<and>
        take (cap n) (first_line (pending h)) = take (min (cap n) (length (first_line (pending h)))) mem \<and>
        length mem \<le> n \<and> pending h' = rest_lines (pending h) \<and> ok h'"

text \<open>A client: read lines until a call returns 0, with a bound on the number of calls.\<close>

fun read_lines ::
    "(nat \<Rightarrow> 'h \<Rightarrow> (io_ret \<times> string \<times> 'h) option) \<Rightarrow> nat \<Rightarrow> nat \<Rightarrow> 'h \<Rightarrow> string list option" where
  "read_lines get n 0 h = None"
| "read_lines get n (Suc fuel) h =
     (case get n h of
        Some (Count c, mem, h') \<Rightarrow>
          if c = 0 then Some [] else map_option (\<lambda>ls. take c mem # ls) (read_lines get n fuel h')
      | _ \<Rightarrow> None)"

context line_source
begin

lemma read_lines_all:
  assumes "ok h" "0 < n" "length (pending h) < fuel"
    and "\<forall>k. length (first_line (drop k (pending h))) \<le> cap n"
  shows "\<exists>ls. read_lines get_line n fuel h = Some ls \<and> concat ls = pending h"
  using assms
proof (induction fuel arbitrary: h)
  case 0
  then show ?case by simp
next
  case (Suc fuel)
  let ?l = "first_line (pending h)"
  have len: "length ?l \<le> cap n" using Suc.prems(4) [rule_format, of 0] by simp
  from get_line [OF Suc.prems(1,2)] obtain mem h' where
    g: "get_line n h = Some (Count (min (cap n) (length ?l)), mem, h')"
    and t: "take (cap n) ?l = take (min (cap n) (length ?l)) mem"
    and p: "pending h' = rest_lines (pending h)" and ok: "ok h'" by blast
  from len t have tx: "take (length ?l) mem = ?l" by (simp add: min_absorb2)
  show ?case
  proof (cases "pending h = []")
    case True
    with g len show ?thesis by simp
  next
    case False
    then have short: "length (pending h') < fuel"
      using rest_lines_shorter [OF False] p Suc.prems(3) by simp
    have "\<forall>k. length (first_line (drop k (pending h'))) \<le> cap n"
      using Suc.prems(4) p by (simp add: rest_lines_def)
    from Suc.IH [OF ok Suc.prems(2) short this] obtain ls where
      "read_lines get_line n fuel h' = Some ls" "concat ls = pending h'" by blast
    with g len tx False p show ?thesis by (simp add: min_absorb2)
  qed
qed

end

section \<open>\<open>readLine\<close>\<close>

partial_function (option) readLine_loop ::
    "'k reader \<Rightarrow> nat \<Rightarrow> string \<Rightarrow> 'k \<Rightarrow> (io_ret \<times> string \<times> 'k) option" where
  "readLine_loop rd n buf k =
     (case rd k 1 of
        (ReadErr e, k') \<Rightarrow>
          (if e = EINTR then readLine_loop rd n buf k' else Some (Fail e, buf, k'))
      | (Data bs, k') \<Rightarrow>
          (case bs of
             [] \<Rightarrow> (if length buf = 0 then Some (Count 0, buf, k')
                   else Some (Count (length buf), buf @ [CHR 0x00], k'))
           | ch # _ \<Rightarrow>
               (if ch = nl
                then (let buf' = (if length buf < n - 1 then buf @ [ch] else buf)
                      in Some (Count (length buf'), buf' @ [CHR 0x00], k'))
                else readLine_loop rd n (if length buf < n - 1 then buf @ [ch] else buf) k')))"

definition readLine ::
    "'k reader \<Rightarrow> bool \<Rightarrow> nat \<Rightarrow> 'k \<Rightarrow> (io_ret \<times> string \<times> 'k) option" where
  "readLine rd buffer_is_null n k =
     (if n = 0 \<or> buffer_is_null then Some (Fail EINVAL, [], k) else readLine_loop rd n [] k)"

lemma take_Suc_first_line:
  "c \<noteq> nl \<Longrightarrow>
   buf @ take (m - length buf) (first_line (c # s)) =
     (let buf' = (if length buf < m then buf @ [c] else buf)
      in buf' @ take (m - length buf') (first_line s))"
  by (cases "length buf < m") (auto simp: first_line_Cons Let_def dest!: less_imp_Suc_add)

context byte_source
begin

lemma readLine_loop_correct:
  assumes "length buf \<le> n - 1" "0 < n"
  shows "\<exists>mem k'. readLine_loop rd n buf k =
            Some (Count (length (buf @ take (n - 1 - length buf) (first_line (avail k)))), mem, k') \<and>
          (\<exists>t. mem = buf @ take (n - 1 - length buf) (first_line (avail k)) @ t \<and> length t \<le> 1) \<and>
          avail k' = rest_lines (avail k) \<and> budget k' \<le> budget k"
  using assms
proof (induction "length (avail k) + budget k" arbitrary: buf k rule: less_induct)
  case less
  obtain r k1 where r: "rd k 1 = (r, k1)" by fastforce
  note unfold = readLine_loop.simps [of rd n buf k]
  show ?case
  proof (cases r)
    case (ReadErr e)
    with r rd_intr have e: "e = EINTR" "avail k1 = avail k" "budget k1 < budget k" by blast+
    with less.hyps [of k1 buf] less.prems r ReadErr show ?thesis by (fastforce simp: unfold)
  next
    case (Data bs)
    with r rd_data [of k 1] have bs: "avail k = bs @ avail k1" "length bs \<le> 1" "budget k1 \<le> budget k"
      by auto
    show ?thesis
    proof (cases bs)
      case Nil
      with r Data rd_eof [of k 1 k1] have "avail k = []" by simp
      with Nil r Data bs show ?thesis by (auto simp: unfold rest_lines_def)
    next
      case (Cons ch t)
      with bs have av: "avail k = ch # avail k1" by simp
      show ?thesis
      proof (cases "ch = nl")
        case True
        with Cons av r Data bs less.prems show ?thesis
          by (auto simp: unfold Let_def first_line_Cons rest_lines_Cons)
      next
        case False
        let ?buf' = "if length buf < n - 1 then buf @ [ch] else buf"
        have "length ?buf' \<le> n - 1" using less.prems by auto
        with less.hyps [of k1 ?buf'] av bs less.prems(2) obtain mem k' where
          "readLine_loop rd n ?buf' k1 =
             Some (Count (length (?buf' @ take (n - 1 - length ?buf') (first_line (avail k1)))), mem, k')"
          "\<exists>t. mem = ?buf' @ take (n - 1 - length ?buf') (first_line (avail k1)) @ t \<and> length t \<le> 1"
          "avail k' = rest_lines (avail k1)" "budget k' \<le> budget k1" by fastforce
        moreover note take_Suc_first_line [OF False, of buf "n - 1" "avail k1"]
        moreover have "readLine_loop rd n buf k = readLine_loop rd n ?buf' k1"
          using r Data Cons False by (simp add: unfold)
        ultimately show ?thesis
          using av bs False by (fastforce simp: rest_lines_Cons Let_def)
      qed
    qed
  qed
qed

end

context byte_source
begin

lemma readLine_source: "line_source (readLine rd False) avail (\<lambda>_. True) (\<lambda>n. n - 1)"
proof unfold_locales
  fix k :: 'k and n :: nat
  assume n: "0 < n"
  let ?l = "first_line (avail k)"
  from readLine_loop_correct [of "[]" n k] n obtain mem k' t where
    "readLine_loop rd n [] k = Some (Count (length (take (n - 1) ?l)), mem, k')"
    "mem = take (n - 1) ?l @ t" "length t \<le> 1" "avail k' = rest_lines (avail k)" by auto
  with n show "\<exists>mem k'. readLine rd False n k = Some (Count (min (n - 1) (length ?l)), mem, k') \<and>
      take (n - 1) ?l = take (min (n - 1) (length ?l)) mem \<and> length mem \<le> n \<and>
      avail k' = rest_lines (avail k) \<and> True"
    by (intro exI [of _ mem] exI [of _ k']) (auto simp: readLine_def min_def)
qed

end

sublocale byte_source \<subseteq> rl: line_source "readLine rd False" avail "\<lambda>_. True" "\<lambda>n. n - 1"
  by (rule readLine_source)

section \<open>\<open>readLineBuf\<close>\<close>

definition RL_MAX_BUF :: nat where "RL_MAX_BUF = 10"

record ReadLineBuf =
  rl_buf :: string      \<comment> \<open>\<open>buf\<close>, as far as the last \<open>read\<close> filled it\<close>
  rl_next :: nat
  rl_len :: int

definition readLineBufInit :: "string \<Rightarrow> ReadLineBuf" where
  "readLineBufInit garbage = \<lparr>rl_buf = garbage, rl_next = 0, rl_len = 0\<rparr>"

text \<open>The refill at the head of the loop: an error, the end of file, or a buffer with an
  unread character.\<close>

datatype rlb_state = RlbErr int | RlbEof | RlbChar

definition rlb_fill ::
    "'k reader \<Rightarrow> ReadLineBuf \<Rightarrow> 'k \<Rightarrow> rlb_state \<times> ReadLineBuf \<times> 'k" where
  "rlb_fill rd b k =
     (if int (rl_next b) \<ge> rl_len b
      then (case rd k RL_MAX_BUF of
              (ReadErr e, k') \<Rightarrow> (RlbErr e, b\<lparr>rl_len := -1\<rparr>, k')
            | (Data bs, k') \<Rightarrow>
                (if bs = [] then (RlbEof, b\<lparr>rl_len := 0\<rparr>, k')
                 else (RlbChar, b\<lparr>rl_buf := bs, rl_len := int (length bs), rl_next := 0\<rparr>, k')))
      else (RlbChar, b, k))"

partial_function (option) readLineBuf_loop ::
    "'k reader \<Rightarrow> nat \<Rightarrow> string \<Rightarrow> ReadLineBuf \<times> 'k \<Rightarrow> (io_ret \<times> string \<times> (ReadLineBuf \<times> 'k)) option" where
  "readLineBuf_loop rd n buffer h =
     (case rlb_fill rd (fst h) (snd h) of
        (RlbErr e, h') \<Rightarrow> Some (Fail e, buffer, h')
      | (RlbEof, h') \<Rightarrow> Some (Count (length buffer), buffer, h')
      | (RlbChar, (b, k)) \<Rightarrow>
          (let c = rl_buf b ! rl_next b;
               b' = b\<lparr>rl_next := rl_next b + 1\<rparr>;
               buffer' = (if length buffer < n then buffer @ [c] else buffer)
           in if c = nl then Some (Count (length buffer'), buffer', (b', k))
              else readLineBuf_loop rd n buffer' (b', k)))"

definition readLineBuf ::
    "'k reader \<Rightarrow> bool \<Rightarrow> nat \<Rightarrow> ReadLineBuf \<times> 'k \<Rightarrow> (io_ret \<times> string \<times> (ReadLineBuf \<times> 'k)) option" where
  "readLineBuf rd buffer_is_null n h =
     (if n = 0 \<or> buffer_is_null then Some (Fail EINVAL, [], h) else readLineBuf_loop rd n [] h)"

text \<open>What the structure still holds, and its invariant: the valid part of \<open>buf\<close> is what
  the last \<open>read\<close> stored.\<close>

definition rlb_held :: "ReadLineBuf \<Rightarrow> string" where
  "rlb_held b = (if int (rl_next b) \<ge> rl_len b then [] else drop (rl_next b) (rl_buf b))"

definition rlb_ok :: "ReadLineBuf \<Rightarrow> bool" where
  "rlb_ok b \<longleftrightarrow> rl_len b \<le> 0 \<or> rl_len b = int (length (rl_buf b))"

text \<open>\<open>readLineBuf\<close> gives up on an interrupted \<open>read\<close>, so its contract needs a source
  whose calls are not interrupted (signals blocked, or handlers set with
  \<open>SA_RESTART\<close>).\<close>

locale steady_source = byte_source +
  assumes steady: "rd k n \<noteq> (ReadErr e, k')"
begin

lemma rlb_fill_cases:
  assumes "rlb_ok b"
  obtains (eof) k' b' where "rlb_fill rd b k = (RlbEof, b', k')" "rlb_held b' = []" "rlb_held b = []"
      "avail k = []" "avail k' = []" "rlb_ok b'"
  | (char) c b' k' where "rlb_fill rd b k = (RlbChar, b', k')" "rlb_ok b'"
      "rl_buf b' ! rl_next b' = c" "rlb_ok (b'\<lparr>rl_next := rl_next b' + 1\<rparr>)"
      "rlb_held b @ avail k = c # rlb_held (b'\<lparr>rl_next := rl_next b' + 1\<rparr>) @ avail k'"
proof (cases "int (rl_next b) \<ge> rl_len b")
  case False
  with assms have "rl_next b < length (rl_buf b)" by (auto simp: rlb_ok_def)
  then have "drop (rl_next b) (rl_buf b) = (rl_buf b ! rl_next b) # drop (Suc (rl_next b)) (rl_buf b)"
    by (rule Cons_nth_drop_Suc [symmetric])
  with False assms show ?thesis
    by (intro char [of b k]) (auto simp: rlb_fill_def rlb_held_def rlb_ok_def)
next
  case True
  obtain bs k1 where r: "rd k RL_MAX_BUF = (Data bs, k1)"
    using steady by (metis io_read.exhaust surj_pair)
  have n: "0 < RL_MAX_BUF" by (simp add: RL_MAX_BUF_def)
  from rd_data [OF r n] have av: "avail k = bs @ avail k1" by simp
  show ?thesis
  proof (cases "bs = []")
    case True
    with rd_eof [of k RL_MAX_BUF k1] r n have "avail k = []" by simp
    with True av r \<open>int (rl_next b) \<ge> rl_len b\<close> show ?thesis
      by (intro eof [of "b\<lparr>rl_len := 0\<rparr>" k1]) (auto simp: rlb_fill_def rlb_held_def rlb_ok_def)
  next
    case False
    then have "bs = bs ! 0 # drop 1 bs" by (cases bs) auto
    with False av r True show ?thesis
      by (intro char [of "b\<lparr>rl_buf := bs, rl_len := int (length bs), rl_next := 0\<rparr>" k1])
        (auto simp: rlb_fill_def rlb_held_def rlb_ok_def)
  qed
qed

lemma readLineBuf_loop_correct:
  assumes "rlb_ok b" "length buffer \<le> n"
  shows "\<exists>b' k'. readLineBuf_loop rd n buffer (b, k) =
      (let out = buffer @ take (n - length buffer) (first_line (rlb_held b @ avail k))
       in Some (Count (length out), out, (b', k'))) \<and>
      rlb_held b' @ avail k' = rest_lines (rlb_held b @ avail k) \<and> rlb_ok b'"
  using assms
proof (induction "length (rlb_held b @ avail k)" arbitrary: b k buffer rule: less_induct)
  case less
  note unfold = readLineBuf_loop.simps [of rd n buffer "(b, k)"]
  from less.prems(1) show ?case
  proof (cases rule: rlb_fill_cases [where k = k])
    case (eof k' b')
    then show ?thesis by (simp add: unfold rest_lines_def)
  next
    case (char c b' k')
    let ?b'' = "b'\<lparr>rl_next := rl_next b' + 1\<rparr>"
    let ?out = "if length buffer < n then buffer @ [c] else buffer"
    show ?thesis
    proof (cases "c = nl")
      case True
      with char less.prems show ?thesis
        by (auto simp: unfold Let_def first_line_Cons rest_lines_Cons)
    next
      case False
      have "length ?out \<le> n" using less.prems(2) by auto
      with less.hyps [of ?b'' k' ?out] char obtain b1 k1 where
        "readLineBuf_loop rd n ?out (?b'', k') =
          (let out = ?out @ take (n - length ?out) (first_line (rlb_held ?b'' @ avail k'))
           in Some (Count (length out), out, (b1, k1)))"
        "rlb_held b1 @ avail k1 = rest_lines (rlb_held ?b'' @ avail k')" "rlb_ok b1" by auto
      moreover have "readLineBuf_loop rd n buffer (b, k) = readLineBuf_loop rd n ?out (?b'', k')"
        using char False by (simp add: unfold Let_def)
      moreover note take_Suc_first_line [OF False, of buffer n "rlb_held ?b'' @ avail k'"]
      ultimately show ?thesis
        using char(5) False by (auto simp: rest_lines_Cons Let_def simp del: append_assoc)
    qed
  qed
qed

end

sublocale steady_source \<subseteq>
  rlb: line_source "readLineBuf rd False" "\<lambda>h. rlb_held (fst h) @ avail (snd h)" "\<lambda>h. rlb_ok (fst h)" "\<lambda>n. n"
proof unfold_locales
  fix h :: "ReadLineBuf \<times> 'a" and n :: nat
  assume ok: "rlb_ok (fst h)" and n: "0 < n"
  let ?l = "first_line (rlb_held (fst h) @ avail (snd h))"
  from readLineBuf_loop_correct [OF ok, of "[]" n "snd h"] obtain b' k' where
    "readLineBuf_loop rd n [] h = Some (Count (length (take n ?l)), take n ?l, (b', k'))"
    and rest: "rlb_held b' @ avail k' = rest_lines (rlb_held (fst h) @ avail (snd h))" "rlb_ok b'"
    by (auto simp: Let_def)
  with n have "readLineBuf rd False n h = Some (Count (min n (length ?l)), take n ?l, (b', k'))"
    by (simp add: readLineBuf_def min.commute)
  with rest show "\<exists>mem h'. readLineBuf rd False n h = Some (Count (min n (length ?l)), mem, h') \<and>
      take n ?l = take (min n (length ?l)) mem \<and> length mem \<le> n \<and>
      rlb_held (fst h') @ avail (snd h') = rest_lines (rlb_held (fst h) @ avail (snd h)) \<and>
      rlb_ok (fst h')"
    by (intro exI [of _ "take n ?l"] exI [of _ "(b', k')"]) (simp add: min_def)
qed

section \<open>Instances on streams\<close>

text \<open>A stream whose calls are never interrupted, and the line readers on both kinds of
  stream.\<close>

fun steady_read :: "string \<times> nat list \<Rightarrow> nat \<Rightarrow> io_read \<times> (string \<times> nat list)" where
  "steady_read (bs, []) n = (Data (take n bs), (drop n bs, []))"
| "steady_read (bs, m # sch) n =
     (Data (take (min n (Suc m)) bs), (drop (min n (Suc m)) bs, sch))"

interpretation steady: steady_source steady_read fst "\<lambda>k. length (snd k)"
proof unfold_locales
  fix k k' :: "string \<times> nat list" and n bs
  assume "steady_read k n = (Data bs, k')" and "0 < n"
  then show "fst k = bs @ fst k' \<and> length bs \<le> n \<and> length (snd k') \<le> length (snd k)"
    by (cases "(k, n)" rule: steady_read.cases) auto
next
  fix k k' :: "string \<times> nat list" and n
  assume "steady_read k n = (Data [], k')" and "0 < n"
  then show "fst k = []"
    by (cases "(k, n)" rule: steady_read.cases) auto
next
  fix k k' :: "string \<times> nat list" and n e
  assume "steady_read k n = (ReadErr e, k')"
  then show "e = EINTR \<and> fst k' = fst k \<and> length (snd k') < length (snd k)"
    by (cases "(k, n)" rule: steady_read.cases) auto
next
  fix k k' :: "string \<times> nat list" and n e
  show "steady_read k n \<noteq> (ReadErr e, k')"
    by (cases "(k, n)" rule: steady_read.cases) auto
qed

text \<open>
  \<open>readLine\<close> on any byte source returns, consumes exactly one line of the input, and
  leaves in the caller's buffer the first \<open>n - 1\<close> bytes of that line; it writes no byte
  beyond the \<open>n\<close> of the buffer, and interrupted calls do not show.
\<close>

theorem readLine_total:
  assumes "byte_source rd avail budget" and "0 < n"
  shows "\<exists>mem k'. readLine rd False n k =
      Some (Count (min (n - 1) (length (first_line (avail k)))), mem, k') \<and>
    take (n - 1) (first_line (avail k)) = take (min (n - 1) (length (first_line (avail k)))) mem \<and>
    length mem \<le> n \<and> avail k' = rest_lines (avail k)"
proof -
  from assms(1) have "line_source (readLine rd False) avail (\<lambda>_. True) (\<lambda>n. n - 1)"
    by (rule byte_source.readLine_source)
  from line_source.get_line [OF this, of n k] assms(2) show ?thesis by blast
qed

theorem readLine_total_witness:
  "\<exists>mem k'. readLine stream_read False 4 (''abcdef'' @ nl # ''xy'', [None]) = Some (Count 3, mem, k') \<and>
    ''abc'' = take 3 mem \<and> length mem \<le> 4 \<and> fst k' = ''xy''"
  using readLine_total [OF src.byte_source_axioms, of 4 "(''abcdef'' @ nl # ''xy'', [None])"]
  by (simp add: first_line_def rest_lines_def before_def eval_nat_numeral)

text \<open>
  C38. \<open>readLineBuf\<close> keeps its structure consistent and, counting what the structure holds
  as input still to be read, returns, consumes exactly one line and stores its first \<open>n\<close>
  bytes.
\<close>

theorem readLineBuf_total:
  assumes "steady_source rd avail budget" and "0 < n" and "rlb_ok b"
  shows "\<exists>mem b' k'. readLineBuf rd False n (b, k) =
      Some (Count (length mem), mem, (b', k')) \<and>
    mem = take n (first_line (rlb_held b @ avail k)) \<and>
    rlb_held b' @ avail k' = rest_lines (rlb_held b @ avail k) \<and> rlb_ok b'"
  using steady_source.readLineBuf_loop_correct [OF assms(1,3), of "[]" n k] assms(2)
  by (auto simp: readLineBuf_def Let_def)

theorem readLineBuf_total_witness:
  "\<exists>mem b' k'. readLineBuf steady_read False 80 (readLineBufInit ''junk'', (''hello'' @ nl # ''more'', [2])) =
      Some (Count (length mem), mem, (b', k')) \<and>
    mem = ''hello'' @ [nl] \<and> rlb_held b' @ fst k' = ''more''"
proof -
  have "rlb_ok (readLineBufInit ''junk'')" and "rlb_held (readLineBufInit ''junk'') = []"
    by (simp_all add: readLineBufInit_def rlb_ok_def rlb_held_def)
  with readLineBuf_total [OF steady.steady_source_axioms, of 80 "readLineBufInit ''junk''"
      "(''hello'' @ nl # ''more'', [2])"]
  show ?thesis by (simp add: first_line_def rest_lines_def before_def) blast
qed

text \<open>
  Both readers cut a stream into the same lines: a client that reads until a call
  returns 0, with a buffer every line fits, recovers the whole stream.
\<close>

theorem line_readers_reassemble:
  assumes "0 < n" and "\<forall>j. length (first_line (drop j s)) \<le> n - 1"
  shows "(\<exists>ls. read_lines (readLine stream_read False) n (Suc (length s)) (s, sch) = Some ls \<and>
            concat ls = s) \<and>
         (\<exists>ls. read_lines (readLineBuf steady_read False) n (Suc (length s))
              (readLineBufInit g, (s, chunks)) = Some ls \<and> concat ls = s)"
proof
  show "\<exists>ls. read_lines (readLine stream_read False) n (Suc (length s)) (s, sch) = Some ls \<and>
      concat ls = s"
    using src.rl.read_lines_all [where h = "(s, sch)" and n = n and fuel = "Suc (length s)"] assms by simp
  have "\<forall>j. length (first_line (drop j s)) \<le> n"
    using assms(2) by (meson diff_le_self le_trans)
  then show "\<exists>ls. read_lines (readLineBuf steady_read False) n (Suc (length s))
      (readLineBufInit g, (s, chunks)) = Some ls \<and> concat ls = s"
    using steady.rlb.read_lines_all [where h = "(readLineBufInit g, (s, chunks))" and n = n and fuel = "Suc (length s)"] assms(1)
    by (simp add: readLineBufInit_def rlb_ok_def rlb_held_def)
qed

theorem line_readers_reassemble_witness:
  "\<exists>ls. read_lines (readLine stream_read False) 20 6 (''ab'' @ nl # ''cd'', [None, Some 1]) = Some ls \<and>
     concat ls = ''ab'' @ nl # ''cd''"
proof -
  have "\<forall>j. length (first_line (drop j (''ab'' @ nl # ''cd''))) \<le> 20 - 1"
  proof
    fix j
    have "length (first_line (drop j (''ab'' @ nl # ''cd''))) \<le> length (drop j (''ab'' @ nl # ''cd''))"
      by (metis append_eq_conv_conj first_line_rest length_append le_add1)
    then show "length (first_line (drop j (''ab'' @ nl # ''cd''))) \<le> 20 - 1"
      by simp
  qed
  from line_readers_reassemble [OF _ this, of "[None, Some 1]" "[]" "[]"] show ?thesis
    by (simp add: eval_nat_numeral)
qed

end
