(* ===== verification/Watch_Cache.thy ===== *)
theory Watch_Cache
  imports Prelude
begin

text \<open>
  The watch list cache of \<open>src/tlpi-book/inotify/inotify_dtree.c\<close>: the program's global
  state, its log, and the functions on the array \<open>wlCache\<close>.  The second half gives the
  abstract view of the array, a finite map from watch descriptors to pathnames, and the
  contract \<open>watch_table\<close> that the array implements.

  The kernel, the allocator and the contents of fresh memory are parameters, collected in
  the record \<open>kops\<close>; the kernel's own state is the field \<open>kern\<close>.  A log message is kept
  as its format string and arguments.
\<close>

section \<open>State\<close>

datatype arg = AInt int | AStr string
type_synonym message = "string \<times> arg list"

record watch =
  wd :: int
  path :: string

datatype lstat_res = LstatFail int | LstatOk bool nat nat   \<comment> \<open>directory?, inode, device\<close>

record inotify_event =
  ev_wd :: int
  ev_mask :: "32 word"
  ev_cookie :: "32 word"
  ev_len :: nat
  ev_name :: string

record 'k kops =
  k_lstat :: "string \<Rightarrow> 'k \<Rightarrow> lstat_res \<times> 'k"
  k_add_watch :: "int \<Rightarrow> string \<Rightarrow> 32 word \<Rightarrow> 'k \<Rightarrow> (int + int) \<times> 'k"   \<comment> \<open>errno or wd\<close>
  k_rm_watch :: "int \<Rightarrow> int \<Rightarrow> 'k \<Rightarrow> int option \<times> 'k"                  \<comment> \<open>errno on failure\<close>
  k_inotify_init :: "'k \<Rightarrow> (int + int) \<times> 'k"
  k_close :: "int \<Rightarrow> 'k \<Rightarrow> 'k"
  k_nftw :: "string \<Rightarrow> 'k \<Rightarrow> ((string \<times> bool) list \<times> int option) \<times> 'k"
      \<comment> \<open>the calls \<open>nftw\<close> makes to its callback (pathname, directory?) and its error\<close>
  k_read :: "int \<Rightarrow> nat \<Rightarrow> 'k \<Rightarrow> (int + inotify_event list) \<times> 'k"
  k_stdin :: "'k \<Rightarrow> string option \<times> 'k"   \<comment> \<open>a line typed by the user; \<open>None\<close>: \<open>read\<close> gave 0 or -1\<close>
  k_alloc :: "nat \<Rightarrow> 'k \<Rightarrow> bool \<times> 'k"    \<comment> \<open>does an allocation of so many bytes succeed?\<close>
  k_junk :: "'k \<Rightarrow> nat \<Rightarrow> watch"          \<comment> \<open>contents of memory fresh from \<open>realloc\<close>\<close>
  k_create :: "string option \<Rightarrow> 'k \<Rightarrow> 'k"   \<comment> \<open>\<open>open(\<dots>, O_CREAT | O_RDWR)\<close>\<close>
  k_write_file :: "string \<Rightarrow> message list \<Rightarrow> 'k \<Rightarrow> 'k"
  k_fopen :: "string \<Rightarrow> 'k \<Rightarrow> int option \<times> 'k"                    \<comment> \<open>errno on failure\<close>
  k_strerror :: "int \<Rightarrow> string"

record 'k dtree =
  verboseMask :: "32 word"
  checkCache :: bool
  dumpCache :: bool
  readBufferSize :: int
  stopFile :: "string option"
  abortOnCacheProblem :: bool
  logfp :: "message list option"      \<comment> \<open>\<open>None\<close> for the null pointer\<close>
  err_log :: "message list"           \<comment> \<open>written to \<open>stderr\<close>\<close>
  out_log :: "message list"           \<comment> \<open>written to \<open>stdout\<close>\<close>
  inotifyReadCnt :: nat
  wlCache :: "watch list"             \<comment> \<open>\<open>cacheSize\<close> is its length\<close>
  rootDirPaths :: "string option list"
  ignoreRootDirs :: nat
  rootDirStat :: "(nat \<times> nat) list"
  dirCnt :: nat
  reinitCnt :: nat
  overflowCnt :: nat
  kern :: 'k

definition VB_BASIC :: "32 word" where "VB_BASIC = 1"
definition VB_NOISY :: "32 word" where "VB_NOISY = 2"
definition PATH_MAX :: nat where "PATH_MAX = 4096"
definition ENOENT :: int where "ENOENT = 2"
definition ENOMEM :: int where "ENOMEM = 12"

definition IN_MOVED_FROM :: "32 word" where "IN_MOVED_FROM = 0x40"
definition IN_MOVED_TO :: "32 word" where "IN_MOVED_TO = 0x80"
definition IN_CREATE :: "32 word" where "IN_CREATE = 0x100"
definition IN_DELETE_SELF :: "32 word" where "IN_DELETE_SELF = 0x400"
definition IN_MOVE_SELF :: "32 word" where "IN_MOVE_SELF = 0x800"
definition IN_UNMOUNT :: "32 word" where "IN_UNMOUNT = 0x2000"
definition IN_Q_OVERFLOW :: "32 word" where "IN_Q_OVERFLOW = 0x4000"
definition IN_IGNORED :: "32 word" where "IN_IGNORED = 0x8000"
definition IN_ONLYDIR :: "32 word" where "IN_ONLYDIR = 0x1000000"
definition IN_ISDIR :: "32 word" where "IN_ISDIR = 0x40000000"

lemmas IN_defs = IN_MOVED_FROM_def IN_MOVED_TO_def IN_CREATE_def IN_DELETE_SELF_def
  IN_MOVE_SELF_def IN_UNMOUNT_def IN_Q_OVERFLOW_def IN_IGNORED_def IN_ONLYDIR_def IN_ISDIR_def

section \<open>Logging\<close>

definition logMessage :: "32 word \<Rightarrow> string \<Rightarrow> arg list \<Rightarrow> 'k dtree \<Rightarrow> 'k dtree" where
  "logMessage vb_mask fmt args s =
     (let s1 = (if vb_mask = 0 \<or> vb_mask AND verboseMask s \<noteq> 0
                then s\<lparr>err_log := err_log s @ [(fmt, args)]\<rparr> else s)
      in case logfp s1 of
           None \<Rightarrow> s1
         | Some l \<Rightarrow> s1\<lparr>logfp := Some (l @ [(fmt, args)])\<rparr>)"

definition fprintf_stderr :: "string \<Rightarrow> arg list \<Rightarrow> 'k dtree \<Rightarrow> 'k dtree" where
  "fprintf_stderr fmt args s = s\<lparr>err_log := err_log s @ [(fmt, args)]\<rparr>"

definition printf :: "string \<Rightarrow> arg list \<Rightarrow> 'k dtree \<Rightarrow> 'k dtree" where
  "printf fmt args s = s\<lparr>out_log := out_log s @ [(fmt, args)]\<rparr>"

text \<open>The macro \<open>errExit\<close> of this file: \<open>perror\<close> and \<open>exit(EXIT_FAILURE)\<close>.\<close>

definition errExit_macro :: "'k kops \<Rightarrow> string \<Rightarrow> int \<Rightarrow> 'k dtree \<Rightarrow> ('a, 'k dtree) outcome" where
  "errExit_macro K msg e s = Exited 1 (fprintf_stderr ''%s: %s'' [AStr msg, AStr (k_strerror K e)] s)"

definition mask_names :: "(32 word \<times> string) list" where
  "mask_names =
     [(IN_ISDIR, ''IN_ISDIR ''), (IN_CREATE, ''IN_CREATE ''), (IN_DELETE_SELF, ''IN_DELETE_SELF ''),
      (IN_MOVE_SELF, ''IN_MOVE_SELF ''), (IN_MOVED_FROM, ''IN_MOVED_FROM ''),
      (IN_MOVED_TO, ''IN_MOVED_TO ''), (IN_IGNORED, ''IN_IGNORED ''),
      (IN_Q_OVERFLOW, ''IN_Q_OVERFLOW ''), (IN_UNMOUNT, ''IN_UNMOUNT '')]"

definition displayInotifyEvent :: "inotify_event \<Rightarrow> 'k dtree \<Rightarrow> 'k dtree" where
  "displayInotifyEvent ev s =
     (let s = logMessage VB_NOISY ''==> wd = %d; '' [AInt (ev_wd ev)] s;
          s = (if ev_cookie ev > 0
               then logMessage VB_NOISY ''cookie = %4d; '' [AInt (sint (ev_cookie ev))] s else s);
          s = logMessage VB_NOISY ''mask = '' [] s;
          s = fold (\<lambda>(flag, name) s. if ev_mask ev AND flag \<noteq> 0 then logMessage VB_NOISY name [] s else s)
                mask_names s;
          s = logMessage VB_NOISY [nl] [] s
      in if ev_len ev > 0
         then logMessage VB_NOISY ''        name = %s\<newline>'' [AStr (ev_name ev)] s else s)"

section \<open>The array\<close>

definition freeCache :: "'k dtree \<Rightarrow> 'k dtree" where
  "freeCache s = s\<lparr>wlCache := []\<rparr>"

text \<open>The linear searches of the file: the first slot from \<open>j\<close> on that satisfies \<open>P\<close>,
  -1 if there is none.\<close>

fun find_slot :: "(watch \<Rightarrow> bool) \<Rightarrow> nat \<Rightarrow> watch list \<Rightarrow> int" where
  "find_slot P j [] = -1"
| "find_slot P j (w # ws) = (if P w then int j else find_slot P (Suc j) ws)"

definition findWatch :: "int \<Rightarrow> 'k dtree \<Rightarrow> int" where
  "findWatch d s = find_slot (\<lambda>w. wd w = d) 0 (wlCache s)"

text \<open>\<open>checkCacheConsistency\<close>: the loop over the slots \<open>js\<close> with the failures so far.\<close>

fun checkCache_loop :: "'k kops \<Rightarrow> nat list \<Rightarrow> nat \<Rightarrow> 'k dtree \<Rightarrow> (nat, 'k dtree) outcome" where
  "checkCache_loop K [] failures s = Ret failures s"
| "checkCache_loop K (j # js) failures s =
     (let w = wlCache s ! j in
      if wd w \<ge> 0 then
        (case k_lstat K (path w) (kern s) of
           (LstatFail e, k) \<Rightarrow>
             checkCache_loop K js (Suc failures)
               (logMessage 0 ''checkCacheConsistency: stat: [slot = %d; wd = %d] %s: %s\<newline>''
                  [AInt (int j), AInt (wd w), AStr (path w), AStr (k_strerror K e)] (s\<lparr>kern := k\<rparr>))
         | (LstatOk isdir ino dev, k) \<Rightarrow>
             if \<not> isdir
             then Exited 1 (logMessage 0 ''checkCacheConsistency: %s is not a directory\<newline>''
                              [AStr (path w)] (s\<lparr>kern := k\<rparr>))
             else checkCache_loop K js failures (s\<lparr>kern := k\<rparr>))
      else checkCache_loop K js failures s)"

definition checkCacheConsistency :: "'k kops \<Rightarrow> 'k dtree \<Rightarrow> (unit, 'k dtree) outcome" where
  "checkCacheConsistency K s =
     andThen (checkCache_loop K [0..<length (wlCache s)] 0 s)
       (\<lambda>failures s. Ret () (if failures > 0
          then logMessage VB_NOISY ''checkCacheConsistency: %d failures\<newline>'' [AInt (int failures)] s
          else s))"

text \<open>\<open>dumpCacheToLog\<close> writes through \<open>logfp\<close> without a test for the null pointer.\<close>

definition dump_lines :: "watch list \<Rightarrow> message list" where
  "dump_lines ws =
     map (\<lambda>(j, w). (''%d: wd = %d; %s\<newline>'', [AInt (int j), AInt (wd w), AStr (path w)]))
       (filter (\<lambda>(j, w). wd w \<ge> 0) (zip [0..<length ws] ws))"

definition dumpCacheToLog :: "'k dtree \<Rightarrow> (unit, 'k dtree) outcome" where
  "dumpCacheToLog s =
     (case logfp s of
        None \<Rightarrow> Undefd
      | Some l \<Rightarrow> Ret () (s\<lparr>logfp := Some (l @ dump_lines (wlCache s) @
          [(''Total entries: %d\<newline>'', [AInt (int (length (dump_lines (wlCache s))))])])\<rparr>))"

definition createStopFileAndAbort :: "'k kops \<Rightarrow> 'k dtree \<Rightarrow> ('a, 'k dtree) outcome" where
  "createStopFileAndAbort K s =
     andThen (dumpCacheToLog (s\<lparr>kern := k_create K (stopFile s) (kern s)\<rparr>)) (\<lambda>_ s. Aborted s)"

definition findWatchChecked :: "'k kops \<Rightarrow> int \<Rightarrow> 'k dtree \<Rightarrow> (int, 'k dtree) outcome" where
  "findWatchChecked K d s =
     (let slot = findWatch d s in
      if slot \<ge> 0 then Ret slot s
      else (let s = logMessage 0 ''Could not find watch %d\<newline>'' [AInt d] s in
            if abortOnCacheProblem s then createStopFileAndAbort K s else Ret (-1) s))"

definition empty_watch :: watch where
  "empty_watch = \<lparr>wd = -1, path = []\<rparr>"

definition markCacheSlotEmpty :: "nat \<Rightarrow> 'k dtree \<Rightarrow> (unit, 'k dtree) outcome" where
  "markCacheSlotEmpty slot s =
     (if slot < length (wlCache s)
      then (let s = logMessage VB_NOISY
                  ''        markCacheSlotEmpty: slot = %d;  wd = %d; path = %s\<newline>''
                  [AInt (int slot), AInt (wd (wlCache s ! slot)), AStr (path (wlCache s ! slot))] s
            in Ret () (s\<lparr>wlCache := (wlCache s)[slot := empty_watch]\<rparr>))
      else Undefd)"

fun mark_slots :: "nat list \<Rightarrow> 'k dtree \<Rightarrow> (unit, 'k dtree) outcome" where
  "mark_slots [] s = Ret () s"
| "mark_slots (j # js) s = andThen (markCacheSlotEmpty j s) (\<lambda>_ s. mark_slots js s)"

definition ALLOC_INCR :: nat where "ALLOC_INCR = 200"

definition sizeof_watch :: nat where "sizeof_watch = 4 + PATH_MAX"

definition findEmptyCacheSlot :: "'k kops \<Rightarrow> 'k dtree \<Rightarrow> (nat, 'k dtree) outcome" where
  "findEmptyCacheSlot K s =
     (let j = find_slot (\<lambda>w. wd w = -1) 0 (wlCache s) in
      if j \<ge> 0 then Ret (nat j) s
      else
        (let cacheSize = length (wlCache s) + ALLOC_INCR;
             (got, k) = k_alloc K (cacheSize * sizeof_watch) (kern s)
         in if \<not> got then errExit_macro K ''realloc'' ENOMEM (s\<lparr>kern := k, wlCache := []\<rparr>)
            else andThen (mark_slots [cacheSize - ALLOC_INCR..<cacheSize]
                   (s\<lparr>kern := k, wlCache := wlCache s @ map (k_junk K k) [0..<ALLOC_INCR]\<rparr>))
                 (\<lambda>_ s. Ret (cacheSize - ALLOC_INCR) s)))"

text \<open>A pathname that leaves \<open>strncpy\<close> no room for the terminator makes later uses of the
  slot as a string undefined.\<close>

definition addWatchToCache :: "'k kops \<Rightarrow> int \<Rightarrow> string \<Rightarrow> 'k dtree \<Rightarrow> (nat, 'k dtree) outcome" where
  "addWatchToCache K d pathname s =
     andThen (findEmptyCacheSlot K s)
       (\<lambda>slot s. if length pathname < PATH_MAX
                 then Ret slot (s\<lparr>wlCache := (wlCache s)[slot := \<lparr>wd = d, path = pathname\<rparr>]\<rparr>)
                 else Undefd)"

definition pathnameToCacheSlot :: "string \<Rightarrow> 'k dtree \<Rightarrow> int" where
  "pathnameToCacheSlot pathname s = find_slot (\<lambda>w. wd w \<ge> 0 \<and> path w = pathname) 0 (wlCache s)"

definition pathnameInCache :: "string \<Rightarrow> 'k dtree \<Rightarrow> bool" where
  "pathnameInCache pathname s \<longleftrightarrow> pathnameToCacheSlot pathname s \<ge> 0"

section \<open>What the operations leave alone\<close>

named_theorems frame_simps \<open>fields of the state an operation does not write\<close>

lemma logMessage_frame [simp, frame_simps]:
  "wlCache (logMessage m f a s) = wlCache s" "rootDirPaths (logMessage m f a s) = rootDirPaths s"
  "ignoreRootDirs (logMessage m f a s) = ignoreRootDirs s" "kern (logMessage m f a s) = kern s"
  "dirCnt (logMessage m f a s) = dirCnt s" "verboseMask (logMessage m f a s) = verboseMask s"
  "abortOnCacheProblem (logMessage m f a s) = abortOnCacheProblem s"
  "logfp (logMessage m f a s) = None \<longleftrightarrow> logfp s = None"
  "checkCache (logMessage m f a s) = checkCache s" "dumpCache (logMessage m f a s) = dumpCache s"
  "reinitCnt (logMessage m f a s) = reinitCnt s" "overflowCnt (logMessage m f a s) = overflowCnt s"
  "rootDirStat (logMessage m f a s) = rootDirStat s" "inotifyReadCnt (logMessage m f a s) = inotifyReadCnt s"
  by (auto simp: logMessage_def Let_def split: option.splits)

lemma printf_frame [simp, frame_simps]:
  "wlCache (fprintf_stderr f a s) = wlCache s" "wlCache (printf f a s) = wlCache s"
  "rootDirPaths (fprintf_stderr f a s) = rootDirPaths s" "rootDirPaths (printf f a s) = rootDirPaths s"
  "ignoreRootDirs (fprintf_stderr f a s) = ignoreRootDirs s" "ignoreRootDirs (printf f a s) = ignoreRootDirs s"
  "kern (fprintf_stderr f a s) = kern s" "kern (printf f a s) = kern s"
  "logfp (printf f a s) = logfp s" "logfp (fprintf_stderr f a s) = logfp s"
  "dirCnt (printf f a s) = dirCnt s"
  by (simp_all add: fprintf_stderr_def printf_def)

lemma displayInotifyEvent_field:
  fixes f :: "'k dtree \<Rightarrow> 'b"
  assumes log: "\<And>m t a s. f (logMessage m t a s) = f s"
  shows "f (displayInotifyEvent ev s) = f s"
proof -
  have fold: "f (fold (\<lambda>(flag, name) s. if c flag then logMessage VB_NOISY name [] s else s) xs s) = f s"
    for c :: "32 word \<Rightarrow> bool" and xs s
    by (induction xs arbitrary: s) (auto simp: log)
  show ?thesis by (simp add: displayInotifyEvent_def Let_def log fold)
qed

lemmas displayInotifyEvent_frame [simp, frame_simps] =
  displayInotifyEvent_field [where f = wlCache, OF logMessage_frame(1)]
  displayInotifyEvent_field [where f = rootDirPaths, OF logMessage_frame(2)]
  displayInotifyEvent_field [where f = ignoreRootDirs, OF logMessage_frame(3)]
  displayInotifyEvent_field [where f = kern, OF logMessage_frame(4)]
  displayInotifyEvent_field [where f = abortOnCacheProblem, OF logMessage_frame(7)]
  displayInotifyEvent_field [where f = "\<lambda>s. logfp s = None", OF logMessage_frame(8)]

section \<open>Searching\<close>

lemma find_slot_None: "find_slot P j ws = -1 \<longleftrightarrow> (\<forall>w\<in>set ws. \<not> P w)"
  by (induction P j ws rule: find_slot.induct) auto

lemma find_slot_range: "find_slot P j ws = -1 \<or> int j \<le> find_slot P j ws"
  by (induction P j ws rule: find_slot.induct) (auto split: if_splits)

lemma find_slot_found:
  "find_slot P j ws \<noteq> -1 \<Longrightarrow>
   \<exists>i. find_slot P j ws = int (j + i) \<and> i < length ws \<and> P (ws ! i) \<and> (\<forall>m<i. \<not> P (ws ! m))"
proof (induction P j ws rule: find_slot.induct)
  case (1 P j)
  then show ?case by simp
next
  case (2 P j w ws)
  show ?case
  proof (cases "P w")
    case True
    then show ?thesis by (intro exI [of _ 0]) simp
  next
    case False
    with 2 obtain i where "find_slot P (Suc j) ws = int (Suc j + i)" "i < length ws" "P (ws ! i)"
      "\<forall>m<i. \<not> P (ws ! m)" by auto
    with False show ?thesis by (intro exI [of _ "Suc i"]) (auto simp: less_Suc_eq_0_disj)
  qed
qed

lemma find_slot_nonneg: "0 \<le> find_slot P 0 ws \<longleftrightarrow> (\<exists>w\<in>set ws. P w)"
  using find_slot_None [of P 0 ws] find_slot_range [of P 0 ws] by auto

lemma find_slotE:
  assumes "0 \<le> find_slot P 0 ws"
  obtains i where "find_slot P 0 ws = int i" "i < length ws" "P (ws ! i)" "\<forall>m<i. \<not> P (ws ! m)"
  using find_slot_found [of P 0 ws] assms by force

section \<open>The abstract view\<close>

definition live :: "watch \<Rightarrow> bool" where
  "live w \<longleftrightarrow> 0 \<le> wd w"

definition cache_ok :: "watch list \<Rightarrow> bool" where
  "cache_ok ws \<longleftrightarrow>
     (\<forall>w\<in>set ws. w = empty_watch \<or> live w \<and> length (path w) < PATH_MAX) \<and>
     distinct (map wd (filter live ws))"

definition cache_map :: "watch list \<Rightarrow> int \<rightharpoonup> string" where
  "cache_map ws = map_of (map (\<lambda>w. (wd w, path w)) (filter live ws))"

lemma live_empty_watch [simp]: "\<not> live empty_watch"
  by (simp add: live_def empty_watch_def)

lemma live_intro [simp]: "live \<lparr>wd = d, path = p\<rparr> \<longleftrightarrow> 0 \<le> d"
  by (simp add: live_def)

lemma dom_cache_map: "dom (cache_map ws) = wd ` {w \<in> set ws. live w}"
  by (simp add: cache_map_def dom_map_of_conv_image_fst image_image)

lemma cache_map_NoneI: "(\<And>w. w \<in> set ws \<Longrightarrow> live w \<Longrightarrow> wd w \<noteq> d) \<Longrightarrow> cache_map ws d = None"
  using dom_cache_map [of ws] by (metis (mono_tags, lifting) domIff imageE mem_Collect_eq)

lemma cache_ok_Nil [simp]: "cache_ok []" and cache_map_Nil [simp]: "cache_map [] = Map.empty"
  by (simp_all add: cache_ok_def cache_map_def)

lemma cache_ok_insert:
  "cache_ok (xs @ w # ys) \<longleftrightarrow>
     cache_ok (xs @ ys) \<and>
     (w = empty_watch \<or> live w \<and> length (path w) < PATH_MAX \<and> wd w \<notin> dom (cache_map (xs @ ys)))"
  unfolding dom_cache_map cache_ok_def by auto

lemma cache_map_insert:
  assumes "cache_ok (xs @ w # ys)"
  shows "cache_map (xs @ w # ys) =
     (if live w then (cache_map (xs @ ys))(wd w \<mapsto> path w) else cache_map (xs @ ys))"
proof (cases "live w")
  case False
  then show ?thesis by (simp add: cache_map_def)
next
  case True
  with assms have "wd w \<notin> dom (cache_map (xs @ ys))" by (auto simp: cache_ok_insert)
  then have "cache_map xs (wd w) = None"
    by (auto simp: cache_map_def map_add_def domIff split: option.splits)
  with True show ?thesis
    by (auto simp: cache_map_def map_add_def fun_eq_iff split: option.splits)
qed

lemma cache_map_nth:
  assumes "cache_ok ws" "i < length ws" "live (ws ! i)"
  shows "cache_map ws (wd (ws ! i)) = Some (path (ws ! i))"
proof -
  have ws: "ws = take i ws @ ws ! i # drop (Suc i) ws" using assms(2) by (rule id_take_nth_drop)
  with assms(1,3) cache_map_insert [of "take i ws" "ws ! i" "drop (Suc i) ws"] show ?thesis
    by (metis fun_upd_same)
qed

lemma cache_map_SomeD:
  "cache_map ws d = Some p \<Longrightarrow> \<exists>w\<in>set ws. live w \<and> wd w = d \<and> path w = p"
  by (auto simp: cache_map_def dest!: map_of_SomeD)

lemma cache_map_Some_iff:
  "cache_ok ws \<Longrightarrow> cache_map ws d = Some p \<longleftrightarrow> (\<exists>w\<in>set ws. live w \<and> wd w = d \<and> path w = p)"
  by (metis cache_map_SomeD cache_map_nth in_set_conv_nth)

section \<open>The contract and its implementation by the array\<close>

text \<open>
  A watch table is a map from descriptors to pathnames that a client extends with fresh
  descriptors, forgets descriptors from, and rewrites the pathnames of.
\<close>

locale watch_table =
  fixes ok :: "'c \<Rightarrow> bool" and look :: "'c \<Rightarrow> int \<rightharpoonup> string" and none :: 'c
    and store :: "int \<Rightarrow> string \<Rightarrow> 'c \<Rightarrow> 'c" and clear :: "int \<Rightarrow> 'c \<Rightarrow> 'c"
    and edit :: "(string \<Rightarrow> string) \<Rightarrow> 'c \<Rightarrow> 'c"
  assumes ok_none: "ok none" and look_none: "look none = Map.empty"
    and ok_store: "ok c \<Longrightarrow> 0 \<le> d \<Longrightarrow> look c d = None \<Longrightarrow> length p < PATH_MAX \<Longrightarrow> ok (store d p c)"
    and look_store: "ok c \<Longrightarrow> 0 \<le> d \<Longrightarrow> look c d = None \<Longrightarrow> length p < PATH_MAX \<Longrightarrow>
      look (store d p c) = (look c)(d \<mapsto> p)"
    and ok_clear: "ok c \<Longrightarrow> ok (clear d c)"
    and look_clear: "ok c \<Longrightarrow> look (clear d c) = (look c)(d := None)"
    and ok_edit: "ok c \<Longrightarrow> (\<And>p. length (f p) < PATH_MAX) \<Longrightarrow> ok (edit f c)"
    and look_edit: "ok c \<Longrightarrow> (\<And>p. length (f p) < PATH_MAX) \<Longrightarrow> look (edit f c) = map_option f \<circ> look c"
begin

text \<open>Adding a batch of directories, skipping descriptors already known, as a walk over a
  directory tree does.\<close>

definition store_new :: "int \<times> string \<Rightarrow> 'c \<Rightarrow> 'c" where
  "store_new dp c = (if look c (fst dp) = None then store (fst dp) (snd dp) c else c)"

lemma store_new_all:
  assumes "ok c" and "\<forall>(d, p)\<in>set dps. 0 \<le> d \<and> length p < PATH_MAX"
  shows "ok (fold store_new dps c) \<and> look (fold store_new dps c) = map_of dps ++ look c"
  using assms
proof (induction dps arbitrary: c)
  case Nil
  then show ?case by simp
next
  case (Cons dp dps)
  obtain d p where dp: "dp = (d, p)" by fastforce
  with Cons.prems have c': "ok (store_new dp c)"
    "look (store_new dp c) = [d \<mapsto> p] ++ look c"
    by (auto simp: store_new_def ok_store look_store map_add_def fun_eq_iff split: option.splits)
  with Cons dp show ?case
    by (auto simp: map_add_def fun_eq_iff split: option.splits)
qed

lemma clear_all:
  assumes "ok c"
  shows "ok (fold clear ds c) \<and> look (fold clear ds c) = look c |` (- set ds)"
  using assms
  by (induction ds arbitrary: c) (auto simp: ok_clear look_clear restrict_map_def fun_eq_iff)

end

definition cache_store :: "int \<Rightarrow> string \<Rightarrow> watch list \<Rightarrow> watch list" where
  "cache_store d p ws =
     (let j = find_slot (\<lambda>w. wd w = -1) 0 ws in
      if j \<ge> 0 then ws[nat j := \<lparr>wd = d, path = p\<rparr>]
      else ws @ \<lparr>wd = d, path = p\<rparr> # replicate (ALLOC_INCR - 1) empty_watch)"

definition cache_clear :: "int \<Rightarrow> watch list \<Rightarrow> watch list" where
  "cache_clear d ws =
     (let j = find_slot (\<lambda>w. live w \<and> wd w = d) 0 ws in
      if j \<ge> 0 then ws[nat j := empty_watch] else ws)"

definition cache_edit :: "(string \<Rightarrow> string) \<Rightarrow> watch list \<Rightarrow> watch list" where
  "cache_edit f ws = map (\<lambda>w. if live w then w\<lparr>path := f (path w)\<rparr> else w) ws"

lemma nth_empty_split:
  assumes "i < length ws" "ws ! i = w"
  obtains xs ys where "ws = xs @ w # ys" "\<forall>v. ws[i := v] = xs @ v # ys"
proof
  show "ws = take i ws @ w # drop (Suc i) ws" using assms id_take_nth_drop [of i ws] by simp
  show "\<forall>v. ws[i := v] = take i ws @ v # drop (Suc i) ws"
    using assms upd_conv_take_nth_drop [of i ws] by blast
qed

lemma cache_ok_replicate [simp]:
  "cache_ok (ws @ replicate n empty_watch) = cache_ok ws"
  "cache_map (ws @ replicate n empty_watch) = cache_map ws"
  by (auto simp: cache_ok_def cache_map_def)

lemma cache_store_correct:
  assumes "cache_ok ws" "0 \<le> d" "cache_map ws d = None" "length p < PATH_MAX"
  shows "cache_ok (cache_store d p ws)" "cache_map (cache_store d p ws) = (cache_map ws)(d \<mapsto> p)"
proof -
  let ?w = "\<lparr>wd = d, path = p\<rparr>"
  have "\<exists>xs ys. cache_store d p ws = xs @ ?w # ys \<and> cache_ok (xs @ ys) \<and>
      cache_map (xs @ ys) = cache_map ws"
  proof (cases "find_slot (\<lambda>w. wd w = -1) 0 ws \<ge> 0")
    case True
    then obtain i where i: "find_slot (\<lambda>w. wd w = -1) 0 ws = int i" "i < length ws" "wd (ws ! i) = -1"
      by (rule find_slotE)
    with assms(1) have "ws ! i = empty_watch"
      by (metis cache_ok_def live_def nth_mem neg_0_le_iff_le not_one_le_zero)
    with i(2) obtain xs ys where x: "ws = xs @ empty_watch # ys" "\<forall>v. ws[i := v] = xs @ v # ys"
      by (rule nth_empty_split)
    with i assms(1) have "cache_store d p ws = xs @ ?w # ys" by (simp add: cache_store_def)
    with x assms(1) show ?thesis
      by (metis cache_map_insert cache_ok_insert live_empty_watch)
  next
    case False
    then show ?thesis using assms(1)
      by (intro exI [of _ ws] exI [of _ "replicate (ALLOC_INCR - 1) empty_watch"])
        (simp add: cache_store_def)
  qed
  then obtain xs ys where x: "cache_store d p ws = xs @ ?w # ys" "cache_ok (xs @ ys)"
    "cache_map (xs @ ys) = cache_map ws" by blast
  with assms show ok: "cache_ok (cache_store d p ws)"
    by (simp add: cache_ok_insert domIff)
  with x assms(2) show "cache_map (cache_store d p ws) = (cache_map ws)(d \<mapsto> p)"
    by (simp add: cache_map_insert)
qed

lemma clear_slot_correct:
  assumes "cache_ok ws" "i < length ws" "live (ws ! i)"
  shows "cache_ok (ws[i := empty_watch])"
    "cache_map (ws[i := empty_watch]) = (cache_map ws)(wd (ws ! i) := None)"
proof -
  obtain xs ys where x: "ws = xs @ ws ! i # ys" "\<forall>v. ws[i := v] = xs @ v # ys"
    using nth_empty_split [OF assms(2) refl] by metis
  with assms(1) show "cache_ok (ws[i := empty_watch])"
    by (metis cache_ok_insert)
  from x assms have "wd (ws ! i) \<notin> dom (cache_map (xs @ ys))"
    "cache_map ws = (cache_map (xs @ ys))(wd (ws ! i) \<mapsto> path (ws ! i))"
    by (metis cache_ok_insert live_empty_watch, metis cache_map_insert)
  moreover have "cache_map (ws[i := empty_watch]) = cache_map (xs @ ys)"
    using x(2) by (simp add: cache_map_def)
  ultimately show "cache_map (ws[i := empty_watch]) = (cache_map ws)(wd (ws ! i) := None)"
    by (auto simp: domIff fun_eq_iff)
qed

lemma cache_edit_correct:
  assumes "cache_ok ws" "\<And>p. length (f p) < PATH_MAX"
  shows "cache_ok (cache_edit f ws)" "cache_map (cache_edit f ws) = map_option f \<circ> cache_map ws"
proof -
  let ?g = "\<lambda>w. if live w then w\<lparr>path := f (path w)\<rparr> else w"
  have l: "live (?g w) = live w" and wd: "wd (?g w) = wd w" for w by (simp_all add: live_def)
  then have fil: "filter live (map ?g ws) = map ?g (filter live ws)"
    by (induction ws) auto
  show "cache_ok (cache_edit f ws)"
    using assms fil wd unfolding cache_ok_def cache_edit_def
    by (auto simp: comp_def live_def simp del: filter_map)
  show "cache_map (cache_edit f ws) = map_option f \<circ> cache_map ws"
    unfolding cache_map_def cache_edit_def fil
    by (induction ws) auto
qed

interpretation wc: watch_table cache_ok cache_map "[]" cache_store cache_clear cache_edit
proof unfold_locales
  fix c d
  assume ok: "cache_ok c"
  have "cache_ok (cache_clear d c) \<and> cache_map (cache_clear d c) = (cache_map c)(d := None)"
  proof (cases "find_slot (\<lambda>w. live w \<and> wd w = d) 0 c \<ge> 0")
    case True
    then obtain i where "find_slot (\<lambda>w. live w \<and> wd w = d) 0 c = int i" "i < length c"
      "live (c ! i) \<and> wd (c ! i) = d" by (rule find_slotE)
    with clear_slot_correct [OF ok, of i] show ?thesis by (auto simp: cache_clear_def)
  next
    case False
    then have "cache_map c d = None"
      unfolding find_slot_nonneg by (intro cache_map_NoneI) auto
    with False ok show ?thesis by (auto simp: cache_clear_def)
  qed
  then show "cache_ok (cache_clear d c)" and "cache_map (cache_clear d c) = (cache_map c)(d := None)"
    by auto
qed (simp_all add: cache_store_correct cache_edit_correct)

section \<open>The functions of the file on the array\<close>

text \<open>The part of the state that no function on the cache changes: the root paths and the
  options.\<close>

definition cfg :: "'k dtree \<Rightarrow> string option list \<times> nat \<times> bool \<times> bool \<times> bool \<times> bool" where
  "cfg s = (rootDirPaths s, ignoreRootDirs s, logfp s = None, abortOnCacheProblem s, checkCache s, dumpCache s)"

lemma cfg_frame [simp, frame_simps]:
  "cfg (logMessage m f a s) = cfg s" "cfg (s\<lparr>wlCache := ws\<rparr>) = cfg s" "cfg (s\<lparr>kern := k\<rparr>) = cfg s"
  "cfg (s\<lparr>kern := k, wlCache := ws\<rparr>) = cfg s"
  "cfg (s\<lparr>dirCnt := n\<rparr>) = cfg s" "cfg (s\<lparr>reinitCnt := n\<rparr>) = cfg s" "cfg (s\<lparr>overflowCnt := n\<rparr>) = cfg s"
  "cfg (s\<lparr>inotifyReadCnt := n\<rparr>) = cfg s"
  "cfg (displayInotifyEvent ev s) = cfg s" "cfg (freeCache s) = cfg s"
  "cfg (fprintf_stderr f a s) = cfg s"
  by (simp_all add: cfg_def displayInotifyEvent_field freeCache_def fprintf_stderr_def)

lemma markCacheSlotEmpty_in:
  assumes "i < length (wlCache s)"
  shows "\<exists>s'. markCacheSlotEmpty i s = Ret () s' \<and> wlCache s' = (wlCache s)[i := empty_watch] \<and>
    cfg s' = cfg s \<and> kern s' = kern s \<and> dirCnt s' = dirCnt s"
  using assms by (simp add: markCacheSlotEmpty_def Let_def)

lemma mark_slots_in:
  assumes "\<forall>j\<in>set js. j < length (wlCache s)"
  shows "\<exists>s'. mark_slots js s = Ret () s' \<and>
    wlCache s' = fold (\<lambda>j ws. ws[j := empty_watch]) js (wlCache s) \<and> cfg s' = cfg s \<and> kern s' = kern s \<and>
    dirCnt s' = dirCnt s"
  using assms
proof (induction js arbitrary: s)
  case Nil
  then show ?case by simp
next
  case (Cons j js)
  with markCacheSlotEmpty_in [of j s] obtain s1 where
    "markCacheSlotEmpty j s = Ret () s1" "wlCache s1 = (wlCache s)[j := empty_watch]"
    "cfg s1 = cfg s" "kern s1 = kern s" "dirCnt s1 = dirCnt s" by auto
  with Cons.IH [of s1] Cons.prems show ?case by auto
qed

lemma fold_clear_tail:
  "fold (\<lambda>j ws. ws[j := empty_watch]) [length xs..<length xs + length ys] (xs @ ys)
     = xs @ replicate (length ys) empty_watch"
proof (induction ys arbitrary: xs)
  case Nil
  then show ?case by simp
next
  case (Cons y ys)
  have "[length xs..<length xs + length (y # ys)]
      = length xs # [length (xs @ [empty_watch])..<length (xs @ [empty_watch]) + length ys]"
    using upt_conv_Cons [of "length xs" "length xs + length (y # ys)"] by (simp del: upt_Suc)
  with Cons [of "xs @ [empty_watch]"] show ?case by simp
qed

lemma findEmptyCacheSlot_cases:
  obtains (free) i where "findEmptyCacheSlot K s = Ret i s" "i < length (wlCache s)"
      "find_slot (\<lambda>w. wd w = -1) 0 (wlCache s) = int i"
  | (grown) s' where "findEmptyCacheSlot K s = Ret (length (wlCache s)) s'"
      "wlCache s' = wlCache s @ replicate ALLOC_INCR empty_watch" "cfg s' = cfg s" "dirCnt s' = dirCnt s"
      "find_slot (\<lambda>w. wd w = -1) 0 (wlCache s) = -1" "\<exists>n. kern s' = snd (k_alloc K n (kern s))"
  | (no_memory) s' where "findEmptyCacheSlot K s = Exited 1 s'" "wlCache s' = []" "cfg s' = cfg s"
      "\<exists>n. kern s' = snd (k_alloc K n (kern s))"
proof (cases "find_slot (\<lambda>w. wd w = -1) 0 (wlCache s) \<ge> 0")
  case True
  then show ?thesis by (rule find_slotE) (use True in \<open>auto simp: findEmptyCacheSlot_def intro: free\<close>)
next
  case False
  then have none: "find_slot (\<lambda>w. wd w = -1) 0 (wlCache s) = -1"
    using find_slot_range [of _ 0] by fastforce
  let ?n = "length (wlCache s)"
  obtain got k where g: "k_alloc K ((?n + ALLOC_INCR) * sizeof_watch) (kern s) = (got, k)" by fastforce
  then have kern: "\<exists>n. k = snd (k_alloc K n (kern s))" by (metis snd_conv)
  show ?thesis
  proof (cases got)
    case False
    with g none have "findEmptyCacheSlot K s = Exited 1
        (fprintf_stderr ''%s: %s'' [AStr ''realloc'', AStr (k_strerror K ENOMEM)]
          (s\<lparr>kern := k, wlCache := []\<rparr>))"
      by (simp add: findEmptyCacheSlot_def errExit_macro_def)
    then show ?thesis by (rule no_memory) (use kern in simp_all)
  next
    case True
    let ?s1 = "s\<lparr>kern := k, wlCache := wlCache s @ map (k_junk K k) [0..<ALLOC_INCR]\<rparr>"
    from mark_slots_in [of "[?n..<?n + ALLOC_INCR]" ?s1] obtain s' where
      "mark_slots [?n..<?n + ALLOC_INCR] ?s1 = Ret () s'" "cfg s' = cfg s" "dirCnt s' = dirCnt s" "kern s' = k"
      "wlCache s' = fold (\<lambda>j ws. ws[j := empty_watch]) [?n..<?n + ALLOC_INCR]
         (wlCache s @ map (k_junk K k) [0..<ALLOC_INCR])" by auto
    with fold_clear_tail [of "wlCache s" "map (k_junk K k) [0..<ALLOC_INCR]"] g True none
    have "findEmptyCacheSlot K s = Ret ?n s'" "wlCache s' = wlCache s @ replicate ALLOC_INCR empty_watch"
      by (simp_all add: findEmptyCacheSlot_def)
    with kern \<open>kern s' = k\<close> have "\<exists>n. kern s' = snd (k_alloc K n (kern s))" by simp
    from \<open>findEmptyCacheSlot K s = Ret ?n s'\<close> show ?thesis
      by (rule grown) fact+
  qed
qed

lemma addWatchToCache_cases:
  assumes "length p < PATH_MAX"
  obtains (added) slot s' where "addWatchToCache K d p s = Ret slot s'"
      "wlCache s' = cache_store d p (wlCache s)" "cfg s' = cfg s" "dirCnt s' = dirCnt s"
      "slot < length (wlCache s')" "wlCache s' ! slot = \<lparr>wd = d, path = p\<rparr>"
      "kern s' = kern s \<or> (\<exists>n. kern s' = snd (k_alloc K n (kern s)))"
  | (no_memory) s' where "addWatchToCache K d p s = Exited 1 s'" "wlCache s' = []" "cfg s' = cfg s"
      "\<exists>n. kern s' = snd (k_alloc K n (kern s))"
proof (cases rule: findEmptyCacheSlot_cases [of K s])
  case (free i)
  with assms have "addWatchToCache K d p s = Ret i (s\<lparr>wlCache := cache_store d p (wlCache s)\<rparr>)"
    and "cache_store d p (wlCache s) = (wlCache s)[i := \<lparr>wd = d, path = p\<rparr>]"
    by (simp_all add: addWatchToCache_def cache_store_def)
  from this(1) show ?thesis
    by (rule added) (use free \<open>cache_store d p (wlCache s) = _\<close> in simp_all)
next
  case (grown s')
  have "ALLOC_INCR = Suc (ALLOC_INCR - 1)" by (simp add: ALLOC_INCR_def)
  then have "replicate ALLOC_INCR empty_watch = empty_watch # replicate (ALLOC_INCR - 1) empty_watch"
    by (metis replicate_Suc)
  with grown assms have
    "addWatchToCache K d p s = Ret (length (wlCache s)) (s'\<lparr>wlCache := cache_store d p (wlCache s)\<rparr>)"
    by (simp add: addWatchToCache_def cache_store_def list_update_append)
  then show ?thesis
    by (rule added) (use grown in \<open>simp_all add: cache_store_def nth_append\<close>)
next
  case (no_memory s')
  then have "addWatchToCache K d p s = Exited 1 s'" by (simp add: addWatchToCache_def)
  then show ?thesis by (rule that(2)) fact+
qed

lemma findWatch_correct:
  assumes "cache_ok (wlCache s)" "0 \<le> d"
  shows "findWatch d s = -1 \<longleftrightarrow> cache_map (wlCache s) d = None"
    and "0 \<le> findWatch d s \<Longrightarrow>
      nat (findWatch d s) < length (wlCache s) \<and> wd (wlCache s ! nat (findWatch d s)) = d \<and>
      cache_map (wlCache s) d = Some (path (wlCache s ! nat (findWatch d s)))"
proof -
  have "findWatch d s = -1 \<longleftrightarrow> (\<forall>w\<in>set (wlCache s). wd w \<noteq> d)"
    by (auto simp: findWatch_def find_slot_None)
  also have "\<dots> \<longleftrightarrow> d \<notin> dom (cache_map (wlCache s))"
    using assms(2) by (auto simp: dom_cache_map live_def)
  finally show "findWatch d s = -1 \<longleftrightarrow> cache_map (wlCache s) d = None" by (simp add: domIff)
  assume "0 \<le> findWatch d s"
  then obtain i where i: "findWatch d s = int i" "i < length (wlCache s)" "wd (wlCache s ! i) = d"
    unfolding findWatch_def by (rule find_slotE)
  with assms cache_map_nth [of "wlCache s" i] show
    "nat (findWatch d s) < length (wlCache s) \<and> wd (wlCache s ! nat (findWatch d s)) = d \<and>
      cache_map (wlCache s) d = Some (path (wlCache s ! nat (findWatch d s)))"
    by (simp add: live_def)
qed

lemma pathnameInCache_iff:
  assumes "cache_ok (wlCache s)"
  shows "pathnameInCache p s \<longleftrightarrow> p \<in> ran (cache_map (wlCache s))"
  using cache_map_Some_iff [OF assms]
  by (auto simp: pathnameInCache_def pathnameToCacheSlot_def find_slot_nonneg ran_def live_def)

text \<open>Reports, checks and dumps leave the cache as it is.\<close>

lemma checkCache_loop_always:
  assumes "I s"
    and "\<And>s k. I s \<Longrightarrow> I (s\<lparr>kern := k\<rparr>)" and "\<And>s m t a. I s \<Longrightarrow> I (logMessage m t a s)"
  shows "always I (checkCache_loop K js f s)"
  using assms(1)
proof (induction js arbitrary: f s)
  case Nil
  then show ?case by simp
next
  case (Cons j js)
  then show ?case
    by (auto simp: Let_def assms(2,3) split: prod.splits lstat_res.splits)
qed

lemma checkCacheConsistency_always:
  assumes "I s" and "\<And>s k. I s \<Longrightarrow> I (s\<lparr>kern := k\<rparr>)" and "\<And>s m t a. I s \<Longrightarrow> I (logMessage m t a s)"
  shows "always I (checkCacheConsistency K s)"
  unfolding checkCacheConsistency_def
  by (rule always_andThen) (use assms in \<open>auto intro: checkCache_loop_always\<close>)

lemma dumpCacheToLog_frame:
  "always (\<lambda>s'. wlCache s' = wlCache s \<and> cfg s' = cfg s) (dumpCacheToLog s)"
  by (auto simp: dumpCacheToLog_def cfg_def split: option.splits)

lemma findWatchChecked_frame:
  "always (\<lambda>s'. wlCache s' = wlCache s \<and> cfg s' = cfg s) (findWatchChecked K d s)"
proof -
  have "always (\<lambda>s'. wlCache s' = wlCache t \<and> cfg s' = cfg t)
      (createStopFileAndAbort K t :: (int, _) outcome)" for t
    unfolding createStopFileAndAbort_def
    using dumpCacheToLog_frame [of "t\<lparr>kern := k_create K (stopFile t) (kern t)\<rparr>"]
    by (cases "dumpCacheToLog (t\<lparr>kern := k_create K (stopFile t) (kern t)\<rparr>)") auto
  from this [of "logMessage 0 ''Could not find watch %d\<newline>'' [AInt d] s"] show ?thesis
    by (simp add: findWatchChecked_def Let_def)
qed

lemma findWatchChecked_Ret:
  assumes "findWatchChecked K d s = Ret slot s'"
  shows "slot = findWatch d s" "wlCache s' = wlCache s" "cfg s' = cfg s" "kern s' = kern s"
    "slot \<ge> 0 \<Longrightarrow> s' = s"
  using assms find_slot_range [of "\<lambda>w. wd w = d" 0 "wlCache s"]
  by (auto simp: findWatchChecked_def createStopFileAndAbort_def findWatch_def Let_def split: if_splits)

end
