(* ===== verification/Inotify_Dtree.thy ===== *)
theory Inotify_Dtree
  imports Watch_Cache
begin

text \<open>
  The rest of \<open>src/tlpi-book/inotify/inotify_dtree.c\<close>: the root directories, the walk that
  adds watches, the reaction to renames, removals and overflows, the event loop, the
  interactive commands and \<open>main\<close>.  \<open>getopt\<close>, \<open>select\<close> and \<open>nftw\<close> are seen through
  their results: the parsed options, the descriptors found readable in each round, and
  the calls made to the callback.
\<close>

section \<open>Root directories\<close>

fun check_root_args :: "'k kops \<Rightarrow> string list \<Rightarrow> 'k dtree \<Rightarrow> (unit, 'k dtree) outcome" where
  "check_root_args K [] s = Ret () s"
| "check_root_args K (p # ps) s =
     (case k_lstat K p (kern s) of
        (LstatFail e, k) \<Rightarrow>
          Exited 1 (fprintf_stderr ''lstat() failed on '%s'\<newline>'' [AStr p] (s\<lparr>kern := k\<rparr>))
      | (LstatOk isdir ino dev, k) \<Rightarrow>
          if \<not> isdir
          then Exited 1 (fprintf_stderr '''%s' is not a directory\<newline>'' [AStr p] (s\<lparr>kern := k\<rparr>))
          else check_root_args K ps (s\<lparr>kern := k\<rparr>))"

fun same_object :: "nat \<times> nat \<Rightarrow> (nat \<times> nat) list \<Rightarrow> string list \<Rightarrow> string option" where
  "same_object st (t # ts) (q # qs) = (if st = t then Some q else same_object st ts qs)"
| "same_object st _ _ = None"

text \<open>The loop that copies the arguments: \<open>j\<close> counts the copies made, \<open>rootDirStat\<close>
  holds their i-node and device numbers.\<close>

fun copy_roots ::
    "'k kops \<Rightarrow> string list \<Rightarrow> nat \<Rightarrow> string list \<Rightarrow> 'k dtree \<Rightarrow> (unit, 'k dtree) outcome" where
  "copy_roots K argv j [] s = Ret () s"
| "copy_roots K argv j (p # ps) s =
     (let (got, k) = k_alloc K (length p + 1) (kern s);
          s = s\<lparr>kern := k\<rparr>
      in if \<not> got then errExit_macro K ''strdup'' ENOMEM s
         else
           (let s = s\<lparr>rootDirPaths := (rootDirPaths s)[j := Some p]\<rparr> in
            case k_lstat K p (kern s) of
              (LstatFail e, k) \<Rightarrow> errExit_macro K ''lstat'' e (s\<lparr>kern := k\<rparr>)
            | (LstatOk isdir ino dev, k) \<Rightarrow>
                (case same_object (ino, dev) (rootDirStat s) argv of
                   Some q \<Rightarrow>
                     Exited 1 (fprintf_stderr ''Duplicate filesystem objects: %s, %s\<newline>''
                                 [AStr p, AStr q] (s\<lparr>kern := k\<rparr>))
                 | None \<Rightarrow>
                     copy_roots K argv (Suc j) ps
                       (s\<lparr>kern := k, rootDirStat := rootDirStat s @ [(ino, dev)]\<rparr>))))"

text \<open>The failure of the second \<open>calloc\<close> goes unnoticed (the test names the first
  pointer), and the null pointer is then used.\<close>

definition copyRootDirPaths :: "'k kops \<Rightarrow> string list \<Rightarrow> 'k dtree \<Rightarrow> (unit, 'k dtree) outcome" where
  "copyRootDirPaths K argv s =
     andThen (check_root_args K argv s)
       (\<lambda>_ s. let n = length argv; (got1, k1) = k_alloc K (n * 8) (kern s) in
          if \<not> got1 then errExit_macro K ''calloc'' ENOMEM (s\<lparr>kern := k1\<rparr>)
          else (let (got2, k2) = k_alloc K (n * 144) k1;
                    s = s\<lparr>kern := k2, rootDirPaths := replicate n None, rootDirStat := []\<rparr>
                in if \<not> got2 \<and> argv \<noteq> [] then Undefd
                   else andThen (copy_roots K argv 0 argv s)
                          (\<lambda>_ s. Ret () (s\<lparr>ignoreRootDirs := 0\<rparr>))))"

fun find_root :: "string \<Rightarrow> nat \<Rightarrow> string option list \<Rightarrow> nat option" where
  "find_root p j [] = None"
| "find_root p j (r # rs) = (if r = Some p then Some j else find_root p (Suc j) rs)"

definition findRootDirPath :: "string \<Rightarrow> 'k dtree \<Rightarrow> nat option" where
  "findRootDirPath p s = find_root p 0 (rootDirPaths s)"

definition isRootDirPath :: "string \<Rightarrow> 'k dtree \<Rightarrow> bool" where
  "isRootDirPath p s \<longleftrightarrow> findRootDirPath p s \<noteq> None"

definition zapRootDirPath :: "string \<Rightarrow> 'k dtree \<Rightarrow> (unit, 'k dtree) outcome" where
  "zapRootDirPath p s =
     (let s = printf ''zapRootDirPath: %s\<newline>'' [AStr p] s in
      case findRootDirPath p s of
        None \<Rightarrow> Exited 1 (fprintf_stderr ''zapRootDirPath(): path not found!\<newline>'' [] s)
      | Some j \<Rightarrow>
          (let s = s\<lparr>rootDirPaths := (rootDirPaths s)[j := None], ignoreRootDirs := ignoreRootDirs s + 1\<rparr>
           in if ignoreRootDirs s = length (rootDirPaths s)
              then Exited 0 (fprintf_stderr ''No more root paths left to monitor; bye!\<newline>'' [] s)
              else Ret () s))"

section \<open>Adding watches\<close>

definition watch_flags :: "string \<Rightarrow> 'k dtree \<Rightarrow> 32 word" where
  "watch_flags p s =
     (IN_CREATE OR IN_MOVED_FROM OR IN_MOVED_TO OR IN_DELETE_SELF) OR
     (if isRootDirPath p s then IN_MOVE_SELF else 0)"

definition traverseTree ::
    "'k kops \<Rightarrow> int \<Rightarrow> string \<Rightarrow> bool \<Rightarrow> 'k dtree \<Rightarrow> (unit, 'k dtree) outcome" where
  "traverseTree K ifd pathname isdir s =
     (if \<not> isdir then Ret () s
      else
        (case k_add_watch K ifd pathname (watch_flags pathname s OR IN_ONLYDIR) (kern s) of
           (Inl e, k) \<Rightarrow>
             (let s = logMessage VB_BASIC ''inotify_add_watch: %s: %s\<newline>''
                        [AStr pathname, AStr (k_strerror K e)] (s\<lparr>kern := k\<rparr>)
              in if e = ENOENT then Ret () s else Exited 1 s)
         | (Inr d, k) \<Rightarrow>
             (let s = s\<lparr>kern := k\<rparr> in
              if findWatch d s \<ge> 0
              then Ret () (logMessage VB_BASIC ''WD %d already in cache (%s)\<newline>'' [AInt d, AStr pathname] s)
              else
                andThen (addWatchToCache K d pathname (s\<lparr>dirCnt := dirCnt s + 1\<rparr>))
                  (\<lambda>slot s. Ret () (logMessage VB_NOISY ''    watchDir: wd = %d [cache slot: %d]; %s\<newline>''
                     [AInt d, AInt (int slot), AStr pathname] s)))))"

fun nftw_calls :: "'k kops \<Rightarrow> int \<Rightarrow> (string \<times> bool) list \<Rightarrow> 'k dtree \<Rightarrow> (unit, 'k dtree) outcome" where
  "nftw_calls K ifd [] s = Ret () s"
| "nftw_calls K ifd ((p, isdir) # vs) s =
     andThen (traverseTree K ifd p isdir s) (\<lambda>_ s. nftw_calls K ifd vs s)"

definition watchDir :: "'k kops \<Rightarrow> int \<Rightarrow> string \<Rightarrow> 'k dtree \<Rightarrow> (nat, 'k dtree) outcome" where
  "watchDir K inotifyFd pathname s =
     (let ((visits, err), k) = k_nftw K pathname (kern s) in
      andThen (nftw_calls K inotifyFd visits (s\<lparr>dirCnt := 0, kern := k\<rparr>))
        (\<lambda>_ s. let s = (case err of
                          None \<Rightarrow> s
                        | Some e \<Rightarrow> logMessage VB_BASIC
                            ''nftw: %s: %s (directory probably deleted before we could watch)\<newline>''
                            [AStr pathname, AStr (k_strerror K e)] s)
               in Ret (dirCnt s) s))"

definition watchSubtree :: "'k kops \<Rightarrow> int \<Rightarrow> string \<Rightarrow> 'k dtree \<Rightarrow> (unit, 'k dtree) outcome" where
  "watchSubtree K inotifyFd p s =
     andThen (watchDir K inotifyFd p s)
       (\<lambda>cnt s. Ret () (logMessage VB_BASIC ''    watchSubtree: %s: %d entries added\<newline>''
          [AStr p, AInt (int cnt)] s))"

section \<open>Renames and removals\<close>

text \<open>The test both loops make: \<open>p\<close> is \<open>prefix\<close> itself or lies below it.\<close>

definition path_under :: "string \<Rightarrow> string \<Rightarrow> bool" where
  "path_under prefix p \<longleftrightarrow>
     strncmp_eq prefix p (length prefix) \<and>
     (case drop (length prefix) p of [] \<Rightarrow> True | c # _ \<Rightarrow> c = CHR ''/'')"

definition rewrite_slot :: "string \<Rightarrow> string \<Rightarrow> nat \<Rightarrow> 'k dtree \<Rightarrow> 'k dtree" where
  "rewrite_slot fullPath newPrefix j s =
     (let w = wlCache s ! j in
      if path_under fullPath (path w)
      then (let newPath = snprintf PATH_MAX (newPrefix @ drop (length fullPath) (path w));
                s = s\<lparr>wlCache := (wlCache s)[j := w\<lparr>path := newPath\<rparr>]\<rparr>
            in logMessage VB_NOISY ''    wd %d [cache slot %d] ==> %s\<newline>''
                 [AInt (wd w), AInt (int j), AStr newPath] s)
      else s)"

definition rewriteCachedPaths ::
    "string \<Rightarrow> string \<Rightarrow> string \<Rightarrow> string \<Rightarrow> 'k dtree \<Rightarrow> 'k dtree" where
  "rewriteCachedPaths oldPathPrefix oldName newPathPrefix newName s =
     (let fullPath = snprintf PATH_MAX (oldPathPrefix @ ''/'' @ oldName);
          newPrefix = snprintf PATH_MAX (newPathPrefix @ ''/'' @ newName);
          s = logMessage VB_BASIC ''Rename: %s ==> %s\<newline>'' [AStr fullPath, AStr newPrefix] s
      in fold (rewrite_slot fullPath newPrefix) [0..<length (wlCache s)] s)"

fun zap_loop ::
    "'k kops \<Rightarrow> int \<Rightarrow> string \<Rightarrow> nat list \<Rightarrow> int \<Rightarrow> 'k dtree \<Rightarrow> (int, 'k dtree) outcome" where
  "zap_loop K fd pn [] cnt s = Ret cnt s"
| "zap_loop K fd pn (j # js) cnt s =
     (let w = wlCache s ! j in
      if wd w \<ge> 0 \<and> path_under pn (path w)
      then
        (let s = logMessage VB_NOISY ''    removing watch: wd = %d (%s)\<newline>'' [AInt (wd w), AStr (path w)] s in
         case k_rm_watch K fd (wd w) (kern s) of
           (Some e, k) \<Rightarrow>
             Ret (-1) (logMessage 0 ''inotify_rm_watch wd = %d (%s): %s\<newline>''
                [AInt (wd w), AStr (path w), AStr (k_strerror K e)] (s\<lparr>kern := k\<rparr>))
         | (None, k) \<Rightarrow>
             andThen (markCacheSlotEmpty j (s\<lparr>kern := k\<rparr>)) (\<lambda>_ s. zap_loop K fd pn js (cnt + 1) s))
      else zap_loop K fd pn js cnt s)"

definition zapSubtree :: "'k kops \<Rightarrow> int \<Rightarrow> string \<Rightarrow> 'k dtree \<Rightarrow> (int, 'k dtree) outcome" where
  "zapSubtree K inotifyFd p s =
     (let s = logMessage VB_NOISY ''Zapping subtree: %s\<newline>'' [AStr p] s
      in zap_loop K inotifyFd p [0..<length (wlCache s)] 0 s)"

fun watch_roots :: "'k kops \<Rightarrow> int \<Rightarrow> string option list \<Rightarrow> 'k dtree \<Rightarrow> (unit, 'k dtree) outcome" where
  "watch_roots K fd [] s = Ret () s"
| "watch_roots K fd (None # rs) s = watch_roots K fd rs s"
| "watch_roots K fd (Some p # rs) s =
     andThen (watchSubtree K fd p s) (\<lambda>_ s. watch_roots K fd rs s)"

definition count_live :: "watch list \<Rightarrow> int" where
  "count_live ws = int (length (filter (\<lambda>w. wd w \<ge> 0) ws))"

text \<open>\<open>reinitialize\<close> first closes the old descriptor, if there is one, and reports.\<close>

definition reinit_close :: "'k kops \<Rightarrow> int \<Rightarrow> 'k dtree \<Rightarrow> 'k dtree" where
  "reinit_close K oldInotifyFd s =
     (if oldInotifyFd \<ge> 0
      then (let s = s\<lparr>kern := k_close K oldInotifyFd (kern s), reinitCnt := reinitCnt s + 1\<rparr>
            in logMessage 0 ''Reinitializing cache and inotify FD (reinitCnt = %d)\<newline>''
                 [AInt (int (reinitCnt s))] s)
      else (logMessage 0 ''Initializing cache\<newline>'' [] s)\<lparr>reinitCnt := 0\<rparr>)"

definition reinitialize :: "'k kops \<Rightarrow> int \<Rightarrow> 'k dtree \<Rightarrow> (int, 'k dtree) outcome" where
  "reinitialize K oldInotifyFd s =
     (let s = reinit_close K oldInotifyFd s in
      case k_inotify_init K (kern s) of
        (Inl e, k) \<Rightarrow> errExit_macro K ''inotify_init'' e (s\<lparr>kern := k\<rparr>)
      | (Inr inotifyFd, k) \<Rightarrow>
          (let s = logMessage VB_BASIC ''    new inotifyFd = %d\<newline>'' [AInt inotifyFd] (s\<lparr>kern := k\<rparr>);
               s = freeCache s
           in andThen (watch_roots K inotifyFd (rootDirPaths s) s)
                (\<lambda>_ s. let cnt = count_live (wlCache s);
                           s = (if oldInotifyFd \<ge> 0
                                then logMessage 0 ''Rebuilt cache with %d entries\<newline>'' [AInt cnt] s else s)
                       in Ret inotifyFd s)))"

section \<open>Events\<close>

definition NAME_MAX :: nat where "NAME_MAX = 255"
definition sizeof_event :: int where "sizeof_event = 16"
definition INOTIFY_READ_BUF_LEN :: int where
  "INOTIFY_READ_BUF_LEN = 100 * (sizeof_event + int NAME_MAX + 1)"

definition event_size :: "inotify_event \<Rightarrow> int" where
  "event_size ev = sizeof_event + int (ev_len ev)"

text \<open>How a branch of \<open>processNextInotifyEvent\<close> ends: \<open>Done r fd\<close> returns \<open>r\<close> at once,
  \<open>Fall evLen fd\<close> goes on to the common tail; \<open>fd\<close> is \<open>*inotifyFd\<close>.  The variable
  \<open>evCacheSlot\<close> has no value (\<open>None\<close>) when the first test did not set it; reading it then
  is undefined.\<close>

datatype branch = Done int int | Fall int int

definition withSlot :: "nat option \<Rightarrow> (nat \<Rightarrow> ('a, 's) outcome) \<Rightarrow> ('a, 's) outcome" where
  "withSlot slot f = (case slot of None \<Rightarrow> Undefd | Some i \<Rightarrow> f i)"

definition full_path :: "string \<Rightarrow> string \<Rightarrow> string" where
  "full_path dir name = snprintf PATH_MAX (dir @ ''/'' @ name)"

definition discard :: "'k kops \<Rightarrow> int \<Rightarrow> 'k dtree \<Rightarrow> (branch, 'k dtree) outcome" where
  "discard K fd s = andThen (reinitialize K fd s) (\<lambda>fd' s. Ret (Done INOTIFY_READ_BUF_LEN fd') s)"

definition on_create ::
    "'k kops \<Rightarrow> int \<Rightarrow> nat option \<Rightarrow> inotify_event \<Rightarrow> 'k dtree \<Rightarrow> (branch, 'k dtree) outcome" where
  "on_create K fd slot ev s =
     withSlot slot (\<lambda>i.
       let fullPath = full_path (path (wlCache s ! i)) (ev_name ev);
           s = logMessage VB_BASIC ''Directory creation on wd %d: %s\<newline>'' [AInt (ev_wd ev), AStr fullPath] s
       in if \<not> pathnameInCache fullPath s
          then andThen (watchSubtree K fd fullPath s) (\<lambda>_ s. Ret (Fall (event_size ev) fd) s)
          else Ret (Fall (event_size ev) fd) s)"

definition on_delete_self ::
    "int \<Rightarrow> nat option \<Rightarrow> inotify_event \<Rightarrow> 'k dtree \<Rightarrow> (branch, 'k dtree) outcome" where
  "on_delete_self fd slot ev s =
     withSlot slot (\<lambda>i.
       let p = path (wlCache s ! i);
           s = logMessage VB_BASIC ''Clearing watchlist item %d (%s)\<newline>'' [AInt (ev_wd ev), AStr p] s
       in andThen (if isRootDirPath p s then zapRootDirPath p s else Ret () s)
            (\<lambda>_ s. andThen (markCacheSlotEmpty i s) (\<lambda>_ s. Ret (Fall (event_size ev) fd) s)))"

definition on_moved_from ::
    "'k kops \<Rightarrow> int \<Rightarrow> nat option \<Rightarrow> inotify_event \<Rightarrow> inotify_event list \<Rightarrow> int \<Rightarrow> bool \<Rightarrow>
     'k dtree \<Rightarrow> (branch, 'k dtree) outcome" where
  "on_moved_from K fd slot ev rest bufSize firstTry s =
     (if event_size ev < bufSize \<and> rest = [] then Undefd
      else if event_size ev < bufSize \<and> ev_mask (hd rest) AND IN_MOVED_TO \<noteq> 0 \<and>
              ev_cookie (hd rest) = ev_cookie ev
      then
        andThen (findWatchChecked K (ev_wd (hd rest)) s)
          (\<lambda>nextSlot s.
             if nextSlot = -1 then discard K fd s
             else withSlot slot (\<lambda>i.
               Ret (Fall (event_size ev + event_size (hd rest)) fd)
                 (rewriteCachedPaths (path (wlCache s ! i)) (ev_name ev)
                    (path (wlCache s ! nat nextSlot)) (ev_name (hd rest)) s)))
      else if event_size ev < bufSize \<or> \<not> firstTry
      then withSlot slot (\<lambda>i.
        let dir = path (wlCache s ! i);
            s = logMessage VB_NOISY ''MOVED_OUT: %p %p\<newline>'' [AStr dir, AStr (ev_name ev)] s;
            s = logMessage VB_NOISY ''firstTry = %d; remaining bytes = %d\<newline>''
                  [AInt (if firstTry then 1 else 0), AInt (bufSize - event_size ev)] s
        in andThen (zapSubtree K fd (full_path dir (ev_name ev)) s)
             (\<lambda>cnt s. if cnt = -1 then discard K fd s else Ret (Fall (event_size ev) fd) s))
      else Ret (Done (-1) fd) (logMessage VB_NOISY ''HANGING IN_MOVED_FROM\<newline>'' [] s))"

definition on_overflow :: "'k kops \<Rightarrow> int \<Rightarrow> 'k dtree \<Rightarrow> (branch, 'k dtree) outcome" where
  "on_overflow K fd s =
     (let s = s\<lparr>overflowCnt := overflowCnt s + 1\<rparr>;
          s = logMessage 0 ''Queue overflow (%d) (inotifyReadCnt = %d)\<newline>''
                [AInt (int (overflowCnt s)), AInt (int (inotifyReadCnt s))] s
      in andThen (reinitialize K fd s) (\<lambda>fd' s. Ret (Fall INOTIFY_READ_BUF_LEN fd') s))"

definition on_unmount ::
    "int \<Rightarrow> nat option \<Rightarrow> inotify_event \<Rightarrow> 'k dtree \<Rightarrow> (branch, 'k dtree) outcome" where
  "on_unmount fd slot ev s =
     withSlot slot (\<lambda>i.
       let s = logMessage 0 ''Filesystem unmounted: %s\<newline>'' [AStr (path (wlCache s ! i))] s
       in andThen (markCacheSlotEmpty i s) (\<lambda>_ s. Ret (Fall (event_size ev) fd) s))"

definition on_move_self ::
    "'k kops \<Rightarrow> int \<Rightarrow> nat option \<Rightarrow> inotify_event \<Rightarrow> 'k dtree \<Rightarrow> (branch, 'k dtree) outcome" where
  "on_move_self K fd slot ev s =
     withSlot slot (\<lambda>i.
       let p = path (wlCache s ! i) in
       if isRootDirPath p s
       then
         (let s = logMessage 0 ''Root path moved: %s\<newline>'' [AStr p] s in
          andThen (zapRootDirPath p s)
            (\<lambda>_ s. andThen (zapSubtree K fd p s)
               (\<lambda>cnt s. if cnt = -1 then discard K fd s else Ret (Fall (event_size ev) fd) s)))
       else Ret (Fall (event_size ev) fd) s)"

definition event_tail :: "'k kops \<Rightarrow> branch \<Rightarrow> 'k dtree \<Rightarrow> (int \<times> int, 'k dtree) outcome" where
  "event_tail K b s =
     (case b of
        Done r fd \<Rightarrow> Ret (r, fd) s
      | Fall evLen fd \<Rightarrow>
          andThen (if checkCache s then checkCacheConsistency K s else Ret () s)
            (\<lambda>_ s. andThen (if dumpCache s then dumpCacheToLog s else Ret () s)
               (\<lambda>_ s. Ret (evLen, fd) s)))"

definition event_branch ::
    "'k kops \<Rightarrow> int \<Rightarrow> nat option \<Rightarrow> inotify_event \<Rightarrow> inotify_event list \<Rightarrow> int \<Rightarrow> bool \<Rightarrow>
     'k dtree \<Rightarrow> (branch, 'k dtree) outcome" where
  "event_branch K fd slot ev rest bufSize firstTry s =
     (let mask = ev_mask ev in
      if mask AND IN_ISDIR \<noteq> 0 \<and> mask AND (IN_CREATE OR IN_MOVED_TO) \<noteq> 0 then on_create K fd slot ev s
      else if mask AND IN_DELETE_SELF \<noteq> 0 then on_delete_self fd slot ev s
      else if mask AND (IN_MOVED_FROM OR IN_ISDIR) = IN_MOVED_FROM OR IN_ISDIR
        then on_moved_from K fd slot ev rest bufSize firstTry s
      else if mask AND IN_Q_OVERFLOW \<noteq> 0 then on_overflow K fd s
      else if mask AND IN_UNMOUNT \<noteq> 0 then on_unmount fd slot ev s
      else if mask AND IN_MOVE_SELF \<noteq> 0 then on_move_self K fd slot ev s
      else Ret (Fall (event_size ev) fd) s)"

text \<open>\<open>evs\<close> are the events in memory from \<open>buf\<close> on, \<open>bufSize\<close> the number of bytes that
  count.  The result is the number of bytes consumed (-1: read more) and \<open>*inotifyFd\<close>.\<close>

definition processNextInotifyEvent ::
    "'k kops \<Rightarrow> int \<Rightarrow> inotify_event list \<Rightarrow> int \<Rightarrow> bool \<Rightarrow> 'k dtree \<Rightarrow> (int \<times> int, 'k dtree) outcome" where
  "processNextInotifyEvent K fd evs bufSize firstTry s =
     (case evs of
        [] \<Rightarrow> Undefd
      | ev # rest \<Rightarrow>
          (let s = displayInotifyEvent ev s in
           if ev_wd ev \<noteq> -1 \<and> ev_mask ev AND IN_IGNORED = 0
           then andThen (findWatchChecked K (ev_wd ev) s)
             (\<lambda>slot s. if slot = -1 then andThen (discard K fd s) (event_tail K)
                       else andThen (event_branch K fd (Some (nat slot)) ev rest bufSize firstTry s)
                              (event_tail K))
           else andThen (event_branch K fd None ev rest bufSize firstTry s) (event_tail K)))"

section \<open>The event loop\<close>

definition bytes_of :: "inotify_event list \<Rightarrow> int" where
  "bytes_of evs = sum_list (map event_size evs)"

text \<open>\<open>evp += n\<close> over the events in memory.\<close>

fun skip_bytes :: "int \<Rightarrow> inotify_event list \<Rightarrow> inotify_event list" where
  "skip_bytes n [] = []"
| "skip_bytes n (e # es) = (if n \<le> 0 then e # es else skip_bytes (n - event_size e) es)"

definition EINTR_err :: int where "EINTR_err = 4"

text \<open>The read with a timeout after a hanging \<open>IN_MOVED_FROM\<close>: the new memory contents and
  number of bytes.  The test \<open>errno != -1\<close> always holds, so that an interrupted call adds
  its result -1 to \<open>numRead\<close>.\<close>

definition secondary_read ::
    "'k kops \<Rightarrow> int \<Rightarrow> inotify_event list \<Rightarrow> int \<Rightarrow> 'k dtree \<Rightarrow>
     (inotify_event list \<times> int, 'k dtree) outcome" where
  "secondary_read K fd evs numRead s =
     (case k_read K fd (nat (INOTIFY_READ_BUF_LEN - numRead)) (kern s) of
        (Inl e, k) \<Rightarrow>
          (let s = s\<lparr>kern := k\<rparr> in
           if e \<noteq> EINTR_err then errExit_macro K ''read'' e s
           else (let s = s\<lparr>inotifyReadCnt := inotifyReadCnt s + 1\<rparr>;
                     s = logMessage VB_NOISY ''\<newline>==========> SECONDARY Read %d: got %zd bytes\<newline>''
                           [AInt (int (inotifyReadCnt s)), AInt (-1)] s
                 in Ret (evs, numRead - 1) s))
      | (Inr evs2, k) \<Rightarrow>
          (let s = s\<lparr>kern := k\<rparr> in
           if evs2 = []
           then Exited 1 (fprintf_stderr ''read() from inotify fd returned 0!'' [] s)
           else (let s = s\<lparr>inotifyReadCnt := inotifyReadCnt s + 1\<rparr>;
                     s = logMessage VB_NOISY ''\<newline>==========> SECONDARY Read %d: got %zd bytes\<newline>''
                           [AInt (int (inotifyReadCnt s)), AInt (bytes_of evs2)] s
                 in Ret (evs @ evs2, numRead + bytes_of evs2) s)))"

text \<open>The \<open>for\<close> loop, with a bound on the number of rounds; \<open>numRead\<close> counts the bytes from
  \<open>evp\<close> to the end of the data.  \<open>None\<close>: the bound was too small.\<close>

fun events_loop ::
    "'k kops \<Rightarrow> nat \<Rightarrow> int \<Rightarrow> inotify_event list \<Rightarrow> int \<Rightarrow> bool \<Rightarrow> 'k dtree \<Rightarrow>
     (int, 'k dtree) outcome option" where
  "events_loop K 0 fd evs numRead firstTry s = (if numRead \<le> 0 then Some (Ret fd s) else None)"
| "events_loop K (Suc fuel) fd evs numRead firstTry s =
     (if numRead \<le> 0 then Some (Ret fd s)
      else
        (case processNextInotifyEvent K fd evs numRead firstTry s of
           Ret (evLen, fd') s' \<Rightarrow>
             (if evLen > 0
              then events_loop K fuel fd' (skip_bytes evLen evs) (numRead - evLen) True s'
              else
                (case secondary_read K fd' evs numRead s' of
                   Ret (evs', numRead') s'' \<Rightarrow> events_loop K fuel fd' evs' numRead' False s''
                 | Exited n s'' \<Rightarrow> Some (Exited n s'')
                 | Aborted s'' \<Rightarrow> Some (Aborted s'')
                 | Undefd \<Rightarrow> Some Undefd))
         | Exited n s' \<Rightarrow> Some (Exited n s')
         | Aborted s' \<Rightarrow> Some (Aborted s')
         | Undefd \<Rightarrow> Some Undefd))"

text \<open>A \<open>-b\<close> option larger than the buffer lets \<open>read\<close> write past its end.\<close>

definition processInotifyEvents ::
    "'k kops \<Rightarrow> nat \<Rightarrow> int \<Rightarrow> 'k dtree \<Rightarrow> (int, 'k dtree) outcome option" where
  "processInotifyEvents K fuel fd s =
     (let cnt = (if readBufferSize s > 0 then readBufferSize s else INOTIFY_READ_BUF_LEN) in
      case k_read K fd (nat cnt) (kern s) of
        (Inl e, k) \<Rightarrow> Some (errExit_macro K ''read'' e (s\<lparr>kern := k\<rparr>))
      | (Inr evs, k) \<Rightarrow>
          (let s = s\<lparr>kern := k\<rparr> in
           if evs = []
           then Some (Exited 1 (fprintf_stderr ''read() from inotify fd returned 0!'' [] s))
           else if bytes_of evs > INOTIFY_READ_BUF_LEN then Some Undefd
           else (let s = s\<lparr>inotifyReadCnt := inotifyReadCnt s + 1\<rparr>;
                     s = logMessage VB_NOISY ''\<newline>==========> Read %d: got %zd bytes\<newline>''
                           [AInt (int (inotifyReadCnt s)), AInt (bytes_of evs)] s
                 in events_loop K fuel fd evs (bytes_of evs) True s)))"

section \<open>Commands\<close>

definition MAX_LINE :: nat where "MAX_LINE = 100"

text \<open>The string left in \<open>line\<close> after its last byte was overwritten with the null byte, and
  the conversion \<open>"%c %s"\<close>: the command letter and, where there is one, the argument.\<close>

definition line_string :: "string \<Rightarrow> string" where
  "line_string bytes = before (butlast bytes) (CHR 0x00)"

definition command_arg :: "string \<Rightarrow> string option" where
  "command_arg line =
     (let t = takeWhile (\<lambda>c. \<not> isspace c) (dropWhile isspace (tl line))
      in if t = [] then None else Some t)"

definition withArg :: "string option \<Rightarrow> (string \<Rightarrow> ('a, 's) outcome) \<Rightarrow> ('a, 's) outcome" where
  "withArg arg f = (case arg of None \<Rightarrow> Undefd | Some a \<Rightarrow> f a)"

definition cmd_add :: "'k kops \<Rightarrow> int \<Rightarrow> string option \<Rightarrow> 'k dtree \<Rightarrow> (int, 'k dtree) outcome" where
  "cmd_add K fd arg s =
     withArg arg (\<lambda>a. andThen (zapSubtree K fd a s)
       (\<lambda>cnt s. let s = (if cnt = 0 then logMessage VB_BASIC ''Adding new subtree: %s\<newline>'' [AStr a] s
                         else logMessage VB_BASIC ''Zapped: %s, %d entries\<newline>'' [AStr a, AInt cnt] s)
                in andThen (watchSubtree K fd a s) (\<lambda>_ s. Ret fd s)))"

fun cmd_check_loop ::
    "'k kops \<Rightarrow> bool \<Rightarrow> nat list \<Rightarrow> nat \<Rightarrow> nat \<Rightarrow> 'k dtree \<Rightarrow> (nat \<times> nat, 'k dtree) outcome" where
  "cmd_check_loop K loud [] cnt failures s = Ret (cnt, failures) s"
| "cmd_check_loop K loud (j # js) cnt failures s =
     (let w = wlCache s ! j in
      if wd w \<ge> 0 then
        (case k_lstat K (path w) (kern s) of
           (LstatFail e, k) \<Rightarrow>
             (let s = s\<lparr>kern := k\<rparr>;
                  s = (if loud then logMessage VB_BASIC ''stat: [slot = %d; wd = %d] %s: %s\<newline>''
                         [AInt (int j), AInt (wd w), AStr (path w), AStr (k_strerror K e)] s else s)
              in cmd_check_loop K loud js cnt (Suc failures) s)
         | (LstatOk isdir ino dev, k) \<Rightarrow>
             (let s = s\<lparr>kern := k\<rparr> in
              if \<not> isdir
              then Exited 1 (if loud then logMessage 0 ''%s is not a directory\<newline>'' [AStr (path w)] s else s)
              else (let s = (if loud then logMessage VB_NOISY ''OK: [slot = %d; wd = %d] %s\<newline>''
                               [AInt (int j), AInt (wd w), AStr (path w)] s else s)
                    in cmd_check_loop K loud js (Suc cnt) failures s)))
      else cmd_check_loop K loud js cnt failures s)"

definition cmd_check :: "'k kops \<Rightarrow> int \<Rightarrow> bool \<Rightarrow> 'k dtree \<Rightarrow> (int, 'k dtree) outcome" where
  "cmd_check K fd loud s =
     andThen (cmd_check_loop K loud [0..<length (wlCache s)] 0 0 s)
       (\<lambda>(cnt, failures) s.
          let s = logMessage 0 ''Successfully verified %d entries\<newline>'' [AInt (int cnt)] s
          in Ret fd (logMessage 0 ''Failures: %d\<newline>'' [AInt (int failures)] s))"

definition cmd_list :: "int \<Rightarrow> 'k dtree \<Rightarrow> (int, 'k dtree) outcome" where
  "cmd_list fd s =
     (let entries = filter (\<lambda>(j, w). wd w \<ge> 0) (zip [0..<length (wlCache s)] (wlCache s));
          s = fold (\<lambda>(j, w) s. logMessage 0 ''%d: %d %s\<newline>'' [AInt (int j), AInt (wd w), AStr (path w)] s)
                entries s
      in Ret fd (logMessage VB_BASIC ''Total entries: %d\<newline>'' [AInt (int (length entries))] s))"

definition cmd_verbose :: "int \<Rightarrow> string option \<Rightarrow> 'k dtree \<Rightarrow> (int, 'k dtree) outcome" where
  "cmd_verbose fd arg s =
     (case arg of
        Some a \<Rightarrow> Ret fd (s\<lparr>verboseMask := word_of_int (atoi a)\<rparr>)
      | None \<Rightarrow>
          (let s = s\<lparr>verboseMask := (if verboseMask s = 0 then 1 else 0)\<rparr>
           in Ret fd (printf ''%s\<newline>'' [AStr (if verboseMask s \<noteq> 0 then ''on'' else ''off'')] s)))"

text \<open>The command \<open>w\<close> goes on after a failed \<open>fopen\<close> and uses the null stream.\<close>

definition cmd_write :: "'k kops \<Rightarrow> int \<Rightarrow> string option \<Rightarrow> 'k dtree \<Rightarrow> (int, 'k dtree) outcome" where
  "cmd_write K fd arg s =
     withArg arg (\<lambda>a.
       case k_fopen K a (kern s) of
         (Some e, k) \<Rightarrow> Undefd
       | (None, k) \<Rightarrow>
           Ret fd (s\<lparr>kern := k_write_file K a
             (map (\<lambda>w. (''%s\<newline>'', [AStr (path w)])) (filter (\<lambda>w. wd w \<ge> 0) (wlCache s))) k\<rparr>))"

definition cmd_zap :: "'k kops \<Rightarrow> int \<Rightarrow> string option \<Rightarrow> 'k dtree \<Rightarrow> (int, 'k dtree) outcome" where
  "cmd_zap K fd arg s =
     withArg arg (\<lambda>a. andThen (zapSubtree K fd a s)
       (\<lambda>cnt s. Ret fd (logMessage VB_BASIC ''Zapped: %s, %d entries\<newline>'' [AStr a, AInt cnt] s)))"

definition cmd_rebuild :: "'k kops \<Rightarrow> int \<Rightarrow> 'k dtree \<Rightarrow> (int, 'k dtree) outcome" where
  "cmd_rebuild K fd s = reinitialize K (-1) (s\<lparr>kern := k_close K fd (kern s)\<rparr>)"

definition help_text :: "string list" where
  "help_text =
     [''Commands:\<newline>'', ''0        Rebuild cache\<newline>'',
      ''a path   Add/refresh pathname watches and cache\<newline>'',
      ''c        Verify cached pathnames\<newline>'', ''d        Toggle cache dumping\<newline>'',
      ''l        List cached pathnames\<newline>'', ''q        Quit\<newline>'',
      ''v [n]    Toggle/set verbose level for messages to stderr\<newline>'',
      ''             0 = no messages\<newline>'', ''             1 = basic messages\<newline>'',
      ''             2 = verbose messages\<newline>'', ''             3 = basic and verbose messages\<newline>'',
      ''w file   Write directory list to file\<newline>'', ''x        Toggle cache checking\<newline>'',
      ''z path   Zap pathname and watches from cache\<newline>'']"

definition on_off :: "bool \<Rightarrow> arg list" where
  "on_off b = [AStr (if b then ''on'' else ''off'')]"

definition executeCommand :: "'k kops \<Rightarrow> int \<Rightarrow> 'k dtree \<Rightarrow> (int, 'k dtree) outcome" where
  "executeCommand K fd s =
     (case k_stdin K (kern s) of
        (None, k) \<Rightarrow> Exited 1 (printf ''bye!\<newline>'' [] (s\<lparr>kern := k\<rparr>))
      | (Some bytes, k) \<Rightarrow>
          (let s = s\<lparr>kern := k\<rparr>; line = line_string bytes in
           if line = [] then Ret fd s
           else
             (let cmd = hd line; arg = command_arg line in
              if cmd = CHR ''a'' then cmd_add K fd arg s
              else if cmd = CHR ''c'' \<or> cmd = CHR ''C'' then cmd_check K fd (cmd = CHR ''c'') s
              else if cmd = CHR ''l'' then cmd_list fd s
              else if cmd = CHR ''q'' then Exited 0 s
              else if cmd = CHR ''v'' then cmd_verbose fd arg s
              else if cmd = CHR ''d''
                then Ret fd (printf ''%s\<newline>'' (on_off (\<not> dumpCache s)) (s\<lparr>dumpCache := \<not> dumpCache s\<rparr>))
              else if cmd = CHR ''x''
                then Ret fd (printf ''%s\<newline>'' (on_off (\<not> checkCache s)) (s\<lparr>checkCache := \<not> checkCache s\<rparr>))
              else if cmd = CHR ''w'' then cmd_write K fd arg s
              else if cmd = CHR ''z'' then cmd_zap K fd arg s
              else if cmd = CHR ''0'' then cmd_rebuild K fd s
              else Ret fd (fold (\<lambda>t s. printf t [] s) help_text
                     (printf ''Unrecognized command: %c\<newline>'' [AStr [cmd]] s)))))"

section \<open>The program\<close>

definition usage_lines :: "string list" where
  "usage_lines =
     [''    -v lvl   Display logging information\<newline>'',
      ''    -l file  Send logging information to a file\<newline>'',
      ''    -x       Check cache consistency after each operation\<newline>'',
      ''    -d       Dump cache to log after every operation\<newline>'',
      ''    -b size  Set buffer size for read() from inotify FD\<newline>'',
      ''    -a file  Abort when cache inconsistency detected, and create 'stop' file\<newline>'']"

definition usageError :: "string \<Rightarrow> 'k dtree \<Rightarrow> ('a, 'k dtree) outcome" where
  "usageError pname s =
     Exited 1 (fold (\<lambda>t s. fprintf_stderr t [] s) usage_lines
       (fprintf_stderr ''Usage: %s [options] directory-path\<newline>\<newline>'' [AStr pname] s))"

text \<open>The options as \<open>getopt\<close> returns them, each with its \<open>optarg\<close>.\<close>

fun parse_options ::
    "'k kops \<Rightarrow> string \<Rightarrow> (char \<times> string) list \<Rightarrow> 'k dtree \<Rightarrow> (unit, 'k dtree) outcome" where
  "parse_options K pname [] s = Ret () s"
| "parse_options K pname ((opt, optarg) # os) s =
     (if opt = CHR ''a''
        then parse_options K pname os (s\<lparr>abortOnCacheProblem := True, stopFile := Some optarg\<rparr>)
      else if opt = CHR ''x'' then parse_options K pname os (s\<lparr>checkCache := True\<rparr>)
      else if opt = CHR ''d'' then parse_options K pname os (s\<lparr>dumpCache := True\<rparr>)
      else if opt = CHR ''v''
        then parse_options K pname os (s\<lparr>verboseMask := word_of_int (atoi optarg)\<rparr>)
      else if opt = CHR ''b'' then parse_options K pname os (s\<lparr>readBufferSize := atoi optarg\<rparr>)
      else if opt = CHR ''l''
        then (case k_fopen K optarg (kern s) of
                (Some e, k) \<Rightarrow> errExit_macro K ''fopen'' e (s\<lparr>kern := k, logfp := None\<rparr>)
              | (None, k) \<Rightarrow> parse_options K pname os (s\<lparr>kern := k, logfp := Some []\<rparr>))
      else usageError pname s)"

definition initial :: "'k \<Rightarrow> 'k dtree" where
  "initial k =
     \<lparr>verboseMask = 0, checkCache = False, dumpCache = False, readBufferSize = 0, stopFile = None,
      abortOnCacheProblem = False, logfp = None, err_log = [], out_log = [], inotifyReadCnt = 0,
      wlCache = [], rootDirPaths = [], ignoreRootDirs = 0, rootDirStat = [], dirCnt = 0,
      reinitCnt = 0, overflowCnt = 0, kern = k\<rparr>"

text \<open>One result of \<open>select\<close>: an error, or the descriptors that are ready.\<close>

datatype ready = SelectErr int | ReadyFds "int list"

definition STDIN_FILENO :: int where "STDIN_FILENO = 0"

definition main_round ::
    "'k kops \<Rightarrow> nat \<Rightarrow> string \<Rightarrow> int \<Rightarrow> ready \<Rightarrow> 'k dtree \<Rightarrow> (int, 'k dtree) outcome option" where
  "main_round K fuel pname inotifyFd r s =
     (case r of
        SelectErr e \<Rightarrow> Some (errExit_macro K ''select'' e s)
      | ReadyFds rfds \<Rightarrow>
          (case (if STDIN_FILENO \<in> set rfds
                 then andThen (executeCommand K inotifyFd s) (\<lambda>fd s. Ret fd (printf ''%s> '' [AStr pname] s))
                 else Ret inotifyFd s) of
             Ret fd s \<Rightarrow>
               (if fd \<in> set rfds then processInotifyEvents K fuel fd s else Some (Ret fd s))
           | Exited n s \<Rightarrow> Some (Exited n s)
           | Aborted s \<Rightarrow> Some (Aborted s)
           | Undefd \<Rightarrow> Some Undefd))"

fun main_loop ::
    "'k kops \<Rightarrow> nat \<Rightarrow> string \<Rightarrow> int \<Rightarrow> ready list \<Rightarrow> 'k dtree \<Rightarrow> (int, 'k dtree) outcome option" where
  "main_loop K fuel pname fd [] s = Some (Ret fd s)"
| "main_loop K fuel pname fd (r # rs) s =
     (case main_round K fuel pname fd r s of
        Some (Ret fd' s') \<Rightarrow> main_loop K fuel pname fd' rs s'
      | other \<Rightarrow> other)"

definition main_setup ::
    "'k kops \<Rightarrow> string \<Rightarrow> (char \<times> string) list \<Rightarrow> string list \<Rightarrow> 'k dtree \<Rightarrow> (int, 'k dtree) outcome" where
  "main_setup K pname opts dirs s =
     andThen (parse_options K pname opts s)
       (\<lambda>_ s. if dirs = [] then usageError pname s
              else andThen (copyRootDirPaths K dirs s)
                (\<lambda>_ s. andThen (reinitialize K (-1) s)
                   (\<lambda>fd s. Ret fd (printf ''%s> '' [AStr pname] s))))"

end
