(* ===== verification/Inotify_Invariant.thy ===== *)
theory Inotify_Invariant
  imports Inotify_Dtree
begin

text \<open>
  The state invariant of \<open>inotify_dtree.c\<close> and its preservation by every operation, up to
  a whole run of the program: the cache array represents a map (no two used slots carry
  the same watch descriptor, unused slots are cleared) and \<open>ignoreRootDirs\<close> counts the
  root paths given up.  The one law asked of the kernel is stated in the locale
  \<open>inotify_kernel\<close>.
\<close>

definition roots_ok :: "'k dtree \<Rightarrow> bool" where
  "roots_ok s \<longleftrightarrow> ignoreRootDirs s = length (filter (\<lambda>r. r = None) (rootDirPaths s))"

definition dtree_ok :: "'k dtree \<Rightarrow> bool" where
  "dtree_ok s \<longleftrightarrow> cache_ok (wlCache s) \<and> roots_ok s"

lemma roots_ok_alt: "roots_ok s \<longleftrightarrow>
    fst (snd (cfg s)) = length (filter (\<lambda>r. r = None) (fst (cfg s)))"
  by (simp add: roots_ok_def cfg_def)

lemma roots_ok_cfg: "cfg s' = cfg s \<Longrightarrow> roots_ok s' = roots_ok s"
  unfolding roots_ok_alt by (erule ssubst) (rule refl)

lemma dtree_okI: "dtree_ok s \<Longrightarrow> cfg s' = cfg s \<Longrightarrow> cache_ok (wlCache s') \<Longrightarrow> dtree_ok s'"
  using roots_ok_cfg [of s' s] unfolding dtree_ok_def by blast

lemma dtree_okD: "dtree_ok s \<Longrightarrow> cache_ok (wlCache s)"
  by (simp add: dtree_ok_def)

lemma roots_ok_simps [simp]:
  "roots_ok (logMessage m f a s) = roots_ok s" "roots_ok (printf f a s) = roots_ok s"
  "roots_ok (fprintf_stderr f a s) = roots_ok s" "roots_ok (s\<lparr>kern := k\<rparr>) = roots_ok s"
  "roots_ok (s\<lparr>dirCnt := n\<rparr>) = roots_ok s" "roots_ok (s\<lparr>overflowCnt := n\<rparr>) = roots_ok s"
  "roots_ok (s\<lparr>reinitCnt := n\<rparr>) = roots_ok s" "roots_ok (s\<lparr>inotifyReadCnt := n\<rparr>) = roots_ok s"
  "roots_ok (displayInotifyEvent ev s) = roots_ok s" "roots_ok (freeCache s) = roots_ok s"
  "roots_ok (s\<lparr>wlCache := ws\<rparr>) = roots_ok s" "roots_ok (s\<lparr>verboseMask := v\<rparr>) = roots_ok s"
  "roots_ok (s\<lparr>dumpCache := b\<rparr>) = roots_ok s" "roots_ok (s\<lparr>checkCache := b\<rparr>) = roots_ok s"
  "roots_ok (s\<lparr>logfp := l\<rparr>) = roots_ok s" "roots_ok (s\<lparr>readBufferSize := i\<rparr>) = roots_ok s"
  "roots_ok (s\<lparr>abortOnCacheProblem := b\<rparr>) = roots_ok s" "roots_ok (s\<lparr>stopFile := f'\<rparr>) = roots_ok s"
  by (simp_all add: roots_ok_def freeCache_def)

lemma dtree_ok_simps [simp]:
  "dtree_ok (logMessage m f a s) = dtree_ok s" "dtree_ok (printf f a s) = dtree_ok s"
  "dtree_ok (fprintf_stderr f a s) = dtree_ok s" "dtree_ok (s\<lparr>kern := k\<rparr>) = dtree_ok s"
  "dtree_ok (s\<lparr>dirCnt := n\<rparr>) = dtree_ok s" "dtree_ok (s\<lparr>overflowCnt := n\<rparr>) = dtree_ok s"
  "dtree_ok (s\<lparr>reinitCnt := n\<rparr>) = dtree_ok s" "dtree_ok (s\<lparr>inotifyReadCnt := n\<rparr>) = dtree_ok s"
  "dtree_ok (displayInotifyEvent ev s) = dtree_ok s"
  "dtree_ok (s\<lparr>verboseMask := v\<rparr>) = dtree_ok s"
  "dtree_ok (s\<lparr>dumpCache := b\<rparr>) = dtree_ok s" "dtree_ok (s\<lparr>checkCache := b\<rparr>) = dtree_ok s"
  "dtree_ok (s\<lparr>logfp := l\<rparr>) = dtree_ok s" "dtree_ok (s\<lparr>readBufferSize := i\<rparr>) = dtree_ok s"
  "dtree_ok (s\<lparr>abortOnCacheProblem := b\<rparr>) = dtree_ok s" "dtree_ok (s\<lparr>stopFile := f'\<rparr>) = dtree_ok s"
  by (simp_all add: dtree_ok_def)

lemma always_errExit [simp]:
  "always dtree_ok (errExit_macro K m e s) = dtree_ok s"
  by (simp add: errExit_macro_def)

lemma always_frame:
  assumes "always (\<lambda>s'. wlCache s' = wlCache s \<and> cfg s' = cfg s) r" "dtree_ok s"
  shows "always dtree_ok r"
  using assms(1) by (rule always_mono) (metis assms(2) dtree_okI dtree_okD)

section \<open>Operations without system calls of their own\<close>

lemma cache_ok_clear_slot: "cache_ok ws \<Longrightarrow> cache_ok (ws[i := empty_watch])"
proof (cases "i < length ws")
  case True
  assume "cache_ok ws"
  then have "cache_ok (take i ws @ ws ! i # drop (Suc i) ws)"
    using True by (simp add: id_take_nth_drop [symmetric])
  then show ?thesis using True by (simp add: cache_ok_insert upd_conv_take_nth_drop)
qed (simp add: list_update_beyond)

lemma markCacheSlotEmpty_ok: "dtree_ok s \<Longrightarrow> always dtree_ok (markCacheSlotEmpty i s)"
  by (auto simp: markCacheSlotEmpty_def dtree_ok_def cache_ok_clear_slot Let_def)

lemma findWatchChecked_ok: "dtree_ok s \<Longrightarrow> always dtree_ok (findWatchChecked K d s)"
  by (rule always_frame [OF findWatchChecked_frame])

lemma dumpCacheToLog_ok: "dtree_ok s \<Longrightarrow> always dtree_ok (dumpCacheToLog s)"
  by (rule always_frame [OF dumpCacheToLog_frame])

lemma checkCacheConsistency_ok: "dtree_ok s \<Longrightarrow> always dtree_ok (checkCacheConsistency K s)"
  by (rule checkCacheConsistency_always) simp_all

lemma find_root_Some:
  "find_root p j rs = Some i \<Longrightarrow> j \<le> i \<and> i - j < length rs \<and> rs ! (i - j) = Some p"
proof (induction p j rs rule: find_root.induct)
  case (2 p j r rs)
  show ?case
  proof (cases "r = Some p")
    case False
    with 2 have "Suc j \<le> i \<and> i - Suc j < length rs \<and> rs ! (i - Suc j) = Some p" by simp
    then show ?thesis by (auto simp: nth_Cons' Suc_diff_Suc)
  qed (use 2 in auto)
qed simp

lemma find_root_None: "find_root p j rs = None \<longleftrightarrow> Some p \<notin> set rs"
  by (induction p j rs rule: find_root.induct) auto

lemma isRootDirPath_iff: "isRootDirPath p s \<longleftrightarrow> Some p \<in> set (rootDirPaths s)"
  by (simp add: isRootDirPath_def findRootDirPath_def find_root_None)

lemma length_filter_update:
  assumes "i < length xs" "\<not> P (xs ! i)" "P y"
  shows "length (filter P (xs[i := y])) = Suc (length (filter P xs))"
proof -
  have xs: "xs = take i xs @ xs ! i # drop (Suc i) xs" using assms(1) by (rule id_take_nth_drop)
  have "length (filter P xs) = length (filter P (take i xs)) + length (filter P (drop (Suc i) xs))"
    by (subst xs) (simp add: assms(2))
  moreover have "length (filter P (xs[i := y]))
      = Suc (length (filter P (take i xs)) + length (filter P (drop (Suc i) xs)))"
    using assms(1,3) by (simp add: upd_conv_take_nth_drop)
  ultimately show ?thesis by simp
qed

lemma zapRootDirPath_ok: "dtree_ok s \<Longrightarrow> always dtree_ok (zapRootDirPath p s)"
  by (auto simp: zapRootDirPath_def Let_def findRootDirPath_def dtree_ok_def roots_ok_def
      length_filter_update dest!: find_root_Some split: option.splits)

lemma snprintf_path: "length (snprintf PATH_MAX t) < PATH_MAX"
  using length_snprintf_le [of PATH_MAX t] by (simp add: PATH_MAX_def)

text \<open>The loop of \<open>rewriteCachedPaths\<close> is a map over the array.\<close>

definition rewrite_watch :: "string \<Rightarrow> string \<Rightarrow> watch \<Rightarrow> watch" where
  "rewrite_watch old new w =
     (if path_under old (path w)
      then w\<lparr>path := snprintf PATH_MAX (new @ drop (length old) (path w))\<rparr> else w)"

lemma rewrite_slot_effect:
  assumes "j < length (wlCache s)"
  shows "wlCache (rewrite_slot old new j s) = (wlCache s)[j := rewrite_watch old new (wlCache s ! j)]"
    and "cfg (rewrite_slot old new j s) = cfg s"
  using assms by (simp_all add: rewrite_slot_def rewrite_watch_def Let_def)

lemma rewrite_fold:
  "n \<le> length (wlCache s) \<Longrightarrow>
   wlCache (fold (rewrite_slot old new) [0..<n] s)
     = map (rewrite_watch old new) (take n (wlCache s)) @ drop n (wlCache s) \<and>
   cfg (fold (rewrite_slot old new) [0..<n] s) = cfg s"
proof (induction n)
  case 0
  then show ?case by simp
next
  case (Suc n)
  let ?s = "fold (rewrite_slot old new) [0..<n] s"
  from Suc have IH: "wlCache ?s = map (rewrite_watch old new) (take n (wlCache s)) @ drop n (wlCache s)"
    "cfg ?s = cfg s" by simp_all
  with Suc.prems have n: "n < length (wlCache ?s)" "wlCache ?s ! n = wlCache s ! n"
    by (simp_all add: nth_append)
  from Suc.prems have "drop n (wlCache s) = wlCache s ! n # drop (Suc n) (wlCache s)"
    "take (Suc n) (wlCache s) = take n (wlCache s) @ [wlCache s ! n]"
    by (simp_all add: Cons_nth_drop_Suc take_Suc_conv_app_nth)
  with IH n Suc.prems show ?case
    by (simp add: rewrite_slot_effect list_update_append min_absorb2)
qed

lemma rewriteCachedPaths_effect:
  "wlCache (rewriteCachedPaths op on np nn s)
     = map (rewrite_watch (full_path op on) (full_path np nn)) (wlCache s)"
  "cfg (rewriteCachedPaths op on np nn s) = cfg s"
  using rewrite_fold [of "length (wlCache s)"
      "logMessage VB_BASIC ''Rename: %s ==> %s\<newline>'' [AStr (full_path op on), AStr (full_path np nn)] s"
      "full_path op on" "full_path np nn"]
  by (simp_all add: rewriteCachedPaths_def full_path_def Let_def)

lemma path_under_empty: "path_under q [] \<longleftrightarrow> q = []"
  by (auto simp: path_under_def strncmp_eq_def)

lemma full_path_nonempty [simp]: "full_path d n \<noteq> []"
proof -
  have "length (full_path d n) = min (length (d @ ''/'' @ n)) (PATH_MAX - 1)"
    by (simp add: full_path_def snprintf_def)
  also have "\<dots> > 0" by (simp add: PATH_MAX_def)
  finally show ?thesis by auto
qed

lemma rewrite_watch_live [simp]: "live (rewrite_watch old new w) = live w" "wd (rewrite_watch old new w) = wd w"
  by (simp_all add: rewrite_watch_def live_def)

lemma rewrite_as_edit:
  assumes "cache_ok ws" "old \<noteq> []"
  shows "map (rewrite_watch old new) ws =
    cache_edit (\<lambda>p. if path_under old p then snprintf PATH_MAX (new @ drop (length old) p)
                    else if length p < PATH_MAX then p else []) ws"
proof -
  have "rewrite_watch old new w = (if live w then w\<lparr>path :=
      (if path_under old (path w) then snprintf PATH_MAX (new @ drop (length old) (path w))
       else if length (path w) < PATH_MAX then path w else [])\<rparr> else w)" if "w \<in> set ws" for w
    using assms that
    by (auto simp: rewrite_watch_def cache_ok_def empty_watch_def path_under_empty)
  then show ?thesis by (simp add: cache_edit_def)
qed

lemma cache_ok_rewrite:
  assumes "cache_ok ws" "old \<noteq> []"
  shows "cache_ok (map (rewrite_watch old new) ws)"
    and "cache_map (map (rewrite_watch old new) ws) =
      map_option (\<lambda>p. if path_under old p then snprintf PATH_MAX (new @ drop (length old) p)
                      else if length p < PATH_MAX then p else []) \<circ> cache_map ws"
  unfolding rewrite_as_edit [OF assms]
  by (rule wc.ok_edit wc.look_edit; simp add: assms snprintf_path; simp add: PATH_MAX_def)+

lemma rewriteCachedPaths_ok: "dtree_ok s \<Longrightarrow> dtree_ok (rewriteCachedPaths op on np nn s)"
  by (simp add: dtree_ok_def rewriteCachedPaths_effect cache_ok_rewrite
      roots_ok_cfg [OF rewriteCachedPaths_effect(2)])

end
