(* ===== verification/Inotify_Run.thy ===== *)
theory Inotify_Run
  imports Inotify_Invariant
begin

text \<open>
  Every operation of \<open>inotify_dtree.c\<close> that calls the kernel keeps the invariant of
  \<open>Inotify_Invariant\<close>.  What is asked of the kernel are the locales \<open>wd_kernel\<close> (a watch
  descriptor is not negative, a pathname it accepts is shorter than \<open>PATH_MAX\<close>) and
  \<open>inotify_kernel\<close>: a predicate on its state is kept by every call but \<open>read\<close>.  The predicate lets a client
  carry a bound on the events still to come through the whole program; the flag \<open>u\<close> of
  \<open>within\<close> asks in addition that no undefined behaviour occurs.
\<close>

definition log_ok :: "'k dtree \<Rightarrow> bool" where
  "log_ok s \<longleftrightarrow> (dumpCache s \<or> abortOnCacheProblem s \<longrightarrow> logfp s \<noteq> None)"

definition dtree_inv :: "('k \<Rightarrow> bool) \<Rightarrow> bool \<Rightarrow> 'k dtree \<Rightarrow> bool" where
  "dtree_inv Q u s \<longleftrightarrow> dtree_ok s \<and> Q (kern s) \<and> (u \<longrightarrow> log_ok s)"

lemma log_ok_alt: "log_ok s \<longleftrightarrow>
    (case cfg s of (_, _, nolog, ab, _, dump) \<Rightarrow> dump \<or> ab \<longrightarrow> \<not> nolog)"
  by (simp add: log_ok_def cfg_def)

lemma log_ok_cfg: "cfg s' = cfg s \<Longrightarrow> log_ok s' = log_ok s"
  unfolding log_ok_alt by (erule ssubst) (rule refl)

lemma dtree_invI:
  "dtree_inv Q u s \<Longrightarrow> cfg s' = cfg s \<Longrightarrow> cache_ok (wlCache s') \<Longrightarrow> Q (kern s') \<Longrightarrow> dtree_inv Q u s'"
  using dtree_okI [of s s'] log_ok_cfg [of s' s] unfolding dtree_inv_def by blast

lemma dtree_invD: "dtree_inv Q u s \<Longrightarrow> dtree_ok s" "dtree_inv Q u s \<Longrightarrow> Q (kern s)"
    "dtree_inv Q u s \<Longrightarrow> cache_ok (wlCache s)" "dtree_inv Q u s \<Longrightarrow> u \<Longrightarrow> log_ok s"
  by (auto simp: dtree_inv_def dtree_ok_def)

lemma log_ok_simps [simp]:
  "log_ok (logMessage m f a s) = log_ok s" "log_ok (s\<lparr>kern := k\<rparr>) = log_ok s"
  "log_ok (s\<lparr>dirCnt := n\<rparr>) = log_ok s" "log_ok (s\<lparr>overflowCnt := n\<rparr>) = log_ok s"
  "log_ok (s\<lparr>reinitCnt := n\<rparr>) = log_ok s" "log_ok (s\<lparr>inotifyReadCnt := n\<rparr>) = log_ok s"
  "log_ok (displayInotifyEvent ev s) = log_ok s" "log_ok (freeCache s) = log_ok s"
  "log_ok (s\<lparr>wlCache := ws\<rparr>) = log_ok s" "log_ok (fprintf_stderr f a s) = log_ok s"
  by (rule log_ok_cfg, simp)+

lemma log_ok_printf [simp]: "log_ok (printf f a s) = log_ok s"
  by (simp add: log_ok_def printf_def)

lemma dtree_inv_simps [simp]:
  "dtree_inv Q u (logMessage m f a s) = dtree_inv Q u s" "dtree_inv Q u (printf f a s) = dtree_inv Q u s"
  "dtree_inv Q u (fprintf_stderr f a s) = dtree_inv Q u s"
  "dtree_inv Q u (s\<lparr>dirCnt := n\<rparr>) = dtree_inv Q u s" "dtree_inv Q u (s\<lparr>overflowCnt := n\<rparr>) = dtree_inv Q u s"
  "dtree_inv Q u (s\<lparr>reinitCnt := n\<rparr>) = dtree_inv Q u s"
  "dtree_inv Q u (s\<lparr>inotifyReadCnt := n\<rparr>) = dtree_inv Q u s"
  "dtree_inv Q u (displayInotifyEvent ev s) = dtree_inv Q u s"
  by (simp_all add: dtree_inv_def)

lemma dtree_inv_kern [simp]: "dtree_inv Q u s \<Longrightarrow> dtree_inv Q u (s\<lparr>kern := k\<rparr>) = Q k"
  by (simp add: dtree_inv_def)

lemma dtree_inv_free: "dtree_inv Q u s \<Longrightarrow> dtree_inv Q u (freeCache s)"
  by (rule dtree_invI) (auto simp: freeCache_def dtree_inv_def)

lemma within_errExit [simp]: "within u (dtree_inv Q u') (errExit_macro K m e s) = dtree_inv Q u' s"
  by (simp add: errExit_macro_def)

section \<open>Operations that make no call\<close>

lemma markCacheSlotEmpty_inv:
  assumes "dtree_inv Q u s" "i < length (wlCache s)"
  shows "within u (dtree_inv Q u) (markCacheSlotEmpty i s)"
proof -
  from markCacheSlotEmpty_in [OF assms(2)] obtain s' where
    s': "markCacheSlotEmpty i s = Ret () s'" "wlCache s' = (wlCache s)[i := empty_watch]"
      "cfg s' = cfg s" "kern s' = kern s" by auto
  have "dtree_inv Q u s'"
    by (rule dtree_invI [OF assms(1) s'(3)]) (use assms s' in \<open>simp_all add: dtree_invD cache_ok_clear_slot\<close>)
  with s'(1) show ?thesis by simp
qed

lemma dumpCacheToLog_inv:
  assumes "dtree_inv Q u s" "dumpCache s \<or> abortOnCacheProblem s"
  shows "within u (dtree_inv Q u) (dumpCacheToLog s)"
proof (cases "logfp s")
  case None
  with assms show ?thesis by (auto simp: dumpCacheToLog_def dtree_inv_def log_ok_def)
next
  case (Some l)
  then show ?thesis using assms(1)
    by (auto simp: dumpCacheToLog_def dtree_inv_def log_ok_def)
qed

lemma zapRootDirPath_inv:
  assumes "dtree_inv Q u s"
  shows "within u (dtree_inv Q u) (zapRootDirPath p s)"
proof -
  from assms have "dtree_ok s" by (rule dtree_invD)
  then have "always dtree_ok (zapRootDirPath p s)" by (rule zapRootDirPath_ok)
  then show ?thesis using assms
    by (auto simp: zapRootDirPath_def Let_def dtree_inv_def log_ok_def fprintf_stderr_def printf_def
        split: option.splits)
qed

lemma zapRootDirPath_wlCache: "zapRootDirPath p s = Ret v s' \<Longrightarrow> wlCache s' = wlCache s"
  by (auto simp: zapRootDirPath_def Let_def split: option.splits if_splits)

lemma rewriteCachedPaths_kern [simp]: "kern (rewriteCachedPaths op on np nn s) = kern s"
proof -
  have "kern (fold (rewrite_slot a b) js s) = kern s" for a b js and s :: "'a dtree"
    by (induction js arbitrary: s) (simp_all add: rewrite_slot_def Let_def)
  then show ?thesis by (simp add: rewriteCachedPaths_def Let_def)
qed

lemma rewriteCachedPaths_inv: "dtree_inv Q u s \<Longrightarrow> dtree_inv Q u (rewriteCachedPaths op on np nn s)"
  by (rule dtree_invI) (simp_all add: rewriteCachedPaths_effect cache_ok_rewrite dtree_invD)

section \<open>Events the kernel makes\<close>

text \<open>An event with descriptor -1 (overflow) or with \<open>IN_IGNORED\<close> carries none of the
  flags that refer to a watched directory.\<close>

definition dir_flags :: "32 word list" where
  "dir_flags = [IN_CREATE, IN_MOVED_TO, IN_DELETE_SELF, IN_MOVED_FROM, IN_UNMOUNT, IN_MOVE_SELF]"

definition no_dir_flags :: "inotify_event \<Rightarrow> bool" where
  "no_dir_flags ev \<longleftrightarrow> list_all (\<lambda>f. ev_mask ev AND f = 0) dir_flags"

definition ev_ok :: "inotify_event \<Rightarrow> bool" where
  "ev_ok ev \<longleftrightarrow> (ev_wd ev = -1 \<or> ev_mask ev AND IN_IGNORED \<noteq> 0 \<longrightarrow> no_dir_flags ev)"

lemma no_dir_flagsD:
  assumes "no_dir_flags ev"
  shows "ev_mask ev AND (IN_CREATE OR IN_MOVED_TO) = 0" "ev_mask ev AND IN_DELETE_SELF = 0"
    "ev_mask ev AND (IN_MOVED_FROM OR IN_ISDIR) \<noteq> IN_MOVED_FROM OR IN_ISDIR"
    "ev_mask ev AND IN_UNMOUNT = 0" "ev_mask ev AND IN_MOVE_SELF = 0"
proof -
  from assms have z: "ev_mask ev AND IN_CREATE = 0" "ev_mask ev AND IN_MOVED_TO = 0"
      "ev_mask ev AND IN_DELETE_SELF = 0" "ev_mask ev AND IN_MOVED_FROM = 0"
      "ev_mask ev AND IN_UNMOUNT = 0" "ev_mask ev AND IN_MOVE_SELF = 0"
    by (simp_all add: no_dir_flags_def dir_flags_def)
  then show "ev_mask ev AND IN_DELETE_SELF = 0" "ev_mask ev AND IN_UNMOUNT = 0"
    "ev_mask ev AND IN_MOVE_SELF = 0" by auto
  from z show "ev_mask ev AND (IN_CREATE OR IN_MOVED_TO) = 0"
    by (simp add: bit.conj_disj_distrib)
  show "ev_mask ev AND (IN_MOVED_FROM OR IN_ISDIR) \<noteq> IN_MOVED_FROM OR IN_ISDIR"
  proof
    assume "ev_mask ev AND (IN_MOVED_FROM OR IN_ISDIR) = IN_MOVED_FROM OR IN_ISDIR"
    then have "bit (ev_mask ev AND (IN_MOVED_FROM OR IN_ISDIR)) 6" by (simp add: IN_defs)
    then have "bit (ev_mask ev) 6" by (simp add: bit_and_iff)
    then have "bit (ev_mask ev AND IN_MOVED_FROM) 6" by (simp add: bit_and_iff IN_defs)
    with z show False by simp
  qed
qed

section \<open>The kernel's part\<close>

locale wd_kernel =
  fixes K :: "'k kops"
  assumes add_watch_wd: "k_add_watch K fd p fl k = (Inr d, k') \<Longrightarrow> 0 \<le> d \<and> length p < PATH_MAX"

locale inotify_kernel = wd_kernel K for K :: "'k kops" +
  fixes Q :: "'k \<Rightarrow> bool"
  assumes Q_lstat: "Q k \<Longrightarrow> Q (snd (k_lstat K p k))"
    and Q_add_watch: "Q k \<Longrightarrow> Q (snd (k_add_watch K fd p fl k))"
    and Q_rm_watch: "Q k \<Longrightarrow> Q (snd (k_rm_watch K fd d k))"
    and Q_init: "Q k \<Longrightarrow> Q (snd (k_inotify_init K k))"
    and Q_close: "Q k \<Longrightarrow> Q (k_close K fd k)"
    and Q_nftw: "Q k \<Longrightarrow> Q (snd (k_nftw K p k))"
    and Q_alloc: "Q k \<Longrightarrow> Q (snd (k_alloc K n k))"
    and Q_create: "Q k \<Longrightarrow> Q (k_create K f k)"
begin

lemma checkCache_loop_inv:
  "dtree_inv Q u s \<Longrightarrow> within u (dtree_inv Q u) (checkCache_loop K js f s)"
proof (induction js arbitrary: f s)
  case Nil
  then show ?case by simp
next
  case (Cons j js)
  obtain r k where r: "k_lstat K (path (wlCache s ! j)) (kern s) = (r, k)" by fastforce
  with Cons.prems Q_lstat [of "kern s" "path (wlCache s ! j)"] have "Q k"
    by (simp add: dtree_invD)
  with Cons r show ?case by (auto simp: Let_def split: lstat_res.splits)
qed

lemma checkCacheConsistency_inv:
  "dtree_inv Q u s \<Longrightarrow> within u (dtree_inv Q u) (checkCacheConsistency K s)"
  unfolding checkCacheConsistency_def
  by (rule within_andThen [OF checkCache_loop_inv]) auto

lemma findWatchChecked_inv:
  assumes "dtree_inv Q u s"
  shows "within u (dtree_inv Q u) (findWatchChecked K d s)"
proof (cases "0 \<le> findWatch d s \<or> \<not> abortOnCacheProblem s")
  case True
  with assms show ?thesis by (auto simp: findWatchChecked_def Let_def)
next
  case False
  let ?s = "logMessage 0 ''Could not find watch %d\<newline>'' [AInt d] s"
  have "within u (dtree_inv Q u) (createStopFileAndAbort K ?s :: (int, _) outcome)"
    unfolding createStopFileAndAbort_def
    by (rule within_andThen [OF dumpCacheToLog_inv])
      (use assms False in \<open>auto simp: dtree_invD Q_create\<close>)
  with False show ?thesis by (simp add: findWatchChecked_def Let_def)
qed

lemma addWatchToCache_inv:
  assumes "dtree_inv Q u s" "0 \<le> d" "findWatch d s = -1" "length p < PATH_MAX"
  shows "within u (dtree_inv Q u) (addWatchToCache K d p s)"
proof -
  have free: "cache_map (wlCache s) d = None"
    using findWatch_correct(1) [of s d] assms by (simp add: dtree_invD)
  have alloc: "Q (snd (k_alloc K n (kern s)))" for n
    using assms(1) by (simp add: dtree_invD Q_alloc)
  from assms(4) show ?thesis
  proof (cases rule: addWatchToCache_cases [of p K d s])
    case (added slot s')
    have "dtree_inv Q u s'"
      by (rule dtree_invI [OF assms(1) \<open>cfg s' = cfg s\<close>])
        (use added alloc free assms in \<open>auto simp: dtree_invD wc.ok_store\<close>)
    with added show ?thesis by simp
  next
    case (no_memory s')
    have "dtree_inv Q u s'"
      by (rule dtree_invI [OF assms(1) \<open>cfg s' = cfg s\<close>]) (use no_memory alloc in auto)
    with no_memory show ?thesis by simp
  qed
qed

lemma traverseTree_inv:
  assumes "dtree_inv Q u s"
  shows "within u (dtree_inv Q u) (traverseTree K ifd p isdir s)"
proof (cases isdir)
  case True
  let ?fl = "watch_flags p s OR IN_ONLYDIR"
  obtain r k where r: "k_add_watch K ifd p ?fl (kern s) = (r, k)" by fastforce
  with assms Q_add_watch [of "kern s" ifd p ?fl] have k: "Q k" by (simp add: dtree_invD)
  show ?thesis
  proof (cases r)
    case (Inl e)
    with r k True assms show ?thesis by (simp add: traverseTree_def Let_def)
  next
    case (Inr d)
    with r add_watch_wd have d: "0 \<le> d" "length p < PATH_MAX" by blast+
    let ?s = "s\<lparr>kern := k\<rparr>"
    have "within u (dtree_inv Q u) (addWatchToCache K d p (s\<lparr>kern := k, dirCnt := Suc (dirCnt s)\<rparr>))"
      if "\<not> 0 \<le> findWatch d ?s"
    proof (rule addWatchToCache_inv)
      show "findWatch d (s\<lparr>kern := k, dirCnt := Suc (dirCnt s)\<rparr>) = -1"
        using that find_slot_range [of "\<lambda>w. wd w = d" 0 "wlCache s"] by (auto simp: findWatch_def)
    qed (use assms k d in simp_all)
    note added = within_andThen [OF this]
    show ?thesis using True r Inr assms k
      by (auto simp: traverseTree_def Let_def intro!: added)
  qed
qed (use assms in \<open>simp add: traverseTree_def\<close>)

lemma nftw_calls_inv: "dtree_inv Q u s \<Longrightarrow> within u (dtree_inv Q u) (nftw_calls K ifd vs s)"
proof (induction vs arbitrary: s)
  case (Cons v vs)
  then show ?case
    by (cases v) (auto intro!: within_andThen [OF traverseTree_inv])
qed simp

lemma watchDir_inv:
  assumes "dtree_inv Q u s"
  shows "within u (dtree_inv Q u) (watchDir K fd p s)"
proof -
  obtain vs err k where n: "k_nftw K p (kern s) = ((vs, err), k)" by (metis surj_pair)
  with assms Q_nftw [of "kern s" p] have "Q k" by (simp add: dtree_invD)
  with assms have "within u (dtree_inv Q u) (nftw_calls K fd vs (s\<lparr>dirCnt := 0, kern := k\<rparr>))"
    by (intro nftw_calls_inv) simp
  then show ?thesis unfolding watchDir_def n
    by (auto intro!: within_andThen simp: Let_def split: option.splits)
qed

lemma watchSubtree_inv: "dtree_inv Q u s \<Longrightarrow> within u (dtree_inv Q u) (watchSubtree K fd p s)"
  unfolding watchSubtree_def by (rule within_andThen [OF watchDir_inv]) auto

lemma zap_loop_inv:
  "dtree_inv Q u s \<Longrightarrow> \<forall>j\<in>set js. j < length (wlCache s) \<Longrightarrow>
   within u (dtree_inv Q u) (zap_loop K fd pn js cnt s)"
proof (induction js arbitrary: cnt s)
  case (Cons j js)
  let ?w = "wlCache s ! j"
  let ?s = "logMessage VB_NOISY ''    removing watch: wd = %d (%s)\<newline>'' [AInt (wd ?w), AStr (path ?w)] s"
  obtain r k where r: "k_rm_watch K fd (wd ?w) (kern s) = (r, k)" by fastforce
  with Q_rm_watch [of "kern s" fd "wd ?w"] Cons.prems(1) have k: "Q k" by (simp add: dtree_invD)
  with Cons.prems have mark: "within u (dtree_inv Q u) (markCacheSlotEmpty j (?s\<lparr>kern := k\<rparr>))"
    by (intro markCacheSlotEmpty_inv) simp_all
  have "within u (dtree_inv Q u) (andThen (markCacheSlotEmpty j (?s\<lparr>kern := k\<rparr>))
      (\<lambda>_ s. zap_loop K fd pn js (cnt + 1) s))"
  proof (rule within_andThen [OF mark])
    fix v s'
    assume "markCacheSlotEmpty j (?s\<lparr>kern := k\<rparr>) = Ret v s'" "dtree_inv Q u s'"
    then show "within u (dtree_inv Q u) (zap_loop K fd pn js (cnt + 1) s')"
      using Cons.prems by (intro Cons.IH) (auto simp: markCacheSlotEmpty_def Let_def split: if_splits)
  qed
  with Cons r k show ?case by (simp add: Let_def split: option.splits)
qed simp

lemma zapSubtree_inv: "dtree_inv Q u s \<Longrightarrow> within u (dtree_inv Q u) (zapSubtree K fd p s)"
  by (simp add: zapSubtree_def Let_def zap_loop_inv)

lemma watch_roots_inv: "dtree_inv Q u s \<Longrightarrow> within u (dtree_inv Q u) (watch_roots K fd rs s)"
proof (induction rs arbitrary: s)
  case (Cons r rs)
  then show ?case
    by (cases r) (auto intro!: within_andThen [OF watchSubtree_inv])
qed simp

lemma reinitialize_inv:
  assumes "dtree_inv Q u s"
  shows "within u (dtree_inv Q u) (reinitialize K old s)"
proof -
  let ?s = "reinit_close K old s"
  have s1: "dtree_inv Q u ?s"
    using assms by (simp add: reinit_close_def Let_def dtree_invD Q_close)
  obtain r k where r: "k_inotify_init K (kern ?s) = (r, k)" by fastforce
  with Q_init [of "kern ?s"] s1 have k: "Q k" by (simp add: dtree_invD)
  have roots: "within u (dtree_inv Q u)
      (watch_roots K fd rs (freeCache (logMessage VB_BASIC t a (?s\<lparr>kern := k\<rparr>))))" for fd rs t a
    using s1 k by (intro watch_roots_inv dtree_inv_free) simp
  show ?thesis
    unfolding reinitialize_def Let_def r
    using s1 k by (auto intro!: within_andThen [OF roots] split: sum.splits)
qed

lemma discard_inv: "dtree_inv Q u s \<Longrightarrow> within u (dtree_inv Q u) (discard K fd s)"
  unfolding discard_def by (rule within_andThen [OF reinitialize_inv]) auto

lemma on_create_inv:
  "dtree_inv Q u s \<Longrightarrow> within u (dtree_inv Q u) (on_create K fd (Some i) ev s)"
  by (auto simp: on_create_def withSlot_def Let_def intro!: within_andThen [OF watchSubtree_inv])

lemma on_delete_self_inv:
  assumes "dtree_inv Q u s" "i < length (wlCache s)"
  shows "within u (dtree_inv Q u) (on_delete_self fd (Some i) ev s)"
proof -
  let ?p = "path (wlCache s ! i)"
  let ?s = "logMessage VB_BASIC ''Clearing watchlist item %d (%s)\<newline>'' [AInt (ev_wd ev), AStr ?p] s"
  let ?r = "if isRootDirPath ?p ?s then zapRootDirPath ?p ?s else Ret () ?s"
  let ?k = "\<lambda>s :: 'k dtree. andThen (markCacheSlotEmpty i s) (\<lambda>_ s. Ret (Fall (event_size ev) fd) s)"
  have "within u (dtree_inv Q u) (andThen ?r (\<lambda>_. ?k))"
  proof (rule within_andThen)
    show "within u (dtree_inv Q u) ?r"
      using assms(1) by (simp add: zapRootDirPath_inv)
    fix v s'
    assume "?r = Ret v s'" and s': "dtree_inv Q u s'"
    then have "wlCache s' = wlCache s"
      by (auto dest: zapRootDirPath_wlCache split: if_splits)
    with assms(2) have "within u (dtree_inv Q u) (markCacheSlotEmpty i s')"
      by (intro markCacheSlotEmpty_inv [OF s']) simp
    then show "within u (dtree_inv Q u) (?k s')" by (rule within_andThen) simp
  qed
  then show ?thesis unfolding on_delete_self_def withSlot_def Let_def by simp
qed

lemma on_moved_from_inv:
  assumes "dtree_inv Q u s" "u \<longrightarrow> event_size ev < n \<longrightarrow> rest \<noteq> []"
  shows "within u (dtree_inv Q u) (on_moved_from K fd (Some i) ev rest n first s)"
  using assms
  by (auto simp: on_moved_from_def withSlot_def Let_def discard_inv rewriteCachedPaths_inv
      intro!: within_andThen [OF findWatchChecked_inv] within_andThen [OF zapSubtree_inv])

lemma on_overflow_inv:
  "dtree_inv Q u s \<Longrightarrow> within u (dtree_inv Q u) (on_overflow K fd s)"
  by (auto simp: on_overflow_def Let_def intro!: within_andThen [OF reinitialize_inv])

lemma on_unmount_inv:
  "dtree_inv Q u s \<Longrightarrow> i < length (wlCache s) \<Longrightarrow> within u (dtree_inv Q u) (on_unmount fd (Some i) ev s)"
  by (auto simp: on_unmount_def withSlot_def Let_def intro!: within_andThen [OF markCacheSlotEmpty_inv])

lemma on_move_self_inv:
  assumes "dtree_inv Q u s"
  shows "within u (dtree_inv Q u) (on_move_self K fd (Some i) ev s)"
  using assms
  by (auto simp: on_move_self_def withSlot_def Let_def discard_inv
      intro!: within_andThen [OF zapRootDirPath_inv] within_andThen [OF zapSubtree_inv])

lemma event_branch_inv:
  assumes inv: "dtree_inv Q u s" and rest: "u \<longrightarrow> event_size ev < n \<longrightarrow> rest \<noteq> []"
    and slot: "case slot of Some i \<Rightarrow> i < length (wlCache s) | None \<Rightarrow> u \<longrightarrow> no_dir_flags ev"
  shows "within u (dtree_inv Q u) (event_branch K fd slot ev rest n first s)"
proof (cases slot)
  case (Some i)
  with slot have "i < length (wlCache s)" by simp
  with Some inv rest show ?thesis
    by (simp add: event_branch_def Let_def on_create_inv on_delete_self_inv on_moved_from_inv
        on_overflow_inv on_unmount_inv on_move_self_inv)
next
  case None
  show ?thesis
  proof (cases u)
    case True
    with None slot have "no_dir_flags ev" by simp
    from no_dir_flagsD [OF this] None inv show ?thesis
      by (simp add: event_branch_def Let_def on_overflow_inv)
  next
    case False
    with inv None show ?thesis
      using on_overflow_inv [of u s fd]
      by (auto simp: event_branch_def Let_def on_create_def on_delete_self_def on_moved_from_def
          on_unmount_def on_move_self_def withSlot_def intro!: within_andThen [OF findWatchChecked_inv] discard_inv)
  qed
qed

lemma event_tail_inv:
  assumes "dtree_inv Q u s"
  shows "within u (dtree_inv Q u) (event_tail K b s)"
proof (cases b)
  case (Fall a fd)
  have "within u (dtree_inv Q u) (if checkCache s then checkCacheConsistency K s else Ret () s)"
    using assms by (simp add: checkCacheConsistency_inv)
  then show ?thesis unfolding event_tail_def Fall branch.case
  proof (rule within_andThen)
    fix s' assume s': "dtree_inv Q u s'"
    then have "within u (dtree_inv Q u) (if dumpCache s' then dumpCacheToLog s' else Ret () s')"
      by (simp add: dumpCacheToLog_inv)
    then show "within u (dtree_inv Q u)
       (andThen (if dumpCache s' then dumpCacheToLog s' else Ret () s') (\<lambda>_ s. Ret (a, fd) s))"
      by (rule within_andThen) simp
  qed
qed (use assms in \<open>simp add: event_tail_def\<close>)

lemma processNextInotifyEvent_inv:
  assumes inv: "dtree_inv Q u s" and ev: "u \<longrightarrow> ev_ok ev" and rest: "u \<longrightarrow> event_size ev < n \<longrightarrow> rest \<noteq> []"
  shows "within u (dtree_inv Q u) (processNextInotifyEvent K fd (ev # rest) n first s)"
proof -
  let ?s = "displayInotifyEvent ev s"
  have s: "dtree_inv Q u ?s" using inv by simp
  have hit: "within u (dtree_inv Q u) (event_branch K fd (Some (nat slot)) ev rest n first s')"
    if "dtree_inv Q u s'" "slot \<noteq> -1" "findWatchChecked K (ev_wd ev) ?s = Ret slot s'" for slot s'
  proof -
    from findWatchChecked_Ret [OF that(3)] that(2) have "findWatch (ev_wd ev) ?s \<noteq> -1" "wlCache s' = wlCache ?s"
      "slot = findWatch (ev_wd ev) ?s" by auto
    then have "nat slot < length (wlCache s')"
      using find_slot_found [of "\<lambda>w. wd w = ev_wd ev" 0 "wlCache ?s"] by (auto simp: findWatch_def)
    with that(1) rest show ?thesis by (intro event_branch_inv) auto
  qed
  have "within u (dtree_inv Q u) (event_branch K fd None ev rest n first ?s)"
    if "ev_wd ev = -1 \<or> ev_mask ev AND IN_IGNORED \<noteq> 0"
    using s ev rest that by (intro event_branch_inv) (auto simp: ev_ok_def)
  with hit s show ?thesis
    unfolding processNextInotifyEvent_def Let_def
    by (auto intro!: within_andThen [OF findWatchChecked_inv] within_andThen [OF discard_inv]
        within_andThen [OF hit] within_andThen [of u _ "event_branch K fd None ev rest n first ?s"] event_tail_inv)
qed

end

sublocale wd_kernel \<subseteq> any: inotify_kernel K "\<lambda>_. True"
  by unfold_locales auto

end
