(* ===== verification/Inotify_Loop.thy ===== *)
theory Inotify_Loop
  imports Inotify_Run
begin

text \<open>
  The event loop, the commands and the whole program of \<open>inotify_dtree.c\<close>: the loop makes
  progress and ends whenever the kernel has finitely many events to deliver, it stays within
  the buffer and within defined behaviour, and the invariant holds over a whole run.
\<close>

section \<open>Bytes and events\<close>

lemma event_size_pos: "0 < event_size ev"
  by (simp add: event_size_def sizeof_event_def)

lemma bytes_of_simps [simp]: "bytes_of [] = 0" "bytes_of (e # es) = event_size e + bytes_of es"
  "bytes_of (xs @ ys) = bytes_of xs + bytes_of ys"
  by (simp_all add: bytes_of_def)

lemma bytes_of_nonneg [simp]: "0 \<le> bytes_of es"
  by (induction es) (use event_size_pos in \<open>auto simp: add_nonneg_nonneg less_imp_le\<close>)

lemma skip_bytes_nonpos [simp]: "n \<le> 0 \<Longrightarrow> skip_bytes n es = es"
  by (cases es) auto

lemma skip_bytes_length: "length (skip_bytes n es) \<le> length es"
  by (induction n es rule: skip_bytes.induct) auto

lemma skip_bytes_Cons: "0 < n \<Longrightarrow> length (skip_bytes n (e # es)) < length (e # es)"
  using skip_bytes_length [of "n - event_size e" es] by simp

lemma skip_bytes_set: "set (skip_bytes n es) \<subseteq> set es"
  by (induction n es rule: skip_bytes.induct) auto

text \<open>The number of bytes \<open>processNextInotifyEvent\<close> may report: one event, a pair of
  events, the whole buffer, or -1 at a \<open>IN_MOVED_FROM\<close> that ends the data.\<close>

definition consumes :: "inotify_event list \<Rightarrow> int \<Rightarrow> bool \<Rightarrow> int \<Rightarrow> bool" where
  "consumes evs n first l \<longleftrightarrow>
     l = -1 \<and> first \<and> n \<le> event_size (hd evs) \<or>
     l = event_size (hd evs) \<or>
     (\<exists>a b r. evs = a # b # r \<and> l = event_size a + event_size b) \<or>
     l = INOTIFY_READ_BUF_LEN"

definition branch_len :: "branch \<Rightarrow> int" where
  "branch_len b = (case b of Done r _ \<Rightarrow> r | Fall l _ \<Rightarrow> l)"

lemma discard_len: "discard K fd s = Ret b s' \<Longrightarrow> branch_len b = INOTIFY_READ_BUF_LEN"
  by (auto simp: discard_def branch_len_def)

lemma withSlot_Ret [simp]: "withSlot slot f = Ret v s \<longleftrightarrow> (\<exists>i. slot = Some i \<and> f i = Ret v s)"
  by (simp add: withSlot_def split: option.splits)

lemma branch_len_simps [simp]: "branch_len (Done r fd) = r" "branch_len (Fall l fd) = l"
  by (simp_all add: branch_len_def)

lemma event_branch_len:
  assumes "event_branch K fd slot ev rest n first s = Ret b s'"
  shows "consumes (ev # rest) n first (branch_len b)"
  using assms unfolding event_branch_def consumes_def
  by (auto simp: Let_def on_create_def on_delete_self_def on_moved_from_def on_overflow_def on_unmount_def
      on_move_self_def neq_Nil_conv dest!: discard_len split: if_splits)

lemma event_tail_len: "event_tail K b s = Ret (l, fd) s' \<Longrightarrow> l = branch_len b"
  by (cases b) (auto simp: event_tail_def)

lemma processNextInotifyEvent_len:
  assumes "processNextInotifyEvent K fd (ev # rest) n first s = Ret (l, fd') s'"
  shows "consumes (ev # rest) n first l"
  using assms
  by (auto simp: processNextInotifyEvent_def Let_def split: if_splits
      dest!: event_tail_len event_branch_len discard_len simp: consumes_def)

lemma consumes_progress:
  assumes "consumes (ev # rest) n first l" "n \<le> bytes_of (ev # rest)" "n \<le> INOTIFY_READ_BUF_LEN"
  shows "l = -1 \<and> first \<or>
    0 < l \<and> n - l \<le> bytes_of (skip_bytes l (ev # rest)) \<and> length (skip_bytes l (ev # rest)) < length (ev # rest)"
proof -
  have pos: "0 < INOTIFY_READ_BUF_LEN"
    by (simp add: INOTIFY_READ_BUF_LEN_def sizeof_event_def)
  consider "l = -1" "first" | "l = event_size ev" | b r where "rest = b # r" "l = event_size ev + event_size b"
    | "l = INOTIFY_READ_BUF_LEN"
    using assms(1) by (auto simp: consumes_def)
  then show ?thesis
  proof cases
    case 2
    with assms(2) event_size_pos [of ev] show ?thesis by simp
  next
    case 3
    with assms(2) event_size_pos [of ev] event_size_pos [of b] show ?thesis by simp
  next
    case 4
    have "n - l \<le> bytes_of (skip_bytes l (ev # rest))"
      using 4 assms(3) bytes_of_nonneg [of "skip_bytes l (ev # rest)"] by linarith
    with 4 pos skip_bytes_Cons [of l ev rest] show ?thesis by simp
  qed simp
qed

section \<open>The loop over a buffer\<close>

text \<open>A kernel that has at most \<open>pending k\<close> events left to deliver, delivers well-formed
  ones and no more bytes than it was asked for.\<close>

locale inotify_queue = wd_kernel K for K :: "'k kops" +
  fixes pending :: "'k \<Rightarrow> nat"
  assumes pend_lstat: "pending (snd (k_lstat K p k)) \<le> pending k"
    and pend_add_watch: "pending (snd (k_add_watch K fd p fl k)) \<le> pending k"
    and pend_rm_watch: "pending (snd (k_rm_watch K fd d k)) \<le> pending k"
    and pend_init: "pending (snd (k_inotify_init K k)) \<le> pending k"
    and pend_close: "pending (k_close K fd k) \<le> pending k"
    and pend_nftw: "pending (snd (k_nftw K p k)) \<le> pending k"
    and pend_alloc: "pending (snd (k_alloc K n k)) \<le> pending k"
    and pend_create: "pending (k_create K f k) \<le> pending k"
    and read_error: "k_read K fd n k = (Inl e, k') \<Longrightarrow> pending k' \<le> pending k"
    and read_events: "k_read K fd n k = (Inr evs, k') \<Longrightarrow>
      bytes_of evs \<le> int n \<and> list_all ev_ok evs \<and> pending k' + length evs \<le> pending k"

sublocale inotify_queue \<subseteq> b: inotify_kernel K "\<lambda>k. pending k \<le> m" for m
  by unfold_locales
    (blast intro: pend_lstat pend_add_watch pend_rm_watch pend_init pend_close pend_nftw pend_alloc
      pend_create le_trans)+

context inotify_queue
begin

lemma secondary_read_inv:
  assumes inv: "dtree_inv (\<lambda>k. pending k \<le> m) u s"
    and n: "n \<le> bytes_of evs" "n \<le> INOTIFY_READ_BUF_LEN" "list_all ev_ok evs"
  shows "case secondary_read K fd evs n s of
      Ret (evs', n') s' \<Rightarrow> n' \<le> bytes_of evs' \<and> n' \<le> INOTIFY_READ_BUF_LEN \<and> list_all ev_ok evs' \<and>
        (\<exists>m'. m' + length evs' \<le> m + length evs \<and> m' \<le> m \<and> dtree_inv (\<lambda>k. pending k \<le> m') u s')
    | Exited c s' \<Rightarrow> dtree_inv (\<lambda>k. pending k \<le> m) u s'
    | _ \<Rightarrow> False"
proof -
  let ?c = "nat (INOTIFY_READ_BUF_LEN - n)"
  obtain r k where r: "k_read K fd ?c (kern s) = (r, k)" by fastforce
  from inv have pend: "pending (kern s) \<le> m" by (rule dtree_invD)
  show ?thesis
  proof (cases r)
    case (Inl e)
    with r have "pending k \<le> m" using read_error pend le_trans by blast
    then have "dtree_inv (\<lambda>k. pending k \<le> m) u (s\<lparr>kern := k\<rparr>)" using inv by simp
    with Inl r n show ?thesis
      by (auto simp: secondary_read_def Let_def errExit_macro_def intro: exI [of _ m])
  next
    case (Inr evs2)
    with r have e: "bytes_of evs2 \<le> int ?c" "list_all ev_ok evs2" "pending k + length evs2 \<le> pending (kern s)"
      using read_events by blast+
    with pend have k: "pending k \<le> m - length evs2" "length evs2 \<le> m" by simp_all
    have "dtree_inv (\<lambda>k. pending k \<le> m - length evs2) u (s\<lparr>kern := k\<rparr>)"
      using inv k by (simp add: dtree_inv_def)
    moreover have "dtree_inv (\<lambda>k. pending k \<le> m) u (s\<lparr>kern := k\<rparr>)"
      using inv k by simp
    ultimately show ?thesis using Inr r n e k
      by (auto simp: secondary_read_def Let_def intro!: exI [of _ "m - length evs2"])
  qed
qed

lemma dtree_inv_weaken: "dtree_inv Q u s \<Longrightarrow> dtree_inv (\<lambda>_. True) u s"
  by (simp add: dtree_inv_def)

theorem events_loop_total:
  assumes "dtree_inv (\<lambda>k. pending k \<le> m) u s"
    and "n \<le> bytes_of evs" "n \<le> INOTIFY_READ_BUF_LEN" "list_all ev_ok evs"
    and "2 * (length evs + m) + (if first then 1 else 0) \<le> fuel"
  shows "\<exists>r. events_loop K fuel fd evs n first s = Some r \<and> within u (dtree_inv (\<lambda>_. True) u) r"
  using assms
proof (induction fuel arbitrary: fd evs n first s m)
  case 0
  then show ?case by (auto simp: dtree_inv_weaken)
next
  case (Suc fuel)
  show ?case
  proof (cases "n \<le> 0")
    case True
    with Suc.prems(1) show ?thesis by (simp add: dtree_inv_weaken)
  next
    case False
    with Suc.prems(2) obtain ev rest where evs: "evs = ev # rest" by (cases evs) auto
    let ?p = "processNextInotifyEvent K fd evs n first s"
    have inv: "within u (dtree_inv (\<lambda>k. pending k \<le> m) u) ?p"
      unfolding evs by (rule b.processNextInotifyEvent_inv) (use Suc.prems evs in auto)
    show ?thesis
    proof (cases ?p)
      case (Ret v s')
      obtain l fd' where v: "v = (l, fd')" by fastforce
      from inv Ret have s': "dtree_inv (\<lambda>k. pending k \<le> m) u s'" by simp
      have "consumes (ev # rest) n first l"
        using Ret unfolding v evs by (rule processNextInotifyEvent_len)
      from consumes_progress [OF this] Suc.prems(2,3) evs
      consider "l = -1" "first" | "0 < l" "n - l \<le> bytes_of (skip_bytes l evs)" "length (skip_bytes l evs) < length evs"
        by auto
      then show ?thesis
      proof cases
        case 1
        from secondary_read_inv [OF s' Suc.prems(2,3,4), of fd'] show ?thesis
        proof (cases "secondary_read K fd' evs n s'")
          case (Ret w s'')
          obtain evs' n' where w: "w = (evs', n')" by fastforce
          with secondary_read_inv [OF s' Suc.prems(2,3,4), of fd'] Ret obtain m' where
            "n' \<le> bytes_of evs'" "n' \<le> INOTIFY_READ_BUF_LEN" "list_all ev_ok evs'"
            "m' + length evs' \<le> m + length evs" "dtree_inv (\<lambda>k. pending k \<le> m') u s''" by auto
          with Suc.IH [of m' s'' n' evs' False fd'] Suc.prems(5) 1
          have "\<exists>r. events_loop K fuel fd' evs' n' False s'' = Some r \<and> within u (dtree_inv (\<lambda>_. True) u) r"
            by simp
          with False \<open>?p = Ret v s'\<close> v w Ret 1 show ?thesis by simp
        qed (use False Ret v 1 in \<open>auto simp: dtree_inv_weaken\<close>)
      next
        case 2
        have "list_all ev_ok (skip_bytes l evs)"
          using Suc.prems(4) skip_bytes_set [of l evs] by (auto simp: list_all_iff)
        with Suc.IH [OF s', of "n - l" "skip_bytes l evs" True fd'] 2 Suc.prems(3,5)
        have "\<exists>r. events_loop K fuel fd' (skip_bytes l evs) (n - l) True s' = Some r \<and>
            within u (dtree_inv (\<lambda>_. True) u) r" by (simp split: if_splits)
        with False Ret v 2 show ?thesis by simp
      qed
    qed (use False inv in \<open>auto simp: dtree_inv_weaken\<close>)
  qed
qed

lemma processInotifyEvents_total:
  assumes inv: "dtree_inv (\<lambda>k. pending k \<le> m) u s" and size: "readBufferSize s \<le> INOTIFY_READ_BUF_LEN"
    and fuel: "2 * m < fuel"
  shows "\<exists>r. processInotifyEvents K fuel fd s = Some r \<and> within u (dtree_inv (\<lambda>_. True) u) r"
proof -
  define cnt where "cnt = (if readBufferSize s > 0 then readBufferSize s else INOTIFY_READ_BUF_LEN)"
  have cnt: "0 \<le> cnt" "cnt \<le> INOTIFY_READ_BUF_LEN"
    using size by (auto simp: cnt_def INOTIFY_READ_BUF_LEN_def sizeof_event_def)
  obtain r k where r: "k_read K fd (nat cnt) (kern s) = (r, k)" by fastforce
  from inv have pend: "pending (kern s) \<le> m" by (rule dtree_invD)
  show ?thesis
  proof (cases r)
    case (Inl e)
    then show ?thesis using r inv
      by (simp add: processInotifyEvents_def cnt_def [symmetric] dtree_inv_def errExit_macro_def)
  next
    case (Inr evs)
    with r have e: "bytes_of evs \<le> int (nat cnt)" "list_all ev_ok evs" "pending k + length evs \<le> pending (kern s)"
      using read_events by blast+
    define s1 where "s1 = logMessage VB_NOISY ''\<newline>==========> Read %d: got %zd bytes\<newline>''
      [AInt (int (inotifyReadCnt s + 1)), AInt (bytes_of evs)]
      (s\<lparr>kern := k, inotifyReadCnt := inotifyReadCnt s + 1\<rparr>)"
    have "dtree_inv (\<lambda>k. pending k \<le> m - length evs) u s1"
      using inv e(3) pend by (simp add: s1_def dtree_inv_def)
    with events_loop_total [OF this, of "bytes_of evs" evs True fuel fd] e cnt pend fuel
    have "\<exists>r. events_loop K fuel fd evs (bytes_of evs) True s1 = Some r \<and>
        within u (dtree_inv (\<lambda>_. True) u) r" by simp
    moreover have "dtree_inv (\<lambda>_. True) u (s\<lparr>kern := k\<rparr>)" using inv by (simp add: dtree_inv_def)
    ultimately show ?thesis using Inr r e cnt
      by (auto simp: processInotifyEvents_def cnt_def [symmetric] Let_def s1_def)
  qed
qed

end

section \<open>A whole run\<close>

abbreviation dtree_inv0 :: "'k dtree \<Rightarrow> bool" where
  "dtree_inv0 \<equiv> dtree_inv (\<lambda>_. True) False"

lemma dtree_inv0 [simp]: "dtree_inv0 = dtree_ok"
  by (simp add: dtree_inv_def fun_eq_iff)

lemma within_False [simp]: "within False P r = always P r"
  by (simp add: within_def)

lemma always_withArg: "(\<And>a. always P (f a)) \<Longrightarrow> always P (withArg arg f)"
  by (simp add: withArg_def split: option.splits)

context wd_kernel
begin

lemmas ok_intros =
  any.watchSubtree_inv [of False, unfolded dtree_inv0 within_False]
  any.zapSubtree_inv [of False, unfolded dtree_inv0 within_False]
  any.reinitialize_inv [of False, unfolded dtree_inv0 within_False]

lemma cmd_check_loop_ok: "dtree_ok s \<Longrightarrow> always dtree_ok (cmd_check_loop K loud js c f s)"
  by (induction js arbitrary: c f s) (auto simp: Let_def split: prod.splits lstat_res.splits)

lemma fold_log_ok: "dtree_ok (fold (\<lambda>x s. logMessage m t (a x) s) xs s) = dtree_ok s"
  by (induction xs arbitrary: s) simp_all

lemma fold_printf_ok [simp]: "dtree_ok (fold (\<lambda>t s. printf t [] s) xs s) = dtree_ok s"
  by (induction xs arbitrary: s) simp_all

lemma cmd_list_ok: "dtree_ok s \<Longrightarrow> always dtree_ok (cmd_list fd s)"
  by (simp add: cmd_list_def Let_def case_prod_beta' fold_log_ok
      [of 0 "''%d: %d %s\<newline>''" "\<lambda>x. [AInt (int (fst x)), AInt (wd (snd x)), AStr (path (snd x))]"])

lemma cmd_add_ok: "dtree_ok s \<Longrightarrow> always dtree_ok (cmd_add K fd arg s)"
  unfolding cmd_add_def
  by (auto intro!: always_withArg always_andThen [OF ok_intros(2)] always_andThen [OF ok_intros(1)] simp: Let_def)

lemma cmd_zap_ok: "dtree_ok s \<Longrightarrow> always dtree_ok (cmd_zap K fd arg s)"
  unfolding cmd_zap_def by (auto intro!: always_withArg always_andThen [OF ok_intros(2)])

lemma cmd_check_ok: "dtree_ok s \<Longrightarrow> always dtree_ok (cmd_check K fd loud s)"
  unfolding cmd_check_def by (rule always_andThen [OF cmd_check_loop_ok]) (auto simp: Let_def)

lemma cmd_write_ok: "dtree_ok s \<Longrightarrow> always dtree_ok (cmd_write K fd arg s)"
  by (auto simp: cmd_write_def intro!: always_withArg split: prod.splits option.splits)

lemma cmd_rebuild_ok: "dtree_ok s \<Longrightarrow> always dtree_ok (cmd_rebuild K fd s)"
  by (simp add: cmd_rebuild_def ok_intros(3))

lemma cmd_verbose_ok: "dtree_ok s \<Longrightarrow> always dtree_ok (cmd_verbose fd arg s)"
  by (simp add: cmd_verbose_def Let_def split: option.splits)

lemma executeCommand_ok: "dtree_ok s \<Longrightarrow> always dtree_ok (executeCommand K fd s)"
  by (auto simp: executeCommand_def Let_def cmd_list_ok cmd_add_ok cmd_zap_ok cmd_check_ok cmd_write_ok
      cmd_rebuild_ok cmd_verbose_ok split: prod.splits option.splits)

lemma processNext_ok: "dtree_ok s \<Longrightarrow> always dtree_ok (processNextInotifyEvent K fd evs n first s)"
  using any.processNextInotifyEvent_inv [of False s]
  by (cases evs) (simp_all add: processNextInotifyEvent_def)

lemma secondary_read_ok: "dtree_ok s \<Longrightarrow> always dtree_ok (secondary_read K fd evs n s)"
  by (auto simp: secondary_read_def Let_def split: prod.splits sum.splits)

lemma events_loop_ok:
  "dtree_ok s \<Longrightarrow> events_loop K fuel fd evs n first s = Some r \<Longrightarrow> always dtree_ok r"
proof (induction fuel arbitrary: fd evs n first s)
  case 0
  then show ?case by (auto split: if_splits)
next
  case (Suc fuel)
  note p = processNext_ok [OF Suc.prems(1), of fd evs n first]
  show ?case
  proof (cases "n \<le> 0")
    case True
    with Suc.prems show ?thesis by auto
  next
    case False
    show ?thesis
    proof (cases "processNextInotifyEvent K fd evs n first s")
      case (Ret v s')
      obtain l fd' where v: "v = (l, fd')" by fastforce
      from Ret p have s': "dtree_ok s'" by simp
      note q = secondary_read_ok [OF s', of fd' evs n]
      from Suc.prems(2) False Ret v s' q show ?thesis
        by (auto split: if_splits outcome.splits intro: Suc.IH)
    qed (use Suc.prems(2) False p in auto)
  qed
qed

lemma processInotifyEvents_ok:
  "dtree_ok s \<Longrightarrow> processInotifyEvents K fuel fd s = Some r \<Longrightarrow> always dtree_ok r"
  by (auto simp: processInotifyEvents_def Let_def split: prod.splits sum.splits if_splits
      intro: events_loop_ok [rotated])

lemma main_round_ok:
  assumes "dtree_ok s" "main_round K fuel pname fd r s = Some r'"
  shows "always dtree_ok r'"
proof (cases r)
  case (ReadyFds rfds)
  let ?c = "if STDIN_FILENO \<in> set rfds
     then andThen (executeCommand K fd s) (\<lambda>fd s. Ret fd (printf ''%s> '' [AStr pname] s)) else Ret fd s"
  have c: "always dtree_ok ?c"
    using assms(1) by (auto intro: always_andThen [OF executeCommand_ok])
  from assms(2) ReadyFds have "(case ?c of
      Ret fd s \<Rightarrow> if fd \<in> set rfds then processInotifyEvents K fuel fd s else Some (Ret fd s)
    | Exited n s \<Rightarrow> Some (Exited n s) | Aborted s \<Rightarrow> Some (Aborted s) | Undefd \<Rightarrow> Some Undefd) = Some r'"
    by (simp add: main_round_def)
  with c show ?thesis
    by (cases ?c) (auto split: if_splits intro: processInotifyEvents_ok)
qed (use assms in \<open>auto simp: main_round_def errExit_macro_def\<close>)

lemma main_loop_ok:
  "dtree_ok s \<Longrightarrow> main_loop K fuel pname fd rs s = Some r \<Longrightarrow> always dtree_ok r"
proof (induction rs arbitrary: fd s)
  case (Cons r' rs)
  from Cons.prems(2) obtain o' where o': "main_round K fuel pname fd r' s = Some o'"
    by (auto split: option.splits)
  with Cons.prems(1) have "always dtree_ok o'" by (rule main_round_ok)
  with Cons o' show ?case by (cases o') auto
qed auto

end

lemma parse_options_frame:
  "parse_options K pname os s = Ret v s' \<Longrightarrow>
   wlCache s' = wlCache s \<and> rootDirPaths s' = rootDirPaths s \<and> ignoreRootDirs s' = ignoreRootDirs s"
proof (induction os arbitrary: s)
  case (Cons o' os)
  obtain c a where "o' = (c, a)" by fastforce
  with Cons show ?case
    by (auto simp: usageError_def errExit_macro_def split: if_splits prod.splits option.splits dest!: Cons.IH)
qed simp

lemma check_root_args_frame:
  "check_root_args K ps s = Ret v s' \<Longrightarrow> wlCache s' = wlCache s \<and> rootDirPaths s' = rootDirPaths s"
  by (induction ps arbitrary: s) (auto split: prod.splits lstat_res.splits if_splits)

lemma copy_roots_effect:
  "copy_roots K argv j ps s = Ret v s' \<Longrightarrow> rootDirPaths s = xs @ replicate (length ps) None \<Longrightarrow> length xs = j \<Longrightarrow>
   wlCache s' = wlCache s \<and> rootDirPaths s' = xs @ map Some ps"
proof (induction ps arbitrary: s j xs)
  case (Cons p ps)
  from Cons.prems have up: "(rootDirPaths s)[j := Some p] = (xs @ [Some p]) @ replicate (length ps) None"
    by (simp add: list_update_append)
  from Cons.prems(1) obtain k st where
    "copy_roots K argv (Suc j) ps (s\<lparr>rootDirPaths := (rootDirPaths s)[j := Some p], kern := k,
        rootDirStat := st\<rparr>) = Ret v s'"
    by (auto simp: Let_def errExit_macro_def split: prod.splits lstat_res.splits if_splits option.splits)
  from Cons.IH [OF this, of "xs @ [Some p]"] up Cons.prems(3) show ?case by simp
qed simp

lemma copyRootDirPaths_effect:
  assumes "copyRootDirPaths K argv s = Ret v s'"
  shows "wlCache s' = wlCache s \<and> rootDirPaths s' = map Some argv \<and> ignoreRootDirs s' = 0"
proof -
  from assms obtain s1 where s1: "check_root_args K argv s = Ret () s1"
    by (auto simp: copyRootDirPaths_def)
  obtain g1 k1 g2 k2 where k: "k_alloc K (length argv * 8) (kern s1) = (g1, k1)"
    "k_alloc K (length argv * 144) k1 = (g2, k2)" by (metis surj_pair)
  let ?s2 = "s1\<lparr>kern := k2, rootDirPaths := replicate (length argv) None, rootDirStat := []\<rparr>"
  from assms s1 k obtain s3 where s3: "copy_roots K argv 0 argv ?s2 = Ret () s3" "s' = s3\<lparr>ignoreRootDirs := 0\<rparr>"
    by (auto simp: copyRootDirPaths_def Let_def errExit_macro_def split: if_splits)
  from copy_roots_effect [OF s3(1), of "[]"] check_root_args_frame [OF s1] s3(2) show ?thesis by simp
qed

lemma main_setup_ok:
  assumes "wd_kernel K" "main_setup K pname opts dirs (initial k) = Ret fd s"
  shows "dtree_ok s"
proof -
  from assms(2) obtain s1 s2 s3 where
    s1: "parse_options K pname opts (initial k) = Ret () s1" and
    s2: "copyRootDirPaths K dirs s1 = Ret () s2" and
    s3: "reinitialize K (-1) s2 = Ret fd s3" "s = printf ''%s> '' [AStr pname] s3"
    by (auto simp: main_setup_def usageError_def split: if_splits)
  from parse_options_frame [OF s1] copyRootDirPaths_effect [OF s2] have "dtree_ok s2"
    by (simp add: dtree_ok_def roots_ok_def initial_def)
  from wd_kernel.ok_intros(3) [OF assms(1) this, of "-1"] s3 show ?thesis by simp
qed

end
