(* ===== verification/Inotify_Effects.thy ===== *)
theory Inotify_Effects
  imports Inotify_Loop
begin

text \<open>
  What the operations of \<open>inotify_dtree.c\<close> do to the map from watch descriptors to
  pathnames: removal of a subtree, renaming, and the walk that rebuilds the cache.
\<close>

section \<open>Pathnames below a directory\<close>

lemma path_under_iff: "path_under q p \<longleftrightarrow> p = q \<or> (\<exists>r. p = q @ CHR ''/'' # r)"
  by (auto simp: path_under_def strncmp_eq_prefix split: list.splits)

lemma path_under_refl [simp]: "path_under p p"
  by (simp add: path_under_iff)

section \<open>Removing a subtree\<close>

definition doomed :: "string \<Rightarrow> watch \<Rightarrow> bool" where
  "doomed p w \<longleftrightarrow> wd w \<ge> 0 \<and> path_under p (path w)"

definition clear_doomed :: "string \<Rightarrow> watch \<Rightarrow> watch" where
  "clear_doomed p w = (if doomed p w then empty_watch else w)"

text \<open>The result of \<open>zap_loop\<close> on the slots \<open>ys\<close> that follow \<open>xs\<close>: the first \<open>m\<close> of them
  are done, all of them unless the kernel refused.\<close>

definition zap_result ::
    "'k kops \<Rightarrow> int \<Rightarrow> string \<Rightarrow> watch list \<Rightarrow> watch list \<Rightarrow> int \<Rightarrow> 'k dtree \<Rightarrow> (int, 'k dtree) outcome \<Rightarrow> bool" where
  "zap_result K fd p xs ys cnt s r \<longleftrightarrow>
     (\<exists>c s' m. r = Ret c s' \<and> cfg s' = cfg s \<and>
        wlCache s' = xs @ map (clear_doomed p) (take m ys) @ drop m ys \<and>
        (c = -1 \<and> (\<exists>d k. fst (k_rm_watch K fd d k) \<noteq> None) \<or>
         m = length ys \<and> c = cnt + int (length (filter (doomed p) ys))))"

lemma zap_result_Cons:
  assumes "zap_result K fd p (xs @ [clear_doomed p y]) ys (if doomed p y then cnt + 1 else cnt) s1 r" "cfg s1 = cfg s"
  shows "zap_result K fd p xs (y # ys) cnt s r"
proof -
  from assms(1) obtain c s' m where *: "r = Ret c s'" "cfg s' = cfg s1"
    "wlCache s' = (xs @ [clear_doomed p y]) @ map (clear_doomed p) (take m ys) @ drop m ys"
    "c = -1 \<and> (\<exists>d k. fst (k_rm_watch K fd d k) \<noteq> None) \<or>
     m = length ys \<and> c = (if doomed p y then cnt + 1 else cnt) + int (length (filter (doomed p) ys))"
    unfolding zap_result_def by blast
  with assms(2) show ?thesis unfolding zap_result_def
    by (intro exI [of _ c] exI [of _ s'] exI [of _ "Suc m"]) auto
qed

lemma zap_loop_effect:
  assumes "wlCache s = xs @ ys"
  shows "zap_result K fd p xs ys cnt s (zap_loop K fd p [length xs..<length xs + length ys] cnt s)"
  using assms
proof (induction ys arbitrary: xs cnt s)
  case Nil
  then show ?case by (simp add: zap_result_def)
next
  case (Cons y ys)
  have up: "[length xs..<length xs + length (y # ys)]
      = length xs # [length (xs @ [clear_doomed p y])..<length (xs @ [clear_doomed p y]) + length ys]"
    using upt_conv_Cons [of "length xs" "length xs + length (y # ys)"] by (simp del: upt_Suc)
  have y: "wlCache s ! length xs = y" using Cons.prems by simp
  show ?case
  proof (cases "doomed p y")
    case False
    with Cons.IH [of s "xs @ [y]" cnt] Cons.prems
    have "zap_result K fd p (xs @ [clear_doomed p y]) ys cnt s
        (zap_loop K fd p [length (xs @ [y])..<length (xs @ [y]) + length ys] cnt s)"
      by (simp add: clear_doomed_def)
    with False show ?thesis unfolding up
      by (intro zap_result_Cons [of _ _ _ _ _ _ _ s]) (auto simp: y doomed_def Let_def simp del: upt_Suc)
  next
    case True
    let ?s = "logMessage VB_NOISY ''    removing watch: wd = %d (%s)\<newline>'' [AInt (wd y), AStr (path y)] s"
    obtain r k where r: "k_rm_watch K fd (wd y) (kern s) = (r, k)" by fastforce
    show ?thesis
    proof (cases r)
      case (Some e)
      with r have "\<exists>d k. fst (k_rm_watch K fd d k) \<noteq> None" by (metis fst_conv option.distinct(1))
      with Some r True Cons.prems show ?thesis unfolding up
        by (auto simp: y zap_result_def doomed_def Let_def intro: exI [of _ 0] simp del: upt_Suc)
    next
      case None
      from markCacheSlotEmpty_in [of "length xs" "?s\<lparr>kern := k\<rparr>"] Cons.prems obtain s1 where s1:
        "markCacheSlotEmpty (length xs) (?s\<lparr>kern := k\<rparr>) = Ret () s1" "cfg s1 = cfg s"
        "wlCache s1 = (xs @ [clear_doomed p y]) @ ys" using True by (auto simp: clear_doomed_def)
      from Cons.IH [OF s1(3), of "cnt + 1"] True None r s1 show ?thesis unfolding up
        by (intro zap_result_Cons [of _ _ _ _ _ _ _ s1]) (simp_all add: y doomed_def Let_def del: upt_Suc)
    qed
  qed
qed

lemma zapSubtree_result: "zap_result K fd p [] (wlCache s) 0 s (zapSubtree K fd p s)"
  using zap_loop_effect [of "logMessage VB_NOISY ''Zapping subtree: %s\<newline>'' [AStr p] s" "[]" "wlCache s" K fd p 0]
  by (simp add: zapSubtree_def Let_def zap_result_def)

text \<open>The effect on the map.\<close>

lemma live_clear_doomed [simp]: "live (clear_doomed p w) \<longleftrightarrow> live w \<and> \<not> path_under p (path w)"
  by (auto simp: clear_doomed_def doomed_def live_def empty_watch_def)

lemma filter_live_clear:
  "filter live (map (clear_doomed p) ws) = filter (\<lambda>w. \<not> path_under p (path w)) (filter live ws)"
  by (induction ws) (auto simp: clear_doomed_def doomed_def live_def empty_watch_def)

lemma cache_ok_clear_doomed:
  assumes "cache_ok (xs @ ys)"
  shows "cache_ok (map (clear_doomed p) xs @ ys)"
proof -
  have "distinct (map wd (filter P (filter live xs)))" if "distinct (map wd (filter live xs))" for P
    using that by (rule distinct_map_filter)
  with assms show ?thesis
    unfolding cache_ok_def filter_append filter_live_clear by (auto simp: clear_doomed_def)
qed

lemma live_clear_doomed_iff:
  "live (clear_doomed p w) \<and> wd (clear_doomed p w) = d \<and> path (clear_doomed p w) = q \<longleftrightarrow>
   live w \<and> wd w = d \<and> path w = q \<and> \<not> path_under p q"
  by (auto simp: clear_doomed_def doomed_def live_def empty_watch_def)

lemma zapped_map:
  assumes ok: "cache_ok (xs @ ys)"
  shows "cache_map (map (clear_doomed p) xs @ ys) d = Some q \<longleftrightarrow>
    cache_map (xs @ ys) d = Some q \<and> (path_under p q \<longrightarrow> (\<exists>w\<in>set ys. live w \<and> wd w = d))"
proof -
  have inj: "inj_on wd (set (filter live (xs @ ys)))"
    using ok by (simp only: cache_ok_def distinct_map)
  have same: "w = v" if "w \<in> set (xs @ ys)" "v \<in> set (xs @ ys)" "live w" "live v" "wd w = wd v" for w v
    by (rule inj_onD [OF inj that(5)]) (use that in \<open>simp_all only: set_filter mem_Collect_eq simp_thms\<close>)
  have "cache_map (map (clear_doomed p) xs @ ys) d = Some q \<longleftrightarrow>
      (\<exists>w\<in>set xs. live w \<and> wd w = d \<and> path w = q \<and> \<not> path_under p q) \<or>
      (\<exists>w\<in>set ys. live w \<and> wd w = d \<and> path w = q)"
    unfolding cache_map_Some_iff [OF cache_ok_clear_doomed [OF ok]] set_append set_map bex_Un
      bex_simps(7) live_clear_doomed_iff ..
  also have "\<dots> \<longleftrightarrow> cache_map (xs @ ys) d = Some q \<and> (path_under p q \<longrightarrow> (\<exists>w\<in>set ys. live w \<and> wd w = d))"
  proof
    assume "cache_map (xs @ ys) d = Some q \<and> (path_under p q \<longrightarrow> (\<exists>w\<in>set ys. live w \<and> wd w = d))"
    then show "(\<exists>w\<in>set xs. live w \<and> wd w = d \<and> path w = q \<and> \<not> path_under p q) \<or>
        (\<exists>w\<in>set ys. live w \<and> wd w = d \<and> path w = q)"
      unfolding cache_map_Some_iff [OF ok] using same by (metis Un_iff set_append)
  qed (auto simp: cache_map_Some_iff [OF ok])
  finally show ?thesis .
qed

lemma count_doomed:
  assumes "cache_ok ws"
  shows "length (filter (doomed p) ws) = card {d. \<exists>q. cache_map ws d = Some q \<and> path_under p q}"
proof -
  have f: "filter (doomed p) ws = filter (\<lambda>w. path_under p (path w)) (filter live ws)"
    by (auto simp: doomed_def live_def intro: filter_cong)
  have "distinct (map wd (filter (doomed p) ws))"
    unfolding f by (rule distinct_map_filter) (use assms in \<open>simp add: cache_ok_def\<close>)
  then have "length (filter (doomed p) ws) = card (set (map wd (filter (doomed p) ws)))"
    by (metis distinct_card length_map)
  also have "set (map wd (filter (doomed p) ws)) = {d. \<exists>q. cache_map ws d = Some q \<and> path_under p q}"
    using cache_map_Some_iff [OF assms] by (auto simp: doomed_def live_def)
  finally show ?thesis .
qed

lemma zapSubtree_effect:
  assumes ok: "cache_ok (wlCache s)"
  obtains c s' where "zapSubtree K fd p s = Ret c s'" "cfg s' = cfg s" "cache_ok (wlCache s')"
    "cache_map (wlCache s') \<subseteq>\<^sub>m cache_map (wlCache s)"
    "\<And>d q. cache_map (wlCache s) d = Some q \<Longrightarrow> \<not> path_under p q \<Longrightarrow> cache_map (wlCache s') d = Some q"
    "c = -1 \<Longrightarrow> \<exists>d k. fst (k_rm_watch K fd d k) \<noteq> None"
    "c \<noteq> -1 \<Longrightarrow> c = int (card {d. \<exists>q. cache_map (wlCache s) d = Some q \<and> path_under p q}) \<and>
       (\<forall>d q. cache_map (wlCache s') d = Some q \<longrightarrow> \<not> path_under p q)"
proof -
  let ?ws = "wlCache s"
  from zapSubtree_result [of K fd p s] obtain c s' m where r: "zapSubtree K fd p s = Ret c s'" "cfg s' = cfg s"
    "wlCache s' = map (clear_doomed p) (take m ?ws) @ drop m ?ws"
    "c = -1 \<and> (\<exists>d k. fst (k_rm_watch K fd d k) \<noteq> None) \<or>
     m = length ?ws \<and> c = int (length (filter (doomed p) ?ws))"
    unfolding zap_result_def append_Nil add_0 by blast
  have ok': "cache_ok (take m ?ws @ drop m ?ws)" using ok by simp
  have M: "cache_map (wlCache s') d = Some q \<longleftrightarrow> cache_map ?ws d = Some q \<and>
      (path_under p q \<longrightarrow> (\<exists>w\<in>set (drop m ?ws). live w \<and> wd w = d))" for d q
    using zapped_map [OF ok', of p d q] r(3) by simp
  show thesis
  proof (rule that [OF r(1,2)])
    show "cache_ok (wlCache s')" using cache_ok_clear_doomed [OF ok'] r(3) by simp
    show "cache_map (wlCache s') \<subseteq>\<^sub>m cache_map ?ws" using M by (auto simp: map_le_def dom_def)
    show "c \<noteq> -1 \<Longrightarrow> c = int (card {d. \<exists>q. cache_map ?ws d = Some q \<and> path_under p q}) \<and>
       (\<forall>d q. cache_map (wlCache s') d = Some q \<longrightarrow> \<not> path_under p q)"
      using r(4) M count_doomed [OF ok, of p] by auto
  qed (use r(4) M in auto)
qed

lemma zapSubtree_all:
  assumes "cache_ok (wlCache s)" "\<forall>fd d k. fst (k_rm_watch K fd d k) = None"
  shows "\<exists>c s'. zapSubtree K fd p s = Ret c s' \<and> c \<noteq> -1 \<and> cfg s' = cfg s \<and>
    (\<forall>d q. cache_map (wlCache s') d = Some q \<longleftrightarrow> cache_map (wlCache s) d = Some q \<and> \<not> path_under p q)"
proof (rule zapSubtree_effect [OF assms(1), of K fd p])
  fix c s'
  assume z: "zapSubtree K fd p s = Ret c s'" "cfg s' = cfg s"
    and sub: "cache_map (wlCache s') \<subseteq>\<^sub>m cache_map (wlCache s)"
    and keep: "\<And>d q. cache_map (wlCache s) d = Some q \<Longrightarrow> \<not> path_under p q \<Longrightarrow> cache_map (wlCache s') d = Some q"
    and fail: "c = -1 \<Longrightarrow> \<exists>d k. fst (k_rm_watch K fd d k) \<noteq> None"
    and all: "c \<noteq> -1 \<Longrightarrow> c = int (card {d. \<exists>q. cache_map (wlCache s) d = Some q \<and> path_under p q}) \<and>
       (\<forall>d q. cache_map (wlCache s') d = Some q \<longrightarrow> \<not> path_under p q)"
  from fail assms(2) have c: "c \<noteq> -1" by metis
  have "cache_map (wlCache s') d = Some q \<longleftrightarrow> cache_map (wlCache s) d = Some q \<and> \<not> path_under p q" for d q
    using sub keep all c by (metis domI map_le_def)
  with z c show ?thesis by blast
qed

section \<open>Walking a tree\<close>

text \<open>A directory is covered when the kernel gave it a descriptor that the cache knows, or
  reported that it is gone.\<close>

definition covered :: "'k kops \<Rightarrow> int \<Rightarrow> 'k dtree \<Rightarrow> string \<Rightarrow> bool" where
  "covered K fd s p \<longleftrightarrow>
     (\<exists>fl k d k'. k_add_watch K fd p fl k = (Inr d, k') \<and> d \<in> dom (cache_map (wlCache s))) \<or>
     (\<exists>fl k k'. k_add_watch K fd p fl k = (Inl ENOENT, k'))"

definition walked :: "'k kops \<Rightarrow> int \<Rightarrow> (string \<times> bool) list \<Rightarrow> 'k dtree \<Rightarrow> 'k dtree \<Rightarrow> bool" where
  "walked K fd vs s s' \<longleftrightarrow>
     dtree_ok s' \<and> cfg s' = cfg s \<and> cache_map (wlCache s) \<subseteq>\<^sub>m cache_map (wlCache s') \<and>
     ran (cache_map (wlCache s')) \<subseteq> ran (cache_map (wlCache s)) \<union> {p. (p, True) \<in> set vs} \<and>
     (\<forall>p. (p, True) \<in> set vs \<longrightarrow> covered K fd s' p)"

lemma covered_mono:
  "covered K fd s p \<Longrightarrow> cache_map (wlCache s) \<subseteq>\<^sub>m cache_map (wlCache s') \<Longrightarrow> covered K fd s' p"
  unfolding covered_def by (meson map_le_implies_dom_le subsetD)

lemma walked_refl: "dtree_ok s \<Longrightarrow> walked K fd [] s s"
  by (simp add: walked_def map_le_refl)

lemma walked_trans:
  assumes "walked K fd us s s'" "walked K fd vs s' s''"
  shows "walked K fd (us @ vs) s s''"
proof -
  from assms(2) have "covered K fd s' p \<Longrightarrow> covered K fd s'' p" for p
    unfolding walked_def using covered_mono by blast
  with assms show ?thesis
    unfolding walked_def by (auto intro: map_le_trans)
qed

lemma walked_frame:
  "walked K fd vs s s' \<Longrightarrow> wlCache t = wlCache s \<Longrightarrow> cfg t = cfg s \<Longrightarrow> wlCache t' = wlCache s' \<Longrightarrow>
   cfg t' = cfg s' \<Longrightarrow> walked K fd vs t t'"
  unfolding walked_def covered_def by (metis dtree_okD dtree_okI)

context wd_kernel
begin

lemma traverseTree_walked:
  assumes ok: "dtree_ok s" and ret: "traverseTree K fd p isdir s = Ret v s'"
  shows "walked K fd [(p, isdir)] s s'"
proof (cases isdir)
  case False
  with ret ok show ?thesis by (simp add: traverseTree_def walked_def map_le_refl)
next
  case True
  let ?fl = "watch_flags p s OR IN_ONLYDIR"
  have ok': "dtree_ok s'"
    using any.traverseTree_inv [of False s fd p isdir] ok ret by simp
  obtain r k where r: "k_add_watch K fd p ?fl (kern s) = (r, k)" by fastforce
  show ?thesis
  proof (cases r)
    case (Inl e)
    with r ret True have "e = ENOENT" "wlCache s' = wlCache s" "cfg s' = cfg s"
      by (auto simp: traverseTree_def Let_def split: if_splits)
    with r Inl ok' show ?thesis by (auto simp: walked_def covered_def map_le_refl)
  next
    case (Inr d)
    with r add_watch_wd have d: "0 \<le> d" "length p < PATH_MAX" by blast+
    let ?s = "s\<lparr>kern := k, dirCnt := Suc (dirCnt s)\<rparr>"
    from ok have cok: "cache_ok (wlCache s)" by (rule dtree_okD)
    show ?thesis
    proof (cases "0 \<le> findWatch d s")
      case True
      with ret r Inr \<open>isdir\<close> have "wlCache s' = wlCache s" "cfg s' = cfg s"
        by (auto simp: traverseTree_def findWatch_def)
      moreover from findWatch_correct(2) [OF cok d(1) True] have "d \<in> dom (cache_map (wlCache s))" by blast
      ultimately show ?thesis using r Inr ok' by (auto simp: walked_def covered_def map_le_refl)
    next
      case False
      then have none: "cache_map (wlCache s) d = None"
        using findWatch_correct(1) [OF cok d(1)] find_slot_range [of "\<lambda>w. wd w = d" 0 "wlCache s"]
        by (auto simp: findWatch_def)
      from False ret r Inr \<open>isdir\<close> obtain slot s1 where
        s1: "addWatchToCache K d p ?s = Ret slot s1" "wlCache s' = wlCache s1" "cfg s' = cfg s1"
        by (auto simp: traverseTree_def findWatch_def Let_def)
      with addWatchToCache_cases [OF d(2), of K d ?s]
      have "wlCache s' = cache_store d p (wlCache s)" "cfg s' = cfg s" by auto
      with wc.look_store [OF cok d(1) none d(2)] r Inr ok' none \<open>isdir\<close> show ?thesis
        by (auto simp: walked_def covered_def map_le_def dom_def ran_def split: if_splits)
    qed
  qed
qed

lemma nftw_calls_walked:
  "dtree_ok s \<Longrightarrow> nftw_calls K fd vs s = Ret v s' \<Longrightarrow> walked K fd vs s s'"
proof (induction vs arbitrary: s)
  case (Cons v' vs)
  obtain p isdir where v': "v' = (p, isdir)" by fastforce
  with Cons.prems obtain s1 where s1: "traverseTree K fd p isdir s = Ret () s1" "nftw_calls K fd vs s1 = Ret v s'"
    by auto
  from traverseTree_walked [OF Cons.prems(1) s1(1)] have "walked K fd [v'] s s1" "dtree_ok s1"
    by (simp_all add: v' walked_def)
  with walked_trans [of K fd "[v']" s s1 vs s'] Cons.IH [OF _ s1(2)] show ?case by simp
qed (simp add: walked_refl)

lemma watchSubtree_walked:
  assumes ok: "dtree_ok s" and ret: "watchSubtree K fd p s = Ret v s'"
  shows "\<exists>k. walked K fd (fst (fst (k_nftw K p k))) s s'"
proof -
  obtain vs err k where n: "k_nftw K p (kern s) = ((vs, err), k)" by (metis surj_pair)
  let ?s = "s\<lparr>dirCnt := 0, kern := k\<rparr>"
  from ret n obtain s1 where s1: "nftw_calls K fd vs ?s = Ret () s1" "wlCache s' = wlCache s1" "cfg s' = cfg s1"
    by (auto simp: watchSubtree_def watchDir_def Let_def split: option.splits)
  from ok have "dtree_ok ?s" by simp
  from nftw_calls_walked [OF this s1(1)] have "walked K fd vs s s'"
    by (rule walked_frame) (simp_all add: s1)
  with n have "walked K fd (fst (fst (k_nftw K p (kern s)))) s s'" by simp
  then show ?thesis by blast
qed

lemma watch_roots_walked:
  "dtree_ok s \<Longrightarrow> watch_roots K fd rs s = Ret v s' \<Longrightarrow>
   \<exists>vss. list_all2 (\<lambda>r vs. \<exists>k. vs = fst (fst (k_nftw K r k))) (map the (filter (\<lambda>r. r \<noteq> None) rs)) vss \<and>
     walked K fd (concat vss) s s'"
proof (induction rs arbitrary: s)
  case Nil
  then show ?case by (simp add: walked_refl)
next
  case (Cons r rs)
  show ?case
  proof (cases r)
    case None
    with Cons show ?thesis by simp
  next
    case (Some p)
    with Cons.prems obtain s1 where s1: "watchSubtree K fd p s = Ret () s1" "watch_roots K fd rs s1 = Ret v s'"
      by auto
    from watchSubtree_walked [OF Cons.prems(1) s1(1)] obtain k where
      w: "walked K fd (fst (fst (k_nftw K p k))) s s1" by blast
    then have "dtree_ok s1" by (simp add: walked_def)
    from Cons.IH [OF this s1(2)] obtain vss where
      v: "list_all2 (\<lambda>r vs. \<exists>k. vs = fst (fst (k_nftw K r k))) (map the (filter (\<lambda>r. r \<noteq> None) rs)) vss"
      "walked K fd (concat vss) s1 s'" by blast
    from walked_trans [OF w v(2)] v(1) Some show ?thesis
      by (intro exI [of _ "fst (fst (k_nftw K p k)) # vss"]) auto
  qed
qed

lemma reinitialize_walked:
  assumes ok: "dtree_ok s" and ret: "reinitialize K old s = Ret fd s'"
  shows "\<exists>vss t. list_all2 (\<lambda>r vs. \<exists>k. vs = fst (fst (k_nftw K r k)))
      (map the (filter (\<lambda>r. r \<noteq> None) (rootDirPaths s))) vss \<and>
    wlCache t = [] \<and> cfg t = cfg s \<and> walked K fd (concat vss) t s'"
proof -
  let ?s = "reinit_close K old s"
  have c: "cfg ?s = cfg s" "rootDirPaths ?s = rootDirPaths s" by (simp_all add: reinit_close_def Let_def)
  obtain r k where r: "k_inotify_init K (kern ?s) = (r, k)" by fastforce
  let ?t = "\<lambda>fd. freeCache (logMessage VB_BASIC ''    new inotifyFd = %d\<newline>'' [AInt fd] (?s\<lparr>kern := k\<rparr>))"
  from ret r obtain s1 where s1: "watch_roots K fd (rootDirPaths s) (?t fd) = Ret () s1"
    "wlCache s' = wlCache s1" "cfg s' = cfg s1"
    by (auto simp: reinitialize_def Let_def errExit_macro_def c freeCache_def split: sum.splits if_splits)
  have t: "wlCache (?t fd) = []" "cfg (?t fd) = cfg s" by (simp_all add: freeCache_def c)
  have "dtree_ok (?t fd)" by (rule dtree_okI [OF ok]) (use t in simp_all)
  from watch_roots_walked [OF this s1(1)] obtain vss where
    v: "list_all2 (\<lambda>r vs. \<exists>k. vs = fst (fst (k_nftw K r k)))
      (map the (filter (\<lambda>r. r \<noteq> None) (rootDirPaths s))) vss"
    and w: "walked K fd (concat vss) (?t fd) s1" by blast
  from w have "walked K fd (concat vss) (?t fd) s'" by (rule walked_frame) (simp_all add: s1)
  with v t show ?thesis by blast
qed

end

end
