(* ===== verification/Inotify_Props.thy ===== *)
theory Inotify_Props
  imports Inotify_Effects
begin

text \<open>
  The properties of \<open>inotify_dtree.c\<close> and a small simulated kernel on which their
  hypotheses hold.
\<close>

section \<open>A simulated kernel\<close>

text \<open>Descriptors are handed out in order, every walk meets the directory itself, one
  subdirectory and one file, and \<open>read\<close> delivers a script of buffers.\<close>

type_synonym sim = "nat \<times> inotify_event list list"

definition sim_add_watch :: "int \<Rightarrow> string \<Rightarrow> 32 word \<Rightarrow> sim \<Rightarrow> (int + int) \<times> sim" where
  "sim_add_watch fd p fl k =
     (if length p < PATH_MAX then (Inr (int (fst k)), (Suc (fst k), snd k)) else (Inl 36, k))"

definition sim_read :: "int \<Rightarrow> nat \<Rightarrow> sim \<Rightarrow> (int + inotify_event list) \<times> sim" where
  "sim_read fd n k =
     (case snd k of
        [] \<Rightarrow> (Inl EINTR_err, k)
      | evs # q \<Rightarrow> if bytes_of evs \<le> int n \<and> list_all ev_ok evs then (Inr evs, (fst k, q)) else (Inl 22, k))"

definition sim_kernel :: "sim kops" where
  "sim_kernel =
     \<lparr>k_lstat = (\<lambda>p k. (LstatOk True (length p) 1, k)), k_add_watch = sim_add_watch,
      k_rm_watch = (\<lambda>fd d k. (None, k)), k_inotify_init = (\<lambda>k. (Inr 3, k)), k_close = (\<lambda>fd k. k),
      k_nftw = (\<lambda>p k. (([(p, True), (p @ ''/sub'', True), (p @ ''/file'', False)], None), k)),
      k_read = sim_read, k_stdin = (\<lambda>k. (Some ''l\<newline>'', k)), k_alloc = (\<lambda>n k. (True, k)),
      k_junk = (\<lambda>k n. \<lparr>wd = 7, path = ''junk''\<rparr>), k_create = (\<lambda>f k. k), k_write_file = (\<lambda>f m k. k),
      k_fopen = (\<lambda>f k. (None, k)), k_strerror = (\<lambda>e. ''error'')\<rparr>"

definition sim_pending :: "sim \<Rightarrow> nat" where
  "sim_pending k = sum_list (map length (snd k))"

interpretation sim: inotify_queue sim_kernel sim_pending
proof unfold_locales
  fix fd n k evs k'
  assume "k_read sim_kernel fd n k = (Inr evs, k')"
  then show "bytes_of evs \<le> int n \<and> list_all ev_ok evs \<and> sim_pending k' + length evs \<le> sim_pending k"
    by (auto simp: sim_kernel_def sim_read_def sim_pending_def split: list.splits if_splits)
qed (auto simp: sim_kernel_def sim_add_watch_def sim_read_def sim_pending_def split: if_splits list.splits)

lemmas sim_simps = sim_kernel_def sim_add_watch_def sim_read_def PATH_MAX_def

text \<open>Two watched directories and one free slot, as the cache looks after a walk over
  \<open>/a\<close>; the next buffers hold a rename of \<open>/a/b\<close> to \<open>/a/c\<close>, split over two reads.\<close>

definition ex_state :: "inotify_event list list \<Rightarrow> sim dtree" where
  "ex_state q = (initial (3, q))\<lparr>rootDirPaths := [Some ''/a''],
     wlCache := [\<lparr>wd = 1, path = ''/a''\<rparr>, \<lparr>wd = 2, path = ''/a/b''\<rparr>, empty_watch]\<rparr>"

definition ex_from :: inotify_event where
  "ex_from = \<lparr>ev_wd = 1, ev_mask = IN_MOVED_FROM OR IN_ISDIR, ev_cookie = 7, ev_len = 16, ev_name = ''b''\<rparr>"

definition ex_to :: inotify_event where
  "ex_to = \<lparr>ev_wd = 1, ev_mask = IN_MOVED_TO OR IN_ISDIR, ev_cookie = 7, ev_len = 16, ev_name = ''c''\<rparr>"

lemma ex_state_ok: "dtree_ok (ex_state q)" "log_ok (ex_state q)" "readBufferSize (ex_state q) = 0"
    "kern (ex_state q) = (3, q)" "rootDirPaths (ex_state q) = [Some ''/a'']"
    "wlCache (ex_state q) = [\<lparr>wd = 1, path = ''/a''\<rparr>, \<lparr>wd = 2, path = ''/a/b''\<rparr>, empty_watch]"
  by (simp_all add: ex_state_def initial_def dtree_ok_def cache_ok_def roots_ok_def log_ok_def PATH_MAX_def)

text \<open>On this kernel the start-up of the program succeeds.\<close>

lemma sim_addWatch: "length p < PATH_MAX \<Longrightarrow> \<exists>slot s'. addWatchToCache sim_kernel d p s = Ret slot s'"
proof -
  assume p: "length p < PATH_MAX"
  have "findEmptyCacheSlot sim_kernel s \<noteq> Exited n s'" for n s'
  proof -
    have "mark_slots js t \<noteq> Exited n s'" for js and t :: "sim dtree"
      by (induction js arbitrary: t) (auto simp: markCacheSlotEmpty_def Let_def)
    then show ?thesis
      by (auto simp: findEmptyCacheSlot_def sim_kernel_def Let_def elim!: andThen.elims split: if_splits)
  qed
  then have "addWatchToCache sim_kernel d p s \<noteq> Exited 1 s'" for s'
    using p by (auto simp: addWatchToCache_def elim!: andThen.elims split: if_splits)
  with p show ?thesis
    by (cases rule: addWatchToCache_cases [of p sim_kernel d s]) auto
qed

lemma sim_nftw_calls:
  "\<forall>v\<in>set vs. length (fst v) < PATH_MAX \<Longrightarrow> \<exists>s'. nftw_calls sim_kernel fd vs s = Ret () s'"
proof (induction vs arbitrary: s)
  case (Cons v vs)
  obtain p isdir where v: "v = (p, isdir)" by fastforce
  with Cons.prems have p: "length p < PATH_MAX" by simp
  have "\<exists>s'. traverseTree sim_kernel fd p isdir s = Ret () s'"
    using p sim_addWatch [OF p]
    by (auto simp: traverseTree_def sim_kernel_def sim_add_watch_def Let_def)
  then obtain s1 where "traverseTree sim_kernel fd p isdir s = Ret () s1" by blast
  with Cons.IH [of s1] Cons.prems v show ?case by simp
qed simp

lemma sim_reinitialize:
  assumes "rootDirPaths s = [Some ''/a'']"
  shows "\<exists>s'. reinitialize sim_kernel old s = Ret 3 s'"
proof -
  have "\<exists>s'. watchSubtree sim_kernel 3 ''/a'' s = Ret () s'" for s
    using sim_nftw_calls [of "[(''/a'', True), (''/a/sub'', True), (''/a/file'', False)]" 3 "s\<lparr>dirCnt := 0, kern := kern s\<rparr>"]
    by (auto simp: watchSubtree_def watchDir_def sim_kernel_def PATH_MAX_def Let_def)
  then show ?thesis
    using assms by (auto simp: reinitialize_def reinit_close_def freeCache_def sim_kernel_def Let_def)
qed

lemma sim_setup:
  "\<exists>s. main_setup sim_kernel ''dtree'' [] [''/a''] (initial (1, q)) = Ret 3 s"
  using sim_reinitialize
  by (simp add: main_setup_def copyRootDirPaths_def sim_kernel_def initial_def Let_def)

section \<open>One event\<close>

text \<open>The slot that \<open>findWatchChecked\<close> gives an event of a watched directory, and the event
  of a directory that leaves its place.\<close>

lemma findWatchChecked_hit:
  assumes "dtree_ok s" "0 \<le> d" "cache_map (wlCache s) d = Some dir"
  shows "findWatchChecked K d s = Ret (findWatch d s) s" "0 \<le> findWatch d s"
    "path (wlCache s ! nat (findWatch d s)) = dir" "findWatch d s \<noteq> -1"
proof -
  note c = findWatch_correct [OF dtree_okD [OF assms(1)] assms(2)]
  from c(1) assms(3) show "findWatch d s \<noteq> -1" by simp
  then show pos: "0 \<le> findWatch d s"
    using find_slot_range [of "\<lambda>w. wd w = d" 0 "wlCache s"] by (auto simp: findWatch_def)
  with c(2) assms(3) show "path (wlCache s ! nat (findWatch d s)) = dir" by simp
  from pos show "findWatchChecked K d s = Ret (findWatch d s) s" by (simp add: findWatchChecked_def)
qed

lemma moved_from_mask:
  assumes "ev_mask ev = IN_MOVED_FROM OR IN_ISDIR"
  shows "ev_mask ev AND IN_IGNORED = 0" "ev_mask ev AND (IN_CREATE OR IN_MOVED_TO) = 0"
    "ev_mask ev AND IN_DELETE_SELF = 0"
    "ev_mask ev AND (IN_MOVED_FROM OR IN_ISDIR) = IN_MOVED_FROM OR IN_ISDIR"
  by (simp_all add: assms IN_defs)

lemma processNext_moved_from:
  assumes ok: "dtree_ok s" and mask: "ev_mask ev = IN_MOVED_FROM OR IN_ISDIR"
    and dir: "0 \<le> ev_wd ev" "cache_map (wlCache s) (ev_wd ev) = Some dir"
  shows "\<exists>i. path (wlCache s ! i) = dir \<and>
    processNextInotifyEvent K fd (ev # rest) n first s =
      andThen (on_moved_from K fd (Some i) ev rest n first (displayInotifyEvent ev s)) (event_tail K)"
proof -
  let ?s = "displayInotifyEvent ev s"
  have "dtree_ok ?s" "cache_map (wlCache ?s) (ev_wd ev) = Some dir" using ok dir by simp_all
  note hit = findWatchChecked_hit [OF this(1) dir(1) this(2)]
  have "processNextInotifyEvent K fd (ev # rest) n first s =
      andThen (on_moved_from K fd (Some (nat (findWatch (ev_wd ev) ?s))) ev rest n first ?s) (event_tail K)"
    using dir(1) hit(4)
    by (simp add: processNextInotifyEvent_def hit(1) event_branch_def moved_from_mask [OF mask] Let_def)
  with hit(3) show ?thesis by auto
qed

section \<open>Properties\<close>





text \<open>
  \<open>zapSubtree\<close> always returns.  It forgets only descriptors whose pathname is the given
  one or lies below it, component-wise (\<open>/a/bc\<close> is not below \<open>/a/b\<close>).  If it does not return
  -1 it has forgotten all of them, and the result is their number; -1 means that
  \<open>inotify_rm_watch\<close> failed.
\<close>

theorem zapSubtree_spec:
  assumes "cache_ok (wlCache s)"
  shows "\<exists>c s'. zapSubtree K fd p s = Ret c s' \<and> cache_ok (wlCache s') \<and>
    (\<forall>d q. cache_map (wlCache s') d = Some q \<longrightarrow> cache_map (wlCache s) d = Some q) \<and>
    (\<forall>d q. cache_map (wlCache s) d = Some q \<and> q \<noteq> p \<and> (\<forall>r. q \<noteq> p @ ''/'' @ r) \<longrightarrow>
       cache_map (wlCache s') d = Some q) \<and>
    (c = -1 \<longrightarrow> (\<exists>d k. fst (k_rm_watch K fd d k) \<noteq> None)) \<and>
    (c \<noteq> -1 \<longrightarrow>
       (\<forall>d q. cache_map (wlCache s') d = Some q \<longrightarrow> q \<noteq> p \<and> (\<forall>r. q \<noteq> p @ ''/'' @ r)) \<and>
       c = int (card {d. \<exists>q. cache_map (wlCache s) d = Some q \<and> (q = p \<or> (\<exists>r. q = p @ ''/'' @ r))}))"
proof (rule zapSubtree_effect [OF assms, of K fd p])
  fix c s'
  assume z: "zapSubtree K fd p s = Ret c s'" "cache_ok (wlCache s')"
    and sub: "cache_map (wlCache s') \<subseteq>\<^sub>m cache_map (wlCache s)"
    and keep: "\<And>d q. cache_map (wlCache s) d = Some q \<Longrightarrow> \<not> path_under p q \<Longrightarrow> cache_map (wlCache s') d = Some q"
    and fail: "c = -1 \<Longrightarrow> \<exists>d k. fst (k_rm_watch K fd d k) \<noteq> None"
    and all: "c \<noteq> -1 \<Longrightarrow> c = int (card {d. \<exists>q. cache_map (wlCache s) d = Some q \<and> path_under p q}) \<and>
       (\<forall>d q. cache_map (wlCache s') d = Some q \<longrightarrow> \<not> path_under p q)"
  have u: "path_under p q \<longleftrightarrow> q = p \<or> (\<exists>r. q = p @ ''/'' @ r)" for q by (simp add: path_under_iff)
  have "cache_map (wlCache s') d = Some q \<Longrightarrow> cache_map (wlCache s) d = Some q" for d q
    using sub by (metis domI map_le_def)
  with z keep fail all show ?thesis unfolding u by (intro exI [of _ c] exI [of _ s']) blast
qed

theorem zapSubtree_spec_witness:
  "\<exists>c s'. zapSubtree sim_kernel 3 ''/a/b'' (ex_state []) = Ret c s' \<and> cache_ok (wlCache s') \<and>
     cache_map (wlCache s') 1 = Some ''/a''"
proof -
  have "cache_map (wlCache (ex_state [])) 1 = Some ''/a'' \<and> ''/a'' \<noteq> ''/a/b'' \<and> (\<forall>r. ''/a'' \<noteq> ''/a/b'' @ ''/'' @ r)"
    by (simp add: ex_state_ok cache_map_def)
  with zapSubtree_spec [OF dtree_okD [OF ex_state_ok(1)], of sim_kernel 3 "''/a/b''" "[]"] show ?thesis by meson
qed

text \<open>
  \<open>rewriteCachedPaths\<close> renames exactly the cached pathnames at or below the old pathname,
  component-wise, replaces that prefix by the new pathname, and keeps every watch
  descriptor, every other pathname and the invariant.
\<close>

theorem rewriteCachedPaths_spec:
  assumes "dtree_ok s"
  shows "dtree_ok (rewriteCachedPaths oldDir oldName newDir newName s) \<and>
    cache_map (wlCache (rewriteCachedPaths oldDir oldName newDir newName s)) d =
      (case cache_map (wlCache s) d of
         None \<Rightarrow> None
       | Some p \<Rightarrow>
           if path_under (full_path oldDir oldName) p
           then Some (snprintf PATH_MAX
                        (full_path newDir newName @ drop (length (full_path oldDir oldName)) p))
           else Some p)"
proof -
  let ?old = "full_path oldDir oldName" and ?new = "full_path newDir newName"
  from assms have ok: "cache_ok (wlCache s)" by (rule dtree_okD)
  have short: "length p < PATH_MAX" if "cache_map (wlCache s) d = Some p" for p
    using that ok by (auto simp: cache_map_Some_iff cache_ok_def)
  have "cache_map (wlCache (rewriteCachedPaths oldDir oldName newDir newName s)) d =
      map_option (\<lambda>p. if path_under ?old p then snprintf PATH_MAX (?new @ drop (length ?old) p)
                      else if length p < PATH_MAX then p else []) (cache_map (wlCache s) d)"
    by (simp add: rewriteCachedPaths_effect cache_ok_rewrite [OF ok])
  with short rewriteCachedPaths_ok [OF assms] show ?thesis by (auto split: option.splits)
qed

theorem rewriteCachedPaths_spec_witness:
  "cache_map (wlCache (rewriteCachedPaths ''/a'' ''b'' ''/a'' ''c'' (ex_state []))) 2 = Some ''/a/c''"
  using rewriteCachedPaths_spec [OF ex_state_ok(1), of "''/a''" "''b''" "''/a''" "''c''" "[]" 2]
  by (simp add: ex_state_ok cache_map_def full_path_def snprintf_def PATH_MAX_def path_under_def strncmp_eq_def)



text \<open>
  An \<open>IN_MOVED_FROM\<close> event that ends the data is left unprocessed on the first try, so
  that the caller reads again.  If nothing follows on the second try, the directory has
  left the monitored trees: every cached pathname at or below it is forgotten, the others
  are kept.
\<close>

theorem hanging_moved_from:
  assumes "dtree_ok s" "\<not> checkCache s" "\<not> dumpCache s" "\<forall>fd d k. fst (k_rm_watch K fd d k) = None"
    and "ev_mask ev = IN_MOVED_FROM OR IN_ISDIR" "0 \<le> ev_wd ev" "cache_map (wlCache s) (ev_wd ev) = Some dir"
    and "n \<le> event_size ev"
  shows "(\<exists>s'. processNextInotifyEvent K fd (ev # rest) n True s = Ret (-1, fd) s' \<and> wlCache s' = wlCache s) \<and>
    (\<exists>s'. processNextInotifyEvent K fd (ev # rest) n False s = Ret (event_size ev, fd) s' \<and>
       (\<forall>d q. cache_map (wlCache s') d = Some q \<longleftrightarrow>
          cache_map (wlCache s) d = Some q \<and> \<not> path_under (full_path dir (ev_name ev)) q))"
proof -
  let ?s = "displayInotifyEvent ev s"
  note pn = processNext_moved_from [OF assms(1,5,6,7), of K fd rest n]
  from pn [of True] obtain i where i: "path (wlCache s ! i) = dir"
    "processNextInotifyEvent K fd (ev # rest) n True s =
      andThen (on_moved_from K fd (Some i) ev rest n True ?s) (event_tail K)" by blast
  with assms(8) have first: "\<exists>s'. processNextInotifyEvent K fd (ev # rest) n True s = Ret (-1, fd) s' \<and>
      wlCache s' = wlCache s"
    by (simp add: on_moved_from_def event_tail_def)
  from pn [of False] obtain j where j: "path (wlCache s ! j) = dir"
    "processNextInotifyEvent K fd (ev # rest) n False s =
      andThen (on_moved_from K fd (Some j) ev rest n False ?s) (event_tail K)" by blast
  define t where "t = logMessage VB_NOISY ''firstTry = %d; remaining bytes = %d\<newline>'' [AInt 0, AInt (n - event_size ev)]
    (logMessage VB_NOISY ''MOVED_OUT: %p %p\<newline>'' [AStr dir, AStr (ev_name ev)] ?s)"
  have t: "wlCache t = wlCache s" "cfg t = cfg s" by (simp_all add: t_def)
  let ?p = "full_path dir (ev_name ev)"
  have "cache_ok (wlCache t)" using assms(1) t by (simp add: dtree_okD)
  from zapSubtree_all [OF this assms(4), of fd ?p] obtain c s' where
    z: "zapSubtree K fd ?p t = Ret c s'" "cfg s' = cfg t" "c \<noteq> -1"
    "\<forall>d q. cache_map (wlCache s') d = Some q \<longleftrightarrow> cache_map (wlCache t) d = Some q \<and> \<not> path_under ?p q"
    by blast
  from z(2) t(2) have "checkCache s' = checkCache s" "dumpCache s' = dumpCache s" by (simp_all add: cfg_def)
  with assms(2,3,8) j z(1,3) have
    "processNextInotifyEvent K fd (ev # rest) n False s = Ret (event_size ev, fd) s'"
    by (simp add: on_moved_from_def withSlot_def Let_def t_def event_tail_def)
  with z(4) t(1) first show ?thesis by auto
qed

theorem hanging_moved_from_witness:
  "(\<exists>s'. processNextInotifyEvent sim_kernel 3 [ex_from] 32 True (ex_state []) = Ret (-1, 3) s' \<and>
      wlCache s' = wlCache (ex_state [])) \<and>
   (\<exists>s'. processNextInotifyEvent sim_kernel 3 [ex_from] 32 False (ex_state []) = Ret (32, 3) s' \<and>
      cache_map (wlCache s') 2 = None)"
proof -
  have e: "event_size ex_from = 32" "ev_name ex_from = ''b''" "ev_wd ex_from = 1"
      "ev_mask ex_from = IN_MOVED_FROM OR IN_ISDIR"
    by (simp_all add: event_size_def sizeof_event_def ex_from_def)
  have c: "cache_map (wlCache (ex_state [])) 1 = Some ''/a''" "cache_map (wlCache (ex_state [])) 2 = Some ''/a/b''"
    "\<not> checkCache (ex_state [])" "\<not> dumpCache (ex_state [])"
    by (simp_all add: ex_state_ok cache_map_def ex_state_def initial_def)
  have u: "path_under (full_path ''/a'' ''b'') ''/a/b''"
    by (simp add: full_path_def snprintf_def PATH_MAX_def)
  have rm: "\<forall>fd d k. fst (k_rm_watch sim_kernel fd d k) = None" by (simp add: sim_kernel_def)
  from hanging_moved_from [OF ex_state_ok(1) c(3,4) rm e(4), of "''/a''" 32 3 "[]"] c u show ?thesis
    by (simp add: e) (metis option.exhaust option.sel)
qed

text \<open>
  C3. \<open>reinitialize\<close> forgets everything and walks every root path that is still monitored:
  the new cache holds only directories met on these walks (nothing stale survives), and
  every directory met is covered, its descriptor is in the cache or the kernel reported it
  gone in the meantime.
\<close>

theorem reinitialize_rebuilds:
  assumes "wd_kernel K" and "dtree_ok s" and "reinitialize K old s = Ret fd s'"
  shows "dtree_ok s' \<and>
    (\<exists>vss. list_all2 (\<lambda>r vs. \<exists>k. vs = fst (fst (k_nftw K r k)))
        (map the (filter (\<lambda>r. r \<noteq> None) (rootDirPaths s))) vss \<and>
      ran (cache_map (wlCache s')) \<subseteq> {p. (p, True) \<in> set (concat vss)} \<and>
      (\<forall>p. (p, True) \<in> set (concat vss) \<longrightarrow> covered K fd s' p))"
proof -
  from wd_kernel.reinitialize_walked [OF assms] obtain vss t where
    v: "list_all2 (\<lambda>r vs. \<exists>k. vs = fst (fst (k_nftw K r k)))
      (map the (filter (\<lambda>r. r \<noteq> None) (rootDirPaths s))) vss"
    and w: "wlCache t = []" "walked K fd (concat vss) t s'" by blast
  from w have "ran (cache_map (wlCache s')) \<subseteq> {p. (p, True) \<in> set (concat vss)}"
    "\<forall>p. (p, True) \<in> set (concat vss) \<longrightarrow> covered K fd s' p" "dtree_ok s'"
    by (simp_all add: walked_def)
  with v show ?thesis by blast
qed

theorem reinitialize_rebuilds_witness:
  "\<exists>s'. reinitialize sim_kernel 3 (ex_state []) = Ret 3 s' \<and> dtree_ok s' \<and>
     ran (cache_map (wlCache s')) \<subseteq> {''/a'', ''/a/sub''} \<and> covered sim_kernel 3 s' ''/a/sub''"
proof -
  obtain s' where s': "reinitialize sim_kernel 3 (ex_state []) = Ret 3 s'"
    using sim_reinitialize [of "ex_state []" 3] by (auto simp: ex_state_ok)
  from reinitialize_rebuilds [OF sim.wd_kernel_axioms ex_state_ok(1) s'] obtain vss where
    "dtree_ok s'" "list_all2 (\<lambda>r vs. \<exists>k. vs = fst (fst (k_nftw sim_kernel r k))) [''/a''] vss"
    "ran (cache_map (wlCache s')) \<subseteq> {p. (p, True) \<in> set (concat vss)}"
    "\<forall>p. (p, True) \<in> set (concat vss) \<longrightarrow> covered sim_kernel 3 s' p"
    by (auto simp: ex_state_ok)
  moreover from this(2) have "vss = [[(''/a'', True), (''/a/sub'', True), (''/a/file'', False)]]"
    by (auto simp: list_all2_Cons1 sim_kernel_def)
  ultimately show ?thesis using s' by auto
qed

text \<open>
  The array implements a map: adding a descriptor that \<open>findWatch\<close> does not find either
  runs out of memory and leaves the program, or updates the map at that descriptor only
  (growing the array by \<open>ALLOC_INCR\<close> slots if none is free) and makes the pathname and the
  descriptor known to the search functions; emptying its slot restores the map.
\<close>

theorem cache_refines_map:
  assumes "cache_ok (wlCache s)" "0 \<le> d" "findWatch d s = -1" "length p < PATH_MAX"
  shows "case addWatchToCache K d p s of
      Ret slot s' \<Rightarrow>
        cache_ok (wlCache s') \<and> cache_map (wlCache s') = (cache_map (wlCache s))(d \<mapsto> p) \<and>
        length (wlCache s') \<in> {length (wlCache s), length (wlCache s) + ALLOC_INCR} \<and>
        0 \<le> findWatch d s' \<and> pathnameInCache p s' \<and>
        (\<exists>s''. markCacheSlotEmpty slot s' = Ret () s'' \<and> cache_map (wlCache s'') = cache_map (wlCache s))
    | Exited n s' \<Rightarrow> n = 1 \<and> wlCache s' = []
    | _ \<Rightarrow> False"
proof -
  have none: "cache_map (wlCache s) d = None"
    using findWatch_correct(1) [OF assms(1,2)] assms(3) by simp
  note st = cache_store_correct [OF assms(1,2) none assms(4)]
  from assms(4) show ?thesis
  proof (cases rule: addWatchToCache_cases [of p K d s])
    case (added slot s')
    have ok: "cache_ok (wlCache s')" using st(1) added by simp
    have m: "cache_map (wlCache s') = (cache_map (wlCache s))(d \<mapsto> p)" using st(2) added by simp
    have "findWatch d s' \<noteq> -1"
      using findWatch_correct(1) [OF ok assms(2)] m by simp
    then have "0 \<le> findWatch d s'"
      using find_slot_range [of "\<lambda>w. wd w = d" 0 "wlCache s'"] by (auto simp: findWatch_def)
    moreover have "pathnameInCache p s'"
      using pathnameInCache_iff [OF ok] m none by (auto simp: ran_def)
    moreover have "length (wlCache s') \<in> {length (wlCache s), length (wlCache s) + ALLOC_INCR}"
      using added by (simp add: cache_store_def Let_def ALLOC_INCR_def)
    moreover have "\<exists>s''. markCacheSlotEmpty slot s' = Ret () s'' \<and> cache_map (wlCache s'') = cache_map (wlCache s)"
    proof -
      from markCacheSlotEmpty_in [of slot s'] added obtain s'' where
        "markCacheSlotEmpty slot s' = Ret () s''" "wlCache s'' = (wlCache s')[slot := empty_watch]" by auto
      moreover from clear_slot_correct(2) [OF ok, of slot] added m assms(2)
      have "cache_map ((wlCache s')[slot := empty_watch]) = (cache_map (wlCache s))(d := None)" by simp
      ultimately show ?thesis using none by (auto simp: fun_upd_idem)
    qed
    ultimately show ?thesis using added ok m by simp
  qed simp
qed

theorem cache_refines_map_witness:
  "\<exists>slot s'. addWatchToCache sim_kernel 5 ''/a/x'' (ex_state []) = Ret slot s' \<and>
     cache_map (wlCache s') 5 = Some ''/a/x'' \<and> cache_map (wlCache s') 2 = Some ''/a/b''"
proof -
  have p: "length ''/a/x'' < PATH_MAX" by (simp add: PATH_MAX_def)
  obtain slot s' where a: "addWatchToCache sim_kernel 5 ''/a/x'' (ex_state []) = Ret slot s'"
    using sim_addWatch [OF p] by blast
  have "findWatch 5 (ex_state []) = -1" by (simp add: findWatch_def ex_state_ok empty_watch_def)
  from cache_refines_map [OF dtree_okD [OF ex_state_ok(1)] _ this p, of sim_kernel] a show ?thesis
    by (auto simp: ex_state_ok cache_map_def)
qed

text \<open>
  An event for a descriptor that the cache does not know shows that the cache is out of
  date: unless the program was told to abort on cache problems, it rebuilds cache and
  inotify descriptor and reports the whole buffer as consumed, so that no later event of the
  old descriptor is looked at.
\<close>

theorem unknown_descriptor_rebuilds:
  assumes "\<not> abortOnCacheProblem s" "cache_ok (wlCache s)"
    and "0 \<le> ev_wd ev" "ev_mask ev AND IN_IGNORED = 0" "cache_map (wlCache s) (ev_wd ev) = None"
  shows "processNextInotifyEvent K fd (ev # rest) n first s =
    andThen (reinitialize K fd (logMessage 0 ''Could not find watch %d\<newline>'' [AInt (ev_wd ev)] (displayInotifyEvent ev s)))
      (\<lambda>fd' s'. Ret (INOTIFY_READ_BUF_LEN, fd') s')"
proof -
  let ?s = "displayInotifyEvent ev s"
  have "findWatch (ev_wd ev) ?s = -1"
    using findWatch_correct(1) [of ?s "ev_wd ev"] assms by simp
  with assms(1) have "findWatchChecked K (ev_wd ev) ?s =
      Ret (-1) (logMessage 0 ''Could not find watch %d\<newline>'' [AInt (ev_wd ev)] ?s)"
    by (simp add: findWatchChecked_def Let_def)
  with assms(3,4) show ?thesis
    by (simp add: processNextInotifyEvent_def Let_def discard_def event_tail_def andThen_assoc)
qed

theorem unknown_descriptor_rebuilds_witness:
  "\<exists>s'. processNextInotifyEvent sim_kernel 3 [ex_from\<lparr>ev_wd := 9\<rparr>] 32 True (ex_state []) = Ret (27200, 3) s'"
proof -
  let ?ev = "ex_from\<lparr>ev_wd := 9\<rparr>"
  let ?s = "logMessage 0 ''Could not find watch %d\<newline>'' [AInt 9] (displayInotifyEvent ?ev (ex_state []))"
  obtain s' where "reinitialize sim_kernel 3 ?s = Ret 3 s'"
    using sim_reinitialize [of ?s 3] by (auto simp: ex_state_ok)
  with unknown_descriptor_rebuilds [of "ex_state []" ?ev sim_kernel 3 "[]" 32 True] ex_state_ok(1) [of "[]", THEN dtree_okD]
  show ?thesis
    by (simp add: ex_state_ok(6) cache_map_def INOTIFY_READ_BUF_LEN_def sizeof_event_def NAME_MAX_def)
      (simp add: ex_state_def initial_def ex_from_def IN_defs)
qed

text \<open>
  Giving up a root path clears its entry and counts it; the program ends, successfully,
  exactly when no root path is left.  A pathname that is no root path is an internal error
  and ends the program with status 1.
\<close>

theorem zapRootDirPath_spec:
  assumes "roots_ok s"
  shows "case zapRootDirPath p s of
      Ret v s' \<Rightarrow> Some p \<in> set (rootDirPaths s) \<and> roots_ok s' \<and> wlCache s' = wlCache s \<and>
        ignoreRootDirs s' = ignoreRootDirs s + 1 \<and> (\<exists>q. Some q \<in> set (rootDirPaths s'))
    | Exited n s' \<Rightarrow>
        n = 1 \<and> Some p \<notin> set (rootDirPaths s) \<or>
        n = 0 \<and> Some p \<in> set (rootDirPaths s) \<and> set (rootDirPaths s') = {None}
    | _ \<Rightarrow> False"
proof (cases "find_root p 0 (rootDirPaths s)")
  case None
  moreover from None have "Some p \<notin> set (rootDirPaths s)" by (simp add: find_root_None)
  ultimately show ?thesis by (simp add: zapRootDirPath_def findRootDirPath_def Let_def)
next
  case (Some j)
  let ?rs = "(rootDirPaths s)[j := None]"
  from find_root_Some [OF Some] have j: "j < length (rootDirPaths s)" "rootDirPaths s ! j = Some p" by simp_all
  then have mem: "Some p \<in> set (rootDirPaths s)" by (metis nth_mem)
  have cnt: "length (filter (\<lambda>r. r = None) ?rs) = Suc (ignoreRootDirs s)"
    using assms j by (simp add: length_filter_update roots_ok_def)
  have all: "length (filter (\<lambda>r. r = None) ?rs) = length ?rs \<longleftrightarrow> set ?rs \<subseteq> {None}"
    using filter_id_conv [of "\<lambda>r. r = None" ?rs] length_filter_less [of _ ?rs "\<lambda>r. r = None"] by fastforce
  from j have "?rs \<noteq> []" by auto
  then have ne: "set ?rs \<subseteq> {None} \<Longrightarrow> set ?rs = {None}" by (metis set_empty subset_singletonD)
  show ?thesis
  proof (cases "Suc (ignoreRootDirs s) = length (rootDirPaths s)")
    case True
    with cnt all ne Some mem show ?thesis
      by (simp add: zapRootDirPath_def findRootDirPath_def Let_def)
  next
    case False
    with cnt all have "\<not> set ?rs \<subseteq> {None}" by simp
    then have "\<exists>q. Some q \<in> set ?rs" by (metis not_None_eq singletonI subsetI)
    with False cnt Some mem show ?thesis
      by (simp add: zapRootDirPath_def findRootDirPath_def Let_def roots_ok_def)
  qed
qed

theorem zapRootDirPath_spec_witness:
  "case zapRootDirPath ''/a'' (ex_state []) of Exited n s' \<Rightarrow> n = 0 \<and> set (rootDirPaths s') = {None} | _ \<Rightarrow> False"
  using zapRootDirPath_spec [of "ex_state []" "''/a''"] ex_state_ok(1) [of "[]"]
  by (auto simp: dtree_ok_def zapRootDirPath_def findRootDirPath_def ex_state_ok Let_def ex_state_def initial_def
      split: outcome.splits)

end
