(* ===== verification/Environ.thy ===== *)
theory Environ
  imports Prelude
begin

text \<open>
  \<open>src/tlpi-book/proc/setenv.c\<close>: \<open>unsetenv\<close> and \<open>setenv\<close> on the array \<open>environ\<close>, a list of
  \<open>char *\<close> ended by a null pointer.  A read outside the array is undefined (\<open>None\<close>).  The
  library functions \<open>getenv\<close> and \<open>putenv\<close> work on the entries before the first null
  pointer; \<open>malloc\<close> and the allocation inside \<open>putenv\<close> may fail.
\<close>

section \<open>The array\<close>

type_synonym environ = "string option list"

fun entries :: "environ \<Rightarrow> string list" where
  "entries (Some e # es) = e # entries es"
| "entries _ = []"

definition terminated :: "environ \<Rightarrow> bool" where
  "terminated env \<longleftrightarrow> None \<in> set env"

text \<open>\<open>strncmp(*ep, name, len) == 0 && (*ep)[len] == '='\<close>\<close>

definition entry_of :: "string \<Rightarrow> string \<Rightarrow> bool" where
  "entry_of name e \<longleftrightarrow>
     strncmp_eq e name (length name) \<and>
     (case drop (length name) e of c # _ \<Rightarrow> c = CHR ''='' | [] \<Rightarrow> False)"

text \<open>The inner loop: every entry from \<open>sp\<close> on moves back by one, the null pointer included.\<close>

function shift_entries :: "environ \<Rightarrow> nat \<Rightarrow> environ option" where
  "shift_entries env sp =
     (if sp < length env then
        (case env ! sp of
           None \<Rightarrow> Some env
         | Some _ \<Rightarrow> if Suc sp < length env then shift_entries (env[sp := env ! Suc sp]) (Suc sp) else None)
      else None)"
  by auto
termination by (relation "measure (\<lambda>(env, sp). length env - sp)") auto

declare shift_entries.simps [simp del]

lemma shift_entries_append:
  "shift_entries (pre @ map Some (x # xs) @ None # post) (length pre)
     = Some (pre @ map Some xs @ None # None # post)"
proof (induction xs arbitrary: pre x)
  case Nil
  show ?case
    by (subst shift_entries.simps) (simp add: nth_append shift_entries.simps)
next
  case (Cons y ys)
  have "shift_entries (pre @ map Some (x # y # ys) @ None # post) (length pre)
      = shift_entries ((pre @ [Some y]) @ map Some (y # ys) @ None # post) (length (pre @ [Some y]))"
    by (subst shift_entries.simps) (simp add: nth_append list_update_append)
  with Cons.IH [of "pre @ [Some y]" y] show ?case by simp
qed

lemma terminated_split:
  assumes "terminated env"
  obtains xs post where "env = map Some xs @ None # post" "entries env = xs"
proof -
  from assms have "\<exists>xs post. env = map Some xs @ None # post \<and> entries env = xs"
    unfolding terminated_def
  proof (induction env)
    case (Cons e es)
    show ?case
    proof (cases e)
      case None
      then show ?thesis by (intro exI [of _ "[]"] exI [of _ es]) auto
    next
      case (Some v)
      with Cons obtain xs post where "es = map Some xs @ None # post" "entries es = xs" by auto
      with Some show ?thesis by (intro exI [of _ "v # xs"]) auto
    qed
  qed simp
  then show thesis using that by blast
qed

lemma entries_map [simp]: "entries (map Some xs @ None # post) = xs"
  by (induction xs) auto

lemma shift_entries_shorter:
  assumes "shift_entries env ep = Some env'" "ep < length env" "env ! ep = Some e"
  shows "length (entries (drop ep env')) < length (entries (drop ep env))"
proof -
  have "\<exists>xs post. drop ep env = map Some (e # xs) @ None # post \<or> drop ep env = map Some (e # xs)"
  proof -
    have "drop ep env = Some e # drop (Suc ep) env" using assms(2,3) by (simp add: Cons_nth_drop_Suc [symmetric])
    moreover have "\<exists>xs post. ys = map Some xs @ None # post \<or> ys = map Some xs" for ys :: environ
    proof (cases "None \<in> set ys")
      case True
      then show ?thesis using terminated_split [of ys] by (metis terminated_def)
    next
      case False
      then have "ys = map Some (map the ys)" by (induction ys) auto
      then show ?thesis by blast
    qed
    ultimately show ?thesis by (metis list.simps(9) append_Cons)
  qed
  then show ?thesis
  proof (elim exE disjE)
    fix xs post
    assume d: "drop ep env = map Some (e # xs) @ None # post"
    let ?pre = "take ep env"
    have l: "length ?pre = ep" using assms(2) by simp
    have "env = ?pre @ map Some (e # xs) @ None # post" using d by (metis append_take_drop_id)
    with shift_entries_append [of ?pre e xs post] l assms(1)
    have "env' = ?pre @ map Some xs @ None # None # post" by simp
    then have "drop ep env' = map Some xs @ None # None # post" using l by simp
    with d show ?thesis by simp
  next
    fix xs
    assume d: "drop ep env = map Some (e # xs)"
    have "shift_entries env i = None" if "\<forall>j<length env. i \<le> j \<longrightarrow> env ! j \<noteq> None" for env :: environ and i
      using that
    proof (induction env i rule: shift_entries.induct)
      case (1 env i)
      show ?case
      proof (cases "Suc i < length env")
        case True
        with 1 show ?thesis by (subst shift_entries.simps) (auto simp: nth_list_update split: option.splits)
      next
        case False
        with 1 show ?thesis by (subst shift_entries.simps) (auto split: option.splits)
      qed
    qed
    moreover have "\<forall>j<length env. ep \<le> j \<longrightarrow> env ! j \<noteq> None"
    proof (intro allI impI)
      fix j assume "j < length env" "ep \<le> j"
      then have "env ! j = drop ep env ! (j - ep)" "j - ep < length (drop ep env)" by simp_all
      with d show "env ! j \<noteq> None" by (metis length_map nth_map option.distinct(1))
    qed
    ultimately show ?thesis using assms(1) by simp
  qed
qed

section \<open>The functions\<close>

function unset_loop :: "string \<Rightarrow> environ \<Rightarrow> nat \<Rightarrow> environ option" where
  "unset_loop name env ep =
     (if ep < length env then
        (case env ! ep of
           None \<Rightarrow> Some env
         | Some e \<Rightarrow>
             if entry_of name e
             then (case shift_entries env ep of None \<Rightarrow> None | Some env' \<Rightarrow> unset_loop name env' ep)
             else unset_loop name env (Suc ep))
      else None)"
  by auto
termination
proof (relation "measure (\<lambda>(name, env, ep). length (entries (drop ep env)))")
  fix name :: string and env :: environ and ep e
  assume "ep < length env" "env ! ep = Some e"
  then have "drop ep env = Some e # drop (Suc ep) env" by (simp add: Cons_nth_drop_Suc [symmetric])
  then show "((name, env, Suc ep), name, env, ep) \<in> measure (\<lambda>(name, env, ep). length (entries (drop ep env)))"
    by simp
qed (auto dest: shift_entries_shorter)

declare unset_loop.simps [simp del]

record env_state =
  environ :: environ
  env_errno :: int

definition EINVAL :: int where "EINVAL = 22"
definition ENOMEM :: int where "ENOMEM = 12"

definition bad_name :: "string option \<Rightarrow> bool" where
  "bad_name name = (case name of None \<Rightarrow> True | Some n \<Rightarrow> n = [] \<or> strchr n (CHR ''='') \<noteq> None)"

definition unsetenv :: "string option \<Rightarrow> env_state \<Rightarrow> (int, env_state) outcome" where
  "unsetenv name s =
     (if bad_name name then Ret (-1) (s\<lparr>env_errno := EINVAL\<rparr>)
      else (case unset_loop (the name) (environ s) 0 of
              None \<Rightarrow> Undefd
            | Some env \<Rightarrow> Ret 0 (s\<lparr>environ := env\<rparr>)))"

text \<open>The C library: \<open>getenv\<close> finds the first entry of the name, \<open>putenv\<close> replaces it or
  adds the string as a new last entry.\<close>

fun getenv :: "string \<Rightarrow> string list \<Rightarrow> string option" where
  "getenv name [] = None"
| "getenv name (e # es) = (if entry_of name e then Some (drop (Suc (length name)) e) else getenv name es)"

fun put_entry :: "string \<Rightarrow> string \<Rightarrow> string list \<Rightarrow> string list" where
  "put_entry name es [] = [es]"
| "put_entry name es (x # xs) = (if entry_of name x then es # xs else x # put_entry name es xs)"

definition putenv :: "bool \<Rightarrow> string \<Rightarrow> env_state \<Rightarrow> int \<times> env_state" where
  "putenv got es s =
     (if got then (0, s\<lparr>environ := map Some (put_entry (before es (CHR ''='')) es (entries (environ s))) @ [None]\<rparr>)
      else (-1, s\<lparr>env_errno := ENOMEM\<rparr>))"

text \<open>\<open>m1\<close> and \<open>m2\<close>: do \<open>malloc\<close> and the allocation of \<open>putenv\<close> succeed?\<close>

definition setenv ::
    "bool \<Rightarrow> bool \<Rightarrow> string option \<Rightarrow> string option \<Rightarrow> int \<Rightarrow> env_state \<Rightarrow> (int, env_state) outcome" where
  "setenv m1 m2 name val overwrite s =
     (if bad_name name \<or> val = None then Ret (-1) (s\<lparr>env_errno := EINVAL\<rparr>)
      else if getenv (the name) (entries (environ s)) \<noteq> None \<and> overwrite = 0 then Ret 0 s
      else andThen (unsetenv name s)
        (\<lambda>_ s. if \<not> m1 then Ret (-1) (s\<lparr>env_errno := ENOMEM\<rparr>)
               else (let (r, s) = putenv m2 (the name @ ''='' @ the val) s
                     in Ret (if r \<noteq> 0 then -1 else 0) s)))"

section \<open>What they do\<close>

lemma entry_of_iff: "entry_of name e \<longleftrightarrow> (\<exists>v. e = name @ ''='' @ v)"
proof -
  have "strncmp_eq e name (length name) \<longleftrightarrow> (\<exists>r. e = name @ r)"
    using strncmp_eq_prefix [of name e] by (auto simp: strncmp_eq_def)
  then show ?thesis by (auto simp: entry_of_def split: list.splits)
qed

lemma unset_loop_effect:
  "unset_loop name (map Some pre @ map Some xs @ None # post) (length pre)
     = Some (map Some (pre @ filter (\<lambda>e. \<not> entry_of name e) xs) @
         None # replicate (length (filter (entry_of name) xs)) None @ post)"
proof (induction xs arbitrary: pre post)
  case Nil
  then show ?case by (subst unset_loop.simps) (simp add: nth_append)
next
  case (Cons x xs)
  let ?env = "map Some pre @ map Some (x # xs) @ None # post"
  have x: "length pre < length ?env" "?env ! length pre = Some x" by (simp_all add: nth_append)
  show ?case
  proof (cases "entry_of name x")
    case True
    have "shift_entries ?env (length pre) = Some (map Some pre @ map Some xs @ None # None # post)"
      using shift_entries_append [of "map Some pre" x xs post] by simp
    with True x Cons.IH [of pre "None # post"] show ?thesis
      by (subst unset_loop.simps) (simp add: replicate_append_same [symmetric])
  next
    case False
    with x Cons.IH [of "pre @ [x]" post] show ?thesis
      by (subst unset_loop.simps) simp
  qed
qed

lemma unsetenv_good:
  assumes "terminated (environ s)" "\<not> bad_name (Some name)"
  shows "\<exists>s'. unsetenv (Some name) s = Ret 0 s' \<and> terminated (environ s') \<and>
    entries (environ s') = filter (\<lambda>e. \<not> entry_of name e) (entries (environ s)) \<and> env_errno s' = env_errno s \<and>
    length (environ s') = length (environ s)"
proof -
  from assms(1) obtain xs post where e: "environ s = map Some xs @ None # post" "entries (environ s) = xs"
    by (rule terminated_split)
  from unset_loop_effect [of name "[]" xs post] e assms(2) show ?thesis
    using sum_length_filter_compl [of "entry_of name" xs]
    by (auto simp: unsetenv_def terminated_def)
qed

lemma getenv_filter: "getenv name (filter (\<lambda>e. \<not> entry_of other e) xs) = (if name = other then None else getenv name xs)"
  if "CHR ''='' \<notin> set name" "CHR ''='' \<notin> set other"
proof -
  have "\<not> (entry_of name e \<and> entry_of other e)" if "name \<noteq> other" for e
  proof
    assume "entry_of name e \<and> entry_of other e"
    then obtain v w where "name @ ''='' @ v = other @ ''='' @ w" by (auto simp: entry_of_iff)
    then have "before (name @ CHR ''='' # v) (CHR ''='') = before (other @ CHR ''='' # w) (CHR ''='')" by simp
    with \<open>name \<noteq> other\<close> \<open>CHR ''='' \<notin> set name\<close> \<open>CHR ''='' \<notin> set other\<close> show False by simp
  qed
  then show ?thesis by (induction xs) auto
qed

lemma bad_name_iff: "bad_name (Some n) \<longleftrightarrow> n = [] \<or> CHR ''='' \<in> set n"
  by (auto simp: bad_name_def)

lemma put_entry_new: "\<forall>x\<in>set xs. \<not> entry_of name x \<Longrightarrow> put_entry name es xs = xs @ [es]"
  by (induction xs) auto

lemma getenv_snoc:
  "CHR ''='' \<notin> set name \<Longrightarrow> CHR ''='' \<notin> set other \<Longrightarrow>
   getenv name (xs @ [other @ ''='' @ v]) =
     (case getenv name xs of Some w \<Rightarrow> Some w | None \<Rightarrow> if name = other then Some v else None)"
proof (induction xs)
  case Nil
  have "name = other" if "other @ CHR ''='' # v = name @ CHR ''='' # w" for w
    using that Nil by (metis before_append_Cons)
  then show ?case by (auto simp: entry_of_iff)
qed simp

lemma terminated_entries [simp]: "terminated (map Some xs @ [None])" "entries (map Some xs @ [None]) = xs"
  by (simp_all add: terminated_def)

text \<open>
  \<open>unsetenv\<close> refuses a null or empty name and a name with an equals sign, with
  \<open>EINVAL\<close> and without touching the environment.  Otherwise it returns 0 and removes every
  definition of the name, however many there are, keeping the others in order; the array
  stays null-terminated in place.
\<close>

theorem unsetenv_spec:
  assumes "terminated (environ s)"
  shows "case name of
      None \<Rightarrow> unsetenv name s = Ret (-1) (s\<lparr>env_errno := EINVAL\<rparr>)
    | Some n \<Rightarrow>
        if n = [] \<or> CHR ''='' \<in> set n then unsetenv name s = Ret (-1) (s\<lparr>env_errno := EINVAL\<rparr>)
        else (\<exists>s'. unsetenv name s = Ret 0 s' \<and> terminated (environ s') \<and>
                length (environ s') = length (environ s) \<and>
                entries (environ s') = filter (\<lambda>e. \<nexists>v. e = n @ ''='' @ v) (entries (environ s)))"
proof (cases name)
  case None
  then show ?thesis by (simp add: unsetenv_def bad_name_def)
next
  case (Some n)
  show ?thesis
  proof (cases "n = [] \<or> CHR ''='' \<in> set n")
    case True
    with Some show ?thesis by (auto simp: unsetenv_def bad_name_iff)
  next
    case False
    then have "\<not> bad_name (Some n)" by (simp add: bad_name_iff)
    from unsetenv_good [OF assms this] False Some show ?thesis by (auto simp: entry_of_iff)
  qed
qed

theorem unsetenv_spec_witness:
  "\<exists>s'. unsetenv (Some ''TT'') \<lparr>environ = [Some ''TT=1'', Some ''A=b'', Some ''TT=2'', None], env_errno = 0\<rparr> = Ret 0 s' \<and>
     entries (environ s') = filter (\<lambda>e. \<nexists>v. e = ''TT'' @ ''='' @ v) [''TT=1'', ''A=b'', ''TT=2'']"
  using unsetenv_spec [of "\<lparr>environ = [Some ''TT=1'', Some ''A=b'', Some ''TT=2'', None], env_errno = 0\<rparr>" "Some ''TT''"]
  by (auto simp: terminated_def)

text \<open>
  After a successful \<open>setenv\<close> the name has the new value (the old one, if it was defined
  and \<open>overwrite\<close> is 0), and every other name keeps its value.  The function reports
  failure when memory runs out; by then the old definitions of the name are gone.
\<close>

theorem setenv_getenv:
  assumes "terminated (environ s)" and "name \<noteq> []" and "CHR ''='' \<notin> set name" and "CHR ''='' \<notin> set other"
  shows "\<exists>r s'. setenv m1 m2 (Some name) (Some val) overwrite s = Ret r s' \<and> terminated (environ s') \<and>
    (other \<noteq> name \<longrightarrow> getenv other (entries (environ s')) = getenv other (entries (environ s))) \<and>
    (if getenv name (entries (environ s)) \<noteq> None \<and> overwrite = 0 then r = 0 \<and> s' = s
     else if m1 \<and> m2 then r = 0 \<and> getenv name (entries (environ s')) = Some val
     else r = -1 \<and> getenv name (entries (environ s')) = None)"
proof -
  have good: "\<not> bad_name (Some name)" using assms by (simp add: bad_name_iff)
  obtain s1 where s1: "unsetenv (Some name) s = Ret 0 s1" "terminated (environ s1)"
    "entries (environ s1) = filter (\<lambda>e. \<not> entry_of name e) (entries (environ s))"
    using unsetenv_good [OF assms(1) good] by blast
  let ?xs = "entries (environ s1)" and ?e = "name @ ''='' @ val"
  have put: "put_entry name ?e ?xs = ?xs @ [?e]" using s1(3) by (intro put_entry_new) auto
  have none: "getenv name ?xs = None" "other \<noteq> name \<Longrightarrow> getenv other ?xs = getenv other (entries (environ s))"
    using getenv_filter [OF assms(3,3)] getenv_filter [OF assms(4,3)] s1(3) by simp_all
  have new: "getenv name (?xs @ [?e]) = Some val"
    "other \<noteq> name \<Longrightarrow> getenv other (?xs @ [?e]) = getenv other (entries (environ s))"
    using getenv_snoc [OF assms(3,3)] getenv_snoc [OF assms(4,3)] none by (auto split: option.splits)
  define ys where "ys = ?xs @ [?e]"
  have pe: "putenv m2 ?e s1 = (if m2 then (0, s1\<lparr>environ := map Some ys @ [None]\<rparr>) else (-1, s1\<lparr>env_errno := ENOMEM\<rparr>))"
    using put assms(3) by (simp add: putenv_def ys_def)
  show ?thesis
    using good s1(1,2) none new [folded ys_def] assms(1) pe
    by (auto simp: setenv_def)
qed

theorem setenv_getenv_witness:
  "\<exists>r s'. setenv True True (Some ''xyz'') (Some ''two'') 1 \<lparr>environ = [Some ''xyz=one'', Some ''A=b'', None], env_errno = 0\<rparr>
     = Ret r s' \<and> r = 0 \<and> getenv ''xyz'' (entries (environ s')) = Some ''two'' \<and>
     getenv ''A'' (entries (environ s')) = Some ''b''"
  using setenv_getenv [of "\<lparr>environ = [Some ''xyz=one'', Some ''A=b'', None], env_errno = 0\<rparr>" "''xyz''" "''A''" True True "''two''" 1]
  by (auto simp: terminated_def entry_of_def strncmp_eq_def)

end
