(* ===== verification/Svsem_Op.thy ===== *)
theory Svsem_Op
  imports Get_Num
begin

text \<open>
  \<open>src/tlpi-book/svsem/svsem_op.c\<close>: the little language of semaphore operations
  (\<open>0+1,1-2un\<close>) and the program that runs it.  The fields of \<open>struct sembuf\<close> are 16 bits
  wide, so every number is stored modulo \<open>2 ^ 16\<close>.  The functions that end the program are
  error values; \<open>semop\<close> is a parameter of \<open>main\<close>.
\<close>

section \<open>Parsing\<close>

record sembuf =
  sem_num :: "16 word"
  sem_op :: "16 word"
  sem_flg :: "16 word"

definition MAX_SEMOPS :: nat where "MAX_SEMOPS = 1000"
definition IPC_NOWAIT :: "16 word" where "IPC_NOWAIT = 0x800"
definition SEM_UNDO :: "16 word" where "SEM_UNDO = 0x1000"

datatype parse_error =
    TooMany | TrailingComma | NoInitialDigit | NoSign | NoDigitAfter char | NotZero | BadTrailing char

definition starts_digit :: "string \<Rightarrow> bool" where
  "starts_digit s = (case s of c # _ \<Rightarrow> isdigit c | [] \<Rightarrow> False)"

text \<open>The flags loop: the flags found and the text that follows them.\<close>

fun parse_flags :: "16 word \<Rightarrow> string \<Rightarrow> 16 word \<times> string" where
  "parse_flags flg [] = (flg, [])"
| "parse_flags flg (c # cs) =
     (if c = CHR ''n'' then parse_flags (flg OR IPC_NOWAIT) cs
      else if c = CHR ''u'' then parse_flags (flg OR SEM_UNDO) cs
      else (flg, c # cs))"

text \<open>One operation; \<open>remaining\<close> is not empty.\<close>

definition parse_op :: "string \<Rightarrow> parse_error + sembuf" where
  "parse_op remaining =
     (if \<not> starts_digit remaining then Inl NoInitialDigit
      else
        (let (n, sign, _) = strtol remaining 10;
             sem_num' = word_of_int n
         in case sign of
              [] \<Rightarrow> Inl NoSign
            | c # after \<Rightarrow>
                if strchr ''+-='' c = None then Inl NoSign
                else if \<not> starts_digit after then Inl (NoDigitAfter c)
                else
                  (let (v, flags, _) = strtol after 10;
                       op = (word_of_int v :: 16 word);
                       op = (if c = CHR ''-'' then - op else op)
                   in if c = CHR ''='' \<and> op \<noteq> 0 then Inl NotZero
                      else
                        (case parse_flags 0 flags of
                           (flg, []) \<Rightarrow> Inr \<lparr>sem_num = sem_num', sem_op = op, sem_flg = flg\<rparr>
                         | (flg, d # _) \<Rightarrow>
                             if d \<noteq> CHR '','' then Inl (BadTrailing d)
                             else Inr \<lparr>sem_num = sem_num', sem_op = op, sem_flg = flg\<rparr>))))"

function parse_loop :: "nat \<Rightarrow> string \<Rightarrow> parse_error + sembuf list" where
  "parse_loop numOps remaining =
     (if numOps \<ge> MAX_SEMOPS then Inl TooMany
      else if remaining = [] then Inl TrailingComma
      else
        (case parse_op remaining of
           Inl e \<Rightarrow> Inl e
         | Inr op \<Rightarrow>
             (case strchr remaining (CHR '','') of
                None \<Rightarrow> Inr [op]
              | Some comma \<Rightarrow>
                  (case parse_loop (Suc numOps) (tl comma) of
                     Inl e \<Rightarrow> Inl e
                   | Inr ops \<Rightarrow> Inr (op # ops)))))"
  by auto
termination
proof (relation "measure (\<lambda>(n, s). length s)")
  fix s :: string and c
  assume "strchr s (CHR '','') = Some c"
  then have "\<exists>r'. s = before s (CHR '','') @ CHR '','' # r' \<and> c = CHR '','' # r'" by (rule strchr_Some_split)
  then obtain a r' where "s = a @ CHR '','' # r'" "c = CHR '','' # r'" by blast
  then show "((Suc n, tl c), n, s) \<in> measure (\<lambda>(n, s). length s)" for n by simp
qed simp

declare parse_loop.simps [simp del]

definition parseOps :: "string \<Rightarrow> parse_error + sembuf list" where
  "parseOps arg = parse_loop 0 arg"

section \<open>The program\<close>

text \<open>The progress messages carry the argument; process id and time of day are left out.
  Every failure (bad usage, a rejected argument, a bad identifier, a failed \<open>semop\<close>) ends the
  program with status 1, before any later operation is tried.\<close>

definition usageError :: "string \<Rightarrow> string" where
  "usageError progName =
     unlines
      [''Usage: '' @ progName @ '' semid op[,op...] ...'', [],
       [CHR 0x27] @ ''op'' @ [CHR 0x27] @ '' is either: <sem#>{+|-}<value>[n][u]'',
       ''            or: <sem#>=0[n]'',
       ''       '' @ [CHR 0x22] @ ''n'' @ [CHR 0x22] @ '' means include IPC_NOWAIT in '' @ [CHR 0x27] @ ''op'' @ [CHR 0x27],
       ''       '' @ [CHR 0x22] @ ''u'' @ [CHR 0x22] @ '' means include SEM_UNDO in '' @ [CHR 0x27] @ ''op'' @ [CHR 0x27], [],
       ''The operations in each argument are performed in a single semop() call'', [],
       ''e.g.: '' @ progName @ '' 12345 0+1,1-2un'',
       ''      '' @ progName @ '' 12345 0=0n 1+1,2-1u 1=0'']"

datatype progress = Usage string | About string | Completed string | Rejected parse_error | SemopFailed int
  | BadSemid

record 's semprog =
  sem_kern :: 's
  sem_out :: "progress list"

definition say :: "progress \<Rightarrow> 's semprog \<Rightarrow> 's semprog" where
  "say p s = s\<lparr>sem_out := sem_out s @ [p]\<rparr>"

fun semop_args ::
    "(int \<Rightarrow> sembuf list \<Rightarrow> 's \<Rightarrow> int option \<times> 's) \<Rightarrow> string \<Rightarrow> string list \<Rightarrow> 's semprog \<Rightarrow>
     (unit, 's semprog) outcome" where
  "semop_args semop semid [] s = Exited 0 s"
| "semop_args semop semid (arg # args) s =
     (case parseOps arg of
        Inl e \<Rightarrow> Exited 1 (say (Rejected e) s)
      | Inr sops \<Rightarrow>
          (let s = say (About arg) s in
           case getInt (Some semid) 0 (Some ''semid'') of
             Inl _ \<Rightarrow> Exited 1 (say BadSemid s)
           | Inr i \<Rightarrow>
               (case semop i sops (sem_kern s) of
                  (Some e, k) \<Rightarrow> Exited 1 (say (SemopFailed e) (s\<lparr>sem_kern := k\<rparr>))
                | (None, k) \<Rightarrow> semop_args semop semid args (say (Completed arg) (s\<lparr>sem_kern := k\<rparr>)))))"

definition svsem_op_main ::
    "(int \<Rightarrow> sembuf list \<Rightarrow> 's \<Rightarrow> int option \<times> 's) \<Rightarrow> string list \<Rightarrow> 's semprog \<Rightarrow> (unit, 's semprog) outcome" where
  "svsem_op_main semop argv s =
     (if length argv < 2 \<or> argv ! 1 = ''--help'' then Exited 1 (say (Usage (usageError (argv ! 0))) s)
      else semop_args semop (argv ! 1) (drop 2 argv) s)"

section \<open>Printing\<close>

text \<open>The operations as a user writes them.\<close>

datatype sop = Add nat nat bool bool | Sub nat nat bool bool | Wait nat bool
  \<comment> \<open>semaphore, amount, IPC_NOWAIT, SEM_UNDO\<close>

definition show_flags :: "bool \<Rightarrow> bool \<Rightarrow> string" where
  "show_flags n u = (if n then ''n'' else []) @ (if u then ''u'' else [])"

fun show_sop :: "sop \<Rightarrow> string" where
  "show_sop (Add m v n u) = show_nat m @ ''+'' @ show_nat v @ show_flags n u"
| "show_sop (Sub m v n u) = show_nat m @ ''-'' @ show_nat v @ show_flags n u"
| "show_sop (Wait m n) = show_nat m @ ''=0'' @ show_flags n False"

fun show_sops :: "sop list \<Rightarrow> string" where
  "show_sops [] = []"
| "show_sops [x] = show_sop x"
| "show_sops (x # y # xs) = show_sop x @ '','' @ show_sops (y # xs)"

definition flags_word :: "bool \<Rightarrow> bool \<Rightarrow> 16 word" where
  "flags_word n u = (if n then IPC_NOWAIT else 0) OR (if u then SEM_UNDO else 0)"

text \<open>What the kernel is to be asked: the amounts as signed numbers.\<close>

fun sop_num :: "sop \<Rightarrow> nat" where
  "sop_num (Add m v n u) = m" | "sop_num (Sub m v n u) = m" | "sop_num (Wait m n) = m"

fun sop_delta :: "sop \<Rightarrow> int" where
  "sop_delta (Add m v n u) = int v" | "sop_delta (Sub m v n u) = - int v" | "sop_delta (Wait m n) = 0"

fun sop_flags :: "sop \<Rightarrow> 16 word" where
  "sop_flags (Add m v n u) = flags_word n u" | "sop_flags (Sub m v n u) = flags_word n u"
| "sop_flags (Wait m n) = flags_word n False"

definition sop_fits :: "sop \<Rightarrow> bool" where
  "sop_fits x \<longleftrightarrow> sop_num x < 2 ^ 16 \<and> \<bar>sop_delta x\<bar> < 2 ^ 15"

definition sop_buf :: "sop \<Rightarrow> sembuf" where
  "sop_buf x = \<lparr>sem_num = word_of_nat (sop_num x), sem_op = word_of_int (sop_delta x), sem_flg = sop_flags x\<rparr>"

lemma parse_flags_show:
  assumes "rest = [] \<or> (\<exists>r. rest = CHR '','' # r)"
  shows "parse_flags 0 (show_flags n u @ rest) = (flags_word n u, rest)"
  using assms by (auto simp: show_flags_def flags_word_def)

lemma strtol_show_nat:
  assumes "int m \<le> LONG_MAX" "\<And>c r'. r = c # r' \<Longrightarrow> \<not> is_digit_in 10 c"
  shows "strtol (show_nat m @ r) 10 = (int m, r, False)"
  using strtol_show_int [of "int m" r] assms by (simp add: show_int_def LONG_MIN_def LONG_MAX_def)

lemma starts_digit_show_nat [simp]: "starts_digit (show_nat m @ r)"
proof -
  obtain c cs where cs: "show_nat m = c # cs" by (cases "show_nat m") auto
  then have "is_digit_in 10 c" using show_nat_digits [of c m] by simp
  with cs show ?thesis
    by (auto simp: starts_digit_def is_digit_in_def digit_val_def isdigit_def Let_def split: if_splits)
qed

lemma not_digit [simp]: "\<not> is_digit_in 10 (CHR ''+'')" "\<not> is_digit_in 10 (CHR ''-'')" "\<not> is_digit_in 10 (CHR ''='')"
  "\<not> is_digit_in 10 (CHR '','')" "\<not> is_digit_in 10 (CHR ''n'')" "\<not> is_digit_in 10 (CHR ''u'')"
  by (simp_all add: is_digit_in_def digit_val_def)

lemma flags_not_digit:
  assumes "rest = [] \<or> (\<exists>r. rest = CHR '','' # r)" "show_flags n u @ rest = c # r'"
  shows "\<not> is_digit_in 10 c"
  using assms by (auto simp: show_flags_def split: if_splits)

lemma parse_op_shape:
  assumes "sign \<in> {CHR ''+'', CHR ''-'', CHR ''=''}" "m < 2 ^ 16" "v < 2 ^ 15" "sign = CHR ''='' \<Longrightarrow> v = 0"
    and rest: "rest = [] \<or> (\<exists>r. rest = CHR '','' # r)"
  shows "parse_op (show_nat m @ sign # show_nat v @ show_flags n u @ rest) =
    Inr \<lparr>sem_num = word_of_nat m, sem_op = (if sign = CHR ''-'' then - word_of_nat v else word_of_nat v),
      sem_flg = flags_word n u\<rparr>"
proof -
  have "int m \<le> LONG_MAX" "int v \<le> LONG_MAX" using assms(2,3) by (simp_all add: LONG_MAX_def)
  moreover have "\<not> is_digit_in 10 sign" using assms(1) by auto
  ultimately have
    "strtol (show_nat m @ sign # show_nat v @ show_flags n u @ rest) 10
       = (int m, sign # show_nat v @ show_flags n u @ rest, False)"
    "strtol (show_nat v @ show_flags n u @ rest) 10 = (int v, show_flags n u @ rest, False)"
    using flags_not_digit [OF rest] by (auto intro!: strtol_show_nat)
  with assms show ?thesis
    using parse_flags_show [OF rest, of n u] rest
    by (cases rest) (auto simp: parse_op_def Let_def)
qed

lemma parse_op_show:
  assumes "sop_fits x" and rest: "rest = [] \<or> (\<exists>r. rest = CHR '','' # r)"
  shows "parse_op (show_sop x @ rest) = Inr (sop_buf x)"
proof -
  have z: "show_nat 0 = ''0''" by (simp add: show_nat.simps digit_char_def char_of_def bit_0)
  show ?thesis
    using assms(1) parse_op_shape [OF _ _ _ _ rest, of "CHR ''+''"] parse_op_shape [OF _ _ _ _ rest, of "CHR ''-''"]
      parse_op_shape [OF _ _ _ _ rest, of "CHR ''=''" _ 0, unfolded z]
    by (cases x) (auto simp: sop_fits_def sop_buf_def)
qed

lemma show_sop_chars: "CHR '','' \<notin> set (show_sop x)" "show_sop x \<noteq> []"
proof -
  have "CHR '','' \<notin> set (show_nat k)" for k using show_nat_digits by fastforce
  then show "CHR '','' \<notin> set (show_sop x)" by (cases x) (auto simp: show_flags_def)
  show "show_sop x \<noteq> []" by (cases x) auto
qed

lemma show_sops_nonempty: "xs \<noteq> [] \<Longrightarrow> show_sops xs \<noteq> []"
  by (cases xs rule: show_sops.cases) (auto simp: show_sop_chars)

lemma parse_loop_show:
  "xs \<noteq> [] \<Longrightarrow> \<forall>x\<in>set xs. sop_fits x \<Longrightarrow> n + length xs \<le> MAX_SEMOPS \<Longrightarrow>
   parse_loop n (show_sops xs) = Inr (map sop_buf xs)"
proof (induction xs arbitrary: n rule: show_sops.induct)
  case (2 x)
  with parse_op_show [of x "[]"] show ?case
    by (simp add: parse_loop.simps show_sop_chars strchr_None [THEN iffD2])
next
  case (3 x y xs)
  then have "parse_loop (Suc n) (show_sops (y # xs)) = Inr (map sop_buf (y # xs))" by simp
  with 3 parse_op_show [of x "CHR '','' # show_sops (y # xs)"] show ?case
    by (subst parse_loop.simps) (simp add: show_sop_chars)
qed simp

lemma parse_loop_bound: "parse_loop n s = Inr ops \<Longrightarrow> ops \<noteq> [] \<and> n + length ops \<le> MAX_SEMOPS"
proof (induction n s arbitrary: ops rule: parse_loop.induct)
  case (1 n s)
  from 1(2) have n: "\<not> MAX_SEMOPS \<le> n" "s \<noteq> []" by (auto simp: parse_loop.simps [of n s] split: if_splits)
  with 1(2) obtain op where op: "parse_op s = Inr op" by (auto simp: parse_loop.simps [of n s] split: sum.splits)
  show ?case
  proof (cases "strchr s (CHR '','')")
    case None
    with 1(2) n op show ?thesis by (auto simp: parse_loop.simps [of n s])
  next
    case (Some c)
    with 1(2) n op obtain os where "parse_loop (Suc n) (tl c) = Inr os" "ops = op # os"
      by (auto simp: parse_loop.simps [of n s] split: sum.splits)
    with 1(1) [OF n op Some] show ?thesis by auto
  qed
qed

lemma strtol_digits_nonneg: "starts_digit s \<Longrightarrow> strtol s 10 = (v, r, e) \<Longrightarrow> 0 \<le> v"
proof -
  assume "starts_digit s" and v: "strtol s 10 = (v, r, e)"
  then obtain c cs where s: "s = c # cs" "isdigit c" by (cases s) (auto simp: starts_digit_def)
  then have "\<not> isspace c" "c \<noteq> CHR ''-''" by (auto simp: isspace_def isdigit_def)
  with s v show ?thesis
    by (auto simp: strtol_def LONG_MAX_def LONG_MIN_def Let_def split: if_splits prod.splits)
qed

section \<open>Properties\<close>

text \<open>
  Every list of up to 1000 operations whose numbers fit the fields of \<open>struct sembuf\<close>,
  written in the notation the program documents, is parsed to exactly these operations:
  semaphore numbers, signed amounts and flags, in order.
\<close>

theorem parseOps_roundtrip:
  assumes "xs \<noteq> []" and "length xs \<le> MAX_SEMOPS" and "\<forall>x\<in>set xs. sop_fits x"
  shows "parseOps (show_sops xs) = Inr (map sop_buf xs) \<and>
    map (uint \<circ> sem_num) (map sop_buf xs) = map (int \<circ> sop_num) xs \<and>
    map (sint \<circ> sem_op) (map sop_buf xs) = map sop_delta xs"
proof -
  have "uint (word_of_nat (sop_num x) :: 16 word) = int (sop_num x)"
    "sint (word_of_int (sop_delta x) :: 16 word) = sop_delta x" if "x \<in> set xs" for x
  proof -
    from that assms(3) have f: "sop_num x < 2 ^ 16" "\<bar>sop_delta x\<bar> < 2 ^ 15" by (auto simp: sop_fits_def)
    then show "uint (word_of_nat (sop_num x) :: 16 word) = int (sop_num x)"
      by (simp add: unsigned_of_nat take_bit_nat_eq_self)
    from f(2) show "sint (word_of_int (sop_delta x) :: 16 word) = sop_delta x"
      by (simp add: signed_of_int signed_take_bit_int_eq_self)
  qed
  then show ?thesis
    using parse_loop_show [of xs 0] assms by (auto simp: parseOps_def sop_buf_def)
qed

theorem parseOps_roundtrip_witness:
  "parseOps ''0+1,1-2nu,2=0n'' = Inr (map sop_buf [Add 0 1 False False, Sub 1 2 True True, Wait 2 True])"
proof -
  have "show_sops [Add 0 1 False False, Sub 1 2 True True, Wait 2 True] = ''0+1,1-2nu,2=0n''"
    by (simp add: show_nat.simps digit_char_def show_flags_def char_of_def bit_0)
  with parseOps_roundtrip [of "[Add 0 1 False False, Sub 1 2 True True, Wait 2 True]"] show ?thesis
    by (simp add: sop_fits_def MAX_SEMOPS_def)
qed

text \<open>
  The fields of \<open>struct sembuf\<close> are narrower than the numbers \<open>strtol\<close> reads: any semaphore
  number is taken modulo \<open>2 ^ 16\<close> and any amount is wrapped to a signed 16-bit number, without
  a diagnostic.  In particular \<open>=\<close> accepts every multiple of 65536.
\<close>

theorem parse_op_wraps:
  assumes "int m \<le> LONG_MAX" "int v \<le> LONG_MAX"
  shows "\<exists>b. parse_op (show_nat m @ ''+'' @ show_nat v) = Inr b \<and>
      uint (sem_num b) = int m mod 2 ^ 16 \<and> sint (sem_op b) = (int v + 2 ^ 15) mod 2 ^ 16 - 2 ^ 15 \<and>
      (2 ^ 16 dvd v \<longrightarrow> (\<exists>b. parse_op (show_nat m @ ''='' @ show_nat v) = Inr b \<and> sem_op b = 0))"
proof -
  have d: "starts_digit (show_nat k)" for k using starts_digit_show_nat [of k "[]"] by simp
  have st: "strtol (show_nat m @ c # show_nat v) 10 = (int m, c # show_nat v, False)"
    if "\<not> is_digit_in 10 c" for c using strtol_show_nat [OF assms(1), of "c # show_nat v"] that by auto
  have sv: "strtol (show_nat v) 10 = (int v, [], False)"
    using strtol_show_nat [OF assms(2), of "[]"] by simp
  have "sint (word_of_nat v :: 16 word) = (int v + 2 ^ 15) mod 2 ^ 16 - 2 ^ 15"
    by (simp add: signed_of_nat signed_take_bit_eq_take_bit_shift take_bit_eq_mod)
  moreover have "uint (word_of_nat m :: 16 word) = int m mod 2 ^ 16"
    by (simp add: unsigned_of_nat take_bit_eq_mod of_nat_mod)
  moreover have "(word_of_nat v :: 16 word) = 0" if "2 ^ 16 dvd v"
    using that by (simp add: word_of_nat_eq_0_iff)
  ultimately show ?thesis
    by (auto simp: parse_op_def st sv d Let_def)
qed

theorem parse_op_wraps_witness:
  "\<exists>b. parse_op (show_nat 65537 @ ''+'' @ show_nat 65536) = Inr b \<and> uint (sem_num b) = 1 \<and> sint (sem_op b) = 0"
  using parse_op_wraps [of 65537 65536] by (auto simp: LONG_MAX_def)

end
