(* ===== verification/Semaphores.thy ===== *)
theory Semaphores
  imports Svsem_Op
begin

text \<open>
  \<open>src/tlpi-book/svsem/binary_sems.c\<close> and \<open>event_flags.c\<close>: binary semaphores and event flags
  on top of System V semaphores.  \<open>semop\<close> and \<open>semctl\<close> are parameters (record \<open>semk\<close>); a call
  that returns -1 with \<open>errno\<close> set to \<open>e\<close> has the result \<open>Some e\<close>, a successful one \<open>None\<close>.
  The locale \<open>semaphores\<close> states what the functions rely on.
\<close>

record 's semk =
  k_semop :: "int \<Rightarrow> sembuf list \<Rightarrow> 's \<Rightarrow> int option \<times> 's"
  k_setval :: "int \<Rightarrow> int \<Rightarrow> int \<Rightarrow> 's \<Rightarrow> int option \<times> 's"
  k_getval :: "int \<Rightarrow> int \<Rightarrow> 's \<Rightarrow> (int + int) \<times> 's"

definition EINTR :: int where "EINTR = 4"

section \<open>Binary semaphores\<close>

text \<open>The global variables \<open>bsUseSemUndo\<close> and \<open>bsRetryOnEintr\<close>.\<close>

record bs_config =
  bsUseSemUndo :: bool
  bsRetryOnEintr :: bool

definition bs_default :: bs_config where
  "bs_default = \<lparr>bsUseSemUndo = False, bsRetryOnEintr = True\<rparr>"

definition initSemAvailable :: "'s semk \<Rightarrow> int \<Rightarrow> int \<Rightarrow> 's \<Rightarrow> int option \<times> 's" where
  "initSemAvailable K semId semNum s = k_setval K semId semNum 1 s"

definition initSemInUse :: "'s semk \<Rightarrow> int \<Rightarrow> int \<Rightarrow> 's \<Rightarrow> int option \<times> 's" where
  "initSemInUse K semId semNum s = k_setval K semId semNum 0 s"

definition sop :: "bs_config \<Rightarrow> int \<Rightarrow> int \<Rightarrow> sembuf" where
  "sop c semNum delta =
     \<lparr>sem_num = word_of_int semNum, sem_op = word_of_int delta,
      sem_flg = (if bsUseSemUndo c then SEM_UNDO else 0)\<rparr>"

text \<open>The loop around \<open>semop\<close>, which may be interrupted any number of times.\<close>

partial_function (option) semop_retry ::
    "'s semk \<Rightarrow> bool \<Rightarrow> int \<Rightarrow> sembuf \<Rightarrow> 's \<Rightarrow> (int option \<times> 's) option" where
  "semop_retry K retry semId b s =
     (case k_semop K semId [b] s of
        (None, s') \<Rightarrow> Some (None, s')
      | (Some e, s') \<Rightarrow> if e \<noteq> EINTR \<or> \<not> retry then Some (Some e, s') else semop_retry K retry semId b s')"

definition reserveSem :: "bs_config \<Rightarrow> 's semk \<Rightarrow> int \<Rightarrow> int \<Rightarrow> 's \<Rightarrow> (int option \<times> 's) option" where
  "reserveSem c K semId semNum s = semop_retry K (bsRetryOnEintr c) semId (sop c semNum (-1)) s"

definition releaseSem :: "bs_config \<Rightarrow> 's semk \<Rightarrow> int \<Rightarrow> int \<Rightarrow> 's \<Rightarrow> int option \<times> 's" where
  "releaseSem c K semId semNum s = k_semop K semId [sop c semNum 1] s"

section \<open>Event flags\<close>

definition waitForEventFlag :: "'s semk \<Rightarrow> int \<Rightarrow> int \<Rightarrow> 's \<Rightarrow> (int option \<times> 's) option" where
  "waitForEventFlag K semId semNum s =
     semop_retry K True semId \<lparr>sem_num = word_of_int semNum, sem_op = 0, sem_flg = 0\<rparr> s"

definition clearEventFlag :: "'s semk \<Rightarrow> int \<Rightarrow> int \<Rightarrow> 's \<Rightarrow> int option \<times> 's" where
  "clearEventFlag K semId semNum s = k_setval K semId semNum 1 s"

definition setEventFlag :: "'s semk \<Rightarrow> int \<Rightarrow> int \<Rightarrow> 's \<Rightarrow> int option \<times> 's" where
  "setEventFlag K semId semNum s = k_setval K semId semNum 0 s"

text \<open>The flag read through \<open>isSet\<close>, or the error.\<close>

definition getFlagState :: "'s semk \<Rightarrow> int \<Rightarrow> int \<Rightarrow> 's \<Rightarrow> (int + bool) \<times> 's" where
  "getFlagState K semId semNum s =
     (case k_getval K semId semNum s of
        (Inl e, s') \<Rightarrow> (Inl e, s')
      | (Inr v, s') \<Rightarrow> (Inr (v = 0), s'))"

section \<open>Interrupted calls\<close>

text \<open>\<open>settles K retry semId b s r\<close>: after finitely many interrupted calls, the call of \<open>semop\<close>
  gives \<open>r\<close>.\<close>

inductive settles :: "'s semk \<Rightarrow> bool \<Rightarrow> int \<Rightarrow> sembuf \<Rightarrow> 's \<Rightarrow> int option \<times> 's \<Rightarrow> bool" for K retry semId b where
  settled: "k_semop K semId [b] s = (r, s') \<Longrightarrow> r \<noteq> Some EINTR \<or> \<not> retry \<Longrightarrow> settles K retry semId b s (r, s')"
| again: "k_semop K semId [b] s = (Some EINTR, s1) \<Longrightarrow> retry \<Longrightarrow> settles K retry semId b s1 r \<Longrightarrow>
    settles K retry semId b s r"

lemma semop_retry_settles: "settles K retry semId b s r \<Longrightarrow> semop_retry K retry semId b s = Some r"
proof (induction rule: settles.induct)
  case (settled s r s')
  then show ?case by (subst semop_retry.simps) (auto split: option.splits)
next
  case (again s s1 r)
  then show ?case by (subst semop_retry.simps) simp
qed

lemma settles_semop_retry:
  assumes "semop_retry K retry semId b s = Some r"
  shows "settles K retry semId b s r"
proof (rule semop_retry.raw_induct [OF _ assms])
  fix f K retry semId b s r
  assume IH: "\<And>K retry semId b s r. f K retry semId b s = Some r \<Longrightarrow> settles K retry semId b s r"
    and r: "(case k_semop K semId [b] s of (None, s') \<Rightarrow> Some (None, s')
      | (Some e, s') \<Rightarrow> if e \<noteq> EINTR \<or> \<not> retry then Some (Some e, s') else f K retry semId b s') = Some r"
  obtain x s' where x: "k_semop K semId [b] s = (x, s')" by fastforce
  show "settles K retry semId b s r"
  proof (cases "x = Some EINTR \<and> retry")
    case True
    with r x have "f K retry semId b s' = Some r" by simp
    from settles.again [OF _ _ IH [OF this], of s] True x show ?thesis by simp
  next
    case False
    with r x have "r = (x, s')" by (auto split: option.splits if_splits)
    with False x show ?thesis by (auto intro: settles.settled)
  qed
qed

section \<open>The contract of the kernel\<close>

text \<open>\<open>val s i n\<close> is the value of semaphore \<open>n\<close> of set \<open>i\<close>.  The laws speak of calls during
  which no other process works on the set.\<close>

locale semaphores =
  fixes K :: "'s semk" and val :: "'s \<Rightarrow> int \<Rightarrow> int \<Rightarrow> int"
  assumes setval: "k_setval K i n v s = (None, s') \<Longrightarrow> val s' = (val s)(i := (val s i)(n := v))"
    and getval: "k_getval K i n s = (Inr v, s') \<Longrightarrow> v = val s i n \<and> val s' = val s"
    and semop_one: "k_semop K i [b] s = (None, s') \<Longrightarrow>
      (if sem_op b = 0 then val s i (uint (sem_num b)) = 0 \<and> val s' = val s
       else val s' = (val s)(i := (val s i)(uint (sem_num b) := val s i (uint (sem_num b)) + sint (sem_op b))) \<and>
         0 \<le> val s i (uint (sem_num b)) + sint (sem_op b))"
    and semop_err: "k_semop K i ops s = (Some e, s') \<Longrightarrow> val s' = val s"
begin

lemma settles_val: "settles K retry i b s r \<Longrightarrow> \<exists>s1. val s1 = val s \<and> k_semop K i [b] s1 = r"
proof (induction rule: settles.induct)
  case (again s s1 r)
  then show ?case using semop_err by metis
qed auto

lemma reserve_takes:
  assumes "reserveSem c K i n s = Some (None, s')" "0 \<le> n" "n < 2 ^ 16"
  shows "0 < val s i n \<and> val s' = (val s)(i := (val s i)(n := val s i n - 1))"
proof -
  from assms(1) obtain s1 where s1: "val s1 = val s" "k_semop K i [sop c n (-1)] s1 = (None, s')"
    unfolding reserveSem_def by (blast dest: settles_semop_retry settles_val)
  have n: "uint (word_of_int n :: 16 word) = n"
    using assms(2,3) by (simp add: unsigned_of_int take_bit_int_eq_self)
  from semop_one [OF s1(2)] s1(1) show ?thesis by (simp add: sop_def n)
qed

lemma release_gives:
  assumes "releaseSem c K i n s = (None, s')" "0 \<le> n" "n < 2 ^ 16"
  shows "val s' = (val s)(i := (val s i)(n := val s i n + 1))"
proof -
  have n: "uint (word_of_int n :: 16 word) = n"
    using assms(2,3) by (simp add: unsigned_of_int take_bit_int_eq_self)
  from semop_one [OF assms(1) [unfolded releaseSem_def]] show ?thesis by (simp add: sop_def n)
qed

lemma wait_zero:
  assumes "waitForEventFlag K i n s = Some (None, s')" "0 \<le> n" "n < 2 ^ 16"
  shows "val s i n = 0 \<and> val s' = val s"
proof -
  let ?b = "\<lparr>sem_num = word_of_int n, sem_op = 0, sem_flg = 0\<rparr> :: sembuf"
  from assms(1) obtain s1 where s1: "val s1 = val s" "k_semop K i [?b] s1 = (None, s')"
    unfolding waitForEventFlag_def by (blast dest: settles_semop_retry settles_val)
  have n: "uint (word_of_int n :: 16 word) = n"
    using assms(2,3) by (simp add: unsigned_of_int take_bit_int_eq_self)
  from semop_one [OF s1(2)] s1(1) show ?thesis by (simp add: n)
qed

end

section \<open>An implementation of the contract\<close>

text \<open>One semaphore set with values as Linux keeps them, in a process that is interrupted
  \<open>ints\<close> more times.  A call that would block for ever fails with \<open>EAGAIN\<close>, as with
  \<open>IPC_NOWAIT\<close>.\<close>

record semset =
  vals :: "int \<Rightarrow> int \<Rightarrow> int"
  ints :: nat

definition set_semop :: "int \<Rightarrow> sembuf list \<Rightarrow> semset \<Rightarrow> int option \<times> semset" where
  "set_semop i ops s =
     (if ints s > 0 then (Some EINTR, s\<lparr>ints := ints s - 1\<rparr>)
      else
        (case ops of
           [b] \<Rightarrow>
             (let n = uint (sem_num b); v = vals s i n in
              if sem_op b = 0 then (if v = 0 then (None, s) else (Some 11, s))
              else if v + sint (sem_op b) < 0 then (Some 11, s)
              else (None, s\<lparr>vals := (vals s)(i := (vals s i)(n := v + sint (sem_op b)))\<rparr>))
         | _ \<Rightarrow> (Some 22, s)))"

definition set_kernel :: "semset semk" where
  "set_kernel =
     \<lparr>k_semop = set_semop,
      k_setval = (\<lambda>i n v s. (None, s\<lparr>vals := (vals s)(i := (vals s i)(n := v))\<rparr>)),
      k_getval = (\<lambda>i n s. (Inr (vals s i n), s))\<rparr>"

interpretation sset: semaphores set_kernel vals
  by unfold_locales
    (auto simp: set_kernel_def set_semop_def Let_def split: if_splits list.splits)

lemma set_kernel_settles:
  "set_semop i [b] (s\<lparr>ints := 0\<rparr>) = r \<Longrightarrow> fst r \<noteq> Some EINTR \<Longrightarrow> settles set_kernel True i b s r"
proof (induction "ints s" arbitrary: s)
  case 0
  then have "s\<lparr>ints := 0\<rparr> = s" by (cases s) simp
  with 0(2) have "k_semop set_kernel i [b] s = (fst r, snd r)" by (simp add: set_kernel_def)
  from settles.settled [OF this] 0(3) show ?case by simp
next
  case (Suc n)
  let ?s = "s\<lparr>ints := ints s - 1\<rparr>"
  have st: "settles set_kernel True i b ?s r" by (rule Suc.hyps(1)) (use Suc in simp_all)
  have k: "k_semop set_kernel i [b] s = (Some EINTR, ?s)"
    using Suc.hyps(2) by (simp add: set_kernel_def set_semop_def)
  show ?case by (rule settles.again [OF k TrueI st])
qed

section \<open>Properties\<close>

text \<open>
  \<open>reserveSem\<close> returns, with result \<open>r\<close>, exactly when \<open>semop\<close> gives \<open>r\<close> after finitely
  many interruptions by signal handlers; with \<open>bsRetryOnEintr\<close> off, the first result is
  final and it always returns.
\<close>

theorem reserveSem_returns:
  "(reserveSem c K semId semNum s = Some r \<longleftrightarrow>
      settles K (bsRetryOnEintr c) semId (sop c semNum (-1)) s r) \<and>
   (bsRetryOnEintr c \<or> reserveSem c K semId semNum s = Some (k_semop K semId [sop c semNum (-1)] s))"
proof -
  have "semop_retry K False semId b s = Some (k_semop K semId [b] s)" for b
    by (subst semop_retry.simps) (auto split: prod.splits option.splits)
  then show ?thesis
    unfolding reserveSem_def using semop_retry_settles settles_semop_retry by (metis (full_types))
qed



text \<open>
  An event flag that was set reads as set and lets a waiter through; one that was cleared
  reads as clear and no waiter gets through.
\<close>

theorem event_flag_protocol:
  assumes "semaphores K val" "0 \<le> n" "n < 2 ^ 16"
    and "setEventFlag K i n s0 = (None, s1)" "clearEventFlag K i n s0 = (None, s2)"
  shows "(\<forall>b s'. getFlagState K i n s1 = (Inr b, s') \<longrightarrow> b) \<and>
    (\<forall>b s'. getFlagState K i n s2 = (Inr b, s') \<longrightarrow> \<not> b) \<and>
    (\<forall>s'. waitForEventFlag K i n s1 = Some (None, s') \<longrightarrow> val s' = val s1) \<and>
    (\<forall>s'. waitForEventFlag K i n s2 \<noteq> Some (None, s'))"
proof -
  have v: "val s1 i n = 0" "val s2 i n = 1"
    using semaphores.setval [OF assms(1) assms(4) [unfolded setEventFlag_def]]
      semaphores.setval [OF assms(1) assms(5) [unfolded clearEventFlag_def]] by simp_all
  have get: "b = (val s i n = 0)" if "getFlagState K i n s = (Inr b, s')" for s s' b
    using that semaphores.getval [OF assms(1)] by (auto simp: getFlagState_def split: prod.splits sum.splits)
  show ?thesis
    using v get semaphores.wait_zero [OF assms(1) _ assms(2,3), of i] by fastforce
qed

theorem event_flag_protocol_witness:
  "\<exists>s'. getFlagState set_kernel 7 3 (snd (setEventFlag set_kernel 7 3 \<lparr>vals = \<lambda>i n. 5, ints = 0\<rparr>)) = (Inr True, s')"
proof -
  let ?s0 = "\<lparr>vals = \<lambda>i n. 5, ints = 0\<rparr> :: semset"
  obtain s1 s2 where s: "setEventFlag set_kernel 7 3 ?s0 = (None, s1)" "clearEventFlag set_kernel 7 3 ?s0 = (None, s2)"
    by (simp add: setEventFlag_def clearEventFlag_def set_kernel_def)
  obtain b s' where "getFlagState set_kernel 7 3 s1 = (Inr b, s')" by (simp add: getFlagState_def set_kernel_def)
  with event_flag_protocol [OF sset.semaphores_axioms _ _ s] s show ?thesis by auto
qed

end
