(* ===== verification/Shm_Transfer.thy ===== *)
theory Shm_Transfer
  imports Semaphores
begin

text \<open>
  \<open>src/tlpi-book/svshm/svshm_xfr_writer.c\<close> and \<open>svshm_xfr_reader.c\<close>: two processes pass
  blocks of data through one buffer in shared memory, taking turns by means of two binary
  semaphores.  The model has one transition per action on shared state, in any
  interleaving, from the moment both processes have attached the segment.  A call of
  \<open>reserveSem\<close> on a semaphore with value 0 has no transition: the process waits.
\<close>

section \<open>The system\<close>

definition WRITE_SEM :: int where "WRITE_SEM = 0"
definition READ_SEM :: int where "READ_SEM = 1"
definition BUF_SIZE :: nat where "BUF_SIZE = 1024"

text \<open>Where the writer is: about to reserve \<open>WRITE_SEM\<close>, to read from standard input, to
  release \<open>READ_SEM\<close>, to test for end of file, to update the counters, to reserve
  \<open>WRITE_SEM\<close> for the last time, to remove the objects; or finished, or left through
  \<open>errExit\<close>.  Likewise the reader.\<close>

datatype wpc = WReserve | WRead | WRelease | WTest | WCount | WLast | WRemove | WDone | WFail
datatype rpc = RReserve | RTest | RWrite | RRelease | RLast | RReport | RDone | RFail

record xfr =
  wpc :: wpc
  rpc :: rpc
  semv :: "int \<Rightarrow> int"          \<comment> \<open>the semaphore set\<close>
  removed :: bool               \<comment> \<open>\<open>IPC_RMID\<close> was done\<close>
  shm_cnt :: int
  shm_buf :: string
  xin :: "string option list" \<comment> \<open>what \<open>read\<close> will give; \<open>None\<close> is an error, then end of file\<close>
  xout :: string
  w_bytes :: int
  w_xfrs :: int
  r_bytes :: int
  r_xfrs :: int

text \<open>\<open>reserveSem\<close> and \<open>releaseSem\<close> on the set: no result while the caller has to wait.\<close>

definition reserve :: "int \<Rightarrow> xfr \<Rightarrow> xfr option" where
  "reserve n s = (if semv s n > 0 then Some (s\<lparr>semv := (semv s)(n := semv s n - 1)\<rparr>) else None)"

definition release :: "int \<Rightarrow> xfr \<Rightarrow> xfr" where
  "release n s = s\<lparr>semv := (semv s)(n := semv s n + 1)\<rparr>"

definition shm_read :: "xfr \<Rightarrow> xfr" where
  "shm_read s =
     (case xin s of
        [] \<Rightarrow> s\<lparr>shm_cnt := 0\<rparr>
      | None # rest \<Rightarrow> s\<lparr>shm_cnt := -1, xin := rest\<rparr>
      | Some d # rest \<Rightarrow>
          s\<lparr>shm_cnt := int (length d), shm_buf := d @ drop (length d) (shm_buf s), xin := rest\<rparr>)"

definition wstep :: "xfr \<Rightarrow> xfr option" where
  "wstep s =
     (case wpc s of
        WReserve \<Rightarrow>
          if removed s then Some (s\<lparr>wpc := WFail\<rparr>)
          else map_option (\<lambda>s. s\<lparr>wpc := WRead\<rparr>) (reserve WRITE_SEM s)
      | WRead \<Rightarrow>
          (let s = shm_read s
           in Some (s\<lparr>wpc := (if shm_cnt s = -1 then WFail else WRelease)\<rparr>))
      | WRelease \<Rightarrow>
          if removed s then Some (s\<lparr>wpc := WFail\<rparr>) else Some ((release READ_SEM s)\<lparr>wpc := WTest\<rparr>)
      | WTest \<Rightarrow> Some (s\<lparr>wpc := (if shm_cnt s = 0 then WLast else WCount)\<rparr>)
      | WCount \<Rightarrow> Some (s\<lparr>w_xfrs := w_xfrs s + 1, w_bytes := w_bytes s + shm_cnt s, wpc := WReserve\<rparr>)
      | WLast \<Rightarrow>
          if removed s then Some (s\<lparr>wpc := WFail\<rparr>)
          else map_option (\<lambda>s. s\<lparr>wpc := WRemove\<rparr>) (reserve WRITE_SEM s)
      | WRemove \<Rightarrow> Some (s\<lparr>removed := True, wpc := WDone\<rparr>)
      | WDone \<Rightarrow> None
      | WFail \<Rightarrow> None)"

text \<open>\<open>wr\<close> is the result of \<open>write\<close> on standard output.\<close>

definition rstep :: "(string \<Rightarrow> int) \<Rightarrow> xfr \<Rightarrow> xfr option" where
  "rstep wr s =
     (case rpc s of
        RReserve \<Rightarrow>
          if removed s then Some (s\<lparr>rpc := RFail\<rparr>)
          else map_option (\<lambda>s. s\<lparr>rpc := RTest\<rparr>) (reserve READ_SEM s)
      | RTest \<Rightarrow>
          if shm_cnt s = 0 then Some (s\<lparr>rpc := RLast\<rparr>)
          else Some (s\<lparr>r_bytes := r_bytes s + shm_cnt s, rpc := RWrite\<rparr>)
      | RWrite \<Rightarrow>
          (let d = take (nat (shm_cnt s)) (shm_buf s) in
           if wr d \<noteq> shm_cnt s then Some (s\<lparr>rpc := RFail\<rparr>)
           else Some (s\<lparr>xout := xout s @ d, rpc := RRelease\<rparr>))
      | RRelease \<Rightarrow>
          if removed s then Some (s\<lparr>rpc := RFail\<rparr>)
          else Some ((release WRITE_SEM s)\<lparr>r_xfrs := r_xfrs s + 1, rpc := RReserve\<rparr>)
      | RLast \<Rightarrow>
          if removed s then Some (s\<lparr>rpc := RFail\<rparr>) else Some ((release WRITE_SEM s)\<lparr>rpc := RReport\<rparr>)
      | RReport \<Rightarrow> Some (s\<lparr>rpc := RDone\<rparr>)
      | RDone \<Rightarrow> None
      | RFail \<Rightarrow> None)"

inductive xstep :: "(string \<Rightarrow> int) \<Rightarrow> xfr \<Rightarrow> xfr \<Rightarrow> bool" for wr where
  writer: "wstep s = Some s' \<Longrightarrow> xstep wr s s'"
| reader: "rstep wr s = Some s' \<Longrightarrow> xstep wr s s'"

inductive_cases xstepE: "xstep wr s s'"

text \<open>The state after the writer's set-up: \<open>WRITE_SEM\<close> available, \<open>READ_SEM\<close> in use.\<close>

definition xfr_init :: "string option list \<Rightarrow> string \<Rightarrow> xfr" where
  "xfr_init inp mem =
     \<lparr>wpc = WReserve, rpc = RReserve, semv = (\<lambda>_. 0)(WRITE_SEM := 1, READ_SEM := 0), removed = False,
      shm_cnt = 0, shm_buf = mem, xin = inp, xout = [], w_bytes = 0, w_xfrs = 0, r_bytes = 0, r_xfrs = 0\<rparr>"

section \<open>The invariant\<close>

text \<open>\<open>k\<close> blocks have been read by the writer, \<open>j\<close> of them written out by the reader.\<close>

definition total :: "string list \<Rightarrow> nat \<Rightarrow> int" where
  "total bs k = int (length (concat (take k bs)))"

definition token :: "xfr \<Rightarrow> int" where
  "token s = semv s WRITE_SEM + semv s READ_SEM
     + (if wpc s \<in> {WRead, WRelease, WRemove, WDone} then 1 else 0)
     + (if rpc s \<in> {RTest, RWrite, RRelease, RLast} then 1 else 0)"

text \<open>The block in the buffer is waiting for the reader.\<close>

definition full :: "xfr \<Rightarrow> bool" where
  "full s \<longleftrightarrow> wpc s = WRelease \<or> semv s READ_SEM = 1 \<or> rpc s \<in> {RTest, RWrite}"

definition writer_ok :: "string list \<Rightarrow> nat \<Rightarrow> xfr \<Rightarrow> bool" where
  "writer_ok bs k s \<longleftrightarrow>
     (case wpc s of
        WReserve \<Rightarrow> w_xfrs s = int k \<and> w_bytes s = total bs k
      | WRead \<Rightarrow> w_xfrs s = int k \<and> w_bytes s = total bs k
      | WRelease \<Rightarrow> True
      | WTest \<Rightarrow> True
      | WCount \<Rightarrow> shm_cnt s \<noteq> 0
      | WFail \<Rightarrow> False
      | _ \<Rightarrow> shm_cnt s = 0) \<and>
     (wpc s \<in> {WRelease, WTest, WCount, WLast, WRemove, WDone} \<longrightarrow>
        (if shm_cnt s = 0 then k = length bs \<and> w_xfrs s = int k \<and> w_bytes s = total bs k
         else 0 < k \<and> shm_cnt s = int (length (bs ! (k - 1))) \<and> w_xfrs s = int k - 1 \<and> w_bytes s = total bs (k - 1))) \<and>
     (removed s \<longleftrightarrow> wpc s = WDone)"

definition reader_ok :: "string list \<Rightarrow> nat \<Rightarrow> xfr \<Rightarrow> bool" where
  "reader_ok bs k s \<longleftrightarrow>
     (if full s \<and> shm_cnt s \<noteq> 0
      then 0 < k \<and> shm_cnt s = int (length (bs ! (k - 1))) \<and> take (nat (shm_cnt s)) (shm_buf s) = bs ! (k - 1) \<and>
        xout s = concat (take (k - 1) bs) \<and> r_xfrs s = int k - 1 \<and>
        r_bytes s = (if rpc s = RWrite then total bs k else total bs (k - 1))
      else if full s then k = length bs \<and> xout s = concat bs \<and> r_xfrs s = int k \<and> r_bytes s = total bs k \<and> rpc s \<noteq> RWrite \<and>
        wpc s \<in> {WRelease, WTest, WLast}
      else xout s = concat (take k bs) \<and> r_bytes s = total bs k \<and>
        r_xfrs s = (if rpc s = RRelease then int k - 1 else int k)) \<and>
     (rpc s = RRelease \<longrightarrow> 0 < k \<and> shm_cnt s \<noteq> 0) \<and>
     (rpc s \<in> {RLast, RReport, RDone} \<longrightarrow> shm_cnt s = 0 \<and> k = length bs \<and> semv s READ_SEM = 0 \<and>
        wpc s \<in> {WTest, WLast, WRemove, WDone}) \<and>
     (wpc s \<in> {WTest, WLast} \<and> shm_cnt s = 0 \<longrightarrow> full s \<and> rpc s \<in> {RReserve, RTest} \<or> rpc s \<in> {RLast, RReport, RDone}) \<and>
     (wpc s \<in> {WRemove, WDone} \<longrightarrow> rpc s \<in> {RReport, RDone}) \<and>
     rpc s \<noteq> RFail"

definition xfr_inv :: "string list \<Rightarrow> nat \<Rightarrow> xfr \<Rightarrow> bool" where
  "xfr_inv bs k s \<longleftrightarrow>
     k \<le> length bs \<and> xin s = map Some (drop k bs) \<and> 0 \<le> semv s WRITE_SEM \<and> 0 \<le> semv s READ_SEM \<and>
     token s = 1 \<and> writer_ok bs k s \<and> reader_ok bs k s"

definition blocks_ok :: "string list \<Rightarrow> bool" where
  "blocks_ok bs \<longleftrightarrow> list_all (\<lambda>b. b \<noteq> [] \<and> length b \<le> BUF_SIZE) bs"

lemma total_Suc: "k < length bs \<Longrightarrow> total bs (Suc k) = total bs k + int (length (bs ! k))"
  by (simp add: total_def take_Suc_conv_app_nth)

lemma xfr_inv_init: "xfr_inv bs 0 (xfr_init (map Some bs) mem)"
  by (auto simp: xfr_inv_def xfr_init_def token_def writer_ok_def reader_ok_def full_def total_def
      WRITE_SEM_def READ_SEM_def)

lemmas xdefs = xfr_inv_def token_def writer_ok_def reader_ok_def full_def WRITE_SEM_def READ_SEM_def

lemma full_simps:
  "full (s\<lparr>w_xfrs := a\<rparr>) = full s" "full (s\<lparr>w_bytes := a\<rparr>) = full s"
  "wpc s \<noteq> WRelease \<Longrightarrow> w \<noteq> WRelease \<Longrightarrow> full (s\<lparr>wpc := w\<rparr>) = full s"
  by (simp_all add: full_def)

lemmas fdefs = xfr_inv_def token_def writer_ok_def reader_ok_def full_simps

text \<open>Whoever holds the token holds it alone.\<close>

lemma writer_holds:
  assumes "xfr_inv bs k s" "wpc s \<in> {WRead, WRelease, WRemove, WDone}"
  shows "semv s READ_SEM = 0" "semv s WRITE_SEM = 0" "rpc s \<notin> {RTest, RWrite, RRelease, RLast}"
proof -
  from assms have t: "0 \<le> semv s WRITE_SEM" "0 \<le> semv s READ_SEM"
    "semv s WRITE_SEM + semv s READ_SEM + (if rpc s \<in> {RTest, RWrite, RRelease, RLast} then 1 else 0) = 0"
    unfolding xfr_inv_def token_def by simp_all
  show "rpc s \<notin> {RTest, RWrite, RRelease, RLast}"
  proof
    assume "rpc s \<in> {RTest, RWrite, RRelease, RLast}"
    with t(3) have "semv s WRITE_SEM + semv s READ_SEM + 1 = 0" by (simp only: if_True)
    with t(1,2) show False by linarith
  qed
  with t have "semv s WRITE_SEM + semv s READ_SEM = 0" by (simp only: if_False add_0_right)
  with t(1,2) show "semv s READ_SEM = 0" "semv s WRITE_SEM = 0" by simp_all
qed

text \<open>The writer's transitions.\<close>

lemma writer_reserve_inv:
  assumes inv: "xfr_inv bs k s" and w: "wpc s = WReserve" and p: "semv s WRITE_SEM > 0"
  shows "xfr_inv bs k (s\<lparr>semv := (semv s)(WRITE_SEM := semv s WRITE_SEM - 1), wpc := WRead\<rparr>)"
  using inv p by (cases "rpc s"; simp add: xdefs w split: if_splits)

lemma writer_block_inv:
  assumes inv: "xfr_inv bs k s" and w: "wpc s = WRead" and k: "k < length bs" "bs ! k \<noteq> []"
  shows "xfr_inv bs (Suc k) (s\<lparr>shm_cnt := int (length (bs ! k)), shm_buf := bs ! k @ drop (length (bs ! k)) (shm_buf s),
     xin := map Some (drop (Suc k) bs), wpc := WRelease\<rparr>)"
proof -
  from inv w have r: "rpc s = RReserve" "semv s 0 = 0" "semv s 1 = 0"
    using writer_holds [OF inv]
    by (cases "rpc s"; simp add: xfr_inv_def reader_ok_def WRITE_SEM_def READ_SEM_def)+
  from inv w r have "xout s = concat (take k bs)" "r_bytes s = total bs k" "r_xfrs s = int k"
     "w_xfrs s = int k" "w_bytes s = total bs k" "\<not> removed s"
    by (simp_all add: xdefs)
  with k w r show ?thesis by (simp add: xdefs)
qed

lemma writer_eof_inv:
  assumes inv: "xfr_inv bs k s" and w: "wpc s = WRead" and k: "k = length bs"
  shows "xfr_inv bs k (s\<lparr>shm_cnt := 0, wpc := WRelease\<rparr>)"
  using inv k by (cases "rpc s"; simp add: xdefs w total_Suc split: if_splits)

lemma writer_release_inv:
  assumes inv: "xfr_inv bs k s" and w: "wpc s = WRelease" and p: "\<not> removed s"
  shows "xfr_inv bs k (s\<lparr>semv := (semv s)(READ_SEM := semv s READ_SEM + 1), wpc := WTest\<rparr>)"
  using inv p by (cases "rpc s"; cases "shm_cnt s = 0"; simp add: xdefs w split: if_splits)

lemma writer_test_inv:
  assumes inv: "xfr_inv bs k s" and w: "wpc s = WTest"
  shows "xfr_inv bs k (s\<lparr>wpc := (if shm_cnt s = 0 then WLast else WCount)\<rparr>)"
  using inv by (cases "rpc s"; cases "shm_cnt s = 0"; cases "full s"; simp add: fdefs w)

lemma writer_count_inv:
  assumes inv: "xfr_inv bs k s" and w: "wpc s = WCount"
  shows "xfr_inv bs k (s\<lparr>w_xfrs := w_xfrs s + 1, w_bytes := w_bytes s + shm_cnt s, wpc := WReserve\<rparr>)"
proof -
  from inv w have k: "0 < k" "k \<le> length bs" "shm_cnt s \<noteq> 0"
    by (simp_all add: xfr_inv_def writer_ok_def split: if_splits)
  then have "total bs k = total bs (k - 1) + int (length (bs ! (k - 1)))"
    using total_Suc [of "k - 1" bs] by simp
  with inv k show ?thesis
    by (cases "rpc s"; cases "full s"; simp add: fdefs w)
qed

lemma writer_last_inv:
  assumes inv: "xfr_inv bs k s" and w: "wpc s = WLast" and p: "semv s WRITE_SEM > 0"
  shows "xfr_inv bs k (s\<lparr>semv := (semv s)(WRITE_SEM := semv s WRITE_SEM - 1), wpc := WRemove\<rparr>)"
  using inv p by (cases "rpc s"; simp add: xdefs w split: if_splits)

lemma writer_remove_inv:
  assumes inv: "xfr_inv bs k s" and w: "wpc s = WRemove"
  shows "xfr_inv bs k (s\<lparr>removed := True, wpc := WDone\<rparr>)"
  using inv by (cases "rpc s"; simp add: xdefs w split: if_splits)

text \<open>The reader's transitions.\<close>

lemma reader_holds:
  assumes "xfr_inv bs k s" "rpc s \<in> {RTest, RWrite, RRelease, RLast}"
  shows "semv s 1 = 0" "semv s 0 = 0" "wpc s \<notin> {WRead, WRelease, WRemove, WDone}"
proof -
  from assms have t: "0 \<le> semv s WRITE_SEM" "0 \<le> semv s READ_SEM"
    "semv s WRITE_SEM + semv s READ_SEM + (if wpc s \<in> {WRead, WRelease, WRemove, WDone} then 1 else 0) = 0"
    unfolding xfr_inv_def token_def by simp_all
  show "wpc s \<notin> {WRead, WRelease, WRemove, WDone}"
  proof
    assume "wpc s \<in> {WRead, WRelease, WRemove, WDone}"
    with t(3) have "semv s WRITE_SEM + semv s READ_SEM + 1 = 0" by (simp only: if_True)
    with t(1,2) show False by linarith
  qed
  with t have "semv s WRITE_SEM + semv s READ_SEM = 0" by (simp only: if_False add_0_right)
  with t(1,2) show "semv s 1 = 0" "semv s 0 = 0" by (simp_all add: WRITE_SEM_def READ_SEM_def)
qed

lemma reader_reserve_inv:
  assumes inv: "xfr_inv bs k s" and r: "rpc s = RReserve" and p: "semv s READ_SEM > 0"
  shows "xfr_inv bs k (s\<lparr>semv := (semv s)(READ_SEM := semv s READ_SEM - 1), rpc := RTest\<rparr>)"
proof -
  from inv p r have "semv s 1 = 1" "semv s 0 = 0" "wpc s \<notin> {WRead, WRelease, WRemove, WDone}"
    by (cases "wpc s"; simp add: xfr_inv_def token_def WRITE_SEM_def READ_SEM_def)+
  with inv r show ?thesis
    by (cases "wpc s"; cases "shm_cnt s = 0"; simp add: xdefs)
qed

lemma reader_eof_inv:
  assumes inv: "xfr_inv bs k s" and r: "rpc s = RTest" and c: "shm_cnt s = 0"
  shows "xfr_inv bs k (s\<lparr>rpc := RLast\<rparr>)"
proof -
  from inv r have "semv s 1 = 0" "semv s 0 = 0" "wpc s \<notin> {WRead, WRelease, WRemove, WDone}"
    using reader_holds [OF inv] by simp_all
  with inv r c show ?thesis
    by (cases "wpc s"; simp add: xdefs)
qed

lemma reader_count_inv:
  assumes inv: "xfr_inv bs k s" and r: "rpc s = RTest" and c: "shm_cnt s \<noteq> 0"
  shows "xfr_inv bs k (s\<lparr>r_bytes := r_bytes s + shm_cnt s, rpc := RWrite\<rparr>)"
proof -
  from inv r c have k: "0 < k" "k \<le> length bs" by (simp_all add: xfr_inv_def reader_ok_def full_def)
  then have "total bs k = total bs (k - 1) + int (length (bs ! (k - 1)))"
    using total_Suc [of "k - 1" bs] by simp
  with inv k r c show ?thesis
    by (cases "wpc s"; simp add: xdefs)
qed

lemma reader_write_inv:
  assumes inv: "xfr_inv bs k s" and r: "rpc s = RWrite"
  shows "xfr_inv bs k (s\<lparr>xout := xout s @ take (nat (shm_cnt s)) (shm_buf s), rpc := RRelease\<rparr>)"
proof -
  from inv r have k: "0 < k" "k \<le> length bs" "shm_cnt s \<noteq> 0"
    by (cases "shm_cnt s = 0"; simp add: xfr_inv_def reader_ok_def full_def)+
  then have t: "take k bs = take (k - 1) bs @ [bs ! (k - 1)]"
    using take_Suc_conv_app_nth [of "k - 1" bs] by simp
  from inv r have "semv s 1 = 0" "semv s 0 = 0" "wpc s \<notin> {WRead, WRelease, WRemove, WDone}"
    using reader_holds [OF inv] by simp_all
  with inv k r t show ?thesis
    by (cases "wpc s"; simp add: xdefs)
qed

lemma reader_release_inv:
  assumes inv: "xfr_inv bs k s" and r: "rpc s = RRelease"
  shows "xfr_inv bs k (s\<lparr>semv := (semv s)(WRITE_SEM := semv s WRITE_SEM + 1), r_xfrs := r_xfrs s + 1, rpc := RReserve\<rparr>)"
proof -
  from inv r have "semv s 1 = 0" "semv s 0 = 0" "wpc s \<notin> {WRead, WRelease, WRemove, WDone}"
    using reader_holds [OF inv] by simp_all
  with inv r show ?thesis
    by (cases "wpc s"; simp add: xdefs)
qed

lemma reader_last_inv:
  assumes inv: "xfr_inv bs k s" and r: "rpc s = RLast"
  shows "xfr_inv bs k (s\<lparr>semv := (semv s)(WRITE_SEM := semv s WRITE_SEM + 1), rpc := RReport\<rparr>)"
proof -
  from inv r have "semv s 1 = 0" "semv s 0 = 0" "wpc s \<notin> {WRead, WRelease, WRemove, WDone}"
    using reader_holds [OF inv] by simp_all
  with inv r show ?thesis
    by (cases "wpc s"; simp add: xdefs)
qed

lemma reader_report_inv:
  assumes inv: "xfr_inv bs k s" and r: "rpc s = RReport"
  shows "xfr_inv bs k (s\<lparr>rpc := RDone\<rparr>)"
  using inv r by (cases "wpc s"; simp add: xdefs)

lemma not_removed: "xfr_inv bs k s \<Longrightarrow> wpc s \<noteq> WDone \<Longrightarrow> \<not> removed s"
  by (simp add: xfr_inv_def writer_ok_def)

lemma reserveE:
  assumes "map_option f (reserve n s) = Some s'"
  obtains "semv s n > 0" "s' = f (s\<lparr>semv := (semv s)(n := semv s n - 1)\<rparr>)"
  using assms by (auto simp: reserve_def split: if_splits)

lemma writer_keeps:
  assumes inv: "xfr_inv bs k s" and bs: "blocks_ok bs" and st: "wstep s = Some s'"
  shows "\<exists>k'. xfr_inv bs k' s'"
proof (cases "wpc s")
  case WReserve
  with st not_removed [OF inv] have "map_option (\<lambda>s. s\<lparr>wpc := WRead\<rparr>) (reserve WRITE_SEM s) = Some s'"
    by (simp add: wstep_def)
  with writer_reserve_inv [OF inv WReserve] show ?thesis by (elim reserveE) auto
next
  case WRead
  show ?thesis
  proof (cases "k < length bs")
    case True
    have ne: "bs ! k \<noteq> []" using bs True by (auto simp: blocks_ok_def list_all_iff)
    have "xin s = Some (bs ! k) # map Some (drop (Suc k) bs)"
      using inv True by (simp add: xfr_inv_def Cons_nth_drop_Suc [symmetric])
    with st WRead writer_block_inv [OF inv WRead True ne] show ?thesis
      by (auto simp: wstep_def shm_read_def Let_def)
  next
    case False
    with inv have k: "k = length bs" "xin s = []" by (simp_all add: xfr_inv_def)
    with st WRead writer_eof_inv [OF inv WRead k(1)] show ?thesis
      by (auto simp: wstep_def shm_read_def Let_def)
  qed
next
  case WLast
  with st not_removed [OF inv] have "map_option (\<lambda>s. s\<lparr>wpc := WRemove\<rparr>) (reserve WRITE_SEM s) = Some s'"
    by (simp add: wstep_def)
  with writer_last_inv [OF inv WLast] show ?thesis by (elim reserveE) auto
next
  case WRelease
  with st not_removed [OF inv] writer_release_inv [OF inv WRelease] show ?thesis
    by (auto simp: wstep_def release_def)
next
  case WTest
  with st writer_test_inv [OF inv WTest] show ?thesis by (auto simp: wstep_def)
next
  case WCount
  with st writer_count_inv [OF inv WCount] show ?thesis by (auto simp: wstep_def)
next
  case WRemove
  with st writer_remove_inv [OF inv WRemove] show ?thesis by (auto simp: wstep_def)
qed (use st in \<open>simp_all add: wstep_def\<close>)

lemma reader_keeps:
  assumes inv: "xfr_inv bs k s" and wr: "\<forall>d. wr d = int (length d)" and st: "rstep wr s = Some s'"
  shows "xfr_inv bs k s'"
proof (cases "rpc s")
  case RReserve
  have "wpc s \<noteq> WDone" using inv RReserve by (auto simp: xfr_inv_def reader_ok_def)
  with RReserve st not_removed [OF inv] have "map_option (\<lambda>s. s\<lparr>rpc := RTest\<rparr>) (reserve READ_SEM s) = Some s'"
    by (simp add: rstep_def)
  with reader_reserve_inv [OF inv RReserve] show ?thesis by (elim reserveE) auto
next
  case RTest
  with st reader_eof_inv [OF inv RTest] reader_count_inv [OF inv RTest] show ?thesis
    by (auto simp: rstep_def split: if_splits)
next
  case RWrite
  have c: "shm_cnt s = int (length (bs ! (k - 1)))" "take (nat (shm_cnt s)) (shm_buf s) = bs ! (k - 1)"
    using inv RWrite by (cases "shm_cnt s = 0"; simp add: xfr_inv_def reader_ok_def full_def)+
  then have "wr (take (nat (shm_cnt s)) (shm_buf s)) = shm_cnt s" using wr by simp
  with RWrite st have "s' = s\<lparr>xout := xout s @ take (nat (shm_cnt s)) (shm_buf s), rpc := RRelease\<rparr>"
    by (simp add: rstep_def Let_def)
  with reader_write_inv [OF inv RWrite] show ?thesis by simp
next
  case RRelease
  with reader_holds(3) [OF inv] st not_removed [OF inv] reader_release_inv [OF inv RRelease] show ?thesis
    by (auto simp: rstep_def release_def)
next
  case RLast
  with reader_holds(3) [OF inv] st not_removed [OF inv] reader_last_inv [OF inv RLast] show ?thesis
    by (auto simp: rstep_def release_def)
next
  case RReport
  with st reader_report_inv [OF inv RReport] show ?thesis by (auto simp: rstep_def)
qed (use st in \<open>simp_all add: rstep_def\<close>)

lemma xstep_keeps:
  "xfr_inv bs k s \<Longrightarrow> blocks_ok bs \<Longrightarrow> \<forall>d. wr d = int (length d) \<Longrightarrow> xstep wr s s' \<Longrightarrow> \<exists>k'. xfr_inv bs k' s'"
  by (erule xstepE) (blast dest: writer_keeps reader_keeps)+

section \<open>Progress\<close>

lemma xfr_nofail:
  assumes "xfr_inv bs k s"
  shows "wpc s \<noteq> WFail" "rpc s \<noteq> RFail"
proof -
  from assms have w: "writer_ok bs k s" and r: "reader_ok bs k s" by (simp_all add: xfr_inv_def)
  show "wpc s \<noteq> WFail"
  proof
    assume "wpc s = WFail"
    with w show False unfolding writer_ok_def by (simp only: wpc.case simp_thms)
  qed
  from r show "rpc s \<noteq> RFail" unfolding reader_ok_def by (elim conjE)
qed

lemma xfr_out:
  assumes "xfr_inv bs k s"
  shows "\<exists>j. xout s = concat (take j bs)"
proof -
  from assms have "reader_ok bs k s" by (simp add: xfr_inv_def)
  then have "if full s \<and> shm_cnt s \<noteq> 0 then xout s = concat (take (k - 1) bs)
      else if full s then xout s = concat bs else xout s = concat (take k bs)"
    unfolding reader_ok_def by (elim conjE) (cases "full s"; cases "shm_cnt s = 0"; simp only: simp_thms if_True if_False)
  moreover have "concat bs = concat (take (length bs) bs)" by simp
  ultimately show ?thesis by (metis (full_types))
qed

lemma xfr_endgame:
  assumes "xfr_inv bs k s"
  shows "rpc s = RDone \<Longrightarrow> semv s READ_SEM = 0 \<and> wpc s \<in> {WTest, WLast, WRemove, WDone}"
    and "wpc s = WDone \<Longrightarrow> rpc s \<in> {RReport, RDone}"
proof -
  from assms have r: "reader_ok bs k s" by (simp add: xfr_inv_def)
  then show "rpc s = RDone \<Longrightarrow> semv s READ_SEM = 0 \<and> wpc s \<in> {WTest, WLast, WRemove, WDone}"
    unfolding reader_ok_def by (simp only: insert_iff simp_thms)
  from r show "wpc s = WDone \<Longrightarrow> rpc s \<in> {RReport, RDone}"
    unfolding reader_ok_def by (simp only: insert_iff simp_thms)
qed

lemma xfr_progress:
  assumes inv: "xfr_inv bs k s" and "\<not> (wpc s = WDone \<and> rpc s = RDone)"
  shows "\<exists>s'. xstep wr s s'"
proof -
  have token: "semv s WRITE_SEM + semv s READ_SEM = 1"
    if "wpc s \<in> {WReserve, WLast}" "rpc s \<in> {RReserve, RDone}"
    using inv that by (auto simp: xfr_inv_def token_def)
  note fin = xfr_endgame(1) [OF inv] and last = xfr_endgame(2) [OF inv] and nofail = xfr_nofail [OF inv]
  show ?thesis
  proof (cases "wpc s \<in> {WReserve, WLast, WDone} \<and> rpc s \<in> {RReserve, RDone}")
    case False
    with nofail have "(\<exists>s'. wstep s = Some s') \<or> (\<exists>s'. rstep wr s = Some s')"
      by (cases "wpc s"; cases "rpc s"; simp add: wstep_def rstep_def Let_def)
    then show ?thesis by (auto intro: xstep.intros)
  next
    case True
    then have w: "wpc s \<in> {WReserve, WLast}" using last assms(2) by auto
    show ?thesis
    proof (cases "semv s WRITE_SEM > 0")
      case True
      with w have "\<exists>s'. wstep s = Some s'" by (auto simp: wstep_def reserve_def)
      then show ?thesis by (auto intro: xstep.intros)
    next
      case False
      with token w True have "semv s READ_SEM > 0" by auto
      with fin True w have "rpc s = RReserve" by auto
      with \<open>semv s READ_SEM > 0\<close> have "\<exists>s'. rstep wr s = Some s'" by (auto simp: rstep_def reserve_def)
      then show ?thesis by (auto intro: xstep.intros)
    qed
  qed
qed

definition w_left :: "xfr \<Rightarrow> nat" where
  "w_left s =
     (let n = 5 * length (xin s) in
      case wpc s of
        WReserve \<Rightarrow> n + 6 | WRead \<Rightarrow> n + 5
      | WRelease \<Rightarrow> if shm_cnt s = 0 then 4 else n + 9
      | WTest \<Rightarrow> if shm_cnt s = 0 then 3 else n + 8
      | WCount \<Rightarrow> n + 7 | WLast \<Rightarrow> 2 | WRemove \<Rightarrow> 1 | _ \<Rightarrow> 0)"

definition r_left :: "nat \<Rightarrow> xfr \<Rightarrow> nat" where
  "r_left N s =
     (let n = 4 * (N - nat (r_xfrs s)) in
      case rpc s of
        RReserve \<Rightarrow> n + 4 | RTest \<Rightarrow> n + 3 | RWrite \<Rightarrow> n + 2 | RRelease \<Rightarrow> n + 1
      | RLast \<Rightarrow> 2 | RReport \<Rightarrow> 1 | _ \<Rightarrow> 0)"

lemma left_frame [simp]:
  "w_left (s\<lparr>rpc := r\<rparr>) = w_left s" "w_left (s\<lparr>semv := v\<rparr>) = w_left s" "w_left (s\<lparr>r_xfrs := x\<rparr>) = w_left s"
  "w_left (s\<lparr>r_bytes := x\<rparr>) = w_left s" "w_left (s\<lparr>xout := y\<rparr>) = w_left s"
  by (cases "wpc s"; simp add: w_left_def)+

lemma wstep_left:
  assumes "wstep s = Some s'"
  shows "w_left s' < w_left s \<and> r_left N s' = r_left N s"
proof -
  have "rpc s' = rpc s \<and> r_xfrs s' = r_xfrs s"
    using assms
    by (cases "wpc s") (auto simp: wstep_def shm_read_def reserve_def release_def Let_def
        split: if_splits list.splits option.splits)
  then have "r_left N s' = r_left N s" by (simp add: r_left_def)
  moreover have "w_left s' < w_left s"
    using assms
    by (cases "wpc s") (auto simp: wstep_def w_left_def shm_read_def reserve_def release_def Let_def
        split: if_splits list.splits option.splits)
  ultimately show ?thesis by simp
qed

lemma rstep_left:
  assumes inv: "xfr_inv bs k s" and st: "rstep wr s = Some s'"
  shows "r_left (length bs) s' < r_left (length bs) s \<and> w_left s' = w_left s"
proof (cases "rpc s = RRelease")
  case True
  with reader_holds [OF inv] have "\<not> full s" by (auto simp: full_def READ_SEM_def)
  with inv True have "r_xfrs s = int k - 1" "0 < k" "k \<le> length bs"
    by (simp_all add: xfr_inv_def reader_ok_def)
  then have "nat (r_xfrs s) < length bs" "nat (r_xfrs s + 1) = Suc (nat (r_xfrs s))" by simp_all
  with True st show ?thesis
    by (auto simp: rstep_def r_left_def release_def Let_def split: if_splits)
next
  case False
  with st show ?thesis
    by (cases "rpc s")
      (auto simp: rstep_def r_left_def reserve_def release_def Let_def split: if_splits)
qed

lemma xfr_run:
  assumes "blocks_ok bs" "\<forall>d. wr d = int (length d)" "(xstep wr ^^ n) (xfr_init (map Some bs) mem) s"
  shows "\<exists>k. xfr_inv bs k s \<and> n + w_left s + r_left (length bs) s \<le> 9 * length bs + 10"
  using assms(3)
proof (induction n arbitrary: s)
  case 0
  have "w_left (xfr_init (map Some bs) mem) + r_left (length bs) (xfr_init (map Some bs) mem) = 9 * length bs + 10"
    by (simp add: w_left_def r_left_def xfr_init_def Let_def)
  with 0 xfr_inv_init [of bs mem] show ?case by auto
next
  case (Suc n)
  then obtain t where t: "(xstep wr ^^ n) (xfr_init (map Some bs) mem) t" "xstep wr t s" by auto
  with Suc.IH obtain k where k: "xfr_inv bs k t" "n + w_left t + r_left (length bs) t \<le> 9 * length bs + 10" by blast
  from t(2) have "w_left s + r_left (length bs) s < w_left t + r_left (length bs) t"
    by (elim xstepE) (use wstep_left rstep_left [OF k(1)] in fastforce)+
  with k(2) xstep_keeps [OF k(1) assms(1,2) t(2)] show ?case by auto
qed

section \<open>Properties\<close>



text \<open>
  In no reachable state do both processes use the buffer, neither process has failed
  (no operation on a removed semaphore set, no short write), and the output is a prefix of
  the input.
\<close>

theorem shm_transfer_safe:
  assumes "blocks_ok bs" and "\<forall>d. wr d = int (length d)" and "(xstep wr)\<^sup>*\<^sup>* (xfr_init (map Some bs) mem) s"
  shows "\<not> (wpc s \<in> {WRead, WRelease} \<and> rpc s \<in> {RTest, RWrite, RRelease}) \<and>
    wpc s \<noteq> WFail \<and> rpc s \<noteq> RFail \<and> (\<exists>rest. concat bs = xout s @ rest)"
proof -
  from assms(3) obtain n where "(xstep wr ^^ n) (xfr_init (map Some bs) mem) s"
    by (auto simp: rtranclp_is_Sup_relpowp)
  from xfr_run [OF assms(1,2) this] obtain k where inv: "xfr_inv bs k s" by blast
  have pre: "\<exists>rest. concat bs = concat (take j bs) @ rest" for j
    by (metis append_take_drop_id concat_append)
  with xfr_out [OF inv] have "\<exists>rest. concat bs = xout s @ rest" by metis
  with writer_holds(3) [OF inv] xfr_nofail [OF inv] show ?thesis by auto
qed

theorem shm_transfer_safe_witness:
  "wpc (xfr_init (map Some [''ab'', ''c'']) []) \<noteq> WFail"
proof -
  have "blocks_ok [''ab'', ''c'']" by (simp add: blocks_ok_def BUF_SIZE_def)
  from shm_transfer_safe [OF this, of "\<lambda>d. int (length d)" "[]" "xfr_init (map Some [''ab'', ''c'']) []"]
  show ?thesis by simp
qed

end
