(* ===== verification/Acl_Spec.thy ===== *)
theory Acl_Spec
  imports Prelude
begin

text \<open>
  The textual ACLs of \<open>src/tlpi-book/acl/acl_update.c\<close> (\<open>parseEntrySpec\<close>, \<open>parseACL\<close>) and the
  functions of \<open>src/tlpi-book/users_groups/ugid_functions.c\<close> it uses for names of users and
  groups.  The password and group files are parameters: partial functions from names to
  ids and back.  Diagnostics are error values.
\<close>

section \<open>Users and groups\<close>

type_synonym id = "32 word"

text \<open>The value -1 of the unsigned type \<open>uid_t\<close>, which signals an error.\<close>

definition bad_id :: id where "bad_id = - 1"

definition userNameFromId :: "(id \<Rightarrow> string option) \<Rightarrow> id \<Rightarrow> string option" where
  "userNameFromId getpwuid uid = getpwuid uid"

definition userIdFromName :: "(string \<Rightarrow> id option) \<Rightarrow> string option \<Rightarrow> id" where
  "userIdFromName getpwnam name =
     (case name of
        None \<Rightarrow> bad_id
      | Some n \<Rightarrow>
          if n = [] then bad_id
          else (let (u, endptr, _) = strtol n 10 in
                if endptr = [] then word_of_int u
                else (case getpwnam n of None \<Rightarrow> bad_id | Some uid \<Rightarrow> uid)))"

definition groupNameFromId :: "(id \<Rightarrow> string option) \<Rightarrow> id \<Rightarrow> string option" where
  "groupNameFromId getgrgid gid = getgrgid gid"

definition groupIdFromName :: "(string \<Rightarrow> id option) \<Rightarrow> string option \<Rightarrow> id" where
  "groupIdFromName getgrnam name =
     (case name of
        None \<Rightarrow> bad_id
      | Some n \<Rightarrow>
          if n = [] then bad_id
          else (let (g, endptr, _) = strtol n 10 in
                if endptr = [] then word_of_int g
                else (case getgrnam n of None \<Rightarrow> bad_id | Some gid \<Rightarrow> gid)))"

section \<open>Entries\<close>

datatype tag = ACL_USER_OBJ | ACL_USER | ACL_GROUP_OBJ | ACL_GROUP | ACL_MASK | ACL_OTHER | ACL_UNDEFINED_TAG

definition ACL_READ :: "32 word" where "ACL_READ = 4"
definition ACL_WRITE :: "32 word" where "ACL_WRITE = 2"
definition ACL_EXECUTE :: "32 word" where "ACL_EXECUTE = 1"
definition MAX_ENTRIES :: nat where "MAX_ENTRIES = 10000"

record AccessControlEntry =
  tag :: tag
  qual :: id
  perms :: "32 word option"   \<comment> \<open>\<open>None\<close>: not set\<close>

datatype spec_error = MissingColon string | PermsNotAllowed | PermsRequired | BadTag string
  | BadUser string | BadGroup string | BadPermChar char | TooManyEntries

fun parse_perms :: "32 word \<Rightarrow> string \<Rightarrow> spec_error + 32 word" where
  "parse_perms acc [] = Inr acc"
| "parse_perms acc (c # cs) =
     (if c = CHR ''r'' then parse_perms (acc OR ACL_READ) cs
      else if c = CHR ''w'' then parse_perms (acc OR ACL_WRITE) cs
      else if c = CHR ''x'' then parse_perms (acc OR ACL_EXECUTE) cs
      else if c \<noteq> CHR ''-'' then Inl (BadPermChar c)
      else parse_perms acc cs)"

definition tag_of :: "string \<Rightarrow> bool \<Rightarrow> tag option" where
  "tag_of s hasQual =
     (if s = ''u'' \<or> s = ''user'' then Some (if hasQual then ACL_USER else ACL_USER_OBJ)
      else if s = ''g'' \<or> s = ''group'' then Some (if hasQual then ACL_GROUP else ACL_GROUP_OBJ)
      else if s = ''o'' \<or> s = ''other'' then Some ACL_OTHER
      else if s = ''m'' \<or> s = ''mask'' then Some ACL_MASK
      else None)"

text \<open>\<open>pw\<close> and \<open>gr\<close> look up names of users and groups.\<close>

definition find_qual ::
    "(string \<Rightarrow> id option) \<Rightarrow> (string \<Rightarrow> id option) \<Rightarrow> tag \<Rightarrow> string \<Rightarrow> spec_error + id" where
  "find_qual pw gr t q =
     (if t = ACL_USER then
        (let u = userIdFromName pw (Some q) in if u = bad_id then Inl (BadUser q) else Inr u)
      else if t = ACL_GROUP then
        (let g = groupIdFromName gr (Some q) in if g = bad_id then Inl (BadGroup q) else Inr g)
      else Inr 0)"

definition parseEntrySpec ::
    "(string \<Rightarrow> id option) \<Rightarrow> (string \<Rightarrow> id option) \<Rightarrow> string \<Rightarrow> bool \<Rightarrow> spec_error + AccessControlEntry" where
  "parseEntrySpec pw gr entryStr permsReqd =
     (case strchr entryStr (CHR '':'') of
        None \<Rightarrow> Inl (MissingColon entryStr)
      | Some colon1 \<Rightarrow>
          (let tagStr = before entryStr (CHR '':'');
               rest = tl colon1;
               hasQual = (rest \<noteq> [] \<and> hd rest \<noteq> CHR '':'');
               colon2 = strchr rest (CHR '':'');
               hasPerms = (case colon2 of None \<Rightarrow> False | Some c \<Rightarrow> tl c \<noteq> [])
           in if hasPerms \<and> \<not> permsReqd then Inl PermsNotAllowed
              else if \<not> hasPerms \<and> permsReqd then Inl PermsRequired
              else
                (case tag_of tagStr hasQual of
                   None \<Rightarrow> Inl (BadTag tagStr)
                 | Some t \<Rightarrow>
                     (case find_qual pw gr t (before rest (CHR '':'')) of
                        Inl e \<Rightarrow> Inl e
                      | Inr q \<Rightarrow>
                          if hasPerms then
                            (case parse_perms 0 (tl (the colon2)) of
                               Inl e \<Rightarrow> Inl e
                             | Inr p \<Rightarrow> Inr \<lparr>tag = t, qual = q, perms = Some p\<rparr>)
                          else Inr \<lparr>tag = t, qual = q, perms = None\<rparr>))))"

function parseACL_loop ::
    "(string \<Rightarrow> id option) \<Rightarrow> (string \<Rightarrow> id option) \<Rightarrow> nat \<Rightarrow> string \<Rightarrow> bool \<Rightarrow>
     spec_error + AccessControlEntry list" where
  "parseACL_loop pw gr n nextEntry permsReqd =
     (if n \<ge> MAX_ENTRIES then Inl TooManyEntries
      else
        (case parseEntrySpec pw gr (before nextEntry (CHR '','')) permsReqd of
           Inl e \<Rightarrow> Inl e
         | Inr ace \<Rightarrow>
             (case strchr nextEntry (CHR '','') of
                None \<Rightarrow> Inr [ace]
              | Some comma \<Rightarrow>
                  (case parseACL_loop pw gr (Suc n) (tl comma) permsReqd of
                     Inl e \<Rightarrow> Inl e
                   | Inr aces \<Rightarrow> Inr (ace # aces)))))"
  by auto
termination
proof (relation "measure (\<lambda>(pw, gr, n, s, b). length s)")
  fix s :: string and c
  assume "strchr s (CHR '','') = Some c"
  then have "\<exists>r'. s = before s (CHR '','') @ CHR '','' # r' \<and> c = CHR '','' # r'" by (rule strchr_Some_split)
  then obtain a r' where "s = a @ CHR '','' # r'" "c = CHR '','' # r'" by blast
  then show "((pw, gr, Suc n, tl c, b), pw, gr, n, s, b) \<in> measure (\<lambda>(pw, gr, n, s, b). length s)" for pw gr n b
    by simp
qed simp

declare parseACL_loop.simps [simp del]

definition parseACL ::
    "(string \<Rightarrow> id option) \<Rightarrow> (string \<Rightarrow> id option) \<Rightarrow> string \<Rightarrow> bool \<Rightarrow> spec_error + AccessControlEntry list" where
  "parseACL pw gr aclStr permsReqd = parseACL_loop pw gr 0 aclStr permsReqd"

section \<open>Printing\<close>

text \<open>Entries in the long form that \<open>getfacl\<close> prints, with numeric qualifiers.\<close>

definition show_perms :: "32 word \<Rightarrow> string" where
  "show_perms p =
     [if p AND ACL_READ \<noteq> 0 then CHR ''r'' else CHR ''-'', if p AND ACL_WRITE \<noteq> 0 then CHR ''w'' else CHR ''-'',
      if p AND ACL_EXECUTE \<noteq> 0 then CHR ''x'' else CHR ''-'']"

fun show_tag :: "tag \<Rightarrow> id \<Rightarrow> string" where
  "show_tag ACL_USER_OBJ q = ''user:''"
| "show_tag ACL_USER q = ''user:'' @ show_nat (unat q)"
| "show_tag ACL_GROUP_OBJ q = ''group:''"
| "show_tag ACL_GROUP q = ''group:'' @ show_nat (unat q)"
| "show_tag ACL_MASK q = ''mask:''"
| "show_tag ACL_OTHER q = ''other:''"
| "show_tag ACL_UNDEFINED_TAG q = []"

definition show_entry :: "AccessControlEntry \<Rightarrow> string" where
  "show_entry a = show_tag (tag a) (qual a) @ (case perms a of None \<Rightarrow> [] | Some p \<Rightarrow> CHR '':'' # show_perms p)"

fun show_acl :: "AccessControlEntry list \<Rightarrow> string" where
  "show_acl [] = []"
| "show_acl [a] = show_entry a"
| "show_acl (a # b # as) = show_entry a @ '','' @ show_acl (b # as)"

definition entry_ok :: "bool \<Rightarrow> AccessControlEntry \<Rightarrow> bool" where
  "entry_ok permsReqd a \<longleftrightarrow>
     tag a \<noteq> ACL_UNDEFINED_TAG \<and>
     (if tag a \<in> {ACL_USER, ACL_GROUP} then qual a \<noteq> bad_id else qual a = 0) \<and>
     (case perms a of None \<Rightarrow> \<not> permsReqd | Some p \<Rightarrow> permsReqd \<and> p \<le> 7)"

lemma word7_cases: "(p :: 32 word) \<le> 7 \<Longrightarrow> p \<in> {0, 1, 2, 3, 4, 5, 6, 7}"
proof -
  assume "p \<le> 7"
  then have "unat p \<le> 7" by (simp add: word_le_nat_alt)
  then have "unat p \<in> {0, 1, 2, 3, 4, 5, 6, 7}" by auto
  then show ?thesis by (simp add: word_unat_eq_iff)
qed

lemma parse_perms_show: "p \<le> 7 \<Longrightarrow> parse_perms 0 (show_perms p) = Inr p"
  by (drule word7_cases) (auto simp: show_perms_def ACL_READ_def ACL_WRITE_def ACL_EXECUTE_def)

lemma show_perms_chars: "c \<in> set (show_perms p) \<Longrightarrow> c \<in> {CHR ''r'', CHR ''w'', CHR ''x'', CHR ''-''}"
  by (auto simp: show_perms_def split: if_splits)

lemma show_nat_no_sep: "CHR '':'' \<notin> set (show_nat n)" "CHR '','' \<notin> set (show_nat n)"
proof -
  have "\<not> is_digit_in 10 (CHR '':'')" "\<not> is_digit_in 10 (CHR '','')" by (simp_all add: is_digit_in_def digit_val_def)
  then show "CHR '':'' \<notin> set (show_nat n)" "CHR '','' \<notin> set (show_nat n)" using show_nat_digits by blast+
qed

lemma numeric_name:
  assumes "q \<noteq> bad_id"
  shows "userIdFromName pw (Some (show_nat (unat q))) = q" "groupIdFromName gr (Some (show_nat (unat q))) = q"
proof -
  have "int (unat q) \<le> LONG_MAX"
    using uint_lt2p [of q] by (simp add: LONG_MAX_def)
  then have "strtol (show_nat (unat q)) 10 = (int (unat q), [], False)"
    using strtol_show_int [of "int (unat q)" "[]"] uint_ge_0 [of q]
    by (auto simp: show_int_def LONG_MIN_def)
  then show "userIdFromName pw (Some (show_nat (unat q))) = q" "groupIdFromName gr (Some (show_nat (unat q))) = q"
    by (simp_all add: userIdFromName_def groupIdFromName_def)
qed

lemma show_entry_no_comma: "CHR '','' \<notin> set (show_entry a)"
  using show_perms_chars [of "CHR '',''"] show_nat_no_sep(2)
  by (cases "tag a"; cases "perms a") (auto simp: show_entry_def)

text \<open>The shape of a printed entry: the name of the tag, a colon, the qualifier, and the
  permissions with their colon.\<close>

definition tag_name :: "tag \<Rightarrow> string" where
  "tag_name t = (if t \<in> {ACL_USER_OBJ, ACL_USER} then ''user'' else if t \<in> {ACL_GROUP_OBJ, ACL_GROUP} then ''group''
     else if t = ACL_MASK then ''mask'' else ''other'')"

definition qual_text :: "tag \<Rightarrow> id \<Rightarrow> string" where
  "qual_text t q = (if t \<in> {ACL_USER, ACL_GROUP} then show_nat (unat q) else [])"

lemma show_tag_shape: "t \<noteq> ACL_UNDEFINED_TAG \<Longrightarrow> show_tag t q = tag_name t @ CHR '':'' # qual_text t q"
  by (cases t) (simp_all add: tag_name_def qual_text_def)

lemma tag_name_props: "CHR '':'' \<notin> set (tag_name t)"
    "t \<noteq> ACL_UNDEFINED_TAG \<Longrightarrow> tag_of (tag_name t) (qual_text t q \<noteq> []) = Some t"
    "CHR '':'' \<notin> set (qual_text t q)"
  by (cases t; simp add: tag_name_def tag_of_def qual_text_def show_nat_no_sep)+

lemma find_qual_show:
  assumes "if t \<in> {ACL_USER, ACL_GROUP} then q \<noteq> bad_id else q = 0"
  shows "find_qual pw gr t (qual_text t q) = Inr q"
  using assms by (auto simp: find_qual_def qual_text_def numeric_name Let_def split: if_splits)

lemma parseEntrySpec_show:
  assumes "entry_ok b a"
  shows "parseEntrySpec pw gr (show_entry a) b = Inr a"
proof -
  let ?t = "tag a" and ?q = "qual a"
  let ?n = "tag_name ?t" and ?x = "qual_text ?t ?q"
  from assms have t: "?t \<noteq> ACL_UNDEFINED_TAG" and q: "if ?t \<in> {ACL_USER, ACL_GROUP} then ?q \<noteq> bad_id else ?q = 0"
    by (simp_all add: entry_ok_def)
  note tn = tag_name_props(1) tag_name_props(2) [OF t] tag_name_props(3)
  have a: "a = \<lparr>tag = ?t, qual = ?q, perms = perms a\<rparr>" by simp
  have first: "strchr (?n @ CHR '':'' # r) (CHR '':'') = Some (CHR '':'' # r)" "before (?n @ CHR '':'' # r) (CHR '':'') = ?n" for r
    using tn(1) by simp_all
  show ?thesis
  proof (cases "perms a")
    case None
    with assms have b: "\<not> b" by (simp add: entry_ok_def)
    have e: "show_entry a = ?n @ CHR '':'' # ?x" using None by (simp add: show_entry_def show_tag_shape [OF t])
    have x: "strchr ?x (CHR '':'') = None" "before ?x (CHR '':'') = ?x"
      "(?x \<noteq> [] \<and> hd ?x \<noteq> CHR '':'') = (?x \<noteq> [])"
      using tn(3) [of ?t ?q] by (simp_all, metis list.set_sel(1))
    show ?thesis
      using b None a tn(2) [of ?q] find_qual_show [OF q, of pw gr]
      by (simp add: parseEntrySpec_def e first x Let_def)
  next
    case (Some p)
    with assms have b: "b" "p \<le> 7" by (simp_all add: entry_ok_def)
    let ?r = "?x @ CHR '':'' # show_perms p"
    have e: "show_entry a = ?n @ CHR '':'' # ?r" using Some by (simp add: show_entry_def show_tag_shape [OF t])
    have x: "strchr ?r (CHR '':'') = Some (CHR '':'' # show_perms p)" "before ?r (CHR '':'') = ?x"
      using tn(3) [of ?t ?q] by simp_all
    have y: "(?r \<noteq> [] \<and> hd ?r \<noteq> CHR '':'') = (?x \<noteq> [])"
      using tn(3) [of ?t ?q] by (cases ?x) (auto simp only: append.simps list.sel list.distinct list.set insert_iff)
    have z: "show_perms p \<noteq> []" by (simp add: show_perms_def)
    show ?thesis
      using b Some a tn(2) [of ?q] find_qual_show [OF q, of pw gr] parse_perms_show [OF b(2)]
      by (simp add: parseEntrySpec_def e first x y [simplified] z Let_def)
  qed
qed

lemma parseACL_loop_show:
  "as \<noteq> [] \<Longrightarrow> \<forall>a\<in>set as. entry_ok b a \<Longrightarrow> n + length as \<le> MAX_ENTRIES \<Longrightarrow>
   parseACL_loop pw gr n (show_acl as) b = Inr as"
proof (induction as arbitrary: n rule: show_acl.induct)
  case (2 a)
  then show ?case
    by (subst parseACL_loop.simps) (simp add: show_entry_no_comma parseEntrySpec_show strchr_None [THEN iffD2])
next
  case (3 a b' as)
  then have "parseACL_loop pw gr (Suc n) (show_acl (b' # as)) b = Inr (b' # as)" by simp
  with 3 show ?case
    by (subst parseACL_loop.simps) (simp add: show_entry_no_comma parseEntrySpec_show)
qed simp

section \<open>Properties\<close>

text \<open>
  \<open>parseACL\<close> reads back every ACL of up to 10000 entries written in long form with
  numeric qualifiers: the same tags, ids and permissions in the same order, whatever the
  password and group files contain; with \<open>permsReqd\<close> off, entries without permissions.
\<close>

theorem parseACL_roundtrip:
  assumes "as \<noteq> []" and "length as \<le> MAX_ENTRIES" and "\<forall>a\<in>set as. entry_ok permsReqd a"
  shows "parseACL pw gr (show_acl as) permsReqd = Inr as"
  using parseACL_loop_show [OF assms(1,3), of 0 pw gr] assms(2) by (simp add: parseACL_def)

theorem parseACL_roundtrip_witness:
  "parseACL (\<lambda>_. None) (\<lambda>_. None) (show_acl [\<lparr>tag = ACL_USER, qual = 1000, perms = Some 5\<rparr>, \<lparr>tag = ACL_MASK, qual = 0, perms = Some 7\<rparr>]) True
     = Inr [\<lparr>tag = ACL_USER, qual = 1000, perms = Some 5\<rparr>, \<lparr>tag = ACL_MASK, qual = 0, perms = Some 7\<rparr>]"
  by (rule parseACL_roundtrip) (simp_all add: MAX_ENTRIES_def entry_ok_def bad_id_def)

end
