(* ===== verification/Getopt.thy ===== *)
theory Getopt
  imports Prelude
begin

text \<open>
  The library function \<open>getopt\<close> as the programs use it: the options found in an argument
  vector in the order in which the calls return them, each with the value of \<open>optarg\<close>, and
  the operands left at \<open>optind\<close> after the last call.  GNU \<open>getopt\<close> moves operands behind the
  options unless the option string starts with \<open>+\<close>; an unknown option or a missing argument
  is returned as \<open>?\<close> with \<open>optopt\<close> in place of the argument (a missing argument as \<open>:\<close>
  when the option string starts with \<open>:\<close>).
\<close>

definition opt_known :: "string \<Rightarrow> char \<Rightarrow> bool" where
  "opt_known ostr c \<longleftrightarrow> c \<noteq> CHR '':'' \<and> c \<in> set ostr"

definition takes_arg :: "string \<Rightarrow> char \<Rightarrow> bool" where
  "takes_arg ostr c = (case strchr ostr c of Some (_ # CHR '':'' # _) \<Rightarrow> True | _ \<Rightarrow> False)"

definition missing_arg :: "string \<Rightarrow> char" where
  "missing_arg ostr = (if ostr \<noteq> [] \<and> hd ostr = CHR '':'' then CHR '':'' else CHR ''?'')"

text \<open>\<open>getopt_run ostr cl args\<close>: \<open>cl\<close> is what is left of the current word of options.\<close>

function getopt_run :: "string \<Rightarrow> string \<Rightarrow> string list \<Rightarrow> (char \<times> string) list \<times> string list" where
  "getopt_run ostr (c # cs) args =
     (if \<not> opt_known ostr c then map_prod ((#) (CHR ''?'', [c])) id (getopt_run ostr cs args)
      else if \<not> takes_arg ostr c then map_prod ((#) (c, [])) id (getopt_run ostr cs args)
      else if cs \<noteq> [] then map_prod ((#) (c, cs)) id (getopt_run ostr [] args)
      else
        (case args of
           [] \<Rightarrow> ([(missing_arg ostr, [c])], [])
         | a # args' \<Rightarrow> map_prod ((#) (c, a)) id (getopt_run ostr [] args')))"
| "getopt_run ostr [] [] = ([], [])"
| "getopt_run ostr [] (a # args) =
     (if a = ''--'' then ([], args)
      else if a \<noteq> [] \<and> hd a = CHR ''-'' \<and> tl a \<noteq> [] then getopt_run ostr (tl a) args
      else if ostr \<noteq> [] \<and> hd ostr = CHR ''+'' then ([], a # args)
      else map_prod id ((#) a) (getopt_run ostr [] args))"
  by pat_completeness auto
termination
  by (relation "measure (\<lambda>(ostr, cl, args). length cl + (\<Sum>a\<leftarrow>args. Suc (length a)))") auto

text \<open>All calls over \<open>argv[1]\<close>, \<open>argv[2]\<close>, and so on.\<close>

definition getopt :: "string \<Rightarrow> string list \<Rightarrow> (char \<times> string) list \<times> string list" where
  "getopt ostr argv = getopt_run ostr [] (tl argv)"

text \<open>Words that are no options.\<close>

definition operand :: "string \<Rightarrow> bool" where
  "operand a \<longleftrightarrow> a = [] \<or> hd a \<noteq> CHR ''-'' \<or> a = ''-''"

lemma operand_cases: "operand a \<Longrightarrow> a \<noteq> ''--'' \<and> \<not> (a \<noteq> [] \<and> hd a = CHR ''-'' \<and> tl a \<noteq> [])"
  by (cases a) (auto simp: operand_def)

lemma getopt_operands [simp]: "\<forall>a\<in>set args. operand a \<Longrightarrow> getopt_run ostr [] args = ([], args)"
  by (induction args) (use operand_cases in auto)

lemma getopt_option [simp]:
  assumes "opt_known ostr c" and "c \<noteq> CHR ''-''"
  shows "getopt_run ostr [] ([CHR ''-'', c] # args) =
    (if takes_arg ostr c then
       (case args of [] \<Rightarrow> ([(missing_arg ostr, [c])], [])
        | a # args' \<Rightarrow> map_prod ((#) (c, a)) id (getopt_run ostr [] args'))
     else map_prod ((#) (c, [])) id (getopt_run ostr [] args))"
  using assms by simp

declare getopt_run.simps [simp del]

text \<open>The operands come from the vector, and so does every argument of an option.\<close>

lemma getopt_run_operands: "set (snd (getopt_run ostr cl args)) \<subseteq> set args"
  by (induction ostr cl args rule: getopt_run.induct)
    (auto simp: getopt_run.simps split: list.splits)

lemma getopt_run_known:
  "(c, a) \<in> set (fst (getopt_run ostr cl args)) \<Longrightarrow> opt_known ostr c \<or> c \<in> {CHR ''?'', CHR '':''}"
  by (induction ostr cl args rule: getopt_run.induct)
    (auto simp: getopt_run.simps missing_arg_def split: list.splits if_splits)

end
