(* ===== verification/Acl_Update.thy ===== *)
theory Acl_Update
  imports Acl_Spec Getopt
begin

text \<open>
  The rest of \<open>src/tlpi-book/acl/acl_update.c\<close>: searching an ACL, changing an entry, and
  \<open>main\<close>.  The ACL library (\<open>libacl\<close>) is a parameter, the record \<open>acl_ops\<close>: an ACL is a value
  of type \<open>'a\<close>, an entry handle one of type \<open>'e\<close>, the files with their ACLs one of type
  \<open>'f\<close>.  A failed call gives \<open>Inl errno\<close>.  \<open>acl_free\<close>, which only returns memory, is left
  out.  What the program relies on is the locale \<open>acl_library\<close>.
\<close>

section \<open>The library calls\<close>

record ('a, 'e, 'f) acl_ops =
  a_get_entry :: "nat \<Rightarrow> 'a \<Rightarrow> int + 'e option"    \<comment> \<open>the \<open>n\<close>-th call, \<open>None\<close> past the last entry\<close>
  a_get_tag :: "'e \<Rightarrow> 'a \<Rightarrow> int + tag"
  a_get_qual :: "'e \<Rightarrow> 'a \<Rightarrow> int + id"
  a_get_permset :: "'e \<Rightarrow> 'a \<Rightarrow> int + unit"
  a_clear_perms :: "'e \<Rightarrow> 'a \<Rightarrow> int + 'a"
  a_add_perm :: "'e \<Rightarrow> 32 word \<Rightarrow> 'a \<Rightarrow> int + 'a"
  a_set_permset :: "'e \<Rightarrow> 'a \<Rightarrow> int + 'a"
  a_delete_entry :: "'e \<Rightarrow> 'a \<Rightarrow> int + 'a"
  a_create_entry :: "'a \<Rightarrow> int + 'e \<times> 'a"
  a_set_tag :: "'e \<Rightarrow> tag \<Rightarrow> 'a \<Rightarrow> int + 'a"
  a_set_qual :: "'e \<Rightarrow> id \<Rightarrow> 'a \<Rightarrow> int + 'a"
  a_calc_mask :: "'a \<Rightarrow> int + 'a"
  a_valid :: "'a \<Rightarrow> int + unit"
  a_get_file :: "string \<Rightarrow> bool \<Rightarrow> 'f \<Rightarrow> int + 'a"
  a_set_file :: "string \<Rightarrow> bool \<Rightarrow> 'a \<Rightarrow> 'f \<Rightarrow> int + 'f"
  a_delete_def_file :: "string \<Rightarrow> 'f \<Rightarrow> int + 'f"

definition bind :: "int + 'b \<Rightarrow> ('b \<Rightarrow> int + 'c) \<Rightarrow> int + 'c" where
  "bind r k = (case r of Inl e \<Rightarrow> Inl e | Inr v \<Rightarrow> k v)"

lemma bind_simps [simp]: "bind (Inl e) k = Inl e" "bind (Inr v) k = k v"
  by (simp_all add: bind_def)

lemma bind_Inr_iff [simp]: "bind r k = Inr w \<longleftrightarrow> (\<exists>v. r = Inr v \<and> k v = Inr w)"
  by (cases r) auto

section \<open>The program\<close>

text \<open>Is the entry the one for this tag and qualifier?  The qualifier is only looked at for
  named users and groups.\<close>

definition entry_matches ::
    "('a, 'e, 'f) acl_ops \<Rightarrow> tag \<Rightarrow> id \<Rightarrow> 'e \<Rightarrow> 'a \<Rightarrow> int + bool" where
  "entry_matches L t q e acl =
     bind (a_get_tag L e acl) (\<lambda>et.
       if t = et then
         (if t = ACL_USER \<or> t = ACL_GROUP then bind (a_get_qual L e acl) (\<lambda>id. Inr (q = id)) else Inr True)
       else Inr False)"

text \<open>The loop over the entries has no bound of its own: \<open>None\<close> is a loop that does not end.\<close>

partial_function (option) find_loop ::
    "('a, 'e, 'f) acl_ops \<Rightarrow> tag \<Rightarrow> id \<Rightarrow> nat \<Rightarrow> 'a \<Rightarrow> (int + 'e option) option" where
  "find_loop L t q n acl =
     (case a_get_entry L n acl of
        Inl e \<Rightarrow> Some (Inl e)
      | Inr None \<Rightarrow> Some (Inr None)
      | Inr (Some ent) \<Rightarrow>
          (case entry_matches L t q ent acl of
             Inl e \<Rightarrow> Some (Inl e)
           | Inr b \<Rightarrow> if b then Some (Inr (Some ent)) else find_loop L t q (Suc n) acl))"

definition findEntry :: "('a, 'e, 'f) acl_ops \<Rightarrow> 'a \<Rightarrow> tag \<Rightarrow> id \<Rightarrow> (int + 'e option) option" where
  "findEntry L acl t q = find_loop L t q 0 acl"

definition add_if :: "('a, 'e, 'f) acl_ops \<Rightarrow> 'e \<Rightarrow> 32 word \<Rightarrow> 32 word \<Rightarrow> 'a \<Rightarrow> int + 'a" where
  "add_if L e ps p acl = (if ps AND p \<noteq> 0 then a_add_perm L e p acl else Inr acl)"

definition setPerms :: "('a, 'e, 'f) acl_ops \<Rightarrow> 'e \<Rightarrow> 32 word \<Rightarrow> 'a \<Rightarrow> int + 'a" where
  "setPerms L e ps acl =
     bind (a_get_permset L e acl) (\<lambda>_.
     bind (a_clear_perms L e acl) (\<lambda>acl.
     bind (add_if L e ps ACL_READ acl) (\<lambda>acl.
     bind (add_if L e ps ACL_WRITE acl) (\<lambda>acl.
     bind (add_if L e ps ACL_EXECUTE acl) (a_set_permset L e)))))"

definition create_entry :: "('a, 'e, 'f) acl_ops \<Rightarrow> AccessControlEntry \<Rightarrow> 'a \<Rightarrow> int + 'e \<times> 'a" where
  "create_entry L ace acl =
     bind (a_create_entry L acl) (\<lambda>(e, acl).
     bind (a_set_tag L e (tag ace) acl) (\<lambda>acl.
     bind (if tag ace = ACL_USER \<or> tag ace = ACL_GROUP then a_set_qual L e (qual ace) acl else Inr acl)
       (\<lambda>acl. Inr (e, acl))))"

text \<open>One entry of the command line applied to an ACL in memory.  The permissions are set
  whenever they are needed, the parser sees to that.\<close>

definition apply_entry ::
    "('a, 'e, 'f) acl_ops \<Rightarrow> bool \<Rightarrow> AccessControlEntry \<Rightarrow> 'a \<Rightarrow> (int + 'a) option" where
  "apply_entry L removeACL ace acl =
     map_option (\<lambda>r. bind r (\<lambda>entry.
        if removeACL then
          (case entry of None \<Rightarrow> Inr acl | Some e \<Rightarrow> a_delete_entry L e acl)
        else
          bind (case entry of Some e \<Rightarrow> Inr (e, acl) | None \<Rightarrow> create_entry L ace acl)
            (\<lambda>(e, acl). setPerms L e (the (perms ace)) acl)))
       (findEntry L acl (tag ace) (qual ace))"

fun apply_entries ::
    "('a, 'e, 'f) acl_ops \<Rightarrow> bool \<Rightarrow> bool \<Rightarrow> string \<Rightarrow> bool \<Rightarrow> AccessControlEntry list \<Rightarrow> 'a \<Rightarrow> 'f \<Rightarrow>
     (unit, 'f) outcome option" where
  "apply_entries L removeACL recalcMask file dflt [] acl f = Some (Ret () f)"
| "apply_entries L removeACL recalcMask file dflt (ace # aces) acl f =
     (case apply_entry L removeACL ace acl of
        None \<Rightarrow> None
      | Some r \<Rightarrow>
          (case bind r (\<lambda>acl. bind (if recalcMask then a_calc_mask L acl else Inr acl)
                  (\<lambda>acl. bind (a_valid L acl)
                     (\<lambda>_. bind (a_set_file L file dflt acl f) (\<lambda>f. Inr (acl, f))))) of
             Inl e \<Rightarrow> Some (Exited 1 f)
           | Inr (acl, f) \<Rightarrow> apply_entries L removeACL recalcMask file dflt aces acl f))"

datatype mode = Modify | Remove | RemoveDefault

fun process_files ::
    "('a, 'e, 'f) acl_ops \<Rightarrow> mode \<Rightarrow> bool \<Rightarrow> bool \<Rightarrow> AccessControlEntry list \<Rightarrow> string list \<Rightarrow> 'f \<Rightarrow>
     (unit, 'f) outcome option" where
  "process_files L m recalcMask dflt aces [] f = Some (Exited 0 f)"
| "process_files L m recalcMask dflt aces (file # files) f =
     (if m = RemoveDefault then
        (case a_delete_def_file L file f of
           Inl e \<Rightarrow> Some (Exited 1 f)
         | Inr f \<Rightarrow> process_files L m recalcMask dflt aces files f)
      else
        (case a_get_file L file dflt f of
           Inl e \<Rightarrow> Some (Exited 1 f)
         | Inr acl \<Rightarrow>
             (case apply_entries L (m = Remove) recalcMask file dflt aces acl f of
                Some (Ret _ f) \<Rightarrow> process_files L m recalcMask dflt aces files f
              | other \<Rightarrow> other)))"

text \<open>\<open>usageError\<close> and \<open>fatal\<close> end the program with status 1, as \<open>errExit\<close> does.\<close>

record acl_opts =
  o_modify :: bool
  o_remove :: bool
  o_remove_default :: bool
  o_check :: bool
  o_default :: bool
  o_recalc :: bool
  o_spec :: string
  o_cnt :: nat

definition no_opts :: acl_opts where
  "no_opts = \<lparr>o_modify = False, o_remove = False, o_remove_default = False, o_check = False,
     o_default = False, o_recalc = True, o_spec = [], o_cnt = 0\<rparr>"

fun read_opts :: "(char \<times> string) list \<Rightarrow> acl_opts \<Rightarrow> acl_opts option" where
  "read_opts [] s = Some s"
| "read_opts ((c, arg) # os) s =
     (if c = CHR ''m'' then read_opts os (s\<lparr>o_modify := True, o_spec := arg, o_cnt := o_cnt s + 1\<rparr>)
      else if c = CHR ''x'' then read_opts os (s\<lparr>o_remove := True, o_spec := arg, o_cnt := o_cnt s + 1\<rparr>)
      else if c = CHR ''k'' then read_opts os (s\<lparr>o_remove_default := True, o_cnt := o_cnt s + 1\<rparr>)
      else if c = CHR ''V'' then read_opts os (s\<lparr>o_check := True, o_spec := arg, o_cnt := o_cnt s + 1\<rparr>)
      else if c = CHR ''d'' then read_opts os (s\<lparr>o_default := True\<rparr>)
      else if c = CHR ''n'' then read_opts os (s\<lparr>o_recalc := False\<rparr>)
      else None)"

definition acl_main ::
    "('a, 'e, 'f) acl_ops \<Rightarrow> (string \<Rightarrow> id option) \<Rightarrow> (string \<Rightarrow> id option) \<Rightarrow> string list \<Rightarrow>
     'f \<Rightarrow> (unit, 'f) outcome option" where
  "acl_main L pw gr argv f =
     (if length argv < 2 \<or> argv ! 1 = ''--help'' then Some (Exited 1 f)
      else
        (case getopt ''m:x:kdnV:'' argv of (opts, files) \<Rightarrow>
          (case read_opts opts no_opts of
             None \<Rightarrow> Some (Exited 1 f)
           | Some o' \<Rightarrow>
               if o_cnt o' \<noteq> 1 \<or> o_check o' \<and> o_default o' then Some (Exited 1 f)
               else if o_check o' then
                 (case parseACL pw gr (o_spec o') True of
                    Inl _ \<Rightarrow> Some (Exited 1 f) | Inr _ \<Rightarrow> Some (Exited 0 f))
               else if o_modify o' \<or> o_remove o' then
                 (case parseACL pw gr (o_spec o') (o_modify o') of
                    Inl _ \<Rightarrow> Some (Exited 1 f)
                  | Inr aces \<Rightarrow>
                      process_files L (if o_modify o' then Modify else Remove) (o_recalc o') (o_default o') aces files f)
               else process_files L RemoveDefault (o_recalc o') (o_default o') [] files f)))"

section \<open>The contract of the library\<close>

text \<open>An ACL seen as rows of handle, tag, qualifier and permissions.\<close>

type_synonym 'e row = "'e \<times> tag \<times> id \<times> 32 word"

definition upd_row :: "'e \<Rightarrow> (tag \<times> id \<times> 32 word \<Rightarrow> tag \<times> id \<times> 32 word) \<Rightarrow> 'e row list \<Rightarrow> 'e row list" where
  "upd_row e g rows = map (\<lambda>(x, r). if x = e then (x, g r) else (x, r)) rows"

definition same_key :: "tag \<Rightarrow> id \<Rightarrow> tag \<Rightarrow> id \<Rightarrow> bool" where
  "same_key t q t' q' \<longleftrightarrow> t = t' \<and> (t = ACL_USER \<or> t = ACL_GROUP \<longrightarrow> q = q')"

text \<open>The permissions an ACL grants to a tag and qualifier: those of the first such row.\<close>

definition grants :: "'e row list \<Rightarrow> tag \<Rightarrow> id \<Rightarrow> 32 word option" where
  "grants rows t q =
     (case find (\<lambda>(_, t', q', _). same_key t q t' q') rows of None \<Rightarrow> None | Some (_, _, _, p) \<Rightarrow> Some p)"

abbreviation has_key :: "tag \<Rightarrow> id \<Rightarrow> 'e row \<Rightarrow> bool" where
  "has_key t q \<equiv> \<lambda>(_, t', q', _). same_key t q t' q'"

abbreviation no_mask :: "'e row \<Rightarrow> bool" where
  "no_mask \<equiv> \<lambda>(_, t, _, _). t \<noteq> ACL_MASK"

lemma find_SomeD: "find P xs = Some x \<Longrightarrow> x \<in> set xs \<and> P x"
  by (induction xs) (auto split: if_splits)

lemma grants_None: "grants rows t q = None \<longleftrightarrow> find (has_key t q) rows = None"
  by (auto simp: grants_def split: option.splits)

lemma same_key_trans: "same_key t q t' q' \<Longrightarrow> same_key t2 q2 t' q' \<longleftrightarrow> same_key t q t2 q2"
  by (auto simp: same_key_def)

lemma upd_row_Cons: "upd_row e g ((x, r) # rows) = (x, if x = e then g r else r) # upd_row e g rows"
  by (simp add: upd_row_def)

lemma upd_row_append: "upd_row e g (xs @ ys) = upd_row e g xs @ upd_row e g ys"
  by (simp add: upd_row_def)

lemma upd_row_comp: "upd_row e g (upd_row e h rows) = upd_row e (g \<circ> h) rows"
  by (auto simp: upd_row_def)

lemma upd_row_other: "e \<notin> fst ` set rows \<Longrightarrow> upd_row e g rows = rows"
  by (induction rows) (auto simp: upd_row_def)

lemma upd_row_snoc: "e \<notin> fst ` set rows \<Longrightarrow> upd_row e g (rows @ [(e, r)]) = rows @ [(e, g r)]"
  using upd_row_other [of e rows g] by (simp add: upd_row_append upd_row_Cons) (simp add: upd_row_def)

lemma upd_row_id: "upd_row e id rows = rows"
  by (induction rows) (auto simp: upd_row_def)

text \<open>What one entry of the command line is to do: the permissions for its key become
  \<open>v\<close>, \<open>None\<close> when the entry is removed, and nothing else changes.\<close>

definition set_key ::
    "tag \<Rightarrow> id \<Rightarrow> 32 word option \<Rightarrow> (tag \<Rightarrow> id \<Rightarrow> 32 word option) \<Rightarrow> tag \<Rightarrow> id \<Rightarrow> 32 word option" where
  "set_key t q v g = (\<lambda>t' q'. if same_key t q t' q' then v else g t' q')"

definition norm_key :: "tag \<Rightarrow> id \<Rightarrow> tag \<times> id" where
  "norm_key t q = (t, if t = ACL_USER \<or> t = ACL_GROUP then q else 0)"

definition unique_keys :: "'e row list \<Rightarrow> bool" where
  "unique_keys rows = distinct (map (\<lambda>(_, t, q, _). norm_key t q) rows)"

lemma same_key_norm: "same_key t q t' q' \<longleftrightarrow> norm_key t q = norm_key t' q'"
  by (auto simp: same_key_def norm_key_def)

lemma grants_same_key: "same_key t q t2 q2 \<Longrightarrow> grants rows t2 q2 = grants rows t q"
  by (simp add: grants_def same_key_norm)

lemma grants_no_key: "norm_key t q \<notin> (\<lambda>(_, t, q, _). norm_key t q) ` set rows \<Longrightarrow> grants rows t q = None"
  by (induction rows) (auto simp: grants_def same_key_norm split: prod.splits)

lemma grants_remove:
  assumes "find (has_key t q) rows = Some x" and "unique_keys rows"
  shows "grants (remove1 x rows) t2 q2 = (if same_key t q t2 q2 then None else grants rows t2 q2)"
  using assms
proof (induction rows)
  case (Cons y rows)
  obtain e t' q' p where y: "y = (e, t', q', p)" by (metis prod_cases4)
  show ?case
  proof (cases "same_key t q t' q'")
    case True
    with Cons.prems(1) y have "x = y" by simp
    moreover from Cons.prems(2) y have "norm_key t' q' \<notin> (\<lambda>(_, t, q, _). norm_key t q) ` set rows"
      by (simp add: unique_keys_def)
    then have "grants rows t' q' = None" by (rule grants_no_key)
    moreover have "same_key t2 q2 t' q' = same_key t q t2 q2" by (rule same_key_trans [OF True])
    ultimately show ?thesis using y True grants_same_key [of t2 q2 t' q' rows] by (auto simp: grants_def)
  next
    case False
    with Cons.prems y have x: "find (has_key t q) rows = Some x" "unique_keys rows" "x \<noteq> y"
      by (auto simp: unique_keys_def find_Some_iff)
    with Cons.IH y False show ?thesis by (auto simp: grants_def same_key_norm)
  qed
qed simp

lemma filter_remove_handle:
  "distinct (map fst rows) \<Longrightarrow> x \<in> set rows \<Longrightarrow> filter (\<lambda>r. fst r \<noteq> fst x) rows = remove1 x rows"
proof (induction rows)
  case (Cons y rows)
  show ?case
  proof (cases "y = x")
    case True
    with Cons.prems have "fst x \<notin> fst ` set rows" by simp
    then have "filter (\<lambda>r. fst r \<noteq> fst x) rows = rows" by (intro filter_True) (metis image_eqI)
    with True show ?thesis by simp
  next
    case False
    with Cons.prems have "x \<in> set rows" "fst y \<noteq> fst x" by (auto simp: image_iff)
    with Cons False show ?thesis by simp
  qed
qed simp

lemma grants_upd:
  assumes "find (has_key t q) rows = Some r" "distinct (map fst rows)"
  shows "grants (upd_row (fst r) (\<lambda>(t, q, p). (t, q, v)) rows) t2 q2 =
    (if same_key t q t2 q2 then Some v else grants rows t2 q2)"
  using assms
proof (induction rows)
  case (Cons x rows)
  obtain e t' q' p where x: "x = (e, t', q', p)" by (metis prod_cases4)
  show ?case
  proof (cases "same_key t q t' q'")
    case True
    with Cons.prems(1) x have r1: "r = x" by simp
    from Cons.prems(2) x have r2: "e \<notin> fst ` set rows" by simp
    note r = r1 r2
    have "upd_row (fst r) (\<lambda>(t, q, p). (t, q, v)) (x # rows) = (e, t', q', v) # rows"
      unfolding r(1) using x upd_row_other [OF r(2)] by (simp only: upd_row_Cons fst_conv) simp
    with x True same_key_trans [OF True, of t2 q2] show ?thesis
      by (simp add: grants_def)
  next
    case False
    with Cons.prems x have r: "find (has_key t q) rows = Some r" "distinct (map fst rows)" by auto
    then have "r \<in> set rows" by (metis find_Some_iff nth_mem)
    with Cons.prems(2) x have "e \<noteq> fst r" by auto
    with Cons.IH [OF r] x False same_key_trans [of t q t' q' t2 q2] show ?thesis
      by (auto simp: upd_row_Cons grants_def same_key_def)
  qed
qed simp

lemma grants_snoc:
  assumes "grants rows t q = None" "same_key t q t' q'"
  shows "grants (rows @ [(e, t', q', v)]) t2 q2 = (if same_key t q t2 q2 then Some v else grants rows t2 q2)"
proof -
  have "grants rows t2 q2 = None" if "same_key t q t2 q2"
  proof -
    have "(has_key t2 q2 :: 'a row \<Rightarrow> bool) = has_key t q"
      using that by (auto simp: same_key_def fun_eq_iff)
    with assms(1) show ?thesis by (simp add: grants_None)
  qed
  moreover have "find P (xs @ ys) = (case find P xs of None \<Rightarrow> find P ys | Some x \<Rightarrow> Some x)" for P and xs ys :: "'a row list"
    by (induction xs) auto
  ultimately show ?thesis
    using same_key_trans [OF assms(2), of t2 q2] by (auto simp: grants_def split: option.splits)
qed

lemma grants_no_mask: "t \<noteq> ACL_MASK \<Longrightarrow> grants (filter no_mask rows) t q = grants rows t q"
proof (induction rows)
  case (Cons x rows)
  then show ?case by (cases x) (auto simp: grants_def same_key_def)
qed simp

lemma perm_bits:
  "(ps :: 32 word) \<le> 7 \<Longrightarrow>
   (0 OR (if ps AND ACL_READ \<noteq> 0 then ACL_READ else 0)) OR (if ps AND ACL_WRITE \<noteq> 0 then ACL_WRITE else 0) OR
     (if ps AND ACL_EXECUTE \<noteq> 0 then ACL_EXECUTE else 0) = ps"
  by (drule word7_cases) (auto simp: ACL_READ_def ACL_WRITE_def ACL_EXECUTE_def)

locale acl_library =
  fixes L :: "('a, 'e, 'f) acl_ops" and rows :: "'a \<Rightarrow> 'e row list"
  assumes handles: "distinct (map fst (rows a))"
    and get_entry: "a_get_entry L n a = Inr r \<Longrightarrow> r = (if n < length (rows a) then Some (fst (rows a ! n)) else None)"
    and get_tag: "(e, t, q, p) \<in> set (rows a) \<Longrightarrow> a_get_tag L e a = Inr t' \<Longrightarrow> t' = t"
    and get_qual: "(e, t, q, p) \<in> set (rows a) \<Longrightarrow> a_get_qual L e a = Inr q' \<Longrightarrow> q' = q"
    and clear_perms: "a_clear_perms L e a = Inr a' \<Longrightarrow> rows a' = upd_row e (\<lambda>(t, q, p). (t, q, 0)) (rows a)"
    and add_perm: "a_add_perm L e x a = Inr a' \<Longrightarrow> rows a' = upd_row e (\<lambda>(t, q, p). (t, q, p OR x)) (rows a)"
    and set_permset: "a_set_permset L e a = Inr a' \<Longrightarrow> rows a' = rows a"
    and delete_entry: "a_delete_entry L e a = Inr a' \<Longrightarrow> rows a' = filter (\<lambda>r. fst r \<noteq> e) (rows a)"
    and create: "a_create_entry L a = Inr (e, a') \<Longrightarrow>
      e \<notin> fst ` set (rows a) \<and> (\<exists>q p. rows a' = rows a @ [(e, ACL_UNDEFINED_TAG, q, p)])"
    and set_tag: "a_set_tag L e t a = Inr a' \<Longrightarrow> rows a' = upd_row e (\<lambda>(t', q, p). (t, q, p)) (rows a)"
    and set_qual: "a_set_qual L e q a = Inr a' \<Longrightarrow> rows a' = upd_row e (\<lambda>(t, q', p). (t, q, p)) (rows a)"
    and calc_mask: "a_calc_mask L a = Inr a' \<Longrightarrow>
      filter (\<lambda>(_, t, _, _). t \<noteq> ACL_MASK) (rows a') = filter (\<lambda>(_, t, _, _). t \<noteq> ACL_MASK) (rows a)"
begin

lemma find_loop_total:
  assumes "n \<le> length (rows a)"
  shows "\<exists>r. find_loop L t q n a = Some r \<and>
    (\<forall>ent. r = Inr ent \<longrightarrow> ent = map_option fst (find (\<lambda>(_, t', q', _). same_key t q t' q') (drop n (rows a))))"
  using assms
proof (induction "length (rows a) - n" arbitrary: n)
  case 0
  then have "a_get_entry L n a = Inr r \<Longrightarrow> r = None" for r using get_entry [of n a r] by simp
  with 0 show ?case
    by (subst find_loop.simps) (auto split: sum.splits option.splits)
next
  case (Suc m)
  then have n: "n < length (rows a)" by simp
  obtain e t' q' p where row: "rows a ! n = (e, t', q', p)" by (metis prod_cases4)
  then have mem: "(e, t', q', p) \<in> set (rows a)" using n by (metis nth_mem)
  have d: "drop n (rows a) = (e, t', q', p) # drop (Suc n) (rows a)" using n row by (metis Cons_nth_drop_Suc)
  show ?case
  proof (cases "a_get_entry L n a")
    case (Inl x)
    then show ?thesis by (subst find_loop.simps) simp
  next
    case (Inr y)
    with get_entry [OF this] n row have y: "y = Some e" by simp
    show ?thesis
    proof (cases "entry_matches L t q e a")
      case (Inl x)
      with Inr y \<open>a_get_entry L n a = Inr y\<close> show ?thesis by (subst find_loop.simps) simp
    next
      case (Inr b)
      then have b: "b = same_key t q t' q'"
        using get_tag [OF mem] get_qual [OF mem]
        by (auto simp: entry_matches_def same_key_def split: if_splits)
      have "\<exists>r. find_loop L t q (Suc n) a = Some r \<and>
          (\<forall>ent. r = Inr ent \<longrightarrow> ent = map_option fst (find (\<lambda>(_, t', q', _). same_key t q t' q') (drop (Suc n) (rows a))))"
        by (rule Suc.hyps(1)) (use Suc.hyps(2) n in simp_all)
      with Inr b y \<open>a_get_entry L n a = Inr y\<close> d show ?thesis
        by (subst find_loop.simps) auto
    qed
  qed
qed

lemma findEntry_total:
  "findEntry L a t q = Some (Inr (map_option fst (find (has_key t q) (rows a)))) \<or> (\<exists>e. findEntry L a t q = Some (Inl e))"
proof -
  from find_loop_total [of 0 a t q] obtain r where r: "findEntry L a t q = Some r"
    "\<forall>ent. r = Inr ent \<longrightarrow> ent = map_option fst (find (has_key t q) (rows a))"
    by (auto simp: findEntry_def)
  then show ?thesis by (cases r) auto
qed

lemma add_if_rows:
  "add_if L e ps x a = Inr a' \<Longrightarrow>
   rows a' = upd_row e (\<lambda>(t, q, p). (t, q, p OR (if ps AND x \<noteq> 0 then x else 0))) (rows a)"
  by (auto simp: add_if_def upd_row_id dest!: add_perm split: if_splits)

lemma setPerms_rows:
  assumes "setPerms L e ps a = Inr a'" "ps \<le> 7"
  shows "rows a' = upd_row e (\<lambda>(t, q, p). (t, q, ps)) (rows a)"
proof -
  from assms(1) obtain a1 a2 a3 a4 where
    "a_clear_perms L e a = Inr a1" "add_if L e ps ACL_READ a1 = Inr a2" "add_if L e ps ACL_WRITE a2 = Inr a3"
    "add_if L e ps ACL_EXECUTE a3 = Inr a4" "a_set_permset L e a4 = Inr a'"
    by (auto simp: setPerms_def)
  then have "rows a' = upd_row e (\<lambda>(t, q, p). (t, q, 0 OR (if ps AND ACL_READ \<noteq> 0 then ACL_READ else 0) OR
      (if ps AND ACL_WRITE \<noteq> 0 then ACL_WRITE else 0) OR (if ps AND ACL_EXECUTE \<noteq> 0 then ACL_EXECUTE else 0))) (rows a)"
    by (simp add: set_permset add_if_rows clear_perms upd_row_comp comp_def case_prod_beta' or.assoc)
  with perm_bits [OF assms(2)] show ?thesis by (simp only: or.assoc)
qed

lemma create_entry_rows:
  assumes "create_entry L ace a = Inr (e, a')"
  shows "e \<notin> fst ` set (rows a) \<and> (\<exists>q p. rows a' = rows a @ [(e, tag ace, q, p)] \<and> same_key (tag ace) (qual ace) (tag ace) q)"
proof -
  from assms obtain a1 a2 where a: "a_create_entry L a = Inr (e, a1)" "a_set_tag L e (tag ace) a1 = Inr a2"
    "(if tag ace = ACL_USER \<or> tag ace = ACL_GROUP then a_set_qual L e (qual ace) a2 else Inr a2) = Inr a'"
    by (auto simp: create_entry_def)
  from create [OF a(1)] obtain q p where e: "e \<notin> fst ` set (rows a)"
    and r1: "rows a1 = rows a @ [(e, ACL_UNDEFINED_TAG, q, p)]" by blast
  from set_tag [OF a(2)] have r2: "rows a2 = rows a @ [(e, tag ace, q, p)]"
    by (simp only: r1 upd_row_snoc [OF e] prod.case)
  show ?thesis
  proof (cases "tag ace = ACL_USER \<or> tag ace = ACL_GROUP")
    case True
    with a(3) have "a_set_qual L e (qual ace) a2 = Inr a'" by (simp split: if_splits)
    from set_qual [OF this] have "rows a' = rows a @ [(e, tag ace, qual ace, p)]"
      by (simp only: r2 upd_row_snoc [OF e] prod.case)
    with e show ?thesis by (auto simp: same_key_def)
  next
    case False
    with a(3) r2 e show ?thesis by (auto simp: same_key_def)
  qed
qed

lemma apply_entry_total: "\<exists>r. apply_entry L rem ace a = Some r"
  using findEntry_total [of a "tag ace" "qual ace"] by (auto simp: apply_entry_def)

lemma apply_modify:
  assumes "perms ace = Some ps" "ps \<le> 7" and app: "apply_entry L False ace a = Some (Inr a')"
  shows "grants (rows a') = set_key (tag ace) (qual ace) (Some ps) (grants (rows a))"
proof (cases "find (has_key (tag ace) (qual ace)) (rows a)")
  case None
  with findEntry_total [of a "tag ace" "qual ace"] app assms(1) obtain e a1
    where c: "create_entry L ace a = Inr (e, a1)" and s: "setPerms L e ps a1 = Inr a'"
    by (auto simp: apply_entry_def)
  from create_entry_rows [OF c] obtain q p where e: "e \<notin> fst ` set (rows a)"
    and r1: "rows a1 = rows a @ [(e, tag ace, q, p)]" "same_key (tag ace) (qual ace) (tag ace) q" by blast
  from setPerms_rows [OF s assms(2)] have "rows a' = rows a @ [(e, tag ace, q, ps)]"
    by (simp only: r1(1) upd_row_snoc [OF e] prod.case)
  with grants_snoc [OF None [folded grants_None] r1(2)] show ?thesis by (simp add: set_key_def fun_eq_iff)
next
  case (Some x)
  with findEntry_total [of a "tag ace" "qual ace"] app assms(1) have s: "setPerms L (fst x) ps a = Inr a'"
    by (auto simp: apply_entry_def)
  from setPerms_rows [OF s assms(2)] grants_upd [OF Some handles] show ?thesis
    by (simp add: set_key_def fun_eq_iff)
qed

lemma apply_remove:
  assumes "unique_keys (rows a)" and app: "apply_entry L True ace a = Some (Inr a')"
  shows "grants (rows a') = set_key (tag ace) (qual ace) None (grants (rows a))"
proof (cases "find (has_key (tag ace) (qual ace)) (rows a)")
  case None
  with findEntry_total [of a "tag ace" "qual ace"] app have "a' = a" by (auto simp: apply_entry_def)
  moreover have "grants (rows a) t q = None" if "same_key (tag ace) (qual ace) t q" for t q
    using None grants_same_key [OF that, of "rows a"] by (simp add: grants_None)
  ultimately show ?thesis by (auto simp: set_key_def fun_eq_iff)
next
  case (Some x)
  with findEntry_total [of a "tag ace" "qual ace"] app have "a_delete_entry L (fst x) a = Inr a'"
    by (auto simp: apply_entry_def)
  from delete_entry [OF this] have "rows a' = remove1 x (rows a)"
    using filter_remove_handle [OF handles conjunct1 [OF find_SomeD [OF Some]]] by simp
  with grants_remove [OF Some assms(1)] show ?thesis by (simp add: set_key_def fun_eq_iff)
qed

lemma apply_entry_effect:
  assumes "entry_ok (\<not> rem) ace" and "unique_keys (rows a)" and "apply_entry L rem ace a = Some (Inr a')"
  shows "grants (rows a') = set_key (tag ace) (qual ace) (perms ace) (grants (rows a))"
proof (cases rem)
  case True
  with assms(1) have "perms ace = None" by (auto simp: entry_ok_def split: option.splits)
  with True apply_remove assms(2,3) show ?thesis by simp
next
  case False
  with assms(1) obtain ps where "perms ace = Some ps" "ps \<le> 7" by (auto simp: entry_ok_def split: option.splits)
  with False apply_modify assms(3) show ?thesis by simp
qed

end

text \<open>What a list of entries is to do, and agreement of two ACLs on all but the mask, which
  \<open>acl_calc_mask\<close> recomputes.\<close>

definition wanted :: "AccessControlEntry list \<Rightarrow> (tag \<Rightarrow> id \<Rightarrow> 32 word option) \<Rightarrow> tag \<Rightarrow> id \<Rightarrow> 32 word option" where
  "wanted aces g = foldl (\<lambda>g ace. set_key (tag ace) (qual ace) (perms ace) g) g aces"

definition agree :: "bool \<Rightarrow> (tag \<Rightarrow> id \<Rightarrow> 32 word option) \<Rightarrow> (tag \<Rightarrow> id \<Rightarrow> 32 word option) \<Rightarrow> bool" where
  "agree recalc g h \<longleftrightarrow> (\<forall>t q. t \<noteq> ACL_MASK \<or> \<not> recalc \<longrightarrow> g t q = h t q)"

lemma agree_refl [simp]: "agree r g g"
  by (simp add: agree_def)

lemma agree_trans: "agree r g h \<Longrightarrow> agree r h k \<Longrightarrow> agree r g k"
  by (simp add: agree_def)

lemma agree_wanted: "agree r g h \<Longrightarrow> agree r (wanted aces g) (wanted aces h)"
proof (induction aces arbitrary: g h)
  case (Cons ace aces)
  then have "agree r (set_key (tag ace) (qual ace) (perms ace) g) (set_key (tag ace) (qual ace) (perms ace) h)"
    by (simp add: agree_def set_key_def)
  with Cons.IH show ?case by (simp add: wanted_def)
qed (simp add: wanted_def)

text \<open>Only the ACLs of kind \<open>d\<close> of the files in \<open>js\<close> have changed.\<close>

definition untouched :: "('f \<Rightarrow> 'i \<Rightarrow> bool \<Rightarrow> 'g) \<Rightarrow> 'i set \<Rightarrow> bool \<Rightarrow> 'f \<Rightarrow> 'f \<Rightarrow> bool" where
  "untouched stored js d f f' \<longleftrightarrow> (\<forall>i d'. i \<notin> js \<or> d' \<noteq> d \<longrightarrow> stored f' i d' = stored f i d')"

lemma untouched_refl [simp]: "untouched stored js d f f"
  by (simp add: untouched_def)

lemma untouched_trans:
  "untouched stored js d f f' \<Longrightarrow> untouched stored ks d f' f'' \<Longrightarrow> untouched stored (js \<union> ks) d f f''"
  by (auto simp: untouched_def)

text \<open>The ACLs that files have, and how the library reads and stores them.  Two pathnames may
  lead to one file, so ACLs belong to the file \<open>ino p\<close> that a pathname leads to.  An ACL that
  the library reads or accepts as valid has one entry per key.\<close>

locale acl_files = acl_library L rows for L :: "('a, 'e, 'f) acl_ops" and rows +
  fixes ino :: "string \<Rightarrow> 'i" and stored :: "'f \<Rightarrow> 'i \<Rightarrow> bool \<Rightarrow> tag \<Rightarrow> id \<Rightarrow> 32 word option"
  assumes get_file: "a_get_file L p d f = Inr a \<Longrightarrow> grants (rows a) = stored f (ino p) d \<and> unique_keys (rows a)"
    and set_file: "a_set_file L p d a f = Inr f' \<Longrightarrow>
      stored f' = (stored f)(ino p := (stored f (ino p))(d := grants (rows a)))"
    and valid: "a_valid L a = Inr () \<Longrightarrow> unique_keys (rows a)"
    and delete_def: "a_delete_def_file L p f = Inr f' \<Longrightarrow>
      stored f' = (stored f)(ino p := (stored f (ino p))(True := (\<lambda>_ _. None)))"
begin

lemma mask_agree:
  assumes "(if recalc then a_calc_mask L a else Inr a) = Inr a'"
  shows "agree recalc (grants (rows a')) (grants (rows a))"
proof (cases recalc)
  case True
  with assms have "filter no_mask (rows a') = filter no_mask (rows a)" by (simp add: calc_mask)
  then have "grants (rows a') t q = grants (rows a) t q" if "t \<noteq> ACL_MASK" for t q
    using grants_no_mask [OF that, of "rows a'" q] grants_no_mask [OF that, of "rows a" q] by simp
  with True show ?thesis by (simp add: agree_def)
qed (use assms in simp)

lemma apply_entries_effect:
  assumes "\<forall>ace\<in>set aces. entry_ok (\<not> rem) ace" "unique_keys (rows a)"
    "agree recalc (stored f (ino p) d) (grants (rows a))"
  shows "\<exists>r f'. apply_entries L rem recalc p d aces a f = Some r \<and> untouched stored {ino p} d f f' \<and>
    (r = Exited 1 f' \<or> r = Ret () f' \<and> agree recalc (stored f' (ino p) d) (wanted aces (grants (rows a))))"
  using assms
proof (induction aces arbitrary: a f)
  case Nil
  then show ?case by (auto simp: wanted_def intro: exI [of _ f])
next
  case (Cons ace aces)
  obtain r where r: "apply_entry L rem ace a = Some r" using apply_entry_total by blast
  let ?s = "bind r (\<lambda>acl. bind (if recalc then a_calc_mask L acl else Inr acl)
    (\<lambda>acl. bind (a_valid L acl) (\<lambda>_. bind (a_set_file L p d acl f) (\<lambda>f. Inr (acl, f)))))"
  show ?case
  proof (cases ?s)
    case (Inl e)
    with r show ?thesis by (auto intro: exI [of _ f])
  next
    case (Inr af)
    then obtain a1 a2 f2 where s: "r = Inr a1" "(if recalc then a_calc_mask L a1 else Inr a1) = Inr a2"
      "a_valid L a2 = Inr ()" "a_set_file L p d a2 f = Inr f2" "af = (a2, f2)"
      by auto
    have u: "unique_keys (rows a2)" by (rule valid [OF s(3)])
    have st: "stored f2 (ino p) d = grants (rows a2)" "untouched stored {ino p} d f f2"
      using set_file [OF s(4)] by (auto simp: untouched_def)
    have "grants (rows a1) = set_key (tag ace) (qual ace) (perms ace) (grants (rows a))"
      by (rule apply_entry_effect) (use r s(1) Cons.prems(1,2) in simp_all)
    with mask_agree [OF s(2)] have ag:
      "agree recalc (grants (rows a2)) (set_key (tag ace) (qual ace) (perms ace) (grants (rows a)))" by simp
    have run: "apply_entries L rem recalc p d (ace # aces) a f = apply_entries L rem recalc p d aces a2 f2"
      by (simp only: apply_entries.simps r option.case Inr s(5) sum.case prod.case)
    from Cons.IH [OF _ u, of f2] Cons.prems(1) st(1) obtain r' f' where
      IH: "apply_entries L rem recalc p d aces a2 f2 = Some r'" "untouched stored {ino p} d f2 f'"
      "r' = Exited 1 f' \<or> r' = Ret () f' \<and> agree recalc (stored f' (ino p) d) (wanted aces (grants (rows a2)))"
      by auto
    have "untouched stored {ino p} d f f'" using untouched_trans [OF st(2) IH(2)] by simp
    moreover have "agree recalc (wanted aces (grants (rows a2))) (wanted (ace # aces) (grants (rows a)))"
      using agree_wanted [OF ag] by (simp add: wanted_def)
    ultimately show ?thesis using IH(1,3) agree_trans unfolding run by blast
  qed
qed

lemma process_files_effect:
  assumes "m \<noteq> RemoveDefault" "\<forall>ace\<in>set aces. entry_ok (m = Modify) ace" "distinct (map ino files)"
  shows "\<exists>c f'. process_files L m recalc d aces files f = Some (Exited c f') \<and>
    untouched stored (ino ` set files) d f f' \<and>
    (c = 0 \<and> (\<forall>p\<in>set files. agree recalc (stored f' (ino p) d) (wanted aces (stored f (ino p) d))) \<or> c = 1)"
  using assms(3)
proof (induction files arbitrary: f)
  case (Cons p files)
  have m: "(m = Modify) = (\<not> (m = Remove))" using assms(1) by (cases m) auto
  show ?case
  proof (cases "a_get_file L p d f")
    case (Inl e)
    with assms(1) show ?thesis by (auto intro: exI [of _ f])
  next
    case (Inr a)
    from apply_entries_effect [of aces "m = Remove" a recalc f p d] get_file [OF Inr] assms(2) m
    obtain r f1 where r: "apply_entries L (m = Remove) recalc p d aces a f = Some r" "untouched stored {ino p} d f f1"
      "r = Exited 1 f1 \<or> r = Ret () f1 \<and> agree recalc (stored f1 (ino p) d) (wanted aces (grants (rows a)))"
      by auto
    show ?thesis
    proof (cases "r = Exited 1 f1")
      case True
      with r(1,2) Inr assms(1) show ?thesis by (auto simp: untouched_def)
    next
      case False
      with r have ret: "r = Ret () f1" and ag: "agree recalc (stored f1 (ino p) d) (wanted aces (stored f (ino p) d))"
        using get_file [OF Inr] by auto
      from Cons.IH [of f1] Cons.prems obtain c f' where IH:
        "process_files L m recalc d aces files f1 = Some (Exited c f')" "untouched stored (ino ` set files) d f1 f'"
        "c = 0 \<and> (\<forall>p\<in>set files. agree recalc (stored f' (ino p) d) (wanted aces (stored f1 (ino p) d))) \<or> c = 1"
        by auto
      have "untouched stored (ino ` set (p # files)) d f f'" using untouched_trans [OF r(2) IH(2)] by simp
      moreover have "stored f1 (ino p') d = stored f (ino p') d" if "p' \<in> set files" for p'
      proof -
        from Cons.prems that have "ino p' \<noteq> ino p" by (auto simp: image_iff)
        with r(2) show ?thesis by (simp add: untouched_def)
      qed
      moreover have "stored f' (ino p) d = stored f1 (ino p) d"
        using IH(2) Cons.prems by (auto simp: untouched_def)
      ultimately show ?thesis using IH ag assms(1) Inr r(1) ret by auto
    qed
  qed
qed simp

end

section \<open>A reference library\<close>

text \<open>ACLs as row lists with numbered handles, files as a function from names.  A list in which
  a handle occurs twice is no ACL; the calls refuse it with \<open>EINVAL\<close>.\<close>

type_synonym ref_acl = "nat row list"
type_synonym ref_fs = "string \<Rightarrow> bool \<Rightarrow> (tag \<times> id \<times> 32 word) list"

definition is_acl :: "ref_acl \<Rightarrow> bool" where "is_acl a = distinct (map fst a)"

definition ref_rows :: "ref_acl \<Rightarrow> nat row list" where "ref_rows a = (if is_acl a then a else [])"

definition on_acl :: "ref_acl \<Rightarrow> 'x \<Rightarrow> int + 'x" where "on_acl a x = (if is_acl a then Inr x else Inl 22)"

definition on_entry :: "nat \<Rightarrow> ref_acl \<Rightarrow> (nat row \<Rightarrow> 'x) \<Rightarrow> int + 'x" where
  "on_entry e a g = (if is_acl a then (case find (\<lambda>r. fst r = e) a of None \<Rightarrow> Inl 22 | Some r \<Rightarrow> Inr (g r)) else Inl 22)"

definition fresh :: "ref_acl \<Rightarrow> nat" where "fresh a = Suc (sum_list (map fst a))"

definition class_perms :: "ref_acl \<Rightarrow> 32 word" where
  "class_perms a = foldr (\<lambda>(_, t, _, p) m. if t \<in> {ACL_USER, ACL_GROUP_OBJ, ACL_GROUP} then p OR m else m) a 0"

definition has_mask :: "ref_acl \<Rightarrow> bool" where "has_mask a = (\<exists>r\<in>set a. fst (snd r) = ACL_MASK)"

definition with_mask :: "ref_acl \<Rightarrow> ref_acl" where
  "with_mask a =
     (if has_mask a then map (\<lambda>(e, t, q, p). (e, t, q, if t = ACL_MASK then class_perms a else p)) a
      else a @ [(fresh a, ACL_MASK, 0, class_perms a)])"

definition number :: "(tag \<times> id \<times> 32 word) list \<Rightarrow> ref_acl" where
  "number rs = zip [0..<length rs] rs"

definition ref_lib :: "(ref_acl, nat, ref_fs) acl_ops" where
  "ref_lib = \<lparr>
     a_get_entry = (\<lambda>n a. on_acl a (if n < length a then Some (fst (a ! n)) else None)),
     a_get_tag = (\<lambda>e a. on_entry e a (\<lambda>(_, t, q, p). t)),
     a_get_qual = (\<lambda>e a. on_entry e a (\<lambda>(_, t, q, p). q)),
     a_get_permset = (\<lambda>e a. on_entry e a (\<lambda>_. ())),
     a_clear_perms = (\<lambda>e a. on_acl a (upd_row e (\<lambda>(t, q, p). (t, q, 0)) a)),
     a_add_perm = (\<lambda>e x a. on_acl a (upd_row e (\<lambda>(t, q, p). (t, q, p OR x)) a)),
     a_set_permset = (\<lambda>e a. on_acl a a),
     a_delete_entry = (\<lambda>e a. on_acl a (filter (\<lambda>r. fst r \<noteq> e) a)),
     a_create_entry = (\<lambda>a. on_acl a (fresh a, a @ [(fresh a, ACL_UNDEFINED_TAG, 0, 0)])),
     a_set_tag = (\<lambda>e t a. on_acl a (upd_row e (\<lambda>(t', q, p). (t, q, p)) a)),
     a_set_qual = (\<lambda>e q a. on_acl a (upd_row e (\<lambda>(t, q', p). (t, q, p)) a)),
     a_calc_mask = (\<lambda>a. on_acl a (with_mask a)),
     a_valid = (\<lambda>a. if unique_keys (ref_rows a) then Inr () else Inl 22),
     a_get_file = (\<lambda>p d f. if unique_keys (number (f p d)) then Inr (number (f p d)) else Inl 2),
     a_set_file = (\<lambda>p d a f. on_acl a (f(p := (f p)(d := map snd a)))),
     a_delete_def_file = (\<lambda>p f. Inr (f(p := (f p)(True := []))))\<rparr>"

definition ref_stored :: "ref_fs \<Rightarrow> string \<Rightarrow> bool \<Rightarrow> tag \<Rightarrow> id \<Rightarrow> 32 word option" where
  "ref_stored f p d = grants (number (f p d))"

lemma on_acl_Inr [simp]: "on_acl a x = Inr y \<longleftrightarrow> is_acl a \<and> y = x"
  by (auto simp: on_acl_def)

lemma is_acl_upd [simp]: "is_acl (upd_row e g a) = is_acl a"
proof -
  have "map fst (upd_row e g a) = map fst a" by (induction a) (auto simp: upd_row_def)
  then show ?thesis by (simp add: is_acl_def)
qed

lemma fresh_notin: "fresh a \<notin> fst ` set a"
proof
  assume "fresh a \<in> fst ` set a"
  then have "fresh a \<le> sum_list (map fst a)" by (intro member_le_sum_list) simp_all
  then show False by (simp add: fresh_def)
qed

lemma is_acl_snoc [simp]: "is_acl a \<Longrightarrow> is_acl (a @ [(fresh a, r)])"
  using fresh_notin [of a] by (auto simp: is_acl_def)

lemma is_acl_filter [simp]: "is_acl a \<Longrightarrow> is_acl (filter P a)"
  by (simp add: is_acl_def distinct_map_filter)

lemma is_acl_number [simp]: "is_acl (number rs)"
  by (simp add: is_acl_def number_def)

lemma find_handle: "is_acl a \<Longrightarrow> r \<in> set a \<Longrightarrow> find (\<lambda>x. fst x = fst r) a = Some r"
  by (induction a) (auto simp: is_acl_def)

lemma on_entry_Inr: "is_acl a \<Longrightarrow> r \<in> set a \<Longrightarrow> on_entry (fst r) a g = Inr (g r)"
  by (simp add: on_entry_def find_handle)

lemma with_mask_acl [simp]: "is_acl a \<Longrightarrow> is_acl (with_mask a)"
  by (auto simp: with_mask_def) (simp add: is_acl_def comp_def case_prod_beta')

lemma with_mask_rest: "filter no_mask (with_mask a) = filter no_mask a"
proof -
  have "filter no_mask (map (\<lambda>(e, t, q, p). (e, t, q, if t = ACL_MASK then m else p)) xs) = filter no_mask xs"
    for m and xs :: ref_acl by (induction xs) auto
  then show ?thesis by (simp add: with_mask_def)
qed

lemma grants_snd: "map snd a = map snd b \<Longrightarrow> grants a = grants b"
proof (induction a arbitrary: b)
  case (Cons x a)
  then obtain y b' where b: "b = y # b'" "snd x = snd y" "grants a = grants b'" by (cases b) auto
  then show ?case by (cases x; cases y) (auto simp: grants_def fun_eq_iff)
qed (simp add: grants_def fun_eq_iff)

lemma grants_number: "grants (number (map snd a)) = grants a"
  by (rule grants_snd) (simp add: number_def map_snd_zip)

interpretation ref: acl_files ref_lib ref_rows "\<lambda>p. p" ref_stored
proof unfold_locales
  show "distinct (map fst (ref_rows a))" for a by (simp add: ref_rows_def is_acl_def)
  show "a_get_entry ref_lib n a = Inr r \<Longrightarrow> r = (if n < length (ref_rows a) then Some (fst (ref_rows a ! n)) else None)" for n a r
    by (simp add: ref_lib_def ref_rows_def)
  show "(e, t, q, p) \<in> set (ref_rows a) \<Longrightarrow> a_get_tag ref_lib e a = Inr t' \<Longrightarrow> t' = t" for e t q p a t'
    using on_entry_Inr [of a "(e, t, q, p)" "\<lambda>(_, t, q, p). t"] by (auto simp: ref_lib_def ref_rows_def split: if_splits)
  show "(e, t, q, p) \<in> set (ref_rows a) \<Longrightarrow> a_get_qual ref_lib e a = Inr q' \<Longrightarrow> q' = q" for e t q p a q'
    using on_entry_Inr [of a "(e, t, q, p)" "\<lambda>(_, t, q, p). q"] by (auto simp: ref_lib_def ref_rows_def split: if_splits)
  show "a_create_entry ref_lib a = Inr (e, a') \<Longrightarrow>
      e \<notin> fst ` set (ref_rows a) \<and> (\<exists>q p. ref_rows a' = ref_rows a @ [(e, ACL_UNDEFINED_TAG, q, p)])" for a e a'
    using fresh_notin [of a] by (auto simp: ref_lib_def ref_rows_def)
  show "a_get_file ref_lib p d f = Inr a \<Longrightarrow> grants (ref_rows a) = ref_stored f p d \<and> unique_keys (ref_rows a)" for p d f a
    by (auto simp: ref_lib_def ref_rows_def ref_stored_def split: if_splits)
  show "a_set_file ref_lib p d a f = Inr f' \<Longrightarrow>
      ref_stored f' = (ref_stored f)(p := (ref_stored f p)(d := grants (ref_rows a)))" for p d a f f'
    by (auto simp: ref_lib_def ref_rows_def ref_stored_def fun_eq_iff grants_number)
  show "a_delete_def_file ref_lib p f = Inr f' \<Longrightarrow>
      ref_stored f' = (ref_stored f)(p := (ref_stored f p)(True := \<lambda>_ _. None))" for p f f'
  proof -
    assume "a_delete_def_file ref_lib p f = Inr f'"
    then have "f' = f(p := (f p)(True := []))" by (simp add: ref_lib_def)
    moreover have "grants (number []) = (\<lambda>_ _. None)" by (simp add: number_def grants_def fun_eq_iff)
    ultimately show ?thesis by (simp add: ref_stored_def fun_eq_iff)
  qed
qed (auto simp: ref_lib_def ref_rows_def with_mask_rest split: if_splits)

section \<open>Properties\<close>

lemma read_one_option:
  "\<forall>p\<in>set files. operand p \<Longrightarrow>
   getopt ''m:x:kdnV:'' ([prog, if modify then ''-m'' else ''-x'', spec] @ files) =
     ([(if modify then CHR ''m'' else CHR ''x'', spec)], files)"
  by (auto simp: getopt_def opt_known_def takes_arg_def)



end
