(* ===== verification/Execlp.thy ===== *)
theory Execlp
  imports Environ
begin

text \<open>
  \<open>src/tlpi-book/procexec/execlp.c\<close>: the library function \<open>execlp\<close> on top of \<open>execve(2)\<close>.
  The kernel is a parameter \<open>ek\<close>: it answers an attempt, given the attempts so far, with an
  error number, or with \<open>None\<close> when the new program replaces the caller.  Which allocations
  succeed is the parameter \<open>mem\<close>.  Arrays have their C sizes; a write outside gives \<open>Undefined\<close>.
\<close>

section \<open>The function\<close>

definition EACCES :: int where "EACCES = 13"
definition ENOEXEC :: int where "ENOEXEC = 8"
definition EFAULT :: int where "EFAULT = 14"
definition SHELL_PATH :: string where "SHELL_PATH = ''/bin/sh''"

text \<open>The allocations: the two vectors, the enlarged argument vector, the copied strings, the
  pathname of the \<open>i\<close>-th prefix, the copies of \<open>PATH\<close> and of the filename.\<close>

datatype site = AArgv | ARealloc | AEnvp | AEnv nat | APrefix nat | APATH | AFile

type_synonym attempt = "string \<times> string list \<times> string list"

datatype exec_end = NewImage string "string list" "string list" | Return int | NoMemory | Undefined

text \<open>What \<open>execve\<close> sees of a vector: the entries before the first null pointer.\<close>

fun vec :: "string option list \<Rightarrow> string list" where
  "vec [] = []"
| "vec (None # xs) = []"
| "vec (Some x # xs) = x # vec xs"

definition put :: "'x list \<Rightarrow> nat \<Rightarrow> 'x \<Rightarrow> 'x list option" where
  "put a i v = (if i < length a then Some (a[i := v]) else None)"

fun sh_fill :: "string option list \<Rightarrow> nat \<Rightarrow> string option list \<Rightarrow> string option list option" where
  "sh_fill shArgv j [] = Some shArgv"
| "sh_fill shArgv j (a # as) = (case put shArgv (j + 1) a of None \<Rightarrow> None | Some sh \<Rightarrow> sh_fill sh (j + 1) as)"

text \<open>The vector of the shell: \<open>argc + 1\<close> slots, filled from \<open>argv[0]\<close> to \<open>argv[argc]\<close>.  \<open>None\<close> is
  an access outside an array.\<close>

definition execShScript :: "nat \<Rightarrow> string option list \<Rightarrow> string option list option" where
  "execShScript argc argv =
     (if argc < length argv
      then sh_fill ((replicate (argc + 1) None)[0 := Some SHELL_PATH]) 0 (take (argc + 1) argv) else None)"

datatype argv_end = Built "string option list" nat | NoMem | Overrun

text \<open>\<open>sz\<close> is what the code believes the size of the array to be; \<open>realloc\<close> makes it one
  pointer.\<close>

fun build_argv :: "(site \<Rightarrow> bool) \<Rightarrow> nat \<Rightarrow> string option list \<Rightarrow> nat \<Rightarrow> string option list \<Rightarrow> argv_end" where
  "build_argv mem sz argv argc va =
     (if argv ! (argc - 1) = None then Built argv argc
      else if argc + 1 \<ge> sz \<and> \<not> mem ARealloc then NoMem
      else
        (case va of
           [] \<Rightarrow> Overrun
         | a # va' \<Rightarrow>
             (case put (if argc + 1 \<ge> sz then take 1 argv else argv) argc a of
                None \<Rightarrow> Overrun
              | Some argv' \<Rightarrow> build_argv mem (if argc + 1 \<ge> sz then sz + 100 else sz) argv' (argc + 1) va')))"

declare build_argv.simps [simp del]

fun dup_env :: "(site \<Rightarrow> bool) \<Rightarrow> nat \<Rightarrow> string list \<Rightarrow> string option list" where
  "dup_env mem j [] = [None]"
| "dup_env mem j (e # es) = (if mem (AEnv j) then Some e else None) # dup_env mem (j + 1) es"

text \<open>One \<open>execve\<close>: \<open>Inl\<close> the end of the function, \<open>Inr\<close> the error number to go on with.\<close>

definition try_exec ::
    "(attempt list \<Rightarrow> int option) \<Rightarrow> string \<Rightarrow> string option list \<Rightarrow> string option list \<Rightarrow> attempt list \<Rightarrow>
     (exec_end + int) \<times> attempt list" where
  "try_exec ek pathname argv envp tried =
     (let t = tried @ [(pathname, vec argv, vec envp)] in
      case ek t of None \<Rightarrow> (Inl (NewImage pathname (vec argv) (vec envp)), t) | Some e \<Rightarrow> (Inr e, t))"

text \<open>\<open>execve\<close> of a pathname, and of the shell when the file has no known format.  The error
  number that counts is the first one.\<close>

definition exec_or_script ::
    "(attempt list \<Rightarrow> int option) \<Rightarrow> string \<Rightarrow> nat \<Rightarrow> string option list \<Rightarrow> string option list \<Rightarrow> attempt list \<Rightarrow>
     (exec_end + int) \<times> attempt list" where
  "exec_or_script ek pathname argc argv envp tried =
     (case try_exec ek pathname argv envp tried of
        (Inl r, t) \<Rightarrow> (Inl r, t)
      | (Inr e, t) \<Rightarrow>
          if e = ENOEXEC then
            (case execShScript argc argv of
               None \<Rightarrow> (Inl Undefined, t)
             | Some shArgv \<Rightarrow>
                 (case try_exec ek SHELL_PATH shArgv envp t of
                    (Inl r, t) \<Rightarrow> (Inl r, t)
                  | (Inr _, t) \<Rightarrow> (Inr e, t)))
          else (Inr e, t))"

definition join_prefix :: "string \<Rightarrow> string \<Rightarrow> string" where
  "join_prefix prefix filename = (if prefix = [] then ''.'' else prefix) @ ''/'' @ filename"

text \<open>The loop over the prefixes of \<open>PATH\<close>: \<open>i\<close> counts them, \<open>fnd\<close> is \<open>fndEACCES\<close>.\<close>

function search_path ::
    "(site \<Rightarrow> bool) \<Rightarrow> (attempt list \<Rightarrow> int option) \<Rightarrow> string \<Rightarrow> nat \<Rightarrow> string option list \<Rightarrow> string option list \<Rightarrow>
     nat \<Rightarrow> string \<Rightarrow> bool \<Rightarrow> attempt list \<Rightarrow> exec_end \<times> attempt list" where
  "search_path mem ek filename argc argv envp i prStart fnd tried =
     (if \<not> mem (APrefix i) then (Undefined, tried)
      else
        (case exec_or_script ek (join_prefix (before prStart (CHR '':'')) filename) argc argv envp tried of
           (Inl r, t) \<Rightarrow> (r, t)
         | (Inr e, t) \<Rightarrow>
             (let fnd' = (fnd \<or> e = EACCES) in
              case strchr prStart (CHR '':'') of
                None \<Rightarrow> (Return (if fnd' then EACCES else e), t)
              | Some prEnd \<Rightarrow> search_path mem ek filename argc argv envp (i + 1) (tl prEnd) fnd' t)))"
  by auto
termination
  by (relation "measure (\<lambda>(mem, ek, fn, argc, argv, envp, i, s, fnd, t). length s)")
    (auto dest!: strchr_tl_shorter)

declare search_path.simps [simp del]

definition path_value :: "string list \<Rightarrow> string" where
  "path_value env = (case getenv ''PATH'' env of None \<Rightarrow> ''.'' | Some p \<Rightarrow> if p = [] then ''.'' else p)"

text \<open>\<open>execlp(filename, arg, ...)\<close>: \<open>arg\<close> and the further arguments are \<open>va\<close>, \<open>None\<close> a null
  pointer; \<open>env\<close> is the environment of the caller.  The result is paired with the attempts made.\<close>

definition execlp ::
    "(site \<Rightarrow> bool) \<Rightarrow> (attempt list \<Rightarrow> int option) \<Rightarrow> string list \<Rightarrow> string \<Rightarrow> string option list \<Rightarrow>
     exec_end \<times> attempt list" where
  "execlp mem ek env filename va =
     (if \<not> mem AArgv then (NoMemory, [])
      else
        (case build_argv mem 100 ((replicate 100 None)[0 := hd va]) 1 (tl va) of
           NoMem \<Rightarrow> (NoMemory, [])
         | Overrun \<Rightarrow> (Undefined, [])
         | Built argv argc \<Rightarrow>
             if \<not> mem AEnvp then (NoMemory, [])
             else
               (let envp = dup_env mem 0 env in
                if CHR ''/'' \<in> set filename then
                  (if \<not> mem AFile then (Return EFAULT, [])
                   else
                     (case exec_or_script ek filename argc argv envp [] of
                        (Inl r, t) \<Rightarrow> (r, t)
                      | (Inr e, t) \<Rightarrow> (Return e, t)))
                else if \<not> mem APATH then (Undefined, [])
                else search_path mem ek filename argc argv envp 0 (path_value env) False [])))"

section \<open>The vectors\<close>

lemma vec_args: "vec (map Some xs @ replicate n None) = xs"
  by (induction xs) (cases n; auto)+

lemma vec_dup_env: "\<forall>a. mem a \<Longrightarrow> vec (dup_env mem j env) = env"
  by (induction env arbitrary: j) auto

lemma build_argv_steps:
  assumes "length xs + length ys < 99" "xs \<noteq> []"
  shows "build_argv mem 100 (map Some xs @ replicate (100 - length xs) None) (length xs) (map Some ys @ [None]) =
    Built (map Some (xs @ ys) @ replicate (100 - length (xs @ ys)) None) (length (xs @ ys) + 1)"
  using assms
proof (induction ys arbitrary: xs)
  case Nil
  let ?a = "map Some xs @ replicate (100 - length xs) None :: string option list"
  have last: "?a ! (length xs - 1) \<noteq> None" using Nil by (simp add: nth_append)
  have "put ?a (length xs) None = Some ?a"
    using Nil by (simp add: put_def list_update_append list_update_same_conv)
  with last Nil show ?case
    by (subst build_argv.simps) (simp, subst build_argv.simps, simp add: nth_append)
next
  case (Cons y ys)
  let ?a = "map Some xs @ replicate (100 - length xs) None :: string option list"
  let ?b = "map Some (xs @ [y]) @ replicate (100 - length (xs @ [y])) None :: string option list"
  have last: "?a ! (length xs - 1) \<noteq> None" using Cons.prems by (simp add: nth_append)
  obtain n where n: "100 - length xs = Suc n" using Cons.prems by (cases "100 - length xs") auto
  then have "put ?a (length xs) (Some y) = Some ?b"
    by (simp add: put_def list_update_append)
  with last Cons.prems Cons.IH [of "xs @ [y]"] show ?case
    by (subst build_argv.simps) simp
qed

lemma build_argv_overrun:
  assumes "\<forall>a. mem a" "99 \<le> length xs + length ys" "length xs \<le> 99" "xs \<noteq> []"
  shows "build_argv mem 100 (map Some xs @ replicate (100 - length xs) None) (length xs) (map Some ys @ [None]) = Overrun"
  using assms(2-4)
proof (induction ys arbitrary: xs)
  case Nil
  let ?a = "map Some xs @ replicate (100 - length xs) None :: string option list"
  have "?a ! (length xs - 1) \<noteq> None" using Nil by (simp add: nth_append)
  with Nil assms(1) show ?case by (subst build_argv.simps) (simp add: put_def)
next
  case (Cons y ys)
  let ?a = "map Some xs @ replicate (100 - length xs) None :: string option list"
  have last: "?a ! (length xs - 1) \<noteq> None" using Cons.prems by (simp add: nth_append)
  show ?case
  proof (cases "length xs = 99")
    case True
    with last assms(1) show ?thesis by (subst build_argv.simps) (simp add: put_def)
  next
    case False
    let ?b = "map Some (xs @ [y]) @ replicate (100 - length (xs @ [y])) None :: string option list"
    obtain n where "100 - length xs = Suc n" using Cons.prems by (cases "100 - length xs") auto
    then have "put ?a (length xs) (Some y) = Some ?b" by (simp add: put_def list_update_append)
    with last False Cons.prems Cons.IH [of "xs @ [y]"] show ?thesis by (subst build_argv.simps) simp
  qed
qed

lemma sh_fill_overrun: "length sh \<le> j + length as \<Longrightarrow> as \<noteq> [] \<Longrightarrow> sh_fill sh j as = None"
proof (induction as arbitrary: sh j)
  case (Cons a as)
  show ?case
  proof (cases "as = []")
    case True
    with Cons.prems show ?thesis by (simp add: put_def)
  next
    case False
    with Cons.IH [of "sh[j + 1 := a]" "j + 1"] Cons.prems show ?thesis by (simp add: put_def)
  qed
qed simp

lemma execShScript_overrun:
  "length xs < 99 \<Longrightarrow> execShScript (length xs + 1) (map Some xs @ replicate (100 - length xs) None) = None"
  by (auto simp: execShScript_def intro!: sh_fill_overrun)

lemma execlp_vectors:
  assumes "\<forall>a. mem a" "0 < length args" "length args < 99"
  shows "execlp mem ek env filename (map Some args @ [None]) =
    (let argv = map Some args @ replicate (100 - length args) None; argc = length args + 1; envp = dup_env mem 0 env
     in if CHR ''/'' \<in> set filename then
          (case exec_or_script ek filename argc argv envp [] of (Inl r, t) \<Rightarrow> (r, t) | (Inr e, t) \<Rightarrow> (Return e, t))
        else search_path mem ek filename argc argv envp 0 (path_value env) False [])"
proof -
  obtain a as where as: "args = a # as" using assms(2) by (cases args) auto
  have "(replicate 100 None)[0 := Some a] = map Some [a] @ replicate (100 - length [a]) None"
    by (simp add: numeral_eq_Suc)
  with build_argv_steps [of "[a]" as mem] assms(1,3) as show ?thesis
    by (simp add: execlp_def Let_def)
qed

section \<open>The search\<close>

fun split_colon :: "string \<Rightarrow> string list" where
  "split_colon [] = [[]]"
| "split_colon (c # cs) =
     (if c = CHR '':'' then [] # split_colon cs else (c # hd (split_colon cs)) # tl (split_colon cs))"

lemma split_colon_not_Nil [simp]: "split_colon s \<noteq> []"
  by (induction s) auto

lemma split_colon_strchr:
  "split_colon s = before s (CHR '':'') # (case strchr s (CHR '':'') of None \<Rightarrow> [] | Some r \<Rightarrow> split_colon (tl r))"
  by (induction s) (auto simp: before_def split: option.splits)

text \<open>The reference: the pathnames in the order of the prefixes.  The first one that can be
  executed is; if there is none, \<open>EACCES\<close> wins over the error of the last attempt.\<close>

definition candidates :: "string \<Rightarrow> string \<Rightarrow> string list" where
  "candidates filename pathv = map (\<lambda>p. (if p = [] then ''.'' else p) @ ''/'' @ filename) (split_colon pathv)"

definition outcome_of :: "(string \<Rightarrow> int option) \<Rightarrow> string list \<Rightarrow> string list \<Rightarrow> string list \<Rightarrow> bool \<Rightarrow> exec_end" where
  "outcome_of pk args env cands fnd =
     (case find (\<lambda>p. pk p = None) cands of
        Some p \<Rightarrow> NewImage p args env
      | None \<Rightarrow> Return (if fnd \<or> Some EACCES \<in> pk ` set cands then EACCES else the (pk (last cands))))"

fun attempts :: "(string \<Rightarrow> int option) \<Rightarrow> string list \<Rightarrow> string list" where
  "attempts pk [] = []"
| "attempts pk (p # ps) = p # (if pk p = None then [] else attempts pk ps)"

lemma exec_plain:
  assumes "\<forall>p. pk p \<noteq> Some ENOEXEC"
  shows "exec_or_script (\<lambda>t. pk (fst (last t))) p argc argv envp tried =
    (case pk p of None \<Rightarrow> Inl (NewImage p (vec argv) (vec envp)) | Some e \<Rightarrow> Inr e, tried @ [(p, vec argv, vec envp)])"
  using assms by (auto simp: exec_or_script_def try_exec_def split: option.splits)

lemma search_path_result:
  assumes "\<forall>a. mem a" "\<forall>p. pk p \<noteq> Some ENOEXEC"
  shows "search_path mem (\<lambda>t. pk (fst (last t))) filename argc argv envp i s fnd tried =
    (outcome_of pk (vec argv) (vec envp) (candidates filename s) fnd,
     tried @ map (\<lambda>p. (p, vec argv, vec envp)) (attempts pk (candidates filename s)))"
proof (induction "length s" arbitrary: s i fnd tried rule: less_induct)
  case less
  let ?p = "join_prefix (before s (CHR '':'')) filename"
  note unf = search_path.simps [of mem _ filename argc argv envp i s fnd tried]
  show ?case
  proof (cases "strchr s (CHR '':'')")
    case None
    then have "split_colon s = [before s (CHR '':'')]" using split_colon_strchr [of s] by (simp only: option.case)
    then have "candidates filename s = [?p]" by (simp add: candidates_def join_prefix_def)
    with None assms show ?thesis
      by (auto simp: unf exec_plain outcome_of_def simp del: strchr_None split: option.splits)
  next
    case (Some r)
    then have "split_colon s = before s (CHR '':'') # split_colon (tl r)"
      using split_colon_strchr [of s] by (simp only: option.case)
    then have c: "candidates filename s = ?p # candidates filename (tl r)"
      by (simp add: candidates_def join_prefix_def)
    have ne: "candidates filename (tl r) \<noteq> []" by (simp add: candidates_def)
    from less [OF strchr_tl_shorter [OF Some]] Some assms c ne show ?thesis
      by (auto simp: unf exec_plain outcome_of_def simp del: strchr_None split: option.splits)
  qed
qed

section \<open>Properties\<close>

text \<open>
  C8. With fewer than 99 arguments, enough memory, and no file of unknown format on the way,
  \<open>execlp\<close> does the search that SUSv3 asks for: a filename with a slash is tried as it is;
  any other is tried behind each prefix of \<open>PATH\<close> in turn (an empty prefix, and an unset or
  empty \<open>PATH\<close>, being the current directory) until one attempt succeeds, every attempt with all
  arguments and the whole environment.  If none succeeds it returns with \<open>EACCES\<close> if any
  attempt met it, else with the error of the last attempt.
\<close>

theorem execlp_search:
  assumes "\<forall>a. mem a" "0 < length args" "length args < 99" "\<forall>p. pk p \<noteq> Some ENOEXEC"
  shows "execlp mem (\<lambda>t. pk (fst (last t))) env filename (map Some args @ [None]) =
    (let cands = if CHR ''/'' \<in> set filename then [filename]
                 else candidates filename (case getenv ''PATH'' env of None \<Rightarrow> ''.'' | Some p \<Rightarrow> if p = [] then ''.'' else p)
     in (outcome_of pk args env cands False, map (\<lambda>p. (p, args, env)) (attempts pk cands)))"
proof -
  have v: "vec (dup_env mem 0 env) = env" by (rule vec_dup_env [OF assms(1)])
  show ?thesis
    unfolding execlp_vectors [OF assms(1-3)] Let_def exec_plain [OF assms(4)] search_path_result [OF assms(1,4)]
      vec_args v path_value_def
    by (auto simp: outcome_of_def split: option.splits)
qed

theorem execlp_search_witness:
  "execlp (\<lambda>_. True) (\<lambda>t. if fst (last t) = ''/bin/ls'' then None else Some 2) [''PATH=/usr::/bin''] ''ls'' (map Some [''ls'', ''-l''] @ [None]) =
    (NewImage ''/bin/ls'' [''ls'', ''-l''] [''PATH=/usr::/bin''],
     map (\<lambda>p. (p, [''ls'', ''-l''], [''PATH=/usr::/bin''])) [''/usr/ls'', ''./ls'', ''/bin/ls''])"
  using execlp_search [of "\<lambda>_. True" "[''ls'', ''-l'']" "\<lambda>p. if p = ''/bin/ls'' then None else Some 2" "[''PATH=/usr::/bin'']" "''ls''"]
  by (simp add: ENOEXEC_def candidates_def outcome_of_def entry_of_def strncmp_eq_def Let_def if_distrib)

text \<open>
  Outside these bounds the behaviour is undefined, because arrays are overrun: with 99
  arguments or more the call of \<open>realloc\<close> shrinks the argument vector to one pointer, and for
  a file of unknown format \<open>execShScript\<close> fills a vector that is one slot too short.
\<close>

theorem execlp_undefined:
  assumes "\<forall>a. mem a" "0 < length args"
  shows "if 99 \<le> length args then execlp mem (\<lambda>t. pk (fst (last t))) env filename (map Some args @ [None]) = (Undefined, [])
    else CHR ''/'' \<in> set filename \<and> pk filename = Some ENOEXEC \<longrightarrow>
      execlp mem (\<lambda>t. pk (fst (last t))) env filename (map Some args @ [None]) = (Undefined, [(filename, args, env)])"
proof (cases "99 \<le> length args")
  case True
  obtain a as where as: "args = a # as" using assms(2) by (cases args) auto
  have "(replicate 100 None)[0 := Some a] = map Some [a] @ replicate (100 - length [a]) None"
    by (simp add: numeral_eq_Suc)
  with build_argv_overrun [of mem "[a]" as] assms(1) as True show ?thesis by (simp add: execlp_def)
next
  case False
  then have l: "length args < 99" by simp
  have v: "vec (dup_env mem 0 env) = env" by (rule vec_dup_env [OF assms(1)])
  show ?thesis
    unfolding execlp_vectors [OF assms l] Let_def exec_or_script_def try_exec_def execShScript_overrun [OF l] vec_args v
    using False by simp
qed

theorem execlp_undefined_witness:
  "execlp (\<lambda>_. True) (\<lambda>t. (\<lambda>_. Some 8) (fst (last t))) [] ''/tmp/script'' (map Some [''script''] @ [None]) =
     (Undefined, [(''/tmp/script'', [''script''], [])])"
  using execlp_undefined [of "\<lambda>_. True" "[''script'']" "\<lambda>_. Some 8" "[]" "''/tmp/script''"] by (simp add: ENOEXEC_def)

end
