(* ===== verification/Inet_Sockets.thy ===== *)
theory Inet_Sockets
  imports Prelude
begin

text \<open>
  \<open>src/tlpi-book/sockets/inet_sockets.c\<close>: connecting to, and creating, Internet domain
  sockets from the address lists of \<open>getaddrinfo\<close>.  The calls of the socket interface are a
  parameter, the record \<open>netk\<close>, over a state \<open>'s\<close> of process and network; a descriptor of -1
  or the result \<open>False\<close> is a failed call.  The locale \<open>descriptors\<close> is what the calls do to the
  table of open descriptors.
\<close>

section \<open>The socket interface\<close>

record addrinfo =
  ai_family :: int
  ai_socktype :: int
  ai_protocol :: int
  ai_addr :: string
  ai_addrlen :: nat

record hints =
  hi_family :: int
  hi_socktype :: int
  hi_flags :: int

definition AF_UNSPEC :: int where "AF_UNSPEC = 0"
definition SOCK_STREAM :: int where "SOCK_STREAM = 1"
definition SOCK_DGRAM :: int where "SOCK_DGRAM = 2"
definition AI_PASSIVE :: int where "AI_PASSIVE = 1"
definition AI_NUMERICSERV :: int where "AI_NUMERICSERV = 1024"
definition ENOSYS :: int where "ENOSYS = 38"

record 's netk =
  k_getaddrinfo :: "string option \<Rightarrow> string \<Rightarrow> hints \<Rightarrow> 's \<Rightarrow> addrinfo list option \<times> 's"
  k_socket :: "int \<Rightarrow> int \<Rightarrow> int \<Rightarrow> 's \<Rightarrow> int \<times> 's"
  k_connect :: "int \<Rightarrow> string \<Rightarrow> nat \<Rightarrow> 's \<Rightarrow> bool \<times> 's"
  k_reuseaddr :: "int \<Rightarrow> 's \<Rightarrow> bool \<times> 's"                  \<comment> \<open>\<open>setsockopt\<close> of \<open>SO_REUSEADDR\<close>\<close>
  k_bind :: "int \<Rightarrow> string \<Rightarrow> nat \<Rightarrow> 's \<Rightarrow> bool \<times> 's"
  k_listen :: "int \<Rightarrow> nat \<Rightarrow> 's \<Rightarrow> bool \<times> 's"
  k_close :: "int \<Rightarrow> 's \<Rightarrow> bool \<times> 's"
  k_set_errno :: "int \<Rightarrow> 's \<Rightarrow> 's"

section \<open>The functions\<close>

text \<open>The walk through the list of addresses: the first socket that connects, -1 if there is
  none.\<close>

fun connect_loop :: "('s, 'x) netk_scheme \<Rightarrow> addrinfo list \<Rightarrow> 's \<Rightarrow> int \<times> 's" where
  "connect_loop K [] s = (-1, s)"
| "connect_loop K (rp # rps) s =
     (case k_socket K (ai_family rp) (ai_socktype rp) (ai_protocol rp) s of
        (sfd, s) \<Rightarrow>
          if sfd = -1 then connect_loop K rps s
          else
            (case k_connect K sfd (ai_addr rp) (ai_addrlen rp) s of
               (ok, s) \<Rightarrow> if ok then (sfd, s) else connect_loop K rps (snd (k_close K sfd s))))"

definition inetConnect :: "('s, 'x) netk_scheme \<Rightarrow> string option \<Rightarrow> string \<Rightarrow> int \<Rightarrow> 's \<Rightarrow> int \<times> 's" where
  "inetConnect K host service type s =
     (case k_getaddrinfo K host service \<lparr>hi_family = AF_UNSPEC, hi_socktype = type, hi_flags = 0\<rparr> s of
        (None, s) \<Rightarrow> (-1, k_set_errno K ENOSYS s)
      | (Some result, s) \<Rightarrow> connect_loop K result s)"

datatype bind_end = Bound int addrinfo | NoAddress | OptFailed

fun passive_loop :: "('s, 'x) netk_scheme \<Rightarrow> bool \<Rightarrow> addrinfo list \<Rightarrow> 's \<Rightarrow> bind_end \<times> 's" where
  "passive_loop K doListen [] s = (NoAddress, s)"
| "passive_loop K doListen (rp # rps) s =
     (case k_socket K (ai_family rp) (ai_socktype rp) (ai_protocol rp) s of
        (sfd, s) \<Rightarrow>
          if sfd = -1 then passive_loop K doListen rps s
          else
            (case (if doListen then k_reuseaddr K sfd s else (True, s)) of
               (False, s) \<Rightarrow> (OptFailed, snd (k_close K sfd s))
             | (True, s) \<Rightarrow>
                 (case k_bind K sfd (ai_addr rp) (ai_addrlen rp) s of
                    (ok, s) \<Rightarrow>
                      if ok then (Bound sfd rp, s)
                      else passive_loop K doListen rps (snd (k_close K sfd s)))))"

text \<open>The second component is what is stored through \<open>addrlen\<close>, if anything; the caller
  passes a null pointer with \<open>wantLen = False\<close>.\<close>

definition inetPassiveSocket ::
    "('s, 'x) netk_scheme \<Rightarrow> string \<Rightarrow> int \<Rightarrow> bool \<Rightarrow> bool \<Rightarrow> nat \<Rightarrow> 's \<Rightarrow> (int \<times> nat option) \<times> 's" where
  "inetPassiveSocket K service type wantLen doListen backlog s =
     (case k_getaddrinfo K None service \<lparr>hi_family = AF_UNSPEC, hi_socktype = type, hi_flags = AI_PASSIVE\<rparr> s of
        (None, s) \<Rightarrow> ((-1, None), s)
      | (Some result, s) \<Rightarrow>
          (case passive_loop K doListen result s of
             (OptFailed, s) \<Rightarrow> ((-1, None), s)
           | (NoAddress, s) \<Rightarrow> ((-1, None), s)
           | (Bound sfd rp, s) \<Rightarrow>
               (case (if doListen then k_listen K sfd backlog s else (True, s)) of
                  (False, s) \<Rightarrow> ((-1, None), s)
                | (True, s) \<Rightarrow> ((sfd, if wantLen then Some (ai_addrlen rp) else None), s))))"

definition inetListen :: "('s, 'x) netk_scheme \<Rightarrow> string \<Rightarrow> nat \<Rightarrow> bool \<Rightarrow> 's \<Rightarrow> (int \<times> nat option) \<times> 's" where
  "inetListen K service backlog wantLen s = inetPassiveSocket K service SOCK_STREAM wantLen True backlog s"

definition inetBind :: "('s, 'x) netk_scheme \<Rightarrow> string \<Rightarrow> int \<Rightarrow> bool \<Rightarrow> 's \<Rightarrow> (int \<times> nat option) \<times> 's" where
  "inetBind K service type wantLen s = inetPassiveSocket K service type wantLen False 0 s"

text \<open>\<open>gni\<close> is \<open>getnameinfo\<close> with \<open>NI_NUMERICSERV\<close>: host and service, or \<open>None\<close>.\<close>

definition addr_text :: "(string \<times> string) option \<Rightarrow> nat \<Rightarrow> string" where
  "addr_text hs len =
     snprintf len (case hs of Some (host, service) \<Rightarrow> ''('' @ host @ '', '' @ service @ '')'' | None \<Rightarrow> ''(?UNKNOWN?)'')"

definition inetAddressStr :: "(string \<Rightarrow> (string \<times> string) option) \<Rightarrow> string \<Rightarrow> nat \<Rightarrow> string" where
  "inetAddressStr gni addr addrStrLen = addr_text (gni addr) addrStrLen"

section \<open>Descriptors\<close>

locale descriptors =
  fixes K :: "('s, 'x) netk_scheme" and opened :: "'s \<Rightarrow> int set"
  assumes getaddrinfo: "k_getaddrinfo K h sv hi s = (r, s') \<Longrightarrow> opened s' = opened s"
    and socket: "k_socket K f t p s = (fd, s') \<Longrightarrow>
      fd = -1 \<and> opened s' = opened s \<or> 0 \<le> fd \<and> fd \<notin> opened s \<and> opened s' = insert fd (opened s)"
    and connect: "k_connect K fd a l s = (b, s') \<Longrightarrow> opened s' = opened s"
    and reuseaddr: "k_reuseaddr K fd s = (b, s') \<Longrightarrow> opened s' = opened s"
    and bind: "k_bind K fd a l s = (b, s') \<Longrightarrow> opened s' = opened s"
    and listen: "k_listen K fd n s = (b, s') \<Longrightarrow> opened s' = opened s"
    and close: "k_close K fd s = (b, s') \<Longrightarrow> opened s' = opened s - {fd}"
    and set_errno: "opened (k_set_errno K e s) = opened s"
begin

definition one_more :: "int \<Rightarrow> 's \<Rightarrow> 's \<Rightarrow> bool" where
  "one_more fd s s' \<longleftrightarrow> 0 \<le> fd \<and> fd \<notin> opened s \<and> opened s' = insert fd (opened s)"

lemma close_new: "one_more fd s s' \<Longrightarrow> opened (snd (k_close K fd s')) = opened s"
  using close [of fd s' "fst (k_close K fd s')" "snd (k_close K fd s')"] by (auto simp: one_more_def)

lemma socket_cases:
  assumes "k_socket K f t p s = (fd, s')"
  obtains "fd = -1" "opened s' = opened s" | "fd \<noteq> -1" "one_more fd s s'"
  using socket [OF assms] by (auto simp: one_more_def)

lemma connect_loop_descriptors:
  "connect_loop K rps s = (fd, s') \<Longrightarrow> fd = -1 \<and> opened s' = opened s \<or> one_more fd s s'"
proof (induction rps arbitrary: s)
  case (Cons rp rps)
  obtain sfd s1 where sock: "k_socket K (ai_family rp) (ai_socktype rp) (ai_protocol rp) s = (sfd, s1)" by force
  obtain ok s2 where con: "k_connect K sfd (ai_addr rp) (ai_addrlen rp) s1 = (ok, s2)" by force
  from sock show ?case
  proof (cases rule: socket_cases)
    case 1
    with Cons sock show ?thesis by (auto simp: one_more_def)
  next
    case 2
    then have two: "one_more sfd s s2" using connect [OF con] by (simp add: one_more_def)
    show ?thesis
    proof (cases ok)
      case True
      with two Cons.prems sock con 2 show ?thesis by auto
    next
      case False
      with Cons.prems sock con 2 have "connect_loop K rps (snd (k_close K sfd s2)) = (fd, s')" by simp
      from Cons.IH [OF this] close_new [OF two] show ?thesis by (auto simp: one_more_def)
    qed
  qed
qed simp

lemma passive_loop_descriptors:
  "passive_loop K dl rps s = (r, s') \<Longrightarrow>
   (case r of Bound fd rp \<Rightarrow> one_more fd s s' \<and> rp \<in> set rps | _ \<Rightarrow> opened s' = opened s)"
proof (induction rps arbitrary: s)
  case (Cons rp rps)
  obtain sfd s1 where sock: "k_socket K (ai_family rp) (ai_socktype rp) (ai_protocol rp) s = (sfd, s1)" by force
  obtain b s2 where opt: "(if dl then k_reuseaddr K sfd s1 else (True, s1)) = (b, s2)" by force
  obtain ok s3 where bd: "k_bind K sfd (ai_addr rp) (ai_addrlen rp) s2 = (ok, s3)" by force
  from sock show ?case
  proof (cases rule: socket_cases)
    case 1
    with Cons.prems sock have "passive_loop K dl rps s1 = (r, s')" by simp
    from Cons.IH [OF this] 1 show ?thesis by (auto simp: one_more_def split: bind_end.splits)
  next
    case 2
    have "opened s2 = opened s1" using opt reuseaddr [of sfd s1 b s2] by (auto split: if_splits)
    with 2 have two: "one_more sfd s s2" by (simp add: one_more_def)
    with bind [OF bd] have three: "one_more sfd s s3" by (simp add: one_more_def)
    show ?thesis
    proof (cases b)
      case False
      with Cons.prems sock opt 2 close_new [OF two] show ?thesis by (auto split: if_splits)
    next
      case True
      show ?thesis
      proof (cases ok)
        case True
        with \<open>b\<close> three Cons.prems sock opt bd 2 show ?thesis by (auto split: if_splits)
      next
        case False
        with \<open>b\<close> Cons.prems sock opt bd 2 have "passive_loop K dl rps (snd (k_close K sfd s3)) = (r, s')" by simp
        from Cons.IH [OF this] close_new [OF three] show ?thesis by (auto simp: one_more_def split: bind_end.splits)
      qed
    qed
  qed
qed simp

lemma inetConnect_descriptors:
  assumes "inetConnect K host sv type s = (fd, s')"
  shows "fd = -1 \<and> opened s' = opened s \<or> one_more fd s s'"
proof -
  obtain r s1 where g: "k_getaddrinfo K host sv \<lparr>hi_family = AF_UNSPEC, hi_socktype = type, hi_flags = 0\<rparr> s = (r, s1)" by force
  with assms getaddrinfo [OF g] connect_loop_descriptors [of _ s1 fd s'] show ?thesis
    by (cases r) (auto simp: inetConnect_def set_errno one_more_def)
qed

lemma inetPassiveSocket_descriptors:
  assumes "inetPassiveSocket K sv type wl dl bl s = ((fd, len), s')"
  shows "fd = -1 \<and> opened s' = opened s \<or> one_more fd s s' \<or>
    fd = -1 \<and> dl \<and> (\<exists>sfd s1. one_more sfd s s' \<and> k_listen K sfd bl s1 = (False, s'))"
proof -
  obtain r s1 where g: "k_getaddrinfo K None sv \<lparr>hi_family = AF_UNSPEC, hi_socktype = type, hi_flags = AI_PASSIVE\<rparr> s = (r, s1)" by force
  show ?thesis
  proof (cases r)
    case None
    with assms g getaddrinfo [OF g] show ?thesis by (simp add: inetPassiveSocket_def)
  next
    case (Some result)
    obtain p s2 where p: "passive_loop K dl result s1 = (p, s2)" by force
    note d = passive_loop_descriptors [OF p]
    show ?thesis
    proof (cases p)
      case (Bound sfd rp)
      obtain b s3 where l: "(if dl then k_listen K sfd bl s2 else (True, s2)) = (b, s3)" by force
      then have "opened s3 = opened s2" using listen [of sfd bl s2 b s3] by (auto split: if_splits)
      with d Bound getaddrinfo [OF g] have m: "one_more sfd s s3" by (simp add: one_more_def)
      show ?thesis
      proof (cases b)
        case True
        with assms g Some p Bound l m show ?thesis by (auto simp: inetPassiveSocket_def split: if_splits)
      next
        case False
        with l have "dl" "k_listen K sfd bl s2 = (False, s3)" by (auto split: if_splits)
        with False assms g Some p Bound l m show ?thesis by (auto simp: inetPassiveSocket_def)
      qed
    qed (use assms g Some p d getaddrinfo [OF g] in \<open>auto simp: inetPassiveSocket_def\<close>)
  qed
qed

end

section \<open>A reference network\<close>

text \<open>A host with a fixed list of addresses: those that accept connections, those that can be
  bound, and whether \<open>listen\<close> works; descriptors are numbered upwards.\<close>

record refnet =
  rn_addrs :: "addrinfo list"
  rn_up :: "string list"
  rn_free :: "string list"
  rn_listen :: bool
  rn_next :: int
  rn_open :: "int set"
  rn_errno :: int

definition ref_net :: "refnet netk" where
  "ref_net = \<lparr>
     k_getaddrinfo = (\<lambda>h sv hi s. (if rn_addrs s = [] then None else Some (rn_addrs s), s)),
     k_socket = (\<lambda>f t p s. if f < 0 \<or> rn_next s < 0 \<or> rn_next s \<in> rn_open s then (-1, s)
        else (rn_next s, s\<lparr>rn_next := rn_next s + 1, rn_open := insert (rn_next s) (rn_open s)\<rparr>)),
     k_connect = (\<lambda>fd a l s. (a \<in> set (rn_up s), s)),
     k_reuseaddr = (\<lambda>fd s. (True, s)),
     k_bind = (\<lambda>fd a l s. (a \<in> set (rn_free s), s)),
     k_listen = (\<lambda>fd n s. (rn_listen s, s)),
     k_close = (\<lambda>fd s. (True, s\<lparr>rn_open := rn_open s - {fd}\<rparr>)),
     k_set_errno = (\<lambda>e s. s\<lparr>rn_errno := e\<rparr>)\<rparr>"

interpretation rnet: descriptors ref_net rn_open
  by unfold_locales (auto simp: ref_net_def split: if_splits)

section \<open>Properties\<close>

text \<open>
  C11. Descriptors are not lost: \<open>inetConnect\<close>, \<open>inetListen\<close> and \<open>inetBind\<close> return either
  a new descriptor, the only one by which the table has grown, or -1 with every socket
  they had tried closed again; with one exception: when \<open>listen\<close> itself fails, the bound
  socket stays open although -1 is returned.
\<close>

theorem inet_descriptors:
  assumes "descriptors K opened"
    and "inetConnect K host sv type s = (fd1, s1)"
    and "inetListen K sv backlog wantLen s = ((fd2, len2), s2)"
    and "inetBind K sv type wantLen s = ((fd3, len3), s3)"
  shows "(if fd1 = -1 then opened s1 = opened s else fd1 \<notin> opened s \<and> opened s1 = insert fd1 (opened s)) \<and>
    (if fd3 = -1 then opened s3 = opened s else fd3 \<notin> opened s \<and> opened s3 = insert fd3 (opened s)) \<and>
    (if fd2 = -1 then opened s2 = opened s \<or>
         (\<exists>fd s'. k_listen K fd backlog s' = (False, s2) \<and> fd \<notin> opened s \<and> opened s2 = insert fd (opened s))
     else fd2 \<notin> opened s \<and> opened s2 = insert fd2 (opened s))"
  using descriptors.inetConnect_descriptors [OF assms(1,2)]
    descriptors.inetPassiveSocket_descriptors [OF assms(1) assms(3) [unfolded inetListen_def]]
    descriptors.inetPassiveSocket_descriptors [OF assms(1) assms(4) [unfolded inetBind_def]]
  by (auto simp: descriptors.one_more_def [OF assms(1)])

definition two_hosts :: refnet where
  "two_hosts = \<lparr>rn_addrs = [\<lparr>ai_family = 10, ai_socktype = 1, ai_protocol = 6, ai_addr = ''v6'', ai_addrlen = 28\<rparr>,
       \<lparr>ai_family = 2, ai_socktype = 1, ai_protocol = 6, ai_addr = ''v4'', ai_addrlen = 16\<rparr>],
     rn_up = [''v4''], rn_free = [''v6''], rn_listen = False, rn_next = 3, rn_open = {0, 1, 2}, rn_errno = 0\<rparr>"

theorem inet_descriptors_witness:
  "fst (inetConnect ref_net (Some ''h'') ''80'' SOCK_STREAM two_hosts) = 4 \<and>
   rn_open (snd (inetConnect ref_net (Some ''h'') ''80'' SOCK_STREAM two_hosts)) = {0, 1, 2, 4} \<and>
   fst (inetListen ref_net ''80'' 5 True two_hosts) = (-1, None) \<and>
   rn_open (snd (inetListen ref_net ''80'' 5 True two_hosts)) \<noteq> rn_open two_hosts"
proof -
  have c: "inetConnect ref_net (Some ''h'') ''80'' SOCK_STREAM two_hosts = (4, two_hosts\<lparr>rn_next := 5, rn_open := {0, 1, 2, 4}\<rparr>)"
    and l: "inetListen ref_net ''80'' 5 True two_hosts = ((-1, None), two_hosts\<lparr>rn_next := 4, rn_open := {0, 1, 2, 3}\<rparr>)"
    and b: "inetBind ref_net ''80'' SOCK_STREAM True two_hosts = ((3, Some 28), two_hosts\<lparr>rn_next := 4, rn_open := {0, 1, 2, 3}\<rparr>)"
    by (auto simp: inetConnect_def inetListen_def inetBind_def inetPassiveSocket_def ref_net_def two_hosts_def)
  have "rn_open (two_hosts\<lparr>rn_next := 4, rn_open := {0, 1, 2, 3}\<rparr>) \<noteq> rn_open two_hosts"
    by (auto simp: two_hosts_def set_eq_iff intro!: exI [of _ 3])
  with inet_descriptors [OF rnet.descriptors_axioms c l b] c l show ?thesis by simp
qed

end
