(* ===== verification/Seqnum.thy ===== *)
theory Seqnum
  imports Inet_Sockets Read_Line Get_Num
begin

text \<open>
  The sequence number service over TCP: \<open>src/tlpi-book/sockets/is_seqnum_sv.c\<close> and
  \<open>is_seqnum_cl.c\<close>, and their second versions \<open>is_seqnum_v2_sv.c\<close> and \<open>is_seqnum_v2_cl.c\<close> on top
  of \<open>inet_sockets.c\<close>.  Requests and replies are lines read with \<open>readLine\<close>.  The servers run
  for ever; the model gives their state after any number of rounds.
\<close>

definition PORT_NUM :: string where "PORT_NUM = ''50000''"
definition INT_LEN :: nat where "INT_LEN = 30"
definition BACKLOG :: nat where "BACKLOG = 50"
definition ADDRSTRLEN :: nat where "ADDRSTRLEN = 1025 + 32 + 10"
definition IS_ADDR_STR_LEN :: nat where "IS_ADDR_STR_LEN = 4096"

record 's srvk = "'s netk" +
  k_accept :: "int \<Rightarrow> 's \<Rightarrow> (int \<times> string) \<times> 's"
  k_read :: "int \<Rightarrow> 's reader"
  k_write :: "int \<Rightarrow> 's writer"
  k_ignore_sigpipe :: "'s \<Rightarrow> bool \<times> 's"

text \<open>The C string that \<open>readLine\<close> leaves in the buffer when it returns \<open>c\<close>.\<close>

definition line_text :: "nat \<Rightarrow> string \<Rightarrow> string" where
  "line_text c mem = takeWhile (\<lambda>x. x \<noteq> CHR 0x00) (take c mem)"

section \<open>The servers\<close>

record 's seqsv =
  sv_seq :: "32 word"
  sv_kern :: 's
  sv_out :: "string list"
  sv_err :: "string list"

text \<open>A connection that has been accepted: read the request, send the number, count on.  \<open>None\<close>:
  interrupted for ever by signals.\<close>

definition close_conn :: "('s, 'x) srvk_scheme \<Rightarrow> int \<Rightarrow> 's seqsv \<Rightarrow> 's seqsv" where
  "close_conn K cfd s = s\<lparr>sv_kern := snd (k_close K cfd (sv_kern s))\<rparr>"

definition handle_conn :: "('s, 'x) srvk_scheme \<Rightarrow> int \<Rightarrow> 's seqsv \<Rightarrow> 's seqsv option" where
  "handle_conn K cfd s =
     (case readLine (k_read K cfd) False INT_LEN (sv_kern s) of
        None \<Rightarrow> None
      | Some (Fail e, mem, k) \<Rightarrow> Some (close_conn K cfd (s\<lparr>sv_kern := k\<rparr>))
      | Some (Count c, mem, k) \<Rightarrow>
          (let reqLen = atoi (line_text c mem) in
           if c = 0 \<or> reqLen \<le> 0 then Some (close_conn K cfd (s\<lparr>sv_kern := k\<rparr>))
           else
             (let seqNumStr = snprintf INT_LEN (show_int (sint (sv_seq s)) @ [nl]);
                  (w, k) = k_write K cfd k seqNumStr;
                  e1 = (if w = Wrote (length seqNumStr) then [] else [''Error on write'']);
                  (ok, k) = k_close K cfd k;
                  e2 = (if ok then [] else [''close''])
              in Some (s\<lparr>sv_kern := k, sv_seq := sv_seq s + word_of_int reqLen, sv_err := sv_err s @ e1 @ e2\<rparr>))))"

text \<open>One round of the server loop; \<open>addrStr\<close> prints the address of the client.\<close>

definition sv_round :: "('s, 'x) srvk_scheme \<Rightarrow> (string \<Rightarrow> string) \<Rightarrow> int \<Rightarrow> 's seqsv \<Rightarrow> 's seqsv option" where
  "sv_round K addrStr lfd s =
     (case k_accept K lfd (sv_kern s) of
        ((cfd, claddr), k) \<Rightarrow>
          if cfd = -1 then Some (s\<lparr>sv_kern := k, sv_err := sv_err s @ [''accept'']\<rparr>)
          else handle_conn K cfd (s\<lparr>sv_kern := k, sv_out := sv_out s @ [''Connection from '' @ addrStr claddr]\<rparr>))"

fun sv_rounds :: "('s, 'x) srvk_scheme \<Rightarrow> (string \<Rightarrow> string) \<Rightarrow> int \<Rightarrow> nat \<Rightarrow> 's seqsv \<Rightarrow> 's seqsv option" where
  "sv_rounds K addrStr lfd 0 s = Some s"
| "sv_rounds K addrStr lfd (Suc n) s =
     (case sv_round K addrStr lfd s of None \<Rightarrow> None | Some s \<Rightarrow> sv_rounds K addrStr lfd n s)"

text \<open>Before the loop: \<open>Exited 1\<close> for \<open>usageErr\<close>, \<open>errExit\<close> and \<open>fatal\<close>.\<close>

definition init_seq :: "string list \<Rightarrow> (32 word) option" where
  "init_seq argv =
     (if length argv > 1 then
        (if argv ! 1 = ''--help'' then None
         else (case getInt (Some (argv ! 1)) 0 (Some ''init-seq-num'') of Inl _ \<Rightarrow> None | Inr i \<Rightarrow> Some (word_of_int i)))
      else Some 0)"

fun sv_bind_loop :: "('s, 'x) srvk_scheme \<Rightarrow> addrinfo list \<Rightarrow> 's \<Rightarrow> bind_end \<times> 's" where
  "sv_bind_loop K [] s = (NoAddress, s)"
| "sv_bind_loop K (rp # rps) s =
     (case k_socket K (ai_family rp) (ai_socktype rp) (ai_protocol rp) s of
        (lfd, s) \<Rightarrow>
          if lfd = -1 then sv_bind_loop K rps s
          else
            (case k_reuseaddr K lfd s of
               (False, s) \<Rightarrow> (OptFailed, s)
             | (True, s) \<Rightarrow>
                 (case k_bind K lfd (ai_addr rp) (ai_addrlen rp) s of
                    (ok, s) \<Rightarrow> if ok then (Bound lfd rp, s) else sv_bind_loop K rps (snd (k_close K lfd s)))))"

definition is_seqnum_sv_start :: "('s, 'x) srvk_scheme \<Rightarrow> string list \<Rightarrow> 's \<Rightarrow> (int \<times> 32 word, 's) outcome" where
  "is_seqnum_sv_start K argv s =
     (case init_seq argv of
        None \<Rightarrow> Exited 1 s
      | Some seqNum \<Rightarrow>
          (case k_ignore_sigpipe K s of (ok, s) \<Rightarrow>
             if \<not> ok then Exited 1 s
             else
               (case k_getaddrinfo K None PORT_NUM
                   \<lparr>hi_family = AF_UNSPEC, hi_socktype = SOCK_STREAM, hi_flags = AI_PASSIVE + AI_NUMERICSERV\<rparr> s of
                  (None, s) \<Rightarrow> Exited 1 s
                | (Some result, s) \<Rightarrow>
                    (case sv_bind_loop K result s of
                       (Bound lfd rp, s) \<Rightarrow>
                         (case k_listen K lfd BACKLOG s of
                            (ok, s) \<Rightarrow> if ok then Ret (lfd, seqNum) s else Exited 1 s)
                     | (_, s) \<Rightarrow> Exited 1 s))))"

text \<open>\<open>main\<close> of \<open>is_seqnum_sv.c\<close> as far as the \<open>n\<close>-th round; \<open>gni\<close> is \<open>getnameinfo\<close>.\<close>

definition new_sv :: "32 word \<Rightarrow> 's \<Rightarrow> 's seqsv" where
  "new_sv q s = \<lparr>sv_seq = q, sv_kern = s, sv_out = [], sv_err = []\<rparr>"

definition is_seqnum_sv_main ::
    "('s, 'x) srvk_scheme \<Rightarrow> (string \<Rightarrow> (string \<times> string) option) \<Rightarrow> string list \<Rightarrow> nat \<Rightarrow> 's \<Rightarrow>
     (unit, 's seqsv) outcome option" where
  "is_seqnum_sv_main K gni argv n s =
     (case is_seqnum_sv_start K argv s of
        Ret (lfd, q) s \<Rightarrow>
          map_option (Ret ()) (sv_rounds K (\<lambda>a. addr_text (gni a) ADDRSTRLEN) lfd n (new_sv q s))
      | Exited c s \<Rightarrow> Some (Exited c (new_sv 0 s))
      | Aborted s \<Rightarrow> Some (Aborted (new_sv 0 s))
      | Undefd \<Rightarrow> Some Undefd)"

text \<open>The second version, with \<open>inetListen\<close> and \<open>inetAddressStr\<close>.  The result of \<open>malloc\<close> is the
  parameter \<open>mem\<close>.\<close>

definition is_seqnum_v2_sv_start ::
    "('s, 'x) srvk_scheme \<Rightarrow> bool \<Rightarrow> string list \<Rightarrow> 's \<Rightarrow> (int \<times> 32 word, 's) outcome" where
  "is_seqnum_v2_sv_start K mem argv s =
     (case init_seq argv of
        None \<Rightarrow> Exited 1 s
      | Some seqNum \<Rightarrow>
          (case k_ignore_sigpipe K s of (ok, s) \<Rightarrow>
             if \<not> ok then Exited 1 s
             else (case inetListen K PORT_NUM 5 True s of ((lfd, addrlen), s) \<Rightarrow>
                     if lfd = -1 \<or> \<not> mem then Exited 1 s else Ret (lfd, seqNum) s)))"

definition is_seqnum_v2_sv_main ::
    "('s, 'x) srvk_scheme \<Rightarrow> bool \<Rightarrow> (string \<Rightarrow> (string \<times> string) option) \<Rightarrow> string list \<Rightarrow> nat \<Rightarrow> 's \<Rightarrow>
     (unit, 's seqsv) outcome option" where
  "is_seqnum_v2_sv_main K mem gni argv n s =
     (case is_seqnum_v2_sv_start K mem argv s of
        Ret (lfd, q) s \<Rightarrow>
          map_option (Ret ()) (sv_rounds K (\<lambda>a. inetAddressStr gni a IS_ADDR_STR_LEN) lfd n (new_sv q s))
      | Exited c s \<Rightarrow> Some (Exited c (new_sv 0 s))
      | Aborted s \<Rightarrow> Some (Aborted (new_sv 0 s))
      | Undefd \<Rightarrow> Some Undefd)"

section \<open>The clients\<close>

record 's seqcl =
  cl_kern :: 's
  cl_out :: string

text \<open>The exchange on a connected socket: send the length, read and print the number.\<close>

definition cl_exchange :: "('s, 'x) srvk_scheme \<Rightarrow> int \<Rightarrow> string list \<Rightarrow> 's \<Rightarrow> (unit, 's seqcl) outcome option" where
  "cl_exchange K cfd argv s =
     (let reqLenStr = (if length argv > 2 then argv ! 2 else ''1'');
          (w1, s) = k_write K cfd s reqLenStr
      in if w1 \<noteq> Wrote (length reqLenStr) then Some (Exited 1 \<lparr>cl_kern = s, cl_out = []\<rparr>)
         else
           (let (w2, s) = k_write K cfd s [nl] in
            if w2 \<noteq> Wrote 1 then Some (Exited 1 \<lparr>cl_kern = s, cl_out = []\<rparr>)
            else
              (case readLine (k_read K cfd) False INT_LEN s of
                 None \<Rightarrow> None
               | Some (Fail e, mem, s) \<Rightarrow> Some (Exited 1 \<lparr>cl_kern = s, cl_out = []\<rparr>)
               | Some (Count c, mem, s) \<Rightarrow>
                   if c = 0 then Some (Exited 1 \<lparr>cl_kern = s, cl_out = []\<rparr>)
                   else Some (Exited 0 \<lparr>cl_kern = s, cl_out = ''Sequence number: '' @ line_text c mem\<rparr>))))"

definition is_seqnum_cl_main :: "('s, 'x) srvk_scheme \<Rightarrow> string list \<Rightarrow> 's \<Rightarrow> (unit, 's seqcl) outcome option" where
  "is_seqnum_cl_main K argv s =
     (if length argv < 2 \<or> argv ! 1 = ''--help'' then Some (Exited 1 \<lparr>cl_kern = s, cl_out = []\<rparr>)
      else
        (case k_getaddrinfo K (Some (argv ! 1)) PORT_NUM
            \<lparr>hi_family = AF_UNSPEC, hi_socktype = SOCK_STREAM, hi_flags = AI_NUMERICSERV\<rparr> s of
           (None, s) \<Rightarrow> Some (Exited 1 \<lparr>cl_kern = s, cl_out = []\<rparr>)
         | (Some result, s) \<Rightarrow>
             (case connect_loop K result s of (cfd, s) \<Rightarrow>
                if cfd = -1 then Some (Exited 1 \<lparr>cl_kern = s, cl_out = []\<rparr>) else cl_exchange K cfd argv s)))"

definition is_seqnum_v2_cl_main :: "('s, 'x) srvk_scheme \<Rightarrow> string list \<Rightarrow> 's \<Rightarrow> (unit, 's seqcl) outcome option" where
  "is_seqnum_v2_cl_main K argv s =
     (if length argv < 2 \<or> argv ! 1 = ''--help'' then Some (Exited 1 \<lparr>cl_kern = s, cl_out = []\<rparr>)
      else
        (case inetConnect K (Some (argv ! 1)) PORT_NUM SOCK_STREAM s of (cfd, s) \<Rightarrow>
           if cfd = -1 then Some (Exited 1 \<lparr>cl_kern = s, cl_out = []\<rparr>) else cl_exchange K cfd argv s))"

section \<open>The contract of the connections\<close>

text \<open>What \<open>readLine\<close> cannot change because \<open>read\<close> does not.\<close>

lemma readLine_loop_keeps:
  assumes "readLine_loop rd n buf k = Some y"
  shows "(\<forall>k n. F (snd (rd k n)) = F k) \<longrightarrow> F (snd (snd y)) = F k"
proof (rule readLine_loop.raw_induct [OF _ assms])
  fix f and rd :: "'a reader" and n buf k y
  assume IH: "\<And>rd n buf k y. f rd n buf k = Some y \<Longrightarrow> (\<forall>k n. F (snd (rd k n)) = F k) \<longrightarrow> F (snd (snd y)) = F k"
    and r: "(case rd k 1 of
        (Data bs, k') \<Rightarrow> (case bs of [] \<Rightarrow> if length buf = 0 then Some (Count 0, buf, k')
              else Some (Count (length buf), buf @ [CHR 0x00], k')
            | ch # _ \<Rightarrow> if ch = nl then (let buf' = if length buf < n - 1 then buf @ [ch] else buf
                 in Some (Count (length buf'), buf' @ [CHR 0x00], k'))
               else f rd n (if length buf < n - 1 then buf @ [ch] else buf) k')
      | (ReadErr e, k') \<Rightarrow> if e = EINTR then f rd n buf k' else Some (Fail e, buf, k')) = Some y"
  show "(\<forall>k n. F (snd (rd k n)) = F k) \<longrightarrow> F (snd (snd y)) = F k"
  proof
    assume keep: "\<forall>k n. F (snd (rd k n)) = F k"
    obtain x k' where x: "rd k 1 = (x, k')" by fastforce
    with keep have k': "F k' = F k" by (metis snd_conv)
    from r x k' IH keep show "F (snd (snd y)) = F k"
      by (auto simp: Let_def split: io_read.splits list.splits if_splits)
  qed
qed

lemma readLine_keeps:
  assumes "readLine rd b n k = Some (r, mem, k')" and "\<And>k n. F (snd (rd k n)) = F k"
  shows "F k' = F k"
  using readLine_loop_keeps [of rd n "[]" k "(r, mem, k')" F] assms
  by (auto simp: readLine_def split: if_splits)

text \<open>\<open>waiting\<close>: what the clients whose connections are not accepted yet send; \<open>inp fd\<close>: what is
  still to be read on a connection; \<open>sent fd\<close>: what has been written to it; \<open>served\<close>: what the
  clients of the closed connections have received, in the order of closing.\<close>

locale clients =
  fixes K :: "('s, 'x) srvk_scheme" and lfd :: int
    and waiting :: "'s \<Rightarrow> string list" and inp sent :: "int \<Rightarrow> 's \<Rightarrow> string" and served :: "'s \<Rightarrow> string list"
    and budget :: "'s \<Rightarrow> nat"
  assumes accept: "waiting s = p # ps \<Longrightarrow>
      \<exists>cfd a s'. k_accept K lfd s = ((cfd, a), s') \<and> cfd \<noteq> -1 \<and> waiting s' = ps \<and> inp cfd s' = p \<and>
        sent cfd s' = [] \<and> served s' = served s"
    and reads: "byte_source (k_read K fd) (inp fd) budget"
    and read_keeps: "waiting (snd (k_read K fd s n)) = waiting s" "sent fd (snd (k_read K fd s n)) = sent fd s"
      "served (snd (k_read K fd s n)) = served s"
    and writes: "\<exists>s'. k_write K fd s d = (Wrote (length d), s') \<and> waiting s' = waiting s \<and>
      sent fd s' = sent fd s @ d \<and> served s' = served s"
    and closes: "\<exists>s'. k_close K fd s = (True, s') \<and> waiting s' = waiting s \<and> served s' = served s @ [sent fd s]"

text \<open>The service: the reply to a request and the next number.  A request is the first 29 bytes
  of a line; one that is no positive number gets no reply.\<close>

definition request_len :: "string \<Rightarrow> int" where
  "request_len p = atoi (takeWhile (\<lambda>x. x \<noteq> CHR 0x00) (take 29 (first_line p)))"

fun service :: "32 word \<Rightarrow> string list \<Rightarrow> string list \<times> 32 word" where
  "service q [] = ([], q)"
| "service q (p # ps) =
     (if p = [] \<or> request_len p \<le> 0 then map_prod ((#) []) id (service q ps)
      else map_prod ((#) (show_int (sint q) @ [nl])) id (service (q + word_of_int (request_len p)) ps))"

lemma reply_fits: "snprintf INT_LEN (show_int (sint (q :: 32 word)) @ [nl]) = show_int (sint q) @ [nl]"
proof -
  have "- (2 ^ 31) \<le> sint q" "sint q < 2 ^ 31"
    using sint_greater_eq [of q] sint_less [of q] by simp_all
  then have "length (show_nat (nat \<bar>sint q\<bar>)) \<le> 10" by (intro show_nat_length) auto
  then have "length (show_int (sint q)) \<le> 11" by (auto simp: show_int_def abs_if split: if_splits)
  then show ?thesis by (intro snprintf_fits) (simp add: INT_LEN_def)
qed

context clients
begin

lemma sv_round_serves:
  assumes "waiting (sv_kern s) = p # ps"
  shows "\<exists>s'. sv_round K f lfd s = Some s' \<and> waiting (sv_kern s') = ps \<and>
    (sv_seq s', served (sv_kern s')) =
      (if p = [] \<or> request_len p \<le> 0 then (sv_seq s, served (sv_kern s) @ [[]])
       else (sv_seq s + word_of_int (request_len p), served (sv_kern s) @ [show_int (sint (sv_seq s)) @ [nl]])) \<and>
    sv_err s' = sv_err s"
proof -
  from accept [OF assms] obtain cfd a k1 where acc: "k_accept K lfd (sv_kern s) = ((cfd, a), k1)" "cfd \<noteq> -1"
    and k1: "waiting k1 = ps" "inp cfd k1 = p" "sent cfd k1 = []" "served k1 = served (sv_kern s)" by blast
  let ?c = "min 29 (length (first_line p))"
  from line_source.get_line [OF byte_source.readLine_source [OF reads], of INT_LEN cfd k1] k1
  obtain mem k2 where rl: "readLine (k_read K cfd) False INT_LEN k1 = Some (Count ?c, mem, k2)"
    and mem: "take 29 (first_line p) = take ?c mem" by (auto simp: INT_LEN_def)
  have k2: "waiting k2 = ps" "sent cfd k2 = []" "served k2 = served (sv_kern s)"
    using readLine_keeps [OF rl, of waiting] readLine_keeps [OF rl, of "sent cfd"] readLine_keeps [OF rl, of served]
      read_keeps k1 by simp_all
  have len: "atoi (line_text ?c mem) = request_len p" by (simp add: line_text_def request_len_def mem)
  have c0: "?c = 0 \<longleftrightarrow> p = []" using first_line_Nil [of p] by (auto simp: min_def simp del: first_line_Nil)
  let ?r = "show_int (sint (sv_seq s)) @ [nl]"
  from writes [of cfd k2 ?r] obtain k3 where w: "k_write K cfd k2 ?r = (Wrote (length ?r), k3)"
    and k3: "waiting k3 = ps" "sent cfd k3 = ?r" "served k3 = served (sv_kern s)" using k2 by auto
  from closes [of cfd k3] obtain k4 where c4: "k_close K cfd k3 = (True, k4)"
    "waiting k4 = ps" "served k4 = served (sv_kern s) @ [?r]" using k3 by auto
  from closes [of cfd k2] obtain k5 where c5: "k_close K cfd k2 = (True, k5)"
    "waiting k5 = ps" "served k5 = served (sv_kern s) @ [[]]" using k2 by auto
  show ?thesis
    using acc rl len c0 w c4 c5
    by (auto simp: sv_round_def handle_conn_def close_conn_def reply_fits Let_def)
qed

lemma sv_rounds_serve:
  "waiting (sv_kern s) = ps \<Longrightarrow>
   \<exists>s'. sv_rounds K f lfd (length ps) s = Some s' \<and> sv_seq s' = snd (service (sv_seq s) ps) \<and>
     served (sv_kern s') = served (sv_kern s) @ fst (service (sv_seq s) ps) \<and> sv_err s' = sv_err s"
proof (induction ps arbitrary: s)
  case (Cons p ps)
  from sv_round_serves [OF Cons.prems] obtain s1 where s1: "sv_round K f lfd s = Some s1" "waiting (sv_kern s1) = ps"
    "(sv_seq s1, served (sv_kern s1)) =
      (if p = [] \<or> request_len p \<le> 0 then (sv_seq s, served (sv_kern s) @ [[]])
       else (sv_seq s + word_of_int (request_len p), served (sv_kern s) @ [show_int (sint (sv_seq s)) @ [nl]]))"
    "sv_err s1 = sv_err s" by blast
  from Cons.IH [OF s1(2)] s1 show ?case by (cases "p = [] \<or> request_len p \<le> 0") auto
qed simp

end

text \<open>Well-formed requests.\<close>

lemma request_len_num:
  assumes "0 < r" "r \<le> INT_MAX"
  shows "request_len (show_nat (nat r) @ [nl]) = r"
proof -
  have dig: "c \<noteq> nl \<and> c \<noteq> CHR 0x00" if "c \<in> set (show_nat (nat r))" for c
    using show_nat_digits [OF that] by (auto simp: is_digit_in_def digit_val_def Let_def)
  have "length (show_nat (nat r)) \<le> 10" using assms by (intro show_nat_length) (auto simp: INT_MAX_def)
  moreover have "first_line (show_nat (nat r) @ [nl]) = show_nat (nat r) @ [nl]"
    using dig by (auto simp: first_line_def before_def takeWhile_append2)
  ultimately have t: "takeWhile (\<lambda>x. x \<noteq> CHR 0x00) (take 29 (first_line (show_nat (nat r) @ [nl]))) = show_nat (nat r) @ [nl]"
    using dig by (auto simp: takeWhile_eq_all_conv)
  have "strtol (show_int r @ [nl]) 10 = (r, [nl], False)"
    by (rule strtol_show_int) (use assms in \<open>auto simp: LONG_MIN_def LONG_MAX_def INT_MAX_def is_digit_in_def digit_val_def Let_def\<close>)
  then have "atoi (show_nat (nat r) @ [nl]) = r"
    using assms cast_int_id [of r] by (simp add: atoi_def show_int_def INT_MIN_def)
  with t show ?thesis by (simp add: request_len_def)
qed

lemma service_numbers:
  assumes "\<forall>r\<in>set rs. 0 < r \<and> r \<le> INT_MAX" "uint q + sum_list rs < 2 ^ 31"
  shows "service q (map (\<lambda>r. show_nat (nat r) @ [nl]) rs) =
    (map (\<lambda>i. show_int (uint q + sum_list (take i rs)) @ [nl]) [0..<length rs], q + word_of_int (sum_list rs))"
  using assms
proof (induction rs arbitrary: q)
  case (Cons r rs)
  have nonneg: "0 \<le> sum_list rs" using Cons.prems(1) by (intro sum_list_nonneg) auto
  have r: "0 < r" "r \<le> INT_MAX" using Cons.prems(1) by auto
  have u: "uint (q + word_of_int r) = uint q + r"
  proof -
    have "0 \<le> uint q + r" "uint q + r < 2 ^ 32" using Cons.prems(2) nonneg r by simp_all
    then show ?thesis by (simp add: uint_word_ariths unsigned_of_int take_bit_eq_mod mod_add_right_eq)
  qed
  have s: "sint q = uint q"
    unfolding sint_uint
    by (rule signed_take_bit_int_eq_self) (rule order_trans [OF _ uint_ge_0], simp, use Cons.prems(2) nonneg r in simp)
  from Cons.IH [of "q + word_of_int r"] Cons.prems u
  have "service (q + word_of_int r) (map (\<lambda>r. show_nat (nat r) @ [nl]) rs) =
     (map (\<lambda>i. show_int (uint q + r + sum_list (take i rs)) @ [nl]) [0..<length rs], q + word_of_int r + word_of_int (sum_list rs))"
    by (simp add: ac_simps)
  moreover have "[0..<length (r # rs)] = 0 # map Suc [0..<length rs]" by (simp add: map_Suc_upt upt_conv_Cons del: upt_Suc)
  ultimately show ?case
    using request_len_num [OF r] r s by (simp add: comp_def ac_simps)
qed simp

section \<open>A reference network\<close>

text \<open>One connection at a time: what is left of its input, the output so far.  Every third read
  is interrupted as long as \<open>rc_intr\<close> lasts.\<close>

record refconn =
  rc_waiting :: "string list"
  rc_in :: string
  rc_sent :: string
  rc_served :: "string list"
  rc_intr :: nat

definition ref_read :: "refconn reader" where
  "ref_read s n =
     (if 0 < rc_intr s then (ReadErr EINTR, s\<lparr>rc_intr := rc_intr s - 1\<rparr>)
      else (Data (take n (rc_in s)), s\<lparr>rc_in := drop n (rc_in s)\<rparr>))"

definition ref_conn :: "refconn srvk" where
  "ref_conn = \<lparr>
     k_getaddrinfo = (\<lambda>h sv hi s. (Some [\<lparr>ai_family = 2, ai_socktype = 1, ai_protocol = 6, ai_addr = [], ai_addrlen = 16\<rparr>], s)),
     k_socket = (\<lambda>f t p s. (3, s)), k_connect = (\<lambda>fd a l s. (True, s)), k_reuseaddr = (\<lambda>fd s. (True, s)),
     k_bind = (\<lambda>fd a l s. (True, s)), k_listen = (\<lambda>fd n s. (True, s)),
     k_close = (\<lambda>fd s. (True, s\<lparr>rc_served := rc_served s @ [rc_sent s]\<rparr>)), k_set_errno = (\<lambda>e s. s),
     k_accept = (\<lambda>lfd s. case rc_waiting s of [] \<Rightarrow> ((-1, []), s)
       | p # ps \<Rightarrow> ((4, []), s\<lparr>rc_waiting := ps, rc_in := p, rc_sent := []\<rparr>)),
     k_read = (\<lambda>fd. ref_read),
     k_write = (\<lambda>fd s d. (Wrote (length d), s\<lparr>rc_sent := rc_sent s @ d\<rparr>)),
     k_ignore_sigpipe = (\<lambda>s. (True, s))\<rparr>"

interpretation rconn: clients ref_conn lfd rc_waiting "\<lambda>fd. rc_in" "\<lambda>fd. rc_sent" rc_served rc_intr for lfd
proof unfold_locales
  show "k_read ref_conn fd s n = (Data bs, s') \<Longrightarrow> 0 < n \<Longrightarrow>
      rc_in s = bs @ rc_in s' \<and> length bs \<le> n \<and> rc_intr s' \<le> rc_intr s" for fd s n bs s'
    by (auto simp: ref_conn_def ref_read_def split: if_splits)
  show "k_read ref_conn fd s n = (Data [], s') \<Longrightarrow> 0 < n \<Longrightarrow> rc_in s = []" for fd s n s'
    by (auto simp: ref_conn_def ref_read_def split: if_splits)
  show "k_read ref_conn fd s n = (ReadErr e, s') \<Longrightarrow> e = EINTR \<and> rc_in s' = rc_in s \<and> rc_intr s' < rc_intr s" for fd s n e s'
    by (auto simp: ref_conn_def ref_read_def split: if_splits)
qed (auto simp: ref_conn_def ref_read_def)

section \<open>Properties\<close>

text \<open>
  C7. Both sequence number servers, whatever their clients send and however often signals
  interrupt them: after serving all waiting clients, each client that sent a positive number
  has received the current number and every other one nothing, in the order of acceptance,
  and only good requests have moved the number.  When all requests are well-formed and the
  numbers stay below \<open>2 ^ 31\<close>, the replies are the running sums, so that the granted ranges
  \<open>[reply, reply + request)\<close> follow each other without overlap or gap.
\<close>

theorem seqnum_service:
  assumes "clients K lfd waiting inp sent served budget"
  shows "\<exists>s'. sv_rounds K addrStr lfd (length (waiting k)) (new_sv q k) = Some s' \<and>
    sv_seq s' = snd (service q (waiting k)) \<and>
    served (sv_kern s') = served k @ fst (service q (waiting k)) \<and> sv_err s' = [] \<and>
    (\<forall>rs. waiting k = map (\<lambda>r. show_nat (nat r) @ [nl]) rs \<and> (\<forall>r\<in>set rs. 0 < r \<and> r \<le> INT_MAX) \<and>
        uint q + sum_list rs < 2 ^ 31 \<longrightarrow>
      served (sv_kern s') = served k @ map (\<lambda>i. show_int (uint q + sum_list (take i rs)) @ [nl]) [0..<length rs] \<and>
      sv_seq s' = q + word_of_int (sum_list rs))"
proof -
  from clients.sv_rounds_serve [OF assms, of "new_sv q k" "waiting k" addrStr] obtain s' where
    s': "sv_rounds K addrStr lfd (length (waiting k)) (new_sv q k) = Some s'"
    "sv_seq s' = snd (service q (waiting k))" "served (sv_kern s') = served k @ fst (service q (waiting k))" "sv_err s' = []"
    by (auto simp: new_sv_def)
  show ?thesis
  proof (intro exI [of _ s'] conjI allI impI s')
    fix rs
    assume rs: "waiting k = map (\<lambda>r. show_nat (nat r) @ [nl]) rs \<and> (\<forall>r\<in>set rs. 0 < r \<and> r \<le> INT_MAX) \<and>
        uint q + sum_list rs < 2 ^ 31"
    then have "service q (waiting k) =
       (map (\<lambda>i. show_int (uint q + sum_list (take i rs)) @ [nl]) [0..<length rs], q + word_of_int (sum_list rs))"
      using service_numbers [of rs q] by simp
    with s' show "served (sv_kern s') = served k @ map (\<lambda>i. show_int (uint q + sum_list (take i rs)) @ [nl]) [0..<length rs]"
      and "sv_seq s' = q + word_of_int (sum_list rs)" by simp_all
  qed
qed

theorem seqnum_service_witness:
  "\<exists>s'. sv_rounds ref_conn (\<lambda>a. a) 3 2 (new_sv 100 \<lparr>rc_waiting = [show_nat 5 @ [nl], show_nat 7 @ [nl]], rc_in = [], rc_sent = [],
       rc_served = [], rc_intr = 2\<rparr>) = Some s' \<and>
     rc_served (sv_kern s') = [show_int 100 @ [nl], show_int 105 @ [nl]]"
proof -
  define k where "k = \<lparr>rc_waiting = [show_nat 5 @ [nl], show_nat 7 @ [nl]], rc_in = [], rc_sent = [], rc_served = [], rc_intr = 2\<rparr>"
  have w: "rc_waiting k = map (\<lambda>r. show_nat (nat r) @ [nl]) [5, 7]" "rc_served k = []" by (simp_all add: k_def)
  obtain s' where
    s': "sv_rounds ref_conn (\<lambda>a. a) 3 (length (rc_waiting k)) (new_sv 100 k) = Some s'"
    "\<forall>rs. rc_waiting k = map (\<lambda>r. show_nat (nat r) @ [nl]) rs \<and> (\<forall>r\<in>set rs. 0 < r \<and> r \<le> INT_MAX) \<and>
        uint (100 :: 32 word) + sum_list rs < 2 ^ 31 \<longrightarrow>
      rc_served (sv_kern s') = rc_served k @ map (\<lambda>i. show_int (uint (100 :: 32 word) + sum_list (take i rs)) @ [nl]) [0..<length rs] \<and>
      sv_seq s' = 100 + word_of_int (sum_list rs)"
    using seqnum_service [OF rconn.clients_axioms, of "\<lambda>a. a" 3 k 100] by (elim exE conjE) (rule that)
  have prem: "rc_waiting k = map (\<lambda>r. show_nat (nat r) @ [nl]) [5, 7] \<and> (\<forall>r\<in>set [5, 7]. 0 < r \<and> r \<le> INT_MAX) \<and>
      uint (100 :: 32 word) + sum_list [5, 7] < 2 ^ 31" using w(1) by (simp add: INT_MAX_def)
  have upt: "[0..<length [5 :: int, 7]] = [0, Suc 0]" by (simp add: upt_rec)
  have "rc_served (sv_kern s') = [show_int 100 @ [nl], show_int 105 @ [nl]]"
    using conjunct1 [OF s'(2) [rule_format, OF prem]] unfolding upt w(2) by simp
  moreover have "length (rc_waiting k) = 2" by (simp add: k_def)
  ultimately show ?thesis using s'(1) unfolding k_def by metis
qed

text \<open>
  A client on an open connection sends its length and a newline, and nothing else.  It
  then prints the line it receives, up to 29 bytes and the first null byte, with status 0;
  if the server closes the connection without a reply it prints nothing and its status is 1.
\<close>

theorem seqnum_client:
  assumes "clients K lfd waiting inp sent served budget"
    and "req = (if length argv > 2 then argv ! 2 else ''1'')"
    and "k2 = snd (k_write K cfd (snd (k_write K cfd k req)) [nl])"
  shows "sent cfd k2 = sent cfd k @ req @ [nl] \<and>
    (\<exists>k3. sent cfd k3 = sent cfd k2 \<and> cl_exchange K cfd argv k =
      Some (if inp cfd k2 = [] then Exited 1 \<lparr>cl_kern = k3, cl_out = []\<rparr>
            else Exited 0 \<lparr>cl_kern = k3, cl_out = ''Sequence number: '' @
              takeWhile (\<lambda>x. x \<noteq> CHR 0x00) (take 29 (first_line (inp cfd k2)))\<rparr>))"
proof -
  note C = assms(1)
  from clients.writes [OF C, of cfd k req] obtain k1 where w1: "k_write K cfd k req = (Wrote (length req), k1)"
    "sent cfd k1 = sent cfd k @ req" by blast
  from clients.writes [OF C, of cfd k1 "[nl]"] w1 assms(3) have w2: "k_write K cfd k1 [nl] = (Wrote 1, k2)"
    "sent cfd k2 = sent cfd k @ req @ [nl]" by auto
  let ?l = "first_line (inp cfd k2)"
  from line_source.get_line [OF byte_source.readLine_source [OF clients.reads [OF C]], of INT_LEN cfd k2]
  obtain mem k3 where rl: "readLine (k_read K cfd) False INT_LEN k2 = Some (Count (min 29 (length ?l)), mem, k3)"
    and mem: "take 29 ?l = take (min 29 (length ?l)) mem" by (auto simp: INT_LEN_def)
  have k3: "sent cfd k3 = sent cfd k2"
    using readLine_keeps [OF rl, of "sent cfd"] clients.read_keeps(2) [OF C] by simp
  have c0: "min 29 (length ?l) = 0 \<longleftrightarrow> inp cfd k2 = []"
    using first_line_Nil [of "inp cfd k2"] by (auto simp: min_def simp del: first_line_Nil)
  show ?thesis
    using w1(1) w2 rl mem [symmetric] c0 k3
    by (auto simp: cl_exchange_def Let_def assms(2) [symmetric] line_text_def)
qed

theorem seqnum_client_witness:
  "\<exists>k3. cl_exchange ref_conn 3 [''cl'', ''localhost'', ''10''] \<lparr>rc_waiting = [], rc_in = ''25'' @ [nl], rc_sent = [], rc_served = [], rc_intr = 1\<rparr> =
     Some (Exited 0 \<lparr>cl_kern = k3, cl_out = ''Sequence number: 25'' @ [nl]\<rparr>) \<and> rc_sent k3 = ''10'' @ [nl]"
  using seqnum_client [OF rconn.clients_axioms refl refl, where argv = "[''cl'', ''localhost'', ''10'']" and cfd = 3 and k =
      "\<lparr>rc_waiting = [], rc_in = ''25'' @ [nl], rc_sent = [], rc_served = [], rc_intr = 1\<rparr>"]
  by (auto simp: ref_conn_def first_line_def before_def)

end
