(* ===== verification/Msg_File.thy ===== *)
theory Msg_File
  imports Read_Line
begin

text \<open>
  The file server over System V message queues: \<open>src/tlpi-book/svmsg/svmsg_file_server.c\<close> and
  \<open>svmsg_file_client.c\<close>.  A client puts a request on the server's queue and receives the file on
  a queue of its own, in messages of up to 8192 bytes.  The system calls are the record \<open>msgk\<close>;
  failed calls give -1, \<open>False\<close> or an error number.
\<close>

definition SERVER_KEY :: int where "SERVER_KEY = 0x1aaaaaa1"
definition PATH_MAX :: nat where "PATH_MAX = 4096"
definition RESP_MSG_SIZE :: nat where "RESP_MSG_SIZE = 8192"
definition RESP_MT_FAILURE :: int where "RESP_MT_FAILURE = 1"
definition RESP_MT_DATA :: int where "RESP_MT_DATA = 2"
definition RESP_MT_END :: int where "RESP_MT_END = 3"

lemmas RESP_defs = RESP_MT_FAILURE_def RESP_MT_DATA_def RESP_MT_END_def

record requestMsg =
  clientId :: int
  pathname :: string

record responseMsg =
  mtype :: int
  mdata :: string

definition IPC_CREAT :: int where "IPC_CREAT = 512"
definition IPC_EXCL :: int where "IPC_EXCL = 1024"
definition IPC_PRIVATE :: int where "IPC_PRIVATE = 0"
definition S_IRUSR :: int where "S_IRUSR = 256"
definition S_IWUSR :: int where "S_IWUSR = 128"
definition S_IWGRP :: int where "S_IWGRP = 16"

record 's msgk =
  m_msgget :: "int \<Rightarrow> int \<Rightarrow> 's \<Rightarrow> int \<times> 's"
  m_rmid :: "int \<Rightarrow> 's \<Rightarrow> bool \<times> 's"
  m_req_snd :: "int \<Rightarrow> requestMsg \<Rightarrow> 's \<Rightarrow> bool \<times> 's"
  m_req_rcv :: "int \<Rightarrow> 's \<Rightarrow> (int + requestMsg) \<times> 's"
  m_snd :: "int \<Rightarrow> responseMsg \<Rightarrow> 's \<Rightarrow> bool \<times> 's"
  m_rcv :: "int \<Rightarrow> nat \<Rightarrow> 's \<Rightarrow> (int + responseMsg) \<times> 's"
  m_open :: "string \<Rightarrow> 's \<Rightarrow> int \<times> 's"
  m_read :: "int \<Rightarrow> 's reader"
  m_sigchld :: "'s \<Rightarrow> bool \<times> 's"
  m_fork :: "'s \<Rightarrow> int \<times> 's"
  m_reap :: "'s \<Rightarrow> int \<times> 's"           \<comment> \<open>\<open>waitpid(-1, NULL, WNOHANG)\<close>\<close>
  m_errno :: "'s \<Rightarrow> int"
  m_set_errno :: "int \<Rightarrow> 's \<Rightarrow> 's"

section \<open>The server\<close>

partial_function (option) reap_loop :: "'s msgk \<Rightarrow> 's \<Rightarrow> 's option" where
  "reap_loop K s = (case m_reap K s of (pid, s) \<Rightarrow> if pid > 0 then reap_loop K s else Some s)"

definition grimReaper :: "'s msgk \<Rightarrow> 's \<Rightarrow> 's option" where
  "grimReaper K s = map_option (m_set_errno K (m_errno K s)) (reap_loop K s)"

text \<open>The loop that sends the file.  Errors of \<open>read\<close> and \<open>msgsnd\<close> end it.\<close>

partial_function (option) send_loop :: "'s msgk \<Rightarrow> int \<Rightarrow> int \<Rightarrow> 's \<Rightarrow> 's option" where
  "send_loop K cid fd s =
     (case m_read K fd s RESP_MSG_SIZE of
        (ReadErr e, s) \<Rightarrow> Some s
      | (Data bs, s) \<Rightarrow>
          if bs = [] then Some s
          else (case m_snd K cid \<lparr>mtype = RESP_MT_DATA, mdata = bs\<rparr> s of
                  (ok, s) \<Rightarrow> if ok then send_loop K cid fd s else Some s))"

definition serveRequest :: "'s msgk \<Rightarrow> requestMsg \<Rightarrow> 's \<Rightarrow> (unit, 's) outcome option" where
  "serveRequest K req s =
     (case m_open K (pathname req) s of (fd, s) \<Rightarrow>
        if fd = -1 then
          Some (Exited 1 (snd (m_snd K (clientId req) \<lparr>mtype = RESP_MT_FAILURE, mdata = ''Couldn't open'' @ [CHR 0x00]\<rparr> s)))
        else
          (case send_loop K (clientId req) fd s of
             None \<Rightarrow> None
           | Some s \<Rightarrow> Some (Ret () (snd (m_snd K (clientId req) \<lparr>mtype = RESP_MT_END, mdata = []\<rparr> s)))))"

text \<open>The loop of the parent: \<open>kids\<close> are the requests handed to children so far, the string names
  the call that failed.\<close>

partial_function (option) server_loop ::
    "'s msgk \<Rightarrow> int \<Rightarrow> requestMsg list \<Rightarrow> 's \<Rightarrow> (string \<times> requestMsg list \<times> 's) option" where
  "server_loop K serverId kids s =
     (case m_req_rcv K serverId s of
        (Inl e, s) \<Rightarrow> if e = EINTR then server_loop K serverId kids s else Some (''msgrcv'', kids, s)
      | (Inr req, s) \<Rightarrow>
          (case m_fork K s of (pid, s) \<Rightarrow>
             if pid = -1 then Some (''fork'', kids, s) else server_loop K serverId (kids @ [req]) s))"

definition file_server_main :: "'s msgk \<Rightarrow> 's \<Rightarrow> (unit, requestMsg list \<times> 's) outcome option" where
  "file_server_main K s =
     (case m_msgget K SERVER_KEY (IPC_CREAT + IPC_EXCL + S_IRUSR + S_IWUSR + S_IWGRP) s of (serverId, s) \<Rightarrow>
        if serverId = -1 then Some (Exited 1 ([], s))
        else
          (case m_sigchld K s of (ok, s) \<Rightarrow>
             if \<not> ok then Some (Exited 1 ([], s))
             else
               (case server_loop K serverId [] s of
                  None \<Rightarrow> None
                | Some (call, kids, s) \<Rightarrow>
                    (case m_rmid K serverId s of (ok, s) \<Rightarrow> Some (Exited (if ok then 0 else 1) (kids, s))))))"

section \<open>The client\<close>

text \<open>The exit handler: \<open>exit(c)\<close> removes the queue.\<close>

definition exit_client :: "'s msgk \<Rightarrow> int \<Rightarrow> int \<Rightarrow> string \<times> 's \<Rightarrow> (unit, string \<times> 's) outcome" where
  "exit_client K cid c os =
     (case m_rmid K cid (snd os) of (ok, s) \<Rightarrow> Exited (if ok then c else 1) (fst os, s))"

text \<open>The loop that counts the messages after the first: total of bytes and messages, or an
  error number.\<close>

partial_function (option) recv_loop ::
    "'s msgk \<Rightarrow> int \<Rightarrow> int \<Rightarrow> int \<Rightarrow> int \<Rightarrow> 's \<Rightarrow> ((int + int \<times> int) \<times> 's) option" where
  "recv_loop K cid mt totBytes numMsgs s =
     (if mt = RESP_MT_DATA then
        (case m_rcv K cid RESP_MSG_SIZE s of
           (Inl e, s) \<Rightarrow> Some (Inl e, s)
         | (Inr m, s) \<Rightarrow> recv_loop K cid (mtype m) (totBytes + int (length (mdata m))) (numMsgs + 1) s)
      else Some (Inr (totBytes, numMsgs), s))"

definition receive_file :: "'s msgk \<Rightarrow> int \<Rightarrow> 's \<Rightarrow> (unit, string \<times> 's) outcome option" where
  "receive_file K cid s =
     (case m_rcv K cid RESP_MSG_SIZE s of
        (Inl e, s) \<Rightarrow> Some (exit_client K cid 1 ([], s))
      | (Inr m, s) \<Rightarrow>
          if mtype m = RESP_MT_FAILURE
          then Some (exit_client K cid 1 (takeWhile (\<lambda>c. c \<noteq> CHR 0x00) (mdata m) @ [nl], s))
          else
            (case recv_loop K cid (mtype m) (int (length (mdata m))) 1 s of
               None \<Rightarrow> None
             | Some (Inl e, s) \<Rightarrow> Some (exit_client K cid 1 ([], s))
             | Some (Inr (totBytes, numMsgs), s) \<Rightarrow>
                 Some (exit_client K cid 0
                   (''Received '' @ show_int totBytes @ '' bytes ('' @ show_int numMsgs @ '' messages)'' @ [nl], s))))"

definition file_client_main :: "'s msgk \<Rightarrow> bool \<Rightarrow> string list \<Rightarrow> 's \<Rightarrow> (unit, string \<times> 's) outcome option" where
  "file_client_main K atexit_ok argv s =
     (if length argv \<noteq> 2 \<or> argv ! 1 = ''--help'' \<or> length (argv ! 1) > PATH_MAX - 1 then Some (Exited 1 ([], s))
      else
        (case m_msgget K SERVER_KEY S_IWUSR s of (serverId, s) \<Rightarrow>
           if serverId = -1 then Some (Exited 1 ([], s))
           else
             (case m_msgget K IPC_PRIVATE (S_IRUSR + S_IWUSR + S_IWGRP) s of (cid, s) \<Rightarrow>
                if cid = -1 \<or> \<not> atexit_ok then Some (Exited 1 ([], s))
                else
                  (case m_req_snd K serverId \<lparr>clientId = cid, pathname = take (PATH_MAX - 1) (argv ! 1)\<rparr> s of (ok, s) \<Rightarrow>
                     if ok then receive_file K cid s else Some (exit_client K cid 1 ([], s))))))"

section \<open>The contract of the queues\<close>

text \<open>\<open>msgs s\<close> are the messages on the client's queue, oldest first; \<open>content s\<close> is what remains to
  be read of the open file.  Sending blocks while the queue is full, so it does not fail.\<close>

locale file_queue =
  fixes K :: "'s msgk" and cid fd :: int and msgs :: "'s \<Rightarrow> responseMsg list" and content :: "'s \<Rightarrow> string"
    and budget :: "'s \<Rightarrow> nat"
  assumes steady: "steady_source (m_read K fd) content budget"
    and read_msgs: "msgs (snd (m_read K fd s n)) = msgs s"
    and snd_msg: "\<exists>s'. m_snd K cid m s = (True, s') \<and> msgs s' = msgs s @ [m] \<and> content s' = content s"
    and rcv_msg: "msgs s = m # ms \<Longrightarrow> length (mdata m) \<le> n \<Longrightarrow> \<exists>s'. m_rcv K cid n s = (Inr m, s') \<and> msgs s' = ms"
    and rm_queue: "fst (m_rmid K cid s)"
begin

lemma send_loop_sends:
  "\<exists>bs s'. send_loop K cid fd s = Some s' \<and> concat bs = content s \<and>
     (\<forall>b\<in>set bs. b \<noteq> [] \<and> length b \<le> RESP_MSG_SIZE) \<and>
     msgs s' = msgs s @ map (\<lambda>b. \<lparr>mtype = RESP_MT_DATA, mdata = b\<rparr>) bs"
proof (induction "length (content s)" arbitrary: s rule: less_induct)
  case less
  note byte = steady_source.axioms(1) [OF steady]
  obtain r s1 where rd: "m_read K fd s RESP_MSG_SIZE = (r, s1)" by fastforce
  then have m1: "msgs s1 = msgs s" using read_msgs [of s RESP_MSG_SIZE] by simp
  from rd steady_source.axioms(2) [OF steady] obtain b where r: "r = Data b"
    by (cases r) (auto simp: steady_source_axioms_def)
  have c: "content s = b @ content s1" "length b \<le> RESP_MSG_SIZE"
    using byte_source.rd_data [OF byte rd [unfolded r]] by (simp_all add: RESP_MSG_SIZE_def)
  show ?case
  proof (cases "b = []")
    case True
    with rd r have "content s = []" using byte_source.rd_eof [OF byte, of s RESP_MSG_SIZE s1] by (simp add: RESP_MSG_SIZE_def)
    with True rd r m1 show ?thesis by (subst send_loop.simps) (auto intro: exI [of _ "[]"])
  next
    case False
    let ?m = "\<lparr>mtype = RESP_MT_DATA, mdata = b\<rparr>"
    from snd_msg [of ?m s1] obtain s2 where s2: "m_snd K cid ?m s1 = (True, s2)" "msgs s2 = msgs s1 @ [?m]"
      "content s2 = content s1" by blast
    from less [of s2] False c s2(3) obtain bs s' where IH: "send_loop K cid fd s2 = Some s'" "concat bs = content s2"
      "\<forall>b\<in>set bs. b \<noteq> [] \<and> length b \<le> RESP_MSG_SIZE" "msgs s' = msgs s2 @ map (\<lambda>b. \<lparr>mtype = RESP_MT_DATA, mdata = b\<rparr>) bs"
      by auto
    have "send_loop K cid fd s = Some s'" using rd r False s2(1) IH(1) by (subst send_loop.simps) simp
    with IH False c s2 m1 show ?thesis by (intro exI [of _ "b # bs"] exI [of _ s']) auto
  qed
qed

lemma recv_loop_receives:
  assumes "msgs s = map (\<lambda>b. \<lparr>mtype = RESP_MT_DATA, mdata = b\<rparr>) bs @ \<lparr>mtype = RESP_MT_END, mdata = []\<rparr> # ms"
    and "\<forall>b\<in>set bs. length b \<le> RESP_MSG_SIZE"
  shows "\<exists>s'. recv_loop K cid RESP_MT_DATA t n s =
      Some (Inr (t + int (length (concat bs)), n + int (length bs) + 1), s') \<and> msgs s' = ms"
  using assms
proof (induction bs arbitrary: s t n)
  case Nil
  from rcv_msg [of s "\<lparr>mtype = RESP_MT_END, mdata = []\<rparr>" ms RESP_MSG_SIZE] Nil obtain s1 where
    "m_rcv K cid RESP_MSG_SIZE s = (Inr \<lparr>mtype = RESP_MT_END, mdata = []\<rparr>, s1)" "msgs s1 = ms" by auto
  then show ?case by (subst recv_loop.simps) (simp, subst recv_loop.simps, simp add: RESP_defs)
next
  case (Cons b bs)
  let ?m = "\<lparr>mtype = RESP_MT_DATA, mdata = b\<rparr>"
  from rcv_msg [of s ?m _ RESP_MSG_SIZE] Cons.prems obtain s1 where s1: "m_rcv K cid RESP_MSG_SIZE s = (Inr ?m, s1)"
    "msgs s1 = map (\<lambda>b. \<lparr>mtype = RESP_MT_DATA, mdata = b\<rparr>) bs @ \<lparr>mtype = RESP_MT_END, mdata = []\<rparr> # ms" by auto
  from Cons.IH [OF s1(2), of "t + int (length b)" "n + 1"] Cons.prems(2) s1(1) show ?case
    by (subst recv_loop.simps) (auto simp: ac_simps)
qed

text \<open>Total and number of messages that the client reports.\<close>

lemma receive_file_reports:
  assumes "msgs s = map (\<lambda>b. \<lparr>mtype = RESP_MT_DATA, mdata = b\<rparr>) bs @ [\<lparr>mtype = RESP_MT_END, mdata = []\<rparr>]"
    and "\<forall>b\<in>set bs. length b \<le> RESP_MSG_SIZE"
  shows "\<exists>s'. receive_file K cid s = Some (Exited 0
    (''Received '' @ show_int (int (length (concat bs))) @ '' bytes ('' @ show_int (int (length bs) + 1) @ '' messages)'' @ [nl], s'))"
proof (cases bs)
  case Nil
  from rcv_msg [of s "\<lparr>mtype = RESP_MT_END, mdata = []\<rparr>" "[]" RESP_MSG_SIZE] Nil assms obtain s1 where
    s1: "m_rcv K cid RESP_MSG_SIZE s = (Inr \<lparr>mtype = RESP_MT_END, mdata = []\<rparr>, s1)" by auto
  have "recv_loop K cid RESP_MT_END 0 1 s1 = Some (Inr (0, 1), s1)"
    by (subst recv_loop.simps) (simp add: RESP_defs)
  with s1 Nil rm_queue [of s1] show ?thesis
    by (auto simp: receive_file_def exit_client_def RESP_MT_FAILURE_def RESP_MT_END_def split: prod.splits)
next
  case (Cons b bs')
  let ?m = "\<lparr>mtype = RESP_MT_DATA, mdata = b\<rparr>"
  from rcv_msg [of s ?m _ RESP_MSG_SIZE] Cons assms obtain s1 where s1: "m_rcv K cid RESP_MSG_SIZE s = (Inr ?m, s1)"
    "msgs s1 = map (\<lambda>b. \<lparr>mtype = RESP_MT_DATA, mdata = b\<rparr>) bs' @ [\<lparr>mtype = RESP_MT_END, mdata = []\<rparr>]" by auto
  from recv_loop_receives [OF s1(2), of "int (length b)" 1] assms(2) Cons obtain s2 where
    "recv_loop K cid RESP_MT_DATA (int (length b)) 1 s1 =
       Some (Inr (int (length b) + int (length (concat bs')), 1 + int (length bs') + 1), s2)" by auto
  with s1(1) Cons rm_queue [of s2] show ?thesis
    by (auto simp: receive_file_def exit_client_def RESP_MT_FAILURE_def RESP_MT_DATA_def ac_simps split: prod.splits)
qed

end

text \<open>The server's side: \<open>reqs s\<close> are the requests that will arrive before the queue fails,
  \<open>patience s\<close> bounds the interruptions by the handler of \<open>SIGCHLD\<close>, \<open>zombies s\<close> counts the
  terminated children not yet waited for.\<close>

locale server_kernel =
  fixes K :: "'s msgk" and sid :: int and reqs :: "'s \<Rightarrow> requestMsg list" and patience zombies :: "'s \<Rightarrow> nat"
  assumes rcv_err: "m_req_rcv K sid s = (Inl e, s') \<Longrightarrow>
      e = EINTR \<and> reqs s' = reqs s \<and> patience s' < patience s \<or> e \<noteq> EINTR \<and> reqs s = []"
    and rcv_req: "m_req_rcv K sid s = (Inr r, s') \<Longrightarrow> reqs s = r # reqs s'"
    and fork_ok: "m_fork K s = (pid, s') \<Longrightarrow> pid \<noteq> -1 \<and> reqs s' = reqs s"
    and reap_one: "m_reap K s = (pid, s') \<Longrightarrow>
      (if 0 < pid then zombies s = Suc (zombies s') else zombies s = 0 \<and> zombies s' = 0)"
    and set_errno: "m_errno K (m_set_errno K e s) = e" "zombies (m_set_errno K e s) = zombies s"
begin

lemma server_loop_all: "\<exists>s'. server_loop K sid kids s = Some (''msgrcv'', kids @ reqs s, s')"
proof (induction "(length (reqs s), patience s)" arbitrary: s kids rule: wf_induct_rule [OF wf_lex_prod [OF wf_less wf_less]])
  case (1 s kids)
  show ?case
  proof (cases "m_req_rcv K sid s")
    case (Pair r s1)
    show ?thesis
    proof (cases r)
      case (Inl e)
      from rcv_err [OF Pair [unfolded Inl]] show ?thesis
      proof
        assume e: "e = EINTR \<and> reqs s1 = reqs s \<and> patience s1 < patience s"
        from 1 [of s1 kids] e Pair Inl show ?thesis by (subst server_loop.simps) auto
      next
        assume "e \<noteq> EINTR \<and> reqs s = []"
        with Pair Inl show ?thesis by (subst server_loop.simps) simp
      qed
    next
      case (Inr q)
      from rcv_req [OF Pair [unfolded Inr]] have q: "reqs s = q # reqs s1" .
      obtain pid s2 where f: "m_fork K s1 = (pid, s2)" by fastforce
      from fork_ok [OF f] have f2: "pid \<noteq> -1" "reqs s2 = reqs s1" by simp_all
      from 1 [of s2 "kids @ [q]"] q f2 Pair Inr f show ?thesis by (subst server_loop.simps) auto
    qed
  qed
qed

lemma reap_all: "\<exists>s'. reap_loop K s = Some s' \<and> zombies s' = 0"
proof (induction "zombies s" arbitrary: s)
  case 0
  obtain pid s1 where r: "m_reap K s = (pid, s1)" by fastforce
  with reap_one [OF r] 0 show ?case by (subst reap_loop.simps) (auto split: if_splits)
next
  case (Suc n)
  obtain pid s1 where r: "m_reap K s = (pid, s1)" by fastforce
  with reap_one [OF r] Suc.hyps(2) have p: "0 < pid" "n = zombies s1" by (auto split: if_splits)
  from Suc.hyps(1) [OF p(2)] p(1) r show ?case by (subst reap_loop.simps) auto
qed

end

section \<open>A reference kernel\<close>

record refq =
  rq_msgs :: "responseMsg list"
  rq_files :: "(string \<times> string) list"
  rq_unread :: "string \<times> nat list"
  rq_reqs :: "requestMsg list"
  rq_intr :: nat
  rq_zombies :: nat
  rq_errno :: int

definition ref_msgk :: "refq msgk" where
  "ref_msgk = \<lparr>m_msgget = (\<lambda>k f s. (7, s)), m_rmid = (\<lambda>q s. (True, s)),
     m_req_snd = (\<lambda>q r s. (True, s\<lparr>rq_reqs := rq_reqs s @ [r]\<rparr>)),
     m_req_rcv = (\<lambda>q s. if 0 < rq_intr s then (Inl EINTR, s\<lparr>rq_intr := rq_intr s - 1\<rparr>)
       else case rq_reqs s of [] \<Rightarrow> (Inl 43, s) | r # rs \<Rightarrow> (Inr r, s\<lparr>rq_reqs := rs\<rparr>)),
     m_snd = (\<lambda>q m s. (True, s\<lparr>rq_msgs := rq_msgs s @ [m]\<rparr>)),
     m_rcv = (\<lambda>q n s. case rq_msgs s of [] \<Rightarrow> (Inl 43, s)
       | m # ms \<Rightarrow> if length (mdata m) \<le> n then (Inr m, s\<lparr>rq_msgs := ms\<rparr>) else (Inl 7, s)),
     m_open = (\<lambda>p s. case map_of (rq_files s) p of None \<Rightarrow> (-1, s)
       | Some c \<Rightarrow> (5, s\<lparr>rq_unread := (c, snd (rq_unread s))\<rparr>)),
     m_read = (\<lambda>fd s n. case steady_read (rq_unread s) n of (r, u) \<Rightarrow> (r, s\<lparr>rq_unread := u\<rparr>)),
     m_sigchld = (\<lambda>s. (True, s)),
     m_fork = (\<lambda>s. (99, s\<lparr>rq_zombies := rq_zombies s + 1\<rparr>)),
     m_reap = (\<lambda>s. if 0 < rq_zombies s then (99, s\<lparr>rq_zombies := rq_zombies s - 1\<rparr>) else (-1, s\<lparr>rq_errno := 10\<rparr>)),
     m_errno = rq_errno, m_set_errno = (\<lambda>e s. s\<lparr>rq_errno := e\<rparr>)\<rparr>"

interpretation rq: file_queue ref_msgk cid 5 rq_msgs "\<lambda>s. fst (rq_unread s)" "\<lambda>s. length (snd (rq_unread s))" for cid
proof -
  have rd: "m_read ref_msgk 5 s n = (r, s') \<longleftrightarrow>
      (\<exists>u. steady_read (rq_unread s) n = (r, u) \<and> s' = s\<lparr>rq_unread := u\<rparr>)" for s n r s'
    by (auto simp: ref_msgk_def split: prod.splits)
  have "steady_source (m_read ref_msgk 5) (\<lambda>s. fst (rq_unread s)) (\<lambda>s. length (snd (rq_unread s)))"
    by unfold_locales
      (auto simp: rd steady.steady dest: steady.rd_data steady.rd_eof)
  then show "file_queue ref_msgk cid 5 rq_msgs (\<lambda>s. fst (rq_unread s)) (\<lambda>s. length (snd (rq_unread s)))"
    by (rule file_queue.intro) (auto simp: ref_msgk_def split: prod.splits)
qed

interpretation rsv: server_kernel ref_msgk sid rq_reqs rq_intr rq_zombies for sid
  by unfold_locales (auto simp: ref_msgk_def EINTR_def split: if_splits list.splits)

section \<open>Properties\<close>



text \<open>
  The file server hands every request that reaches its queue to exactly one child, in
  order of arrival, however often the handler of \<open>SIGCHLD\<close> interrupts it, and when receiving
  fails it removes its queue; its status then says whether that worked.  The handler waits
  for all terminated children and leaves \<open>errno\<close> as it was.
\<close>

theorem file_server_serves_all:
  assumes "server_kernel K sid reqs patience zombies"
    and "m_msgget K SERVER_KEY (IPC_CREAT + IPC_EXCL + S_IRUSR + S_IWUSR + S_IWGRP) s0 = (sid, s1)" "sid \<noteq> -1"
    and "m_sigchld K s1 = (True, s2)"
  shows "(\<exists>s3 s4 ok. m_rmid K sid s3 = (ok, s4) \<and>
      file_server_main K s0 = Some (Exited (if ok then 0 else 1) (reqs s2, s4))) \<and>
    (\<exists>s'. grimReaper K s = Some s' \<and> zombies s' = 0 \<and> m_errno K s' = m_errno K s)"
proof -
  from server_kernel.server_loop_all [OF assms(1), of "[]" s2] obtain s3 where
    l: "server_loop K sid [] s2 = Some (''msgrcv'', reqs s2, s3)" by auto
  obtain ok s4 where rm: "m_rmid K sid s3 = (ok, s4)" by fastforce
  have "file_server_main K s0 = Some (Exited (if ok then 0 else 1) (reqs s2, s4))"
    using assms(2-4) l rm by (simp add: file_server_main_def)
  moreover from server_kernel.reap_all [OF assms(1), of s] obtain s' where "reap_loop K s = Some s'" "zombies s' = 0" by blast
  then have "grimReaper K s = Some (m_set_errno K (m_errno K s) s')" "zombies s' = 0" by (simp_all add: grimReaper_def)
  ultimately show ?thesis using rm server_kernel.set_errno [OF assms(1)] by metis
qed

theorem file_server_serves_all_witness:
  "\<exists>s4. file_server_main ref_msgk \<lparr>rq_msgs = [], rq_files = [], rq_unread = ([], []),
       rq_reqs = [\<lparr>clientId = 8, pathname = ''f''\<rparr>, \<lparr>clientId = 9, pathname = ''g''\<rparr>], rq_intr = 3, rq_zombies = 0, rq_errno = 0\<rparr> =
     Some (Exited 0 ([\<lparr>clientId = 8, pathname = ''f''\<rparr>, \<lparr>clientId = 9, pathname = ''g''\<rparr>], s4))"
proof -
  define s0 where "s0 = \<lparr>rq_msgs = [], rq_files = [], rq_unread = ([], []),
       rq_reqs = [\<lparr>clientId = 8, pathname = ''f''\<rparr>, \<lparr>clientId = 9, pathname = ''g''\<rparr>], rq_intr = 3, rq_zombies = 0, rq_errno = 0\<rparr>"
  have k: "m_msgget ref_msgk i j s0 = (7, s0)" "m_sigchld ref_msgk s0 = (True, s0)" "fst (m_rmid ref_msgk q s)" for i j q s
    by (simp_all add: ref_msgk_def)
  from file_server_serves_all [OF rsv.server_kernel_axioms k(1) _ k(2), of s0] obtain s3 s4 ok where
    "m_rmid ref_msgk 7 s3 = (ok, s4)" "file_server_main ref_msgk s0 = Some (Exited (if ok then 0 else 1) (rq_reqs s0, s4))"
    by auto
  with k(3) [of 7 s3] show ?thesis by (auto simp: s0_def)
qed

end
