(* ===== verification/Pid_File.thy ===== *)
theory Pid_File
  imports Rdwrn
begin

text \<open>
  \<open>src/tlpi-book/filelock/region_locking.c\<close> and \<open>create_pid_file.c\<close>: record locks on regions of
  a file, and the file with a locked process id by which a daemon makes sure that it runs
  once.  The system calls of a process are the record \<open>lockk\<close>; the locale \<open>record_locks\<close> is
  what they do to the one file, seen by all processes.
\<close>

section \<open>Locks\<close>

datatype lock_type = F_RDLCK | F_WRLCK | F_UNLCK
datatype lock_cmd = F_SETLK | F_SETLKW

record flock =
  l_type :: lock_type
  l_whence :: int
  l_start :: int
  l_len :: int

definition SEEK_SET :: int where "SEEK_SET = 0"
definition EAGAIN :: int where "EAGAIN = 11"
definition EACCES :: int where "EACCES = 13"
definition FD_CLOEXEC :: "32 word" where "FD_CLOEXEC = 1"
definition CPF_CLOEXEC :: "32 word" where "CPF_CLOEXEC = 1"
definition BUF_SIZE :: nat where "BUF_SIZE = 100"

record 's lockk =
  f_open :: "string \<Rightarrow> 's \<Rightarrow> int \<times> 's"                         \<comment> \<open>\<open>O_RDWR | O_CREAT\<close>, mode 0600\<close>
  f_getfd :: "int \<Rightarrow> 's \<Rightarrow> (32 word) option \<times> 's"
  f_setfd :: "int \<Rightarrow> 32 word \<Rightarrow> 's \<Rightarrow> bool \<times> 's"
  f_setlk :: "int \<Rightarrow> lock_cmd \<Rightarrow> flock \<Rightarrow> 's \<Rightarrow> int option \<times> 's"  \<comment> \<open>the error number, if any\<close>
  f_getlk :: "int \<Rightarrow> flock \<Rightarrow> 's \<Rightarrow> (lock_type \<times> int) option \<times> 's" \<comment> \<open>\<open>l_type\<close> and \<open>l_pid\<close> on return\<close>
  f_ftruncate :: "int \<Rightarrow> 's \<Rightarrow> bool \<times> 's"
  f_write :: "int \<Rightarrow> 's writer"
  f_getpid :: int

text \<open>The functions return 0 or -1; \<open>regionIsLocked\<close> the id of the process that holds an
  incompatible lock.\<close>

definition lockReg ::
    "'s lockk \<Rightarrow> int \<Rightarrow> lock_cmd \<Rightarrow> lock_type \<Rightarrow> int \<Rightarrow> int \<Rightarrow> int \<Rightarrow> 's \<Rightarrow> int option \<times> 's" where
  "lockReg K fd cmd type whence start len s =
     f_setlk K fd cmd \<lparr>l_type = type, l_whence = whence, l_start = start, l_len = len\<rparr> s"

definition lockRegion :: "'s lockk \<Rightarrow> int \<Rightarrow> lock_type \<Rightarrow> int \<Rightarrow> int \<Rightarrow> int \<Rightarrow> 's \<Rightarrow> int option \<times> 's" where
  "lockRegion K fd type whence start len s = lockReg K fd F_SETLK type whence start len s"

definition lockRegionWait :: "'s lockk \<Rightarrow> int \<Rightarrow> lock_type \<Rightarrow> int \<Rightarrow> int \<Rightarrow> int \<Rightarrow> 's \<Rightarrow> int option \<times> 's" where
  "lockRegionWait K fd type whence start len s = lockReg K fd F_SETLKW type whence start len s"

definition regionIsLocked :: "'s lockk \<Rightarrow> int \<Rightarrow> lock_type \<Rightarrow> int \<Rightarrow> int \<Rightarrow> int \<Rightarrow> 's \<Rightarrow> int \<times> 's" where
  "regionIsLocked K fd type whence start len s =
     (case f_getlk K fd \<lparr>l_type = type, l_whence = whence, l_start = start, l_len = len\<rparr> s of
        (None, s) \<Rightarrow> (-1, s)
      | (Some (t, pid), s) \<Rightarrow> (if t = F_UNLCK then 0 else pid, s))"

section \<open>The file with the process id\<close>

text \<open>Which diagnostic \<open>createPidFile\<close> printed before it ended the process with status 1.\<close>

datatype pid_error = NoOpen | NoFlags | AlreadyRunning string string | NoLock | NoTruncate | NoWrite

text \<open>The close-on-exec flag, as far as requested: \<open>False\<close> if a call failed.\<close>

definition set_cloexec :: "'s lockk \<Rightarrow> int \<Rightarrow> 32 word \<Rightarrow> 's \<Rightarrow> bool \<times> 's" where
  "set_cloexec K fd flags s =
     (if flags AND CPF_CLOEXEC \<noteq> 0 then
        (case f_getfd K fd s of
           (None, s) \<Rightarrow> (False, s)
         | (Some fl, s) \<Rightarrow> f_setfd K fd (fl OR FD_CLOEXEC) s)
      else (True, s))"

definition createPidFile ::
    "'s lockk \<Rightarrow> string \<Rightarrow> string \<Rightarrow> 32 word \<Rightarrow> 's \<Rightarrow> (pid_error + int) \<times> 's" where
  "createPidFile K progName pidFile flags s =
     (case f_open K pidFile s of (fd, s) \<Rightarrow>
        if fd = -1 then (Inl NoOpen, s)
        else
          (case set_cloexec K fd flags s of (ok, s) \<Rightarrow>
             if \<not> ok then (Inl NoFlags, s)
             else
               (case lockRegion K fd F_WRLCK SEEK_SET 0 0 s of
                  (Some e, s) \<Rightarrow>
                    (Inl (if e = EAGAIN \<or> e = EACCES then AlreadyRunning pidFile progName else NoLock), s)
                | (None, s) \<Rightarrow>
                    (case f_ftruncate K fd s of (ok, s) \<Rightarrow>
                       if \<not> ok then (Inl NoTruncate, s)
                       else
                         (let buf = snprintf BUF_SIZE (show_int (f_getpid K) @ [nl])
                          in case f_write K fd s buf of
                               (w, s) \<Rightarrow> (if w = Wrote (length buf) then Inr fd else Inl NoWrite, s))))))"

section \<open>The contract of the kernel\<close>

text \<open>\<open>K p\<close> are the calls of process \<open>p\<close>, \<open>holder\<close> is the process that has the file write-locked
  and \<open>content\<close> what is in the file.  Writing starts at offset 0: each process writes once.\<close>

locale record_locks =
  fixes K :: "int \<Rightarrow> 's lockk" and pidFile :: string and holder :: "'s \<Rightarrow> int option" and content :: "'s \<Rightarrow> string"
  assumes getpid: "f_getpid (K p) = p"
    and opens: "f_open (K p) pidFile s = (fd, s') \<Longrightarrow> holder s' = holder s \<and> content s' = content s"
    and getfd: "f_getfd (K p) fd s = (rf, s') \<Longrightarrow> holder s' = holder s \<and> content s' = content s"
    and setfd: "f_setfd (K p) fd fl s = (b, s') \<Longrightarrow> holder s' = holder s \<and> content s' = content s"
    and setlk: "f_setlk (K p) fd F_SETLK \<lparr>l_type = F_WRLCK, l_whence = SEEK_SET, l_start = 0, l_len = 0\<rparr> s = (r, s') \<Longrightarrow>
      content s' = content s \<and>
      (r = None \<and> holder s \<in> {None, Some p} \<and> holder s' = Some p \<or>
       r \<noteq> None \<and> holder s' = holder s \<and> (holder s \<notin> {None, Some p} \<longrightarrow> r \<in> {Some EAGAIN, Some EACCES}))"
    and ftruncate: "f_ftruncate (K p) fd s = (b, s') \<Longrightarrow> holder s' = holder s \<and> (b \<longrightarrow> content s' = [])"
    and writes: "f_write (K p) fd s d = (w, s') \<Longrightarrow> content s = [] \<Longrightarrow>
      holder s' = holder s \<and> (case w of Wrote n \<Rightarrow> content s' = take n d | WriteErr e \<Rightarrow> content s' = [])"
begin

lemma set_cloexec_keeps:
  "set_cloexec (K p) fd flags s = (b, s') \<Longrightarrow> holder s' = holder s \<and> content s' = content s"
  by (auto simp: set_cloexec_def split: if_splits prod.splits option.splits dest!: getfd setfd)

text \<open>A call either gets as far as the lock and its process then holds it, or changes nothing.\<close>

lemma createPidFile_cases:
  assumes "createPidFile (K p) prog pidFile flags s = (r, s')"
  shows "(\<exists>e. r = Inl e \<and> holder s' = holder s \<and> content s' = content s) \<or>
    holder s \<in> {None, Some p} \<and> holder s' = Some p \<and>
      (\<forall>fd. r = Inr fd \<longrightarrow> content s' = snprintf BUF_SIZE (show_int p @ [nl]))"
proof -
  let ?buf = "snprintf BUF_SIZE (show_int p @ [nl])"
  obtain fd s1 where o1: "f_open (K p) pidFile s = (fd, s1)" by fastforce
  obtain b s2 where c2: "set_cloexec (K p) fd flags s1 = (b, s2)" by fastforce
  obtain l s3 where l3: "lockRegion (K p) fd F_WRLCK SEEK_SET 0 0 s2 = (l, s3)" by fastforce
  obtain t s4 where t4: "f_ftruncate (K p) fd s3 = (t, s4)" by fastforce
  obtain w s5 where w5: "f_write (K p) fd s4 ?buf = (w, s5)" by fastforce
  have k1: "holder s1 = holder s" "content s1 = content s" using opens [OF o1] by simp_all
  have k2: "holder s2 = holder s" "content s2 = content s" using set_cloexec_keeps [OF c2] k1 by simp_all
  note k3 = setlk [OF l3 [unfolded lockRegion_def lockReg_def]]
  show ?thesis
  proof (cases "fd = -1 \<or> \<not> b \<or> l \<noteq> None")
    case True
    with assms o1 c2 l3 k1 k2 k3 show ?thesis by (auto simp: createPidFile_def split: if_splits)
  next
    case False
    with k2 k3 have h: "holder s \<in> {None, Some p}" "holder s3 = Some p" by auto
    have h4: "holder s4 = Some p" using ftruncate [OF t4] h by simp
    show ?thesis
    proof (cases t)
      case True
      with ftruncate [OF t4] have "content s4 = []" by simp
      from writes [OF w5 this] h4 have "holder s5 = Some p"
        "w = Wrote (length ?buf) \<Longrightarrow> content s5 = ?buf" by (auto split: io_write.splits)
      with True False assms o1 c2 l3 t4 w5 getpid h show ?thesis
        by (auto simp: createPidFile_def Let_def split: if_splits)
    next
      case False
      with \<open>\<not> (fd = -1 \<or> \<not> b \<or> l \<noteq> None)\<close> assms o1 c2 l3 t4 h h4 show ?thesis by (auto simp: createPidFile_def)
    qed
  qed
qed

lemma createPidFile_refused:
  assumes "createPidFile (K p) prog pidFile flags s = (r, s')" "holder s = Some q" "q \<noteq> p"
  shows "(\<exists>e. r = Inl e \<and> e \<in> {NoOpen, NoFlags, AlreadyRunning pidFile prog}) \<and> holder s' = Some q \<and> content s' = content s"
proof -
  obtain fd s1 where o1: "f_open (K p) pidFile s = (fd, s1)" by fastforce
  obtain b s2 where c2: "set_cloexec (K p) fd flags s1 = (b, s2)" by fastforce
  obtain l s3 where l3: "lockRegion (K p) fd F_WRLCK SEEK_SET 0 0 s2 = (l, s3)" by fastforce
  have "holder s2 = Some q" using opens [OF o1] set_cloexec_keeps [OF c2] assms(2) by simp
  with setlk [OF l3 [unfolded lockRegion_def lockReg_def]] assms(3)
  have l: "l \<in> {Some EAGAIN, Some EACCES}" "holder s3 = Some q" "content s3 = content s2" by auto
  with assms o1 c2 l3 opens [OF o1] set_cloexec_keeps [OF c2] show ?thesis
    by (auto simp: createPidFile_def split: if_splits)
qed

end

text \<open>Processes that call \<open>createPidFile\<close> one after the other.\<close>

fun launches ::
    "(int \<Rightarrow> 's lockk) \<Rightarrow> string \<Rightarrow> string \<Rightarrow> 32 word \<Rightarrow> int list \<Rightarrow> 's \<Rightarrow> (pid_error + int) list \<times> 's" where
  "launches K prog pidFile flags [] s = ([], s)"
| "launches K prog pidFile flags (p # ps) s =
     (case createPidFile (K p) prog pidFile flags s of
        (r, s) \<Rightarrow> map_prod ((#) r) id (launches K prog pidFile flags ps s))"

lemma show_int_short:
  assumes "0 \<le> p" "p < 2 ^ 63"
  shows "snprintf BUF_SIZE (show_int p @ [nl]) = show_int p @ [nl]"
proof -
  from assms have "length (show_nat (nat p)) \<le> 20" by (intro show_nat_length) auto
  with assms(1) show ?thesis by (intro snprintf_fits) (simp add: BUF_SIZE_def show_int_def)
qed

context record_locks
begin

lemma launches_held:
  "holder s = Some q \<Longrightarrow> q \<notin> set ps \<Longrightarrow> launches K prog pidFile flags ps s = (rs, s') \<Longrightarrow>
   (\<forall>r\<in>set rs. \<exists>e. r = Inl e \<and> e \<in> {NoOpen, NoFlags, AlreadyRunning pidFile prog}) \<and>
   holder s' = Some q \<and> content s' = content s"
proof (induction ps arbitrary: s rs)
  case (Cons p ps)
  obtain r s1 where r: "createPidFile (K p) prog pidFile flags s = (r, s1)" by fastforce
  obtain rs1 where rs1: "launches K prog pidFile flags ps s1 = (rs1, s')" "rs = r # rs1"
    using Cons.prems(3) r by (cases "launches K prog pidFile flags ps s1") auto
  from createPidFile_refused [OF r Cons.prems(1)] Cons.prems(2)
  have s1: "\<exists>e. r = Inl e \<and> e \<in> {NoOpen, NoFlags, AlreadyRunning pidFile prog}" "holder s1 = Some q" "content s1 = content s"
    by auto
  from Cons.IH [OF s1(2) _ rs1(1)] Cons.prems(2) s1 rs1(2) show ?case by auto
qed simp

end

section \<open>A reference kernel\<close>

record refpid =
  rp_holder :: "int option"
  rp_text :: string

definition ref_lockk :: "int \<Rightarrow> refpid lockk" where
  "ref_lockk p = \<lparr>f_open = (\<lambda>n s. (3, s)), f_getfd = (\<lambda>fd s. (Some 0, s)), f_setfd = (\<lambda>fd fl s. (True, s)),
     f_setlk = (\<lambda>fd c fl s. if rp_holder s = None \<or> rp_holder s = Some p then (None, s\<lparr>rp_holder := Some p\<rparr>) else (Some EAGAIN, s)),
     f_getlk = (\<lambda>fd fl s. (Some (case rp_holder s of None \<Rightarrow> (F_UNLCK, 0) | Some q \<Rightarrow> if q = p then (F_UNLCK, 0) else (F_WRLCK, q)), s)),
     f_ftruncate = (\<lambda>fd s. (True, s\<lparr>rp_text := []\<rparr>)),
     f_write = (\<lambda>fd s d. (Wrote (length d), s\<lparr>rp_text := d @ drop (length d) (rp_text s)\<rparr>)), f_getpid = p\<rparr>"

interpretation rpid: record_locks ref_lockk pidFile rp_holder rp_text for pidFile
  by unfold_locales (auto simp: ref_lockk_def split: if_splits)

section \<open>Properties\<close>

text \<open>
  C12. Once \<open>createPidFile\<close> has returned in a process \<open>p\<close>, the file consists of the line with its
  id and the process holds the lock; from then on every other process that calls
  \<open>createPidFile\<close> for the same file, in any number and order, ends with a diagnostic (that the
  program is already running, unless the file cannot even be opened or prepared), and leaves
  file and lock as they are.
\<close>

theorem pid_file_exclusive:
  assumes "record_locks K pidFile holder content" and "0 \<le> p" "p < 2 ^ 63"
    and "createPidFile (K p) prog pidFile flags s = (Inr fd, s1)"
    and "p \<notin> set ps" and "launches K prog' pidFile flags' ps s1 = (rs, s2)"
  shows "holder s2 = Some p \<and> content s2 = show_int p @ [nl] \<and> length rs = length ps \<and>
    (\<forall>r\<in>set rs. r \<in> {Inl NoOpen, Inl NoFlags, Inl (AlreadyRunning pidFile prog')})"
proof -
  from record_locks.createPidFile_cases [OF assms(1,4)] show_int_short [OF assms(2,3)]
  have s1: "holder s1 = Some p" "content s1 = show_int p @ [nl]" by auto
  have "length (fst (launches K prog' pidFile flags' ps s)) = length ps" for ps s
    by (induction ps arbitrary: s) (auto split: prod.splits)
  from this [of ps s1] assms(6) record_locks.launches_held [OF assms(1) s1(1) assms(5,6)] s1(2) show ?thesis by auto
qed

theorem pid_file_exclusive_witness:
  "rp_holder (snd (launches ref_lockk ''d'' ''/run/d.pid'' CPF_CLOEXEC [7, 8] \<lparr>rp_holder = Some 5, rp_text = show_int 5 @ [nl]\<rparr>)) = Some 5"
proof -
  have c: "createPidFile (ref_lockk 5) ''d'' ''/run/d.pid'' CPF_CLOEXEC \<lparr>rp_holder = None, rp_text = ''4711''\<rparr> =
      (Inr 3, \<lparr>rp_holder = Some 5, rp_text = show_int 5 @ [nl]\<rparr>)"
    using show_int_short [of 5]
    by (simp add: createPidFile_def set_cloexec_def lockRegion_def lockReg_def ref_lockk_def Let_def)
  obtain rs s2 where l: "launches ref_lockk ''d'' ''/run/d.pid'' CPF_CLOEXEC [7, 8] \<lparr>rp_holder = Some 5, rp_text = show_int 5 @ [nl]\<rparr> = (rs, s2)"
    by fastforce
  from pid_file_exclusive [OF rpid.record_locks_axioms _ _ c _ l] l show ?thesis by simp
qed

end
