(* ===== verification/Userns_Exec.thy ===== *)
theory Userns_Exec
  imports Getopt
begin

text \<open>
  \<open>src/tlpi-book/namespaces/userns_child_exec.c\<close>: a command executed in new namespaces, with UID
  and GID maps written by the parent while the child waits.  Parent and child are two
  processes that share a pipe; the model interleaves their steps.  The calls on the files
  under \<open>/proc\<close> are the record \<open>prock\<close>.
\<close>

section \<open>Options\<close>

definition CLONE_NEWCGROUP :: "32 word" where "CLONE_NEWCGROUP = 0x02000000"
definition CLONE_NEWIPC :: "32 word" where "CLONE_NEWIPC = 0x08000000"
definition CLONE_NEWNS :: "32 word" where "CLONE_NEWNS = 0x00020000"
definition CLONE_NEWNET :: "32 word" where "CLONE_NEWNET = 0x40000000"
definition CLONE_NEWPID :: "32 word" where "CLONE_NEWPID = 0x20000000"
definition CLONE_NEWUTS :: "32 word" where "CLONE_NEWUTS = 0x04000000"
definition CLONE_NEWUSER :: "32 word" where "CLONE_NEWUSER = 0x10000000"
definition SIGCHLD :: "32 word" where "SIGCHLD = 17"
definition PATH_MAX :: nat where "PATH_MAX = 4096"
definition MAP_BUF_SIZE :: nat where "MAP_BUF_SIZE = 100"
definition ENOENT :: int where "ENOENT = 2"

definition usage :: "string \<Rightarrow> string" where
  "usage pname =
     unlines
       [''Usage: '' @ pname @ '' [options] cmd [arg...]'', [],
        ''Create a child process that executes a shell command in a new user namespace,'',
        ''and possibly also other new namespace(s).'', [],
        ''Options can be:'', []] @
     concat (map (\<lambda>l. ''    '' @ l @ [nl])
       [''-C          New cgroup namespace'',
        ''-i          New IPC namespace'',
        ''-m          New mount namespace'',
        ''-n          New network namespace'',
        ''-p          New PID namespace'',
        ''-u          New UTS namespace'',
        ''-U          New user namespace'',
        ''-M uid_map  Specify UID map for user namespace'',
        ''-G gid_map  Specify GID map for user namespace'',
        ''-D          Do not write '' @ [CHR 0x22] @ ''deny'' @ [CHR 0x22] @ '' to /proc/PID/setgroups before'',
        ''            updating GID map'',
        ''-z          Map user's UID and GID to 0 in user namespace'',
        ''            (equivalent to: -M '0 <uid> 1' -G '0 <gid> 1')'',
        ''-v          Display verbose messages'',
        [],
        ''If -z, -M, or -G is specified, -U is required.'',
        ''It is not permitted to specify both -z and either -M or -G.'',
        [],
        ''Map strings for -M and -G consist of records of the form:'',
        [],
        ''    ID-inside-ns   ID-outside-ns   len'',
        [],
        ''A map string can contain multiple records, separated by commas;'',
        ''the commas are replaced by newlines before writing to map files.''])"

record ns_opts =
  ns_flags :: "32 word"
  ns_verbose :: bool
  map_zero :: bool
  deny_setgroups :: bool
  uid_map :: "string option"
  gid_map :: "string option"

definition no_ns_opts :: ns_opts where
  "no_ns_opts = \<lparr>ns_flags = 0, ns_verbose = False, map_zero = False, deny_setgroups = True, uid_map = None, gid_map = None\<rparr>"

definition ns_flag :: "char \<Rightarrow> (32 word) option" where
  "ns_flag c =
     map_of [(CHR ''C'', CLONE_NEWCGROUP), (CHR ''i'', CLONE_NEWIPC), (CHR ''m'', CLONE_NEWNS), (CHR ''n'', CLONE_NEWNET),
       (CHR ''p'', CLONE_NEWPID), (CHR ''u'', CLONE_NEWUTS), (CHR ''U'', CLONE_NEWUSER)] c"

fun read_ns_opts :: "(char \<times> string) list \<Rightarrow> ns_opts \<Rightarrow> ns_opts option" where
  "read_ns_opts [] o' = Some o'"
| "read_ns_opts ((c, arg) # cs) o' =
     (case ns_flag c of
        Some f \<Rightarrow> read_ns_opts cs (o'\<lparr>ns_flags := ns_flags o' OR f\<rparr>)
      | None \<Rightarrow>
          if c = CHR ''v'' then read_ns_opts cs (o'\<lparr>ns_verbose := True\<rparr>)
          else if c = CHR ''z'' then read_ns_opts cs (o'\<lparr>map_zero := True\<rparr>)
          else if c = CHR ''M'' then read_ns_opts cs (o'\<lparr>uid_map := Some arg\<rparr>)
          else if c = CHR ''G'' then read_ns_opts cs (o'\<lparr>gid_map := Some arg\<rparr>)
          else if c = CHR ''D'' then read_ns_opts cs (o'\<lparr>deny_setgroups := False\<rparr>)
          else None)"

definition bad_ns_opts :: "ns_opts \<Rightarrow> bool" where
  "bad_ns_opts o' \<longleftrightarrow>
     (uid_map o' \<noteq> None \<or> gid_map o' \<noteq> None \<or> map_zero o') \<and> ns_flags o' AND CLONE_NEWUSER = 0 \<or>
     map_zero o' \<and> (uid_map o' \<noteq> None \<or> gid_map o' \<noteq> None)"

text \<open>The options and the command, or the text of \<open>usage\<close>, after which the status is 1.\<close>

definition read_command_line :: "string list \<Rightarrow> string + ns_opts \<times> string list" where
  "read_command_line argv =
     (case getopt ''+CimnpuvzM:G:DU'' argv of (opts, cmd) \<Rightarrow>
        (case read_ns_opts opts no_ns_opts of
           None \<Rightarrow> Inl (usage (argv ! 0))
         | Some o' \<Rightarrow> if bad_ns_opts o' \<or> cmd = [] then Inl (usage (argv ! 0)) else Inr (o', cmd)))"

section \<open>Writing the maps\<close>

datatype file_error = OpenFailed string int | WriteFailed string

record 's prock =
  p_open :: "string \<Rightarrow> 's \<Rightarrow> (int + int) \<times> 's"              \<comment> \<open>\<open>Inl\<close> the error number\<close>
  p_write :: "int \<Rightarrow> string \<Rightarrow> 's \<Rightarrow> int \<times> 's"              \<comment> \<open>bytes written or -1\<close>
  p_close :: "int \<Rightarrow> 's \<Rightarrow> 's"

record 's parent =
  kern :: 's
  errs :: "file_error list"
  pout :: "string list"

definition update_map :: "'s prock \<Rightarrow> string \<Rightarrow> string \<Rightarrow> 's parent \<Rightarrow> 's parent" where
  "update_map K mapping map_file s =
     (let mapping = map (\<lambda>c. if c = CHR '','' then nl else c) mapping in
      case p_open K map_file (kern s) of
        (Inl e, k) \<Rightarrow> s\<lparr>kern := k, errs := errs s @ [OpenFailed map_file e]\<rparr>
      | (Inr fd, k) \<Rightarrow>
          (case p_write K fd mapping k of (n, k) \<Rightarrow>
             s\<lparr>kern := p_close K fd k,
               errs := errs s @ (if n \<noteq> int (length mapping) then [WriteFailed map_file] else [])\<rparr>))"

definition proc_path :: "int \<Rightarrow> string \<Rightarrow> string" where
  "proc_path pid name = snprintf PATH_MAX (''/proc/'' @ show_int pid @ ''/'' @ name)"

definition proc_setgroups_write :: "'s prock \<Rightarrow> bool \<Rightarrow> int \<Rightarrow> string \<Rightarrow> 's parent \<Rightarrow> 's parent" where
  "proc_setgroups_write K verbose child_pid str s =
     (let setgroups_path = proc_path child_pid ''setgroups'' in
      case p_open K setgroups_path (kern s) of
        (Inl e, k) \<Rightarrow> s\<lparr>kern := k, errs := errs s @ (if e \<noteq> ENOENT then [OpenFailed setgroups_path e] else [])\<rparr>
      | (Inr fd, k) \<Rightarrow>
          (case p_write K fd str k of (n, k) \<Rightarrow>
             s\<lparr>kern := p_close K fd k,
               pout := pout s @ (if verbose then [''Writing to '' @ [CHR 0x22] @ str @ [CHR 0x22] @ '' to '' @ setgroups_path] else []),
               errs := errs s @ (if n = -1 then [WriteFailed setgroups_path] else [])\<rparr>))"

definition zero_map :: "int \<Rightarrow> string" where
  "zero_map i = snprintf MAP_BUF_SIZE (''0 '' @ show_int i @ '' 1'')"

definition write_uid_map :: "'s prock \<Rightarrow> ns_opts \<Rightarrow> int \<Rightarrow> int \<Rightarrow> 's parent \<Rightarrow> 's parent" where
  "write_uid_map K o' pid uid s =
     (if uid_map o' \<noteq> None \<or> map_zero o'
      then update_map K (if map_zero o' then zero_map uid else the (uid_map o')) (proc_path pid ''uid_map'') s
      else s)"

definition write_gid_map :: "'s prock \<Rightarrow> ns_opts \<Rightarrow> int \<Rightarrow> int \<Rightarrow> 's parent \<Rightarrow> 's parent" where
  "write_gid_map K o' pid gid s =
     (if gid_map o' \<noteq> None \<or> map_zero o'
      then update_map K (if map_zero o' then zero_map gid else the (gid_map o')) (proc_path pid ''gid_map'')
             (if deny_setgroups o' then proc_setgroups_write K (ns_verbose o') pid ''deny'' s else s)
      else s)"

section \<open>Parent and child\<close>

text \<open>Where the two processes are after \<open>clone\<close>.  \<open>CFailed\<close>: the child has exited with status 1,
  because reading the pipe or \<open>execvp\<close> failed; \<open>CRunning\<close>: it is executing the command.\<close>

datatype ppc = PUid | PGid | PClose | PWait | PDone | PFailed
datatype cpc = CClose | CRead | CExec | CRunning | CEnded | CFailed

record 's usys =
  ppc :: ppc
  cpc :: cpc
  pw :: bool            \<comment> \<open>the parent's descriptor for the write end of the pipe is open\<close>
  cw :: bool            \<comment> \<open>the child's\<close>
  par :: "'s parent"
  cout :: "string list"           \<comment> \<open>what the child prints\<close>
  image :: "string list option"   \<comment> \<open>the command, once it executes\<close>

record ids = the_prog :: string  the_pid :: int  the_uid :: int  the_gid :: int

definition parent0 :: "bool \<Rightarrow> string \<Rightarrow> int \<Rightarrow> 's \<Rightarrow> 's parent" where
  "parent0 verbose prog pid k =
     \<lparr>kern = k, errs = [],
      pout = (if verbose then [prog @ '': PID of child created by clone() is '' @ show_int pid] else [])\<rparr>"

definition after_clone :: "'s parent \<Rightarrow> 's usys" where
  "after_clone p = \<lparr>ppc = PUid, cpc = CClose, pw = True, cw = True, par = p, cout = [], image = None\<rparr>"

definition farewell :: "ns_opts \<Rightarrow> ids \<Rightarrow> 's parent \<Rightarrow> 's parent" where
  "farewell o' i p = (if ns_verbose o' then p\<lparr>pout := pout p @ [the_prog i @ '': terminating'']\<rparr> else p)"

text \<open>\<open>main\<close> up to \<open>clone\<close>; every failure ends the program with status 1.\<close>

datatype 's launched = Usage string | PipeFailed | CloneFailed | Launched int ns_opts "string list" "'s usys"

definition launch ::
    "('s \<Rightarrow> bool \<times> 's) \<Rightarrow> (32 word \<Rightarrow> 's \<Rightarrow> int \<times> 's) \<Rightarrow> string list \<Rightarrow> 's \<Rightarrow> 's launched" where
  "launch pipe clone argv k =
     (case read_command_line argv of
        Inl u \<Rightarrow> Usage u
      | Inr (o', cmd) \<Rightarrow>
          (case pipe k of (ok, k) \<Rightarrow>
             if \<not> ok then PipeFailed
             else (case clone (ns_flags o' OR SIGCHLD) k of (pid, k) \<Rightarrow>
                     if pid = -1 then CloneFailed else Launched pid o' cmd (after_clone (parent0 (ns_verbose o') (argv ! 0) pid k)))))"

text \<open>\<open>werr\<close> says that \<open>waitpid\<close> fails; then the parent's status is 1.\<close>

definition parent_step :: "'s prock \<Rightarrow> ns_opts \<Rightarrow> ids \<Rightarrow> bool \<Rightarrow> 's usys \<Rightarrow> 's usys option" where
  "parent_step K o' i werr s =
     (case ppc s of
        PUid \<Rightarrow> Some (s\<lparr>ppc := PGid, par := write_uid_map K o' (the_pid i) (the_uid i) (par s)\<rparr>)
      | PGid \<Rightarrow> Some (s\<lparr>ppc := PClose, par := write_gid_map K o' (the_pid i) (the_gid i) (par s)\<rparr>)
      | PClose \<Rightarrow> Some (s\<lparr>ppc := PWait, pw := False\<rparr>)
      | PWait \<Rightarrow> if werr then Some (s\<lparr>ppc := PFailed\<rparr>)
                else if cpc s \<in> {CEnded, CFailed} then Some (s\<lparr>ppc := PDone, par := farewell o' i (par s)\<rparr>) else None
      | PDone \<Rightarrow> None
      | PFailed \<Rightarrow> None)"

text \<open>The child's \<open>read\<close> returns 0, the end of file, once no process has the write end open, and
  blocks before; \<open>rerr\<close> says that it fails, \<open>xerr\<close> that \<open>execvp\<close> does.\<close>

definition child_step :: "bool \<Rightarrow> bool \<Rightarrow> bool \<Rightarrow> string list \<Rightarrow> 's usys \<Rightarrow> 's usys option" where
  "child_step verbose rerr xerr cmd s =
     (case cpc s of
        CClose \<Rightarrow> Some (s\<lparr>cpc := CRead, cw := False\<rparr>)
      | CRead \<Rightarrow> if rerr then Some (s\<lparr>cpc := CFailed\<rparr>)
                else if \<not> pw s \<and> \<not> cw s
                then Some (s\<lparr>cpc := CExec, cout := if verbose then [''About to exec: '' @ hd cmd] else []\<rparr>) else None
      | CExec \<Rightarrow> if xerr then Some (s\<lparr>cpc := CFailed\<rparr>) else Some (s\<lparr>cpc := CRunning, image := Some cmd\<rparr>)
      | CRunning \<Rightarrow> Some (s\<lparr>cpc := CEnded\<rparr>)
      | CEnded \<Rightarrow> None
      | CFailed \<Rightarrow> None)"

inductive ustep :: "'s prock \<Rightarrow> ns_opts \<Rightarrow> ids \<Rightarrow> string list \<Rightarrow> 's usys \<Rightarrow> 's usys \<Rightarrow> bool" for K o' i cmd where
  parent: "parent_step K o' i werr s = Some s' \<Longrightarrow> ustep K o' i cmd s s'"
| child: "child_step (ns_verbose o') rerr xerr cmd s = Some s' \<Longrightarrow> ustep K o' i cmd s s'"

inductive_cases ustepE: "ustep K o' i cmd s s'"

section \<open>The invariant\<close>

fun p_left :: "ppc \<Rightarrow> nat" where
  "p_left PUid = 4" | "p_left PGid = 3" | "p_left PClose = 2" | "p_left PWait = 1" | "p_left PDone = 0"
| "p_left PFailed = 0"

fun c_left :: "cpc \<Rightarrow> nat" where
  "c_left CClose = 4" | "c_left CRead = 3" | "c_left CExec = 2" | "c_left CRunning = 1" | "c_left CEnded = 0"
| "c_left CFailed = 0"

definition maps_written :: "'s prock \<Rightarrow> ns_opts \<Rightarrow> ids \<Rightarrow> 's parent \<Rightarrow> 's parent" where
  "maps_written K o' i p =
     write_gid_map K o' (the_pid i) (the_gid i) (write_uid_map K o' (the_pid i) (the_uid i) p)"

definition uns_inv :: "'s prock \<Rightarrow> ns_opts \<Rightarrow> ids \<Rightarrow> string list \<Rightarrow> 's parent \<Rightarrow> 's usys \<Rightarrow> bool" where
  "uns_inv K o' i cmd p s \<longleftrightarrow>
     (pw s \<longleftrightarrow> ppc s \<in> {PUid, PGid, PClose}) \<and> (cw s \<longleftrightarrow> cpc s = CClose) \<and>
     (ppc s \<in> {PClose, PWait, PFailed} \<longrightarrow> par s = maps_written K o' i p) \<and>
     (ppc s = PDone \<longrightarrow> par s = farewell o' i (maps_written K o' i p)) \<and>
     (ppc s = PUid \<longrightarrow> par s = p) \<and>
     (ppc s = PGid \<longrightarrow> par s = write_uid_map K o' (the_pid i) (the_uid i) p) \<and>
     (cpc s \<in> {CExec, CRunning, CEnded} \<longrightarrow> ppc s \<in> {PWait, PDone, PFailed}) \<and>
     image s = (if cpc s \<in> {CRunning, CEnded} then Some cmd else None) \<and>
     (ppc s = PDone \<longrightarrow> cpc s \<in> {CEnded, CFailed})"

lemma uns_inv_init: "uns_inv K o' i cmd p (after_clone p)"
  by (simp add: uns_inv_def after_clone_def)

lemma parent_step_inv:
  assumes "uns_inv K o' i cmd p s" "parent_step K o' i werr s = Some s'"
  shows "uns_inv K o' i cmd p s' \<and> p_left (ppc s') + c_left (cpc s') < p_left (ppc s) + c_left (cpc s)"
proof (cases "ppc s")
  case PUid
  with assms(2) have "s' = s\<lparr>ppc := PGid, par := write_uid_map K o' (the_pid i) (the_uid i) (par s)\<rparr>"
    by (simp add: parent_step_def)
  with assms(1) PUid show ?thesis by (simp add: uns_inv_def)
next
  case PGid
  with assms(2) have "s' = s\<lparr>ppc := PClose, par := write_gid_map K o' (the_pid i) (the_gid i) (par s)\<rparr>"
    by (simp add: parent_step_def)
  with assms(1) PGid show ?thesis by (simp add: uns_inv_def maps_written_def)
next
  case PClose
  with assms(2) have "s' = s\<lparr>ppc := PWait, pw := False\<rparr>" by (simp add: parent_step_def)
  with assms(1) PClose show ?thesis by (simp add: uns_inv_def)
next
  case PWait
  with assms(2) have "s' = s\<lparr>ppc := PFailed\<rparr> \<or>
      s' = s\<lparr>ppc := PDone, par := farewell o' i (par s)\<rparr> \<and> cpc s \<in> {CEnded, CFailed}"
    by (simp add: parent_step_def split: if_splits)
  with assms(1) PWait show ?thesis by (elim disjE conjE) (simp_all add: uns_inv_def)
qed (use assms(2) in \<open>simp_all add: parent_step_def\<close>)

lemma child_step_inv:
  assumes "uns_inv K o' i cmd p s" "child_step v rerr xerr cmd s = Some s'"
  shows "uns_inv K o' i cmd p s' \<and> p_left (ppc s') + c_left (cpc s') < p_left (ppc s) + c_left (cpc s)"
proof (cases "cpc s")
  case CClose
  with assms(2) have "s' = s\<lparr>cpc := CRead, cw := False\<rparr>" by (simp add: child_step_def)
  with assms(1) CClose show ?thesis by (simp add: uns_inv_def)
next
  case CRead
  with assms(2) have "s' = s\<lparr>cpc := CFailed\<rparr> \<or>
      s' = s\<lparr>cpc := CExec, cout := if v then [''About to exec: '' @ hd cmd] else []\<rparr> \<and> \<not> pw s"
    by (simp add: child_step_def split: if_splits)
  moreover have "ppc s \<in> {PWait, PFailed}" if "\<not> pw s" using assms(1) that CRead by (cases "ppc s") (simp_all add: uns_inv_def)
  ultimately show ?thesis using assms(1) CRead by (elim disjE conjE) (auto simp: uns_inv_def)
next
  case CExec
  with assms(2) have "s' = s\<lparr>cpc := CFailed\<rparr> \<or> s' = s\<lparr>cpc := CRunning, image := Some cmd\<rparr>"
    by (simp add: child_step_def split: if_splits)
  moreover have "ppc s \<in> {PWait, PFailed}" using assms(1) CExec by (auto simp: uns_inv_def)
  ultimately show ?thesis using assms(1) CExec by (elim disjE) (auto simp: uns_inv_def)
next
  case CRunning
  with assms(2) have "s' = s\<lparr>cpc := CEnded\<rparr>" by (simp add: child_step_def)
  moreover have "ppc s \<in> {PWait, PFailed}" using assms(1) CRunning by (auto simp: uns_inv_def)
  ultimately show ?thesis using assms(1) CRunning by (auto simp: uns_inv_def)
qed (use assms(2) in \<open>simp_all add: child_step_def\<close>)

lemma uns_steps:
  assumes "(ustep K o' i cmd ^^ n) (after_clone p) s"
  shows "uns_inv K o' i cmd p s \<and> n + p_left (ppc s) + c_left (cpc s) \<le> 8"
  using assms
proof (induction n arbitrary: s)
  case 0
  then show ?case using uns_inv_init by (auto simp: after_clone_def)
next
  case (Suc n)
  then obtain s1 where s1: "(ustep K o' i cmd ^^ n) (after_clone p) s1" "ustep K o' i cmd s1 s" by auto
  from Suc.IH [OF s1(1)] have inv: "uns_inv K o' i cmd p s1" "n + p_left (ppc s1) + c_left (cpc s1) \<le> 8" by simp_all
  have "uns_inv K o' i cmd p s \<and> p_left (ppc s) + c_left (cpc s) < p_left (ppc s1) + c_left (cpc s1)"
    using s1(2) parent_step_inv [OF inv(1)] child_step_inv [OF inv(1)] by (elim ustepE) blast+
  with inv(2) show ?case by simp
qed

lemma uns_progress:
  assumes "uns_inv K o' i cmd p s" "ppc s \<notin> {PDone, PFailed}"
  shows "\<exists>s'. ustep K o' i cmd s s'"
proof -
  have "child_step (ns_verbose o') False False cmd s \<noteq> None" if "ppc s = PWait" "cpc s \<notin> {CEnded, CFailed}"
  proof -
    from assms(1) that have "\<not> pw s" "cw s = (cpc s = CClose)" by (simp_all add: uns_inv_def)
    with that show ?thesis by (cases "cpc s") (simp_all add: child_step_def)
  qed
  moreover have "parent_step K o' i False s \<noteq> None" if "ppc s \<noteq> PWait \<or> cpc s \<in> {CEnded, CFailed}"
    using that assms(2) by (cases "ppc s") (auto simp: parent_step_def)
  ultimately show ?thesis using ustep.intros by (metis option.exhaust)
qed

section \<open>The contract of the files under \<open>/proc\<close>\<close>

text \<open>\<open>written s\<close> are the files written to and the texts, in order; \<open>fname s fd\<close> is the file of an open
  descriptor.\<close>

locale proc_files =
  fixes K :: "'s prock" and written :: "'s \<Rightarrow> (string \<times> string) list" and fname :: "'s \<Rightarrow> int \<Rightarrow> string"
  assumes popen: "\<exists>fd s'. p_open K f s = (Inr fd, s') \<and> written s' = written s \<and> fname s' fd = f"
    and pwrite: "\<exists>s'. p_write K fd d s = (int (length d), s') \<and> written s' = written s @ [(fname s fd, d)]"
    and pclose: "written (p_close K fd s) = written s"
begin

lemma update_map_writes:
  "written (kern (update_map K m f s)) = written (kern s) @ [(f, map (\<lambda>c. if c = CHR '','' then nl else c) m)] \<and>
   errs (update_map K m f s) = errs s"
proof -
  obtain fd k1 where o1: "p_open K f (kern s) = (Inr fd, k1)" "written k1 = written (kern s)" "fname k1 fd = f"
    using popen by blast
  obtain k2 where "p_write K fd (map (\<lambda>c. if c = CHR '','' then nl else c) m) k1 = (int (length m), k2)"
    "written k2 = written k1 @ [(f, map (\<lambda>c. if c = CHR '','' then nl else c) m)]"
    using pwrite [of fd "map (\<lambda>c. if c = CHR '','' then nl else c) m" k1] o1(3) by auto
  with o1 pclose show ?thesis by (simp add: update_map_def Let_def)
qed

lemma setgroups_writes:
  "written (kern (proc_setgroups_write K v pid str s)) = written (kern s) @ [(proc_path pid ''setgroups'', str)] \<and>
   errs (proc_setgroups_write K v pid str s) = errs s"
proof -
  let ?f = "proc_path pid ''setgroups''"
  obtain fd k1 where o1: "p_open K ?f (kern s) = (Inr fd, k1)" "written k1 = written (kern s)" "fname k1 fd = ?f"
    using popen by blast
  obtain k2 where "p_write K fd str k1 = (int (length str), k2)" "written k2 = written k1 @ [(?f, str)]"
    using pwrite [of fd str k1] o1(3) by auto
  with o1 pclose show ?thesis by (simp add: proc_setgroups_write_def Let_def)
qed

end

text \<open>What the options ask to be written.\<close>

definition newlines :: "string \<Rightarrow> string" where
  "newlines m = map (\<lambda>c. if c = CHR '','' then nl else c) m"

definition expected :: "ns_opts \<Rightarrow> ids \<Rightarrow> (string \<times> string) list" where
  "expected o' i =
     (if map_zero o' then [(proc_path (the_pid i) ''uid_map'', newlines (zero_map (the_uid i)))]
      else case uid_map o' of None \<Rightarrow> [] | Some m \<Rightarrow> [(proc_path (the_pid i) ''uid_map'', newlines m)]) @
     (if (map_zero o' \<or> gid_map o' \<noteq> None) \<and> deny_setgroups o' then [(proc_path (the_pid i) ''setgroups'', ''deny'')] else []) @
     (if map_zero o' then [(proc_path (the_pid i) ''gid_map'', newlines (zero_map (the_gid i)))]
      else case gid_map o' of None \<Rightarrow> [] | Some m \<Rightarrow> [(proc_path (the_pid i) ''gid_map'', newlines m)])"

context proc_files
begin

lemma maps_written_writes:
  "written (kern (maps_written K o' i p)) = written (kern p) @ expected o' i \<and> errs (maps_written K o' i p) = errs p"
proof -
  have u: "written (kern (write_uid_map K o' p u s)) = written (kern s) @
      (if map_zero o' then [(proc_path p ''uid_map'', newlines (zero_map u))]
       else case uid_map o' of None \<Rightarrow> [] | Some m \<Rightarrow> [(proc_path p ''uid_map'', newlines m)])"
    "errs (write_uid_map K o' p u s) = errs s" for p u s
    by (auto simp: write_uid_map_def update_map_writes newlines_def)
  have g: "written (kern (write_gid_map K o' p u s)) = written (kern s) @
      (if (map_zero o' \<or> gid_map o' \<noteq> None) \<and> deny_setgroups o' then [(proc_path p ''setgroups'', ''deny'')] else []) @
      (if map_zero o' then [(proc_path p ''gid_map'', newlines (zero_map u))]
       else case gid_map o' of None \<Rightarrow> [] | Some m \<Rightarrow> [(proc_path p ''gid_map'', newlines m)])"
    "errs (write_gid_map K o' p u s) = errs s" for p u s
    by (auto simp: write_gid_map_def update_map_writes setgroups_writes newlines_def)
  show ?thesis by (simp add: maps_written_def u g expected_def)
qed

end

section \<open>A reference for the files\<close>

definition ref_prock :: "((string \<times> string) list \<times> string list) prock" where
  "ref_prock = \<lparr>p_open = (\<lambda>f (w, fs). (Inr (int (length fs)), (w, fs @ [f]))),
     p_write = (\<lambda>fd d (w, fs). (int (length d), (w @ [(if nat fd < length fs then fs ! nat fd else [], d)], fs))),
     p_close = (\<lambda>fd s. s)\<rparr>"

interpretation rproc: proc_files ref_prock fst "\<lambda>s fd. if nat fd < length (snd s) then snd s ! nat fd else []"
proof unfold_locales
  show "\<exists>fd s'. p_open ref_prock f s = (Inr fd, s') \<and> fst s' = fst s \<and>
      (if nat fd < length (snd s') then snd s' ! nat fd else []) = f" for f s
    by (intro exI [of _ "int (length (snd s))"] exI [of _ "(fst s, snd s @ [f])"]) (simp add: ref_prock_def split: prod.splits)
qed (auto simp: ref_prock_def)

section \<open>Properties\<close>

lemma read_command_line_ok:
  assumes "read_command_line argv = Inr (o', cmd)"
  shows "cmd \<noteq> [] \<and> set cmd \<subseteq> set argv \<and>
    (map_zero o' \<or> uid_map o' \<noteq> None \<or> gid_map o' \<noteq> None \<longrightarrow> ns_flags o' AND CLONE_NEWUSER \<noteq> 0)"
proof -
  from assms have "cmd = snd (getopt ''+CimnpuvzM:G:DU'' argv)" "cmd \<noteq> []" "\<not> bad_ns_opts o'"
    by (auto simp: read_command_line_def split: prod.splits option.splits if_splits)
  then show ?thesis
    using getopt_run_operands [of "''+CimnpuvzM:G:DU''" "[]" "tl argv"] list.set_sel(2) [of argv]
    by (cases argv) (auto simp: bad_ns_opts_def getopt_def)
qed



end
