(* ===== verification/System_Cmd.thy ===== *)
theory System_Cmd
  imports Rdwrn
begin

text \<open>
  \<open>src/tlpi-book/procexec/system.c\<close>: \<open>system\<close>, which runs a shell command in a child while the
  signal attributes of the caller are set aside.  A process is its signal mask, its table of
  signal actions, \<open>errno\<close>, and the rest of the world; \<open>fork\<close>, \<open>waitpid\<close> and \<open>execl\<close> are the record
  \<open>sysk\<close> and see all of it, since what they do depends on the signals that may arrive.
\<close>

section \<open>Signal attributes\<close>

datatype disposition = SIG_DFL | SIG_IGN | Handler nat

record sigact =
  sa_handler :: disposition
  sa_flags :: "32 word"
  sa_mask :: "int set"

definition SIGINT :: int where "SIGINT = 2"
definition SIGQUIT :: int where "SIGQUIT = 3"
definition SIGCHLD :: int where "SIGCHLD = 17"

record 'w proc =
  sigmask :: "int set"
  acts :: "int \<Rightarrow> sigact"
  perrno :: int
  world :: 'w

text \<open>\<open>k_errno\<close> is what a successful call makes of \<open>errno\<close>; \<open>k_execl\<close> returns only when it fails.\<close>

record 'w sysk =
  k_fork :: "'w proc \<Rightarrow> fork_result \<times> 'w"
  k_waitpid :: "int \<Rightarrow> 'w proc \<Rightarrow> (int + int) \<times> 'w"                  \<comment> \<open>\<open>Inl\<close> the error number\<close>
  k_execl :: "string \<Rightarrow> string list \<Rightarrow> 'w proc \<Rightarrow> int option \<times> 'w"  \<comment> \<open>the error number, if any\<close>
  k_errno :: "int \<Rightarrow> int"

definition sigprocmask :: "'w sysk \<Rightarrow> int set \<Rightarrow> 'w proc \<Rightarrow> 'w proc" where
  "sigprocmask K m s = s\<lparr>sigmask := m, perrno := k_errno K (perrno s)\<rparr>"

definition sigaction :: "'w sysk \<Rightarrow> int \<Rightarrow> sigact \<Rightarrow> 'w proc \<Rightarrow> 'w proc" where
  "sigaction K sig a s = s\<lparr>acts := (acts s)(sig := a), perrno := k_errno K (perrno s)\<rparr>"

section \<open>The function\<close>

definition saIgnore :: sigact where
  "saIgnore = \<lparr>sa_handler = SIG_IGN, sa_flags = 0, sa_mask = {}\<rparr>"

definition saDefault :: sigact where
  "saDefault = \<lparr>sa_handler = SIG_DFL, sa_flags = 0, sa_mask = {}\<rparr>"

text \<open>How a process leaves \<open>system\<close>: it returns, its program is replaced, or it ends.\<close>

datatype 'w sys_result =
    Returned int "'w proc"
  | Replaced string "string list" "'w proc"
  | Ended int "'w proc"

partial_function (option) wait_loop :: "'w sysk \<Rightarrow> int \<Rightarrow> 'w proc \<Rightarrow> (int \<times> 'w proc) option" where
  "wait_loop K childPid s =
     (case k_waitpid K childPid s of
        (Inr status, w) \<Rightarrow> Some (status, s\<lparr>world := w\<rparr>)
      | (Inl e, w) \<Rightarrow>
          if e \<noteq> EINTR then Some (-1, s\<lparr>world := w, perrno := e\<rparr>)
          else wait_loop K childPid (s\<lparr>world := w, perrno := e\<rparr>))"

definition child_exec :: "'w sysk \<Rightarrow> string \<Rightarrow> 'w proc \<Rightarrow> 'w proc \<Rightarrow> 'w sys_result" where
  "child_exec K command orig s =
     (let s = (if sa_handler (acts orig SIGINT) \<noteq> SIG_IGN then sigaction K SIGINT saDefault s else s);
          s = (if sa_handler (acts orig SIGQUIT) \<noteq> SIG_IGN then sigaction K SIGQUIT saDefault s else s);
          s = sigprocmask K (sigmask orig) s
      in case k_execl K ''/bin/sh'' [''sh'', ''-c'', command] s of
           (None, w) \<Rightarrow> Replaced ''/bin/sh'' [''sh'', ''-c'', command] (s\<lparr>world := w\<rparr>)
         | (Some e, w) \<Rightarrow> Ended 127 (s\<lparr>world := w, perrno := e\<rparr>))"

definition restore :: "'w sysk \<Rightarrow> 'w proc \<Rightarrow> 'w proc \<Rightarrow> 'w proc" where
  "restore K orig s =
     (let savedErrno = perrno s;
          s = sigprocmask K (sigmask orig) s;
          s = sigaction K SIGINT (acts orig SIGINT) s;
          s = sigaction K SIGQUIT (acts orig SIGQUIT) s
      in s\<lparr>perrno := savedErrno\<rparr>)"

text \<open>The state in which \<open>fork\<close> is called.\<close>

definition shelter :: "'w sysk \<Rightarrow> 'w proc \<Rightarrow> 'w proc" where
  "shelter K s =
     (let s = sigprocmask K (sigmask s \<union> {SIGCHLD}) s;
          s = sigaction K SIGINT saIgnore s
      in sigaction K SIGQUIT saIgnore s)"

definition system_cmd :: "'w sysk \<Rightarrow> string \<Rightarrow> 'w proc \<Rightarrow> 'w sys_result option" where
  "system_cmd K command orig =
     (let s = shelter K orig in
      case k_fork K s of
        (ForkFailed e, w) \<Rightarrow> Some (Returned (-1) (restore K orig (s\<lparr>world := w, perrno := e\<rparr>)))
      | (InChild, w) \<Rightarrow> Some (child_exec K command orig (s\<lparr>world := w\<rparr>))
      | (InParent childPid, w) \<Rightarrow>
          (case wait_loop K childPid (s\<lparr>world := w\<rparr>) of
             None \<Rightarrow> None
           | Some (status, s) \<Rightarrow> Some (Returned status (restore K orig s))))"

fun as_bool :: "'w sys_result \<Rightarrow> 'w sys_result" where
  "as_bool (Returned st s) = Returned (if st = 0 then 1 else 0) s"
| "as_bool r = r"

definition system :: "'w sysk \<Rightarrow> string option \<Rightarrow> 'w proc \<Rightarrow> 'w sys_result option" where
  "system K command s =
     (case command of
        None \<Rightarrow> map_option as_bool (system_cmd K '':'' s)
      | Some c \<Rightarrow> system_cmd K c s)"

section \<open>Children\<close>

text \<open>While \<open>SIGCHLD\<close> is blocked no handler can collect the status of the child, and while
  \<open>SIGINT\<close> and \<open>SIGQUIT\<close> are ignored neither ends the caller.\<close>

definition sheltered :: "'w proc \<Rightarrow> bool" where
  "sheltered s \<longleftrightarrow> SIGCHLD \<in> sigmask s \<and>
     sa_handler (acts s SIGINT) = SIG_IGN \<and> sa_handler (acts s SIGQUIT) = SIG_IGN"

text \<open>\<open>live\<close> are the children whose status has not been collected, \<open>collected\<close> the statuses
  collected so far, \<open>pending\<close> bounds the interruptions yet to come.\<close>

locale children =
  fixes K :: "'w sysk" and live :: "'w \<Rightarrow> int set" and collected :: "'w \<Rightarrow> (int \<times> int) list"
    and pending :: "'w \<Rightarrow> nat"
  assumes fork_parent: "k_fork K s = (InParent p, w) \<Longrightarrow> sheltered s \<Longrightarrow>
      p \<notin> live (world s) \<and> live w = insert p (live (world s)) \<and> collected w = collected (world s)"
    and fork_fails: "k_fork K s = (ForkFailed e, w) \<Longrightarrow> sheltered s \<Longrightarrow>
      live w = live (world s) \<and> collected w = collected (world s)"
    and waitpid: "k_waitpid K p s = (r, w) \<Longrightarrow> sheltered s \<Longrightarrow> p \<in> live (world s) \<Longrightarrow>
      (case r of
         Inr status \<Rightarrow> live w = live (world s) - {p} \<and> collected w = collected (world s) @ [(p, status)]
       | Inl e \<Rightarrow> e = EINTR \<and> live w = live (world s) \<and> collected w = collected (world s) \<and>
           pending w < pending (world s))"

lemma sheltered_update [simp]:
  "sheltered (s\<lparr>world := w\<rparr>) = sheltered s" "sheltered (s\<lparr>perrno := e\<rparr>) = sheltered s"
  by (simp_all add: sheltered_def)

lemma sheltered_shelter [simp]: "sheltered (shelter K s)"
  by (simp add: sheltered_def shelter_def Let_def sigprocmask_def sigaction_def saIgnore_def SIGINT_def SIGQUIT_def)

lemma world_shelter [simp]: "world (shelter K s) = world s"
  by (simp add: shelter_def Let_def sigprocmask_def sigaction_def)

lemma acts_shelter: "acts (shelter K s) = (acts s)(SIGINT := saIgnore, SIGQUIT := saIgnore)"
  by (simp add: shelter_def Let_def sigprocmask_def sigaction_def)

text \<open>Whatever happens to \<open>errno\<close> and the world between the two, \<open>restore\<close> undoes \<open>shelter\<close>.\<close>

lemma restore_attributes:
  assumes "acts s = acts (shelter K orig)"
  shows "sigmask (restore K orig s) = sigmask orig" "acts (restore K orig s) = acts orig"
    "world (restore K orig s) = world s" "perrno (restore K orig s) = perrno s"
  using assms by (auto simp: restore_def Let_def sigprocmask_def sigaction_def acts_shelter)

context children
begin

lemma wait_loop_collects:
  assumes "sheltered s" and "p \<in> live (world s)"
  shows "\<exists>status s'. wait_loop K p s = Some (status, s') \<and> acts s' = acts s \<and>
    live (world s') = live (world s) - {p} \<and> collected (world s') = collected (world s) @ [(p, status)]"
  using assms
proof (induction "pending (world s)" arbitrary: s rule: less_induct)
  case less
  obtain r w where w: "k_waitpid K p s = (r, w)" by fastforce
  note law = waitpid [OF w less.prems]
  show ?case
  proof (cases r)
    case (Inr st)
    with w law show ?thesis by (subst wait_loop.simps) simp
  next
    case (Inl e)
    let ?s = "s\<lparr>world := w, perrno := e\<rparr>"
    from Inl law less.prems less.hyps [of ?s] obtain status s' where
      "wait_loop K p ?s = Some (status, s')" "acts s' = acts s" "live (world s') = live (world s) - {p}"
      "collected (world s') = collected (world s) @ [(p, status)]" by auto
    with Inl w law show ?thesis by (subst wait_loop.simps) simp
  qed
qed

lemma system_cmd_parent:
  assumes "k_fork K (shelter K s) = (InParent p, w)"
  shows "\<exists>status s'. system_cmd K c s = Some (Returned status s') \<and> sigmask s' = sigmask s \<and> acts s' = acts s \<and>
    live (world s') = live (world s) \<and> collected (world s') = collected (world s) @ [(p, status)]"
proof -
  let ?s = "(shelter K s)\<lparr>world := w\<rparr>"
  from fork_parent [OF assms] have f: "p \<notin> live (world s)" "live w = insert p (live (world s))"
    "collected w = collected (world s)" by simp_all
  with wait_loop_collects [of ?s p] obtain status s' where w:
    "wait_loop K p ?s = Some (status, s')" "acts s' = acts (shelter K s)"
    "live (world s') = live (world s)" "collected (world s') = collected (world s) @ [(p, status)]" by auto
  from w restore_attributes [OF w(2)] assms show ?thesis by (simp add: system_cmd_def)
qed

end

section \<open>A reference kernel\<close>

text \<open>One child at a time, which ends with a given status after some interruptions.\<close>

record refsys =
  rs_child :: "int option"
  rs_log :: "(int \<times> int) list"
  rs_interrupts :: nat
  rs_status :: int

definition ref_sysk :: "refsys sysk" where
  "ref_sysk =
     \<lparr>k_fork = (\<lambda>s. if rs_child (world s) = None then (InParent 100, (world s)\<lparr>rs_child := Some 100\<rparr>) else (ForkFailed 11, world s)),
      k_waitpid = (\<lambda>p s. if rs_child (world s) \<noteq> Some p then (Inl 10, world s)
         else if rs_interrupts (world s) > 0 then (Inl EINTR, (world s)\<lparr>rs_interrupts := rs_interrupts (world s) - 1\<rparr>)
         else (Inr (rs_status (world s)), (world s)\<lparr>rs_child := None, rs_log := rs_log (world s) @ [(p, rs_status (world s))]\<rparr>)),
      k_execl = (\<lambda>f a s. (None, world s)), k_errno = (\<lambda>_. 0)\<rparr>"

interpretation rsys: children ref_sysk "\<lambda>w. set_option (rs_child w)" rs_log rs_interrupts
  by unfold_locales (auto simp: ref_sysk_def split: if_splits)

section \<open>Properties\<close>

text \<open>The handler that a shell command started by \<open>system\<close> finds for a signal.\<close>

definition shell_handler :: "(int \<Rightarrow> sigact) \<Rightarrow> int \<Rightarrow> disposition" where
  "shell_handler a sig =
     (if sig \<in> {SIGINT, SIGQUIT} \<and> sa_handler (a sig) \<noteq> SIG_IGN then SIG_DFL else sa_handler (a sig))"

lemma child_exec_attributes:
  assumes "acts s = acts (shelter K orig)"
  shows "case child_exec K c orig s of
      Replaced f args s' \<Rightarrow> f = ''/bin/sh'' \<and> args = [''sh'', ''-c'', c] \<and> sigmask s' = sigmask orig \<and>
        (\<forall>sig. sa_handler (acts s' sig) = shell_handler (acts orig) sig)
    | Ended n s' \<Rightarrow> n = 127
    | Returned st s' \<Rightarrow> False"
  using assms
  by (auto simp: child_exec_def Let_def sigprocmask_def sigaction_def acts_shelter shell_handler_def
      saIgnore_def saDefault_def SIGINT_def SIGQUIT_def split: prod.splits option.splits)


definition example_proc :: "refsys proc" where
  "example_proc = \<lparr>sigmask = {SIGINT}, acts = (\<lambda>_. \<lparr>sa_handler = Handler 1, sa_flags = 0, sa_mask = {}\<rparr>), perrno = 0,
     world = \<lparr>rs_child = None, rs_log = [], rs_interrupts = 1, rs_status = 256\<rparr>\<rparr>"


end
