(* ===== verification/Daemon.thy ===== *)
theory Daemon
  imports Prelude
begin

text \<open>
  \<open>src/tlpi-book/daemons/become_daemon.c\<close>: how a process turns into a daemon.  The calls it
  makes are the record \<open>dk\<close>; the locale \<open>daemon_kernel\<close> says what they do to the attributes of
  a process.
\<close>

section \<open>The function\<close>

definition BD_NO_CHDIR :: "32 word" where "BD_NO_CHDIR = 1"
definition BD_NO_CLOSE_FILES :: "32 word" where "BD_NO_CLOSE_FILES = 2"
definition BD_NO_REOPEN_STD_FDS :: "32 word" where "BD_NO_REOPEN_STD_FDS = 4"
definition BD_NO_UMASK0 :: "32 word" where "BD_NO_UMASK0 = 8"
definition BD_MAX_CLOSE :: int where "BD_MAX_CLOSE = 8192"

text \<open>Calls return -1 when they fail.  \<open>d_open\<close> opens for reading and writing.\<close>

record 's dk =
  d_fork :: "'s \<Rightarrow> fork_result \<times> 's"
  d_setsid :: "'s \<Rightarrow> int \<times> 's"
  d_umask :: "32 word \<Rightarrow> 's \<Rightarrow> 's"
  d_chdir :: "string \<Rightarrow> 's \<Rightarrow> int \<times> 's"
  d_open_max :: int                                    \<comment> \<open>\<open>sysconf(_SC_OPEN_MAX)\<close>, a \<open>long\<close>\<close>
  d_close :: "int \<Rightarrow> 's \<Rightarrow> int \<times> 's"
  d_open :: "string \<Rightarrow> 's \<Rightarrow> int \<times> 's"
  d_dup2 :: "int \<Rightarrow> int \<Rightarrow> 's \<Rightarrow> int \<times> 's"

text \<open>\<open>fork\<close>, after which only the child goes on.\<close>

definition fork_and_leave :: "'s dk \<Rightarrow> ('s \<Rightarrow> (int, 's) outcome) \<Rightarrow> 's \<Rightarrow> (int, 's) outcome" where
  "fork_and_leave K rest s =
     (case d_fork K s of
        (ForkFailed e, s) \<Rightarrow> Ret (-1) s
      | (InChild, s) \<Rightarrow> rest s
      | (InParent pid, s) \<Rightarrow> Exited 0 s)"

definition max_fd :: "'s dk \<Rightarrow> int" where
  "max_fd K = (let maxfd = cast_int (d_open_max K) in if maxfd = -1 then BD_MAX_CLOSE else maxfd)"

function close_from :: "'s dk \<Rightarrow> int \<Rightarrow> int \<Rightarrow> 's \<Rightarrow> 's" where
  "close_from K fd maxfd s = (if fd < maxfd then close_from K (fd + 1) maxfd (snd (d_close K fd s)) else s)"
  by auto
termination by (relation "measure (\<lambda>(K, fd, maxfd, s). nat (maxfd - fd))") auto

declare close_from.simps [simp del]

definition reopen_std_fds :: "'s dk \<Rightarrow> 's \<Rightarrow> (int, 's) outcome" where
  "reopen_std_fds K s =
     (let (_, s) = d_close K 0 s;
          (fd, s) = d_open K ''/dev/null'' s
      in if fd \<noteq> 0 then Ret (-1) s
         else
           (case d_dup2 K 0 1 s of (r, s) \<Rightarrow>
            if r \<noteq> 1 then Ret (-1) s
            else
              (case d_dup2 K 0 2 s of (r, s) \<Rightarrow>
               if r \<noteq> 2 then Ret (-1) s else Ret 0 s)))"

definition prepare :: "'s dk \<Rightarrow> 32 word \<Rightarrow> 's \<Rightarrow> 's" where
  "prepare K flags s =
     (let s = (if flags AND BD_NO_UMASK0 = 0 then d_umask K 0 s else s);
          s = (if flags AND BD_NO_CHDIR = 0 then snd (d_chdir K ''/'' s) else s)
      in if flags AND BD_NO_CLOSE_FILES = 0 then close_from K 0 (max_fd K) s else s)"

definition becomeDaemon :: "'s dk \<Rightarrow> 32 word \<Rightarrow> 's \<Rightarrow> (int, 's) outcome" where
  "becomeDaemon K flags =
     fork_and_leave K (\<lambda>s.
       case d_setsid K s of (r, s) \<Rightarrow>
         if r = -1 then Ret (-1) s
         else
           fork_and_leave K (\<lambda>s.
             let s = prepare K flags s in
             if flags AND BD_NO_REOPEN_STD_FDS = 0 then reopen_std_fds K s else Ret 0 s) s)"

section \<open>Attributes of a process\<close>

record pattrs =
  pid :: int
  pgid :: int
  sid :: int
  ctty :: "string option"
  fmask :: "32 word"
  cwd :: string
  fds :: "int \<Rightarrow> string option"

text \<open>\<open>fork\<close> gives the child an id that no process group or session uses; \<open>setsid\<close> fails only
  in the leader of a process group; \<open>open\<close> takes the lowest free descriptor.\<close>

locale daemon_kernel =
  fixes K :: "'s dk" and attrs :: "'s \<Rightarrow> pattrs"
  assumes fork_child: "d_fork K s = (InChild, s') \<Longrightarrow>
      \<exists>p. attrs s' = (attrs s)\<lparr>pid := p\<rparr> \<and> p \<notin> {pid (attrs s), pgid (attrs s), sid (attrs s)}"
    and setsid_leader: "d_setsid K s = (-1, s') \<Longrightarrow> pid (attrs s) = pgid (attrs s)"
    and setsid: "d_setsid K s = (r, s') \<Longrightarrow> r \<noteq> -1 \<Longrightarrow>
      attrs s' = (attrs s)\<lparr>pgid := pid (attrs s), sid := pid (attrs s), ctty := None\<rparr>"
    and umask: "attrs (d_umask K m s) = (attrs s)\<lparr>fmask := m\<rparr>"
    and chdir: "d_chdir K d s = (r, s') \<Longrightarrow> attrs s' = (if r = -1 then attrs s else (attrs s)\<lparr>cwd := d\<rparr>)"
    and close: "attrs (snd (d_close K fd s)) = (attrs s)\<lparr>fds := (fds (attrs s))(fd := None)\<rparr>"
    and opens: "d_open K f s = (r, s') \<Longrightarrow> r \<noteq> -1 \<Longrightarrow>
      0 \<le> r \<and> fds (attrs s) r = None \<and> (\<forall>j. 0 \<le> j \<and> j < r \<longrightarrow> fds (attrs s) j \<noteq> None) \<and>
      attrs s' = (attrs s)\<lparr>fds := (fds (attrs s))(r := Some f)\<rparr>"
    and dup2: "d_dup2 K fd fd' s = (r, s') \<Longrightarrow> r \<noteq> -1 \<Longrightarrow>
      r = fd' \<and> attrs s' = (attrs s)\<lparr>fds := (fds (attrs s))(fd' := fds (attrs s) fd)\<rparr>"

text \<open>A table of descriptors without those from \<open>lo\<close> up to \<open>hi\<close>, and the one a daemon has.\<close>

definition drop_fds :: "int \<Rightarrow> int \<Rightarrow> (int \<Rightarrow> string option) \<Rightarrow> int \<Rightarrow> string option" where
  "drop_fds lo hi f = (\<lambda>j. if lo \<le> j \<and> j < hi then None else f j)"

definition daemon_fds :: "32 word \<Rightarrow> int \<Rightarrow> (int \<Rightarrow> string option) \<Rightarrow> int \<Rightarrow> string option" where
  "daemon_fds flags limit old fd =
     (if flags AND BD_NO_REOPEN_STD_FDS = 0 \<and> fd \<in> {0, 1, 2} then Some ''/dev/null''
      else if flags AND BD_NO_CLOSE_FILES = 0 \<and> 0 \<le> fd \<and> fd < limit then None
      else old fd)"

text \<open>One of the calls whose failure makes \<open>becomeDaemon\<close> return -1 can fail.\<close>

definition may_fail :: "'s dk \<Rightarrow> bool" where
  "may_fail K \<longleftrightarrow>
     (\<exists>s e s'. d_fork K s = (ForkFailed e, s')) \<or> (\<exists>s. fst (d_open K ''/dev/null'' s) = -1) \<or>
     (\<exists>s fd. fst (d_dup2 K 0 fd s) = -1)"

context daemon_kernel
begin

lemma close_from_attrs:
  "attrs (close_from K fd m s) =
     (attrs s)\<lparr>fds := drop_fds fd m (fds (attrs s))\<rparr>"
proof (induction "nat (m - fd)" arbitrary: fd s)
  case 0
  then have "drop_fds fd m (fds (attrs s)) = fds (attrs s)" by (auto simp: drop_fds_def fun_eq_iff)
  with 0 show ?case by (subst close_from.simps) simp
next
  case (Suc n)
  then have n: "n = nat (m - (fd + 1))" "fd < m" by simp_all
  then have "drop_fds (fd + 1) m ((fds (attrs s))(fd := None)) = drop_fds fd m (fds (attrs s))"
    by (auto simp: drop_fds_def fun_eq_iff)
  with n Suc.hyps(1) [of "fd + 1" "snd (d_close K fd s)"] show ?case
    by (subst close_from.simps) (simp add: close)
qed

lemma prepare_attrs:
  "\<exists>d. attrs (prepare K flags s) =
     (attrs s)\<lparr>fmask := if flags AND BD_NO_UMASK0 = 0 then 0 else fmask (attrs s), cwd := d,
       fds := (if flags AND BD_NO_CLOSE_FILES = 0 then drop_fds 0 (max_fd K) (fds (attrs s)) else fds (attrs s))\<rparr> \<and>
     (if flags AND BD_NO_CHDIR = 0 then d = ''/'' \<or> d = cwd (attrs s) \<and> (\<exists>t. fst (d_chdir K ''/'' t) = -1)
      else d = cwd (attrs s))"
proof -
  define s1 where "s1 = (if flags AND BD_NO_UMASK0 = 0 then d_umask K 0 s else s)"
  define s2 where "s2 = (if flags AND BD_NO_CHDIR = 0 then snd (d_chdir K ''/'' s1) else s1)"
  have a1: "attrs s1 = (attrs s)\<lparr>fmask := if flags AND BD_NO_UMASK0 = 0 then 0 else fmask (attrs s)\<rparr>"
    by (simp add: s1_def umask)
  have a2: "\<exists>d. attrs s2 = (attrs s1)\<lparr>cwd := d\<rparr> \<and>
      (if flags AND BD_NO_CHDIR = 0 then d = ''/'' \<or> d = cwd (attrs s1) \<and> (\<exists>t. fst (d_chdir K ''/'' t) = -1)
       else d = cwd (attrs s1))"
  proof (cases "flags AND BD_NO_CHDIR = 0")
    case True
    obtain r t where c: "d_chdir K ''/'' s1 = (r, t)" by fastforce
    then have "r = -1 \<Longrightarrow> \<exists>t. fst (d_chdir K ''/'' t) = -1" by (intro exI [of _ s1]) simp
    with True c chdir [OF c] show ?thesis
      by (intro exI [of _ "if r = -1 then cwd (attrs s1) else ''/''"]) (auto simp: s2_def)
  next
    case False
    then show ?thesis by (intro exI [of _ "cwd (attrs s1)"]) (simp add: s2_def)
  qed
  obtain d where d: "attrs s2 = (attrs s1)\<lparr>cwd := d\<rparr>"
      "if flags AND BD_NO_CHDIR = 0 then d = ''/'' \<or> d = cwd (attrs s1) \<and> (\<exists>t. fst (d_chdir K ''/'' t) = -1)
       else d = cwd (attrs s1)" using a2 by blast
  have "prepare K flags s = (if flags AND BD_NO_CLOSE_FILES = 0 then close_from K 0 (max_fd K) s2 else s2)"
    by (simp add: prepare_def Let_def s1_def s2_def)
  then have "attrs (prepare K flags s) = (attrs s2)\<lparr>fds := (if flags AND BD_NO_CLOSE_FILES = 0 then drop_fds 0 (max_fd K) (fds (attrs s2)) else fds (attrs s2))\<rparr>"
    by (simp add: close_from_attrs)
  with a1 d show ?thesis by (intro exI [of _ d]) (simp split: if_splits)
qed

lemma reopen_attrs:
  "\<exists>r s'. reopen_std_fds K s = Ret r s' \<and>
     (r = 0 \<and> attrs s' = (attrs s)\<lparr>fds := (fds (attrs s))(0 := Some ''/dev/null'', 1 := Some ''/dev/null'', 2 := Some ''/dev/null'')\<rparr> \<or>
      r = -1 \<and> may_fail K)"
proof -
  obtain r0 s1 where c: "d_close K 0 s = (r0, s1)" by fastforce
  obtain fd s2 where o: "d_open K ''/dev/null'' s1 = (fd, s2)" by fastforce
  obtain r3 s3 where d1: "d_dup2 K 0 1 s2 = (r3, s3)" by fastforce
  obtain r4 s4 where d2: "d_dup2 K 0 2 s3 = (r4, s4)" by fastforce
  have re: "reopen_std_fds K s = (if fd \<noteq> 0 then Ret (-1) s2 else if r3 \<noteq> 1 then Ret (-1) s3 else if r4 \<noteq> 2 then Ret (-1) s4 else Ret 0 s4)"
    using c o d1 d2 by (simp add: reopen_std_fds_def)
  have a1: "attrs s1 = (attrs s)\<lparr>fds := (fds (attrs s))(0 := None)\<rparr>" using close [of 0 s] c by simp
  have fd: "fd = 0 \<or> fd = -1" using opens [OF o] a1 by (cases "fd = -1") force+
  show ?thesis
  proof (cases "fd = -1 \<or> r3 = -1 \<or> r4 = -1")
    case True
    with o d1 d2 have "may_fail K" unfolding may_fail_def by (elim disjE) (metis fst_conv)+
    moreover from True re have "\<exists>s'. reopen_std_fds K s = Ret (-1) s'" by (simp split: if_splits)
    ultimately show ?thesis by blast
  next
    case False
    with fd o d1 d2 opens [OF o] dup2 [OF d1] dup2 [OF d2] a1 re show ?thesis by simp
  qed
qed

text \<open>What is left to show once both children exist.\<close>

lemma daemon_tail:
  assumes "r = (let s = prepare K flags t in if flags AND BD_NO_REOPEN_STD_FDS = 0 then reopen_std_fds K s else Ret 0 s)"
  shows "(\<exists>s' d. r = Ret 0 s' \<and>
      attrs s' = (attrs t)\<lparr>fmask := if flags AND BD_NO_UMASK0 = 0 then 0 else fmask (attrs t), cwd := d,
        fds := daemon_fds flags (max_fd K) (fds (attrs t))\<rparr> \<and>
      (if flags AND BD_NO_CHDIR = 0 then d = ''/'' \<or> d = cwd (attrs t) \<and> (\<exists>u. fst (d_chdir K ''/'' u) = -1)
       else d = cwd (attrs t))) \<or>
    (\<exists>s'. r = Ret (-1) s' \<and> may_fail K)"
proof -
  let ?s = "prepare K flags t"
  let ?f = "(if flags AND BD_NO_CLOSE_FILES = 0 then drop_fds 0 (max_fd K) (fds (attrs t)) else fds (attrs t))"
  obtain d where p: "attrs ?s = (attrs t)\<lparr>fmask := if flags AND BD_NO_UMASK0 = 0 then 0 else fmask (attrs t), cwd := d, fds := ?f\<rparr>"
    and d: "if flags AND BD_NO_CHDIR = 0 then d = ''/'' \<or> d = cwd (attrs t) \<and> (\<exists>u. fst (d_chdir K ''/'' u) = -1)
      else d = cwd (attrs t)" using prepare_attrs [of flags t] by blast
  obtain q s' where q: "reopen_std_fds K ?s = Ret q s'"
    and q': "q = 0 \<and> attrs s' = (attrs ?s)\<lparr>fds := (fds (attrs ?s))
       (0 := Some ''/dev/null'', 1 := Some ''/dev/null'', 2 := Some ''/dev/null'')\<rparr> \<or> q = -1 \<and> may_fail K"
    using reopen_attrs [of ?s] by blast
  consider (no) "flags AND BD_NO_REOPEN_STD_FDS \<noteq> 0"
    | (ok) "flags AND BD_NO_REOPEN_STD_FDS = 0" "q = 0"
        "attrs s' = (attrs ?s)\<lparr>fds := (fds (attrs ?s))(0 := Some ''/dev/null'', 1 := Some ''/dev/null'', 2 := Some ''/dev/null'')\<rparr>"
    | (bad) "flags AND BD_NO_REOPEN_STD_FDS = 0" "q = -1" "may_fail K" using q' by blast
  then show ?thesis
  proof cases
    case no
    then have "?f = daemon_fds flags (max_fd K) (fds (attrs t))" by (auto simp: fun_eq_iff daemon_fds_def drop_fds_def)
    with no assms p d show ?thesis by (intro disjI1 exI [of _ ?s] exI [of _ d]) simp
  next
    case ok
    then have "(?f)(0 := Some ''/dev/null'', 1 := Some ''/dev/null'', 2 := Some ''/dev/null'') = daemon_fds flags (max_fd K) (fds (attrs t))"
      by (auto simp: fun_eq_iff daemon_fds_def drop_fds_def)
    with ok assms p d q show ?thesis by (intro disjI1 exI [of _ s'] exI [of _ d]) simp
  next
    case bad
    with assms q show ?thesis by simp
  qed
qed

end

section \<open>A reference kernel\<close>

text \<open>A process that is always the child of its \<open>fork\<close>; sixteen descriptors are in use at most.\<close>

definition fresh_pid :: "pattrs \<Rightarrow> int" where
  "fresh_pid a = 1 + max (pid a) (max (pgid a) (sid a))"

definition lowest_free :: "(int \<Rightarrow> string option) \<Rightarrow> int option" where
  "lowest_free f = List.find (\<lambda>j. f j = None) (map int [0..<16])"

definition ref_dk :: "pattrs dk" where
  "ref_dk =
     \<lparr>d_fork = (\<lambda>a. (InChild, a\<lparr>pid := fresh_pid a\<rparr>)),
      d_setsid = (\<lambda>a. if pid a = pgid a then (-1, a) else (0, a\<lparr>pgid := pid a, sid := pid a, ctty := None\<rparr>)),
      d_umask = (\<lambda>m a. a\<lparr>fmask := m\<rparr>), d_chdir = (\<lambda>d a. (0, a\<lparr>cwd := d\<rparr>)), d_open_max = 16,
      d_close = (\<lambda>fd a. (if fds a fd = None then -1 else 0, a\<lparr>fds := (fds a)(fd := None)\<rparr>)),
      d_open = (\<lambda>f a. case lowest_free (fds a) of None \<Rightarrow> (-1, a) | Some j \<Rightarrow> (j, a\<lparr>fds := (fds a)(j := Some f)\<rparr>)),
      d_dup2 = (\<lambda>fd fd' a. if fds a fd = None \<or> fd' = -1 then (-1, a) else (fd', a\<lparr>fds := (fds a)(fd' := fds a fd)\<rparr>))\<rparr>"

lemma lowest_free_Some:
  assumes "lowest_free f = Some r"
  shows "0 \<le> r" "f r = None" "0 \<le> j \<Longrightarrow> j < r \<Longrightarrow> \<exists>y. f j = Some y"
proof -
  from assms obtain i where i: "i < 16" "r = int i" "f (int i) = None" "\<forall>j<i. f (int j) \<noteq> None"
    by (auto simp: lowest_free_def find_Some_iff)
  then show "0 \<le> r" "f r = None" by simp_all
  assume "0 \<le> j" "j < r"
  with i(2) have "nat j < i" "int (nat j) = j" by auto
  with i(4) show "\<exists>y. f j = Some y" by (metis option.exhaust)
qed

interpretation rdaemon: daemon_kernel ref_dk id
  by unfold_locales
    (auto simp: ref_dk_def fresh_pid_def lowest_free_Some dest: lowest_free_Some(3) split: if_splits option.splits)

section \<open>Properties\<close>

text \<open>The attributes \<open>a'\<close> of a daemon started from a process with attributes \<open>a\<close>.\<close>

definition is_daemon :: "'s dk \<Rightarrow> 32 word \<Rightarrow> pattrs \<Rightarrow> pattrs \<Rightarrow> bool" where
  "is_daemon K flags a a' \<longleftrightarrow>
     pid a' \<notin> {sid a', pgid a'} \<and> sid a' \<notin> {pid a, sid a} \<and> ctty a' = None \<and>
     fmask a' = (if flags AND BD_NO_UMASK0 = 0 then 0 else fmask a) \<and>
     (if flags AND BD_NO_CHDIR = 0 then cwd a' = ''/'' \<or> cwd a' = cwd a \<and> (\<exists>u. fst (d_chdir K ''/'' u) = -1)
      else cwd a' = cwd a) \<and>
     fds a' = daemon_fds flags (max_fd K) (fds a)"

definition daemon_outcome :: "'s dk \<Rightarrow> ('s \<Rightarrow> pattrs) \<Rightarrow> 32 word \<Rightarrow> 's \<Rightarrow> (int, 's) outcome \<Rightarrow> bool" where
  "daemon_outcome K attrs flags s r =
     (case r of
        Ret n s' \<Rightarrow> n = 0 \<and> is_daemon K flags (attrs s) (attrs s') \<or> n = -1 \<and> may_fail K
      | Exited n s' \<Rightarrow> n = 0
      | _ \<Rightarrow> False)"

lemma fork_and_leave_outcome:
  assumes "\<And>s'. d_fork K s = (InChild, s') \<Longrightarrow> daemon_outcome K attrs flags s0 (rest s')"
  shows "daemon_outcome K attrs flags s0 (fork_and_leave K rest s)"
proof -
  obtain f s' where f: "d_fork K s = (f, s')" by fastforce
  show ?thesis
  proof (cases f)
    case (ForkFailed e)
    with f have "may_fail K" by (auto simp: may_fail_def)
    with f ForkFailed show ?thesis by (simp add: fork_and_leave_def daemon_outcome_def)
  next
    case (InParent p)
    with f show ?thesis by (simp add: fork_and_leave_def daemon_outcome_def)
  next
    case InChild
    with f assms show ?thesis by (simp add: fork_and_leave_def)
  qed
qed

lemma becomeDaemon_outcome:
  assumes K: "daemon_kernel K attrs"
  shows "daemon_outcome K attrs flags s (becomeDaemon K flags s)"
  unfolding becomeDaemon_def
proof (rule fork_and_leave_outcome)
  fix s1 assume "d_fork K s = (InChild, s1)"
  from daemon_kernel.fork_child [OF K this] obtain p1 where
    c1: "attrs s1 = (attrs s)\<lparr>pid := p1\<rparr>" "p1 \<notin> {pid (attrs s), pgid (attrs s), sid (attrs s)}" by blast
  obtain r2 s2 where r2: "d_setsid K s1 = (r2, s2)" by fastforce
  with c1 daemon_kernel.setsid_leader [OF K, of s1 s2] have leader: "r2 \<noteq> -1" by auto
  from c1 daemon_kernel.setsid [OF K r2 this]
  have c2: "attrs s2 = (attrs s)\<lparr>pid := p1, pgid := p1, sid := p1, ctty := None\<rparr>" by simp
  let ?rest = "\<lambda>s. let s = prepare K flags s in if flags AND BD_NO_REOPEN_STD_FDS = 0 then reopen_std_fds K s else Ret 0 s"
  have "daemon_outcome K attrs flags s (fork_and_leave K ?rest s2)"
  proof (rule fork_and_leave_outcome)
    fix s3 assume "d_fork K s2 = (InChild, s3)"
    from daemon_kernel.fork_child [OF K this] c2 obtain p3 where
      c3: "attrs s3 = (attrs s)\<lparr>pgid := p1, sid := p1, ctty := None, pid := p3\<rparr>" "p3 \<noteq> p1" by auto
    from daemon_kernel.daemon_tail [OF K refl, of flags s3]
    show "daemon_outcome K attrs flags s (?rest s3)"
    proof (elim disjE exE conjE)
      fix s' d
      assume "?rest s3 = Ret 0 s'"
        and a: "attrs s' = (attrs s3)\<lparr>fmask := if flags AND BD_NO_UMASK0 = 0 then 0 else fmask (attrs s3), cwd := d,
             fds := daemon_fds flags (max_fd K) (fds (attrs s3))\<rparr>"
        and d: "if flags AND BD_NO_CHDIR = 0 then d = ''/'' \<or> d = cwd (attrs s3) \<and> (\<exists>u. fst (d_chdir K ''/'' u) = -1)
           else d = cwd (attrs s3)"
      moreover from a d c1(2) c3 have "is_daemon K flags (attrs s) (attrs s')" by (simp add: is_daemon_def split: if_splits)
      ultimately show ?thesis by (simp add: daemon_outcome_def)
    qed (simp add: daemon_outcome_def)
  qed
  with r2 leader show "daemon_outcome K attrs flags s (case d_setsid K s1 of (r, s) \<Rightarrow>
      if r = -1 then Ret (-1) s else fork_and_leave K ?rest s)" by simp
qed

text \<open>
  C14. \<open>becomeDaemon\<close> returns 0 only in a process that is leader neither of its session nor of
  its process group, so that it cannot acquire a controlling terminal again, and that runs
  in a session of its own without controlling terminal.  There file mode mask, working
  directory and table of descriptors are as the flags ask for: descriptors below the limit
  closed, 0 to 2 open on \<open>/dev/null\<close>, the others untouched (the directory only if \<open>chdir\<close>
  succeeded, whose result the code ignores).  The processes left behind end with status 0,
  and -1 is returned only when \<open>fork\<close>, \<open>open\<close> or \<open>dup2\<close> fails, never because of \<open>setsid\<close>.
\<close>

theorem becomeDaemon_correct:
  assumes "daemon_kernel K attrs"
  shows "case becomeDaemon K flags s of
      Ret r s' \<Rightarrow>
        r = 0 \<and> pid (attrs s') \<notin> {sid (attrs s'), pgid (attrs s')} \<and>
        sid (attrs s') \<notin> {pid (attrs s), sid (attrs s)} \<and> ctty (attrs s') = None \<and>
        fmask (attrs s') = (if flags AND BD_NO_UMASK0 = 0 then 0 else fmask (attrs s)) \<and>
        (if flags AND BD_NO_CHDIR = 0
         then cwd (attrs s') = ''/'' \<or> cwd (attrs s') = cwd (attrs s) \<and> (\<exists>u. fst (d_chdir K ''/'' u) = -1)
         else cwd (attrs s') = cwd (attrs s)) \<and>
        fds (attrs s') = daemon_fds flags (max_fd K) (fds (attrs s))
        \<or> r = -1 \<and> may_fail K
    | Exited n s' \<Rightarrow> n = 0
    | _ \<Rightarrow> False"
  using becomeDaemon_outcome [OF assms, of flags s]
  unfolding daemon_outcome_def is_daemon_def by (simp only: conj_assoc)

definition example_shell_job :: pattrs where
  "example_shell_job = \<lparr>pid = 7, pgid = 7, sid = 5, ctty = Some ''/dev/tty1'', fmask = 18, cwd = ''/home'',
     fds = (\<lambda>j. if j \<in> {0, 1, 2, 5} then Some ''/dev/tty1'' else None)\<rparr>"

lemma ref_becomes_daemon: "\<exists>a'. becomeDaemon ref_dk flags a = Ret 0 a'"
proof -
  have zero: "lowest_free (f(0 := None)) = Some 0" for f by (simp add: lowest_free_def upt_rec)
  have sel: "d_fork ref_dk t = (InChild, t\<lparr>pid := fresh_pid t\<rparr>)"
    "d_setsid ref_dk t = (if pid t = pgid t then (-1, t) else (0, t\<lparr>pgid := pid t, sid := pid t, ctty := None\<rparr>))"
    "d_close ref_dk j t = (if fds t j = None then -1 else 0, t\<lparr>fds := (fds t)(j := None)\<rparr>)"
    "d_open ref_dk f t = (case lowest_free (fds t) of None \<Rightarrow> (-1, t) | Some j \<Rightarrow> (j, t\<lparr>fds := (fds t)(j := Some f)\<rparr>))"
    "d_dup2 ref_dk j j' t = (if fds t j = None \<or> j' = -1 then (-1, t) else (j', t\<lparr>fds := (fds t)(j' := fds t j)\<rparr>))"
    for t j j' f by (simp_all add: ref_dk_def)
  have "\<exists>a'. reopen_std_fds ref_dk t = Ret 0 a'" for t by (simp add: reopen_std_fds_def sel zero)
  then show ?thesis by (simp add: becomeDaemon_def fork_and_leave_def sel fresh_pid_def Let_def)
qed

theorem becomeDaemon_correct_witness:
  "\<exists>a. becomeDaemon ref_dk BD_NO_UMASK0 example_shell_job = Ret 0 a \<and> pid a \<noteq> sid a \<and> fmask a = 18 \<and>
     fds a 1 = Some ''/dev/null'' \<and> fds a 5 = None"
proof -
  obtain a where a: "becomeDaemon ref_dk BD_NO_UMASK0 example_shell_job = Ret 0 a" using ref_becomes_daemon by blast
  have m: "max_fd ref_dk = 16" by code_simp
  from becomeDaemon_correct [OF rdaemon.daemon_kernel_axioms, of example_shell_job BD_NO_UMASK0] a m show ?thesis
    by (simp add: daemon_fds_def example_shell_job_def BD_NO_UMASK0_def BD_NO_REOPEN_STD_FDS_def BD_NO_CLOSE_FILES_def)
qed

end
