(* ===== verification/Seek_IO.thy ===== *)
theory Seek_IO
  imports Get_Num Rdwrn
begin

text \<open>
  \<open>src/tlpi-book/fileio/seek_io.c\<close>: a program whose arguments are commands that read, write
  and reposition one file.  The calls on the file are the record \<open>fk\<close>; the locale
  \<open>regular_file\<close> is what they do to a regular file with room to grow.
\<close>

section \<open>The program\<close>

record 's fk =
  s_open :: "string \<Rightarrow> 's \<Rightarrow> bool \<times> 's"           \<comment> \<open>\<open>O_RDWR | O_CREAT\<close>, mode 0666\<close>
  s_malloc :: "nat \<Rightarrow> bool"                       \<comment> \<open>whether memory is obtained\<close>
  s_read :: "'s reader"
  s_write :: "'s writer"
  s_lseek :: "int \<Rightarrow> 's \<Rightarrow> int \<times> 's"              \<comment> \<open>\<open>SEEK_SET\<close>\<close>
  s_close :: "'s \<Rightarrow> bool \<times> 's"

record 's sio =
  sk :: 's
  sout :: string

datatype seek_error =
    UsageErr | OpenErr | BadNumber string | MallocErr | ReadFailed int | WriteFailed int | LseekErr | BadArgument string | CloseErr

definition printf :: "string \<Rightarrow> 's sio \<Rightarrow> 's sio" where
  "printf t s = s\<lparr>sout := sout s @ t\<rparr>"

text \<open>\<open>%02x\<close> with the value of a \<open>char\<close>, which is signed, converted to \<open>unsigned int\<close>.\<close>

definition hex_digit :: "nat \<Rightarrow> char" where
  "hex_digit d = (if d < 10 then digit_char d else char_of (87 + d))"

fun show_hex :: "nat \<Rightarrow> string" where
  "show_hex n = (if n < 16 then [hex_digit n] else show_hex (n div 16) @ [hex_digit (n mod 16)])"

declare show_hex.simps [simp del]

definition uint_of_char :: "char \<Rightarrow> 32 word" where
  "uint_of_char c = word_of_int (signed_take_bit 7 (of_char c))"

definition printf_02x :: "32 word \<Rightarrow> string" where
  "printf_02x w = (let t = show_hex (unat w) in if length t < 2 then CHR ''0'' # t else t)"

definition show_byte :: "char \<Rightarrow> char \<Rightarrow> string" where
  "show_byte cmd c =
     (if cmd = CHR ''r'' then [if isprint c then c else CHR ''?''] else printf_02x (uint_of_char c) @ '' '')"

text \<open>A command gives the error that ends the program, if any.  The length is a \<open>size_t\<close>.\<close>

definition cmd_read :: "'s fk \<Rightarrow> string \<Rightarrow> 's sio \<Rightarrow> seek_error option \<times> 's sio" where
  "cmd_read K arg s =
     (case getLong (Some (tl arg)) GN_ANY_BASE (Some arg) of
        Inl e \<Rightarrow> (Some (BadNumber e), s)
      | Inr v \<Rightarrow>
          (let len = nat (v mod 2 ^ 64) in
           if \<not> s_malloc K len then (Some MallocErr, s)
           else
             (case s_read K (sk s) len of
                (ReadErr e, k) \<Rightarrow> (Some (ReadFailed e), s\<lparr>sk := k\<rparr>)
              | (Data bs, k) \<Rightarrow>
                  (None,
                   printf
                     (if bs = [] then arg @ '': end-of-file'' @ [nl]
                      else arg @ '': '' @ concat (map (show_byte (hd arg)) bs) @ [nl])
                     (s\<lparr>sk := k\<rparr>)))))"

definition cmd_write :: "'s fk \<Rightarrow> string \<Rightarrow> 's sio \<Rightarrow> seek_error option \<times> 's sio" where
  "cmd_write K arg s =
     (case s_write K (sk s) (tl arg) of
        (WriteErr e, k) \<Rightarrow> (Some (WriteFailed e), s\<lparr>sk := k\<rparr>)
      | (Wrote n, k) \<Rightarrow> (None, printf (arg @ '': wrote '' @ show_nat n @ '' bytes'' @ [nl]) (s\<lparr>sk := k\<rparr>)))"

definition cmd_seek :: "'s fk \<Rightarrow> string \<Rightarrow> 's sio \<Rightarrow> seek_error option \<times> 's sio" where
  "cmd_seek K arg s =
     (case getLong (Some (tl arg)) GN_ANY_BASE (Some arg) of
        Inl e \<Rightarrow> (Some (BadNumber e), s)
      | Inr offset \<Rightarrow>
          (case s_lseek K offset (sk s) of (r, k) \<Rightarrow>
             if r = -1 then (Some LseekErr, s\<lparr>sk := k\<rparr>)
             else (None, printf (arg @ '': seek succeeded'' @ [nl]) (s\<lparr>sk := k\<rparr>))))"

definition do_cmd :: "'s fk \<Rightarrow> string \<Rightarrow> 's sio \<Rightarrow> seek_error option \<times> 's sio" where
  "do_cmd K arg s =
     (case arg of
        [] \<Rightarrow> (Some (BadArgument arg), s)
      | c # _ \<Rightarrow>
          if c = CHR ''r'' \<or> c = CHR ''R'' then cmd_read K arg s
          else if c = CHR ''w'' then cmd_write K arg s
          else if c = CHR ''s'' then cmd_seek K arg s
          else (Some (BadArgument arg), s))"

fun do_cmds :: "'s fk \<Rightarrow> string list \<Rightarrow> 's sio \<Rightarrow> seek_error option \<times> 's sio" where
  "do_cmds K [] s = (case s_close K (sk s) of (ok, k) \<Rightarrow> (if ok then None else Some CloseErr, s\<lparr>sk := k\<rparr>))"
| "do_cmds K (arg # args) s =
     (case do_cmd K arg s of
        (Some e, s) \<Rightarrow> (Some e, s)
      | (None, s) \<Rightarrow> do_cmds K args s)"

text \<open>\<open>None\<close> is \<open>exit(EXIT_SUCCESS)\<close>; after an error the status is 1.\<close>

definition seek_io_main :: "'s fk \<Rightarrow> string list \<Rightarrow> 's sio \<Rightarrow> seek_error option \<times> 's sio" where
  "seek_io_main K argv s =
     (if length argv < 3 \<or> argv ! 1 = ''--help'' then (Some UsageErr, s)
      else
        (case s_open K (argv ! 1) (sk s) of
           (False, k) \<Rightarrow> (Some OpenErr, s\<lparr>sk := k\<rparr>)
         | (True, k) \<Rightarrow> do_cmds K (drop 2 argv) (s\<lparr>sk := k\<rparr>)))"

section \<open>Regular files\<close>

text \<open>The most that one \<open>read\<close> or \<open>write\<close> transfers.\<close>

definition MAX_RW_COUNT :: nat where "MAX_RW_COUNT = 0x7ffff000"
definition EFBIG :: int where "EFBIG = 27"

text \<open>Bytes \<open>d\<close> stored at offset \<open>p\<close>; a gap behind the end is filled with null bytes.\<close>

definition store_at :: "nat \<Rightarrow> string \<Rightarrow> string \<Rightarrow> string" where
  "store_at p d c =
     (if d = [] then c
      else take p c @ replicate (p - length c) (CHR 0x00) @ d @ drop (p + length d) c)"

text \<open>\<open>limit\<close> is the largest size of a file.\<close>

locale regular_file =
  fixes K :: "'s fk" and content :: "'s \<Rightarrow> string" and offset :: "'s \<Rightarrow> nat" and limit :: nat
  assumes opens: "s_open K f s = (True, s') \<Longrightarrow> offset s' = 0"
    and reads: "s_read K s n = (r, s') \<Longrightarrow>
      r = Data (take (min n MAX_RW_COUNT) (drop (offset s) (content s))) \<and> content s' = content s \<and>
      offset s' = offset s + length (take (min n MAX_RW_COUNT) (drop (offset s) (content s)))"
    and writes: "s_write K s d = (w, s') \<Longrightarrow>
      (if d \<noteq> [] \<and> limit \<le> offset s
       then w = WriteErr EFBIG \<and> content s' = content s \<and> offset s' = offset s
       else let d' = take (min MAX_RW_COUNT (limit - offset s)) d
         in w = Wrote (length d') \<and> content s' = store_at (offset s) d' (content s) \<and> offset s' = offset s + length d')"
    and seeks: "s_lseek K v s = (q, s') \<Longrightarrow> content s' = content s \<and>
      (if 0 \<le> v \<and> v \<le> int limit then q = v \<and> offset s' = nat v else q = -1 \<and> offset s' = offset s)"
    and closes: "s_close K s = (ok, s') \<Longrightarrow> ok \<and> content s' = content s \<and> offset s' = offset s"

section \<open>The command language\<close>

text \<open>What a command means for a file, a pair of content and offset: the line printed and the
  file afterwards, or \<open>None\<close> when it fails.\<close>

definition cmd_meaning :: "(nat \<Rightarrow> bool) \<Rightarrow> nat \<Rightarrow> string \<Rightarrow> string \<times> nat \<Rightarrow> (string \<times> string \<times> nat) option" where
  "cmd_meaning mem limit arg =
     (\<lambda>(c, p).
      if arg = [] then None
      else
        (let number = (case getLong (Some (tl arg)) GN_ANY_BASE (Some arg) of Inl _ \<Rightarrow> None | Inr v \<Rightarrow> Some v) in
         if hd arg \<in> {CHR ''r'', CHR ''R''} then
           (case number of
              None \<Rightarrow> None
            | Some v \<Rightarrow>
                (let n = nat (v mod 2 ^ 64); bs = take (min n MAX_RW_COUNT) (drop p c) in
                 if mem n
                 then Some (arg @ '': '' @ (if bs = [] then ''end-of-file'' else concat (map (show_byte (hd arg)) bs)), c, p + length bs)
                 else None))
         else if hd arg = CHR ''w'' then
           (let d = take (min MAX_RW_COUNT (limit - p)) (tl arg) in
            if tl arg \<noteq> [] \<and> limit \<le> p then None
            else Some (arg @ '': wrote '' @ show_nat (length d) @ '' bytes'', store_at p d c, p + length d))
         else if hd arg = CHR ''s'' then
           (case number of
              None \<Rightarrow> None
            | Some v \<Rightarrow> if 0 \<le> v \<and> v \<le> int limit then Some (arg @ '': seek succeeded'', c, nat v) else None)
         else None))"

text \<open>A sequence of commands up to the first that fails: the lines printed, the file
  afterwards, and whether all succeeded.\<close>

fun run_meaning :: "(nat \<Rightarrow> bool) \<Rightarrow> nat \<Rightarrow> string list \<Rightarrow> string \<times> nat \<Rightarrow> string list \<times> (string \<times> nat) \<times> bool" where
  "run_meaning mem limit [] f = ([], f, True)"
| "run_meaning mem limit (arg # args) f =
     (case cmd_meaning mem limit arg f of
        None \<Rightarrow> ([], f, False)
      | Some (l, f) \<Rightarrow> map_prod ((#) l) id (run_meaning mem limit args f))"

context regular_file
begin

text \<open>Every command does what it means.\<close>

lemma do_cmd_meaning:
  assumes "do_cmd K arg s = (e, s')"
  shows "case cmd_meaning (s_malloc K) limit arg (content (sk s), offset (sk s)) of
      None \<Rightarrow> e \<noteq> None \<and> sout s' = sout s \<and> content (sk s') = content (sk s) \<and> offset (sk s') = offset (sk s)
    | Some (l, c, p) \<Rightarrow> e = None \<and> sout s' = sout s @ l @ [nl] \<and> content (sk s') = c \<and> offset (sk s') = p"
proof -
  note law = reads [OF surjective_pairing] seeks [OF surjective_pairing]
  obtain r2 k2 where w: "s_write K (sk s) (tl arg) = (r2, k2)" by fastforce
  consider "arg = []" | "arg \<noteq> []" "hd arg \<in> {CHR ''r'', CHR ''R''}" | "arg \<noteq> []" "hd arg = CHR ''w''"
    | "arg \<noteq> []" "hd arg = CHR ''s''" | "arg \<noteq> []" "hd arg \<notin> {CHR ''r'', CHR ''R'', CHR ''w'', CHR ''s''}" by blast
  then show ?thesis
  proof cases
    case 1
    with assms show ?thesis by (auto simp: do_cmd_def cmd_meaning_def)
  next
    case 2
    with assms show ?thesis
      by (auto simp: do_cmd_def cmd_meaning_def cmd_read_def Let_def case_prod_beta law printf_def split: sum.splits list.splits if_splits)
  next
    case 3
    with assms have "cmd_write K arg s = (e, s')" by (cases arg) (auto simp: do_cmd_def)
    then have c: "(e, s') = (case r2 of WriteErr e \<Rightarrow> (Some (WriteFailed e), s\<lparr>sk := k2\<rparr>)
        | Wrote n \<Rightarrow> (None, printf (arg @ '': wrote '' @ show_nat n @ '' bytes'' @ [nl]) (s\<lparr>sk := k2\<rparr>)))"
      by (simp add: cmd_write_def w split: io_write.splits)
    show ?thesis
    proof (cases "tl arg \<noteq> [] \<and> limit \<le> offset (sk s)")
      case True
      with 3 c writes [OF w] show ?thesis by (simp add: cmd_meaning_def)
    next
      case False
      with writes [OF w] 3 c show ?thesis by (simp only: if_False Let_def) (simp add: cmd_meaning_def printf_def False)
    qed
  next
    case 4
    with assms show ?thesis
      by (auto simp: do_cmd_def cmd_meaning_def cmd_seek_def Let_def case_prod_beta law printf_def split: sum.splits list.splits if_splits)
  next
    case 5
    with assms show ?thesis by (auto simp: do_cmd_def cmd_meaning_def Let_def split: list.splits)
  qed
qed

lemma do_cmds_meaning:
  assumes "do_cmds K args s = (e, s')"
    and "run_meaning (s_malloc K) limit args (content (sk s), offset (sk s)) = (ls, (c, p), ok)"
  shows "(e = None) = ok \<and> sout s' = sout s @ unlines ls \<and> content (sk s') = c \<and> offset (sk s') = p"
  using assms
proof (induction args arbitrary: s ls)
  case Nil
  then show ?case using closes [OF surjective_pairing, of "sk s"] by (auto simp: unlines_def case_prod_beta)
next
  case (Cons arg args)
  obtain e1 s1 where d: "do_cmd K arg s = (e1, s1)" by fastforce
  note m = do_cmd_meaning [OF d]
  show ?case
  proof (cases "cmd_meaning (s_malloc K) limit arg (content (sk s), offset (sk s))")
    case None
    with m d Cons.prems show ?thesis by (auto simp: unlines_def)
  next
    case (Some l)
    obtain t c1 p1 where l: "l = (t, c1, p1)" by (cases l) auto
    with Some m have s1: "e1 = None" "sout s1 = sout s @ t @ [nl]" "c1 = content (sk s1)" "p1 = offset (sk s1)" by auto
    obtain ls' where ls: "run_meaning (s_malloc K) limit args (content (sk s1), offset (sk s1)) = (ls', (c, p), ok)" "ls = t # ls'"
      using Cons.prems(2) Some l s1 by (cases "run_meaning (s_malloc K) limit args (c1, p1)") auto
    from Cons.prems(1) d s1 have "do_cmds K args s1 = (e, s')" by simp
    from Cons.IH [OF this ls(1)] s1 ls(2) show ?thesis by (simp add: unlines_def)
  qed
qed

end

section \<open>A reference file\<close>

definition ref_limit :: nat where "ref_limit = 2 ^ 20"

definition ref_fk :: "(string \<times> nat) fk" where
  "ref_fk =
     \<lparr>s_open = (\<lambda>f (c, p). (True, (c, 0))), s_malloc = (\<lambda>n. n \<le> 2 ^ 40),
      s_read = (\<lambda>(c, p) n. let bs = take (min n MAX_RW_COUNT) (drop p c) in (Data bs, (c, p + length bs))),
      s_write = (\<lambda>(c, p) d. if d \<noteq> [] \<and> ref_limit \<le> p then (WriteErr EFBIG, (c, p))
         else let d' = take (min MAX_RW_COUNT (ref_limit - p)) d in (Wrote (length d'), (store_at p d' c, p + length d'))),
      s_lseek = (\<lambda>v (c, p). if 0 \<le> v \<and> v \<le> int ref_limit then (v, (c, nat v)) else (-1, (c, p))),
      s_close = (\<lambda>k. (True, k))\<rparr>"

interpretation rfile: regular_file ref_fk fst snd ref_limit
  by unfold_locales (auto simp: ref_fk_def Let_def split: if_splits)

section \<open>Properties\<close>



text \<open>A byte from 128 on is shown with eight digits, since its \<open>char\<close> value is negative.\<close>

lemma hex_of_negative_char: "show_byte (CHR ''R'') (CHR 0xFE) = ''fffffffe ''"
proof -
  have u: "uint_of_char (CHR 0xFE) = 0xFFFFFFFE" by code_simp
  have f: "hex_digit 15 = CHR ''f''" "hex_digit 14 = CHR ''e''" by code_simp+
  show ?thesis by (simp add: show_byte_def printf_02x_def u show_hex.simps f)
qed

end
