(* ===== verification/Ipc_Create.thy ===== *)
theory Ipc_Create
  imports Get_Num Getopt
begin

text \<open>
  \<open>src/tlpi-book/svmsg/svmsg_create.c\<close>, \<open>svsem/svsem_create.c\<close> and \<open>svshm/svshm_create.c\<close>: three
  programs that open or create a System V object described by their command line.  They
  share the loop over the options; \<open>ftok\<close> and the three \<open>get\<close> calls are parameters.  The
  result is what is printed on standard output before \<open>exit(EXIT_SUCCESS)\<close>, or the reason
  of \<open>exit(EXIT_FAILURE)\<close>.
\<close>

section \<open>The programs\<close>

definition IPC_PRIVATE :: int where "IPC_PRIVATE = 0"
definition IPC_CREAT :: "32 word" where "IPC_CREAT = 0x200"
definition IPC_EXCL :: "32 word" where "IPC_EXCL = 0x400"
definition S_IRUSR :: "32 word" where "S_IRUSR = 0x100"
definition S_IWUSR :: "32 word" where "S_IWUSR = 0x80"

lemmas IPC_defs = IPC_CREAT_def IPC_EXCL_def S_IRUSR_def S_IWUSR_def

datatype create_error = Usage string | FtokFailed | NotNumeric | BadNumber string | GetFailed int

definition usage_text :: "string \<Rightarrow> string \<Rightarrow> string option \<Rightarrow> string" where
  "usage_text operands progName msg =
     (case msg of None \<Rightarrow> [] | Some m \<Rightarrow> m) @
     unlines
       [''Usage: '' @ progName @ '' [-cx] {-f pathname | -k key | -p} '' @ operands,
        ''    -c           Use IPC_CREAT flag'',
        ''    -x           Use IPC_EXCL flag'',
        ''    -f pathname  Generate key using ftok()'',
        ''    -k key       Use 'key' as key'',
        ''    -p           Use IPC_PRIVATE key'']"

definition svmsg_usageError :: "string \<Rightarrow> string option \<Rightarrow> string" where
  "svmsg_usageError = usage_text ''[octal-perms]''"

definition svsem_usageError :: "string \<Rightarrow> string option \<Rightarrow> string" where
  "svsem_usageError = usage_text ''num-sems [octal-perms]''"

definition svshm_usageError :: "string \<Rightarrow> string option \<Rightarrow> string" where
  "svshm_usageError = usage_text ''seg-size [octal-perms]''"

text \<open>\<open>sscanf(s, "%li", &lkey)\<close>, with the conversion of the C library: it fails when \<open>s\<close> does not
  start with a number.\<close>

definition sscanf_li :: "string \<Rightarrow> int option" where
  "sscanf_li s =
     (let (neg, s2) = strtol_sign (dropWhile isspace s);
          (b, s3) = strtol_prefix 0 s2
      in if takeWhile (is_digit_in b) s3 = [] then None else Some (fst (strtol s 0)))"

record create_opts =
  co_flags :: "32 word"
  co_key :: "int option"          \<comment> \<open>\<open>None\<close> while it is uninitialised\<close>
  numKeyFlags :: nat

definition no_create_opts :: create_opts where
  "no_create_opts = \<lparr>co_flags = 0, co_key = None, numKeyFlags = 0\<rparr>"

definition set_key :: "int \<Rightarrow> create_opts \<Rightarrow> create_opts" where
  "set_key key o' = o'\<lparr>co_key := Some key, numKeyFlags := numKeyFlags o' + 1\<rparr>"

text \<open>The loop over the options; \<open>ftok\<close> is called with project id 1, and \<open>bad\<close> is the text for an
  option that is not known.\<close>

fun read_create_opts ::
    "(string \<Rightarrow> int) \<Rightarrow> string \<Rightarrow> (char \<times> string) list \<Rightarrow> create_opts \<Rightarrow> create_error + create_opts" where
  "read_create_opts ftok bad [] o' = Inr o'"
| "read_create_opts ftok bad ((opt, optarg) # opts) o' =
     (if opt = CHR ''c'' then read_create_opts ftok bad opts (o'\<lparr>co_flags := co_flags o' OR IPC_CREAT\<rparr>)
      else if opt = CHR ''f'' then
        (let key = ftok optarg in
         if key = -1 then Inl FtokFailed else read_create_opts ftok bad opts (set_key key o'))
      else if opt = CHR ''k'' then
        (case sscanf_li optarg of
           None \<Rightarrow> Inl NotNumeric
         | Some lkey \<Rightarrow> read_create_opts ftok bad opts (set_key (cast_int lkey) o'))
      else if opt = CHR ''p'' then read_create_opts ftok bad opts (set_key IPC_PRIVATE o')
      else if opt = CHR ''x'' then read_create_opts ftok bad opts (o'\<lparr>co_flags := co_flags o' OR IPC_EXCL\<rparr>)
      else Inl (Usage bad))"

definition one_key :: "string \<Rightarrow> create_opts \<Rightarrow> create_error + 32 word \<times> int" where
  "one_key usage o' =
     (case co_key o' of
        Some key \<Rightarrow> if numKeyFlags o' = 1 then Inr (co_flags o', key) else Inl (Usage usage)
      | None \<Rightarrow> Inl (Usage usage))"

definition octal_perms :: "string list \<Rightarrow> create_error + 32 word" where
  "octal_perms args =
     (case args of
        [] \<Rightarrow> Inr (S_IRUSR OR S_IWUSR)
      | a # _ \<Rightarrow>
          (case getInt (Some a) GN_BASE_8 (Some ''octal-perms'') of
             Inl e \<Rightarrow> Inl (BadNumber e)
           | Inr p \<Rightarrow> Inr (word_of_int p)))"

text \<open>The call and the output that follows it.\<close>

definition report :: "(int + int) \<times> 's \<Rightarrow> (create_error + string) \<times> 's" where
  "report r = (case r of (Inl e, s) \<Rightarrow> (Inl (GetFailed e), s) | (Inr i, s) \<Rightarrow> (Inr (show_int i @ [nl]), s))"

abbreviation exactly_one :: string where
  "exactly_one \<equiv> ''Exactly one of the options -f, -k, or -p must be supplied'' @ [nl]"

definition svmsg_create_main ::
    "(string \<Rightarrow> int) \<Rightarrow> (int \<Rightarrow> 32 word \<Rightarrow> 's \<Rightarrow> (int + int) \<times> 's) \<Rightarrow> string list \<Rightarrow> 's \<Rightarrow>
     (create_error + string) \<times> 's" where
  "svmsg_create_main ftok msgget argv s =
     (let usage = (\<lambda>m. svmsg_usageError (argv ! 0) (Some m));
          (opts, args) = getopt ''cf:k:px'' argv
      in case read_create_opts ftok (usage (''Bad option'' @ [nl])) opts no_create_opts of
           Inl e \<Rightarrow> (Inl e, s)
         | Inr o' \<Rightarrow>
             (case one_key (usage exactly_one) o' of
                Inl e \<Rightarrow> (Inl e, s)
              | Inr (flags, key) \<Rightarrow>
                  (case octal_perms args of
                     Inl e \<Rightarrow> (Inl e, s)
                   | Inr perms \<Rightarrow> report (msgget key (flags OR perms) s))))"

definition svsem_create_main ::
    "(string \<Rightarrow> int) \<Rightarrow> (int \<Rightarrow> int \<Rightarrow> 32 word \<Rightarrow> 's \<Rightarrow> (int + int) \<times> 's) \<Rightarrow> string list \<Rightarrow> 's \<Rightarrow>
     (create_error + string) \<times> 's" where
  "svsem_create_main ftok semget argv s =
     (let usage = svsem_usageError (argv ! 0);
          (opts, args) = getopt ''cf:k:px'' argv
      in case read_create_opts ftok (usage None) opts no_create_opts of
           Inl e \<Rightarrow> (Inl e, s)
         | Inr o' \<Rightarrow>
             (case one_key (usage (Some exactly_one)) o' of
                Inl e \<Rightarrow> (Inl e, s)
              | Inr (flags, key) \<Rightarrow>
                  (case args of
                     [] \<Rightarrow> (Inl (Usage (usage (Some (''Must specify number of semaphores'' @ [nl])))), s)
                   | n # args \<Rightarrow>
                       (case getInt (Some n) 0 (Some ''num-sems'') of
                          Inl e \<Rightarrow> (Inl (BadNumber e), s)
                        | Inr numSems \<Rightarrow>
                            (case octal_perms args of
                               Inl e \<Rightarrow> (Inl e, s)
                             | Inr perms \<Rightarrow> report (semget key numSems (flags OR perms) s))))))"

text \<open>\<open>segSize\<close> is an \<open>int\<close>, which \<open>shmget\<close> takes as a \<open>size_t\<close>.\<close>

definition svshm_create_main ::
    "(string \<Rightarrow> int) \<Rightarrow> (int \<Rightarrow> 64 word \<Rightarrow> 32 word \<Rightarrow> 's \<Rightarrow> (int + int) \<times> 's) \<Rightarrow> string list \<Rightarrow> 's \<Rightarrow>
     (create_error + string) \<times> 's" where
  "svshm_create_main ftok shmget argv s =
     (let usage = svshm_usageError (argv ! 0);
          (opts, args) = getopt ''cf:k:px'' argv
      in case read_create_opts ftok (usage None) opts no_create_opts of
           Inl e \<Rightarrow> (Inl e, s)
         | Inr o' \<Rightarrow>
             (case one_key (usage (Some exactly_one)) o' of
                Inl e \<Rightarrow> (Inl e, s)
              | Inr (flags, key) \<Rightarrow>
                  (case args of
                     [] \<Rightarrow> (Inl (Usage (usage (Some (''Size of segment must be specified'' @ [nl])))), s)
                   | n # args \<Rightarrow>
                       (case getLong (Some n) GN_ANY_BASE (Some ''seg-size'') of
                          Inl e \<Rightarrow> (Inl (BadNumber e), s)
                        | Inr v \<Rightarrow>
                            (case octal_perms args of
                               Inl e \<Rightarrow> (Inl e, s)
                             | Inr perms \<Rightarrow>
                                 report (shmget key (word_of_int (cast_int v)) (flags OR perms) s))))))"

section \<open>What an option vector asks for\<close>

text \<open>The key that an option names, if it names one.\<close>

fun key_of :: "(string \<Rightarrow> int) \<Rightarrow> char \<times> string \<Rightarrow> int option" where
  "key_of ftok (opt, optarg) =
     (if opt = CHR ''f'' then (if ftok optarg = -1 then None else Some (ftok optarg))
      else if opt = CHR ''k'' then map_option cast_int (sscanf_li optarg)
      else if opt = CHR ''p'' then Some IPC_PRIVATE
      else None)"

definition key_option :: "char \<times> string \<Rightarrow> bool" where
  "key_option p \<longleftrightarrow> fst p \<in> {CHR ''f'', CHR ''k'', CHR ''p''}"

text \<open>\<open>-c\<close> and \<open>-x\<close> count whenever they occur, and exactly one option names the key.\<close>

definition asked_flags :: "(char \<times> string) list \<Rightarrow> 32 word" where
  "asked_flags opts =
     (if CHR ''c'' \<in> fst ` set opts then IPC_CREAT else 0) OR (if CHR ''x'' \<in> fst ` set opts then IPC_EXCL else 0)"

definition asked_key :: "(string \<Rightarrow> int) \<Rightarrow> (char \<times> string) list \<Rightarrow> int option" where
  "asked_key ftok opts =
     (if fst ` set opts \<subseteq> {CHR ''c'', CHR ''f'', CHR ''k'', CHR ''p'', CHR ''x''} then
        (case filter key_option opts of [p] \<Rightarrow> key_of ftok p | _ \<Rightarrow> None)
      else None)"

definition opt_ok :: "(string \<Rightarrow> int) \<Rightarrow> char \<times> string \<Rightarrow> bool" where
  "opt_ok ftok p \<longleftrightarrow> fst p \<in> {CHR ''c'', CHR ''x''} \<or> key_option p \<and> key_of ftok p \<noteq> None"

lemma key_option_pair [simp]: "key_option (c, a) \<longleftrightarrow> c \<in> {CHR ''f'', CHR ''k'', CHR ''p''}"
  by (simp add: key_option_def)

lemma opt_ok_pair [simp]:
  "opt_ok ftok (c, a) \<longleftrightarrow> c \<in> {CHR ''c'', CHR ''x''} \<or> key_of ftok (c, a) \<noteq> None"
  by (auto simp: opt_ok_def)

lemma asked_flags_Cons:
  "asked_flags ((c, a) # opts) =
     (if c = CHR ''c'' then IPC_CREAT else if c = CHR ''x'' then IPC_EXCL else 0) OR asked_flags opts"
  by (auto simp: asked_flags_def ac_simps)

text \<open>The loop as a whole: it fails at the first bad option, or has collected the flags in any
  order, counted the options that name a key, and kept the last of these.\<close>

lemma read_create_opts_spec:
  "if list_all (opt_ok ftok) opts
   then read_create_opts ftok bad opts o' =
     Inr (o'\<lparr>co_flags := co_flags o' OR asked_flags opts,
       co_key := (if filter key_option opts = [] then co_key o' else key_of ftok (last (filter key_option opts))),
       numKeyFlags := numKeyFlags o' + length (filter key_option opts)\<rparr>)
   else \<exists>e. read_create_opts ftok bad opts o' = Inl e"
proof (induction opts arbitrary: o')
  case Nil
  then show ?case by (simp add: asked_flags_def)
next
  case (Cons p opts)
  obtain c a where p: "p = (c, a)" by (cases p)
  note IH = Cons.IH [of "o'\<lparr>co_flags := co_flags o' OR IPC_CREAT\<rparr>"] Cons.IH [of "o'\<lparr>co_flags := co_flags o' OR IPC_EXCL\<rparr>"]
    Cons.IH [of "set_key (ftok a) o'"] Cons.IH [of "set_key IPC_PRIVATE o'"]
    Cons.IH [of "set_key (cast_int (the (sscanf_li a))) o'"]
  consider "c = CHR ''c''" | "c = CHR ''x''" | "c = CHR ''f''" | "c = CHR ''k''" | "c = CHR ''p''"
    | "c \<notin> {CHR ''c'', CHR ''x'', CHR ''f'', CHR ''k'', CHR ''p''}" by blast
  then show ?case
    by cases (use IH in \<open>auto simp: p asked_flags_Cons set_key_def Let_def or.assoc
        split: option.splits if_splits\<close>)
qed

lemma asked_key_iff:
  "asked_key ftok opts = Some key \<longleftrightarrow>
     list_all (opt_ok ftok) opts \<and> (\<exists>p. filter key_option opts = [p] \<and> key_of ftok p = Some key)"
proof (cases "\<exists>p. filter key_option opts = [p]")
  case True
  then obtain p where p: "filter key_option opts = [p]" by blast
  then have "set (filter key_option opts) = {p}" by simp
  then have keys: "q \<in> set opts \<Longrightarrow> key_option q \<Longrightarrow> q = p" for q by auto
  show ?thesis
  proof (cases "key_of ftok p")
    case (Some k)
    then have "list_all (opt_ok ftok) opts \<longleftrightarrow>
        fst ` set opts \<subseteq> {CHR ''c'', CHR ''f'', CHR ''k'', CHR ''p'', CHR ''x''}"
      using keys by (fastforce simp: list_all_iff opt_ok_def key_option_def)
    with p Some show ?thesis by (simp add: asked_key_def)
  qed (simp add: asked_key_def p)
next
  case False
  then show ?thesis by (auto simp: asked_key_def split: list.splits)
qed

lemma create_key:
  "\<exists>e. (case read_create_opts ftok bad opts no_create_opts of Inl e \<Rightarrow> Inl e | Inr o' \<Rightarrow> one_key usage o') =
     (case asked_key ftok opts of Some key \<Rightarrow> Inr (asked_flags opts, key) | None \<Rightarrow> Inl e)"
proof (cases "asked_key ftok opts")
  case (Some key)
  then obtain p where "list_all (opt_ok ftok) opts" "filter key_option opts = [p]" "key_of ftok p = Some key"
    by (auto simp: asked_key_iff)
  with Some read_create_opts_spec [of ftok opts bad no_create_opts] show ?thesis
    by (simp add: no_create_opts_def one_key_def)
next
  case None
  have len: "length (filter key_option opts) \<noteq> 1" if "list_all (opt_ok ftok) opts"
  proof
    assume "length (filter key_option opts) = 1"
    then obtain p where p: "filter key_option opts = [p]" by (auto simp: length_Suc_conv)
    then have "p \<in> set (filter key_option opts)" by simp
    with that have "opt_ok ftok p" "key_option p" by (auto simp: list_all_iff)
    then obtain key where "key_of ftok p = Some key" by (auto simp: opt_ok_def key_option_def)
    with p that have "asked_key ftok opts = Some key" by (simp add: asked_key_iff)
    with None show False by simp
  qed
  show ?thesis
  proof (cases "list_all (opt_ok ftok) opts")
    case True
    with None len read_create_opts_spec [of ftok opts bad no_create_opts] show ?thesis
      by (simp add: no_create_opts_def one_key_def del: key_of.simps split: option.splits)
  next
    case False
    with None read_create_opts_spec [of ftok opts bad no_create_opts] show ?thesis by auto
  qed
qed

lemma create_key_cases:
  obtains (asked) key o' where "asked_key ftok opts = Some key"
      "read_create_opts ftok bad opts no_create_opts = Inr o'" "one_key usage o' = Inr (asked_flags opts, key)"
  | (bad_option) e where "asked_key ftok opts = None" "read_create_opts ftok bad opts no_create_opts = Inl e"
  | (bad_keys) o' e where "asked_key ftok opts = None" "read_create_opts ftok bad opts no_create_opts = Inr o'" "one_key usage o' = Inl e"
  using create_key [where ftok = ftok and bad = bad and opts = opts and usage = usage] by (auto split: sum.splits option.splits)

section \<open>Properties\<close>



end
