(* ===== verification/Schedules.thy ===== *)
theory Schedules
  imports Prelude
begin

text \<open>
  Threads as interleaved steps.  A schedule is a list of events; the locale \<open>bounded_steps\<close> is what
  makes every schedule of a process finite: an invariant, and a measure that each step
  decreases, up to the cost that its event pays for.
\<close>

fun runs :: "('e \<Rightarrow> 's \<Rightarrow> 's option) \<Rightarrow> 'e list \<Rightarrow> 's \<Rightarrow> 's option" where
  "runs step [] s = Some s"
| "runs step (e # es) s = (case step e s of None \<Rightarrow> None | Some s \<Rightarrow> runs step es s)"

lemma runs_append: "runs step (es @ fs) s = Option.bind (runs step es s) (runs step fs)"
  by (induction es arbitrary: s) (auto split: option.splits)

locale bounded_steps =
  fixes step :: "'e \<Rightarrow> 's \<Rightarrow> 's option" and invar :: "'s \<Rightarrow> bool" and left :: "'s \<Rightarrow> int" and cost :: "'e \<Rightarrow> int"
  assumes step_invar: "invar s \<Longrightarrow> step e s = Some s' \<Longrightarrow> invar s'"
    and step_left: "invar s \<Longrightarrow> step e s = Some s' \<Longrightarrow> left s' + 1 \<le> left s + cost e"
begin

lemma runs_invar: "runs step es s = Some s' \<Longrightarrow> invar s \<Longrightarrow> invar s'"
  by (induction es arbitrary: s) (auto split: option.splits intro: step_invar)

lemma runs_length:
  "runs step es s = Some s' \<Longrightarrow> invar s \<Longrightarrow> left s' + int (length es) \<le> left s + sum_list (map cost es)"
proof (induction es arbitrary: s)
  case (Cons e es)
  then obtain s1 where s1: "step e s = Some s1" "runs step es s1 = Some s'" by (auto split: option.splits)
  from Cons.IH [OF s1(2) step_invar [OF Cons.prems(2) s1(1)]] step_left [OF Cons.prems(2) s1(1)] show ?case by simp
qed simp

lemma runs_enters_invar:
  assumes "runs step es s = Some s'" "invar s" "P s'" "\<not> P s"
    and "\<And>e t t'. invar t \<Longrightarrow> step e t = Some t' \<Longrightarrow> P t' \<Longrightarrow> \<not> P t \<Longrightarrow> Q e"
  shows "\<exists>e\<in>set es. Q e"
  using assms(1,2,4)
proof (induction es arbitrary: s)
  case (Cons e es)
  then obtain s1 where s1: "step e s = Some s1" "runs step es s1 = Some s'" by (auto split: option.splits)
  show ?case
  proof (cases "P s1")
    case True
    with assms(5) [OF Cons.prems(2) s1(1)] Cons.prems(3) show ?thesis by simp
  qed (use Cons.IH [OF s1(2) step_invar [OF Cons.prems(2) s1(1)]] in auto)
qed (use assms(3) in simp)

end

text \<open>What holds of the last event that leads into a set of states for good.\<close>

lemma runs_enters:
  assumes "runs step es s = Some s'" "P s'" "\<not> P s"
    and "\<And>e t t'. step e t = Some t' \<Longrightarrow> P t' \<Longrightarrow> \<not> P t \<Longrightarrow> Q e"
  shows "\<exists>e\<in>set es. Q e"
  using assms(1,3)
proof (induction es arbitrary: s)
  case (Cons e es)
  then obtain s1 where s1: "step e s = Some s1" "runs step es s1 = Some s'" by (auto split: option.splits)
  show ?case
  proof (cases "P s1")
    case True
    with assms(4) [OF s1(1)] Cons.prems(2) show ?thesis by simp
  qed (use Cons.IH [OF s1(2)] in auto)
qed (use assms(2) in simp)

text \<open>The change of a sum when one summand changes.\<close>

lemma sum_list_update_int:
  "i < length xs \<Longrightarrow> sum_list (map f (xs[i := y])) = sum_list (map f xs) - f (xs ! i) + (f y :: int)"
proof (induction xs arbitrary: i)
  case (Cons x xs)
  then show ?case by (cases i) auto
qed simp

lemma sum_list_spurious: "sum_list (map (\<lambda>e. if e = x then c else 0) es) = c * int (length (filter ((=) x) es))" for c :: int
  by (induction es) (auto simp: algebra_simps)

lemma sum_list_0_all: "\<forall>x\<in>set xs. f x = 0 \<Longrightarrow> sum_list (map f xs) = (0 :: int)"
  by (induction xs) simp_all

end
