(* ===== verification/Prod_Condvar.thy ===== *)
theory Prod_Condvar
  imports Schedules
begin

text \<open>
  \<open>src/tlpi-book/threads/prod_condvar.c\<close>: several producers and one consumer that share a
  counter, a mutex and a condition variable.  Every thread is a sequence of steps, and the
  steps of the threads interleave in any order.  A mutex is locked when it is free;
  \<open>pthread_cond_wait\<close> releases the mutex and sleeps in one step, is woken by a signal or
  spuriously, and locks the mutex again.  An event carries the result of the \<open>pthread\<close> call
  that the step makes; a result other than 0 ends the process.
\<close>

section \<open>Threads\<close>

datatype ppc = PNext | PLock | PInc | PUnlock | PSignal | PEnd

record prod =
  p_cnt :: int
  p_j :: int
  p_pc :: ppc

datatype mpc = MCreate nat | MLock | MTest | MWait | MWoken | MConsume | MUnlock | MDone | MExit int

text \<open>The owner of the mutex is 0 for the main thread and \<open>Suc i\<close> for producer \<open>i\<close>.\<close>

record pcs =
  avail :: int
  owner :: "nat option"
  prods :: "prod list"
  mainpc :: mpc
  totRequired :: int
  numConsumed :: int
  doneFlag :: bool
  shown :: "int list"           \<comment> \<open>the values of \<open>numConsumed\<close> printed\<close>

datatype event = Main int | Prod nat int | Spurious

definition start :: pcs where
  "start = \<lparr>avail = 0, owner = None, prods = [], mainpc = MCreate 0, totRequired = 0, numConsumed = 0,
     doneFlag = False, shown = []\<rparr>"

definition exited :: "pcs \<Rightarrow> bool" where
  "exited s \<longleftrightarrow> (\<exists>n. mainpc s = MExit n)"

definition errExitEN :: "pcs \<Rightarrow> pcs" where
  "errExitEN s = s\<lparr>mainpc := MExit 1\<rparr>"

definition main_step :: "string list \<Rightarrow> int \<Rightarrow> pcs \<Rightarrow> pcs option" where
  "main_step args r s =
     (case mainpc s of
        MCreate j \<Rightarrow>
          if j < length args then
            (let cnt = atoi (args ! j); s = s\<lparr>totRequired := totRequired s + cnt\<rparr> in
             if r \<noteq> 0 then Some (errExitEN s)
             else Some (s\<lparr>prods := prods s @ [\<lparr>p_cnt = cnt, p_j = 0, p_pc = PNext\<rparr>], mainpc := MCreate (Suc j)\<rparr>))
          else Some (s\<lparr>mainpc := MLock\<rparr>)
      | MLock \<Rightarrow>
          if r \<noteq> 0 then Some (errExitEN s)
          else if owner s = None then Some (s\<lparr>owner := Some 0, mainpc := MTest\<rparr>) else None
      | MTest \<Rightarrow>
          if avail s = 0 then
            if r \<noteq> 0 then Some (errExitEN s) else Some (s\<lparr>owner := None, mainpc := MWait\<rparr>)
          else Some (s\<lparr>mainpc := MConsume\<rparr>)
      | MWait \<Rightarrow> None
      | MWoken \<Rightarrow> if owner s = None then Some (s\<lparr>owner := Some 0, mainpc := MTest\<rparr>) else None
      | MConsume \<Rightarrow>
          if avail s > 0 then
            (let n = numConsumed s + 1 in
             Some (s\<lparr>numConsumed := n, avail := avail s - 1, shown := shown s @ [n], doneFlag := (n \<ge> totRequired s)\<rparr>))
          else Some (s\<lparr>mainpc := MUnlock\<rparr>)
      | MUnlock \<Rightarrow> if r \<noteq> 0 then Some (errExitEN s) else Some (s\<lparr>owner := None, mainpc := MDone\<rparr>)
      | MDone \<Rightarrow> Some (s\<lparr>mainpc := (if doneFlag s then MExit 0 else MLock)\<rparr>)
      | MExit n \<Rightarrow> None)"

definition set_prod :: "nat \<Rightarrow> prod \<Rightarrow> pcs \<Rightarrow> pcs" where
  "set_prod i p s = s\<lparr>prods := (prods s)[i := p]\<rparr>"

definition prod_step :: "nat \<Rightarrow> int \<Rightarrow> pcs \<Rightarrow> pcs option" where
  "prod_step i r s =
     (if exited s \<or> length (prods s) \<le> i then None
      else
        (let p = prods s ! i in
         case p_pc p of
           PNext \<Rightarrow> Some (set_prod i (p\<lparr>p_pc := (if p_j p < p_cnt p then PLock else PEnd)\<rparr>) s)
         | PLock \<Rightarrow>
             if r \<noteq> 0 then Some (errExitEN s)
             else if owner s = None then Some (set_prod i (p\<lparr>p_pc := PInc\<rparr>) (s\<lparr>owner := Some (Suc i)\<rparr>)) else None
         | PInc \<Rightarrow> Some (set_prod i (p\<lparr>p_pc := PUnlock\<rparr>) (s\<lparr>avail := avail s + 1\<rparr>))
         | PUnlock \<Rightarrow>
             if r \<noteq> 0 then Some (errExitEN s)
             else Some (set_prod i (p\<lparr>p_pc := PSignal\<rparr>) (s\<lparr>owner := None\<rparr>))
         | PSignal \<Rightarrow>
             if r \<noteq> 0 then Some (errExitEN s)
             else
               Some (set_prod i (p\<lparr>p_j := p_j p + 1, p_pc := PNext\<rparr>)
                 (s\<lparr>mainpc := (if mainpc s = MWait then MWoken else mainpc s)\<rparr>))
         | PEnd \<Rightarrow> None))"

fun step :: "string list \<Rightarrow> event \<Rightarrow> pcs \<Rightarrow> pcs option" where
  "step args (Main r) s = main_step args r s"
| "step args (Prod i r) s = prod_step i r s"
| "step args Spurious s = (if mainpc s = MWait then Some (s\<lparr>mainpc := MWoken\<rparr>) else None)"

text \<open>A run of the process: every event of the schedule is enabled.\<close>

fun run :: "string list \<Rightarrow> event list \<Rightarrow> pcs \<Rightarrow> pcs option" where
  "run args [] s = Some s"
| "run args (e # es) s = (case step args e s of None \<Rightarrow> None | Some s \<Rightarrow> run args es s)"

section \<open>Invariant\<close>

text \<open>Units that a producer has made available, and the steps it has left.\<close>

definition produced :: "prod \<Rightarrow> int" where
  "produced p = p_j p + (if p_pc p \<in> {PUnlock, PSignal} then 1 else 0)"

definition prod_ok :: "prod \<Rightarrow> bool" where
  "prod_ok p \<longleftrightarrow> 0 \<le> p_j p \<and> p_j p \<le> p_cnt p \<and> (p_pc p \<in> {PLock, PInc, PUnlock, PSignal} \<longrightarrow> p_j p < p_cnt p) \<and>
     (p_pc p = PEnd \<longrightarrow> p_j p = p_cnt p)"

abbreviation total :: "(prod \<Rightarrow> int) \<Rightarrow> pcs \<Rightarrow> int" where
  "total f s \<equiv> sum_list (map f (prods s))"

definition mutex_ok :: "pcs \<Rightarrow> bool" where
  "mutex_ok s \<longleftrightarrow>
     (mainpc s \<in> {MTest, MConsume, MUnlock}) = (owner s = Some 0) \<and>
     (\<forall>i<length (prods s). (p_pc (prods s ! i) \<in> {PInc, PUnlock}) = (owner s = Some (Suc i))) \<and>
     (\<forall>i. owner s = Some (Suc i) \<longrightarrow> i < length (prods s))"

definition counts_ok :: "pcs \<Rightarrow> bool" where
  "counts_ok s \<longleftrightarrow> (\<forall>p\<in>set (prods s). prod_ok p) \<and> 0 \<le> avail s \<and> 0 \<le> numConsumed s \<and>
     numConsumed s + avail s = total produced s \<and> totRequired s = total p_cnt s \<and>
     shown s = [1..numConsumed s]"

text \<open>No wake-up is lost: while the consumer sleeps beside available units, a producer is
  still to signal.\<close>

definition wake_ok :: "pcs \<Rightarrow> bool" where
  "wake_ok s \<longleftrightarrow> mainpc s = MWait \<longrightarrow> avail s = 0 \<or> (\<exists>i<length (prods s). p_pc (prods s ! i) \<in> {PUnlock, PSignal})"

definition main_ok :: "string list \<Rightarrow> pcs \<Rightarrow> bool" where
  "main_ok args s \<longleftrightarrow>
     (case mainpc s of
        MCreate j \<Rightarrow> j \<le> length args \<and> map p_cnt (prods s) = map atoi (take j args) \<and> numConsumed s = 0 \<and> \<not> doneFlag s
      | _ \<Rightarrow> map p_cnt (prods s) = map atoi args) \<and>
     (mainpc s \<in> {MLock, MTest, MWait, MWoken} \<longrightarrow> numConsumed s = 0 \<or> numConsumed s < totRequired s) \<and>
     (0 < numConsumed s \<longrightarrow> doneFlag s = (numConsumed s \<ge> totRequired s)) \<and> (numConsumed s = 0 \<longrightarrow> \<not> doneFlag s) \<and>
     (mainpc s = MExit 0 \<longrightarrow> doneFlag s)"

definition pc_inv :: "string list \<Rightarrow> pcs \<Rightarrow> bool" where
  "pc_inv args s \<longleftrightarrow> mainpc s = MExit 1 \<or> mutex_ok s \<and> counts_ok s \<and> wake_ok s \<and> main_ok args s"

lemma inv_start: "pc_inv args start"
  by (simp add: pc_inv_def start_def mutex_ok_def counts_ok_def wake_ok_def main_ok_def)

lemmas inv_parts = mutex_ok_def counts_ok_def wake_ok_def main_ok_def

lemma upto_snoc: "0 \<le> n \<Longrightarrow> [1..n] @ [n + 1] = [1..n + 1]"
  by (simp add: upto_rec2)

text \<open>The main thread has locked the mutex, before the test of \<open>avail\<close>.\<close>

lemma inv_locked:
  assumes "pc_inv args s" and "mainpc s \<in> {MLock, MWoken}" and "owner s = None"
  shows "pc_inv args (s\<lparr>owner := Some 0, mainpc := MTest\<rparr>)"
proof -
  from assms(1,2) have i: "mutex_ok s" "counts_ok s" "main_ok args s" by (auto simp: pc_inv_def)
  from i(1) assms(3) have "mutex_ok (s\<lparr>owner := Some 0, mainpc := MTest\<rparr>)" by (simp add: mutex_ok_def)
  moreover from i(2) have "counts_ok (s\<lparr>owner := Some 0, mainpc := MTest\<rparr>)" by (simp add: counts_ok_def)
  moreover from i(3) assms(2) have "main_ok args (s\<lparr>owner := Some 0, mainpc := MTest\<rparr>)" by (auto simp: main_ok_def)
  ultimately show ?thesis by (simp add: pc_inv_def wake_ok_def)
qed

lemma inv_main_step:
  assumes "pc_inv args s" and "main_step args r s = Some s'" and "\<forall>a\<in>set args. 0 \<le> atoi a"
  shows "pc_inv args s'"
proof (cases "mainpc s")
  case (MCreate j)
  show ?thesis
  proof (cases "j < length args")
    case True
    then have "map atoi (take (Suc j) args) = map atoi (take j args) @ [atoi (args ! j)]"
      by (simp add: take_Suc_conv_app_nth)
    moreover from True assms(3) have "0 \<le> atoi (args ! j)" by simp
    ultimately show ?thesis using assms(1,2) MCreate True
      by (auto simp: pc_inv_def inv_parts main_step_def errExitEN_def Let_def nth_append prod_ok_def produced_def less_Suc_eq
          split: if_splits)
  next
    case False
    with assms(1,2) MCreate show ?thesis by (auto simp: pc_inv_def inv_parts main_step_def)
  qed
next
  case MConsume
  show ?thesis
  proof (cases "avail s > 0")
    case True
    with assms(2) MConsume have s': "s' = s\<lparr>numConsumed := numConsumed s + 1, avail := avail s - 1,
        shown := shown s @ [numConsumed s + 1], doneFlag := (numConsumed s + 1 \<ge> totRequired s)\<rparr>"
      by (simp add: main_step_def Let_def)
    from assms(1) MConsume have i: "mutex_ok s" "counts_ok s" "main_ok args s" by (simp_all add: pc_inv_def)
    from i(1) have "mutex_ok s'" by (simp add: mutex_ok_def s')
    moreover from i(2) True have "counts_ok s'" by (simp add: counts_ok_def s' upto_snoc)
    moreover from MConsume have "wake_ok s'" by (simp add: wake_ok_def s')
    moreover from i(2,3) MConsume have "main_ok args s'" by (simp add: main_ok_def counts_ok_def s')
    ultimately show ?thesis by (simp add: pc_inv_def)
  next
    case False
    with assms(1,2) MConsume show ?thesis by (auto simp: pc_inv_def inv_parts main_step_def)
  qed
next
  case MLock
  show ?thesis
  proof (cases "r = 0")
    case True
    with assms(2) MLock have s': "owner s = None" "s' = s\<lparr>owner := Some 0, mainpc := MTest\<rparr>"
      by (simp_all add: main_step_def split: if_splits)
    with assms(1) MLock show ?thesis by (simp add: inv_locked)
  qed (use assms(2) MLock in \<open>auto simp: main_step_def pc_inv_def errExitEN_def\<close>)
next
  case MWoken
  with assms(2) have s': "owner s = None" "s' = s\<lparr>owner := Some 0, mainpc := MTest\<rparr>"
    by (simp_all add: main_step_def split: if_splits)
  with assms(1) MWoken show ?thesis by (simp add: inv_locked)
next
  case MTest
  consider "avail s \<noteq> 0" "s' = s\<lparr>mainpc := MConsume\<rparr>" | "avail s = 0" "s' = s\<lparr>owner := None, mainpc := MWait\<rparr>" | "s' = errExitEN s"
    using assms(2) MTest by (auto simp: main_step_def split: if_splits)
  then show ?thesis
  proof cases
    case 2
    from assms(1) MTest have i: "mutex_ok s" "counts_ok s" "main_ok args s" by (simp_all add: pc_inv_def)
    from i(1) 2 MTest have "mutex_ok s'" by (simp add: mutex_ok_def)
    moreover from i(2) 2 have "counts_ok s'" by (simp add: counts_ok_def)
    moreover from i(3) 2 MTest have "main_ok args s'" by (simp add: main_ok_def)
    ultimately show ?thesis using 2 by (simp add: pc_inv_def wake_ok_def)
  qed (use assms(1) MTest in \<open>simp_all add: pc_inv_def inv_parts errExitEN_def\<close>)
next
  case MUnlock
  consider "s' = s\<lparr>owner := None, mainpc := MDone\<rparr>" | "s' = errExitEN s"
    using assms(2) MUnlock by (auto simp: main_step_def split: if_splits)
  then show ?thesis
    by cases (use assms(1) MUnlock in \<open>simp_all add: pc_inv_def inv_parts errExitEN_def\<close>)
next
  case MDone
  with assms(2) have "s' = s\<lparr>mainpc := (if doneFlag s then MExit 0 else MLock)\<rparr>" by (simp add: main_step_def)
  with assms(1) MDone show ?thesis by (cases "doneFlag s") (auto simp: pc_inv_def inv_parts)
qed (use assms(2) in \<open>simp_all add: main_step_def\<close>)

text \<open>A producer moves on, together with a change \<open>t\<close> of the shared state.\<close>

lemma map_cnt_update:
  "i < length xs \<Longrightarrow> p_cnt y = p_cnt (xs ! i) \<Longrightarrow> map p_cnt (xs[i := y]) = map p_cnt xs"
  by (simp add: map_update) (metis list_update_id nth_map)

lemma prods_move:
  assumes "counts_ok s" "i < length (prods s)" "prod_ok y" "p_cnt y = p_cnt (prods s ! i)"
    "prods t = (prods s)[i := y]" "avail t = avail s + (produced y - produced (prods s ! i))" "0 \<le> avail t"
    "numConsumed t = numConsumed s" "totRequired t = totRequired s" "shown t = shown s"
  shows "counts_ok t"
proof -
  have "total p_cnt t = total p_cnt s" using assms(2,4,5) by (simp add: map_cnt_update)
  moreover have "total produced t = total produced s + (produced y - produced (prods s ! i))"
    using assms(2,5) by (simp add: sum_list_update_int)
  moreover have "\<forall>p\<in>set (prods t). prod_ok p"
    using assms(1,3,5) set_update_subset_insert [of "prods s" i y] by (auto simp: counts_ok_def)
  ultimately show ?thesis using assms by (simp add: counts_ok_def)
qed

lemma main_ok_cong:
  assumes "main_ok args s" "map p_cnt (prods t) = map p_cnt (prods s)" "numConsumed t = numConsumed s"
    "totRequired t = totRequired s" "doneFlag t = doneFlag s"
    "mainpc t = mainpc s \<or> mainpc s = MWait \<and> mainpc t = MWoken"
  shows "main_ok args t"
  using assms(6)
proof
  assume "mainpc t = mainpc s"
  with assms(1-5) show ?thesis by (simp add: main_ok_def cong: mpc.case_cong)
next
  assume "mainpc s = MWait \<and> mainpc t = MWoken"
  with assms(1-5) show ?thesis by (simp add: main_ok_def)
qed

lemma wake_move:
  assumes "wake_ok s" "i < length (prods s)" "prods t = (prods s)[i := y]" "mainpc t = MWait \<Longrightarrow> mainpc s = MWait"
    "p_pc y \<in> {PUnlock, PSignal} \<or> p_pc (prods s ! i) \<notin> {PUnlock, PSignal} \<and> avail t = avail s \<or> mainpc t \<noteq> MWait"
  shows "wake_ok t"
proof (cases "mainpc t = MWait \<and> p_pc y \<notin> {PUnlock, PSignal}")
  case True
  with assms(1,4,5) consider "avail t = 0" | j where "j < length (prods s)" "p_pc (prods s ! j) \<in> {PUnlock, PSignal}" "j \<noteq> i"
    by (auto simp: wake_ok_def)
  then show ?thesis
  proof cases
    case 2
    with assms(3) have "p_pc (prods t ! j) \<in> {PUnlock, PSignal}" "j < length (prods t)" by simp_all
    then show ?thesis unfolding wake_ok_def by blast
  qed (simp add: wake_ok_def)
next
  case False
  moreover have "prods t ! i = y" "i < length (prods t)" using assms(2,3) by simp_all
  ultimately show ?thesis unfolding wake_ok_def by metis
qed

lemma mutex_move:
  assumes "mutex_ok s" "i < length (prods s)" "prods t = (prods s)[i := y]"
    "(mainpc t \<in> {MTest, MConsume, MUnlock}) = (mainpc s \<in> {MTest, MConsume, MUnlock})"
    "(p_pc y \<in> {PInc, PUnlock}) = (owner t = Some (Suc i))"
    "owner t = owner s \<or> owner s = None \<and> owner t = Some (Suc i) \<or> owner s = Some (Suc i) \<and> owner t = None"
  shows "mutex_ok t"
  unfolding mutex_ok_def
proof (intro conjI allI impI)
  show "(mainpc t \<in> {MTest, MConsume, MUnlock}) = (owner t = Some 0)"
    using assms(1,4,6) by (auto simp: mutex_ok_def)
  show "j < length (prods t)" if "owner t = Some (Suc j)" for j
    using that assms(1,2,3,6) by (auto simp: mutex_ok_def)
  show "(p_pc (prods t ! j) \<in> {PInc, PUnlock}) = (owner t = Some (Suc j))" if "j < length (prods t)" for j
  proof (cases "j = i")
    case False
    moreover from that assms(3) have "j < length (prods s)" by simp
    with assms(1) have "(p_pc (prods s ! j) \<in> {PInc, PUnlock}) = (owner s = Some (Suc j))" unfolding mutex_ok_def by blast
    ultimately show ?thesis using assms(3,6) by auto
  qed (use assms(2,3,5) in simp)
qed

text \<open>What a step of a producer does: it fails, or replaces the producer and changes the shared
  state.\<close>

lemma prod_stepE:
  assumes "prod_step i r s = Some s'"
  obtains (failed) "s' = errExitEN s"
  | (next_unit) "p_pc (prods s ! i) = PNext"
      "s' = set_prod i ((prods s ! i)\<lparr>p_pc := (if p_j (prods s ! i) < p_cnt (prods s ! i) then PLock else PEnd)\<rparr>) s"
  | (locks) "p_pc (prods s ! i) = PLock" "owner s = None"
      "s' = set_prod i ((prods s ! i)\<lparr>p_pc := PInc\<rparr>) (s\<lparr>owner := Some (Suc i)\<rparr>)"
  | (increments) "p_pc (prods s ! i) = PInc"
      "s' = set_prod i ((prods s ! i)\<lparr>p_pc := PUnlock\<rparr>) (s\<lparr>avail := avail s + 1\<rparr>)"
  | (unlocks) "p_pc (prods s ! i) = PUnlock"
      "s' = set_prod i ((prods s ! i)\<lparr>p_pc := PSignal\<rparr>) (s\<lparr>owner := None\<rparr>)"
  | (signals) "p_pc (prods s ! i) = PSignal"
      "s' = set_prod i ((prods s ! i)\<lparr>p_j := p_j (prods s ! i) + 1, p_pc := PNext\<rparr>)
         (s\<lparr>mainpc := (if mainpc s = MWait then MWoken else mainpc s)\<rparr>)"
  using assms by (cases "p_pc (prods s ! i)") (auto simp: prod_step_def Let_def split: if_splits)

lemma inv_prod_step:
  assumes "pc_inv args s" and "prod_step i r s = Some s'"
  shows "pc_inv args s'"
proof -
  let ?p = "prods s ! i"
  from assms(2) have ex: "\<not> exited s" and i: "i < length (prods s)"
    by (auto simp: prod_step_def split: if_splits)
  with assms(1) have m: "mutex_ok s" and c: "counts_ok s" and w: "wake_ok s" and k: "main_ok args s"
    by (auto simp: pc_inv_def exited_def)
  from c i have ok: "prod_ok ?p" and av: "0 \<le> avail s" by (auto simp: counts_ok_def)
  have moved: "pc_inv args s'" if "prods s' = (prods s)[i := y]" "prod_ok y" "p_cnt y = p_cnt ?p"
      "avail s' = avail s + (produced y - produced ?p)" "0 \<le> avail s'"
      "(p_pc y \<in> {PInc, PUnlock}) = (owner s' = Some (Suc i))"
      "owner s' = owner s \<or> owner s = None \<and> owner s' = Some (Suc i) \<or> owner s = Some (Suc i) \<and> owner s' = None"
      "p_pc y \<in> {PUnlock, PSignal} \<or> p_pc ?p \<notin> {PUnlock, PSignal} \<and> avail s' = avail s \<or> mainpc s' \<noteq> MWait"
      "numConsumed s' = numConsumed s" "totRequired s' = totRequired s" "shown s' = shown s" "doneFlag s' = doneFlag s"
      "mainpc s' = mainpc s \<or> mainpc s = MWait \<and> mainpc s' = MWoken" for y
  proof -
    from prods_move [OF c i that(2,3,1,4,5)] that have "counts_ok s'" by simp
    moreover have "map p_cnt (prods s') = map p_cnt (prods s)" using that(1,3) i by (simp add: map_cnt_update)
    from main_ok_cong [OF k this] that have "main_ok args s'" by simp
    moreover from wake_move [OF w i that(1)] that have "wake_ok s'" by auto
    moreover from mutex_move [OF m i that(1)] that have "mutex_ok s'" by auto
    ultimately show ?thesis by (simp add: pc_inv_def)
  qed
  have own: "(p_pc ?p \<in> {PInc, PUnlock}) = (owner s = Some (Suc i))" using m i by (simp add: mutex_ok_def)
  note simps = set_prod_def prod_ok_def produced_def
  show ?thesis
  proof (cases rule: prod_stepE [OF assms(2), case_names failed next_unit locks increments unlocks signals])
    case failed
    then show ?thesis by (simp add: pc_inv_def errExitEN_def)
  next
    case next_unit
    show ?thesis
      by (rule moved [where y = "?p\<lparr>p_pc := (if p_j ?p < p_cnt ?p then PLock else PEnd)\<rparr>"])
        (use next_unit i ok av own in \<open>auto simp: simps\<close>)
  next
    case locks
    show ?thesis by (rule moved [where y = "?p\<lparr>p_pc := PInc\<rparr>"]) (use locks i ok av own in \<open>auto simp: simps\<close>)
  next
    case increments
    show ?thesis by (rule moved [where y = "?p\<lparr>p_pc := PUnlock\<rparr>"]) (use increments i ok av own in \<open>auto simp: simps\<close>)
  next
    case unlocks
    show ?thesis by (rule moved [where y = "?p\<lparr>p_pc := PSignal\<rparr>"]) (use unlocks i ok av own in \<open>auto simp: simps\<close>)
  next
    case signals
    show ?thesis
      by (rule moved [where y = "?p\<lparr>p_j := p_j ?p + 1, p_pc := PNext\<rparr>"]) (use signals i ok av own in \<open>auto simp: simps\<close>)
  qed
qed

lemma inv_step:
  assumes "pc_inv args s" and "step args e s = Some s'" and "\<forall>a\<in>set args. 0 \<le> atoi a"
  shows "pc_inv args s'"
proof (cases e)
  case Spurious
  with assms(2) have w: "mainpc s = MWait" and s': "s' = s\<lparr>mainpc := MWoken\<rparr>" by (auto split: if_splits)
  with assms(1) have i: "mutex_ok s" "counts_ok s" "main_ok args s" by (simp_all add: pc_inv_def)
  from main_ok_cong [OF i(3), of s'] w have "main_ok args s'" by (simp add: s')
  moreover from i(1) w have "mutex_ok s'" by (simp add: mutex_ok_def s')
  moreover from i(2) have "counts_ok s'" by (simp add: counts_ok_def s')
  ultimately show ?thesis by (simp add: pc_inv_def wake_ok_def s')
next
  case (Main r)
  with inv_main_step [OF assms(1) _ assms(3)] assms(2) show ?thesis by simp
next
  case (Prod i r)
  with inv_prod_step [OF assms(1)] assms(2) show ?thesis by simp
qed

section \<open>Progress\<close>

text \<open>A state in which no thread can move, unless it is woken spuriously.\<close>

definition stuck :: "string list \<Rightarrow> pcs \<Rightarrow> bool" where
  "stuck args s \<longleftrightarrow> main_step args 0 s = None \<and> (\<forall>i. prod_step i 0 s = None)"

lemma stuck_producers:
  assumes "\<forall>i. prod_step i 0 s = None" "\<not> exited s" "owner s = None" "p \<in> set (prods s)"
  shows "p_pc p = PEnd"
proof -
  from assms(4) obtain i where "i < length (prods s)" "p = prods s ! i" by (auto simp: in_set_conv_nth)
  with assms(1) [THEN spec, of i] assms(2,3) show ?thesis
    by (cases "p_pc p") (auto simp: prod_step_def Let_def)
qed

lemma stuck_exited:
  assumes "pc_inv args s" "stuck args s" "0 < sum_list (map atoi args)"
  shows "exited s"
proof (rule ccontr)
  assume ex: "\<not> exited s"
  with assms(1) have m: "mutex_ok s" and c: "counts_ok s" and w: "wake_ok s" and k: "main_ok args s"
    by (auto simp: pc_inv_def exited_def)
  have o: "owner s = None"
  proof (cases "owner s")
    case (Some n)
    show ?thesis
    proof (cases n)
      case 0
      with Some m assms(2) show ?thesis by (auto simp: mutex_ok_def stuck_def main_step_def Let_def split: if_splits)
    next
      case (Suc i)
      with Some m have "i < length (prods s)" "p_pc (prods s ! i) \<in> {PInc, PUnlock}" by (auto simp: mutex_ok_def)
      moreover have "prod_step i 0 s = None" using assms(2) by (simp add: stuck_def)
      ultimately show ?thesis using ex by (auto simp: prod_step_def Let_def)
    qed
  qed
  from assms(2) ex o m have wait: "mainpc s = MWait"
    by (cases "mainpc s") (auto simp: stuck_def main_step_def exited_def mutex_ok_def Let_def split: if_splits)
  have ends: "p_pc p = PEnd" if "p \<in> set (prods s)" for p
    using stuck_producers [OF _ ex o that] assms(2) by (simp add: stuck_def)
  then have "\<forall>i<length (prods s). p_pc (prods s ! i) = PEnd" by simp
  with w wait have av: "avail s = 0" by (auto simp: wake_ok_def)
  have "produced p = p_cnt p" if "p \<in> set (prods s)" for p
    using c that ends [OF that] by (auto simp: counts_ok_def prod_ok_def produced_def)
  then have "map produced (prods s) = map p_cnt (prods s)" by simp
  with c av have n: "numConsumed s = totRequired s" by (simp add: counts_ok_def)
  moreover have "map p_cnt (prods s) = map atoi args" "numConsumed s = 0 \<or> numConsumed s < totRequired s"
    using k wait by (simp_all add: main_ok_def)
  moreover have "totRequired s = total p_cnt s" using c by (simp add: counts_ok_def)
  ultimately show False using assms(3) by simp
qed

text \<open>How much is left to do: four for every step of a producer, including those of threads not
  yet created, eight for every unit to be consumed, and the way of the main thread to its
  next sleep or unit.\<close>

definition prod_left :: "prod \<Rightarrow> int" where
  "prod_left p = 5 * (p_cnt p - p_j p) +
     (case p_pc p of PNext \<Rightarrow> 1 | PLock \<Rightarrow> 0 | PInc \<Rightarrow> -1 | PUnlock \<Rightarrow> -2 | PSignal \<Rightarrow> -3 | PEnd \<Rightarrow> 0)"

definition to_create :: "string list \<Rightarrow> pcs \<Rightarrow> int" where
  "to_create args s = (case mainpc s of MCreate j \<Rightarrow> sum_list (map (\<lambda>a. 5 * atoi a + 2) (drop j args)) | _ \<Rightarrow> 0)"

definition main_left :: "pcs \<Rightarrow> int" where
  "main_left s =
     (case mainpc s of
        MCreate j \<Rightarrow> 4 | MLock \<Rightarrow> 3 | MWoken \<Rightarrow> 3 | MTest \<Rightarrow> 2 | MWait \<Rightarrow> 0
      | MConsume \<Rightarrow> if 0 < avail s then 1 else 6
      | MUnlock \<Rightarrow> 5 | MDone \<Rightarrow> 4 | MExit n \<Rightarrow> 0)"

definition left :: "string list \<Rightarrow> pcs \<Rightarrow> int" where
  "left args s =
     (if exited s then 0
      else 1 + 4 * (total prod_left s + to_create args s) + 8 * (sum_list (map atoi args) - numConsumed s) + main_left s)"

lemma left_positive:
  assumes "pc_inv args s" "\<not> exited s" "\<forall>a\<in>set args. 0 \<le> atoi a"
  shows "0 < left args s"
proof -
  from assms(1,2) have c: "counts_ok s" and k: "main_ok args s" by (auto simp: pc_inv_def exited_def)
  have "0 \<le> prod_left p" if "p \<in> set (prods s)" for p
    using c that by (auto simp: counts_ok_def prod_ok_def prod_left_def split: ppc.splits)
  then have "0 \<le> total prod_left s" by (intro sum_list_nonneg) auto
  moreover have nn: "0 \<le> atoi a" if "a \<in> set (drop j args)" for a j
    using assms(3) in_set_dropD [OF that] by simp
  then have "0 \<le> to_create args s"
    by (force simp: to_create_def split: mpc.splits intro!: sum_list_nonneg)
  moreover have "numConsumed s \<le> sum_list (map atoi args)"
  proof -
    have "produced p \<le> p_cnt p" if "p \<in> set (prods s)" for p
      using c that by (auto simp: counts_ok_def prod_ok_def produced_def)
    then have "total produced s \<le> total p_cnt s" by (intro sum_list_mono) auto
    with c have "numConsumed s \<le> total p_cnt s" by (simp add: counts_ok_def)
    also have "\<dots> \<le> sum_list (map atoi args)"
    proof (cases "mainpc s")
      case (MCreate j)
      have "sum_list (map atoi args) = sum_list (map atoi (take j args)) + sum_list (map atoi (drop j args))"
        by (metis append_take_drop_id map_append sum_list_append)
      moreover have "0 \<le> sum_list (map atoi (drop j args))"
        using nn by (intro sum_list_nonneg) auto
      ultimately show ?thesis using k MCreate by (simp add: main_ok_def)
    qed (use k in \<open>simp_all add: main_ok_def\<close>)
    finally show ?thesis .
  qed
  moreover have "0 \<le> main_left s" by (simp add: main_left_def split: mpc.splits)
  ultimately show ?thesis using assms(2) by (simp add: left_def)
qed

lemma left_main_step:
  assumes "pc_inv args s" "main_step args r s = Some s'" "\<forall>a\<in>set args. 0 \<le> atoi a"
  shows "left args s' < left args s"
proof -
  have ex: "\<not> exited s" using assms(2) by (auto simp: exited_def main_step_def)
  note pos = left_positive [OF assms(1) this assms(3)]
  from assms(1) ex have c: "counts_ok s" by (auto simp: pc_inv_def exited_def)
  have err: ?thesis if "s' = errExitEN t" for t
    using that pos by (simp add: left_def errExitEN_def exited_def)
  show ?thesis
  proof (cases "mainpc s")
    case (MCreate j)
    show ?thesis
    proof (cases "j < length args \<and> r = 0")
      case True
      then have "drop j args = args ! j # drop (Suc j) args" by (simp add: Cons_nth_drop_Suc)
      with True MCreate assms(2) ex show ?thesis
        by (auto simp: left_def main_step_def Let_def exited_def to_create_def main_left_def prod_left_def)
    next
      case False
      with MCreate assms(2) ex err pos show ?thesis
        by (auto simp: left_def main_step_def Let_def exited_def to_create_def main_left_def errExitEN_def split: if_splits)
    qed
  next
    case MDone
    with assms(2) ex pos show ?thesis
      by (cases "doneFlag s") (auto simp: left_def main_step_def exited_def to_create_def main_left_def)
  qed (use assms(2) ex pos c in \<open>auto simp: left_def main_step_def Let_def exited_def to_create_def main_left_def
      errExitEN_def counts_ok_def split: if_splits\<close>)
qed

lemma left_prod_step:
  assumes "pc_inv args s" "prod_step i r s = Some s'" "\<forall>a\<in>set args. 0 \<le> atoi a"
  shows "left args s' < left args s"
proof -
  let ?p = "prods s ! i"
  from assms(2) have ex: "\<not> exited s" and i: "i < length (prods s)"
    by (auto simp: prod_step_def split: if_splits)
  note pos = left_positive [OF assms(1) ex assms(3)]
  from assms(1) ex i have m: "mutex_ok s" and ok: "prod_ok ?p" by (auto simp: pc_inv_def exited_def counts_ok_def)
  have moved: "left args s' < left args s"
    if "prods s' = (prods s)[i := y]" "prod_left y < prod_left ?p" "numConsumed s' = numConsumed s"
      "mainpc s' = mainpc s \<and> main_left s' = main_left s \<or> mainpc s = MWait \<and> mainpc s' = MWoken" for y
  proof -
    have "total prod_left s' + 1 \<le> total prod_left s" using that(1,2) i by (simp add: sum_list_update_int)
    moreover have "to_create args s' = to_create args s" using that(4) by (auto simp: to_create_def)
    moreover have "main_left s' \<le> main_left s + 3"
      using that(4)
    proof
      assume "mainpc s = MWait \<and> mainpc s' = MWoken"
      then show ?thesis by (simp add: main_left_def)
    qed simp
    moreover have "\<not> exited s'" using ex that(4) by (auto simp: exited_def)
    ultimately show ?thesis using ex that(3) by (simp add: left_def)
  qed
  note simps = set_prod_def prod_left_def main_left_def
  show ?thesis
  proof (cases rule: prod_stepE [OF assms(2), case_names failed next_unit locks increments unlocks signals])
    case failed
    with pos show ?thesis by (simp add: left_def errExitEN_def exited_def)
  next
    case next_unit
    show ?thesis
      by (rule moved [where y = "?p\<lparr>p_pc := (if p_j ?p < p_cnt ?p then PLock else PEnd)\<rparr>"])
        (use next_unit ok in \<open>auto simp: simps prod_ok_def\<close>)
  next
    case locks
    show ?thesis by (rule moved [where y = "?p\<lparr>p_pc := PInc\<rparr>"]) (use locks in \<open>auto simp: simps\<close>)
  next
    case increments
    from increments(1) m i have "mainpc s \<noteq> MConsume" by (auto simp: mutex_ok_def)
    then have "main_left s' = main_left s" by (simp add: increments(2) main_left_def set_prod_def split: mpc.splits)
    then show ?thesis
      by (intro moved [where y = "?p\<lparr>p_pc := PUnlock\<rparr>"]) (use increments in \<open>auto simp: set_prod_def prod_left_def\<close>)
  next
    case unlocks
    show ?thesis by (rule moved [where y = "?p\<lparr>p_pc := PSignal\<rparr>"]) (use unlocks in \<open>auto simp: simps\<close>)
  next
    case signals
    show ?thesis by (rule moved [where y = "?p\<lparr>p_j := p_j ?p + 1, p_pc := PNext\<rparr>"]) (use signals in \<open>auto simp: simps\<close>)
  qed
qed

lemma left_step:
  assumes "pc_inv args s" "step args e s = Some s'" "\<forall>a\<in>set args. 0 \<le> atoi a"
  shows "left args s' + 1 \<le> left args s + (if e = Spurious then 4 else 0)"
proof (cases e)
  case (Main r)
  with assms(2) have "main_step args r s = Some s'" by simp
  from left_main_step [OF assms(1) this assms(3)] Main show ?thesis by simp
next
  case (Prod i r)
  with assms(2) have "prod_step i r s = Some s'" by simp
  from left_prod_step [OF assms(1) this assms(3)] Prod show ?thesis by simp
next
  case Spurious
  with assms(2) show ?thesis
    by (auto simp: left_def exited_def to_create_def main_left_def split: if_splits)
qed

definition step_cost :: "event \<Rightarrow> int" where
  "step_cost e = (if e = Spurious then 4 else 0)"

interpretation pcsteps: bounded_steps "step args" "\<lambda>s. pc_inv args s \<and> (\<forall>a\<in>set args. 0 \<le> atoi a)" "left args" step_cost for args
proof unfold_locales
  show "left args s' + 1 \<le> left args s + step_cost e" if "pc_inv args s \<and> (\<forall>a\<in>set args. 0 \<le> atoi a)" "step args e s = Some s'" for s e s'
    using left_step that unfolding step_cost_def by blast
qed (use inv_step in blast)

lemma run_runs: "run args es s = runs (step args) es s"
  by (induction es arbitrary: s) (simp_all split: option.split)

lemma inv_run:
  "run args es s = Some s' \<Longrightarrow> pc_inv args s \<Longrightarrow> \<forall>a\<in>set args. 0 \<le> atoi a \<Longrightarrow> pc_inv args s'"
  using pcsteps.runs_invar [of args es s s'] by (simp add: run_runs)

lemma run_length:
  assumes "run args es s = Some s'" "pc_inv args s" "\<forall>a\<in>set args. 0 \<le> atoi a"
  shows "left args s' + int (length es) \<le> left args s + 4 * int (length (filter ((=) Spurious) es))"
  using pcsteps.runs_length [of args es s s'] assms sum_list_spurious [of Spurious 4 es]
  by (simp add: run_runs step_cost_def [abs_def])

text \<open>The process fails only after a \<open>pthread\<close> call that failed.\<close>

fun failing :: "event \<Rightarrow> bool" where
  "failing (Main r) = (r \<noteq> 0)" | "failing (Prod i r) = (r \<noteq> 0)" | "failing Spurious = False"

lemma exit_1:
  assumes "run args es s = Some s'" "mainpc s' = MExit 1" "mainpc s \<noteq> MExit 1"
  shows "\<exists>e\<in>set es. failing e"
proof (rule runs_enters [OF assms(1) [unfolded run_runs], of "\<lambda>s. mainpc s = MExit 1"])
  show "failing e" if "step args e t = Some t'" "mainpc t' = MExit 1" "mainpc t \<noteq> MExit 1" for e t t'
    using that
    by (cases e) (auto simp: main_step_def prod_step_def set_prod_def Let_def split: if_splits mpc.splits ppc.splits)
qed (use assms in auto)

lemma exit_value:
  assumes "run args es s = Some s'" "exited s'" "exited s \<Longrightarrow> mainpc s \<in> {MExit 0, MExit 1}"
  shows "mainpc s' \<in> {MExit 0, MExit 1}"
  using assms
proof (induction es arbitrary: s)
  case (Cons e es)
  then obtain s1 where s1: "step args e s = Some s1" "run args es s1 = Some s'" by (auto split: option.splits)
  have "mainpc s1 \<in> {MExit 0, MExit 1}" if "exited s1"
    using s1(1) that
    by (cases e) (auto simp: exited_def main_step_def prod_step_def set_prod_def errExitEN_def Let_def split: if_splits mpc.splits ppc.splits)
  with Cons.IH [OF s1(2) Cons.prems(2)] show ?case by blast
qed simp

section \<open>Properties\<close>

lemma left_start: "left args start = 28 * sum_list (map atoi args) + 8 * int (length args) + 5"
proof -
  have "sum_list (map (\<lambda>a. 5 * atoi a + 2) args) = 5 * sum_list (map atoi args) + 2 * int (length args)"
    by (induction args) simp_all
  then show ?thesis by (simp add: left_def start_def exited_def to_create_def main_left_def)
qed

lemma final_count:
  assumes "pc_inv args s" "mainpc s = MExit 0"
  shows "numConsumed s = sum_list (map atoi args) \<and> shown s = [1..sum_list (map atoi args)]"
proof -
  from assms have c: "counts_ok s" and k: "main_ok args s" by (simp_all add: pc_inv_def)
  have "produced p \<le> p_cnt p" if "p \<in> set (prods s)" for p
    using c that by (auto simp: counts_ok_def prod_ok_def produced_def)
  then have "total produced s \<le> total p_cnt s" by (intro sum_list_mono) auto
  moreover have "map p_cnt (prods s) = map atoi args" "doneFlag s" using k assms(2) by (simp_all add: main_ok_def)
  moreover have "totRequired s \<le> numConsumed s"
    using k c \<open>doneFlag s\<close> by (cases "numConsumed s = 0") (auto simp: main_ok_def counts_ok_def)
  ultimately have "numConsumed s = sum_list (map atoi args)" using c by (simp add: counts_ok_def)
  with c show ?thesis by (simp add: counts_ok_def)
qed

text \<open>
  C29. Whatever the order in which the threads run, and however often the consumer is woken
  without a reason, the process takes a bounded number of steps, and it cannot get stuck:
  unless it has ended, some thread can go on without a spurious wake-up.  It ends with
  success only after every unit that the producers make has been consumed, one at a time,
  and with failure only after a \<open>pthread\<close> call failed.
\<close>

theorem prod_condvar_correct:
  assumes "\<forall>a\<in>set args. 0 \<le> atoi a" and "0 < sum_list (map atoi args)" "sum_list (map atoi args) \<le> INT_MAX"
    and "run args es start = Some s"
  shows "int (length es) \<le> 28 * sum_list (map atoi args) + 8 * int (length args) + 5 + 4 * int (length (filter ((=) Spurious) es)) \<and>
    (main_step args 0 s \<noteq> None \<or> (\<exists>i. prod_step i 0 s \<noteq> None) \<or>
     mainpc s = MExit 0 \<and> numConsumed s = sum_list (map atoi args) \<and> shown s = [1..sum_list (map atoi args)] \<or>
     mainpc s = MExit 1 \<and> (\<exists>e\<in>set es. failing e))"
proof -
  note inv = inv_run [OF assms(4) inv_start assms(1)]
  have "0 \<le> left args s"
    using left_positive [OF inv _ assms(1)] by (cases "exited s") (auto simp: left_def)
  with run_length [OF assms(4) inv_start assms(1)]
  have "int (length es) \<le> 28 * sum_list (map atoi args) + 8 * int (length args) + 5 + 4 * int (length (filter ((=) Spurious) es))"
    by (simp add: left_start)
  moreover have "exited s \<or> main_step args 0 s \<noteq> None \<or> (\<exists>i. prod_step i 0 s \<noteq> None)"
  proof (cases "stuck args s")
    case True
    with stuck_exited [OF inv _ assms(2)] show ?thesis by simp
  next
    case False
    then show ?thesis by (simp add: stuck_def)
  qed
  moreover have "mainpc s \<in> {MExit 0, MExit 1}" if "exited s" using exit_value [OF assms(4) that] by (simp add: exited_def start_def)
  ultimately show ?thesis
    using final_count [OF inv] exit_1 [OF assms(4)] by (auto simp: start_def)
qed

definition example_schedule :: "event list" where
  "example_schedule = replicate 4 (Main 0) @ [Spurious] @ replicate 2 (Main 0) @ replicate 5 (Prod 0 0) @ replicate 6 (Main 0)"

text \<open>The consumer sleeps, is woken for nothing and sleeps again before the one unit arrives.\<close>

theorem prod_condvar_correct_witness:
  "\<exists>s. run [''1''] example_schedule start = Some s \<and> mainpc s = MExit 0 \<and> shown s = [1]"
proof -
  have a: "atoi ''1'' = 1" by code_simp
  have "\<exists>s. run [''1''] example_schedule start = Some s \<and> mainpc s = MExit 0"
    by (simp add: example_schedule_def numeral_eq_Suc main_step_def prod_step_def set_prod_def exited_def start_def a Let_def)
  then obtain s where s: "run [''1''] example_schedule start = Some s" "mainpc s = MExit 0" by blast
  from prod_condvar_correct [OF _ _ _ s(1)] a s(2) have "shown s = [1]"
    by (auto simp: INT_MAX_def main_step_def prod_step_def exited_def)
  with s show ?thesis by blast
qed

end
