(* ===== verification/Fifo_Seqnum.thy ===== *)
theory Fifo_Seqnum
  imports Get_Num Rdwrn "HOL-Library.Sublist"
begin

text \<open>
  The sequence number service over FIFOs: \<open>src/tlpi-book/pipes/fifo_seqnum_server.c\<close>,
  \<open>fifo_seqnum_client.c\<close> and \<open>fifo_seqnum.h\<close>.  Requests and responses are structures sent as
  their bytes; the calls on FIFOs are the record \<open>fifok\<close>, and the locale \<open>request_fifo\<close> is
  what the server relies on.  The server runs for ever; the model gives its state after any
  number of rounds.
\<close>

section \<open>Messages\<close>

definition SERVER_FIFO :: string where "SERVER_FIFO = ''/tmp/seqnum_sv''"
definition CLIENT_FIFO_TEMPLATE :: "int \<Rightarrow> string" where
  "CLIENT_FIFO_TEMPLATE pid = ''/tmp/seqnum_cl.'' @ show_int pid"
definition CLIENT_FIFO_NAME_LEN :: nat where "CLIENT_FIFO_NAME_LEN = 19 + 20"

record request =
  pid :: "32 word"
  seqLen :: "32 word"

text \<open>The bytes of a 32-bit number in memory, the lowest first.\<close>

definition enc32 :: "32 word \<Rightarrow> string" where
  "enc32 w = map (\<lambda>k. char_of (unat w div 256 ^ k)) [0, 1, 2, 3]"

definition dec32 :: "string \<Rightarrow> 32 word" where
  "dec32 s = word_of_nat (foldr (\<lambda>c n. of_char c + 256 * n) s 0)"

definition request_bytes :: "request \<Rightarrow> string" where
  "request_bytes r = enc32 (pid r) @ enc32 (seqLen r)"

definition bytes_request :: "string \<Rightarrow> request" where
  "bytes_request s = \<lparr>pid = dec32 (take 4 s), seqLen = dec32 (drop 4 s)\<rparr>"

lemma length_enc32 [simp]: "length (enc32 w) = 4"
  by (simp add: enc32_def)

lemma dec_enc32 [simp]: "dec32 (enc32 w) = w"
proof -
  define n where "n = unat w"
  have "n < 2 ^ 32" using unsigned_less [of w, where ?'a = nat] by (simp add: n_def)
  then have m: "n div 16777216 mod 256 = n div 16777216" by (simp add: less_mult_imp_div_less)
  have "n mod 256 + 256 * (n div 256 mod 256 + 256 * (n div 65536 mod 256 + 256 * (n div 16777216))) = n"
    using div_mult2_eq [of n 256 256] div_mult2_eq [of n 65536 256] by simp
  with m have "n mod 256 + 256 * (n div 256 mod 256 + 256 * (n div 65536 mod 256 + 256 * (n div 16777216 mod 256))) = n"
    by (simp only:)
  then have "foldr (\<lambda>c m. of_char c + 256 * m) (enc32 w) 0 = n"
    by (simp add: enc32_def n_def [symmetric] of_char_of m)
  then show ?thesis by (simp add: dec32_def n_def)
qed

lemma bytes_request_bytes [simp]: "bytes_request (request_bytes r) = r"
  by (simp add: bytes_request_def request_bytes_def)

lemma length_request_bytes [simp]: "length (request_bytes r) = 8"
  by (simp add: request_bytes_def)

section \<open>The server\<close>

text \<open>Calls on FIFOs: error numbers of \<open>mkfifo\<close>, descriptors or -1.\<close>

record 's fifok =
  f_mkfifo :: "string \<Rightarrow> 's \<Rightarrow> int option \<times> 's"
  f_open_rd :: "string \<Rightarrow> 's \<Rightarrow> int \<times> 's"
  f_open_wr :: "string \<Rightarrow> 's \<Rightarrow> int \<times> 's"
  f_read :: "int \<Rightarrow> 's reader"
  f_write :: "int \<Rightarrow> 's writer"
  f_close :: "int \<Rightarrow> 's \<Rightarrow> bool \<times> 's"
  f_unlink :: "string \<Rightarrow> 's \<Rightarrow> 's"
  f_ignore_sigpipe :: "'s \<Rightarrow> bool \<times> 's"

definition EEXIST :: int where "EEXIST = 17"

datatype fifo_error = BadRequest | OpenFailed string | WriteError string | CloseFailed

record 's fifosv =
  sv_kern :: 's
  seqNum :: int
  sv_err :: "fifo_error list"

definition complain :: "fifo_error \<Rightarrow> 's fifosv \<Rightarrow> 's fifosv" where
  "complain e s = s\<lparr>sv_err := sv_err s @ [e]\<rparr>"

lemma seqNum_complain [simp]: "seqNum (complain e s) = seqNum s"
  by (simp add: complain_def)

text \<open>One round of the loop.  The sum of two \<open>int\<close> values is undefined outside their range.\<close>

definition fifo_round :: "'s fifok \<Rightarrow> int \<Rightarrow> 's fifosv \<Rightarrow> (unit, 's fifosv) outcome" where
  "fifo_round K serverFd s =
     (case f_read K serverFd (sv_kern s) 8 of
        (ReadErr e, k) \<Rightarrow> Ret () (complain BadRequest (s\<lparr>sv_kern := k\<rparr>))
      | (Data bs, k) \<Rightarrow>
          if length bs \<noteq> 8 then Ret () (complain BadRequest (s\<lparr>sv_kern := k\<rparr>))
          else
            (let req = bytes_request bs;
                 clientFifo = snprintf CLIENT_FIFO_NAME_LEN (CLIENT_FIFO_TEMPLATE (sint (pid req)));
                 (clientFd, k) = f_open_wr K clientFifo k
             in if clientFd = -1 then Ret () (complain (OpenFailed clientFifo) (s\<lparr>sv_kern := k\<rparr>))
                else
                  (let (w, k) = f_write K clientFd k (enc32 (word_of_int (seqNum s)));
                       s = (if w = Wrote 4 then s else complain (WriteError clientFifo) s);
                       (ok, k) = f_close K clientFd k;
                       s = (if ok then s else complain CloseFailed s);
                       n = seqNum s + sint (seqLen req)
                   in if n < INT_MIN \<or> n > INT_MAX then Undefd else Ret () (s\<lparr>sv_kern := k, seqNum := n\<rparr>))))"

fun fifo_rounds :: "'s fifok \<Rightarrow> int \<Rightarrow> nat \<Rightarrow> 's fifosv \<Rightarrow> (unit, 's fifosv) outcome" where
  "fifo_rounds K fd 0 s = Ret () s"
| "fifo_rounds K fd (Suc n) s = andThen (fifo_round K fd s) (\<lambda>_ s. fifo_rounds K fd n s)"

text \<open>\<open>main\<close> as far as the \<open>n\<close>-th round.\<close>

definition fifo_server_main :: "'s fifok \<Rightarrow> nat \<Rightarrow> 's \<Rightarrow> (unit, 's fifosv) outcome" where
  "fifo_server_main K n k =
     (let st = (\<lambda>k. \<lparr>sv_kern = k, seqNum = 0, sv_err = []\<rparr>);
          (e, k) = f_mkfifo K SERVER_FIFO k
      in if e \<noteq> None \<and> e \<noteq> Some EEXIST then Exited 1 (st k)
         else
           (case f_open_rd K SERVER_FIFO k of (serverFd, k) \<Rightarrow>
            if serverFd = -1 then Exited 1 (st k)
            else
              (case f_open_wr K SERVER_FIFO k of (dummyFd, k) \<Rightarrow>
               if dummyFd = -1 then Exited 1 (st k)
               else
                 (case f_ignore_sigpipe K k of (ok, k) \<Rightarrow>
                  if \<not> ok then Exited 1 (st k) else fifo_rounds K serverFd n (st k)))))"

section \<open>The client\<close>

text \<open>The result is the line printed, or \<open>None\<close> when the program ends with status 1.  From the
  registration of \<open>removeFifo\<close> on every end of the program removes the FIFO; \<open>reg\<close> is
  whether \<open>atexit\<close> succeeds.\<close>

definition fifo_exchange :: "'s fifok \<Rightarrow> int \<Rightarrow> string \<Rightarrow> string list \<Rightarrow> 's \<Rightarrow> string option \<times> 's" where
  "fifo_exchange K mypid clientFifo argv k =
     (case (if length argv > 1 then getInt (Some (argv ! 1)) GN_GT_0 (Some ''seq-len'') else Inr 1) of
        Inl _ \<Rightarrow> (None, k)
      | Inr n \<Rightarrow>
          (case f_open_wr K SERVER_FIFO k of (serverFd, k) \<Rightarrow>
           if serverFd = -1 then (None, k)
           else
             (case f_write K serverFd k (request_bytes \<lparr>pid = word_of_int mypid, seqLen = word_of_int n\<rparr>) of
                (w, k) \<Rightarrow>
                  if w \<noteq> Wrote 8 then (None, k)
                  else
                    (case f_open_rd K clientFifo k of (clientFd, k) \<Rightarrow>
                     if clientFd = -1 then (None, k)
                     else
                       (case f_read K clientFd k 4 of
                          (Data bs, k) \<Rightarrow>
                            if length bs \<noteq> 4 then (None, k) else (Some (show_int (sint (dec32 bs)) @ [nl]), k)
                        | (ReadErr e, k) \<Rightarrow> (None, k))))))"

definition fifo_client_main :: "'s fifok \<Rightarrow> bool \<Rightarrow> int \<Rightarrow> string list \<Rightarrow> 's \<Rightarrow> string option \<times> 's" where
  "fifo_client_main K reg mypid argv k =
     (if length argv > 1 \<and> argv ! 1 = ''--help'' then (None, k)
      else
        (let clientFifo = snprintf CLIENT_FIFO_NAME_LEN (CLIENT_FIFO_TEMPLATE mypid);
             (e, k) = f_mkfifo K clientFifo k
         in if e \<noteq> None \<and> e \<noteq> Some EEXIST then (None, k)
            else if \<not> reg then (None, k)
            else map_prod id (f_unlink K clientFifo) (fifo_exchange K mypid clientFifo argv k)))"

text \<open>A client asks for a positive number of values, and prints the number that it is sent.\<close>

lemma sint_word_of_int32: "INT_MIN \<le> n \<Longrightarrow> n \<le> INT_MAX \<Longrightarrow> sint (word_of_int n :: 32 word) = n"
  using cast_int_id [of n] by (simp add: cast_int_def signed_of_int)

lemma client_asks_positive:
  assumes "(if length argv > 1 then getInt (Some (argv ! 1)) GN_GT_0 (Some ''seq-len'') else Inr 1) = Inr n"
  shows "0 < sint (seqLen \<lparr>pid = p, seqLen = word_of_int n\<rparr>)"
proof -
  have "0 < n \<and> INT_MIN \<le> n \<and> n \<le> INT_MAX"
    using assms
    by (auto simp: getInt_Inr_iff getNum_Inr_iff GN_defs INT_MIN_def INT_MAX_def split: if_splits)
  then show ?thesis by (simp add: sint_word_of_int32)
qed

lemma client_prints:
  assumes "fifo_exchange K p f argv k = (Some t, k')"
  shows "\<exists>fd k0 bs. t = show_int (sint (dec32 bs)) @ [nl] \<and> f_read K fd k0 4 = (Data bs, k') \<and> length bs = 4"
  using assms by (auto simp: fifo_exchange_def split: sum.splits prod.splits io_read.splits if_splits)

section \<open>What the server relies on\<close>

text \<open>\<open>queued\<close> are the requests waiting in the server's FIFO, which is read whole messages at a
  time since they are shorter than \<open>PIPE_BUF\<close>; \<open>target\<close> is the FIFO behind a descriptor,
  \<open>sent\<close> what has been written to FIFOs by the server.\<close>

locale request_fifo =
  fixes K :: "'s fifok" and fd :: int and queued :: "'s \<Rightarrow> request list" and target :: "'s \<Rightarrow> int \<Rightarrow> string option"
    and sent :: "'s \<Rightarrow> (string \<times> string) list"
  assumes reads: "f_read K fd k 8 = (r, k') \<Longrightarrow> queued k = q # qs \<Longrightarrow>
      r = Data (request_bytes q) \<and> queued k' = qs \<and> sent k' = sent k"
    and opens: "f_open_wr K f k = (c, k') \<Longrightarrow>
      queued k' = queued k \<and> sent k' = sent k \<and> (c \<noteq> -1 \<longrightarrow> target k' c = Some f)"
    and writes: "f_write K c k d = (w, k') \<Longrightarrow> target k c = Some f \<Longrightarrow> length d \<le> 512 \<Longrightarrow>
      queued k' = queued k \<and> (w = Wrote (length d) \<and> sent k' = sent k @ [(f, d)] \<or> w \<noteq> Wrote (length d) \<and> sent k' = sent k)"
    and closes: "queued (snd (f_close K c k)) = queued k \<and> sent (snd (f_close K c k)) = sent k"

text \<open>The service: every request for which the client's FIFO can be opened takes the next
  \<open>seqLen\<close> numbers.  The fate of a request is whether the FIFO was opened and whether the
  response was written.\<close>

fun service :: "int \<Rightarrow> request list \<Rightarrow> (bool \<times> bool) list \<Rightarrow> (request \<times> int) list" where
  "service n (q # qs) ((opened, written) # fs) =
     (if opened then (if written then [(q, n)] else []) @ service (n + sint (seqLen q)) qs fs else service n qs fs)"
| "service n _ _ = []"

definition client_fifo :: "request \<Rightarrow> string" where
  "client_fifo q = snprintf CLIENT_FIFO_NAME_LEN (CLIENT_FIFO_TEMPLATE (sint (pid q)))"

context request_fifo
begin

lemma round_serves:
  assumes "queued (sv_kern s) = q # qs" "INT_MIN \<le> seqNum s + sint (seqLen q)" "seqNum s + sint (seqLen q) \<le> INT_MAX"
  shows "\<exists>s' opened written. fifo_round K fd s = Ret () s' \<and> queued (sv_kern s') = qs \<and>
    seqNum s' = (if opened then seqNum s + sint (seqLen q) else seqNum s) \<and>
    sent (sv_kern s') = sent (sv_kern s) @
      (if opened \<and> written then [(client_fifo q, enc32 (word_of_int (seqNum s)))] else [])"
proof -
  obtain r k1 where r: "f_read K fd (sv_kern s) 8 = (r, k1)" by fastforce
  note l1 = reads [OF r assms(1)]
  obtain c k2 where o: "f_open_wr K (client_fifo q) k1 = (c, k2)" by fastforce
  note l2 = opens [OF o]
  obtain w k3 where w: "f_write K c k2 (enc32 (word_of_int (seqNum s))) = (w, k3)" by fastforce
  obtain ok k4 where x: "f_close K c k3 = (ok, k4)" by fastforce
  show ?thesis
  proof (cases "c = -1")
    case True
    with r l1 o l2 show ?thesis
      by (intro exI [of _ "complain (OpenFailed (client_fifo q)) (s\<lparr>sv_kern := k2\<rparr>)"] exI [of _ False])
        (simp add: fifo_round_def client_fifo_def complain_def)
  next
    case False
    with writes [OF w, of "client_fifo q"] l2 have l3: "queued k3 = queued k2"
      "w = Wrote 4 \<and> sent k3 = sent k2 @ [(client_fifo q, enc32 (word_of_int (seqNum s)))] \<or> w \<noteq> Wrote 4 \<and> sent k3 = sent k2" by auto
    have l4: "queued k4 = queued k3" "sent k4 = sent k3" using closes [of c k3] x by simp_all
    define t where "t = (if w = Wrote 4 then s else complain (WriteError (client_fifo q)) s)"
    define u where "u = (if ok then t else complain CloseFailed t)"
    have u: "seqNum u = seqNum s" by (simp add: u_def t_def)
    have "fifo_round K fd s = Ret () (u\<lparr>sv_kern := k4, seqNum := seqNum s + sint (seqLen q)\<rparr>)"
      using r l1 o w x False assms(2,3) u
      by (simp add: fifo_round_def client_fifo_def [symmetric] t_def u_def)
    with l1 l2 l3 l4 show ?thesis
      by (intro exI [of _ "u\<lparr>sv_kern := k4, seqNum := seqNum s + sint (seqLen q)\<rparr>"] exI [of _ True] exI [of _ "w = Wrote 4"]) auto
  qed
qed

text \<open>No sum of the lengths asked for leaves the range of \<open>int\<close>.\<close>

lemma rounds_serve:
  assumes "queued (sv_kern s) = qs" "\<forall>q\<in>set qs. 0 < sint (seqLen q)" "0 \<le> seqNum s"
    "seqNum s + sum_list (map (\<lambda>q. sint (seqLen q)) qs) \<le> INT_MAX"
  shows "\<exists>s' fs. fifo_rounds K fd (length qs) s = Ret () s' \<and> length fs = length qs \<and>
    sent (sv_kern s') = sent (sv_kern s) @ map (\<lambda>(q, n). (client_fifo q, enc32 (word_of_int n))) (service (seqNum s) qs fs)"
  using assms
proof (induction qs arbitrary: s)
  case (Cons q qs)
  have nn: "0 \<le> sum_list (map (\<lambda>q. sint (seqLen q)) qs)" using Cons.prems(2) by (intro sum_list_nonneg) auto
  then have "INT_MIN \<le> seqNum s + sint (seqLen q)" "seqNum s + sint (seqLen q) \<le> INT_MAX"
    using Cons.prems(2-4) by (auto simp: INT_MIN_def)
  from round_serves [OF Cons.prems(1) this] obtain s1 opened written where
    s1: "fifo_round K fd s = Ret () s1" "queued (sv_kern s1) = qs" and
    n1: "seqNum s1 = (if opened then seqNum s + sint (seqLen q) else seqNum s)" and
    sent1: "sent (sv_kern s1) = sent (sv_kern s) @
      (if opened \<and> written then [(client_fifo q, enc32 (word_of_int (seqNum s)))] else [])" by blast
  have "0 \<le> seqNum s1" "seqNum s1 + sum_list (map (\<lambda>q. sint (seqLen q)) qs) \<le> INT_MAX"
    using Cons.prems(2-4) by (auto simp: n1)
  with Cons.IH [OF s1(2)] Cons.prems(2) obtain s' fs where
    "fifo_rounds K fd (length qs) s1 = Ret () s'" "length fs = length qs"
    "sent (sv_kern s') = sent (sv_kern s1) @ map (\<lambda>(q, n). (client_fifo q, enc32 (word_of_int n))) (service (seqNum s1) qs fs)"
    by auto
  with s1(1) sent1 n1 show ?case by (intro exI [of _ s'] exI [of _ "(opened, written) # fs"]) auto
qed simp

end

text \<open>The numbers that the service hands out increase, and no number is handed out twice.\<close>

lemma service_start: "\<forall>q\<in>set qs. 0 < sint (seqLen q) \<Longrightarrow> (q, m) \<in> set (service n qs fs) \<Longrightarrow> n \<le> m \<and> q \<in> set qs"
proof (induction n qs fs rule: service.induct)
  case (1 n q' qs opened written fs)
  then show ?case by (auto split: if_splits)
qed simp_all

lemma service_disjoint:
  "\<forall>q\<in>set qs. 0 < sint (seqLen q) \<Longrightarrow>
   sorted_wrt (\<lambda>(q, m) (q', m'). m + sint (seqLen q) \<le> m') (service n qs fs)"
proof (induction n qs fs rule: service.induct)
  case (1 n q qs opened written fs)
  then have "\<And>q' m. (q', m) \<in> set (service (n + sint (seqLen q)) qs fs) \<Longrightarrow> n + sint (seqLen q) \<le> m"
    using service_start [of qs] by (metis list.set_intros(2))
  with 1 show ?case by (auto simp: Ball_def)
qed simp_all

section \<open>A reference kernel\<close>

text \<open>Clients listed in \<open>rf_alive\<close> have opened their FIFO for reading.\<close>

record reffifo =
  rf_queue :: "request list"
  rf_alive :: "string list"
  rf_sent :: "(string \<times> string) list"

definition ref_fifok :: "reffifo fifok" where
  "ref_fifok =
     \<lparr>f_mkfifo = (\<lambda>f k. (None, k)), f_open_rd = (\<lambda>f k. (3, k)),
      f_open_wr = (\<lambda>f k. if f \<in> set (rf_alive k) then (int (length (takeWhile ((\<noteq>) f) (rf_alive k))), k) else (-1, k)),
      f_read = (\<lambda>fd k n. case rf_queue k of [] \<Rightarrow> (Data [], k) | q # qs \<Rightarrow> (Data (request_bytes q), k\<lparr>rf_queue := qs\<rparr>)),
      f_write = (\<lambda>fd k d. if 0 \<le> fd \<and> nat fd < length (rf_alive k)
         then (Wrote (length d), k\<lparr>rf_sent := rf_sent k @ [(rf_alive k ! nat fd, d)]\<rparr>) else (WriteErr 32, k)),
      f_close = (\<lambda>fd k. (True, k)), f_unlink = (\<lambda>f k. k), f_ignore_sigpipe = (\<lambda>k. (True, k))\<rparr>"

lemma nth_takeWhile_neq: "f \<in> set xs \<Longrightarrow> length (takeWhile ((\<noteq>) f) xs) < length xs \<and> xs ! length (takeWhile ((\<noteq>) f) xs) = f"
  by (induction xs) auto

interpretation rfifo: request_fifo ref_fifok fd rf_queue
    "\<lambda>k c. if 0 \<le> c \<and> nat c < length (rf_alive k) then Some (rf_alive k ! nat c) else None" rf_sent for fd
  by unfold_locales (auto simp: ref_fifok_def nth_takeWhile_neq split: if_splits)

section \<open>Properties\<close>


text \<open>Two clients, between them one that has gone away.\<close>

definition example_request :: "int \<Rightarrow> int \<Rightarrow> request" where
  "example_request p n = \<lparr>pid = word_of_int p, seqLen = word_of_int n\<rparr>"

definition example_fifos :: "reffifo fifosv" where
  "example_fifos = \<lparr>sv_kern = \<lparr>rf_queue = [example_request 7 3, example_request 8 5, example_request 9 2],
     rf_alive = [''/tmp/seqnum_cl.9'', ''/tmp/seqnum_cl.7''], rf_sent = []\<rparr>, seqNum = 0, sv_err = []\<rparr>"


end
