(* ===== verification/Check_Password.thy ===== *)
theory Check_Password
  imports Prelude
begin

text \<open>
  \<open>src/tlpi-book/users_groups/check_password.c\<close> and \<open>cap/check_password_caps.c\<close>: authentication
  against the (shadow) password file, the second version with one capability raised for as
  long as it is needed.  Input, the password files, \<open>crypt\<close> and \<open>libcap\<close> are the records
  \<open>authk\<close> and \<open>capk\<close>; the locale \<open>proc_caps\<close> is what \<open>libcap\<close> does to the capability sets of
  the process.
\<close>

section \<open>Authentication\<close>

record passwd =
  pw_passwd :: string
  pw_uid :: int

definition EACCES :: int where "EACCES = 13"
definition CAP_DAC_READ_SEARCH :: int where "CAP_DAC_READ_SEARCH = 2"

text \<open>\<open>a_fgets\<close> gives the bytes stored, \<open>a_getspnam\<close> the shadow password, if there is a record,
  and \<open>errno\<close>; \<open>a_getpass\<close> gives \<open>None\<close> for the null pointer.\<close>

record 's authk =
  a_lnmax :: int
  a_malloc :: bool
  a_fgets :: "int \<Rightarrow> 's \<Rightarrow> string option \<times> 's"
  a_getpwnam :: "string \<Rightarrow> 's \<Rightarrow> passwd option \<times> 's"
  a_getspnam :: "string \<Rightarrow> 's \<Rightarrow> (string option \<times> int) \<times> 's"
  a_getpass :: "'s \<Rightarrow> string option \<times> 's"
  a_crypt :: "string \<Rightarrow> string \<Rightarrow> string option"

text \<open>\<open>pwbuf\<close> is the buffer of \<open>getpass\<close>, once it has been filled.\<close>

record 's auth =
  ak :: 's
  aout :: string
  pwbuf :: "string option"

definition say :: "string \<Rightarrow> 's auth \<Rightarrow> 's auth" where
  "say t s = s\<lparr>aout := aout s @ t\<rparr>"

text \<open>A user name without its newline.  An empty string makes the test of its last byte read
  outside the array.\<close>

definition read_username :: "'s authk \<Rightarrow> 's auth \<Rightarrow> (string, 's auth) outcome" where
  "read_username A s =
     (let lnmax = (if a_lnmax A = -1 then 256 else a_lnmax A) in
      if \<not> a_malloc A then Exited 1 s
      else
        (case a_fgets A lnmax (ak s) of
           (None, k) \<Rightarrow> Exited 1 ((say ''Username: '' s)\<lparr>ak := k\<rparr>)
         | (Some raw, k) \<Rightarrow>
             (let username = before raw (CHR 0x00); s = (say ''Username: '' s)\<lparr>ak := k\<rparr> in
              if username = [] then Undefd
              else Ret (if last username = nl then butlast username else username) s)))"

definition get_record :: "'s authk \<Rightarrow> string \<Rightarrow> 's auth \<Rightarrow> (passwd, 's auth) outcome" where
  "get_record A username s =
     (case a_getpwnam A username (ak s) of
        (None, k) \<Rightarrow> Exited 1 (s\<lparr>ak := k\<rparr>)
      | (Some pwd, k) \<Rightarrow> Ret pwd (s\<lparr>ak := k\<rparr>))"

definition get_shadow :: "'s authk \<Rightarrow> string \<Rightarrow> 's auth \<Rightarrow> (string option, 's auth) outcome" where
  "get_shadow A username s =
     (case a_getspnam A username (ak s) of
        ((spwd, errno), k) \<Rightarrow>
          if spwd = None \<and> errno = EACCES then Exited 1 (s\<lparr>ak := k\<rparr>) else Ret spwd (s\<lparr>ak := k\<rparr>))"

definition use_shadow :: "string option \<Rightarrow> passwd \<Rightarrow> passwd" where
  "use_shadow spwd pwd = (case spwd of None \<Rightarrow> pwd | Some p \<Rightarrow> pwd\<lparr>pw_passwd := p\<rparr>)"

text \<open>The loop that overwrites the password up to its null byte.\<close>

fun erase :: "string \<Rightarrow> string" where
  "erase [] = []"
| "erase (c # cs) = (if c = CHR 0x00 then c # cs else CHR 0x00 # erase cs)"

definition verify :: "'s authk \<Rightarrow> passwd \<Rightarrow> 's auth \<Rightarrow> (unit, 's auth) outcome" where
  "verify A pwd s =
     (case a_getpass A (ak s) of
        (None, k) \<Rightarrow> Undefd
      | (Some password, k) \<Rightarrow>
          (let encrypted = a_crypt A password (pw_passwd pwd);
               s = s\<lparr>ak := k, pwbuf := Some (erase password)\<rparr>
           in case encrypted of
                None \<Rightarrow> Exited 1 s
              | Some e \<Rightarrow>
                  if e \<noteq> pw_passwd pwd then Exited 1 (say (''Incorrect password'' @ [nl]) s)
                  else Exited 0 (say (''Successfully authenticated: UID='' @ show_int (pw_uid pwd) @ [nl]) s)))"

definition check_password_main :: "'s authk \<Rightarrow> 's auth \<Rightarrow> (unit, 's auth) outcome" where
  "check_password_main A s =
     andThen (read_username A s) (\<lambda>username s.
     andThen (get_record A username s) (\<lambda>pwd s.
     andThen (get_shadow A username s) (\<lambda>spwd s. verify A (use_shadow spwd pwd) s)))"

section \<open>Capabilities\<close>

record ('s, 'c) capk =
  c_get_proc :: "'s \<Rightarrow> 'c option \<times> 's"
  c_set_flag :: "int \<Rightarrow> bool \<Rightarrow> 'c \<Rightarrow> 'c option"     \<comment> \<open>in the effective set; \<open>None\<close> for -1\<close>
  c_set_proc :: "'c \<Rightarrow> 's \<Rightarrow> bool \<times> 's"
  c_init :: "'c option"
  c_free :: "'c \<Rightarrow> bool"

definition modifyCap :: "('s, 'c) capk \<Rightarrow> int \<Rightarrow> bool \<Rightarrow> 's \<Rightarrow> int \<times> 's" where
  "modifyCap C capability setting k =
     (case c_get_proc C k of
        (None, k) \<Rightarrow> (-1, k)
      | (Some caps, k) \<Rightarrow>
          (case c_set_flag C capability setting caps of
             None \<Rightarrow> (-1, k)
           | Some caps \<Rightarrow>
               (case c_set_proc C caps k of
                  (False, k) \<Rightarrow> (-1, k)
                | (True, k) \<Rightarrow> if \<not> c_free C caps then (-1, k) else (0, k))))"

definition raiseCap :: "('s, 'c) capk \<Rightarrow> int \<Rightarrow> 's \<Rightarrow> int \<times> 's" where
  "raiseCap C capability k = modifyCap C capability True k"

definition dropAllCaps :: "('s, 'c) capk \<Rightarrow> 's \<Rightarrow> int \<times> 's" where
  "dropAllCaps C k =
     (case c_init C of
        None \<Rightarrow> (-1, k)
      | Some emp \<Rightarrow>
          (case c_set_proc C emp k of (ok, k) \<Rightarrow>
             if \<not> c_free C emp then (-1, k) else (if ok then 0 else -1, k)))"

text \<open>A call whose result -1 is fatal.\<close>

definition or_fatal :: "('s \<Rightarrow> int \<times> 's) \<Rightarrow> 's auth \<Rightarrow> (unit, 's auth) outcome" where
  "or_fatal f s = (case f (ak s) of (r, k) \<Rightarrow> if r = -1 then Exited 1 (s\<lparr>ak := k\<rparr>) else Ret () (s\<lparr>ak := k\<rparr>))"

definition check_password_caps_main :: "'s authk \<Rightarrow> ('s, 'c) capk \<Rightarrow> 's auth \<Rightarrow> (unit, 's auth) outcome" where
  "check_password_caps_main A C s =
     andThen (read_username A s) (\<lambda>username s.
     andThen (get_record A username s) (\<lambda>pwd s.
     andThen (or_fatal (raiseCap C CAP_DAC_READ_SEARCH) s) (\<lambda>_ s.
     andThen (get_shadow A username s) (\<lambda>spwd s.
     andThen (or_fatal (dropAllCaps C) s) (\<lambda>_ s. verify A (use_shadow spwd pwd) s)))))"

section \<open>What the programs rely on\<close>

record capsets =
  effective :: "int set"
  permitted :: "int set"
  inheritable :: "int set"

text \<open>\<open>held\<close> are the capability sets of the process, \<open>sets\<close> those of a \<open>cap_t\<close>.  Reading input
  and the password files does not change them.\<close>

locale proc_caps =
  fixes A :: "'s authk" and C :: "('s, 'c) capk" and held :: "'s \<Rightarrow> capsets" and sets :: "'c \<Rightarrow> capsets"
  assumes get_proc: "c_get_proc C k = (r, k') \<Longrightarrow> held k' = held k \<and> (\<forall>c. r = Some c \<longrightarrow> sets c = held k)"
    and set_flag: "c_set_flag C cap b c = Some c' \<Longrightarrow>
      sets c' = (sets c)\<lparr>effective := (if b then insert cap (effective (sets c)) else effective (sets c) - {cap})\<rparr>"
    and set_proc: "c_set_proc C c k = (ok, k') \<Longrightarrow> held k' = (if ok then sets c else held k)"
    and init: "c_init C = Some c \<Longrightarrow> sets c = \<lparr>effective = {}, permitted = {}, inheritable = {}\<rparr>"
    and fgets: "held (snd (a_fgets A n k)) = held k"
    and getpwnam: "held (snd (a_getpwnam A u k)) = held k"
    and getspnam: "held (snd (a_getspnam A u k)) = held k"
    and getpass: "held (snd (a_getpass A k)) = held k"

definition no_caps :: capsets where
  "no_caps = \<lparr>effective = {}, permitted = {}, inheritable = {}\<rparr>"

lemma erase_all: "CHR 0x00 \<notin> set cs \<Longrightarrow> erase cs = replicate (length cs) (CHR 0x00)"
  by (induction cs) auto

text \<open>How the verification of a password ends, given the stored one.\<close>

definition verified :: "'s authk \<Rightarrow> passwd \<Rightarrow> string \<Rightarrow> 's auth \<Rightarrow> int \<Rightarrow> 's auth \<Rightarrow> bool" where
  "verified A pwd password s n s' \<longleftrightarrow>
     pwbuf s' = Some (erase password) \<and>
     (if a_crypt A password (pw_passwd pwd) = Some (pw_passwd pwd)
      then n = 0 \<and> aout s' = aout s @ ''Successfully authenticated: UID='' @ show_int (pw_uid pwd) @ [nl]
      else n = 1 \<and> aout s' \<in> {aout s, aout s @ ''Incorrect password'' @ [nl]})"

lemma verified_cong: "aout s = aout t \<Longrightarrow> verified A pwd password s n s' = verified A pwd password t n s'"
  by (simp add: verified_def)

lemma verify_cases:
  obtains (null) "verify A pwd s = Undefd"
  | (checked) password k n s' where "a_getpass A (ak s) = (Some password, k)" "verify A pwd s = Exited n s'"
      "ak s' = k" "verified A pwd password s n s'"
proof -
  obtain r k where r: "a_getpass A (ak s) = (r, k)" by fastforce
  show thesis
  proof (cases r)
    case None
    with r null show thesis by (simp add: verify_def)
  next
    case (Some password)
    have "\<exists>n s'. verify A pwd s = Exited n s' \<and> ak s' = k \<and> verified A pwd password s n s'"
      using r Some
      by (cases "a_crypt A password (pw_passwd pwd)"; cases "a_crypt A password (pw_passwd pwd) = Some (pw_passwd pwd)")
        (simp_all add: verify_def verified_def say_def)
    with r Some checked show thesis by blast
  qed
qed

text \<open>The parts before it end the program with status 1 or hand on what they found.\<close>

lemma read_username_cases:
  obtains (undefined) "read_username A s = Undefd"
  | (ended) s' where "read_username A s = Exited 1 s'" "pwbuf s' = pwbuf s" "aout s' \<in> {aout s, aout s @ ''Username: ''}"
  | (name) u n s' where "read_username A s = Ret u s'" "pwbuf s' = pwbuf s" "aout s' = aout s @ ''Username: ''"
      "ak s' = snd (a_fgets A n (ak s))"
proof (cases "a_malloc A")
  case False
  then show thesis using ended by (simp add: read_username_def)
next
  case True
  define n where "n = (if a_lnmax A = -1 then 256 else a_lnmax A)"
  obtain r k where r: "a_fgets A n (ak s) = (r, k)" by fastforce
  let ?s = "(say ''Username: '' s)\<lparr>ak := k\<rparr>"
  have t: "pwbuf ?s = pwbuf s" "aout ?s = aout s @ ''Username: ''" "ak ?s = snd (a_fgets A n (ak s))"
    using r by (simp_all add: say_def)
  show thesis
  proof (cases r)
    case None
    with True r t ended show thesis by (simp add: read_username_def n_def [symmetric])
  next
    case (Some raw)
    show thesis
    proof (cases "before raw (CHR 0x00) = []")
      case True
      with \<open>a_malloc A\<close> r Some undefined show thesis by (simp add: read_username_def n_def [symmetric])
    next
      case False
      have "read_username A s = Ret (if last (before raw (CHR 0x00)) = nl then butlast (before raw (CHR 0x00)) else before raw (CHR 0x00)) ?s"
        using False \<open>a_malloc A\<close> r Some by (simp add: read_username_def n_def [symmetric] Let_def)
      from name [OF this t] show thesis .
    qed
  qed
qed

lemma get_record_cases:
  obtains (ended) s' where "get_record A u s = Exited 1 s'" "pwbuf s' = pwbuf s" "aout s' = aout s"
  | (found) pwd k where "get_record A u s = Ret pwd (s\<lparr>ak := k\<rparr>)" "a_getpwnam A u (ak s) = (Some pwd, k)"
  by (cases "a_getpwnam A u (ak s)"; cases "fst (a_getpwnam A u (ak s))") (auto simp: get_record_def)

lemma get_shadow_cases:
  obtains (ended) s' where "get_shadow A u s = Exited 1 s'" "pwbuf s' = pwbuf s" "aout s' = aout s"
  | (found) spwd e k where "get_shadow A u s = Ret spwd (s\<lparr>ak := k\<rparr>)" "a_getspnam A u (ak s) = ((spwd, e), k)"
proof -
  obtain spwd e k where g: "a_getspnam A u (ak s) = ((spwd, e), k)" by (cases "a_getspnam A u (ak s)") auto
  show thesis
  proof (cases "spwd = None \<and> e = EACCES")
    case True
    with g ended show thesis by (simp add: get_shadow_def)
  next
    case False
    with g found show thesis by (simp add: get_shadow_def)
  qed
qed

lemma or_fatal_cases:
  obtains (ended) s' where "or_fatal f s = Exited 1 s'" "pwbuf s' = pwbuf s" "aout s' = aout s"
  | (passed) r k where "or_fatal f s = Ret () (s\<lparr>ak := k\<rparr>)" "f (ak s) = (r, k)" "r \<noteq> -1"
proof -
  obtain r k where f: "f (ak s) = (r, k)" by fastforce
  show thesis
  proof (cases "r = -1")
    case True
    with f ended show thesis by (simp add: or_fatal_def)
  next
    case False
    with f passed show thesis by (simp add: or_fatal_def)
  qed
qed

context proc_caps
begin

lemma raiseCap_held: "raiseCap C cap k = (r, k') \<Longrightarrow> r \<noteq> -1 \<Longrightarrow> held k' = (held k)\<lparr>effective := insert cap (effective (held k))\<rparr>"
  using get_proc set_flag set_proc
  by (fastforce simp: raiseCap_def modifyCap_def split: prod.splits option.splits bool.splits if_splits)

lemma dropAllCaps_held: "dropAllCaps C k = (r, k') \<Longrightarrow> r \<noteq> -1 \<Longrightarrow> held k' = no_caps"
  using init set_proc
  by (fastforce simp: dropAllCaps_def no_caps_def split: prod.splits option.splits if_splits)

end

section \<open>A reference system\<close>

text \<open>One user with a shadow password, which can be read only with the capability; the state
  holds the capability sets and the lines to be typed.\<close>

record refauth =
  ra_caps :: capsets
  ra_lines :: "string list"

definition next_line :: "refauth \<Rightarrow> string option \<times> refauth" where
  "next_line k = (case ra_lines k of [] \<Rightarrow> (None, k) | l # ls \<Rightarrow> (Some l, k\<lparr>ra_lines := ls\<rparr>))"

definition ref_authk :: "refauth authk" where
  "ref_authk =
     \<lparr>a_lnmax = -1, a_malloc = True, a_fgets = (\<lambda>n k. map_prod (map_option (\<lambda>l. take (nat n - 1) (l @ [nl]))) id (next_line k)),
      a_getpwnam = (\<lambda>u k. (if u = ''joe'' then Some \<lparr>pw_passwd = ''x'', pw_uid = 1000\<rparr> else None, k)),
      a_getspnam = (\<lambda>u k. (if CAP_DAC_READ_SEARCH \<in> effective (ra_caps k) then (Some ''ab!terces'', 0) else (None, EACCES), k)),
      a_getpass = next_line, a_crypt = (\<lambda>p salt. Some (take 2 salt @ ''!'' @ rev p))\<rparr>"

definition ref_capk :: "(refauth, capsets) capk" where
  "ref_capk =
     \<lparr>c_get_proc = (\<lambda>k. (Some (ra_caps k), k)),
      c_set_flag = (\<lambda>cap b c. Some (c\<lparr>effective := (if b then insert cap (effective c) else effective c - {cap})\<rparr>)),
      c_set_proc = (\<lambda>c k. if effective c \<subseteq> permitted (ra_caps k) then (True, k\<lparr>ra_caps := c\<rparr>) else (False, k)),
      c_init = Some no_caps, c_free = (\<lambda>_. True)\<rparr>"

interpretation rauth: proc_caps ref_authk ref_capk ra_caps id
  by unfold_locales
    (auto simp: ref_authk_def ref_capk_def next_line_def no_caps_def split: if_splits list.splits)

section \<open>Properties\<close>


definition example_login :: "refauth auth" where
  "example_login = \<lparr>ak = \<lparr>ra_caps = \<lparr>effective = {}, permitted = {CAP_DAC_READ_SEARCH}, inheritable = {}\<rparr>,
     ra_lines = [''joe'', ''secret'']\<rparr>, aout = [], pwbuf = None\<rparr>"


text \<open>The program without capabilities decides in the same way.\<close>

lemma check_password_decides:
  assumes "check_password_main A s = Exited 0 s'"
  shows "\<exists>u pwd spwd e password k1 k2 k3. fst (a_getpwnam A u k1) = Some pwd \<and> fst (a_getspnam A u k2) = (spwd, e) \<and>
    fst (a_getpass A k3) = Some password \<and> verified A (use_shadow spwd pwd) password (say ''Username: '' s) 0 s'"
proof (cases rule: read_username_cases [of A s, case_names undefined ended name])
  case (name u n s1)
  show ?thesis
  proof (cases rule: get_record_cases [of A u s1, case_names ended found])
    case (found pwd k1)
    show ?thesis
    proof (cases rule: get_shadow_cases [of A u "s1\<lparr>ak := k1\<rparr>", case_names ended found])
      case shadow: (found spwd e k2)
      have main: "check_password_main A s = verify A (use_shadow spwd pwd) (s1\<lparr>ak := k2\<rparr>)"
        using name(1) found(1) shadow(1) by (simp add: check_password_main_def)
      show ?thesis
      proof (cases rule: verify_cases [of A "use_shadow spwd pwd" "s1\<lparr>ak := k2\<rparr>", case_names null checked])
        case (checked password k m t)
        from checked(2) main assms have "m = 0" "t = s'" by simp_all
        with checked(4) verified_cong [of "s1\<lparr>ak := k2\<rparr>" "say ''Username: '' s"] name(3)
        have "verified A (use_shadow spwd pwd) password (say ''Username: '' s) 0 s'" by (simp add: say_def)
        moreover from found(2) shadow(2) checked(1)
        have "fst (a_getpwnam A u (ak s1)) = Some pwd" "fst (a_getspnam A u k1) = (spwd, e)" "fst (a_getpass A k2) = Some password"
          by simp_all
        ultimately show ?thesis by blast
      qed (use main assms in simp)
    qed (use name found assms in \<open>simp add: check_password_main_def\<close>)
  qed (use name assms in \<open>simp add: check_password_main_def\<close>)
qed (use assms in \<open>simp_all add: check_password_main_def\<close>)

end
