(* ===== verification/Daemon_Sighup.thy ===== *)
theory Daemon_Sighup
  imports Daemon
begin

text \<open>
  \<open>src/tlpi-book/daemons/daemon_SIGHUP.c\<close>: a daemon that writes a line to its log every 15
  seconds, and closes and reopens the log and reads its configuration again after each
  \<open>SIGHUP\<close>.  What happens to it is an explicit sequence of rounds of its loop: how long each
  sleep lasts, when the signal arrives, what the files contain.  Log, flag and counters are
  the state; the rest of the process is that of \<open>Daemon\<close>.
\<close>

section \<open>The log\<close>

definition LOG_FILE :: string where "LOG_FILE = ''/tmp/ds.log''"
definition CONFIG_FILE :: string where "CONFIG_FILE = ''/tmp/ds.conf''"
definition SBUF_SIZE :: nat where "SBUF_SIZE = 100"
definition SLEEP_TIME :: int where "SLEEP_TIME = 15"

text \<open>\<open>stamps\<close> are the time stamps of the messages to come (\<open>None\<close>: the time could not be
  converted), \<open>opened_with\<close> the file mode masks under which the log was opened.\<close>

record 's hupd =
  proc :: 's
  stamps :: "nat \<Rightarrow> string option"
  logged :: nat
  log_text :: string
  dmask :: "32 word"
  opened_with :: "(32 word) list"
  hupReceived :: bool
  count :: int
  unslept :: int

definition log_line :: "(nat \<Rightarrow> string option) \<Rightarrow> nat \<Rightarrow> string \<Rightarrow> string" where
  "log_line st i msg = (case st i of None \<Rightarrow> ''???Unknown time????: '' | Some t \<Rightarrow> t @ '': '') @ msg @ [nl]"

definition logMessage :: "string \<Rightarrow> 's hupd \<Rightarrow> 's hupd" where
  "logMessage msg s = s\<lparr>log_text := log_text s @ log_line (stamps s) (logged s) msg, logged := Suc (logged s)\<rparr>"

text \<open>\<open>ok\<close>: the log can be opened.\<close>

definition logOpen :: "bool \<Rightarrow> 's hupd \<Rightarrow> (unit, 's hupd) outcome" where
  "logOpen ok s =
     (let m = dmask s; s = s\<lparr>dmask := 0x3F\<rparr>; s = s\<lparr>opened_with := opened_with s @ [dmask s]\<rparr>; s = s\<lparr>dmask := m\<rparr>
      in if \<not> ok then Exited 1 s else Ret () (logMessage ''Opened log file'' s))"

definition logClose :: "'s hupd \<Rightarrow> 's hupd" where
  "logClose s = logMessage ''Closing log file'' s"

text \<open>The configuration file: \<open>None\<close> if it cannot be opened, otherwise what \<open>fgets\<close> stores, or
  \<open>None\<close> at its end.  The last byte is cut off whatever it is; an empty string has none.\<close>

definition readConfigFile :: "string option option \<Rightarrow> 's hupd \<Rightarrow> (unit, 's hupd) outcome" where
  "readConfigFile cfg s =
     (case cfg of
        None \<Rightarrow> Ret () s
      | Some None \<Rightarrow> Ret () (logMessage (''Read config file: '') s)
      | Some (Some raw) \<Rightarrow>
          (let str = before raw (CHR 0x00) in
           if str = [] then Undefd else Ret () (logMessage (''Read config file: '' @ butlast str) s)))"

definition sighupHandler :: "'s hupd \<Rightarrow> 's hupd" where
  "sighupHandler s = s\<lparr>hupReceived := True\<rparr>"

section \<open>The loop\<close>

text \<open>A round: the result of \<open>sleep\<close>, whether the signal arrives before the flag is tested,
  whether it arrives after it is reset, whether the log can be opened again, and the
  configuration file.\<close>

record round_event =
  slept_to :: int
  hup_early :: bool
  hup_late :: bool
  log_ok :: bool
  config :: "string option option"

definition signal_if :: "bool \<Rightarrow> 's hupd \<Rightarrow> 's hupd" where
  "signal_if b s = (if b then sighupHandler s else s)"

definition hup_test :: "round_event \<Rightarrow> 's hupd \<Rightarrow> (unit, 's hupd) outcome" where
  "hup_test e s =
     (if hupReceived s then
        (let s = signal_if (hup_late e) (s\<lparr>hupReceived := False\<rparr>) in
         andThen (logOpen (log_ok e) (logClose s)) (\<lambda>_ s. readConfigFile (config e) s))
      else Ret () (signal_if (hup_late e) s))"

definition interval_test :: "'s hupd \<Rightarrow> (unit, 's hupd) outcome" where
  "interval_test s =
     (if unslept s = 0 then
        (let s = s\<lparr>count := count s + 1\<rparr>; s = logMessage (''Main: '' @ show_int (count s)) s
         in Ret () (s\<lparr>unslept := SLEEP_TIME\<rparr>))
      else Ret () s)"

definition hup_round :: "round_event \<Rightarrow> 's hupd \<Rightarrow> (unit, 's hupd) outcome" where
  "hup_round e s =
     (let s = signal_if (hup_early e) (s\<lparr>unslept := slept_to e\<rparr>) in
      andThen (hup_test e s) (\<lambda>_ s. interval_test s))"

fun hup_rounds :: "round_event list \<Rightarrow> 's hupd \<Rightarrow> (unit, 's hupd) outcome" where
  "hup_rounds [] s = Ret () s"
| "hup_rounds (e # es) s = andThen (hup_round e s) (\<lambda>_ s. hup_rounds es s)"

text \<open>\<open>main\<close> as far as the rounds \<open>es\<close> go; \<open>sa\<close> is whether \<open>sigaction\<close> succeeds, \<open>early\<close> whether
  the signal arrives before the loop, and \<open>mask_of\<close> reads the file mode mask.\<close>

definition daemon_SIGHUP_main ::
    "'s dk \<Rightarrow> ('s \<Rightarrow> 32 word) \<Rightarrow> (nat \<Rightarrow> string option) \<Rightarrow> bool \<Rightarrow> bool \<Rightarrow> bool \<Rightarrow> string option option \<Rightarrow> round_event list \<Rightarrow> 's \<Rightarrow>
     (unit, 's hupd) outcome" where
  "daemon_SIGHUP_main K mask_of st sa early ok cfg es p =
     (let init = (\<lambda>p. \<lparr>proc = p, stamps = st, logged = 0, log_text = [], dmask = mask_of p, opened_with = [],
            hupReceived = early, count = 0, unslept = SLEEP_TIME\<rparr>)
      in if \<not> sa then Exited 1 (init p)
         else
           (case becomeDaemon K 0 p of
              Ret r p \<Rightarrow>
                if r = -1 then Exited 1 (init p)
                else
                  andThen (logOpen ok (init p)) (\<lambda>_ s.
                  andThen (readConfigFile cfg s) (\<lambda>_ s. hup_rounds es s))
            | Exited n p \<Rightarrow> Exited n (init p)
            | Aborted p \<Rightarrow> Aborted (init p)
            | Undefd \<Rightarrow> Undefd))"

section \<open>What the daemon should do\<close>

definition config_messages :: "string option option \<Rightarrow> string list" where
  "config_messages cfg =
     (case cfg of None \<Rightarrow> [] | Some None \<Rightarrow> [''Read config file: '']
      | Some (Some raw) \<Rightarrow> [''Read config file: '' @ butlast (before raw (CHR 0x00))])"

definition config_readable :: "string option option \<Rightarrow> bool" where
  "config_readable cfg = (case cfg of Some (Some raw) \<Rightarrow> before raw (CHR 0x00) \<noteq> [] | _ \<Rightarrow> True)"

text \<open>The messages of the rounds: a signal is answered in the round in which it arrives or, if
  it arrives after the test, in the next; a regular message ends every complete interval.\<close>

fun hup_messages :: "bool \<Rightarrow> int \<Rightarrow> round_event list \<Rightarrow> string list" where
  "hup_messages pending n [] = []"
| "hup_messages pending n (e # es) =
     (if pending \<or> hup_early e then [''Closing log file'', ''Opened log file''] @ config_messages (config e) else []) @
     (if slept_to e = 0 then (''Main: '' @ show_int (n + 1)) # hup_messages (hup_late e) (n + 1) es
      else hup_messages (hup_late e) n es)"

text \<open>The seconds slept in all, when \<open>u\<close> are asked for in the first round; and that every
  \<open>sleep\<close> returns at most what it was asked for.\<close>

fun total_slept :: "int \<Rightarrow> round_event list \<Rightarrow> int" where
  "total_slept u [] = 0"
| "total_slept u (e # es) = (u - slept_to e) + total_slept (if slept_to e = 0 then SLEEP_TIME else slept_to e) es"

fun sleeps_ok :: "int \<Rightarrow> round_event list \<Rightarrow> bool" where
  "sleeps_ok u [] = True"
| "sleeps_ok u (e # es) \<longleftrightarrow> 0 \<le> slept_to e \<and> slept_to e \<le> u \<and> sleeps_ok (if slept_to e = 0 then SLEEP_TIME else slept_to e) es"

definition files_ok :: "round_event \<Rightarrow> bool" where
  "files_ok e \<longleftrightarrow> log_ok e \<and> config_readable (config e)"

fun log_lines :: "(nat \<Rightarrow> string option) \<Rightarrow> nat \<Rightarrow> string list \<Rightarrow> string" where
  "log_lines st i [] = []"
| "log_lines st i (m # ms) = log_line st i m @ log_lines st (Suc i) ms"

lemma log_lines_append: "log_lines st i (ms @ ms') = log_lines st i ms @ log_lines st (i + length ms) ms'"
  by (induction ms arbitrary: i) auto

text \<open>What a part of the program has done: it has logged messages, opened the log with mask 077,
  and kept everything else but the flag and the counters.\<close>

definition wrote :: "'s hupd \<Rightarrow> string list \<Rightarrow> 's hupd \<Rightarrow> bool" where
  "wrote s ms s' \<longleftrightarrow>
     log_text s' = log_text s @ log_lines (stamps s) (logged s) ms \<and> logged s' = logged s + length ms \<and>
     stamps s' = stamps s \<and> dmask s' = dmask s \<and> proc s' = proc s \<and>
     (\<exists>n. opened_with s' = opened_with s @ replicate n 0x3F)"

lemma wrote_trans: "wrote s ms t \<Longrightarrow> wrote t ms' u \<Longrightarrow> wrote s (ms @ ms') u"
  by (auto simp: wrote_def log_lines_append replicate_add [symmetric])

lemma wrote_refl: "wrote s [] s"
  by (auto simp: wrote_def intro: exI [of _ 0])

lemma wrote_message: "wrote s [m] (logMessage m s)"
  by (auto simp: wrote_def logMessage_def intro: exI [of _ 0])

lemma logMessage_keeps [simp]:
  "hupReceived (logMessage m s) = hupReceived s" "count (logMessage m s) = count s" "unslept (logMessage m s) = unslept s"
  by (simp_all add: logMessage_def)

lemma readConfigFile_wrote:
  "config_readable cfg \<Longrightarrow> \<exists>s'. readConfigFile cfg s = Ret () s' \<and> wrote s (config_messages cfg) s' \<and>
     hupReceived s' = hupReceived s \<and> count s' = count s \<and> unslept s' = unslept s"
  by (auto simp: readConfigFile_def config_readable_def config_messages_def wrote_refl wrote_message Let_def
      split: option.splits)

lemma logOpen_wrote:
  "\<exists>s'. logOpen True s = Ret () s' \<and> wrote s [''Opened log file''] s' \<and>
     hupReceived s' = hupReceived s \<and> count s' = count s \<and> unslept s' = unslept s"
  by (auto simp: logOpen_def wrote_def logMessage_def Let_def intro: exI [of _ 1])

definition hup_answer :: "bool \<Rightarrow> round_event \<Rightarrow> string list" where
  "hup_answer hup e =
     (if hup then [''Closing log file'', ''Opened log file''] @ config_messages (config e) else [])"

lemma hup_test_wrote:
  assumes "files_ok e"
  shows "\<exists>s'. hup_test e s = Ret () s' \<and> wrote s (hup_answer (hupReceived s) e) s' \<and>
    hupReceived s' = hup_late e \<and> count s' = count s \<and> unslept s' = unslept s"
proof (cases "hupReceived s")
  case True
  define w where "w = logClose (signal_if (hup_late e) (s\<lparr>hupReceived := False\<rparr>))"
  have w: "wrote s [''Closing log file''] w" "hupReceived w = hup_late e" "count w = count s" "unslept w = unslept s"
    by (auto simp: w_def logClose_def signal_if_def sighupHandler_def wrote_def logMessage_def intro: exI [of _ 0])
  obtain x where x: "logOpen True w = Ret () x" "wrote w [''Opened log file''] x" "hupReceived x = hup_late e" "count x = count s" "unslept x = unslept s"
    using logOpen_wrote [of w] w by auto
  obtain y where y: "readConfigFile (config e) x = Ret () y" "wrote x (config_messages (config e)) y" "hupReceived y = hup_late e" "count y = count s" "unslept y = unslept s"
    using readConfigFile_wrote [of "config e" x] assms x by (auto simp: files_ok_def)
  from wrote_trans [OF wrote_trans [OF w(1) x(2)] y(2)] True x y assms show ?thesis
    by (simp add: hup_test_def hup_answer_def Let_def w_def [symmetric] files_ok_def)
next
  case False
  then show ?thesis
    by (auto simp: hup_test_def hup_answer_def signal_if_def sighupHandler_def wrote_def intro: exI [of _ 0])
qed

lemma interval_test_wrote:
  "\<exists>s'. interval_test s = Ret () s' \<and>
     wrote s (if unslept s = 0 then [''Main: '' @ show_int (count s + 1)] else []) s' \<and> hupReceived s' = hupReceived s \<and>
     count s' = (if unslept s = 0 then count s + 1 else count s) \<and> unslept s' = (if unslept s = 0 then SLEEP_TIME else unslept s)"
  by (auto simp: interval_test_def Let_def wrote_def logMessage_def intro: exI [of _ 0])

lemma hup_round_wrote:
  assumes "files_ok e"
  shows "\<exists>s'. hup_round e s = Ret () s' \<and> hupReceived s' = hup_late e \<and>
    wrote s (hup_answer (hupReceived s \<or> hup_early e) e @
      (if slept_to e = 0 then [''Main: '' @ show_int (count s + 1)] else [])) s' \<and>
    count s' = (if slept_to e = 0 then count s + 1 else count s) \<and>
    unslept s' = (if slept_to e = 0 then SLEEP_TIME else slept_to e)"
proof -
  define t where "t = signal_if (hup_early e) (s\<lparr>unslept := slept_to e\<rparr>)"
  have t: "wrote s [] t" "hupReceived t = (hupReceived s \<or> hup_early e)" "count t = count s" "unslept t = slept_to e"
    by (auto simp: t_def signal_if_def sighupHandler_def wrote_def intro: exI [of _ 0])
  obtain u where u: "hup_test e t = Ret () u" "wrote t (hup_answer (hupReceived t) e) u" "hupReceived u = hup_late e"
    "count u = count s" "unslept u = slept_to e" using hup_test_wrote [OF assms, of t] t by auto
  obtain v where v: "interval_test u = Ret () v" "hupReceived v = hup_late e"
    "wrote u (if slept_to e = 0 then [''Main: '' @ show_int (count s + 1)] else []) v"
    "count v = (if slept_to e = 0 then count s + 1 else count s)" "unslept v = (if slept_to e = 0 then SLEEP_TIME else slept_to e)"
    using interval_test_wrote [of u] unfolding u(3-5) by blast
  from wrote_trans [OF wrote_trans [OF t(1) u(2)] v(3)] t u v show ?thesis
    by (intro exI [of _ v]) (simp add: hup_round_def t_def [symmetric])
qed

lemma hup_rounds_wrote:
  assumes "\<forall>e\<in>set es. files_ok e"
  shows "\<exists>s'. hup_rounds es s = Ret () s' \<and> wrote s (hup_messages (hupReceived s) (count s) es) s' \<and>
    hupReceived s' = (if es = [] then hupReceived s else hup_late (last es))"
  using assms
proof (induction es arbitrary: s)
  case (Cons e es)
  then obtain t where t: "hup_round e s = Ret () t" "hupReceived t = hup_late e"
    "wrote s (hup_answer (hupReceived s \<or> hup_early e) e @ (if slept_to e = 0 then [''Main: '' @ show_int (count s + 1)] else [])) t"
    "count t = (if slept_to e = 0 then count s + 1 else count s)" using hup_round_wrote [of e s] by auto
  from Cons obtain s' where s': "hup_rounds es t = Ret () s'" "wrote t (hup_messages (hupReceived t) (count t) es) s'"
    "hupReceived s' = (if es = [] then hupReceived t else hup_late (last es))" by (meson list.set_intros(2))
  from wrote_trans [OF t(3) s'(2)] t s' show ?case
    by (intro exI [of _ s']) (auto simp: hup_answer_def)
qed (simp add: wrote_refl)

text \<open>The time slept is the intervals counted and what has passed of the current one.\<close>

lemma hup_rounds_time:
  assumes "hup_rounds es s = Ret () s'" "\<forall>e\<in>set es. files_ok e" "sleeps_ok (unslept s) es" "0 < unslept s" "unslept s \<le> SLEEP_TIME"
  shows "SLEEP_TIME * count s' + (SLEEP_TIME - unslept s') =
      SLEEP_TIME * count s + (SLEEP_TIME - unslept s) + total_slept (unslept s) es \<and> 0 < unslept s' \<and> unslept s' \<le> SLEEP_TIME"
  using assms
proof (induction es arbitrary: s)
  case (Cons e es)
  then obtain t where t: "hup_round e s = Ret () t" "hup_rounds es t = Ret () s'" by auto
  with Cons.prems(2) hup_round_wrote [of e s] have c: "count t = (if slept_to e = 0 then count s + 1 else count s)"
    "unslept t = (if slept_to e = 0 then SLEEP_TIME else slept_to e)" by auto
  have "0 < unslept t" "unslept t \<le> SLEEP_TIME" using Cons.prems(3-5) c(2) by (auto simp: SLEEP_TIME_def split: if_splits)
  with Cons.IH [OF t(2)] Cons.prems c show ?case by (auto simp: algebra_simps split: if_splits)
qed simp

section \<open>Properties\<close>



end
