(* ===== verification/Tty_Functions.thy ===== *)
theory Tty_Functions
  imports Prelude
begin

text \<open>
  \<open>src/tlpi-book/tty/tty_functions.c\<close>: terminals in cbreak and in raw mode.  The flags are
  words; \<open>tcgetattr\<close> and \<open>tcsetattr\<close> are the record \<open>ttyk\<close>, and the locale \<open>terminal\<close> is what
  they do to the settings of a terminal that carries out every change it reports as done.
\<close>

section \<open>Modes\<close>

definition ISIG :: "32 word" where "ISIG = 2 ^ 0"
definition ICANON :: "32 word" where "ICANON = 2 ^ 1"
definition ECHO :: "32 word" where "ECHO = 2 ^ 3"
definition IEXTEN :: "32 word" where "IEXTEN = 2 ^ 15"
definition IGNBRK :: "32 word" where "IGNBRK = 2 ^ 0"
definition BRKINT :: "32 word" where "BRKINT = 2 ^ 1"
definition PARMRK :: "32 word" where "PARMRK = 2 ^ 3"
definition INPCK :: "32 word" where "INPCK = 2 ^ 4"
definition ISTRIP :: "32 word" where "ISTRIP = 2 ^ 5"
definition INLCR :: "32 word" where "INLCR = 2 ^ 6"
definition IGNCR :: "32 word" where "IGNCR = 2 ^ 7"
definition ICRNL :: "32 word" where "ICRNL = 2 ^ 8"
definition IXON :: "32 word" where "IXON = 2 ^ 10"
definition OPOST :: "32 word" where "OPOST = 2 ^ 0"
definition VTIME :: nat where "VTIME = 5"
definition VMIN :: nat where "VMIN = 6"

lemmas flag_defs = ISIG_def ICANON_def ECHO_def IEXTEN_def IGNBRK_def BRKINT_def PARMRK_def INPCK_def ISTRIP_def
  INLCR_def IGNCR_def ICRNL_def IXON_def OPOST_def

record termios =
  c_iflag :: "32 word"
  c_oflag :: "32 word"
  c_cflag :: "32 word"
  c_lflag :: "32 word"
  c_cc :: "nat \<Rightarrow> 8 word"

text \<open>\<open>t_set\<close> is \<open>tcsetattr\<close> with \<open>TCSAFLUSH\<close>.\<close>

record 's ttyk =
  t_get :: "int \<Rightarrow> 's \<Rightarrow> termios option \<times> 's"
  t_set :: "int \<Rightarrow> termios \<Rightarrow> 's \<Rightarrow> bool \<times> 's"

definition cbreak_mode :: "termios \<Rightarrow> termios" where
  "cbreak_mode t =
     (let t = t\<lparr>c_lflag := c_lflag t AND NOT (ICANON OR ECHO)\<rparr>;
          t = t\<lparr>c_lflag := c_lflag t OR ISIG\<rparr>;
          t = t\<lparr>c_iflag := c_iflag t AND NOT ICRNL\<rparr>;
          t = t\<lparr>c_cc := (c_cc t)(VMIN := 1)\<rparr>
      in t\<lparr>c_cc := (c_cc t)(VTIME := 0)\<rparr>)"

definition raw_mode :: "termios \<Rightarrow> termios" where
  "raw_mode t =
     (let t = t\<lparr>c_lflag := c_lflag t AND NOT (ICANON OR ISIG OR IEXTEN OR ECHO)\<rparr>;
          t = t\<lparr>c_iflag := c_iflag t AND
            NOT (BRKINT OR ICRNL OR IGNBRK OR IGNCR OR INLCR OR INPCK OR ISTRIP OR IXON OR PARMRK)\<rparr>;
          t = t\<lparr>c_oflag := c_oflag t AND NOT OPOST\<rparr>;
          t = t\<lparr>c_cc := (c_cc t)(VMIN := 1)\<rparr>
      in t\<lparr>c_cc := (c_cc t)(VTIME := 0)\<rparr>)"

text \<open>The result, what is stored at \<open>prevTermios\<close> if it is not null, and the state.\<close>

definition ttySet :: "(termios \<Rightarrow> termios) \<Rightarrow> 's ttyk \<Rightarrow> int \<Rightarrow> bool \<Rightarrow> 's \<Rightarrow> int \<times> termios option \<times> 's" where
  "ttySet mode T fd prevTermios s =
     (case t_get T fd s of
        (None, s) \<Rightarrow> (-1, None, s)
      | (Some t, s) \<Rightarrow>
          (let prev = (if prevTermios then Some t else None) in
           case t_set T fd (mode t) s of
             (False, s) \<Rightarrow> (-1, prev, s)
           | (True, s) \<Rightarrow> (0, prev, s)))"

definition ttySetCbreak :: "'s ttyk \<Rightarrow> int \<Rightarrow> bool \<Rightarrow> 's \<Rightarrow> int \<times> termios option \<times> 's" where
  "ttySetCbreak T fd prevTermios s = ttySet cbreak_mode T fd prevTermios s"

definition ttySetRaw :: "'s ttyk \<Rightarrow> int \<Rightarrow> bool \<Rightarrow> 's \<Rightarrow> int \<times> termios option \<times> 's" where
  "ttySetRaw T fd prevTermios s = ttySet raw_mode T fd prevTermios s"

section \<open>Terminals\<close>

locale terminal =
  fixes T :: "'s ttyk" and settings :: "'s \<Rightarrow> int \<Rightarrow> termios"
  assumes get: "t_get T fd s = (r, s') \<Longrightarrow> settings s' = settings s \<and> (\<forall>t. r = Some t \<longrightarrow> t = settings s fd)"
    and set: "t_set T fd t s = (ok, s') \<Longrightarrow> settings s' = (if ok then (settings s)(fd := t) else settings s)"
begin

lemma ttySet_settings:
  assumes "ttySet mode T fd p s = (r, prev, s')"
  shows "settings s' = (if r = 0 then (settings s)(fd := mode (settings s fd)) else settings s) \<and> r \<in> {0, -1} \<and>
    (prev \<noteq> None \<longrightarrow> prev = Some (settings s fd)) \<and> (r = 0 \<longrightarrow> (prev \<noteq> None) = p)"
proof -
  obtain g s1 where g: "t_get T fd s = (g, s1)" by fastforce
  show ?thesis
  proof (cases g)
    case None
    with g get [OF g] assms show ?thesis by (auto simp: ttySet_def)
  next
    case (Some t)
    obtain ok s2 where o: "t_set T fd (mode t) s1 = (ok, s2)" by fastforce
    from Some get [OF g] have "t = settings s fd" "settings s1 = settings s" by simp_all
    with g Some o set [OF o] assms show ?thesis by (cases ok; cases p) (auto simp: ttySet_def Let_def)
  qed
qed

end

text \<open>What the modes mean bit by bit.\<close>

lemma bit_flag: "bit (2 ^ k :: 32 word) n \<longleftrightarrow> n = k \<and> k < 32"
  by (auto simp: bit_exp_iff possible_bit_def)

lemma bit_flags [simp]:
  "bit ISIG n = (n = 0)" "bit ICANON n = (n = 1)" "bit ECHO n = (n = 3)" "bit IEXTEN n = (n = 15)"
  "bit IGNBRK n = (n = 0)" "bit BRKINT n = (n = 1)" "bit PARMRK n = (n = 3)" "bit INPCK n = (n = 4)"
  "bit ISTRIP n = (n = 5)" "bit INLCR n = (n = 6)" "bit IGNCR n = (n = 7)" "bit ICRNL n = (n = 8)"
  "bit IXON n = (n = 10)" "bit OPOST n = (n = 0)"
  by (simp_all only: flag_defs bit_flag) auto

lemma bit_not32: "bit (NOT m :: 32 word) n = (n < 32 \<and> \<not> bit m n)"
  by (simp add: bit_not_iff possible_bit_def)

lemma bit32_less: "bit (w :: 32 word) n \<Longrightarrow> n < 32"
  by (drule bit_imp_le_length) simp

lemma cbreak_bits:
  "bit (c_lflag (cbreak_mode t)) n = (n = 0 \<or> n \<notin> {1, 3} \<and> bit (c_lflag t) n)"
  "bit (c_iflag (cbreak_mode t)) n = (n \<noteq> 8 \<and> bit (c_iflag t) n)"
  by (auto simp: cbreak_mode_def Let_def bit_and_iff bit_not32 bit_or_iff dest: bit32_less)

lemma raw_bits:
  "bit (c_lflag (raw_mode t)) n = (n \<notin> {0, 1, 3, 15} \<and> bit (c_lflag t) n)"
  "bit (c_iflag (raw_mode t)) n = (n \<notin> {0, 1, 3, 4, 5, 6, 7, 8, 10} \<and> bit (c_iflag t) n)"
  "bit (c_oflag (raw_mode t)) n = (n \<noteq> 0 \<and> bit (c_oflag t) n)"
  by (auto simp: raw_mode_def Let_def bit_and_iff bit_not32 bit_or_iff dest: bit32_less)

lemma mode_rest:
  "c_cflag (cbreak_mode t) = c_cflag t" "c_oflag (cbreak_mode t) = c_oflag t" "c_cflag (raw_mode t) = c_cflag t"
  "c_cc (cbreak_mode t) = (c_cc t)(VMIN := 1, VTIME := 0)" "c_cc (raw_mode t) = (c_cc t)(VMIN := 1, VTIME := 0)"
  by (simp_all add: cbreak_mode_def raw_mode_def Let_def)

text \<open>Raw mode leaves no trace of cbreak mode: only what both modes never touch is kept.\<close>

lemma termios_bits_eqI:
  assumes "\<And>n. bit (c_iflag t) n = bit (c_iflag u) n" "\<And>n. bit (c_oflag t) n = bit (c_oflag u) n"
    "c_cflag t = c_cflag u" "\<And>n. bit (c_lflag t) n = bit (c_lflag u) n" "c_cc t = c_cc u"
  shows "t = (u :: termios)"
  using assms by (intro termios.equality) (auto intro!: bit_eqI)

lemma raw_after_cbreak: "raw_mode (cbreak_mode t) = raw_mode t"
  by (rule termios_bits_eqI) (auto simp: raw_bits cbreak_bits mode_rest)

lemma mode_idem: "cbreak_mode (cbreak_mode t) = cbreak_mode t" "raw_mode (raw_mode t) = raw_mode t"
  by (rule termios_bits_eqI; force simp: raw_bits cbreak_bits mode_rest)+

text \<open>The modes bit by bit, without the names of the flags: bits 0, 1, 3 and 15 of the local flags
  are \<open>ISIG\<close>, \<open>ICANON\<close>, \<open>ECHO\<close> and \<open>IEXTEN\<close>.\<close>

definition cbreak_of :: "termios \<Rightarrow> termios \<Rightarrow> bool" where
  "cbreak_of t u \<longleftrightarrow>
     (\<forall>n. bit (c_lflag u) n = (n = 0 \<or> n \<notin> {1, 3} \<and> bit (c_lflag t) n)) \<and>
     (\<forall>n. bit (c_iflag u) n = (n \<noteq> 8 \<and> bit (c_iflag t) n)) \<and>
     c_oflag u = c_oflag t \<and> c_cflag u = c_cflag t \<and> c_cc u = (c_cc t)(6 := 1, 5 := 0)"

definition raw_of :: "termios \<Rightarrow> termios \<Rightarrow> bool" where
  "raw_of t u \<longleftrightarrow>
     (\<forall>n. bit (c_lflag u) n = (n \<notin> {0, 1, 3, 15} \<and> bit (c_lflag t) n)) \<and>
     (\<forall>n. bit (c_iflag u) n = (n \<notin> {0, 1, 3, 4, 5, 6, 7, 8, 10} \<and> bit (c_iflag t) n)) \<and>
     (\<forall>n. bit (c_oflag u) n = (n \<noteq> 0 \<and> bit (c_oflag t) n)) \<and>
     c_cflag u = c_cflag t \<and> c_cc u = (c_cc t)(6 := 1, 5 := 0)"

lemma cbreak_mode_of: "cbreak_of t (cbreak_mode t)"
  unfolding cbreak_of_def by (simp add: cbreak_bits mode_rest VMIN_def VTIME_def)

lemma raw_mode_of: "raw_of t (raw_mode t)"
  unfolding raw_of_def by (simp add: raw_bits mode_rest VMIN_def VTIME_def)

lemma raw_of_cbreak: "raw_of t (raw_mode (cbreak_mode t))"
  by (simp add: raw_after_cbreak raw_mode_of)

section \<open>A terminal on every descriptor\<close>

text \<open>The state is the settings of each descriptor; a negative descriptor is refused.\<close>

definition ref_tty :: "(int \<Rightarrow> termios) ttyk" where
  "ref_tty = \<lparr>t_get = (\<lambda>fd s. (if fd < 0 then None else Some (s fd), s)),
     t_set = (\<lambda>fd t s. if fd < 0 then (False, s) else (True, s(fd := t)))\<rparr>"

interpretation rtty: terminal ref_tty id
  by unfold_locales (auto simp: ref_tty_def split: if_splits)

section \<open>Switching modes\<close>

text \<open>
  A terminal switched to cbreak mode and then to raw mode: each switch changes just the bits
  of its mode, reads return after one byte, raw mode keeps no trace of cbreak mode, no other
  terminal changes, a switch that reports failure changes nothing, and writing back the settings
  the first switch saved restores the terminal.
\<close>

theorem tty_mode_switches:
  assumes "terminal T settings"
    and "ttySetCbreak T fd True s = (rc, saved, s1)" and "ttySetRaw T fd keep s1 = (rr, prev, s2)"
    and "t_set T fd (the saved) s2 = (ok, s3)"
  shows "(if rc = 0 then cbreak_of (settings s fd) (settings s1 fd) else rc = -1 \<and> settings s1 = settings s) \<and>
    (if rr = 0 then raw_of (settings s fd) (settings s2 fd) else rr = -1 \<and> settings s2 = settings s1) \<and>
    (\<forall>other. other \<noteq> fd \<longrightarrow> settings s2 other = settings s other) \<and>
    (rc = 0 \<and> ok \<longrightarrow> settings s3 = settings s)"
proof -
  note c = terminal.ttySet_settings [OF assms(1) assms(2) [unfolded ttySetCbreak_def]]
  note r = terminal.ttySet_settings [OF assms(1) assms(3) [unfolded ttySetRaw_def]]
  have s3: "settings s3 = (if ok then (settings s2)(fd := the saved) else settings s2)"
    by (rule terminal.set [OF assms(1) assms(4)])
  have s1: "settings s1 = (if rc = 0 then (settings s)(fd := cbreak_mode (settings s fd)) else settings s)"
    and s2: "settings s2 = (if rr = 0 then (settings s1)(fd := raw_mode (settings s1 fd)) else settings s1)"
    and results: "rc \<in> {0, -1}" "rr \<in> {0, -1}" and saved: "rc = 0 \<longrightarrow> saved = Some (settings s fd)"
    using c r by auto
  show ?thesis
    using results saved by (auto simp: s1 s2 s3 cbreak_mode_of raw_mode_of raw_of_cbreak fun_eq_iff)
qed

text \<open>The settings of a terminal in the usual mode: all local and input bits set.\<close>

definition cooked :: termios where
  "cooked = \<lparr>c_iflag = -1, c_oflag = 1, c_cflag = 7, c_lflag = -1, c_cc = (\<lambda>_. 4)\<rparr>"

theorem tty_mode_switches_witness:
  "raw_of cooked (snd (snd (ttySetRaw ref_tty 0 False (snd (snd (ttySetCbreak ref_tty 0 True (\<lambda>_. cooked)))))) 0) \<and>
    \<not> bit (c_lflag (snd (snd (ttySetCbreak ref_tty 0 True (\<lambda>_. cooked))) 0)) 3 \<and>
    bit (c_lflag (snd (snd (ttySetCbreak ref_tty 0 True (\<lambda>_. cooked))) 0)) 15"
proof -
  let ?s = "\<lambda>_ :: int. cooked"
  let ?s1 = "?s(0 := cbreak_mode cooked)"
  let ?s2 = "?s1(0 := raw_mode (cbreak_mode cooked))"
  have c: "ttySetCbreak ref_tty 0 True ?s = (0, Some cooked, ?s1)"
    by (simp add: ttySetCbreak_def ttySet_def ref_tty_def)
  have r: "ttySetRaw ref_tty 0 False ?s1 = (0, None, ?s2)"
    by (simp add: ttySetRaw_def ttySet_def ref_tty_def)
  have t: "t_set ref_tty 0 (the (Some cooked)) ?s2 = (True, ?s2(0 := cooked))"
    by (simp add: ref_tty_def)
  from tty_mode_switches [OF rtty.terminal_axioms c r t]
  have "cbreak_of cooked (?s1 0)" "raw_of cooked (?s2 0)" by simp_all
  moreover have "bit (c_lflag cooked) 15" by (simp add: cooked_def)
  ultimately show ?thesis unfolding c r by (simp add: r cbreak_of_def)
qed

end
