(* ===== verification/File_Perms.thy ===== *)
theory File_Perms
  imports Prelude
begin

text \<open>
  \<open>src/tlpi-book/files/file_perms.c\<close>: the permissions of a file as \<open>ls\<close> writes them.  The mask is
  a word of 32 bits, as \<open>mode_t\<close> is, with the bits of \<open><sys/stat.h>\<close>.
\<close>

definition S_IXOTH :: "32 word" where "S_IXOTH = 2 ^ 0"
definition S_IWOTH :: "32 word" where "S_IWOTH = 2 ^ 1"
definition S_IROTH :: "32 word" where "S_IROTH = 2 ^ 2"
definition S_IXGRP :: "32 word" where "S_IXGRP = 2 ^ 3"
definition S_IWGRP :: "32 word" where "S_IWGRP = 2 ^ 4"
definition S_IRGRP :: "32 word" where "S_IRGRP = 2 ^ 5"
definition S_IXUSR :: "32 word" where "S_IXUSR = 2 ^ 6"
definition S_IWUSR :: "32 word" where "S_IWUSR = 2 ^ 7"
definition S_IRUSR :: "32 word" where "S_IRUSR = 2 ^ 8"
definition S_ISVTX :: "32 word" where "S_ISVTX = 2 ^ 9"
definition S_ISGID :: "32 word" where "S_ISGID = 2 ^ 10"
definition S_ISUID :: "32 word" where "S_ISUID = 2 ^ 11"

definition FP_SPECIAL :: "32 word" where "FP_SPECIAL = 1"

lemmas mode_bit_defs = S_IXOTH_def S_IWOTH_def S_IROTH_def S_IXGRP_def S_IWGRP_def S_IRGRP_def
  S_IXUSR_def S_IWUSR_def S_IRUSR_def S_ISVTX_def S_ISGID_def S_ISUID_def

definition STR_SIZE :: nat where "STR_SIZE = length ''rwxrwxrwx'' + 1"

text \<open>The execute position: \<open>both\<close> or \<open>only\<close> for a special bit with and without \<open>x\<close>.\<close>

definition x_char :: "bool \<Rightarrow> bool \<Rightarrow> char \<Rightarrow> char \<Rightarrow> char" where
  "x_char exec special both only = (if exec then if special then both else CHR ''x'' else if special then only else CHR ''-'')"

definition filePermStr :: "32 word \<Rightarrow> 32 word \<Rightarrow> string" where
  "filePermStr perm flags = snprintf STR_SIZE
     [if perm AND S_IRUSR \<noteq> 0 then CHR ''r'' else CHR ''-'',
      if perm AND S_IWUSR \<noteq> 0 then CHR ''w'' else CHR ''-'',
      x_char (perm AND S_IXUSR \<noteq> 0) (perm AND S_ISUID \<noteq> 0 \<and> flags AND FP_SPECIAL \<noteq> 0) (CHR ''s'') (CHR ''S''),
      if perm AND S_IRGRP \<noteq> 0 then CHR ''r'' else CHR ''-'',
      if perm AND S_IWGRP \<noteq> 0 then CHR ''w'' else CHR ''-'',
      x_char (perm AND S_IXGRP \<noteq> 0) (perm AND S_ISGID \<noteq> 0 \<and> flags AND FP_SPECIAL \<noteq> 0) (CHR ''s'') (CHR ''S''),
      if perm AND S_IROTH \<noteq> 0 then CHR ''r'' else CHR ''-'',
      if perm AND S_IWOTH \<noteq> 0 then CHR ''w'' else CHR ''-'',
      x_char (perm AND S_IXOTH \<noteq> 0) (perm AND S_ISVTX \<noteq> 0 \<and> flags AND FP_SPECIAL \<noteq> 0) (CHR ''t'') (CHR ''T'')]"

section \<open>Reading permissions back\<close>

definition bit_if :: "bool \<Rightarrow> nat \<Rightarrow> 32 word" where
  "bit_if b k = (if b then 2 ^ k else 0)"

fun perm_of_str :: "string \<Rightarrow> 32 word" where
  "perm_of_str [a, b, c, d, e, f, g, h, i] =
     bit_if (a = CHR ''r'') 8 OR bit_if (b = CHR ''w'') 7 OR bit_if (c \<in> {CHR ''x'', CHR ''s''}) 6 OR
     bit_if (d = CHR ''r'') 5 OR bit_if (e = CHR ''w'') 4 OR bit_if (f \<in> {CHR ''x'', CHR ''s''}) 3 OR
     bit_if (g = CHR ''r'') 2 OR bit_if (h = CHR ''w'') 1 OR bit_if (i \<in> {CHR ''x'', CHR ''t''}) 0 OR
     bit_if (c \<in> {CHR ''s'', CHR ''S''}) 11 OR bit_if (f \<in> {CHR ''s'', CHR ''S''}) 10 OR
     bit_if (i \<in> {CHR ''t'', CHR ''T''}) 9"
| "perm_of_str _ = 0"

lemma bit_bit_if: "bit (bit_if b k) n \<longleftrightarrow> b \<and> n = k \<and> k < 32"
  by (auto simp: bit_if_def bit_exp_iff possible_bit_def)

lemma and_mode_bits [simp]:
  "perm AND S_IXOTH \<noteq> 0 \<longleftrightarrow> bit perm 0" "perm AND S_IWOTH \<noteq> 0 \<longleftrightarrow> bit perm 1"
  "perm AND S_IROTH \<noteq> 0 \<longleftrightarrow> bit perm 2" "perm AND S_IXGRP \<noteq> 0 \<longleftrightarrow> bit perm 3"
  "perm AND S_IWGRP \<noteq> 0 \<longleftrightarrow> bit perm 4" "perm AND S_IRGRP \<noteq> 0 \<longleftrightarrow> bit perm 5"
  "perm AND S_IXUSR \<noteq> 0 \<longleftrightarrow> bit perm 6" "perm AND S_IWUSR \<noteq> 0 \<longleftrightarrow> bit perm 7"
  "perm AND S_IRUSR \<noteq> 0 \<longleftrightarrow> bit perm 8" "perm AND S_ISVTX \<noteq> 0 \<longleftrightarrow> bit perm 9"
  "perm AND S_ISGID \<noteq> 0 \<longleftrightarrow> bit perm 10" "perm AND S_ISUID \<noteq> 0 \<longleftrightarrow> bit perm 11"
  by (simp_all only: mode_bit_defs and_exp_eq_0_iff_not_bit not_not)

lemma and_special [simp]: "flags AND FP_SPECIAL \<noteq> 0 \<longleftrightarrow> bit flags 0"
  using and_exp_eq_0_iff_not_bit [of flags 0] by (simp add: FP_SPECIAL_def)

lemma x_char_cases [simp]:
  "x_char e sp (CHR ''s'') (CHR ''S'') \<in> {CHR ''x'', CHR ''s''} \<longleftrightarrow> e"
  "x_char e sp (CHR ''s'') (CHR ''S'') \<in> {CHR ''s'', CHR ''S''} \<longleftrightarrow> sp"
  "x_char e sp (CHR ''t'') (CHR ''T'') \<in> {CHR ''x'', CHR ''t''} \<longleftrightarrow> e"
  "x_char e sp (CHR ''t'') (CHR ''T'') \<in> {CHR ''t'', CHR ''T''} \<longleftrightarrow> sp"
  by (simp_all add: x_char_def)

lemma if_char_eq [simp]: "(if b then CHR ''r'' else CHR ''-'') = CHR ''r'' \<longleftrightarrow> b"
  "(if b then CHR ''w'' else CHR ''-'') = CHR ''w'' \<longleftrightarrow> b"
  by simp_all

lemma less_12_cases: "n < 12 \<longleftrightarrow> n \<in> {0, 1, 2, 3, 4, 5, 6, 7, 8, 9, 10, 11 :: nat}"
  by (simp, presburger)

lemma less_9_cases: "n < 9 \<longleftrightarrow> n \<in> {0, 1, 2, 3, 4, 5, 6, 7, 8 :: nat}"
  by (simp, presburger)

lemma perm_of_filePermStr_bit:
  "bit (perm_of_str (filePermStr perm flags)) n \<longleftrightarrow> bit perm n \<and> (n < 9 \<or> n < 12 \<and> bit flags 0)"
proof -
  have s: "snprintf STR_SIZE [a, b, c, d, e, f, g, h, i] = [a, b, c, d, e, f, g, h, i]" for a b c d e f g h i
    by (simp add: STR_SIZE_def)
  have "bit (perm_of_str (filePermStr perm flags)) n \<longleftrightarrow>
      n \<in> {0, 1, 2, 3, 4, 5, 6, 7, 8} \<and> bit perm n \<or> n \<in> {9, 10, 11} \<and> bit perm n \<and> bit flags 0"
    unfolding filePermStr_def s perm_of_str.simps bit_or_iff bit_bit_if x_char_cases if_char_eq and_mode_bits
      and_special by auto
  then show ?thesis unfolding less_9_cases less_12_cases by blast
qed

text \<open>Every position has a letter of its own or a dash.\<close>

definition perm_form :: "string \<Rightarrow> bool" where
  "perm_form s \<longleftrightarrow> list_all2 (\<lambda>c cs. c \<in> set cs) s
     [''r-'', ''w-'', ''xsS-'', ''r-'', ''w-'', ''xsS-'', ''r-'', ''w-'', ''xtT-'']"

text \<open>
  The text has the nine positions of \<open>ls\<close>, each with one of its letters; with
  \<open>FP_SPECIAL\<close> the twelve permission bits can be read back from it, without it the nine
  ordinary ones, and no other bit of the mode influences it.
\<close>

theorem filePermStr_roundtrip:
  "perm_form (filePermStr perm flags) \<and>
   perm_of_str (filePermStr perm flags) = take_bit (if flags AND FP_SPECIAL \<noteq> 0 then 12 else 9) perm \<and>
   (\<forall>perm'. filePermStr perm' flags = filePermStr perm flags \<longleftrightarrow>
      take_bit (if flags AND FP_SPECIAL \<noteq> 0 then 12 else 9) perm' =
      take_bit (if flags AND FP_SPECIAL \<noteq> 0 then 12 else 9) perm)"
proof -
  let ?k = "if flags AND FP_SPECIAL \<noteq> 0 then 12 else 9 :: nat"
  have back_eq: "perm_of_str (filePermStr p flags) = take_bit ?k p" for p
    by (rule bit_eqI) (auto simp: perm_of_filePermStr_bit bit_take_bit_iff)
  have dep: "filePermStr p flags = filePermStr (take_bit ?k p) flags" for p
    by (simp add: filePermStr_def bit_take_bit_iff)
  have "perm_form (filePermStr perm flags)"
    by (simp add: perm_form_def filePermStr_def STR_SIZE_def x_char_def)
  with back_eq dep show ?thesis by metis
qed

end
