(* ===== verification/Itimerspec.thy ===== *)
theory Itimerspec
  imports Prelude
begin

text \<open>
  \<open>src/tlpi-book/timers/itimerspec_from_str.c\<close>: timer settings from the command line.  \<open>dup\<close> is
  the copy \<open>strdup\<close> makes, \<open>None\<close> when there is no memory: \<open>strchr\<close> is then applied to a null
  pointer, which is undefined.
\<close>

record timespec =
  tv_sec :: int
  tv_nsec :: int

record itimerspec =
  it_value :: timespec
  it_interval :: timespec

text \<open>\<open>sec[/nanosec]\<close>; overwriting the slash by a null byte ends the seconds.\<close>

definition timespec_part :: "string \<Rightarrow> timespec" where
  "timespec_part p =
     (let sptr = strchr p (CHR ''/'') in
      \<lparr>tv_sec = atoi (case sptr of None \<Rightarrow> p | Some _ \<Rightarrow> before p (CHR ''/'')),
       tv_nsec = (case sptr of None \<Rightarrow> 0 | Some r \<Rightarrow> atoi (tl r))\<rparr>)"

definition itimerspecFromStr :: "string option \<Rightarrow> itimerspec option" where
  "itimerspecFromStr dup =
     (case dup of
        None \<Rightarrow> None
      | Some dupstr \<Rightarrow>
          (let cptr = strchr dupstr (CHR '':'');
               v = timespec_part (case cptr of None \<Rightarrow> dupstr | Some _ \<Rightarrow> before dupstr (CHR '':''))
           in case cptr of
                None \<Rightarrow> Some \<lparr>it_value = v, it_interval = \<lparr>tv_sec = 0, tv_nsec = 0\<rparr>\<rparr>
              | Some r \<Rightarrow> Some \<lparr>it_value = v, it_interval = timespec_part (tl r)\<rparr>))"

section \<open>The notation\<close>

text \<open>A time is seconds and perhaps nanoseconds; a setting is a value and perhaps an interval.\<close>

type_synonym time = "int \<times> int option"

definition time_text :: "time \<Rightarrow> string" where
  "time_text t = show_int (fst t) @ (case snd t of None \<Rightarrow> '''' | Some n \<Rightarrow> ''/'' @ show_int n)"

definition setting_text :: "time \<Rightarrow> time option \<Rightarrow> string" where
  "setting_text v i = time_text v @ (case i of None \<Rightarrow> '''' | Some t \<Rightarrow> '':'' @ time_text t)"

definition time_of :: "time \<Rightarrow> timespec" where
  "time_of t = \<lparr>tv_sec = fst t, tv_nsec = (case snd t of None \<Rightarrow> 0 | Some n \<Rightarrow> n)\<rparr>"

definition is_int :: "int \<Rightarrow> bool" where
  "is_int i \<longleftrightarrow> INT_MIN \<le> i \<and> i \<le> INT_MAX"

definition time_ok :: "time \<Rightarrow> bool" where
  "time_ok t \<longleftrightarrow> is_int (fst t) \<and> (case snd t of None \<Rightarrow> True | Some n \<Rightarrow> is_int n)"

lemma atoi_is_int: "is_int i \<Longrightarrow> atoi (show_int i) = i"
  by (simp add: is_int_def atoi_show_int)

lemma show_int_chars:
  assumes "c \<in> set (show_int i)"
  shows "c = CHR ''-'' \<or> is_digit_in 10 c"
  using assms show_nat_digits by (auto simp: show_int_def split: if_splits)

lemma separator_not_digit: "\<not> is_digit_in 10 (CHR ''/'')" "\<not> is_digit_in 10 (CHR '':'')"
  by code_simp+

lemma show_int_no_sep [simp]: "CHR ''/'' \<notin> set (show_int i)" "CHR '':'' \<notin> set (show_int i)"
  using show_int_chars [of _ i] separator_not_digit by force+

lemma time_text_no_colon [simp]: "CHR '':'' \<notin> set (time_text t)"
  by (auto simp: time_text_def split: option.splits)

lemma timespec_part_text:
  assumes "time_ok t"
  shows "timespec_part (time_text t) = time_of t"
proof (cases "snd t")
  case None
  then have "strchr (show_int (fst t)) (CHR ''/'') = None" by simp
  with None assms show ?thesis
    by (simp add: timespec_part_def time_text_def time_of_def time_ok_def atoi_is_int del: strchr_None)
next
  case (Some n)
  with assms show ?thesis
    by (simp add: timespec_part_def time_text_def time_of_def time_ok_def atoi_is_int)
qed

text \<open>
  Every setting in the notation of the comment, with or without nanoseconds and with or
  without an interval, is read as it was written, the parts left out being 0, as long as each
  number fits an \<open>int\<close>.
\<close>

theorem itimerspec_roundtrip:
  assumes "time_ok v" and "case i of None \<Rightarrow> True | Some t \<Rightarrow> time_ok t"
  shows "itimerspecFromStr (Some (setting_text v i)) =
    Some \<lparr>it_value = time_of v, it_interval = (case i of None \<Rightarrow> time_of (0, None) | Some t \<Rightarrow> time_of t)\<rparr>"
proof (cases i)
  case None
  have "strchr (time_text v) (CHR '':'') = None" by simp
  with None assms show ?thesis
    by (simp add: itimerspecFromStr_def setting_text_def timespec_part_text time_of_def del: strchr_None)
next
  case (Some t)
  with assms show ?thesis by (simp add: itimerspecFromStr_def setting_text_def timespec_part_text)
qed

theorem itimerspec_roundtrip_witness:
  "itimerspecFromStr (Some ''2/5:1'') =
    Some \<lparr>it_value = \<lparr>tv_sec = 2, tv_nsec = 5\<rparr>, it_interval = \<lparr>tv_sec = 1, tv_nsec = 0\<rparr>\<rparr>"
proof -
  have "setting_text (2, Some 5) (Some (1, None)) = ''2/5:1''" by code_simp
  moreover have "time_ok (2, Some 5)" "time_ok (1, None)" by (simp_all add: time_ok_def is_int_def INT_MIN_def INT_MAX_def)
  ultimately show ?thesis
    using itimerspec_roundtrip [of "(2, Some 5)" "Some (1, None)"] by (simp add: time_of_def)
qed

text \<open>A number that no \<open>int\<close> holds is not refused: the fields are \<open>long\<close>, but \<open>atoi\<close> is not.\<close>

lemma itimerspec_wraps:
  "itimerspecFromStr (Some ''4294967297'') =
    Some \<lparr>it_value = \<lparr>tv_sec = 1, tv_nsec = 0\<rparr>, it_interval = \<lparr>tv_sec = 0, tv_nsec = 0\<rparr>\<rparr>"
proof -
  have "show_int 4294967297 = ''4294967297''" by (simp add: show_int_def show_nat.simps digit_char_def char_of_def bit_0)
  then have "strtol ''4294967297'' 10 = (4294967297, [], False)"
    using strtol_show_int [of 4294967297 "[]"] by (simp add: LONG_MIN_def LONG_MAX_def)
  then have "atoi ''4294967297'' = 1" by (simp add: atoi_def cast_int_def)
  then show ?thesis by (simp add: itimerspecFromStr_def timespec_part_def)
qed

end
