(* ===== verification/Wait_Status.thy ===== *)
theory Wait_Status
  imports Prelude
begin

text \<open>
  \<open>src/tlpi-book/procexec/print_wait_status.c\<close>: what a wait status says of a child.  The \<open>W*\<close>
  macros of \<open><sys/wait.h>\<close> are modelled as the C library defines them; \<open>strsignal\<close>, whose text
  depends on the locale, is a parameter.
\<close>

definition WTERMSIG :: "int \<Rightarrow> int" where "WTERMSIG status = status AND 0x7f"
definition WEXITSTATUS :: "int \<Rightarrow> int" where "WEXITSTATUS status = drop_bit 8 (status AND 0xff00)"
definition WSTOPSIG :: "int \<Rightarrow> int" where "WSTOPSIG status = WEXITSTATUS status"
definition WIFEXITED :: "int \<Rightarrow> bool" where "WIFEXITED status \<longleftrightarrow> WTERMSIG status = 0"

text \<open>The sum is cast to \<open>signed char\<close>: 128 becomes -128.\<close>

definition WIFSIGNALED :: "int \<Rightarrow> bool" where
  "WIFSIGNALED status \<longleftrightarrow> drop_bit 1 (signed_take_bit 7 ((status AND 0x7f) + 1)) > 0"

definition WIFSTOPPED :: "int \<Rightarrow> bool" where "WIFSTOPPED status \<longleftrightarrow> status AND 0xff = 0x7f"
definition WIFCONTINUED :: "int \<Rightarrow> bool" where "WIFCONTINUED status \<longleftrightarrow> status = 0xffff"
definition WCOREDUMP :: "int \<Rightarrow> bool" where "WCOREDUMP status \<longleftrightarrow> status AND 0x80 \<noteq> 0"

lemmas wait_macros = WTERMSIG_def WEXITSTATUS_def WSTOPSIG_def WIFEXITED_def WIFSIGNALED_def WIFSTOPPED_def
  WIFCONTINUED_def WCOREDUMP_def

text \<open>The conversion \<open>%x\<close> of an \<open>unsigned int\<close>.\<close>

definition hex_digit :: "nat \<Rightarrow> char" where
  "hex_digit d = ''0123456789abcdef'' ! d"

fun show_hex :: "nat \<Rightarrow> string" where
  "show_hex n = (if n < 16 then [hex_digit n] else show_hex (n div 16) @ [hex_digit (n mod 16)])"

declare show_hex.simps [simp del]

definition printWaitStatus :: "(int \<Rightarrow> string) \<Rightarrow> string option \<Rightarrow> int \<Rightarrow> string" where
  "printWaitStatus strsignal msg status =
     (case msg of None \<Rightarrow> '''' | Some m \<Rightarrow> m) @
     (if WIFEXITED status then ''child exited, status='' @ show_int (WEXITSTATUS status) @ [nl]
      else if WIFSIGNALED status then
        ''child killed by signal '' @ show_int (WTERMSIG status) @ '' ('' @ strsignal (WTERMSIG status) @ '')'' @
        (if WCOREDUMP status then '' (core dumped)'' else '''') @ [nl]
      else if WIFSTOPPED status then
        ''child stopped by signal '' @ show_int (WSTOPSIG status) @ '' ('' @ strsignal (WSTOPSIG status) @ '')'' @ [nl]
      else if WIFCONTINUED status then ''child continued'' @ [nl]
      else ''what happened to this child? (status='' @ show_hex (nat (status mod 2 ^ 32)) @ '')'' @ [nl])"

section \<open>Changes of state of a child\<close>

text \<open>The four things \<open>waitpid\<close> reports, and the status words of Linux for them.\<close>

datatype change = DidExit int | Killed int bool | Stopped int | Continued

fun status_of :: "change \<Rightarrow> int" where
  "status_of (DidExit c) = c * 256"
| "status_of (Killed sg core) = sg + (if core then 128 else 0)"
| "status_of (Stopped sg) = sg * 256 + 127"
| "status_of Continued = 65535"

fun change_ok :: "change \<Rightarrow> bool" where
  "change_ok (DidExit c) = (0 \<le> c \<and> c < 256)"
| "change_ok (Killed sg core) = (0 < sg \<and> sg < 127)"
| "change_ok (Stopped sg) = (0 < sg \<and> sg < 256)"
| "change_ok Continued = True"

fun describe :: "(int \<Rightarrow> string) \<Rightarrow> change \<Rightarrow> string" where
  "describe strsignal (DidExit c) = ''child exited, status='' @ show_int c"
| "describe strsignal (Killed sg core) =
     ''child killed by signal '' @ show_int sg @ '' ('' @ strsignal sg @ '')'' @ (if core then '' (core dumped)'' else '''')"
| "describe strsignal (Stopped sg) = ''child stopped by signal '' @ show_int sg @ '' ('' @ strsignal sg @ '')''"
| "describe strsignal Continued = ''child continued''"

lemma and_masks: "x AND 0x7f = x mod 128" "x AND 0xff = x mod 256" for x :: int
  using take_bit_eq_mask [of 7 x] take_bit_eq_mask [of 8 x] by (simp_all add: take_bit_eq_mod mask_eq_exp_minus_1)

lemma wexitstatus_eq: "WEXITSTATUS status = status div 256 mod 256"
proof -
  have "drop_bit 8 (0xff00 :: int) = 0xff" by (simp add: drop_bit_eq_div)
  then show ?thesis unfolding WEXITSTATUS_def drop_bit_and by (simp add: and_masks drop_bit_eq_div)
qed

lemma and_0x80: "x AND 0x80 \<noteq> 0 \<longleftrightarrow> odd (x div 128)" for x :: int
  using and_exp_eq_0_iff_not_bit [of x 7] by (simp add: bit_iff_odd)

lemma schar_half: "0 \<le> v \<Longrightarrow> v < 128 \<Longrightarrow> drop_bit 1 (signed_take_bit 7 (v + 1)) > 0 \<longleftrightarrow> 0 < v \<and> v < 127" for v :: int
proof (cases "v = 127")
  case False
  assume "0 \<le> v" "v < 128"
  with False have "signed_take_bit 7 (v + 1) = v + 1" by (intro signed_take_bit_int_eq_self) auto
  then show ?thesis using False \<open>v < 128\<close> \<open>0 \<le> v\<close> by (auto simp: drop_bit_eq_div)
qed simp

lemma wifsignaled_eq: "WIFSIGNALED status \<longleftrightarrow> 0 < status mod 128 \<and> status mod 128 < 127"
  unfolding WIFSIGNALED_def and_masks by (rule schar_half) simp_all

lemma stop_mod: "(x * 256 + 127) mod 128 = (127 :: int)"
proof -
  have "x * 256 + 127 = 127 + (2 * x) * 128" by simp
  then show ?thesis by (simp only: mod_mult_self1) simp
qed

lemma core_bit: "0 < sg \<Longrightarrow> sg < 127 \<Longrightarrow> odd ((sg + (if core then 128 else 0)) div 128) = core" for sg :: int
  using int_div_pos_eq [of "sg + 128" 128 1 sg] by auto

lemma status_parts:
  "change_ok c \<Longrightarrow> status_of c mod 128 = (case c of DidExit _ \<Rightarrow> 0 | Killed sg _ \<Rightarrow> sg | _ \<Rightarrow> 127)"
  by (cases c) (auto simp: stop_mod)

text \<open>
  For every change of state a child can report, the line names that change: the exit status,
  the signal that killed or stopped the child with its text, whether there was a core dump.
  The branch marked as never happening is not taken.
\<close>

theorem printWaitStatus_describes:
  assumes "change_ok c"
  shows "printWaitStatus strsignal msg (status_of c) =
    (case msg of None \<Rightarrow> '''' | Some m \<Rightarrow> m) @ describe strsignal c @ [nl]"
proof (cases c)
  case (DidExit e)
  with assms show ?thesis
    by (simp add: printWaitStatus_def WIFEXITED_def WTERMSIG_def and_masks wexitstatus_eq)
next
  case (Killed sg core)
  with assms have "status_of c mod 128 = sg" "0 < sg" "sg < 127" by (auto simp: status_parts)
  moreover from Killed assms have "odd (status_of c div 128) = core" by (simp only: status_of.simps change_ok.simps core_bit)
  ultimately show ?thesis using Killed
    by (simp add: printWaitStatus_def WIFEXITED_def WTERMSIG_def WCOREDUMP_def and_masks and_0x80 wifsignaled_eq del: status_of.simps)
next
  case (Stopped sg)
  with assms have "status_of c mod 128 = 127" "status_of c mod 256 = 127" "status_of c div 256 mod 256 = sg"
    by (auto simp: stop_mod)
  with Stopped show ?thesis
    by (simp add: printWaitStatus_def WIFEXITED_def WTERMSIG_def WIFSTOPPED_def WSTOPSIG_def and_masks wifsignaled_eq
      wexitstatus_eq del: status_of.simps)
next
  case Continued
  then show ?thesis
    by (simp add: printWaitStatus_def WIFEXITED_def WTERMSIG_def WIFSTOPPED_def WIFCONTINUED_def and_masks wifsignaled_eq)
qed

theorem printWaitStatus_describes_witness:
  "printWaitStatus (\<lambda>_. ''Killed'') None 9 = ''child killed by signal 9 (Killed)'' @ [nl]"
proof -
  have "show_int 9 = ''9''" by code_simp
  then show ?thesis using printWaitStatus_describes [of "Killed 9 False" "\<lambda>_. ''Killed''" None] by simp
qed

end
