(* ===== verification/Unix_Sockets.thy ===== *)
theory Unix_Sockets
  imports Inet_Sockets
begin

text \<open>
  \<open>src/tlpi-book/sockets/unix_sockets.c\<close>: UNIX domain sockets by pathname.  The calls are those of
  \<open>netk\<close>, extended by reading \<open>errno\<close>, which the functions save around \<open>close\<close>; the locale
  \<open>unix_kernel\<close> extends \<open>descriptors\<close> accordingly.
\<close>

definition AF_UNIX :: int where "AF_UNIX = 1"
definition EINVAL :: int where "EINVAL = 22"
definition ENAMETOOLONG :: int where "ENAMETOOLONG = 36"
definition SUN_PATH_SIZE :: nat where "SUN_PATH_SIZE = 108"

record sockaddr_un =
  sun_family :: int
  sun_path :: string     \<comment> \<open>all bytes of the array\<close>

record 's unixk = "'s netk" +
  k_errno :: "'s \<Rightarrow> int"

text \<open>\<open>strncpy\<close> of \<open>n\<close> bytes into an array: the string, padded with null bytes.\<close>

definition strncpy :: "string \<Rightarrow> string \<Rightarrow> nat \<Rightarrow> string" where
  "strncpy dest src n = take n src @ replicate (n - length src) (CHR 0x00) @ drop n dest"

text \<open>The second component of the result is the structure; \<open>None\<close> stands for null pointers.\<close>

definition unixBuildAddress ::
    "('s, 'x) unixk_scheme \<Rightarrow> string option \<Rightarrow> sockaddr_un option \<Rightarrow> 's \<Rightarrow> (int \<times> sockaddr_un option) \<times> 's" where
  "unixBuildAddress K path addr s =
     (case (path, addr) of
        (Some p, Some a) \<Rightarrow>
          if length p \<ge> SUN_PATH_SIZE - 1 then ((-1, addr), k_set_errno K EINVAL s)
          else
            (let a = \<lparr>sun_family = 0, sun_path = replicate SUN_PATH_SIZE (CHR 0x00)\<rparr>;
                 a = a\<lparr>sun_family := AF_UNIX\<rparr>
             in if length p < SUN_PATH_SIZE
                then ((0, Some (a\<lparr>sun_path := strncpy (sun_path a) p (SUN_PATH_SIZE - 1)\<rparr>)), s)
                else ((-1, Some a), k_set_errno K ENAMETOOLONG s))
      | _ \<Rightarrow> ((-1, addr), k_set_errno K EINVAL s))"

text \<open>The bytes of the structure as they are passed to the kernel, and their number.\<close>

definition sockaddr_bytes :: "sockaddr_un \<Rightarrow> string" where
  "sockaddr_bytes a = [char_of (nat (sun_family a)), CHR 0x00] @ sun_path a"

definition sizeof_sockaddr_un :: nat where "sizeof_sockaddr_un = 2 + SUN_PATH_SIZE"

definition close_keep_errno :: "('s, 'x) unixk_scheme \<Rightarrow> int \<Rightarrow> 's \<Rightarrow> 's" where
  "close_keep_errno K sd s = (let savedErrno = k_errno K s in k_set_errno K savedErrno (snd (k_close K sd s)))"

text \<open>The structure on the stack is uninitialised: \<open>junk\<close>.\<close>

definition unixConnect :: "('s, 'x) unixk_scheme \<Rightarrow> sockaddr_un \<Rightarrow> string option \<Rightarrow> int \<Rightarrow> 's \<Rightarrow> int \<times> 's" where
  "unixConnect K junk path type s =
     (case unixBuildAddress K path (Some junk) s of
        ((r, addr), s) \<Rightarrow>
          if r = -1 then (-1, s)
          else
            (case k_socket K AF_UNIX type 0 s of
               (sd, s) \<Rightarrow>
                 if sd = -1 then (-1, s)
                 else
                   (case k_connect K sd (sockaddr_bytes (the addr)) sizeof_sockaddr_un s of
                      (ok, s) \<Rightarrow> if \<not> ok then (-1, close_keep_errno K sd s) else (sd, s))))"

definition unixPassiveSocket ::
    "('s, 'x) unixk_scheme \<Rightarrow> sockaddr_un \<Rightarrow> string option \<Rightarrow> int \<Rightarrow> bool \<Rightarrow> nat \<Rightarrow> 's \<Rightarrow> int \<times> 's" where
  "unixPassiveSocket K junk path type doListen backlog s =
     (case unixBuildAddress K path (Some junk) s of
        ((r, addr), s) \<Rightarrow>
          if r = -1 then (-1, s)
          else
            (case k_socket K AF_UNIX type 0 s of
               (sd, s) \<Rightarrow>
                 if sd = -1 then (-1, s)
                 else
                   (case k_bind K sd (sockaddr_bytes (the addr)) sizeof_sockaddr_un s of
                      (ok, s) \<Rightarrow>
                        if \<not> ok then (-1, close_keep_errno K sd s)
                        else if doListen then
                          (case k_listen K sd backlog s of
                             (ok, s) \<Rightarrow> if \<not> ok then (-1, close_keep_errno K sd s) else (sd, s))
                        else (sd, s))))"

definition unixListen :: "('s, 'x) unixk_scheme \<Rightarrow> sockaddr_un \<Rightarrow> string option \<Rightarrow> nat \<Rightarrow> 's \<Rightarrow> int \<times> 's" where
  "unixListen K junk path backlog s = unixPassiveSocket K junk path SOCK_STREAM True backlog s"

definition unixBind :: "('s, 'x) unixk_scheme \<Rightarrow> sockaddr_un \<Rightarrow> string option \<Rightarrow> int \<Rightarrow> 's \<Rightarrow> int \<times> 's" where
  "unixBind K junk path type s = unixPassiveSocket K junk path type False 0 s"

section \<open>Addresses\<close>

definition path_fits :: "string option \<Rightarrow> bool" where
  "path_fits path = (case path of None \<Rightarrow> False | Some p \<Rightarrow> length p < 107)"

text \<open>The bytes of a good address: the family, the path, and null bytes up to the end.\<close>

definition unix_address :: "string \<Rightarrow> string" where
  "unix_address p = [CHR 0x01, CHR 0x00] @ p @ replicate (108 - length p) (CHR 0x00)"

lemma nat_108: "length p < 107 \<Longrightarrow> replicate (108 - length p) c = c # replicate (107 - length p) c"
  by (simp add: Suc_diff_le flip: replicate_Suc)

lemma unixBuildAddress_result:
  "unixBuildAddress K path (Some a) s =
     (if path_fits path
      then ((0, Some \<lparr>sun_family = AF_UNIX, sun_path = the path @ replicate (108 - length (the path)) (CHR 0x00)\<rparr>), s)
      else ((-1, Some a), k_set_errno K EINVAL s))"
proof (cases path)
  case (Some p)
  have "strncpy (replicate 108 (CHR 0x00)) p 107 = p @ replicate (108 - length p) (CHR 0x00)" if "length p < 107"
    using that by (simp add: strncpy_def replicate_append_same nat_108)
  with Some show ?thesis by (simp add: unixBuildAddress_def path_fits_def SUN_PATH_SIZE_def Let_def)
qed (simp add: unixBuildAddress_def path_fits_def)

lemma sockaddr_bytes_address:
  "sockaddr_bytes \<lparr>sun_family = AF_UNIX, sun_path = p @ replicate (108 - length p) (CHR 0x00)\<rparr> = unix_address p"
proof -
  have "char_of (nat 1) = CHR 0x01" by (simp add: char_of_def bit_0)
  then show ?thesis by (simp add: sockaddr_bytes_def unix_address_def AF_UNIX_def)
qed

lemma unix_address_length: "length p < 107 \<Longrightarrow> length (unix_address p) = sizeof_sockaddr_un"
  by (simp add: unix_address_def sizeof_sockaddr_un_def SUN_PATH_SIZE_def)

text \<open>Read as a C string, the address of a path is the path.\<close>

lemma unix_address_path:
  assumes "length p < 107" "CHR 0x00 \<notin> set p"
  shows "before (drop 2 (unix_address p)) (CHR 0x00) = p"
proof -
  from assms show ?thesis by (simp add: unix_address_def nat_108)
qed

section \<open>Descriptors and errors\<close>

locale unix_kernel = descriptors K opened
  for K :: "('s, 'x) unixk_scheme" and opened :: "'s \<Rightarrow> int set" +
  assumes errno_set: "k_errno K (k_set_errno K e s) = e"
begin

lemma close_keep_errno_effect:
  assumes "one_more sd s s'"
  shows "opened (close_keep_errno K sd s') = opened s \<and> k_errno K (close_keep_errno K sd s') = k_errno K s'"
  using close_new [OF assms] by (simp add: close_keep_errno_def Let_def set_errno errno_set)

text \<open>The ways in which \<open>unixConnect\<close> ends.\<close>

lemma unixConnect_ends:
  assumes "unixConnect K junk path type s = (fd, s')"
  obtains (bad) "\<not> path_fits path" "fd = -1" "s' = k_set_errno K EINVAL s"
  | (no_socket) "path_fits path" "fd = -1" "k_socket K AF_UNIX type 0 s = (-1, s')" "opened s' = opened s"
  | (refused) sd s1 s2 where "path_fits path" "fd = -1" "k_socket K AF_UNIX type 0 s = (sd, s1)"
      "k_connect K sd (unix_address (the path)) sizeof_sockaddr_un s1 = (False, s2)"
      "opened s' = opened s" "k_errno K s' = k_errno K s2"
  | (connected) s1 where "path_fits path" "k_socket K AF_UNIX type 0 s = (fd, s1)"
      "k_connect K fd (unix_address (the path)) sizeof_sockaddr_un s1 = (True, s')" "one_more fd s s'"
proof (cases "path_fits path")
  case False
  with assms bad show ?thesis by (simp add: unixConnect_def unixBuildAddress_result)
next
  case True
  obtain sd s1 where sock: "k_socket K AF_UNIX type 0 s = (sd, s1)" by force
  obtain ok s2 where con: "k_connect K sd (unix_address (the path)) sizeof_sockaddr_un s1 = (ok, s2)" by force
  note eval = assms [unfolded unixConnect_def unixBuildAddress_result]
  from sock show ?thesis
  proof (cases rule: socket_cases)
    case 1
    with eval True sock no_socket show ?thesis by simp
  next
    case 2
    then have two: "one_more sd s s2" using connect [OF con] by (simp add: one_more_def)
    show ?thesis
    proof (cases ok)
      case False
      with eval True sock con 2 close_keep_errno_effect [OF two] refused show ?thesis
        by (auto simp: sockaddr_bytes_address)
    next
      case ok: True
      with eval True sock con 2 two connected show ?thesis by (auto simp: sockaddr_bytes_address)
    qed
  qed
qed

lemma unixPassiveSocket_ends:
  assumes "unixPassiveSocket K junk path type dl backlog s = (fd, s')"
  obtains (bad) "\<not> path_fits path" "fd = -1" "s' = k_set_errno K EINVAL s"
  | (no_socket) "path_fits path" "fd = -1" "k_socket K AF_UNIX type 0 s = (-1, s')" "opened s' = opened s"
  | (not_bound) sd s1 s2 where "path_fits path" "fd = -1" "k_socket K AF_UNIX type 0 s = (sd, s1)"
      "k_bind K sd (unix_address (the path)) sizeof_sockaddr_un s1 = (False, s2)"
      "opened s' = opened s" "k_errno K s' = k_errno K s2"
  | (not_listening) sd s1 s2 where "path_fits path" "fd = -1" "dl" "k_listen K sd backlog s1 = (False, s2)"
      "opened s' = opened s" "k_errno K s' = k_errno K s2"
  | (bound) s1 s2 where "path_fits path" "k_socket K AF_UNIX type 0 s = (fd, s1)"
      "k_bind K fd (unix_address (the path)) sizeof_sockaddr_un s1 = (True, s2)" "one_more fd s s'"
      "if dl then k_listen K fd backlog s2 = (True, s') else s' = s2"
proof (cases "path_fits path")
  case False
  with assms bad show ?thesis by (simp add: unixPassiveSocket_def unixBuildAddress_result)
next
  case True
  obtain sd s1 where sock: "k_socket K AF_UNIX type 0 s = (sd, s1)" by force
  obtain ok s2 where bd: "k_bind K sd (unix_address (the path)) sizeof_sockaddr_un s1 = (ok, s2)" by force
  obtain ok' s3 where ln: "k_listen K sd backlog s2 = (ok', s3)" by force
  note eval = assms [unfolded unixPassiveSocket_def unixBuildAddress_result]
  from sock show ?thesis
  proof (cases rule: socket_cases)
    case 1
    with eval True sock no_socket show ?thesis by simp
  next
    case 2
    then have two: "one_more sd s s2" using bind [OF bd] by (simp add: one_more_def)
    with listen [OF ln] have three: "one_more sd s s3" by (simp add: one_more_def)
    consider "\<not> ok" | "ok" "dl" "\<not> ok'" | "ok" "dl" "ok'" | "ok" "\<not> dl" by blast
    then show ?thesis
    proof cases
      case 1
      with eval True sock bd 2 close_keep_errno_effect [OF two] not_bound show ?thesis
        by (auto simp: sockaddr_bytes_address)
    next
      case c: 2
      with eval True sock bd ln 2 close_keep_errno_effect [OF three] not_listening [of sd s2 s3] show ?thesis
        by (auto simp: sockaddr_bytes_address)
    next
      case 3
      with eval True sock bd ln 2 have "fd = sd" "s' = s3" by (simp_all add: sockaddr_bytes_address)
      with 3 True sock bd ln three bound [of s1 s2] show ?thesis by simp
    next
      case 4
      with eval True sock bd 2 have "fd = sd" "s' = s2" by (simp_all add: sockaddr_bytes_address)
      with 4 True sock bd two bound [of s1 s2] show ?thesis by simp
    qed
  qed
qed

end

section \<open>A reference network\<close>

definition ref_unix :: "refnet unixk" where
  "ref_unix = netk.extend ref_net \<lparr>k_errno = rn_errno\<rparr>"

lemma ref_unix_fields [simp]:
  "k_getaddrinfo ref_unix = k_getaddrinfo ref_net" "k_socket ref_unix = k_socket ref_net"
  "k_connect ref_unix = k_connect ref_net" "k_reuseaddr ref_unix = k_reuseaddr ref_net"
  "k_bind ref_unix = k_bind ref_net" "k_listen ref_unix = k_listen ref_net" "k_close ref_unix = k_close ref_net"
  "k_set_errno ref_unix = k_set_errno ref_net" "k_errno ref_unix = rn_errno"
  by (simp_all add: ref_unix_def netk.defs)

interpretation runix: unix_kernel ref_unix rn_open
proof unfold_locales
  show "k_errno ref_unix (k_set_errno ref_unix e s) = e" for e s by (simp add: ref_net_def)
qed (simp_all add: rnet.getaddrinfo rnet.socket rnet.connect rnet.reuseaddr rnet.bind rnet.listen rnet.close rnet.set_errno)

section \<open>Properties\<close>

text \<open>\<open>grown\<close>: the descriptor is the only one by which the table has grown.  \<open>failed\<close>: -1 is returned,
  the table is as it was, and \<open>errno\<close> is what the failing call left: that of \<open>socket\<close>, or one of
  \<open>calls\<close>, each with the descriptor and the states before and after it.\<close>

definition grown :: "('s \<Rightarrow> int set) \<Rightarrow> 's \<Rightarrow> int \<Rightarrow> 's \<Rightarrow> bool" where
  "grown opened s fd s' \<longleftrightarrow> fd \<notin> opened s \<and> opened s' = insert fd (opened s)"

definition failed ::
    "('s, 'x) unixk_scheme \<Rightarrow> ('s \<Rightarrow> int set) \<Rightarrow> int \<Rightarrow> (int \<Rightarrow> 's \<Rightarrow> 's \<Rightarrow> bool) \<Rightarrow> 's \<Rightarrow> int \<Rightarrow> 's \<Rightarrow> bool" where
  "failed K opened type calls s fd s' \<longleftrightarrow> fd = -1 \<and> opened s' = opened s \<and>
     (k_socket K AF_UNIX type 0 s = (-1, s') \<or> (\<exists>sd t t'. calls sd t t' \<and> k_errno K s' = k_errno K t'))"

definition connects :: "('s, 'x) unixk_scheme \<Rightarrow> ('s \<Rightarrow> int set) \<Rightarrow> string \<Rightarrow> int \<Rightarrow> 's \<Rightarrow> int \<Rightarrow> 's \<Rightarrow> bool" where
  "connects K opened p type s fd s' \<longleftrightarrow>
     grown opened s fd s' \<and>
       (\<exists>t. k_socket K AF_UNIX type 0 s = (fd, t) \<and> k_connect K fd (unix_address p) 110 t = (True, s')) \<or>
     failed K opened type (\<lambda>sd t t'. k_connect K sd (unix_address p) 110 t = (False, t')) s fd s'"

definition binds ::
    "('s, 'x) unixk_scheme \<Rightarrow> ('s \<Rightarrow> int set) \<Rightarrow> string \<Rightarrow> int \<Rightarrow> nat option \<Rightarrow> 's \<Rightarrow> int \<Rightarrow> 's \<Rightarrow> bool" where
  "binds K opened p type backlog s fd s' \<longleftrightarrow>
     grown opened s fd s' \<and>
       (\<exists>t t'. k_socket K AF_UNIX type 0 s = (fd, t) \<and> k_bind K fd (unix_address p) 110 t = (True, t') \<and>
          (case backlog of None \<Rightarrow> s' = t' | Some n \<Rightarrow> k_listen K fd n t' = (True, s'))) \<or>
     failed K opened type (\<lambda>sd t t'. k_bind K sd (unix_address p) 110 t = (False, t') \<or>
       (\<exists>n. backlog = Some n \<and> k_listen K sd n t = (False, t'))) s fd s'"

lemma failedI:
  "fd = -1 \<Longrightarrow> opened s' = opened s \<Longrightarrow> calls sd t t' \<Longrightarrow> k_errno K s' = k_errno K t' \<Longrightarrow>
   failed K opened type calls s fd s'"
  unfolding failed_def by blast

lemma sizeof_110: "sizeof_sockaddr_un = 110"
  by (simp add: sizeof_sockaddr_un_def SUN_PATH_SIZE_def)

context unix_kernel
begin

lemma unixConnect_connects:
  assumes "unixConnect K junk (Some p) type s = (fd, s')"
  shows "if length p < 107 then connects K opened p type s fd s' else fd = -1 \<and> s' = k_set_errno K EINVAL s"
  using assms
  by (rule unixConnect_ends) (auto simp: path_fits_def one_more_def sizeof_110 connects_def grown_def failed_def)

lemma unixPassiveSocket_binds:
  assumes "unixPassiveSocket K junk (Some p) type dl backlog s = (fd, s')"
  shows "if length p < 107 then binds K opened p type (if dl then Some backlog else None) s fd s'
     else fd = -1 \<and> s' = k_set_errno K EINVAL s"
  using assms
proof (cases rule: unixPassiveSocket_ends)
  case (not_bound sd t t')
  then show ?thesis by (simp add: path_fits_def sizeof_110 binds_def failedI [where sd = sd and t = t and t' = t'])
next
  case (not_listening sd t t')
  then show ?thesis by (simp add: path_fits_def binds_def failedI [where sd = sd and t = t and t' = t'])
qed (auto simp: path_fits_def one_more_def sizeof_110 binds_def grown_def failed_def)

end

text \<open>
  C35. The functions on UNIX domain sockets lose no descriptor on any path, also when \<open>listen\<close>
  fails: they return the one new descriptor, connected or bound to exactly the path asked for,
  or -1 with the table of descriptors as it was.  A path is refused with \<open>EINVAL\<close>, before any
  call, exactly when it has 107 bytes or more, and otherwise \<open>errno\<close> after a failure is
  what the call that failed left, whatever \<open>close\<close> does to it.
\<close>

theorem unix_sockets_correct:
  assumes "unix_kernel K opened"
    and "unixConnect K junk (Some p) type s = (fd1, s1)"
    and "unixListen K junk (Some p) backlog s = (fd2, s2)"
    and "unixBind K junk (Some p) type s = (fd3, s3)"
  shows "if length p < 107 then
       connects K opened p type s fd1 s1 \<and> binds K opened p SOCK_STREAM (Some backlog) s fd2 s2 \<and>
       binds K opened p type None s fd3 s3
     else fd1 = -1 \<and> s1 = k_set_errno K EINVAL s \<and> fd2 = -1 \<and> s2 = k_set_errno K EINVAL s \<and>
       fd3 = -1 \<and> s3 = k_set_errno K EINVAL s"
  using unix_kernel.unixConnect_connects [OF assms(1,2)]
    unix_kernel.unixPassiveSocket_binds [OF assms(1) assms(3) [unfolded unixListen_def]]
    unix_kernel.unixPassiveSocket_binds [OF assms(1) assms(4) [unfolded unixBind_def]]
  by (simp split: if_splits)

definition no_listen :: refnet where
  "no_listen = \<lparr>rn_addrs = [], rn_up = [unix_address ''/tmp/s''], rn_free = [unix_address ''/tmp/s''], rn_listen = False,
     rn_next = 3, rn_open = {0, 1, 2}, rn_errno = 95\<rparr>"

text \<open>One socket connects; another, which cannot listen, is closed again, and \<open>errno\<close> kept.\<close>

theorem unix_sockets_correct_witness:
  "connects ref_unix rn_open ''/tmp/s'' SOCK_STREAM no_listen 3 (no_listen\<lparr>rn_next := 4, rn_open := {0, 1, 2, 3}\<rparr>) \<and>
   binds ref_unix rn_open ''/tmp/s'' SOCK_STREAM (Some 5) no_listen (-1) (no_listen\<lparr>rn_next := 4\<rparr>)"
proof -
  let ?junk = "\<lparr>sun_family = 7, sun_path = []\<rparr>"
  note eval = unixConnect_def unixListen_def unixBind_def unixPassiveSocket_def unixBuildAddress_result path_fits_def
    sockaddr_bytes_address close_keep_errno_def Let_def
  have c: "unixConnect ref_unix ?junk (Some ''/tmp/s'') SOCK_STREAM no_listen =
      (3, no_listen\<lparr>rn_next := 4, rn_open := {0, 1, 2, 3}\<rparr>)"
    and l: "unixListen ref_unix ?junk (Some ''/tmp/s'') 5 no_listen = (-1, no_listen\<lparr>rn_next := 4\<rparr>)"
    and b: "unixBind ref_unix ?junk (Some ''/tmp/s'') SOCK_STREAM no_listen =
      (3, no_listen\<lparr>rn_next := 4, rn_open := {0, 1, 2, 3}\<rparr>)"
    by (auto simp: eval ref_net_def no_listen_def AF_UNIX_def simp flip: sockaddr_bytes_address)
  from unix_sockets_correct [OF runix.unix_kernel_axioms c l b] show ?thesis by simp
qed

text \<open>The structure has room for a path of 107 bytes, which is refused all the same; the branch
  that reports \<open>ENAMETOOLONG\<close> is never taken.\<close>

lemma unixBuildAddress_never_ENAMETOOLONG:
  "unixBuildAddress K path addr s = ((r, a), s') \<Longrightarrow> r = 0 \<and> s' = s \<or> r = -1 \<and> s' = k_set_errno K EINVAL s"
  by (cases addr) (auto simp: unixBuildAddress_result split: if_splits, auto simp: unixBuildAddress_def split: option.splits)

lemma path_of_107_refused: "length p = 107 \<Longrightarrow> unixBuildAddress K (Some p) (Some a) s = ((-1, Some a), k_set_errno K EINVAL s)"
  by (simp add: unixBuildAddress_result path_fits_def)

end
