(* ===== verification/Pty.thy ===== *)
theory Pty
  imports Tty_Functions
begin

text \<open>
  \<open>src/tlpi-book/pty/pty_master_open.c\<close> and \<open>pty_fork.c\<close>: a child process on a pseudoterminal.  The
  calls are the record \<open>ptyk\<close>; the locale \<open>pty_kernel\<close> is what they do to the table of
  descriptors, the session and the controlling terminal of the calling process.
\<close>

section \<open>The functions\<close>

record winsize =
  ws_row :: "16 word"
  ws_col :: "16 word"

text \<open>A descriptor of -1 or the result \<open>False\<close> is a failed call.  \<open>p_fork\<close> returns what \<open>fork\<close> returns,
  and the state of the process that goes on.\<close>

record 's ptyk =
  p_openpt :: "'s \<Rightarrow> int \<times> 's"                      \<comment> \<open>with \<open>O_RDWR | O_NOCTTY\<close>\<close>
  p_grantpt :: "int \<Rightarrow> 's \<Rightarrow> bool \<times> 's"
  p_unlockpt :: "int \<Rightarrow> 's \<Rightarrow> bool \<times> 's"
  p_ptsname :: "int \<Rightarrow> 's \<Rightarrow> string option \<times> 's"
  p_close :: "int \<Rightarrow> 's \<Rightarrow> 's"
  p_errno :: "'s \<Rightarrow> int"
  p_set_errno :: "int \<Rightarrow> 's \<Rightarrow> 's"
  p_fork :: "'s \<Rightarrow> int \<times> 's"
  p_setsid :: "'s \<Rightarrow> bool \<times> 's"
  p_open :: "string \<Rightarrow> 's \<Rightarrow> int \<times> 's"               \<comment> \<open>with \<open>O_RDWR\<close>\<close>
  p_sctty :: "int \<Rightarrow> 's \<Rightarrow> bool \<times> 's"                \<comment> \<open>\<open>ioctl\<close> with \<open>TIOCSCTTY\<close>\<close>
  p_setattr :: "int \<Rightarrow> termios \<Rightarrow> 's \<Rightarrow> bool \<times> 's"
  p_setwinsz :: "int \<Rightarrow> winsize \<Rightarrow> 's \<Rightarrow> bool \<times> 's"
  p_dup2 :: "int \<Rightarrow> int \<Rightarrow> 's \<Rightarrow> int \<times> 's"

definition EOVERFLOW :: int where "EOVERFLOW = 75"
definition MAX_SNAME :: nat where "MAX_SNAME = 1000"

definition close_saving_errno :: "'s ptyk \<Rightarrow> int \<Rightarrow> 's \<Rightarrow> 's" where
  "close_saving_errno K fd s = (let savedErrno = p_errno K s in p_set_errno K savedErrno (p_close K fd s))"

text \<open>The second component is the name stored in the buffer of \<open>snLen\<close> bytes, if any.\<close>

definition ptyMasterOpen :: "'s ptyk \<Rightarrow> nat \<Rightarrow> 's \<Rightarrow> (int \<times> string option) \<times> 's" where
  "ptyMasterOpen K snLen s =
     (case p_openpt K s of (masterFd, s) \<Rightarrow>
        if masterFd = -1 then ((-1, None), s)
        else
          (case p_grantpt K masterFd s of (ok, s) \<Rightarrow>
             if \<not> ok then ((-1, None), close_saving_errno K masterFd s)
             else
               (case p_unlockpt K masterFd s of (ok, s) \<Rightarrow>
                  if \<not> ok then ((-1, None), close_saving_errno K masterFd s)
                  else
                    (case p_ptsname K masterFd s of
                       (None, s) \<Rightarrow> ((-1, None), close_saving_errno K masterFd s)
                     | (Some p, s) \<Rightarrow>
                         if length p < snLen then ((masterFd, Some p), s)
                         else ((-1, None), p_set_errno K EOVERFLOW (p_close K masterFd s))))))"

text \<open>A call whose failure ends the child through \<open>err_exit\<close>.\<close>

definition must :: "bool \<times> 's \<Rightarrow> ('s \<Rightarrow> ('a, 's) outcome) \<Rightarrow> ('a, 's) outcome" where
  "must r k = (case r of (ok, s) \<Rightarrow> if ok then k s else Exited 1 s)"

definition dup_to :: "'s ptyk \<Rightarrow> int \<Rightarrow> int \<Rightarrow> 's \<Rightarrow> bool \<times> 's" where
  "dup_to K slaveFd fd s = (case p_dup2 K slaveFd fd s of (r, s) \<Rightarrow> (r = fd, s))"

definition pty_child :: "'s ptyk \<Rightarrow> string \<Rightarrow> termios option \<Rightarrow> winsize option \<Rightarrow> int \<Rightarrow> 's \<Rightarrow> (unit, 's) outcome" where
  "pty_child K slname slaveTermios slaveWS mfd s =
     must (p_setsid K s) (\<lambda>s.
       case p_open K slname (p_close K mfd s) of (slaveFd, s) \<Rightarrow>
         must (slaveFd \<noteq> -1, s) (\<lambda>s.
         must (p_sctty K slaveFd s) (\<lambda>s.
         must (case slaveTermios of None \<Rightarrow> (True, s) | Some t \<Rightarrow> p_setattr K slaveFd t s) (\<lambda>s.
         must (case slaveWS of None \<Rightarrow> (True, s) | Some w \<Rightarrow> p_setwinsz K slaveFd w s) (\<lambda>s.
         must (dup_to K slaveFd 0 s) (\<lambda>s.
         must (dup_to K slaveFd 1 s) (\<lambda>s.
         must (dup_to K slaveFd 2 s) (\<lambda>s.
         Ret () (if slaveFd > 2 then p_close K slaveFd s else s)))))))))"

text \<open>The result, what is stored at \<open>masterFd\<close>, and the name stored at \<open>slaveName\<close>, which has room for
  \<open>snLen\<close> bytes and is a null pointer for \<open>None\<close>.\<close>

definition ptyFork ::
    "'s ptyk \<Rightarrow> nat option \<Rightarrow> termios option \<Rightarrow> winsize option \<Rightarrow> 's \<Rightarrow> (int \<times> int option \<times> string option, 's) outcome" where
  "ptyFork K snLen slaveTermios slaveWS s =
     (case ptyMasterOpen K MAX_SNAME s of ((mfd, slname), s) \<Rightarrow>
        if mfd = -1 then Ret (-1, None, None) s
        else if (case snLen of None \<Rightarrow> False | Some n \<Rightarrow> length (the slname) \<ge> n)
        then Ret (-1, None, None) (p_set_errno K EOVERFLOW (p_close K mfd s))
        else
          (let slaveName = (case snLen of None \<Rightarrow> None | Some n \<Rightarrow> slname) in
           case p_fork K s of (childPid, s) \<Rightarrow>
             if childPid = -1 then Ret (-1, None, slaveName) (close_saving_errno K mfd s)
             else if childPid \<noteq> 0 then Ret (childPid, Some mfd, slaveName) s
             else andThen (pty_child K (the slname) slaveTermios slaveWS mfd s) (\<lambda>_ s. Ret (0, None, slaveName) s)))"

lemma must_exits: "(\<And>s. case k s of Ret v t \<Rightarrow> True | Exited n t \<Rightarrow> n = 1 | _ \<Rightarrow> False) \<Longrightarrow>
    case must r k of Ret v t \<Rightarrow> True | Exited n t \<Rightarrow> n = 1 | _ \<Rightarrow> False"
  by (cases r) (simp add: must_def)

lemma pty_child_exits:
  "case pty_child K name tio ws mfd s of Ret v t \<Rightarrow> True | Exited n t \<Rightarrow> n = 1 | _ \<Rightarrow> False"
  unfolding pty_child_def by (intro must_exits) (auto intro!: must_exits split: prod.split)

text \<open>\<open>e\<close> is what a failing call before the child left in \<open>errno\<close>.\<close>

definition pty_failure :: "'s ptyk \<Rightarrow> int \<Rightarrow> bool" where
  "pty_failure K e \<longleftrightarrow> (\<exists>t t'. p_errno K t' = e \<and>
     (p_openpt K t = (-1, t') \<or> p_fork K t = (-1, t') \<or>
      (\<exists>fd. p_grantpt K fd t = (False, t') \<or> p_unlockpt K fd t = (False, t') \<or> p_ptsname K fd t = (None, t'))))"

lemma pty_failureI:
  "p_openpt K t = (-1, t') \<Longrightarrow> pty_failure K (p_errno K t')" "p_fork K t = (-1, t') \<Longrightarrow> pty_failure K (p_errno K t')"
  "p_grantpt K fd t = (False, t') \<Longrightarrow> pty_failure K (p_errno K t')"
  "p_unlockpt K fd t = (False, t') \<Longrightarrow> pty_failure K (p_errno K t')"
  "p_ptsname K fd t = (None, t') \<Longrightarrow> pty_failure K (p_errno K t')"
  unfolding pty_failure_def by blast+

section \<open>Processes with descriptors\<close>

text \<open>The table \<open>fds\<close> of descriptors has grown by \<open>fd\<close> alone.\<close>

definition gained :: "('s \<Rightarrow> int \<rightharpoonup> 'f) \<Rightarrow> int \<Rightarrow> 's \<Rightarrow> 's \<Rightarrow> bool" where
  "gained fds fd s s' \<longleftrightarrow> 0 \<le> fd \<and> fd \<notin> dom (fds s) \<and> (\<exists>m. fds s' = (fds s)(fd \<mapsto> m))"

text \<open>What a return of \<open>ptyFork\<close> means: failure, the parent, the child.\<close>

definition forked ::
    "'s ptyk \<Rightarrow> ('s \<Rightarrow> int \<rightharpoonup> 'f) \<Rightarrow> ('s \<Rightarrow> bool) \<Rightarrow> ('s \<Rightarrow> 'f option) \<Rightarrow> (string \<Rightarrow> 'f) \<Rightarrow> nat option \<Rightarrow> 's \<Rightarrow> int \<Rightarrow> int option \<Rightarrow> string option \<Rightarrow> 's \<Rightarrow> bool" where
  "forked K fds leader ctty tty snLen s pid mfd name s' \<longleftrightarrow>
     (if pid = -1 then mfd = None \<and> fds s' = fds s \<and> (pty_failure K (p_errno K s') \<or> p_errno K s' = EOVERFLOW)
      else (case snLen of None \<Rightarrow> name = None | Some n \<Rightarrow> \<exists>p. name = Some p \<and> length p < n) \<and>
        (if pid \<noteq> 0 then \<exists>fd. mfd = Some fd \<and> gained fds fd s s'
         else mfd = None \<and> leader s' \<and>
           (\<exists>p. (snLen \<noteq> None \<longrightarrow> name = Some p) \<and> ctty s' = Some (tty p) \<and>
              fds s' = (fds s)(0 \<mapsto> tty p, 1 \<mapsto> tty p, 2 \<mapsto> tty p))))"

locale pty_kernel =
  fixes K :: "'s ptyk" and fds :: "'s \<Rightarrow> int \<rightharpoonup> 'f" and leader :: "'s \<Rightarrow> bool" and ctty :: "'s \<Rightarrow> 'f option"
    and tty :: "string \<Rightarrow> 'f"
  assumes openpt: "p_openpt K s = (fd, s') \<Longrightarrow>
      fd = -1 \<and> fds s' = fds s \<or> 0 \<le> fd \<and> fd \<notin> dom (fds s) \<and> (\<exists>m. fds s' = (fds s)(fd \<mapsto> m))"
    and grantpt: "p_grantpt K fd s = (ok, s') \<Longrightarrow> fds s' = fds s"
    and unlockpt: "p_unlockpt K fd s = (ok, s') \<Longrightarrow> fds s' = fds s"
    and ptsname: "p_ptsname K fd s = (nm, s') \<Longrightarrow> fds s' = fds s"
    and close: "fds (p_close K fd s) = (fds s)(fd := None)"
      "leader (p_close K fd s) = leader s" "ctty (p_close K fd s) = ctty s"
    and set_errno: "fds (p_set_errno K e s) = fds s" "p_errno K (p_set_errno K e s) = e"
    and fork: "p_fork K s = (pid, s') \<Longrightarrow> fds s' = fds s"
    and setsid: "p_setsid K s = (ok, s') \<Longrightarrow> fds s' = fds s \<and> (ok \<longrightarrow> leader s')"
    and opens: "p_open K name s = (fd, s') \<Longrightarrow> leader s' = leader s \<and>
      (fd = -1 \<and> fds s' = fds s \<or> 0 \<le> fd \<and> fd \<notin> dom (fds s) \<and> fds s' = (fds s)(fd \<mapsto> tty name))"
    and sctty: "p_sctty K fd s = (ok, s') \<Longrightarrow> fds s' = fds s \<and> leader s' = leader s \<and> (ok \<longrightarrow> ctty s' = fds s fd)"
    and setattr: "p_setattr K fd t s = (ok, s') \<Longrightarrow> fds s' = fds s \<and> leader s' = leader s \<and> ctty s' = ctty s"
    and setwinsz: "p_setwinsz K fd w s = (ok, s') \<Longrightarrow> fds s' = fds s \<and> leader s' = leader s \<and> ctty s' = ctty s"
    and dup2: "p_dup2 K old new s = (r, s') \<Longrightarrow> leader s' = leader s \<and> ctty s' = ctty s \<and>
      (r = -1 \<and> fds s' = fds s \<or> r = new \<and> old \<in> dom (fds s) \<and> fds s' = (fds s)(new := fds s old))"
begin

lemma gained_close: "gained fds fd s s' \<Longrightarrow> fds (p_close K fd s') = fds s"
  by (auto simp: gained_def close)

lemma gained_same: "gained fds fd s s' \<Longrightarrow> fds s'' = fds s' \<Longrightarrow> gained fds fd s s''"
  by (simp add: gained_def)

lemma close_saving_errno_gained:
  "gained fds fd s s' \<Longrightarrow> fds (close_saving_errno K fd s') = fds s \<and> p_errno K (close_saving_errno K fd s') = p_errno K s'"
  by (simp add: close_saving_errno_def Let_def set_errno gained_close)

lemma ptyMasterOpen_fds:
  assumes "ptyMasterOpen K n s = ((fd, name), s')"
  shows "fd = -1 \<and> fds s' = fds s \<and> (pty_failure K (p_errno K s') \<or> p_errno K s' = EOVERFLOW) \<or>
    fd \<noteq> -1 \<and> gained fds fd s s' \<and> (\<exists>p. name = Some p \<and> length p < n)"
proof -
  obtain m s1 where a: "p_openpt K s = (m, s1)" by force
  obtain ok2 s2 where b: "p_grantpt K m s1 = (ok2, s2)" by force
  obtain ok3 s3 where c: "p_unlockpt K m s2 = (ok3, s3)" by force
  obtain nm s4 where d: "p_ptsname K m s3 = (nm, s4)" by force
  show ?thesis
  proof (cases "m = -1")
    case True
    with a have "pty_failure K (p_errno K s1)" by (simp add: pty_failureI)
    with True assms a openpt [OF a] show ?thesis by (simp add: ptyMasterOpen_def)
  next
    case False
    with openpt [OF a] have g1: "gained fds m s s1" by (simp add: gained_def)
    note g2 = gained_same [OF g1 grantpt [OF b]]
    note g3 = gained_same [OF g2 unlockpt [OF c]]
    note g4 = gained_same [OF g3 ptsname [OF d]]
    have "\<not> ok2 \<longrightarrow> pty_failure K (p_errno K s2)" "\<not> ok3 \<longrightarrow> pty_failure K (p_errno K s3)"
      "nm = None \<longrightarrow> pty_failure K (p_errno K s4)"
      using b c d by (auto intro: pty_failureI)
    with False assms a b c d show ?thesis
      using close_saving_errno_gained [OF g2] close_saving_errno_gained [OF g3] close_saving_errno_gained [OF g4]
        g4 gained_close [OF g4]
      by (auto simp: ptyMasterOpen_def set_errno split: if_splits option.splits)
  qed
qed

lemma dup_to_fds:
  assumes "dup_to K old fd s = (True, s')" "0 \<le> fd"
  shows "old \<in> dom (fds s)" "fds s' = (fds s)(fd := fds s old)" "leader s' = leader s" "ctty s' = ctty s"
  using dup2 [of old fd s fd s'] assms by (auto simp: dup_to_def split: prod.splits)

lemma must_Ret: "must r k = Ret v t \<longleftrightarrow> (\<exists>s. r = (True, s) \<and> k s = Ret v t)"
  by (cases r) (auto simp: must_def)

text \<open>The child that returns has the slave as its three standard descriptors and as its terminal.\<close>

lemma pty_child_fds:
  assumes "pty_child K name tio ws mfd s = Ret () s'"
  shows "fds s' = ((fds s)(mfd := None))(0 \<mapsto> tty name, 1 \<mapsto> tty name, 2 \<mapsto> tty name) \<and>
    leader s' \<and> ctty s' = Some (tty name)"
proof -
  obtain s1 where a: "p_setsid K s = (True, s1)"
    using assms unfolding pty_child_def must_Ret by blast
  obtain fd s2 where b: "p_open K name (p_close K mfd s1) = (fd, s2)" by force
  have fd: "fd \<noteq> -1"
    and rest: "must (p_sctty K fd s2) (\<lambda>s.
         must (case tio of None \<Rightarrow> (True, s) | Some t \<Rightarrow> p_setattr K fd t s) (\<lambda>s.
         must (case ws of None \<Rightarrow> (True, s) | Some w \<Rightarrow> p_setwinsz K fd w s) (\<lambda>s.
         must (dup_to K fd 0 s) (\<lambda>s. must (dup_to K fd 1 s) (\<lambda>s. must (dup_to K fd 2 s) (\<lambda>s.
         Ret () (if fd > 2 then p_close K fd s else s))))))) = Ret () s'"
    using assms by (simp_all add: pty_child_def must_def a b split: if_splits)
  obtain s3 s4 s5 where c: "p_sctty K fd s2 = (True, s3)"
    and d: "(case tio of None \<Rightarrow> (True, s3) | Some t \<Rightarrow> p_setattr K fd t s3) = (True, s4)"
    and e: "(case ws of None \<Rightarrow> (True, s4) | Some w \<Rightarrow> p_setwinsz K fd w s4) = (True, s5)"
    and rest2: "must (dup_to K fd 0 s5) (\<lambda>s. must (dup_to K fd 1 s) (\<lambda>s. must (dup_to K fd 2 s) (\<lambda>s.
         Ret () (if fd > 2 then p_close K fd s else s)))) = Ret () s'"
    using rest unfolding must_Ret by blast
  obtain s6 s7 s8 where f: "dup_to K fd 0 s5 = (True, s6)" "dup_to K fd 1 s6 = (True, s7)" "dup_to K fd 2 s7 = (True, s8)"
    and s': "s' = (if fd > 2 then p_close K fd s8 else s8)"
    using rest2 by (auto simp: must_Ret)
  let ?base = "(fds s)(mfd := None)"
  have s2: "fds s2 = ?base(fd \<mapsto> tty name)" "leader s2" "0 \<le> fd" "fd \<notin> dom ?base"
    using setsid [OF a] opens [OF b] fd by (auto simp: close)
  have "fds s3 = fds s2" "leader s3" "ctty s3 = Some (tty name)"
    using sctty [OF c] s2 by auto
  moreover have "fds s4 = fds s3" "leader s4 = leader s3" "ctty s4 = ctty s3"
    using d setattr [of fd _ s3 True s4] by (auto split: option.splits)
  moreover have "fds s5 = fds s4" "leader s5 = leader s4" "ctty s5 = ctty s4"
    using e setwinsz [of fd _ s4 True s5] by (auto split: option.splits)
  ultimately have s5: "fds s5 = ?base(fd \<mapsto> tty name)" "leader s5" "ctty s5 = Some (tty name)" using s2 by auto
  note u = dup_to_fds [OF f(1)] dup_to_fds [OF f(2)] dup_to_fds [OF f(3)]
  have s8: "fds s8 = ?base(fd \<mapsto> tty name, 0 \<mapsto> tty name, 1 \<mapsto> tty name, 2 \<mapsto> tty name)" "leader s8" "ctty s8 = Some (tty name)"
    using u s5 by auto
  show ?thesis
  proof (cases "fd > 2")
    case True
    have "?base fd = None" using s2(4) by auto
    with True s8 show ?thesis by (auto simp: s' close fun_eq_iff)
  next
    case False
    with s2(3) have "fd \<in> {0, 1, 2}" by auto
    with False s8 show ?thesis by (auto simp: s' fun_eq_iff)
  qed
qed

lemma ptyFork_forked:
  "case ptyFork K snLen tio ws s of
     Ret (pid, mfd, name) s' \<Rightarrow> forked K fds leader ctty tty snLen s pid mfd name s'
   | Exited n s' \<Rightarrow> n = 1 \<and> (\<exists>t. fst (p_fork K t) = 0)
   | _ \<Rightarrow> False"
proof -
  obtain m slname s1 where a: "ptyMasterOpen K MAX_SNAME s = ((m, slname), s1)" by (metis prod.exhaust)
  note open_fds = ptyMasterOpen_fds [OF a]
  obtain pid s2 where f: "p_fork K s1 = (pid, s2)" by force
  let ?short = "case snLen of None \<Rightarrow> False | Some n \<Rightarrow> length (the slname) \<ge> n"
  consider (none) "m = -1" | (short) "m \<noteq> -1" ?short | (fine) "m \<noteq> -1" "\<not> ?short" by blast
  then show ?thesis
  proof cases
    case none
    with a open_fds show ?thesis by (simp add: ptyFork_def forked_def)
  next
    case short
    with open_fds have "gained fds m s s1" by blast
    with a short show ?thesis by (simp add: ptyFork_def forked_def set_errno gained_close)
  next
    case fine
    with open_fds obtain p where p: "gained fds m s s1" "slname = Some p" by blast
    then have g: "gained fds m s s2" using gained_same fork [OF f] by blast
    let ?name = "case snLen of None \<Rightarrow> None | Some n \<Rightarrow> slname"
    have name: "case snLen of None \<Rightarrow> ?name = None | Some n \<Rightarrow> \<exists>p. ?name = Some p \<and> length p < n"
      using fine p by (auto split: option.splits)
    consider "pid = -1" | "pid \<noteq> -1" "pid \<noteq> 0" | "pid = 0" by blast
    then show ?thesis
    proof cases
      case 1
      with f have "pty_failure K (p_errno K s2)" by (simp add: pty_failureI)
      with 1 a f fine close_saving_errno_gained [OF g] show ?thesis by (simp add: ptyFork_def forked_def)
    next
      case 2
      with a f fine name g show ?thesis by (simp add: ptyFork_def forked_def)
    next
      case 3
      have e: "ptyFork K snLen tio ws s = andThen (pty_child K (the slname) tio ws m s2) (\<lambda>_ s. Ret (0, None, ?name) s)"
        using a f fine 3 by (simp add: ptyFork_def)
      have sl: "the slname = p" using p by simp
      have "\<exists>t. fst (p_fork K t) = 0" using f 3 by (intro exI [of _ s1]) simp
      moreover have "forked K fds leader ctty tty snLen s 0 None ?name s'" if c: "pty_child K p tio ws m s2 = Ret () s'" for s'
      proof -
        have "(fds s2)(m := None) = fds s" using g by (auto simp: gained_def)
        with pty_child_fds [OF c] name p(2) show ?thesis
          by (auto simp: forked_def split: option.splits intro!: exI [of _ p])
      qed
      ultimately show ?thesis using pty_child_exits [of K p tio ws m s2] unfolding e sl
        by (cases "pty_child K p tio ws m s2") auto
    qed
  qed
qed

end

section \<open>A reference process\<close>

text \<open>Descriptors are handed out upwards from \<open>rp_next\<close>; \<open>rp_child\<close> is what \<open>fork\<close> returns.\<close>

record refproc =
  rp_fds :: "int \<rightharpoonup> string"
  rp_next :: int
  rp_leader :: bool
  rp_ctty :: "string option"
  rp_errno :: int
  rp_child :: int

definition new_fd :: "string \<Rightarrow> 'x refproc_scheme \<Rightarrow> int \<times> 'x refproc_scheme" where
  "new_fd f s = (if rp_next s < 0 \<or> rp_fds s (rp_next s) \<noteq> None then (-1, s)
     else (rp_next s, s\<lparr>rp_fds := (rp_fds s)(rp_next s \<mapsto> f), rp_next := rp_next s + 1\<rparr>))"

definition ref_pty :: "'x refproc_scheme ptyk" where
  "ref_pty = \<lparr>p_openpt = new_fd ''/dev/ptmx'', p_grantpt = (\<lambda>fd s. (True, s)), p_unlockpt = (\<lambda>fd s. (True, s)),
     p_ptsname = (\<lambda>fd s. (Some ''/dev/pts/7'', s)), p_close = (\<lambda>fd s. s\<lparr>rp_fds := (rp_fds s)(fd := None)\<rparr>),
     p_errno = rp_errno, p_set_errno = (\<lambda>e s. s\<lparr>rp_errno := e\<rparr>), p_fork = (\<lambda>s. (rp_child s, s)),
     p_setsid = (\<lambda>s. (True, s\<lparr>rp_leader := True, rp_ctty := None\<rparr>)), p_open = (\<lambda>n s. new_fd n s),
     p_sctty = (\<lambda>fd s. (True, s\<lparr>rp_ctty := rp_fds s fd\<rparr>)), p_setattr = (\<lambda>fd t s. (True, s)),
     p_setwinsz = (\<lambda>fd w s. (True, s)),
     p_dup2 = (\<lambda>old new s. if rp_fds s old = None then (-1, s) else (new, s\<lparr>rp_fds := (rp_fds s)(new := rp_fds s old)\<rparr>))\<rparr>"

interpretation rpty: pty_kernel ref_pty rp_fds rp_leader rp_ctty id
  by unfold_locales (auto simp: ref_pty_def new_fd_def split: if_splits)

section \<open>Property\<close>

text \<open>
  \<open>ptyFork\<close> either fails, with the table of descriptors as it was and \<open>errno\<close> of the call
  that failed; or returns in the parent with the master as the only new descriptor; or returns
  in the child, which leads a session of its own, has the slave as controlling terminal and
  as standard input, output and error, and no other new descriptor, whichever number the
  slave was opened on.  A child that cannot be set up ends with status 1.
\<close>

theorem ptyFork_correct:
  assumes "pty_kernel K fds leader ctty tty"
  shows "case ptyFork K snLen tio ws s of
     Ret (pid, mfd, name) s' \<Rightarrow> forked K fds leader ctty tty snLen s pid mfd name s'
   | Exited n s' \<Rightarrow> n = 1 \<and> (\<exists>t. fst (p_fork K t) = 0)
   | _ \<Rightarrow> False"
  by (rule pty_kernel.ptyFork_forked [OF assms])

definition example_proc :: "int \<Rightarrow> refproc" where
  "example_proc child = \<lparr>rp_fds = [1 \<mapsto> ''log''], rp_next = 2, rp_leader = False, rp_ctty = None, rp_errno = 0, rp_child = child\<rparr>"

text \<open>A child whose standard input and error were closed: the slave is opened on descriptor 3.\<close>

theorem ptyFork_correct_witness:
  "\<exists>s'. ptyFork ref_pty (Some 20) None None (example_proc 0) = Ret (0, None, Some ''/dev/pts/7'') s' \<and>
    rp_fds s' = [0 \<mapsto> ''/dev/pts/7'', 1 \<mapsto> ''/dev/pts/7'', 2 \<mapsto> ''/dev/pts/7''] \<and> rp_leader s'"
proof -
  have "\<exists>s'. ptyFork ref_pty (Some 20) None None (example_proc 0) = Ret (0, None, Some ''/dev/pts/7'') s'"
    by (simp add: ptyFork_def ptyMasterOpen_def pty_child_def must_def dup_to_def MAX_SNAME_def ref_pty_def new_fd_def
      example_proc_def Let_def)
  then obtain s' where s': "ptyFork ref_pty (Some 20) None None (example_proc 0) = Ret (0, None, Some ''/dev/pts/7'') s'" by blast
  from ptyFork_correct [OF rpty.pty_kernel_axioms, where snLen = "Some 20" and tio = None and ws = None and s = "example_proc 0"]
  have "forked ref_pty rp_fds rp_leader rp_ctty id (Some 20) (example_proc 0) 0 None (Some ''/dev/pts/7'') s'"
    by (simp add: s')
  then have "rp_leader s'" "rp_fds s' = [0 \<mapsto> ''/dev/pts/7'', 1 \<mapsto> ''/dev/pts/7'', 2 \<mapsto> ''/dev/pts/7'']"
    by (auto simp: forked_def example_proc_def fun_eq_iff)
  with s' show ?thesis by blast
qed

end
