(* ===== verification/Script.thy ===== *)
theory Script
  imports Pty Rdwrn
begin

text \<open>
  \<open>src/tlpi-book/pty/script.c\<close>: a shell on a pseudoterminal whose session is recorded in a file.
  The program composes \<open>ptyFork\<close> and \<open>ttySetRaw\<close>; its other calls are the record \<open>scriptk\<close>.  The
  endless relay loop is given as its state after any number of rounds.
\<close>

definition BUF_SIZE :: nat where "BUF_SIZE = 256"

text \<open>\<open>x_select\<close> says whether standard input and the master are ready; \<open>x_execlp\<close> is \<open>True\<close> when
  the shell runs; \<open>x_restore\<close> is \<open>tcsetattr\<close> with \<open>TCSANOW\<close>.\<close>

record 's scriptk =
  x_pty :: "'s ptyk"
  x_tty :: "'s ttyk"
  x_winsz :: "int \<Rightarrow> 's \<Rightarrow> winsize option \<times> 's"
  x_restore :: "int \<Rightarrow> termios \<Rightarrow> 's \<Rightarrow> bool \<times> 's"
  x_creat :: "string \<Rightarrow> 's \<Rightarrow> int \<times> 's"
  x_atexit :: "'s \<Rightarrow> bool \<times> 's"
  x_select :: "int \<Rightarrow> 's \<Rightarrow> (bool \<times> bool) option \<times> 's"
  x_read :: "int \<Rightarrow> 's reader"
  x_write :: "int \<Rightarrow> 's writer"
  x_getenv :: "string \<Rightarrow> 's \<Rightarrow> string option"
  x_execlp :: "string \<Rightarrow> 's \<Rightarrow> bool \<times> 's"

definition ttyReset :: "'s scriptk \<Rightarrow> termios \<Rightarrow> 's \<Rightarrow> bool \<times> 's" where
  "ttyReset X ttyOrig s = x_restore X 0 ttyOrig s"

text \<open>The end of the program once \<open>ttyReset\<close> is registered.\<close>

definition leave :: "'s scriptk \<Rightarrow> termios \<Rightarrow> int \<Rightarrow> 's \<Rightarrow> ('a, 's) outcome" where
  "leave X ttyOrig status s = (case ttyReset X ttyOrig s of (ok, s) \<Rightarrow> Exited (if ok then status else 1) s)"

definition write_all :: "'s scriptk \<Rightarrow> termios \<Rightarrow> int \<Rightarrow> string \<Rightarrow> 's \<Rightarrow> (unit, 's) outcome" where
  "write_all X ttyOrig fd buf s =
     (case x_write X fd s buf of (w, s) \<Rightarrow> if w \<noteq> Wrote (length buf) then leave X ttyOrig 1 s else Ret () s)"

definition relay_stdin :: "'s scriptk \<Rightarrow> termios \<Rightarrow> int \<Rightarrow> 's \<Rightarrow> (unit, 's) outcome" where
  "relay_stdin X ttyOrig masterFd s =
     (case x_read X 0 s BUF_SIZE of
        (ReadErr e, s) \<Rightarrow> leave X ttyOrig 0 s
      | (Data buf, s) \<Rightarrow> if buf = [] then leave X ttyOrig 0 s else write_all X ttyOrig masterFd buf s)"

definition relay_master :: "'s scriptk \<Rightarrow> termios \<Rightarrow> int \<Rightarrow> int \<Rightarrow> 's \<Rightarrow> (unit, 's) outcome" where
  "relay_master X ttyOrig masterFd scriptFd s =
     (case x_read X masterFd s BUF_SIZE of
        (ReadErr e, s) \<Rightarrow> leave X ttyOrig 0 s
      | (Data buf, s) \<Rightarrow>
          if buf = [] then leave X ttyOrig 0 s
          else andThen (write_all X ttyOrig 1 buf s) (\<lambda>_ s. write_all X ttyOrig scriptFd buf s))"

definition relay_round :: "'s scriptk \<Rightarrow> termios \<Rightarrow> int \<Rightarrow> int \<Rightarrow> 's \<Rightarrow> (unit, 's) outcome" where
  "relay_round X ttyOrig masterFd scriptFd s =
     (case x_select X masterFd s of
        (None, s) \<Rightarrow> leave X ttyOrig 1 s
      | (Some (stdin_set, master_set), s) \<Rightarrow>
          andThen (if stdin_set then relay_stdin X ttyOrig masterFd s else Ret () s) (\<lambda>_ s.
          if master_set then relay_master X ttyOrig masterFd scriptFd s else Ret () s))"

fun relay_rounds :: "'s scriptk \<Rightarrow> termios \<Rightarrow> int \<Rightarrow> int \<Rightarrow> nat \<Rightarrow> 's \<Rightarrow> (unit, 's) outcome" where
  "relay_rounds X ttyOrig m f 0 s = Ret () s"
| "relay_rounds X ttyOrig m f (Suc n) s = andThen (relay_round X ttyOrig m f s) (\<lambda>_ s. relay_rounds X ttyOrig m f n s)"

text \<open>The child has become the shell, or the parent has relayed for \<open>n\<close> rounds.\<close>

datatype script_state = Shell string | Relaying termios int int

definition script_child :: "'s scriptk \<Rightarrow> 's \<Rightarrow> (script_state, 's) outcome" where
  "script_child X s =
     (let shell = (case x_getenv X ''SHELL'' s of None \<Rightarrow> ''/bin/sh'' | Some sh \<Rightarrow> if sh = [] then ''/bin/sh'' else sh) in
      case x_execlp X shell s of (ok, s) \<Rightarrow> if ok then Ret (Shell shell) s else Exited 1 s)"

definition script_parent :: "'s scriptk \<Rightarrow> string list \<Rightarrow> termios \<Rightarrow> int \<Rightarrow> nat \<Rightarrow> 's \<Rightarrow> (script_state, 's) outcome" where
  "script_parent X args ttyOrig masterFd n s =
     (case x_creat X (case args of [] \<Rightarrow> ''typescript'' | a # _ \<Rightarrow> a) s of (scriptFd, s) \<Rightarrow>
        if scriptFd = -1 then Exited 1 s
        else
          (case ttySetRaw (x_tty X) 0 True s of (_, prev, s) \<Rightarrow>
             let ttyOrig = (case prev of None \<Rightarrow> ttyOrig | Some t \<Rightarrow> t) in
             case x_atexit X s of (ok, s) \<Rightarrow>
               if \<not> ok then Exited 1 s
               else andThen (relay_rounds X ttyOrig masterFd scriptFd n s) (\<lambda>_ s. Ret (Relaying ttyOrig masterFd scriptFd) s)))"

definition script_main :: "'s scriptk \<Rightarrow> string list \<Rightarrow> nat \<Rightarrow> 's \<Rightarrow> (script_state, 's) outcome" where
  "script_main X args n s =
     (case t_get (x_tty X) 0 s of
        (None, s) \<Rightarrow> Exited 1 s
      | (Some ttyOrig, s) \<Rightarrow>
          (case x_winsz X 0 s of
             (None, s) \<Rightarrow> Exited 1 s
           | (Some ws, s) \<Rightarrow>
               andThen (ptyFork (x_pty X) (Some MAX_SNAME) (Some ttyOrig) (Some ws) s) (\<lambda>(childPid, mfd, _) s.
               if childPid = -1 then Exited 1 s
               else if childPid = 0 then script_child X s
               else script_parent X args ttyOrig (the mfd) n s)))"

section \<open>Recorded input and output\<close>

text \<open>\<open>got s fd\<close> and \<open>put s fd\<close> are all bytes read from and written to a descriptor so far.  \<open>calm\<close>:
  a call that reads and writes nothing and keeps the settings of terminals.\<close>

definition calm :: "('s \<Rightarrow> int \<Rightarrow> string) \<Rightarrow> ('s \<Rightarrow> int \<Rightarrow> string) \<Rightarrow> ('s \<Rightarrow> int \<Rightarrow> termios) \<Rightarrow> 's \<Rightarrow> 's \<Rightarrow> bool" where
  "calm got put settings s s' \<longleftrightarrow> got s' = got s \<and> put s' = put s \<and> settings s' = settings s"

text \<open>Everything typed has been sent to the shell, and everything the shell has written has been shown
  and recorded.\<close>

definition relayed ::
    "('s \<Rightarrow> int \<Rightarrow> string) \<Rightarrow> ('s \<Rightarrow> int \<Rightarrow> string) \<Rightarrow> int \<Rightarrow> int \<Rightarrow> 's \<Rightarrow> 's \<Rightarrow> bool" where
  "relayed got put m f s s' \<longleftrightarrow> (\<exists>typed shown.
     got s' 0 = got s 0 @ typed \<and> put s' m = put s m @ typed \<and>
     got s' m = got s m @ shown \<and> put s' 1 = put s 1 @ shown \<and> put s' f = put s f @ shown)"

text \<open>At the end of the program the last bytes may be missing on the way, but what is recorded is
  the beginning of what was shown, and that of what the shell wrote.\<close>

definition recorded ::
    "('s \<Rightarrow> int \<Rightarrow> string) \<Rightarrow> ('s \<Rightarrow> int \<Rightarrow> string) \<Rightarrow> int \<Rightarrow> int \<Rightarrow> 's \<Rightarrow> 's \<Rightarrow> bool" where
  "recorded got put m f s s' \<longleftrightarrow> (\<exists>typed lost shown more1 more2.
     got s' 0 = got s 0 @ typed @ lost \<and> put s' m = put s m @ typed \<and>
     put s' f = put s f @ shown \<and> put s' 1 = put s 1 @ shown @ more1 \<and> got s' m = got s m @ shown @ more1 @ more2)"

definition restored :: "'s scriptk \<Rightarrow> ('s \<Rightarrow> int \<Rightarrow> termios) \<Rightarrow> termios \<Rightarrow> 's \<Rightarrow> 's \<Rightarrow> bool" where
  "restored X settings ttyOrig s s' \<longleftrightarrow>
     settings s' = (settings s)(0 := ttyOrig) \<or> settings s' = settings s \<and> (\<exists>t. x_restore X 0 ttyOrig t = (False, s'))"

text \<open>The session in the parent: after some rounds everything has been relayed, and the terminal is
  in raw mode, unless that failed; at the end the terminal has its settings back, unless
  restoring them or the registration of \<open>ttyReset\<close> failed.\<close>

definition session_ok ::
    "'s scriptk \<Rightarrow> ('s \<Rightarrow> int \<Rightarrow> termios) \<Rightarrow> ('s \<Rightarrow> int \<Rightarrow> string) \<Rightarrow> ('s \<Rightarrow> int \<Rightarrow> string) \<Rightarrow> 's \<Rightarrow>
     (script_state, 's) outcome \<Rightarrow> bool" where
  "session_ok X settings got put s r \<longleftrightarrow>
     (case r of
        Ret st s' \<Rightarrow> \<exists>m f. st = Relaying (settings s 0) m f \<and> m \<notin> {0, 1} \<and> f \<notin> {0, 1, m} \<and> relayed got put m f s s' \<and>
          (settings s' = settings s \<or> (\<exists>u. raw_of (settings s 0) u \<and> settings s' = (settings s)(0 := u)))
      | Exited c s' \<Rightarrow> (\<exists>m f. recorded got put m f s s') \<and>
          (settings s' = settings s \<or> (\<exists>t. x_restore X 0 (settings s 0) t = (False, s')) \<or> (\<exists>t. x_atexit X t = (False, s')))
      | _ \<Rightarrow> False)"

lemma relayed_trans: "relayed got put m f s t \<Longrightarrow> relayed got put m f t u \<Longrightarrow> relayed got put m f s u"
  unfolding relayed_def by (metis append_assoc)

lemma relayed_recorded: "relayed got put m f s t \<Longrightarrow> recorded got put m f t u \<Longrightarrow> recorded got put m f s u"
  unfolding relayed_def recorded_def by (metis append_assoc)

lemma restored_cong: "settings s = settings t \<Longrightarrow> restored X settings o' s u = restored X settings o' t u"
  by (simp add: restored_def)

locale script_kernel =
  sctty: terminal "x_tty X" settings + spty: pty_kernel "x_pty X" fds leader ctty tty
  for X :: "'s scriptk" and settings :: "'s \<Rightarrow> int \<Rightarrow> termios" and fds :: "'s \<Rightarrow> int \<rightharpoonup> 'f" and leader :: "'s \<Rightarrow> bool"
    and ctty :: "'s \<Rightarrow> 'f option" and tty :: "string \<Rightarrow> 'f" +
  fixes got :: "'s \<Rightarrow> int \<Rightarrow> string" and put :: "'s \<Rightarrow> int \<Rightarrow> string"
  assumes get_calm: "t_get (x_tty X) fd s = (r1, s') \<Longrightarrow> calm got put settings s s' \<and> fds s' = fds s"
    and set_calm: "t_set (x_tty X) fd t s = (ok, s') \<Longrightarrow> got s' = got s \<and> put s' = put s \<and> fds s' = fds s"
    and winsz: "x_winsz X fd s = (r2, s') \<Longrightarrow> calm got put settings s s' \<and> fds s' = fds s"
    and openpt_calm: "p_openpt (x_pty X) s = (fd, s') \<Longrightarrow> calm got put settings s s'"
    and grantpt_calm: "p_grantpt (x_pty X) fd s = (ok, s') \<Longrightarrow> calm got put settings s s'"
    and unlockpt_calm: "p_unlockpt (x_pty X) fd s = (ok, s') \<Longrightarrow> calm got put settings s s'"
    and ptsname_calm: "p_ptsname (x_pty X) fd s = (nm, s') \<Longrightarrow> calm got put settings s s'"
    and close_calm: "calm got put settings s (p_close (x_pty X) fd s)"
    and errno_calm: "calm got put settings s (p_set_errno (x_pty X) e s)"
    and fork_calm: "p_fork (x_pty X) s = (pid, s') \<Longrightarrow> calm got put settings s s'"
    and creat: "x_creat X nm' s = (fd, s') \<Longrightarrow> calm got put settings s s' \<and> (fd = -1 \<or> fd \<notin> dom (fds s))"
    and atexit: "x_atexit X s = (ok, s') \<Longrightarrow> calm got put settings s s'"
    and select: "x_select X m s = (r3, s') \<Longrightarrow> calm got put settings s s'"
    and restore: "x_restore X fd t s = (ok, s') \<Longrightarrow> got s' = got s \<and> put s' = put s \<and>
      settings s' = (if ok then (settings s)(fd := t) else settings s)"
    and reads: "x_read X fd s n = (r4, s') \<Longrightarrow> put s' = put s \<and> settings s' = settings s \<and>
      (case r4 of Data bs \<Rightarrow> got s' = (got s)(fd := got s fd @ bs) | ReadErr e \<Rightarrow> got s' = got s)"
    and writes: "x_write X fd s bs = (r5, s') \<Longrightarrow> got s' = got s \<and> settings s' = settings s \<and>
      (case r5 of Wrote k \<Rightarrow> k \<le> length bs \<and> put s' = (put s)(fd := put s fd @ take k bs) | WriteErr e \<Rightarrow> put s' = put s)"
begin

text \<open>The two ways in which a part of the loop ends.\<close>

definition part_ok :: "termios \<Rightarrow> int \<Rightarrow> int \<Rightarrow> 's \<Rightarrow> (unit, 's) outcome \<Rightarrow> bool" where
  "part_ok ttyOrig m f s r \<longleftrightarrow>
     (case r of
        Ret _ s' \<Rightarrow> relayed got put m f s s' \<and> settings s' = settings s
      | Exited c s' \<Rightarrow> recorded got put m f s s' \<and> restored X settings ttyOrig s s'
      | _ \<Rightarrow> False)"

lemma part_ok_andThen:
  assumes "part_ok ttyOrig m f s r" and "\<And>v s'. r = Ret v s' \<Longrightarrow> part_ok ttyOrig m f s' (k v s')"
  shows "part_ok ttyOrig m f s (andThen r k)"
proof (cases r)
  case (Ret v t)
  with assms(1) have t: "relayed got put m f s t" "settings t = settings s" by (simp_all add: part_ok_def)
  with assms(2) [OF Ret] Ret show ?thesis
    by (auto simp: part_ok_def restored_cong [OF t(2)] split: outcome.splits intro: relayed_trans relayed_recorded)
qed (use assms(1) in \<open>auto simp: part_ok_def\<close>)

lemma leave_ends:
  obtains c s' where "leave X ttyOrig status s = Exited c s'" "got s' = got s" "put s' = put s" "restored X settings ttyOrig s s'"
proof -
  obtain ok t where r: "x_restore X 0 ttyOrig s = (ok, t)" by force
  then have "leave X ttyOrig status s = Exited (if ok then status else 1) t" by (simp add: leave_def ttyReset_def)
  with restore [OF r] r that show ?thesis by (auto simp: restored_def split: if_splits)
qed

lemma leave_part_ok:
  assumes "recorded got put m f s t" "settings t = settings s"
  shows "part_ok ttyOrig m f s (leave X ttyOrig status t)"
proof -
  obtain c s' where l: "(leave X ttyOrig status t :: (unit, 's) outcome) = Exited c s'" "got s' = got t" "put s' = put t" "restored X settings ttyOrig t s'"
    by (rule leave_ends)
  with assms have "recorded got put m f s s'" by (simp add: recorded_def)
  with l assms(2) show ?thesis by (simp add: part_ok_def restored_cong [of settings t s])
qed

lemma write_all_cases:
  obtains (all) s' where "write_all X ttyOrig fd buf s = Ret () s'" "got s' = got s" "settings s' = settings s"
    "put s' = (put s)(fd := put s fd @ buf)"
  | (partial) t buf' rest where "write_all X ttyOrig fd buf s = leave X ttyOrig 1 t" "got t = got s" "settings t = settings s"
    "put t = (put s)(fd := put s fd @ buf')" "buf = buf' @ rest"
proof -
  obtain w t where w: "x_write X fd s buf = (w, t)" by force
  note law = writes [OF w]
  show ?thesis
  proof (cases w)
    case (Wrote k)
    with law w all [of t] partial [of t "take k buf" "drop k buf"] show ?thesis
      by (cases "k = length buf") (auto simp: write_all_def)
  next
    case (WriteErr e)
    with law w partial [of t "[]" buf] show ?thesis by (auto simp: write_all_def)
  qed
qed

lemma relay_stdin_ok:
  assumes "m \<notin> {0, 1}" "f \<notin> {0, 1, m}"
  shows "part_ok ttyOrig m f s (relay_stdin X ttyOrig m s)"
proof -
  obtain r t where r: "x_read X 0 s BUF_SIZE = (r, t)" by force
  note law = reads [OF r]
  show ?thesis
  proof (cases r)
    case (ReadErr e)
    with law have "recorded got put m f s t" by (simp add: recorded_def)
    with ReadErr r law show ?thesis by (simp add: relay_stdin_def leave_part_ok)
  next
    case (Data buf)
    note got = law [unfolded Data, simplified]
    show ?thesis
    proof (cases "buf = []")
      case True
      with got have "recorded got put m f s t" by (simp add: recorded_def)
      with True Data r got show ?thesis by (simp add: relay_stdin_def leave_part_ok)
    next
      case False
      then have e: "relay_stdin X ttyOrig m s = write_all X ttyOrig m buf t" using Data r by (simp add: relay_stdin_def)
      show ?thesis
      proof (cases rule: write_all_cases [of ttyOrig m buf t])
        case (all s')
        with got assms show ?thesis unfolding e by (auto simp: part_ok_def relayed_def)
      next
        case (partial u buf' rest)
        with got assms have "recorded got put m f s u" by (auto simp: recorded_def)
        with partial got show ?thesis unfolding e by (simp add: leave_part_ok)
      qed
    qed
  qed
qed

lemma relay_master_ok:
  assumes "m \<notin> {0, 1}" "f \<notin> {0, 1, m}"
  shows "part_ok ttyOrig m f s (relay_master X ttyOrig m f s)"
proof -
  obtain r t where r: "x_read X m s BUF_SIZE = (r, t)" by force
  note law = reads [OF r]
  show ?thesis
  proof (cases r)
    case (ReadErr e)
    with law have "recorded got put m f s t" by (simp add: recorded_def)
    with ReadErr r law show ?thesis by (simp add: relay_master_def leave_part_ok)
  next
    case (Data buf)
    note got = law [unfolded Data, simplified]
    show ?thesis
    proof (cases "buf = []")
      case True
      with got have "recorded got put m f s t" by (simp add: recorded_def)
      with True Data r got show ?thesis by (simp add: relay_master_def leave_part_ok)
    next
      case False
      then have e: "relay_master X ttyOrig m f s = andThen (write_all X ttyOrig 1 buf t) (\<lambda>_ s. write_all X ttyOrig f buf s)"
        using Data r by (simp add: relay_master_def)
      show ?thesis
      proof (cases rule: write_all_cases [of ttyOrig 1 buf t])
        case (partial u buf' rest)
        with got assms have rec: "recorded got put m f s u" by (auto simp: recorded_def)
        obtain c s' where "(leave X ttyOrig 1 u :: (unit, 's) outcome) = Exited c s'" by (rule leave_ends)
        with partial got leave_part_ok [OF rec, of ttyOrig 1] show ?thesis unfolding e by simp
      next
        case one: (all u)
        show ?thesis
        proof (cases rule: write_all_cases [of ttyOrig f buf u])
          case (all s')
          with one got assms show ?thesis unfolding e by (auto simp: part_ok_def relayed_def)
        next
          case (partial v buf' rest)
          with one got assms have "recorded got put m f s v" by (auto simp: recorded_def)
          with partial one got show ?thesis unfolding e by (simp add: leave_part_ok)
        qed
      qed
    qed
  qed
qed

lemma calm_relayed: "calm got put settings s t \<Longrightarrow> relayed got put m f s t" "calm got put settings s t \<Longrightarrow> recorded got put m f s t"
  by (simp_all add: calm_def relayed_def recorded_def)

lemma part_ok_calm: "calm got put settings s t \<Longrightarrow> part_ok ttyOrig m f t r \<Longrightarrow> part_ok ttyOrig m f s r"
  by (auto simp: part_ok_def calm_def relayed_def recorded_def restored_def split: outcome.splits)

lemma part_ok_Ret: "part_ok ttyOrig m f s (Ret () s)"
  by (simp add: part_ok_def relayed_def)

lemma relay_rounds_ok:
  assumes "m \<notin> {0, 1}" "f \<notin> {0, 1, m}"
  shows "part_ok ttyOrig m f s (relay_rounds X ttyOrig m f n s)"
proof (induction n arbitrary: s)
  case 0
  then show ?case by (simp add: part_ok_Ret)
next
  case (Suc n)
  obtain r t where r: "x_select X m s = (r, t)" by force
  note calm = select [OF r]
  have "part_ok ttyOrig m f s (relay_round X ttyOrig m f s)"
  proof (cases r)
    case None
    with r calm show ?thesis by (simp add: relay_round_def leave_part_ok calm_relayed calm_def)
  next
    case (Some ready)
    obtain a b where ready: "ready = (a, b)" by force
    have "part_ok ttyOrig m f t (andThen (if a then relay_stdin X ttyOrig m t else Ret () t) (\<lambda>_ s.
        if b then relay_master X ttyOrig m f s else Ret () s))"
      by (rule part_ok_andThen) (auto simp: relay_stdin_ok relay_master_ok part_ok_Ret assms simp del: insert_iff)
    with calm Some ready r show ?thesis by (simp add: relay_round_def part_ok_calm)
  qed
  then show ?case using Suc by (simp add: part_ok_andThen)
qed

lemma calm_trans: "calm got put settings s t \<Longrightarrow> calm got put settings t u \<Longrightarrow> calm got put settings s u"
  by (simp add: calm_def)

lemma close_saving_errno_calm: "calm got put settings s (close_saving_errno (x_pty X) fd s)"
  by (simp add: close_saving_errno_def Let_def calm_trans [OF close_calm errno_calm])

lemma ptyMasterOpen_calm:
  assumes "ptyMasterOpen (x_pty X) n s = ((fd, nm), s')"
  shows "calm got put settings s s'"
proof -
  obtain m s1 where a: "p_openpt (x_pty X) s = (m, s1)" by force
  obtain ok2 s2 where b: "p_grantpt (x_pty X) m s1 = (ok2, s2)" by force
  obtain ok3 s3 where c: "p_unlockpt (x_pty X) m s2 = (ok3, s3)" by force
  obtain nm' s4 where d: "p_ptsname (x_pty X) m s3 = (nm', s4)" by force
  note t1 = openpt_calm [OF a]
  note t2 = calm_trans [OF t1 grantpt_calm [OF b]]
  note t3 = calm_trans [OF t2 unlockpt_calm [OF c]]
  note t4 = calm_trans [OF t3 ptsname_calm [OF d]]
  note ends = t1 t4 calm_trans [OF t2 close_saving_errno_calm] calm_trans [OF t3 close_saving_errno_calm]
    calm_trans [OF t4 close_saving_errno_calm] calm_trans [OF calm_trans [OF t4 close_calm] errno_calm]
  from assms a b c d ends show ?thesis by (auto simp: ptyMasterOpen_def split: if_splits option.splits)
qed

lemma ttySet_io:
  assumes "ttySet mode (x_tty X) fd p s = (r, prev, s')"
  shows "got s' = got s \<and> put s' = put s"
proof -
  obtain g s1 where g: "t_get (x_tty X) fd s = (g, s1)" by force
  note g1 = get_calm [OF g]
  show ?thesis
  proof (cases g)
    case (Some t)
    obtain ok s2 where o: "t_set (x_tty X) fd (mode t) s1 = (ok, s2)" by force
    with assms g g1 Some set_calm [OF o] show ?thesis by (cases ok) (auto simp: ttySet_def Let_def calm_def)
  qed (use assms g g1 in \<open>auto simp: ttySet_def calm_def\<close>)
qed

lemma ptyFork_parent:
  assumes "\<forall>t. fst (p_fork (x_pty X) t) \<noteq> 0"
  obtains pid mfd nm s' where "ptyFork (x_pty X) snLen tio ws s = Ret (pid, mfd, nm) s'" "pid \<noteq> 0" "calm got put settings s s'"
    "forked (x_pty X) fds leader ctty tty snLen s pid mfd nm s'"
proof -
  obtain m slname s1 where a: "ptyMasterOpen (x_pty X) MAX_SNAME s = ((m, slname), s1)" by (metis prod.exhaust)
  obtain pid s2 where f: "p_fork (x_pty X) s1 = (pid, s2)" by force
  from assms f have "pid \<noteq> 0" by (metis fst_conv)
  note t1 = ptyMasterOpen_calm [OF a]
  note t2 = calm_trans [OF t1 fork_calm [OF f]]
  note ends = t1 t2 calm_trans [OF t2 close_saving_errno_calm] calm_trans [OF calm_trans [OF t1 close_calm] errno_calm]
  have "\<exists>pid mfd nm s'. ptyFork (x_pty X) snLen tio ws s = Ret (pid, mfd, nm) s' \<and> pid \<noteq> 0 \<and> calm got put settings s s'"
    using a f \<open>pid \<noteq> 0\<close> ends by (simp add: ptyFork_def Let_def)
  with spty.ptyFork_forked [where snLen = snLen and tio = tio and ws = ws and s = s] that show ?thesis by fastforce
qed

lemma script_parent_session:
  assumes "m \<notin> {0, 1}" "{0, 1, m} \<subseteq> dom (fds s)"
  shows "session_ok X settings got put s (script_parent X args (settings s 0) m n s)"
proof -
  let ?nm = "case args of [] \<Rightarrow> ''typescript'' | a # _ \<Rightarrow> a"
  obtain f s1 where c: "x_creat X ?nm s = (f, s1)" by force
  obtain rr prev s2 where t: "ttySetRaw (x_tty X) 0 True s1 = (rr, prev, s2)" by (metis prod.exhaust)
  obtain ok s3 where a: "x_atexit X s2 = (ok, s3)" by force
  note c1 = creat [OF c]
  show ?thesis
  proof (cases "f = -1")
    case True
    with c c1 show ?thesis by (auto simp: script_parent_def session_ok_def calm_relayed calm_def)
  next
    case False
    with c1 assms(2) have f: "f \<notin> {0, 1, m}" by auto
    note raw = sctty.ttySet_settings [OF t [unfolded ttySetRaw_def]]
    have orig: "(case prev of None \<Rightarrow> settings s 0 | Some t \<Rightarrow> t) = settings s 0"
      using raw c1 by (auto simp: calm_def split: option.splits)
    have s2: "got s2 = got s1" "put s2 = put s1"
      using ttySet_io [OF t [unfolded ttySetRaw_def]] by simp_all
    have st: "settings s3 = settings s \<or> settings s3 = (settings s)(0 := raw_mode (settings s 0))"
      using raw c1 atexit [OF a] by (auto simp: calm_def split: if_splits)
    have io: "got s3 = got s" "put s3 = put s" using s2 c1 atexit [OF a] by (simp_all add: calm_def)
    show ?thesis
    proof (cases ok)
      case no: False
      have "recorded got put m f s s3" using io by (simp add: recorded_def)
      moreover have "script_parent X args (settings s 0) m n s = Exited 1 s3"
        using False no c t a orig by (simp add: script_parent_def Let_def)
      ultimately show ?thesis using a no by (auto simp: session_ok_def)
    next
      case True
      let ?r = "relay_rounds X (settings s 0) m f n s3"
      have e: "script_parent X args (settings s 0) m n s = andThen ?r (\<lambda>_ s'. Ret (Relaying (settings s 0) m f) s')"
        using False True c t a orig by (simp add: script_parent_def Let_def)
      have ok: "part_ok (settings s 0) m f s3 ?r" by (rule relay_rounds_ok [OF assms(1) f])
      then show ?thesis
      proof (cases ?r)
        case (Ret v s')
        with ok io have "relayed got put m f s s'" "settings s' = settings s3"
          by (simp_all add: part_ok_def relayed_def)
        with Ret st f assms(1) raw_mode_of [of "settings s 0"] show ?thesis unfolding e by (auto simp: session_ok_def)
      next
        case (Exited k s')
        with ok io have "recorded got put m f s s'" "restored X settings (settings s 0) s3 s'"
          by (simp_all add: part_ok_def recorded_def)
        with Exited st show ?thesis unfolding e by (auto simp: session_ok_def restored_def)
      qed (simp_all add: part_ok_def)
    qed
  qed
qed

lemma session_calm: "calm got put settings s t \<Longrightarrow> session_ok X settings got put t r \<Longrightarrow> session_ok X settings got put s r"
  by (simp add: session_ok_def calm_def relayed_def recorded_def split: outcome.splits)

lemma session_early: "calm got put settings s t \<Longrightarrow> session_ok X settings got put s (Exited c t)"
  by (auto simp: session_ok_def calm_relayed calm_def)

lemma script_main_session:
  assumes "\<forall>t. fst (p_fork (x_pty X) t) \<noteq> 0" and "{0, 1} \<subseteq> dom (fds s)"
  shows "session_ok X settings got put s (script_main X args n s)"
proof -
  obtain g s1 where g: "t_get (x_tty X) 0 s = (g, s1)" by force
  obtain w s2 where w: "x_winsz X 0 s1 = (w, s2)" by force
  note g1 = get_calm [OF g] and w1 = winsz [OF w]
  then have t2: "calm got put settings s s2" using calm_trans by blast
  show ?thesis
  proof (cases "g = None \<or> w = None")
    case True
    with g w g1 t2 show ?thesis by (auto simp: script_main_def session_early split: option.splits)
  next
    case False
    then obtain orig ws where gw: "g = Some orig" "w = Some ws" by auto
    obtain pid mfd nm s3 where p: "ptyFork (x_pty X) (Some MAX_SNAME) (Some orig) (Some ws) s2 = Ret (pid, mfd, nm) s3" "pid \<noteq> 0"
      "calm got put settings s2 s3" "forked (x_pty X) fds leader ctty tty (Some MAX_SNAME) s2 pid mfd nm s3"
      by (rule ptyFork_parent [OF assms(1)])
    note t3 = calm_trans [OF t2 p(3)]
    have orig: "orig = settings s3 0" using sctty.get [OF g] gw t3 by (simp add: calm_def)
    show ?thesis
    proof (cases "pid = -1")
      case True
      with g w gw p t3 show ?thesis by (simp add: script_main_def session_early)
    next
      case False
      with p(2,4) obtain m where m: "mfd = Some m" "gained fds m s2 s3" by (auto simp: forked_def)
      have "m \<notin> {0, 1}" "{0, 1, m} \<subseteq> dom (fds s3)" using m(2) assms(2) g1 w1 by (auto simp: gained_def)
      from script_parent_session [OF this] session_calm [OF t3] g w gw p(1,2) m(1) False orig show ?thesis
        by (simp add: script_main_def)
    qed
  qed
qed

end

section \<open>A reference session\<close>

text \<open>A user and a shell that say their lines one after the other, seen from the parent: \<open>fork\<close>
  returns the id of the child.\<close>

record refscript = refproc +
  rs_settings :: "int \<Rightarrow> termios"
  rs_user :: "string list"
  rs_shell :: "string list"
  rs_got :: "int \<Rightarrow> string"
  rs_put :: "int \<Rightarrow> string"

definition ref_set :: "int \<Rightarrow> termios \<Rightarrow> refscript \<Rightarrow> bool \<times> refscript" where
  "ref_set fd t s = (True, s\<lparr>rs_settings := (rs_settings s)(fd := t)\<rparr>)"

definition ref_read :: "int \<Rightarrow> refscript reader" where
  "ref_read fd s n =
     (let ls = (if fd = 0 then rs_user s else rs_shell s); bs = (case ls of [] \<Rightarrow> [] | l # _ \<Rightarrow> take n l);
          ls' = (case ls of [] \<Rightarrow> [] | l # r \<Rightarrow> if length l \<le> n then r else drop n l # r);
          s = s\<lparr>rs_got := (rs_got s)(fd := rs_got s fd @ bs)\<rparr>
      in (Data bs, if fd = 0 then s\<lparr>rs_user := ls'\<rparr> else s\<lparr>rs_shell := ls'\<rparr>))"

definition ref_script :: "refscript scriptk" where
  "ref_script = \<lparr>x_pty = ref_pty\<lparr>p_fork := (\<lambda>s. (42, s))\<rparr>, x_tty = \<lparr>t_get = (\<lambda>fd s. (Some (rs_settings s fd), s)), t_set = ref_set\<rparr>,
     x_winsz = (\<lambda>fd s. (Some \<lparr>ws_row = 24, ws_col = 80\<rparr>, s)), x_restore = ref_set, x_creat = new_fd,
     x_atexit = (\<lambda>s. (True, s)), x_select = (\<lambda>m s. (Some (rs_shell s = [] \<or> rs_user s \<noteq> [], rs_shell s \<noteq> []), s)),
     x_read = ref_read, x_write = (\<lambda>fd s bs. (Wrote (length bs), s\<lparr>rs_put := (rs_put s)(fd := rs_put s fd @ bs)\<rparr>)),
     x_getenv = (\<lambda>v s. None), x_execlp = (\<lambda>f s. (True, s))\<rparr>"

lemma new_fd_calm:
  "new_fd f s = (fd, s') \<Longrightarrow> calm rs_got rs_put rs_settings s s' \<and> (fd = -1 \<or> fd \<notin> dom (rp_fds s))"
  by (auto simp: new_fd_def calm_def split: if_splits)

interpretation rscript: script_kernel ref_script rs_settings rp_fds rp_leader rp_ctty id rs_got rs_put
proof -
  have "pty_kernel (x_pty ref_script) rp_fds rp_leader rp_ctty id"
    by unfold_locales (auto simp: ref_script_def ref_pty_def new_fd_def split: if_splits)
  moreover have "terminal (x_tty ref_script) rs_settings"
    by unfold_locales (auto simp: ref_script_def ref_set_def)
  moreover have "script_kernel_axioms ref_script rs_settings rp_fds rs_got rs_put"
    by unfold_locales
      (auto simp: ref_script_def ref_pty_def ref_set_def ref_read_def calm_def Let_def dest: new_fd_calm split: list.splits if_splits)
  ultimately show "script_kernel ref_script rs_settings rp_fds rp_leader rp_ctty id rs_got rs_put"
    by (simp add: script_kernel_def)
qed

section \<open>Property\<close>

text \<open>
  C33. A recorded session, seen from the parent, when standard input and output are open at the
  start: after any number of rounds, everything typed has been sent to the shell and everything
  the shell has written has been shown and recorded, byte for byte and in order; only the
  terminal on standard input is put into raw mode.  When the program ends, what is recorded
  is the beginning of what was shown, and the terminal has the settings it had at the start,
  unless setting them back or the registration of \<open>ttyReset\<close> failed.
\<close>

theorem script_session:
  assumes "script_kernel X settings fds leader ctty tty got put"
    and "\<forall>t. fst (p_fork (x_pty X) t) \<noteq> 0" and "{0, 1} \<subseteq> dom (fds s)"
  shows "session_ok X settings got put s (script_main X args n s)"
  by (rule script_kernel.script_main_session [OF assms])

definition example_session :: refscript where
  "example_session = \<lparr>rp_fds = [0 \<mapsto> ''tty'', 1 \<mapsto> ''tty'', 2 \<mapsto> ''tty''], rp_next = 3, rp_leader = False, rp_ctty = None, rp_errno = 0,
     rp_child = 42, rs_settings = (\<lambda>_. cooked), rs_user = [''date''], rs_shell = [''$ '', ''noon''],
     rs_got = (\<lambda>_. []), rs_put = (\<lambda>_. [])\<rparr>"

text \<open>After two rounds the file, descriptor 4, has what the shell wrote, and the shell, on the master
  3, has what was typed; the third round meets the end of input, and the terminal is restored.\<close>

theorem script_session_witness:
  "\<exists>s' s''. script_main ref_script [] 2 example_session = Ret (Relaying cooked 3 4) s' \<and>
     rs_put s' 4 = ''$ noon'' \<and> rs_put s' 3 = ''date'' \<and> raw_of cooked (rs_settings s' 0) \<and>
     script_main ref_script [] 3 example_session = Exited 0 s'' \<and> rs_settings s'' = (\<lambda>_. cooked)"
proof -
  have fork: "\<forall>t. fst (p_fork (x_pty ref_script) t) \<noteq> 0" by (simp add: ref_script_def)
  have fds: "{0, 1} \<subseteq> dom (rp_fds example_session)" by (simp add: example_session_def)
  note ok = script_session [OF rscript.script_kernel_axioms fork fds]
  note eval = script_main_def script_parent_def ptyFork_def ptyMasterOpen_def MAX_SNAME_def ref_script_def ref_pty_def new_fd_def
    ttySetRaw_def ttySet_def ref_set_def ref_read_def relay_round_def relay_stdin_def relay_master_def write_all_def BUF_SIZE_def
    leave_def ttyReset_def Let_def
  have "\<exists>s'. script_main ref_script [] 2 example_session = Ret (Relaying cooked 3 4) s' \<and> rs_got s' 3 = ''$ noon'' \<and>
      rs_got s' 0 = ''date'' \<and> rs_settings s' 0 = raw_mode cooked"
    by (simp add: eval numeral_eq_Suc example_session_def)
  then obtain s' where s': "script_main ref_script [] 2 example_session = Ret (Relaying cooked 3 4) s'"
    "rs_got s' 3 = ''$ noon''" "rs_got s' 0 = ''date''" "rs_settings s' 0 = raw_mode cooked" by blast
  have "\<exists>s''. script_main ref_script [] 3 example_session = Exited 0 s''"
    by (simp add: eval numeral_eq_Suc example_session_def)
  then obtain s'' where s'': "script_main ref_script [] 3 example_session = Exited 0 s''" by blast
  have "relayed rs_got rs_put 3 4 example_session s'"
    using ok [where args = "[]" and n = 2] s'(1) by (simp add: session_ok_def)
  then have "rs_put s' 4 = ''$ noon''" "rs_put s' 3 = ''date''"
    using s'(2,3) by (auto simp: relayed_def example_session_def)
  moreover have "rs_settings s'' = rs_settings example_session"
    using ok [where args = "[]" and n = 3] s'' by (auto simp: session_ok_def ref_script_def ref_set_def)
  ultimately show ?thesis using s' s'' raw_mode_of [of cooked] by (auto simp: example_session_def)
qed

end
