(* ===== verification/Thread_Multijoin.thy ===== *)
theory Thread_Multijoin
  imports Schedules Get_Num
begin

text \<open>
  \<open>src/tlpi-book/threads/thread_multijoin.c\<close>: a main thread that joins its threads in the order in
  which they end.  Every access to the mutex, the condition variable and the shared variables is
  a step; \<open>join\<close> waits, with the mutex held, until the thread has returned.  As in
  \<open>Prod_Condvar\<close> a step carries the result of its \<open>pthread\<close> call, and the main thread may be
  woken without a reason.
\<close>

datatype tstate = TS_ALIVE | TS_TERMINATED | TS_JOINED
datatype tpc = TWork | TLock | TUpdate | TUnlock | TSignal | TEnd

record tinfo =
  t_pc :: tpc
  t_state :: tstate

datatype mpc = MArgs | MCreate nat | MHead | MLock | MTest | MWait | MWoken | MScan nat | MUnlock | MExit int

text \<open>\<open>owner\<close> is the holder of \<open>threadMutex\<close>, 0 for the main thread and \<open>Suc i\<close> for thread \<open>i\<close>; \<open>reaped\<close>
  is the output, the index of a joined thread and \<open>numLive\<close> with it.\<close>

record mjs =
  thread :: "tinfo list"
  owner :: "nat option"
  mainpc :: mpc
  totThreads :: int
  numLive :: int
  numUnjoined :: int
  reaped :: "(nat \<times> int) list"

datatype event = Main int | Thread nat int | Spurious

definition start :: mjs where
  "start = \<lparr>thread = [], owner = None, mainpc = MArgs, totThreads = 0, numLive = 0, numUnjoined = 0, reaped = []\<rparr>"

definition exited :: "mjs \<Rightarrow> bool" where
  "exited s \<longleftrightarrow> (\<exists>n. mainpc s = MExit n)"

definition errExitEN :: "mjs \<Rightarrow> mjs" where
  "errExitEN s = s\<lparr>mainpc := MExit 1\<rparr>"

definition set_thread :: "nat \<Rightarrow> tinfo \<Rightarrow> mjs \<Rightarrow> mjs" where
  "set_thread i t s = s\<lparr>thread := (thread s)[i := t]\<rparr>"

definition thread_step :: "nat \<Rightarrow> int \<Rightarrow> mjs \<Rightarrow> mjs option" where
  "thread_step i r s =
     (if exited s \<or> length (thread s) \<le> i then None
      else
        (let t = thread s ! i in
         case t_pc t of
           TWork \<Rightarrow> Some (set_thread i (t\<lparr>t_pc := TLock\<rparr>) s)
         | TLock \<Rightarrow>
             if r \<noteq> 0 then Some (errExitEN s)
             else if owner s = None then Some (set_thread i (t\<lparr>t_pc := TUpdate\<rparr>) (s\<lparr>owner := Some (Suc i)\<rparr>)) else None
         | TUpdate \<Rightarrow> Some (set_thread i (t\<lparr>t_pc := TUnlock, t_state := TS_TERMINATED\<rparr>) (s\<lparr>numUnjoined := numUnjoined s + 1\<rparr>))
         | TUnlock \<Rightarrow>
             if r \<noteq> 0 then Some (errExitEN s) else Some (set_thread i (t\<lparr>t_pc := TSignal\<rparr>) (s\<lparr>owner := None\<rparr>))
         | TSignal \<Rightarrow>
             if r \<noteq> 0 then Some (errExitEN s)
             else Some (set_thread i (t\<lparr>t_pc := TEnd\<rparr>) (s\<lparr>mainpc := (if mainpc s = MWait then MWoken else mainpc s)\<rparr>))
         | TEnd \<Rightarrow> None))"

text \<open>A failed \<open>calloc\<close> is the result other than 0 of the step \<open>MArgs\<close>.\<close>

definition main_step :: "string list \<Rightarrow> int \<Rightarrow> mjs \<Rightarrow> mjs option" where
  "main_step args r s =
     (case mainpc s of
        MArgs \<Rightarrow> if args = [] \<or> hd args = ''--help'' \<or> r \<noteq> 0 then Some (errExitEN s) else Some (s\<lparr>mainpc := MCreate 0\<rparr>)
      | MCreate j \<Rightarrow>
          if j < length args then
            (case getInt (Some (args ! j)) GN_NONNEG None of
               Inl e \<Rightarrow> Some (errExitEN s)
             | Inr sleepTime \<Rightarrow>
                 if r \<noteq> 0 then Some (errExitEN s)
                 else Some (s\<lparr>thread := thread s @ [\<lparr>t_pc = TWork, t_state = TS_ALIVE\<rparr>], mainpc := MCreate (Suc j)\<rparr>))
          else Some (s\<lparr>totThreads := int (length args), numLive := int (length args), mainpc := MHead\<rparr>)
      | MHead \<Rightarrow> Some (s\<lparr>mainpc := (if numLive s > 0 then MLock else MExit 0)\<rparr>)
      | MLock \<Rightarrow>
          if r \<noteq> 0 then Some (errExitEN s)
          else if owner s = None then Some (s\<lparr>owner := Some 0, mainpc := MTest\<rparr>) else None
      | MTest \<Rightarrow>
          if numUnjoined s = 0 then
            if r \<noteq> 0 then Some (errExitEN s) else Some (s\<lparr>owner := None, mainpc := MWait\<rparr>)
          else Some (s\<lparr>mainpc := MScan 0\<rparr>)
      | MWait \<Rightarrow> None
      | MWoken \<Rightarrow> if owner s = None then Some (s\<lparr>owner := Some 0, mainpc := MTest\<rparr>) else None
      | MScan idx \<Rightarrow>
          if int idx < totThreads s then
            (let t = thread s ! idx in
             if t_state t = TS_TERMINATED then
               if r \<noteq> 0 then Some (errExitEN s)
               else if t_pc t = TEnd then
                 Some (set_thread idx (t\<lparr>t_state := TS_JOINED\<rparr>)
                   (s\<lparr>numLive := numLive s - 1, numUnjoined := numUnjoined s - 1, reaped := reaped s @ [(idx, numLive s - 1)],
                      mainpc := MScan (Suc idx)\<rparr>))
               else None
             else Some (s\<lparr>mainpc := MScan (Suc idx)\<rparr>))
          else Some (s\<lparr>mainpc := MUnlock\<rparr>)
      | MUnlock \<Rightarrow> if r \<noteq> 0 then Some (errExitEN s) else Some (s\<lparr>owner := None, mainpc := MHead\<rparr>)
      | MExit n \<Rightarrow> None)"

fun step :: "string list \<Rightarrow> event \<Rightarrow> mjs \<Rightarrow> mjs option" where
  "step args (Main r) s = main_step args r s"
| "step args (Thread i r) s = thread_step i r s"
| "step args Spurious s = (if mainpc s = MWait then Some (s\<lparr>mainpc := MWoken\<rparr>) else None)"

section \<open>Invariant\<close>

definition is_terminated :: "tinfo \<Rightarrow> int" where
  "is_terminated t = (if t_state t = TS_TERMINATED then 1 else 0)"

definition thread_ok :: "tinfo \<Rightarrow> bool" where
  "thread_ok t \<longleftrightarrow> (t_state t = TS_ALIVE) = (t_pc t \<in> {TWork, TLock, TUpdate}) \<and> (t_state t = TS_JOINED \<longrightarrow> t_pc t = TEnd)"

definition mutex_ok :: "mjs \<Rightarrow> bool" where
  "mutex_ok s \<longleftrightarrow>
     (mainpc s \<in> {MTest, MUnlock} \<or> (\<exists>i. mainpc s = MScan i)) = (owner s = Some 0) \<and>
     (\<forall>i<length (thread s). (t_pc (thread s ! i) \<in> {TUpdate, TUnlock}) = (owner s = Some (Suc i))) \<and>
     (\<forall>i. owner s = Some (Suc i) \<longrightarrow> i < length (thread s))"

definition counts_ok :: "mjs \<Rightarrow> bool" where
  "counts_ok s \<longleftrightarrow> (\<forall>t\<in>set (thread s). thread_ok t) \<and> numUnjoined s = sum_list (map is_terminated (thread s))"

text \<open>The output so far: each joined thread once, counting down.\<close>

definition reaped_ok :: "nat \<Rightarrow> mjs \<Rightarrow> bool" where
  "reaped_ok n s \<longleftrightarrow> distinct (map fst (reaped s)) \<and>
     set (map fst (reaped s)) = {i. i < length (thread s) \<and> t_state (thread s ! i) = TS_JOINED} \<and>
     map snd (reaped s) = map (\<lambda>k. int n - 1 - int k) [0..<length (reaped s)]"

definition wake_ok :: "mjs \<Rightarrow> bool" where
  "wake_ok s \<longleftrightarrow> mainpc s = MWait \<longrightarrow> numUnjoined s = 0 \<or> (\<exists>i<length (thread s). t_pc (thread s ! i) \<in> {TUnlock, TSignal})"

definition main_ok :: "nat \<Rightarrow> mjs \<Rightarrow> bool" where
  "main_ok n s \<longleftrightarrow>
     (case mainpc s of
        MArgs \<Rightarrow> thread s = [] \<and> reaped s = []
      | MCreate j \<Rightarrow> j \<le> n \<and> length (thread s) = j \<and> reaped s = []
      | _ \<Rightarrow> length (thread s) = n \<and> totThreads s = int n \<and> numLive s = int n - int (length (reaped s))) \<and>
     (mainpc s \<in> {MLock, MTest, MWait, MWoken} \<longrightarrow> 0 < numLive s) \<and>
     (\<forall>i. mainpc s = MScan i \<longrightarrow> i \<le> n \<and> (\<forall>j<i. t_state (thread s ! j) \<noteq> TS_TERMINATED)) \<and>
     (mainpc s = MUnlock \<longrightarrow> numUnjoined s = 0) \<and> (mainpc s = MExit 0 \<longrightarrow> numLive s \<le> 0)"

definition mj_inv :: "string list \<Rightarrow> mjs \<Rightarrow> bool" where
  "mj_inv args s \<longleftrightarrow> mainpc s = MExit 1 \<or>
     mutex_ok s \<and> counts_ok s \<and> reaped_ok (length args) s \<and> wake_ok s \<and> main_ok (length args) s"

lemma mj_inv_start: "mj_inv args start"
  by (simp add: mj_inv_def start_def mutex_ok_def counts_ok_def reaped_ok_def wake_ok_def main_ok_def)

lemmas mj_inv_parts = mutex_ok_def counts_ok_def reaped_ok_def wake_ok_def main_ok_def

text \<open>The main thread has locked the mutex, before the test of \<open>numUnjoined\<close>.\<close>

lemma mj_inv_locked:
  assumes "mj_inv args s" and "mainpc s \<in> {MLock, MWoken}" and "owner s = None"
  shows "mj_inv args (s\<lparr>owner := Some 0, mainpc := MTest\<rparr>)"
proof -
  let ?t = "s\<lparr>owner := Some 0, mainpc := MTest\<rparr>"
  from assms(1,2) have i: "mutex_ok s" "counts_ok s" "reaped_ok (length args) s" "main_ok (length args) s" by (auto simp: mj_inv_def)
  from i(1) assms(3) have "mutex_ok ?t" by (simp add: mutex_ok_def)
  moreover from i(2,3) have "counts_ok ?t" "reaped_ok (length args) ?t" by (simp_all add: counts_ok_def reaped_ok_def)
  moreover from i(4) assms(2) have "main_ok (length args) ?t" by (auto simp: main_ok_def)
  ultimately show ?thesis by (simp add: mj_inv_def wake_ok_def)
qed

text \<open>A thread has been joined.\<close>

lemma inv_joined:
  assumes "mj_inv args s" and "mainpc s = MScan i" "int i < totThreads s" "t_state (thread s ! i) = TS_TERMINATED"
    "t_pc (thread s ! i) = TEnd"
    and "s' = set_thread i ((thread s ! i)\<lparr>t_state := TS_JOINED\<rparr>)
    (s\<lparr>numLive := numLive s - 1, numUnjoined := numUnjoined s - 1, reaped := reaped s @ [(i, numLive s - 1)],
       mainpc := MScan (Suc i)\<rparr>)"
  shows "mj_inv args s'"
proof -
  let ?y = "(thread s ! i)\<lparr>t_state := TS_JOINED\<rparr>"
  from assms(1,2) have iv: "mutex_ok s" "counts_ok s" "reaped_ok (length args) s" "main_ok (length args) s" by (simp_all add: mj_inv_def)
  from iv(4) assms(2,3) have n: "length (thread s) = length args" "numLive s = int (length args) - int (length (reaped s))"
    "i < length args" "totThreads s = int (length args)" by (simp_all add: main_ok_def)
  have f: "thread s' = (thread s)[i := ?y]" "owner s' = owner s" "mainpc s' = MScan (Suc i)" "totThreads s' = totThreads s"
    "numLive s' = numLive s - 1" "numUnjoined s' = numUnjoined s - 1" "reaped s' = reaped s @ [(i, numLive s - 1)]"
    by (simp_all add: assms(6) set_thread_def)
  have nth: "thread s' ! j = (if j = i then ?y else thread s ! j)" if "j < length args" for j
    using that n(1,3) by (simp add: f)
  have "thread_ok ?y" using assms(5) by (simp add: thread_ok_def)
  then have "\<forall>x\<in>set (thread s'). thread_ok x"
    using iv(2) set_update_subset_insert [of "thread s" i ?y] unfolding f counts_ok_def by blast
  moreover have "sum_list (map is_terminated (thread s')) = numUnjoined s - 1"
    using iv(2) assms(4) n by (simp add: f(1) sum_list_update_int counts_ok_def is_terminated_def)
  ultimately have c: "counts_ok s'" by (simp add: counts_ok_def f(6))
  have r: "reaped_ok (length args) s'"
  proof -
    from iv(3) assms(4) have new: "i \<notin> set (map fst (reaped s))" by (simp add: reaped_ok_def)
    have "{j. j < length (thread s') \<and> t_state (thread s' ! j) = TS_JOINED} =
        insert i {j. j < length (thread s) \<and> t_state (thread s ! j) = TS_JOINED}"
      using n(1,3) by (auto simp: f(1) nth_list_update)
    with iv(3) new n(2) show ?thesis by (simp add: reaped_ok_def f(7))
  qed
  have m: "mutex_ok s'"
    using iv(1) assms(2,5) n(1,3) nth by (auto simp: mutex_ok_def f(1-3) nth_list_update)
  have "\<forall>j<Suc i. t_state (thread s' ! j) \<noteq> TS_TERMINATED"
    using iv(4) assms(2) n(3) by (auto simp: nth main_ok_def less_Suc_eq)
  with n have "main_ok (length args) s'" by (simp add: main_ok_def f)
  with c r m show ?thesis by (simp add: mj_inv_def wake_ok_def f(3))
qed

lemma mj_inv_main_step:
  assumes "mj_inv args s" and "main_step args r s = Some s'"
  shows "mj_inv args s'"
proof (cases "s' = errExitEN s")
  case True
  then show ?thesis by (simp add: mj_inv_def errExitEN_def)
next
  case False
  have iv: "mutex_ok s" "counts_ok s" "reaped_ok (length args) s" "wake_ok s" "main_ok (length args) s" if "mainpc s \<noteq> MExit 1"
    using assms(1) that by (simp_all add: mj_inv_def)
  show ?thesis
  proof (cases "mainpc s")
    case MArgs
    with assms(2) False have "s' = s\<lparr>mainpc := MCreate 0\<rparr>" by (auto simp: main_step_def split: if_splits)
    with MArgs iv show ?thesis by (simp add: mj_inv_def mj_inv_parts)
  next
    case (MCreate j)
    show ?thesis
    proof (cases "j < length args")
      case True
      with MCreate assms(2) False have "s' = s\<lparr>thread := thread s @ [\<lparr>t_pc = TWork, t_state = TS_ALIVE\<rparr>], mainpc := MCreate (Suc j)\<rparr>"
        by (auto simp: main_step_def split: sum.splits if_splits)
      with True MCreate iv show ?thesis
        by (auto simp: mj_inv_def mj_inv_parts nth_append thread_ok_def is_terminated_def less_Suc_eq)
    next
      case False
      with MCreate assms(2) have "s' = s\<lparr>totThreads := int (length args), numLive := int (length args), mainpc := MHead\<rparr>"
        by (simp add: main_step_def)
      with False MCreate iv show ?thesis by (simp add: mj_inv_def mj_inv_parts)
    qed
  next
    case MHead
    with assms(2) have "s' = s\<lparr>mainpc := (if numLive s > 0 then MLock else MExit 0)\<rparr>" by (simp add: main_step_def)
    with MHead iv show ?thesis by (cases "numLive s > 0") (simp_all add: mj_inv_def mj_inv_parts)
  next
    case MLock
    with assms(2) False have "owner s = None" "s' = s\<lparr>owner := Some 0, mainpc := MTest\<rparr>"
      by (auto simp: main_step_def split: if_splits)
    with assms(1) MLock show ?thesis by (simp add: mj_inv_locked)
  next
    case MTest
    with assms(2) False consider "numUnjoined s \<noteq> 0" "s' = s\<lparr>mainpc := MScan 0\<rparr>" | "numUnjoined s = 0" "s' = s\<lparr>owner := None, mainpc := MWait\<rparr>"
      by (auto simp: main_step_def split: if_splits)
    then show ?thesis by cases (use MTest iv in \<open>simp_all add: mj_inv_def mj_inv_parts\<close>)
  next
    case MWoken
    with assms(2) have "owner s = None" "s' = s\<lparr>owner := Some 0, mainpc := MTest\<rparr>" by (simp_all add: main_step_def split: if_splits)
    with assms(1) MWoken show ?thesis by (simp add: mj_inv_locked)
  next
    case (MScan i)
    with assms(2) False consider
        (joined) "int i < totThreads s" "t_state (thread s ! i) = TS_TERMINATED" "t_pc (thread s ! i) = TEnd"
          "s' = set_thread i ((thread s ! i)\<lparr>t_state := TS_JOINED\<rparr>) (s\<lparr>numLive := numLive s - 1,
             numUnjoined := numUnjoined s - 1, reaped := reaped s @ [(i, numLive s - 1)], mainpc := MScan (Suc i)\<rparr>)"
      | (skipped) "int i < totThreads s" "t_state (thread s ! i) \<noteq> TS_TERMINATED" "s' = s\<lparr>mainpc := MScan (Suc i)\<rparr>"
      | (last) "\<not> int i < totThreads s" "s' = s\<lparr>mainpc := MUnlock\<rparr>"
      by (auto simp: main_step_def Let_def split: if_splits)
    then show ?thesis
    proof cases
      case joined
      with inv_joined [OF assms(1) MScan] show ?thesis by blast
    next
      case skipped
      with MScan iv show ?thesis by (auto simp: mj_inv_def mj_inv_parts less_Suc_eq)
    next
      case last
      have "\<forall>x\<in>set (thread s). t_state x \<noteq> TS_TERMINATED"
        using iv(5) MScan last(1) by (auto simp: main_ok_def in_set_conv_nth)
      then have "sum_list (map is_terminated (thread s)) = 0"
        by (intro sum_list_0_all) (simp add: is_terminated_def)
      then have "numUnjoined s = 0" using iv(2) MScan by (simp add: counts_ok_def)
      with last MScan iv show ?thesis by (simp add: mj_inv_def mj_inv_parts)
    qed
  next
    case MUnlock
    with assms(2) False have "s' = s\<lparr>owner := None, mainpc := MHead\<rparr>" by (auto simp: main_step_def split: if_splits)
    with MUnlock iv show ?thesis by (simp add: mj_inv_def mj_inv_parts)
  qed (use assms(2) in \<open>simp_all add: main_step_def\<close>)
qed

text \<open>A thread moves on, together with a change of the shared state.\<close>

lemma thread_stepE:
  assumes "thread_step i r s = Some s'"
  obtains (failed) "s' = errExitEN s"
  | (works) "t_pc (thread s ! i) = TWork" "s' = set_thread i ((thread s ! i)\<lparr>t_pc := TLock\<rparr>) s"
  | (locks) "t_pc (thread s ! i) = TLock" "owner s = None"
      "s' = set_thread i ((thread s ! i)\<lparr>t_pc := TUpdate\<rparr>) (s\<lparr>owner := Some (Suc i)\<rparr>)"
  | (updates) "t_pc (thread s ! i) = TUpdate"
      "s' = set_thread i ((thread s ! i)\<lparr>t_pc := TUnlock, t_state := TS_TERMINATED\<rparr>) (s\<lparr>numUnjoined := numUnjoined s + 1\<rparr>)"
  | (unlocks) "t_pc (thread s ! i) = TUnlock"
      "s' = set_thread i ((thread s ! i)\<lparr>t_pc := TSignal\<rparr>) (s\<lparr>owner := None\<rparr>)"
  | (signals) "t_pc (thread s ! i) = TSignal"
      "s' = set_thread i ((thread s ! i)\<lparr>t_pc := TEnd\<rparr>) (s\<lparr>mainpc := (if mainpc s = MWait then MWoken else mainpc s)\<rparr>)"
  using assms by (cases "t_pc (thread s ! i)") (auto simp: thread_step_def Let_def split: if_splits)

definition locked_pc :: "mpc \<Rightarrow> bool" where
  "locked_pc pc \<longleftrightarrow> pc \<in> {MTest, MUnlock} \<or> (\<exists>i. pc = MScan i)"

lemma mj_mutex_move:
  assumes "mutex_ok s" "i < length (thread s)" "thread t = (thread s)[i := y]" "locked_pc (mainpc t) = locked_pc (mainpc s)"
    "(t_pc y \<in> {TUpdate, TUnlock}) = (owner t = Some (Suc i))"
    "owner t = owner s \<or> owner s = None \<and> owner t = Some (Suc i) \<or> owner s = Some (Suc i) \<and> owner t = None"
  shows "mutex_ok t"
  unfolding mutex_ok_def locked_pc_def [symmetric]
proof (intro conjI allI impI)
  show "locked_pc (mainpc t) = (owner t = Some 0)"
    using assms(1,4,6) by (auto simp: mutex_ok_def locked_pc_def)
  show "j < length (thread t)" if "owner t = Some (Suc j)" for j
    using that assms(1,2,3,6) by (auto simp: mutex_ok_def)
  show "(t_pc (thread t ! j) \<in> {TUpdate, TUnlock}) = (owner t = Some (Suc j))" if "j < length (thread t)" for j
  proof (cases "j = i")
    case False
    moreover from that assms(3) have "j < length (thread s)" by simp
    with assms(1) have "(t_pc (thread s ! j) \<in> {TUpdate, TUnlock}) = (owner s = Some (Suc j))" unfolding mutex_ok_def by blast
    ultimately show ?thesis using assms(3,6) by auto
  qed (use assms(2,3,5) in simp)
qed

lemma mj_wake_move:
  assumes "wake_ok s" "i < length (thread s)" "thread t = (thread s)[i := y]" "mainpc t = MWait \<Longrightarrow> mainpc s = MWait"
    "t_pc y \<in> {TUnlock, TSignal} \<or> t_pc (thread s ! i) \<notin> {TUnlock, TSignal} \<and> numUnjoined t = numUnjoined s \<or> mainpc t \<noteq> MWait"
  shows "wake_ok t"
proof (cases "mainpc t = MWait \<and> t_pc y \<notin> {TUnlock, TSignal}")
  case True
  with assms(1,4,5) consider "numUnjoined t = 0" | j where "j < length (thread s)" "t_pc (thread s ! j) \<in> {TUnlock, TSignal}" "j \<noteq> i"
    by (auto simp: wake_ok_def)
  then show ?thesis
  proof cases
    case 2
    with assms(3) have "t_pc (thread t ! j) \<in> {TUnlock, TSignal}" "j < length (thread t)" by simp_all
    then show ?thesis unfolding wake_ok_def by blast
  qed (simp add: wake_ok_def)
next
  case False
  moreover have "thread t ! i = y" "i < length (thread t)" using assms(2,3) by simp_all
  ultimately show ?thesis unfolding wake_ok_def by metis
qed

lemma counts_move:
  assumes "counts_ok s" "i < length (thread s)" "thread_ok y" "thread t = (thread s)[i := y]"
    "numUnjoined t = numUnjoined s + (is_terminated y - is_terminated (thread s ! i))"
  shows "counts_ok t"
proof -
  have "\<forall>x\<in>set (thread t). thread_ok x"
    using assms(1,3,4) set_update_subset_insert [of "thread s" i y] by (auto simp: counts_ok_def)
  with assms(1,2,4,5) show ?thesis by (simp add: counts_ok_def sum_list_update_int)
qed

lemma reaped_move:
  assumes "reaped_ok n s" "i < length (thread s)" "thread t = (thread s)[i := y]" "reaped t = reaped s"
    "(t_state y = TS_JOINED) = (t_state (thread s ! i) = TS_JOINED)"
  shows "reaped_ok n t"
proof -
  have "{j. j < length (thread t) \<and> t_state (thread t ! j) = TS_JOINED} =
      {j. j < length (thread s) \<and> t_state (thread s ! j) = TS_JOINED}"
    using assms(2,3,5) by (auto simp: nth_list_update)
  with assms(1,4) show ?thesis by (simp add: reaped_ok_def)
qed

text \<open>While the main thread holds the mutex a thread ends without changing its state.\<close>

lemma main_move:
  assumes "main_ok n s" "i < length (thread s)" "thread t = (thread s)[i := y]"
    "reaped t = reaped s" "totThreads t = totThreads s" "numLive t = numLive s"
    "locked_pc (mainpc s) \<Longrightarrow> t_state y = t_state (thread s ! i) \<and> numUnjoined t = numUnjoined s"
    "mainpc t = mainpc s \<or> mainpc s = MWait \<and> mainpc t = MWoken"
  shows "main_ok n t"
  using assms(8)
proof
  assume pc: "mainpc t = mainpc s"
  have "t_state (thread t ! j) = t_state (thread s ! j)" if "locked_pc (mainpc s)" for j
    using assms(2,3,7) that by (cases "j = i") simp_all
  moreover have "length (thread t) = length (thread s)" "thread t = [] \<longleftrightarrow> thread s = []" using assms(3) by simp_all
  ultimately show ?thesis using assms(1,4-7) pc by (auto simp: main_ok_def locked_pc_def split: mpc.splits)
next
  assume "mainpc s = MWait \<and> mainpc t = MWoken"
  with assms(1,3-6) show ?thesis by (simp add: main_ok_def)
qed

lemma inv_thread_step:
  assumes "mj_inv args s" and "thread_step i r s = Some s'"
  shows "mj_inv args s'"
proof -
  let ?t = "thread s ! i"
  from assms(2) have ex: "\<not> exited s" and i: "i < length (thread s)" by (auto simp: thread_step_def split: if_splits)
  with assms(1) have m: "mutex_ok s" and c: "counts_ok s" and p: "reaped_ok (length args) s" and w: "wake_ok s"
    and k: "main_ok (length args) s" by (auto simp: mj_inv_def exited_def)
  from c i have ok: "thread_ok ?t" by (auto simp: counts_ok_def)
  have own: "(t_pc ?t \<in> {TUpdate, TUnlock}) = (owner s = Some (Suc i))" using m i by (simp add: mutex_ok_def)
  have lock: "locked_pc (mainpc s) = (owner s = Some 0)" using m by (simp add: mutex_ok_def locked_pc_def)
  have moved: "mj_inv args s'" if "thread s' = (thread s)[i := y]" "thread_ok y" "(t_state y = TS_JOINED) = (t_state ?t = TS_JOINED)"
      "numUnjoined s' = numUnjoined s + (is_terminated y - is_terminated ?t)"
      "locked_pc (mainpc s) \<Longrightarrow> t_state y = t_state ?t"
      "(t_pc y \<in> {TUpdate, TUnlock}) = (owner s' = Some (Suc i))"
      "owner s' = owner s \<or> owner s = None \<and> owner s' = Some (Suc i) \<or> owner s = Some (Suc i) \<and> owner s' = None"
      "t_pc y \<in> {TUnlock, TSignal} \<or> t_pc ?t \<notin> {TUnlock, TSignal} \<and> numUnjoined s' = numUnjoined s \<or> mainpc s' \<noteq> MWait"
      "reaped s' = reaped s" "totThreads s' = totThreads s" "numLive s' = numLive s"
      "mainpc s' = mainpc s \<or> mainpc s = MWait \<and> mainpc s' = MWoken" for y
  proof -
    from counts_move [OF c i that(2,1,4)] have "counts_ok s'" .
    moreover from reaped_move [OF p i that(1,9,3)] have "reaped_ok (length args) s'" .
    moreover from main_move [OF k i that(1,9,10,11)] that(4,5,12) have "main_ok (length args) s'" by (simp add: is_terminated_def)
    moreover from mj_wake_move [OF w i that(1)] that(8,12) have "wake_ok s'" by auto
    moreover have "locked_pc (mainpc s') = locked_pc (mainpc s)" using that(12) by (elim disjE) (simp_all add: locked_pc_def)
    from mj_mutex_move [OF m i that(1) this that(6,7)] have "mutex_ok s'" .
    ultimately show ?thesis by (simp add: mj_inv_def)
  qed
  note simps = set_thread_def thread_ok_def is_terminated_def
  show ?thesis
  proof (cases rule: thread_stepE [OF assms(2), case_names failed works locks updates unlocks signals])
    case failed
    then show ?thesis by (simp add: mj_inv_def errExitEN_def)
  next
    case works
    show ?thesis by (rule moved [where y = "?t\<lparr>t_pc := TLock\<rparr>"]) (use works i ok own lock in \<open>auto simp: simps\<close>)
  next
    case locks
    show ?thesis by (rule moved [where y = "?t\<lparr>t_pc := TUpdate\<rparr>"]) (use locks i ok own lock in \<open>auto simp: simps\<close>)
  next
    case updates
    show ?thesis
      by (rule moved [where y = "?t\<lparr>t_pc := TUnlock, t_state := TS_TERMINATED\<rparr>"]) (use updates i ok own lock in \<open>auto simp: simps\<close>)
  next
    case unlocks
    show ?thesis by (rule moved [where y = "?t\<lparr>t_pc := TSignal\<rparr>"]) (use unlocks i ok own lock in \<open>auto simp: simps\<close>)
  next
    case signals
    show ?thesis by (rule moved [where y = "?t\<lparr>t_pc := TEnd\<rparr>"]) (use signals i ok own lock in \<open>auto simp: simps\<close>)
  qed
qed

lemma mj_inv_step:
  assumes "mj_inv args s" and "step args e s = Some s'"
  shows "mj_inv args s'"
proof (cases e)
  case Spurious
  with assms(2) have w: "mainpc s = MWait" and s': "s' = s\<lparr>mainpc := MWoken\<rparr>" by (auto split: if_splits)
  with assms(1) show ?thesis by (auto simp: mj_inv_def mj_inv_parts)
next
  case (Main r)
  with mj_inv_main_step [OF assms(1)] assms(2) show ?thesis by simp
next
  case (Thread i r)
  with inv_thread_step [OF assms(1)] assms(2) show ?thesis by simp
qed

section \<open>Progress\<close>

text \<open>No deadlock: unless the process has ended, some thread can go on without a spurious wake-up.
  A thread that the main thread joins while it holds the mutex has only its signal left.\<close>

lemma thread_can_go:
  assumes "\<not> exited s" "i < length (thread s)" "t_pc (thread s ! i) \<noteq> TEnd" "t_pc (thread s ! i) = TLock \<Longrightarrow> owner s = None"
  shows "thread_step i 0 s \<noteq> None"
  using assms by (cases "t_pc (thread s ! i)") (auto simp: thread_step_def Let_def)

lemma reaped_number: "reaped_ok n s \<Longrightarrow> length (reaped s) = card {i. i < length (thread s) \<and> t_state (thread s ! i) = TS_JOINED}"
  by (metis distinct_card length_map reaped_ok_def)

lemma all_joined:
  assumes "reaped_ok n s" "\<forall>t\<in>set (thread s). t_state t = TS_JOINED"
  shows "length (reaped s) = length (thread s)"
proof -
  have "{i. i < length (thread s) \<and> t_state (thread s ! i) = TS_JOINED} = {..<length (thread s)}" using assms(2) by auto
  with reaped_number [OF assms(1)] show ?thesis by simp
qed

lemma not_stuck:
  assumes "mj_inv args s" "\<not> exited s"
  shows "main_step args 0 s \<noteq> None \<or> (\<exists>i. thread_step i 0 s \<noteq> None)"
proof (rule ccontr)
  assume stuck: "\<not> ?thesis"
  from assms have m: "mutex_ok s" and c: "counts_ok s" and p: "reaped_ok (length args) s" and w: "wake_ok s"
    and k: "main_ok (length args) s"
    by (auto simp: mj_inv_def exited_def)
  have go: "t_pc (thread s ! i) = TEnd \<or> t_pc (thread s ! i) = TLock \<and> owner s \<noteq> None" if "i < length (thread s)" for i
    using thread_can_go [OF assms(2) that] stuck by metis
  have own: "owner s \<noteq> Some (Suc i)" for i
    using m go [of i] by (auto simp: mutex_ok_def)
  have ms: "main_step args 0 s = None" using stuck by blast
  show False
  proof (cases "mainpc s")
    case (MScan i)
    with ms have "i < length (thread s)" "t_state (thread s ! i) = TS_TERMINATED" "t_pc (thread s ! i) \<noteq> TEnd"
      using k by (auto simp: main_step_def main_ok_def Let_def split: if_splits)
    moreover from this(1) c have "thread_ok (thread s ! i)" by (simp add: counts_ok_def)
    ultimately show False using go [of i] by (auto simp: thread_ok_def)
  next
    case MLock
    with ms own m show False by (cases "owner s"; cases "the (owner s)") (auto simp: main_step_def mutex_ok_def)
  next
    case MWoken
    with ms own m show False by (cases "owner s"; cases "the (owner s)") (auto simp: main_step_def mutex_ok_def)
  next
    case MWait
    have "owner s = None"
      using MWait own m by (cases "owner s"; cases "the (owner s)") (auto simp: mutex_ok_def)
    with go have ends: "\<forall>i<length (thread s). t_pc (thread s ! i) = TEnd" by auto
    with w MWait have u: "numUnjoined s = 0" by (auto simp: wake_ok_def)
    have "\<forall>t\<in>set (thread s). t_state t = TS_JOINED"
    proof
      fix t assume t: "t \<in> set (thread s)"
      with ends have "t_pc t = TEnd" by (auto simp: in_set_conv_nth)
      with c t have "t_state t \<noteq> TS_ALIVE" by (auto simp: counts_ok_def thread_ok_def)
      moreover have "is_terminated t = 0"
      proof -
        have "\<forall>x\<in>set (map is_terminated (thread s)). 0 \<le> x" by (auto simp: is_terminated_def)
        with sum_list_nonneg_eq_0_iff [of "map is_terminated (thread s)"] u c t show ?thesis by (simp add: counts_ok_def)
      qed
      ultimately show "t_state t = TS_JOINED" by (cases "t_state t") (auto simp: is_terminated_def)
    qed
    with all_joined [OF p] k MWait show False by (auto simp: main_ok_def)
  qed (use ms assms(2) in \<open>auto simp: main_step_def exited_def split: sum.splits if_splits\<close>)
qed

text \<open>How much is left to do: the way of each thread to its end, with room for the wake-up it causes,
  and a scan of all threads for each one that is still to be joined.\<close>

definition thread_left :: "tinfo \<Rightarrow> int" where
  "thread_left t = (case t_pc t of TWork \<Rightarrow> 7 | TLock \<Rightarrow> 6 | TUpdate \<Rightarrow> 5 | TUnlock \<Rightarrow> 4 | TSignal \<Rightarrow> 3 | TEnd \<Rightarrow> 0)"

definition main_left :: "int \<Rightarrow> mjs \<Rightarrow> int" where
  "main_left n s =
     (case mainpc s of
        MArgs \<Rightarrow> n * (n + 6) + 8 * n + 3
      | MCreate j \<Rightarrow> n * (n + 6) + 8 * (n - int j) + 2
      | MHead \<Rightarrow> numLive s * (n + 6) + 1
      | MLock \<Rightarrow> numLive s * (n + 6) | MWoken \<Rightarrow> numLive s * (n + 6)
      | MTest \<Rightarrow> numLive s * (n + 6) - 1 | MWait \<Rightarrow> numLive s * (n + 6) - 2
      | MScan i \<Rightarrow> (numLive s - numUnjoined s) * (n + 6) + (n - int i) + 3
      | MUnlock \<Rightarrow> numLive s * (n + 6) + 2
      | MExit _ \<Rightarrow> 0)"

definition left :: "string list \<Rightarrow> mjs \<Rightarrow> int" where
  "left args s = (if exited s then 0 else sum_list (map thread_left (thread s)) + main_left (int (length args)) s)"

lemma unjoined_live:
  assumes "counts_ok s" "reaped_ok n s" "length (thread s) = n"
  shows "0 \<le> numUnjoined s" "numUnjoined s + int (length (reaped s)) \<le> int n"
proof -
  show "0 \<le> numUnjoined s"
    using assms(1) by (auto simp: counts_ok_def is_terminated_def intro!: sum_list_nonneg)
  let ?T = "{i. i < n \<and> t_state (thread s ! i) = TS_TERMINATED}" and ?J = "{i. i < n \<and> t_state (thread s ! i) = TS_JOINED}"
  have "sum_list (map is_terminated (thread s)) = (\<Sum>i<n. is_terminated (thread s ! i))"
    using assms(3) by (simp add: sum_list_sum_nth atLeast0LessThan)
  also have "\<dots> = int (card ?T)"
    by (simp add: is_terminated_def sum.If_cases Int_def)
  finally have "numUnjoined s = int (card ?T)" using assms(1) by (simp add: counts_ok_def)
  moreover have "card ?T + card ?J \<le> n"
  proof -
    have "card ?T + card ?J = card (?T \<union> ?J)" by (rule card_Un_disjoint [symmetric]) auto
    also have "\<dots> \<le> card {..<n}" by (rule card_mono) auto
    finally show ?thesis by simp
  qed
  ultimately show "numUnjoined s + int (length (reaped s)) \<le> int n"
    using reaped_number [OF assms(2)] assms(3) by simp
qed

lemma live_6: "0 < l \<Longrightarrow> 0 \<le> n \<Longrightarrow> 6 \<le> l * (n + 6)" for l n :: int
  using mult_mono [of 1 l 6 "n + 6"] by simp

lemma mj_left_positive:
  assumes "mj_inv args s" "\<not> exited s"
  shows "0 < left args s"
proof -
  let ?n = "int (length args)"
  from assms have c: "counts_ok s" and p: "reaped_ok (length args) s" and k: "main_ok (length args) s"
    by (auto simp: mj_inv_def exited_def)
  have "0 \<le> sum_list (map thread_left (thread s))"
    by (intro sum_list_nonneg) (auto simp: thread_left_def split: tpc.splits)
  moreover have "0 < main_left ?n s"
  proof (cases "mainpc s")
    case (MCreate j)
    with k show ?thesis by (simp add: main_left_def main_ok_def add_nonneg_pos)
  next
    case (MScan i)
    then have l: "length (thread s) = length args" "numLive s = ?n - int (length (reaped s))" "int i \<le> ?n"
      using k by (simp_all add: main_ok_def)
    from unjoined_live [OF c p l(1)] l(2) have "0 \<le> (numLive s - numUnjoined s) * (?n + 6)" by simp
    with MScan l(3) show ?thesis by (simp add: main_left_def)
  next
    case MHead
    then have l: "length (thread s) = length args" "numLive s = ?n - int (length (reaped s))" using k by (simp_all add: main_ok_def)
    from unjoined_live [OF c p l(1)] l(2) have "0 \<le> numLive s * (?n + 6)" by simp
    with MHead show ?thesis by (simp add: main_left_def)
  next
    case MUnlock
    then have l: "length (thread s) = length args" "numLive s = ?n - int (length (reaped s))" using k by (simp_all add: main_ok_def)
    from unjoined_live [OF c p l(1)] l(2) have "0 \<le> numLive s * (?n + 6)" by simp
    with MUnlock show ?thesis by (simp add: main_left_def)
  next
    case (MExit x)
    with assms(2) show ?thesis by (simp add: exited_def)
  next
    case MArgs
    then show ?thesis by (simp add: main_left_def add_nonneg_pos)
  qed (use k live_6 [of "numLive s" ?n] in \<open>auto simp: main_left_def main_ok_def\<close>)
  ultimately show ?thesis using assms(2) by (simp add: left_def)
qed

lemma scan_bound: "1 \<le> u \<Longrightarrow> 0 \<le> n \<Longrightarrow> 4 + (n - u * (n + 6)) < 0" for u n :: int
  using mult_nonneg_nonneg [of "u - 1" "n + 6"] by (simp add: algebra_simps)

lemma mj_left_main_step:
  assumes "mj_inv args s" "main_step args r s = Some s'"
  shows "left args s' < left args s"
proof -
  let ?n = "int (length args)"
  have ex: "\<not> exited s" using assms(2) by (auto simp: exited_def main_step_def)
  note pos = mj_left_positive [OF assms(1) this]
  from assms(1) ex have c: "counts_ok s" and k: "main_ok (length args) s" and p: "reaped_ok (length args) s"
    by (auto simp: mj_inv_def exited_def)
  show ?thesis
  proof (cases "exited s'")
    case True
    with pos show ?thesis by (simp add: left_def)
  next
    case False
    then have ne: "s' \<noteq> errExitEN s" by (auto simp: errExitEN_def exited_def)
    have same: "left args s' < left args s" if "thread s' = thread s" "main_left ?n s' < main_left ?n s"
      using that ex False by (simp add: left_def)
    show ?thesis
    proof (cases "mainpc s")
      case (MCreate j)
      show ?thesis
      proof (cases "j < length args")
        case True
        with MCreate assms(2) ne have "s' = s\<lparr>thread := thread s @ [\<lparr>t_pc = TWork, t_state = TS_ALIVE\<rparr>], mainpc := MCreate (Suc j)\<rparr>"
          by (auto simp: main_step_def split: sum.splits if_splits)
        with MCreate ex False show ?thesis by (simp add: left_def main_left_def thread_left_def)
      next
        case no: False
        with MCreate assms(2) k show ?thesis by (intro same) (auto simp: main_step_def main_left_def main_ok_def)
      qed
    next
      case MTest
      show ?thesis
      proof (cases "numUnjoined s = 0")
        case True
        with MTest assms(2) ne show ?thesis by (intro same) (auto simp: main_step_def main_left_def split: if_splits)
      next
        case no: False
        then have s': "s' = s\<lparr>mainpc := MScan 0\<rparr>" using MTest assms(2) by (simp add: main_step_def)
        have "length (thread s) = length args" using k MTest by (simp add: main_ok_def)
        from unjoined_live [OF c p this] no have "1 \<le> numUnjoined s" by simp
        from scan_bound [OF this, of ?n] show ?thesis using MTest by (intro same) (simp_all add: s' main_left_def left_diff_distrib)
      qed
    next
      case (MScan i)
      with assms(2) ne consider
          (joined) "s' = set_thread i ((thread s ! i)\<lparr>t_state := TS_JOINED\<rparr>) (s\<lparr>numLive := numLive s - 1,
             numUnjoined := numUnjoined s - 1, reaped := reaped s @ [(i, numLive s - 1)], mainpc := MScan (Suc i)\<rparr>)" "int i < totThreads s"
        | (skipped) "s' = s\<lparr>mainpc := MScan (Suc i)\<rparr>"
        | (last) "\<not> int i < totThreads s" "s' = s\<lparr>mainpc := MUnlock\<rparr>"
        by (auto simp: main_step_def Let_def split: if_splits)
      then show ?thesis
      proof cases
        case joined
        have "i < length (thread s)" using joined(2) k MScan by (simp add: main_ok_def)
        then have "sum_list (map thread_left (thread s')) = sum_list (map thread_left (thread s))"
          by (simp add: joined set_thread_def sum_list_update_int thread_left_def)
        moreover have "main_left ?n s' < main_left ?n s" using MScan by (simp add: joined set_thread_def main_left_def)
        ultimately show ?thesis using ex False by (simp add: left_def)
      next
        case skipped
        with MScan show ?thesis by (intro same) (simp_all add: main_left_def)
      next
        case last
        have "mj_inv args s'" by (rule mj_inv_main_step [OF assms])
        with last(2) have "numUnjoined s = 0" by (simp add: mj_inv_def main_ok_def)
        with last MScan k show ?thesis by (intro same) (simp_all add: main_left_def main_ok_def)
      qed
    qed (use assms(2) ne False in \<open>auto simp: left_def main_step_def main_left_def exited_def split: if_splits\<close>)
  qed
qed

lemma main_left_cong:
  assumes "mainpc t = mainpc s" "numLive t = numLive s" "numUnjoined t = numUnjoined s \<or> (\<forall>j. mainpc s \<noteq> MScan j)"
  shows "main_left n t = main_left n s"
  using assms by (cases "mainpc s") (auto simp: main_left_def)

lemma left_thread_step:
  assumes "mj_inv args s" "thread_step i r s = Some s'"
  shows "left args s' < left args s"
proof -
  let ?t = "thread s ! i" and ?n = "int (length args)"
  from assms(2) have ex: "\<not> exited s" and i: "i < length (thread s)" by (auto simp: thread_step_def split: if_splits)
  note pos = mj_left_positive [OF assms(1) ex]
  from assms(1) ex have m: "mutex_ok s" by (auto simp: mj_inv_def exited_def)
  have moved: "left args s' < left args s" if "thread s' = (thread s)[i := y]" "thread_left y < thread_left ?t" "mainpc s' = mainpc s"
      "numLive s' = numLive s" "numUnjoined s' = numUnjoined s \<or> (\<forall>j. mainpc s \<noteq> MScan j)" for y
    using that i ex main_left_cong [OF that(3,4,5)] by (simp add: left_def sum_list_update_int exited_def)
  note simps = set_thread_def thread_left_def
  show ?thesis
  proof (cases rule: thread_stepE [OF assms(2), case_names failed works locks updates unlocks signals])
    case failed
    with pos show ?thesis by (simp add: left_def errExitEN_def exited_def)
  next
    case works
    show ?thesis by (rule moved [where y = "?t\<lparr>t_pc := TLock\<rparr>"]) (use works in \<open>auto simp: simps\<close>)
  next
    case locks
    show ?thesis by (rule moved [where y = "?t\<lparr>t_pc := TUpdate\<rparr>"]) (use locks in \<open>auto simp: simps\<close>)
  next
    case updates
    from updates(1) m i have "owner s = Some (Suc i)" by (auto simp: mutex_ok_def)
    with m have "\<forall>j. mainpc s \<noteq> MScan j" by (auto simp: mutex_ok_def)
    then show ?thesis
      by (intro moved [where y = "?t\<lparr>t_pc := TUnlock, t_state := TS_TERMINATED\<rparr>"]) (use updates in \<open>auto simp: simps\<close>)
  next
    case unlocks
    show ?thesis by (rule moved [where y = "?t\<lparr>t_pc := TSignal\<rparr>"]) (use unlocks in \<open>auto simp: simps\<close>)
  next
    case signals
    show ?thesis
    proof (cases "mainpc s = MWait")
      case True
      with signals i ex show ?thesis
        by (simp add: left_def simps main_left_def exited_def sum_list_update_int)
    next
      case False
      show ?thesis by (rule moved [where y = "?t\<lparr>t_pc := TEnd\<rparr>"]) (use signals False in \<open>auto simp: simps\<close>)
    qed
  qed
qed

definition step_cost :: "event \<Rightarrow> int" where
  "step_cost e = (if e = Spurious then 3 else 0)"

lemma mj_left_step:
  assumes "mj_inv args s" "step args e s = Some s'"
  shows "left args s' + 1 \<le> left args s + step_cost e"
proof (cases e)
  case (Main r)
  with mj_left_main_step [OF assms(1)] assms(2) show ?thesis by (force simp: step_cost_def)
next
  case (Thread i r)
  with left_thread_step [OF assms(1)] assms(2) show ?thesis by (force simp: step_cost_def)
next
  case Spurious
  with assms(2) show ?thesis by (auto simp: left_def exited_def main_left_def step_cost_def split: if_splits)
qed

interpretation mjsteps: bounded_steps "step args" "mj_inv args" "left args" step_cost for args
  by unfold_locales (auto intro: mj_inv_step mj_left_step)

section \<open>Property\<close>

text \<open>An event that reports the failure of a call.\<close>

fun failing :: "event \<Rightarrow> bool" where
  "failing (Main r) = (r \<noteq> 0)" | "failing (Thread i r) = (r \<noteq> 0)" | "failing Spurious = False"

definition good_args :: "string list \<Rightarrow> bool" where
  "good_args args \<longleftrightarrow> args \<noteq> [] \<and> hd args \<noteq> ''--help'' \<and> (\<forall>a\<in>set args. \<exists>v. getInt (Some a) GN_NONNEG None = Inr v)"

lemma failing_step:
  assumes "step args e s = Some s'" "mainpc s' = MExit 1" "mainpc s \<noteq> MExit 1" "good_args args"
  shows "failing e"
proof (cases e)
  case (Main r)
  have "\<exists>v. getInt (Some (args ! j)) GN_NONNEG None = Inr v" if "j < length args" for j
    using assms(4) that by (simp add: good_args_def)
  with Main assms show ?thesis
    by (cases "mainpc s") (fastforce simp: main_step_def set_thread_def good_args_def Let_def split: if_splits)+
next
  case (Thread i r)
  with assms(1-3) show ?thesis
    by (cases "t_pc (thread s ! i)") (auto simp: thread_step_def set_thread_def Let_def split: if_splits)
qed (use assms in \<open>auto split: if_splits\<close>)

lemma mj_exit_value:
  assumes "step args e s = Some s'" "exited s'" "\<not> exited s"
  shows "mainpc s' \<in> {MExit 0, MExit 1}"
proof (cases e)
  case (Main r)
  with assms show ?thesis
    by (cases "mainpc s") (auto simp: main_step_def set_thread_def errExitEN_def exited_def Let_def split: if_splits sum.splits)
next
  case (Thread i r)
  with assms show ?thesis
    by (cases "t_pc (thread s ! i)") (auto simp: thread_step_def set_thread_def errExitEN_def exited_def Let_def split: if_splits)
qed (use assms in \<open>auto simp: exited_def split: if_splits\<close>)

lemma exited_stays: "exited s \<Longrightarrow> step args e s = None"
  by (cases e) (auto simp: exited_def main_step_def thread_step_def)

lemma runs_exit:
  "runs (step args) es s = Some s' \<Longrightarrow> exited s' \<Longrightarrow> \<not> exited s \<Longrightarrow> mainpc s' \<in> {MExit 0, MExit 1}"
proof (induction es arbitrary: s)
  case (Cons e es)
  then obtain s1 where s1: "step args e s = Some s1" "runs (step args) es s1 = Some s'" by (auto split: option.splits)
  show ?case
  proof (cases "exited s1")
    case True
    then have "s' = s1" using s1(2) exited_stays [OF True] by (cases es) simp_all
    with mj_exit_value [OF s1(1) True Cons.prems(3)] show ?thesis by simp
  qed (use Cons.IH [OF s1(2) Cons.prems(2)] in simp)
qed simp

lemma final_joined:
  assumes "mj_inv args s" "mainpc s = MExit 0"
  shows "distinct (map fst (reaped s)) \<and> set (map fst (reaped s)) = {..<length args} \<and>
    map snd (reaped s) = rev [0..int (length args) - 1] \<and> numUnjoined s = 0"
proof -
  from assms have c: "counts_ok s" and p: "reaped_ok (length args) s" and k: "main_ok (length args) s" by (simp_all add: mj_inv_def)
  have l: "length (thread s) = length args" "length args \<le> length (reaped s)" using k assms(2) by (simp_all add: main_ok_def)
  note u = unjoined_live [OF c p l(1)]
  with l have n: "length (reaped s) = length args" "numUnjoined s = 0" by simp_all
  have "set (map fst (reaped s)) \<subseteq> {..<length args}" using p l(1) by (auto simp: reaped_ok_def)
  moreover have "card (set (map fst (reaped s))) = length args" using p n distinct_card by (fastforce simp: reaped_ok_def)
  ultimately have "set (map fst (reaped s)) = {..<length args}" by (intro card_subset_eq) simp_all
  moreover have "map (\<lambda>k. int m - 1 - int k) [0..<m] = rev [0..int m - 1]" for m
    by (rule nth_equalityI) (simp_all add: rev_nth)
  ultimately show ?thesis using p n by (simp add: reaped_ok_def)
qed


text \<open>Two threads that end in the opposite order; the first is joined only after the second.\<close>

definition example_schedule :: "event list" where
  "example_schedule = replicate 7 (Main 0) @ [Spurious] @ replicate 2 (Main 0) @ replicate 5 (Thread 1 0) @ replicate 9 (Main 0) @
     replicate 5 (Thread 0 0) @ replicate 7 (Main 0)"


end
