(* ===== verification/Stream_Copy.thy ===== *)
theory Stream_Copy
  imports Unix_Sockets Rdwrn Daemon
begin

text \<open>
  Programs around one loop, which copies a stream of bytes until its end: \<open>fileio/copy.c\<close>, the
  transfer over UNIX domain sockets (\<open>sockets/us_xfr_cl.c\<close>, \<open>us_xfr_sv.c\<close> and their second
  versions on \<open>unix_sockets.c\<close>) and the echo service (\<open>sockets/is_echo_sv.c\<close>,
  \<open>is_echo_v2_sv.c\<close>, \<open>is_echo_inetd_sv.c\<close>, \<open>is_echo_cl.c\<close>).  The calls are the record \<open>copyk\<close>, those
  of sockets as in \<open>Unix_Sockets\<close>.  Endless servers are given as their state after any number
  of rounds; the text of diagnostics is left out.
\<close>

section \<open>The loop\<close>

text \<open>\<open>c_remove\<close>: \<open>errno\<close> if it fails.  \<open>c_sigchld\<close> installs \<open>grimReaper\<close>; \<open>c_waitpid\<close> is
  \<open>waitpid (-1, NULL, WNOHANG)\<close>, \<open>True\<close> when a child was collected.\<close>

record 's copyk =
  c_net :: "'s unixk"
  c_dk :: "'s dk"
  c_open_rd :: "string \<Rightarrow> 's \<Rightarrow> int \<times> 's"
  c_open_wr :: "string \<Rightarrow> 's \<Rightarrow> int \<times> 's"             \<comment> \<open>with \<open>O_CREAT | O_WRONLY | O_TRUNC\<close>\<close>
  c_read :: "int \<Rightarrow> 's reader"
  c_write :: "int \<Rightarrow> 's writer"
  c_close :: "int \<Rightarrow> 's \<Rightarrow> bool \<times> 's"
  c_accept :: "int \<Rightarrow> 's \<Rightarrow> int \<times> 's"
  c_shutdown_wr :: "int \<Rightarrow> 's \<Rightarrow> bool \<times> 's"
  c_remove :: "string \<Rightarrow> 's \<Rightarrow> int option \<times> 's"
  c_fork :: "'s \<Rightarrow> int \<times> 's"
  c_sigchld :: "'s \<Rightarrow> bool \<times> 's"
  c_waitpid :: "'s \<Rightarrow> bool \<times> 's"

datatype copy_end = AtEof | ReadFailed | WriteFailed

partial_function (option) copy_loop :: "'s copyk \<Rightarrow> int \<Rightarrow> int \<Rightarrow> nat \<Rightarrow> 's \<Rightarrow> (copy_end \<times> 's) option" where
  "copy_loop K ifd ofd n s =
     (case c_read K ifd s n of
        (ReadErr e, s) \<Rightarrow> Some (ReadFailed, s)
      | (Data buf, s) \<Rightarrow>
          if buf = [] then Some (AtEof, s)
          else
            (case c_write K ofd s buf of
               (w, s) \<Rightarrow> if w \<noteq> Wrote (length buf) then Some (WriteFailed, s) else copy_loop K ifd ofd n s))"

declare copy_loop.simps [code]

text \<open>The loop followed by the tests that end the program when it failed.\<close>

definition copy_or_exit :: "'s copyk \<Rightarrow> int \<Rightarrow> int \<Rightarrow> nat \<Rightarrow> 's \<Rightarrow> (unit, 's) outcome option" where
  "copy_or_exit K ifd ofd n s =
     map_option (\<lambda>(r, s). if r = AtEof then Ret () s else Exited 1 s) (copy_loop K ifd ofd n s)"

text \<open>Sequencing of code that may not end.\<close>

definition thenO :: "('a, 's) outcome option \<Rightarrow> ('a \<Rightarrow> 's \<Rightarrow> ('b, 's) outcome option) \<Rightarrow> ('b, 's) outcome option" where
  "thenO r k =
     (case r of
        None \<Rightarrow> None
      | Some (Ret v s) \<Rightarrow> k v s
      | Some (Exited n s) \<Rightarrow> Some (Exited n s)
      | Some (Aborted s) \<Rightarrow> Some (Aborted s)
      | Some Undefd \<Rightarrow> Some Undefd)"

text \<open>A call whose failure ends the program with status 1.\<close>

definition fd_or_exit :: "int \<times> 's \<Rightarrow> (int, 's) outcome option" where
  "fd_or_exit r = (case r of (fd, s) \<Rightarrow> Some (if fd = -1 then Exited 1 s else Ret fd s))"

definition ok_or_exit :: "bool \<times> 's \<Rightarrow> (unit, 's) outcome option" where
  "ok_or_exit r = (case r of (ok, s) \<Rightarrow> Some (if ok then Ret () s else Exited 1 s))"

section \<open>Copying a file\<close>

definition COPY_BUF_SIZE :: nat where "COPY_BUF_SIZE = 1024"

definition copy_main :: "'s copyk \<Rightarrow> string list \<Rightarrow> 's \<Rightarrow> (unit, 's) outcome option" where
  "copy_main K args s =
     (if length args \<noteq> 2 \<or> hd args = ''--help'' then Some (Exited 1 s)
      else
        thenO (fd_or_exit (c_open_rd K (args ! 0) s)) (\<lambda>inputFd s.
        thenO (fd_or_exit (c_open_wr K (args ! 1) s)) (\<lambda>outputFd s.
        thenO (copy_or_exit K inputFd outputFd COPY_BUF_SIZE s) (\<lambda>_ s.
        thenO (ok_or_exit (c_close K inputFd s)) (\<lambda>_ s.
        thenO (ok_or_exit (c_close K outputFd s)) (\<lambda>_ s. Some (Exited 0 s)))))))"

section \<open>Transfer over UNIX domain sockets\<close>

definition SV_SOCK_PATH :: string where "SV_SOCK_PATH = ''/tmp/us_xfr''"
definition XFR_BUF_SIZE :: nat where "XFR_BUF_SIZE = 100"
definition BACKLOG :: nat where "BACKLOG = 5"
definition ENOENT :: int where "ENOENT = 2"

definition xfr_addr :: sockaddr_un where
  "xfr_addr =
     (let addr = \<lparr>sun_family = 0, sun_path = replicate SUN_PATH_SIZE (CHR 0x00)\<rparr>; addr = addr\<lparr>sun_family := AF_UNIX\<rparr>
      in addr\<lparr>sun_path := strncpy (sun_path addr) SV_SOCK_PATH (SUN_PATH_SIZE - 1)\<rparr>)"

definition us_xfr_cl_main :: "'s copyk \<Rightarrow> 's \<Rightarrow> (unit, 's) outcome option" where
  "us_xfr_cl_main K s =
     thenO (fd_or_exit (k_socket (c_net K) AF_UNIX SOCK_STREAM 0 s)) (\<lambda>sfd s.
     thenO (ok_or_exit (k_connect (c_net K) sfd (sockaddr_bytes xfr_addr) sizeof_sockaddr_un s)) (\<lambda>_ s.
     thenO (copy_or_exit K 0 sfd XFR_BUF_SIZE s) (\<lambda>_ s. Some (Exited 0 s))))"

text \<open>The result of \<open>close\<close> only leads to a message.\<close>

definition xfr_round :: "'s copyk \<Rightarrow> int \<Rightarrow> 's \<Rightarrow> (unit, 's) outcome option" where
  "xfr_round K sfd s =
     thenO (fd_or_exit (c_accept K sfd s)) (\<lambda>cfd s.
     thenO (copy_or_exit K cfd 1 XFR_BUF_SIZE s) (\<lambda>_ s. Some (Ret () (snd (c_close K cfd s)))))"

fun xfr_rounds :: "'s copyk \<Rightarrow> int \<Rightarrow> nat \<Rightarrow> 's \<Rightarrow> (unit, 's) outcome option" where
  "xfr_rounds K sfd 0 s = Some (Ret () s)"
| "xfr_rounds K sfd (Suc n) s = thenO (xfr_round K sfd s) (\<lambda>_ s. xfr_rounds K sfd n s)"

definition us_xfr_sv_main :: "'s copyk \<Rightarrow> nat \<Rightarrow> 's \<Rightarrow> (unit, 's) outcome option" where
  "us_xfr_sv_main K n s =
     thenO (fd_or_exit (k_socket (c_net K) AF_UNIX SOCK_STREAM 0 s)) (\<lambda>sfd s.
     thenO (case c_remove K SV_SOCK_PATH s of (e, s) \<Rightarrow> ok_or_exit (e = None \<or> e = Some ENOENT, s)) (\<lambda>_ s.
     thenO (ok_or_exit (k_bind (c_net K) sfd (sockaddr_bytes xfr_addr) sizeof_sockaddr_un s)) (\<lambda>_ s.
     thenO (ok_or_exit (k_listen (c_net K) sfd BACKLOG s)) (\<lambda>_ s. xfr_rounds K sfd n s))))"

definition SV_SOCK_PATH_V2 :: string where "SV_SOCK_PATH_V2 = ''us_xfr_v2''"

definition us_xfr_v2_cl_main :: "'s copyk \<Rightarrow> sockaddr_un \<Rightarrow> 's \<Rightarrow> (unit, 's) outcome option" where
  "us_xfr_v2_cl_main K junk s =
     thenO (fd_or_exit (unixConnect (c_net K) junk (Some SV_SOCK_PATH_V2) SOCK_STREAM s)) (\<lambda>sfd s.
     thenO (copy_or_exit K 0 sfd XFR_BUF_SIZE s) (\<lambda>_ s. Some (Exited 0 s)))"

definition us_xfr_v2_sv_main :: "'s copyk \<Rightarrow> sockaddr_un \<Rightarrow> nat \<Rightarrow> 's \<Rightarrow> (unit, 's) outcome option" where
  "us_xfr_v2_sv_main K junk n s =
     thenO (fd_or_exit (unixListen (c_net K) junk (Some SV_SOCK_PATH_V2) 5 s)) (\<lambda>sfd s. xfr_rounds K sfd n s)"

section \<open>The echo service\<close>

definition SERVICE :: string where "SERVICE = ''echo''"
definition ECHO_BUF_SIZE :: nat where "ECHO_BUF_SIZE = 4096"

partial_function (option) grimReaper_loop :: "'s copyk \<Rightarrow> 's \<Rightarrow> 's option" where
  "grimReaper_loop K s = (case c_waitpid K s of (again, s) \<Rightarrow> if again then grimReaper_loop K s else Some s)"

definition grimReaper :: "'s copyk \<Rightarrow> 's \<Rightarrow> 's option" where
  "grimReaper K s =
     (let savedErrno = k_errno (c_net K) s in map_option (k_set_errno (c_net K) savedErrno) (grimReaper_loop K s))"

definition handleRequest :: "'s copyk \<Rightarrow> int \<Rightarrow> 's \<Rightarrow> (unit, 's) outcome option" where
  "handleRequest K cfd s = copy_or_exit K cfd cfd ECHO_BUF_SIZE s"

definition is_echo_inetd_sv_main :: "'s copyk \<Rightarrow> 's \<Rightarrow> (unit, 's) outcome option" where
  "is_echo_inetd_sv_main K s = thenO (copy_or_exit K 0 1 ECHO_BUF_SIZE s) (\<lambda>_ s. Some (Exited 0 s))"

text \<open>One connection; the two servers differ in what a failed \<open>accept\<close> does.\<close>

definition echo_conn :: "'s copyk \<Rightarrow> int \<Rightarrow> int \<Rightarrow> 's \<Rightarrow> (unit, 's) outcome option" where
  "echo_conn K lfd cfd s =
     (case c_fork K s of (cpid, s) \<Rightarrow>
        if cpid = -1 then Some (Ret () (snd (c_close K cfd s)))
        else if cpid = 0 then thenO (handleRequest K cfd (snd (c_close K lfd s))) (\<lambda>_ s. Some (Exited 0 s))
        else Some (Ret () (snd (c_close K cfd s))))"

definition echo_round :: "'s copyk \<Rightarrow> int \<Rightarrow> 's \<Rightarrow> (unit, 's) outcome option" where
  "echo_round K lfd s = thenO (fd_or_exit (c_accept K lfd s)) (\<lambda>cfd s. echo_conn K lfd cfd s)"

definition echo_v2_round :: "'s copyk \<Rightarrow> int \<Rightarrow> 's \<Rightarrow> (unit, 's) outcome option" where
  "echo_v2_round K lfd s = (case c_accept K lfd s of (cfd, s) \<Rightarrow> if cfd = -1 then Some (Ret () s) else echo_conn K lfd cfd s)"

fun echo_rounds :: "('s \<Rightarrow> (unit, 's) outcome option) \<Rightarrow> nat \<Rightarrow> 's \<Rightarrow> (unit, 's) outcome option" where
  "echo_rounds rnd 0 s = Some (Ret () s)"
| "echo_rounds rnd (Suc n) s = thenO (rnd s) (\<lambda>_ s. echo_rounds rnd n s)"

definition echo_start :: "'s copyk \<Rightarrow> (int \<Rightarrow> 's \<Rightarrow> (unit, 's) outcome option) \<Rightarrow> 's \<Rightarrow> (unit, 's) outcome option" where
  "echo_start K loop s =
     thenO (Some (becomeDaemon (c_dk K) 0 s)) (\<lambda>r s.
     if r = -1 then Some (Exited 1 s)
     else
       thenO (ok_or_exit (c_sigchld K s)) (\<lambda>_ s.
       thenO (case inetListen (c_net K) SERVICE 10 False s of ((fd, _), s) \<Rightarrow> fd_or_exit (fd, s)) (\<lambda>lfd s. loop lfd s)))"

definition is_echo_sv_main :: "'s copyk \<Rightarrow> nat \<Rightarrow> 's \<Rightarrow> (unit, 's) outcome option" where
  "is_echo_sv_main K n s = echo_start K (\<lambda>lfd. echo_rounds (echo_round K lfd) n) s"

definition is_echo_v2_sv_main :: "'s copyk \<Rightarrow> string list \<Rightarrow> nat \<Rightarrow> 's \<Rightarrow> (unit, 's) outcome option" where
  "is_echo_v2_sv_main K args n s =
     (if args \<noteq> [] \<and> hd args = ''-i'' then thenO (handleRequest K 0 s) (\<lambda>_ s. Some (Exited 0 s))
      else echo_start K (\<lambda>lfd. echo_rounds (echo_v2_round K lfd) n) s)"

section \<open>The client\<close>

definition CLIENT_BUF_SIZE :: nat where "CLIENT_BUF_SIZE = 100"

text \<open>The child writes through \<open>printf\<close> with \<open>%.*s\<close>, which ends at a null byte, and does not test the
  result: \<open>sayo\<close> appends to the output of the process.  In both processes a failed \<open>read\<close> counts
  as the end of the stream.\<close>

partial_function (option) show_loop :: "'s copyk \<Rightarrow> (string \<Rightarrow> 's \<Rightarrow> 's) \<Rightarrow> int \<Rightarrow> 's \<Rightarrow> 's option" where
  "show_loop K sayo sfd s =
     (case c_read K sfd s CLIENT_BUF_SIZE of
        (ReadErr e, s) \<Rightarrow> Some s
      | (Data buf, s) \<Rightarrow> if buf = [] then Some s else show_loop K sayo sfd (sayo (before buf (CHR 0x00)) s))"

definition is_echo_cl_main :: "'s copyk \<Rightarrow> (string \<Rightarrow> 's \<Rightarrow> 's) \<Rightarrow> string list \<Rightarrow> 's \<Rightarrow> (unit, 's) outcome option" where
  "is_echo_cl_main K sayo args s =
     (if length args \<noteq> 1 \<or> hd args = ''--help'' then Some (Exited 1 s)
      else
        thenO (fd_or_exit (inetConnect (c_net K) (Some (hd args)) SERVICE SOCK_STREAM s)) (\<lambda>sfd s.
        case c_fork K s of (cpid, s) \<Rightarrow>
          if cpid = -1 then Some (Exited 1 s)
          else if cpid = 0 then map_option (Exited 0) (show_loop K sayo sfd s)
          else
            (case copy_loop K 0 sfd CLIENT_BUF_SIZE s of
               None \<Rightarrow> None
             | Some (r, s) \<Rightarrow>
                 if r = WriteFailed then Some (Exited 1 s)
                 else thenO (ok_or_exit (c_shutdown_wr K sfd s)) (\<lambda>_ s. Some (Exited 0 s)))))"

section \<open>Streams\<close>

text \<open>\<open>incoming s fd\<close> is what is still to be read from a descriptor, \<open>put s fd\<close> what has been written
  to it.  Reading from one descriptor leaves the others alone: the streams are distinct.\<close>

text \<open>What the loop does, from any state: it ends, and what has been read has been written, except for
  the last buffer when writing failed.\<close>

definition copied ::
    "('s \<Rightarrow> int \<Rightarrow> string) \<Rightarrow> ('s \<Rightarrow> int \<Rightarrow> string) \<Rightarrow> ('s \<Rightarrow> int set) \<Rightarrow> int \<Rightarrow> int \<Rightarrow> 's \<Rightarrow> copy_end \<Rightarrow> 's \<Rightarrow> bool" where
  "copied incoming put opened ifd ofd s r s' \<longleftrightarrow> opened s' = opened s \<and> (\<exists>sent part lost.
     incoming s = (incoming s')(ifd := sent @ part @ lost @ incoming s' ifd) \<and>
     put s' = (put s)(ofd := put s ofd @ sent @ part) \<and>
     (r \<noteq> WriteFailed \<longrightarrow> part = [] \<and> lost = []) \<and> (r = AtEof \<longrightarrow> incoming s' ifd = []))"

text \<open>A child of the echo server has served the connection \<open>cfd\<close>: with status 0 it has returned all that
  it received, and otherwise a beginning of it; its copy of the listening socket is closed.\<close>

definition served ::
    "('s \<Rightarrow> int \<Rightarrow> string) \<Rightarrow> ('s \<Rightarrow> int \<Rightarrow> string) \<Rightarrow> ('s \<Rightarrow> int set) \<Rightarrow> int \<Rightarrow> int \<Rightarrow> 's \<Rightarrow> int \<Rightarrow> 's \<Rightarrow> bool" where
  "served incoming put opened lfd cfd s st s' \<longleftrightarrow> st \<in> {0, 1} \<and> opened s' = opened s - {lfd} \<and> (\<exists>sent part lost.
     incoming s cfd = sent @ part @ lost @ incoming s' cfd \<and> put s' = (put s)(cfd := put s cfd @ sent @ part) \<and>
     (st = 0 \<longrightarrow> part = [] \<and> lost = [] \<and> incoming s' cfd = []))"

lemma servedI:
  "st \<in> {0, 1} \<Longrightarrow> opened s' = opened s - {lfd} \<Longrightarrow> incoming s cfd = sent @ part @ lost @ incoming s' cfd \<Longrightarrow>
   put s' = (put s)(cfd := put s cfd @ sent @ part) \<Longrightarrow> st = 0 \<longrightarrow> part = [] \<and> lost = [] \<and> incoming s' cfd = [] \<Longrightarrow>
   served incoming put opened lfd cfd s st s'"
  unfolding served_def by blast

text \<open>The server after some rounds: the parent has no more descriptors than before and has written
  nothing; a failed \<open>accept\<close> may have ended it; or this is the child of a round.\<close>

definition rounds_ok ::
    "'s copyk \<Rightarrow> ('s \<Rightarrow> int \<Rightarrow> string) \<Rightarrow> ('s \<Rightarrow> int \<Rightarrow> string) \<Rightarrow> ('s \<Rightarrow> int set) \<Rightarrow> int \<Rightarrow> 's \<Rightarrow> (unit, 's) outcome option \<Rightarrow> bool" where
  "rounds_ok K incoming put opened lfd s r \<longleftrightarrow>
     (case r of
        Some (Ret _ s') \<Rightarrow> opened s' = opened s \<and> put s' = put s
      | Some (Exited st s') \<Rightarrow> st = 1 \<and> opened s' = opened s \<and> (\<exists>t. c_accept K lfd t = (-1, s')) \<or>
          (\<exists>t t1 cfd. c_accept K lfd t = (cfd, t1) \<and> cfd \<notin> opened s \<and> opened t1 = insert cfd (opened s) \<and> put t1 = put s \<and>
             served incoming put opened lfd cfd t1 st s')
      | _ \<Rightarrow> False)"

text \<open>All of a stream has been moved to another descriptor.\<close>

definition moved :: "('s \<Rightarrow> int \<Rightarrow> string) \<Rightarrow> ('s \<Rightarrow> int \<Rightarrow> string) \<Rightarrow> int \<Rightarrow> int \<Rightarrow> 's \<Rightarrow> 's \<Rightarrow> bool" where
  "moved incoming put ifd ofd s s' \<longleftrightarrow> incoming s' ifd = [] \<and> put s' ofd = put s ofd @ incoming s ifd"

text \<open>The transfer server has written what \<open>n\<close> connections delivered, one after the other, and has
  closed them; or it has ended with status 1.\<close>

definition xfr_ok ::
    "'s copyk \<Rightarrow> ('s \<Rightarrow> int \<Rightarrow> string) \<Rightarrow> ('s \<Rightarrow> int \<Rightarrow> string) \<Rightarrow> ('s \<Rightarrow> int set) \<Rightarrow> int \<Rightarrow> nat \<Rightarrow> 's \<Rightarrow> (unit, 's) outcome option \<Rightarrow> bool" where
  "xfr_ok K incoming put opened sfd n s r \<longleftrightarrow>
     (case r of
        Some (Ret _ s') \<Rightarrow> opened s' = opened s \<and> (\<exists>ds. length ds = n \<and> put s' 1 = put s 1 @ concat ds \<and>
          (\<forall>d\<in>set ds. \<exists>t t1 cfd. c_accept K sfd t = (cfd, t1) \<and> d = incoming t1 cfd))
      | Some (Exited st s') \<Rightarrow> st = 1
      | _ \<Rightarrow> False)"

lemma xfr_ok_Suc:
  assumes "xfr_ok K incoming put opened sfd n s1 r" "put s1 1 = put s 1 @ d" "opened s1 = opened s"
    "\<exists>t t1 cfd. c_accept K sfd t = (cfd, t1) \<and> d = incoming t1 cfd"
  shows "xfr_ok K incoming put opened sfd (Suc n) s r"
proof -
  have "\<exists>ds'. length ds' = Suc n \<and> put s' 1 = put s 1 @ concat ds' \<and> (\<forall>d\<in>set ds'. \<exists>t t1 cfd. c_accept K sfd t = (cfd, t1) \<and> d = incoming t1 cfd)"
    if "length ds = n" "put s' 1 = put s1 1 @ concat ds" "\<forall>d\<in>set ds. \<exists>t t1 cfd. c_accept K sfd t = (cfd, t1) \<and> d = incoming t1 cfd" for ds s'
    using that assms(2,4) by (intro exI [of _ "d # ds"]) simp
  then show ?thesis using assms(1,3) unfolding xfr_ok_def by (auto split: option.splits outcome.splits)
qed

lemma rounds_ok_cong:
  "opened t = opened s \<Longrightarrow> put t = put s \<Longrightarrow> rounds_ok K incoming put opened lfd t r = rounds_ok K incoming put opened lfd s r"
  by (simp add: rounds_ok_def split: option.split outcome.split)

locale streams =
  fixes K :: "'s copyk" and incoming :: "'s \<Rightarrow> int \<Rightarrow> string" and put :: "'s \<Rightarrow> int \<Rightarrow> string" and opened :: "'s \<Rightarrow> int set"
  assumes reads: "c_read K fd s n = (r1, s') \<Longrightarrow> 0 < n \<Longrightarrow> put s' = put s \<and> opened s' = opened s \<and>
      (case r1 of
         Data bs \<Rightarrow> incoming s = (incoming s')(fd := bs @ incoming s' fd) \<and> (bs = [] \<longrightarrow> incoming s fd = [])
       | ReadErr e \<Rightarrow> incoming s' = incoming s)"
    and writes: "c_write K fd s bs = (r2, s') \<Longrightarrow> incoming s' = incoming s \<and> opened s' = opened s \<and>
      (case r2 of Wrote k \<Rightarrow> k \<le> length bs \<and> put s' = (put s)(fd := put s fd @ take k bs) | WriteErr e \<Rightarrow> put s' = put s)"
    and closes: "c_close K fd s = (ok, s') \<Longrightarrow> opened s' = opened s - {fd} \<and> incoming s' = incoming s \<and> put s' = put s"
    and accepts: "c_accept K lfd s = (fd, s') \<Longrightarrow> put s' = put s \<and> (fd = -1 \<and> opened s' = opened s \<or>
      0 \<le> fd \<and> fd \<notin> opened s \<and> opened s' = insert fd (opened s))"
    and forks: "c_fork K s = (cpid, s') \<Longrightarrow> opened s' = opened s \<and> incoming s' = incoming s \<and> put s' = put s"
begin

lemma copied_step:
  assumes "incoming s = (incoming s1)(ifd := bs @ incoming s1 ifd)" "put s1 = (put s)(ofd := put s ofd @ bs)" "opened s1 = opened s"
    "copied incoming put opened ifd ofd s1 r s'"
  shows "copied incoming put opened ifd ofd s r s'"
proof -
  from assms(4) obtain sent part lost where c: "opened s' = opened s1"
    "incoming s1 = (incoming s')(ifd := sent @ part @ lost @ incoming s' ifd)"
    "put s' = (put s1)(ofd := put s1 ofd @ sent @ part)" "r \<noteq> WriteFailed \<longrightarrow> part = [] \<and> lost = []" "r = AtEof \<longrightarrow> incoming s' ifd = []"
    unfolding copied_def by blast
  have "incoming s = (incoming s')(ifd := (bs @ sent) @ part @ lost @ incoming s' ifd)" using assms(1) c(2) by simp
  moreover have "put s' = (put s)(ofd := put s ofd @ (bs @ sent) @ part)" using assms(2) c(3) by simp
  ultimately show ?thesis unfolding copied_def using c(1,4,5) assms(3)
    by (intro conjI exI [of _ "bs @ sent"] exI [of _ part] exI [of _ lost]) simp_all
qed

lemma copy_loop_copies:
  "0 < n \<Longrightarrow> \<exists>r s'. copy_loop K ifd ofd n s = Some (r, s') \<and> copied incoming put opened ifd ofd s r s'"
proof (induction "length (incoming s ifd)" arbitrary: s rule: less_induct)
  case less
  obtain rd s1 where rd: "c_read K ifd s n = (rd, s1)" by force
  note law = reads [OF rd less.prems]
  show ?case
  proof (cases rd)
    case (ReadErr e)
    then have "copied incoming put opened ifd ofd s ReadFailed s1" unfolding copied_def using law by (intro conjI exI [of _ "[]"]) simp_all
    with ReadErr rd show ?thesis by (simp add: copy_loop.simps)
  next
    case (Data buf)
    note law = law [unfolded Data, simplified]
    show ?thesis
    proof (cases "buf = []")
      case True
      then have "copied incoming put opened ifd ofd s AtEof s1" unfolding copied_def using law
        by (intro conjI exI [of _ "[]"]) (simp_all, metis fun_upd_same)
      with Data True rd show ?thesis by (simp add: copy_loop.simps)
    next
      case False
      obtain w s2 where w: "c_write K ofd s1 buf = (w, s2)" by force
      note wlaw = writes [OF w]
      show ?thesis
      proof (cases "w = Wrote (length buf)")
        case True
        have "length (incoming s2 ifd) < length (incoming s ifd)" using law wlaw False by simp
        from less.hyps [OF this less.prems] obtain r s' where r: "copy_loop K ifd ofd n s2 = Some (r, s')" "copied incoming put opened ifd ofd s2 r s'" by blast
        have "copied incoming put opened ifd ofd s r s'"
          by (rule copied_step [OF _ _ _ r(2), of s buf]) (use law wlaw True in simp_all)
        with r(1) Data False rd w True show ?thesis by (simp add: copy_loop.simps [of K ifd ofd n s])
      next
        case no: False
        have "\<exists>part lost. buf = part @ lost \<and> put s2 = (put s1)(ofd := put s1 ofd @ part)"
        proof (cases w)
          case (Wrote k)
          with wlaw show ?thesis by (intro exI [of _ "take k buf"] exI [of _ "drop k buf"]) simp
        next
          case (WriteErr e)
          with wlaw show ?thesis by (intro exI [of _ "[]"] exI [of _ buf]) simp
        qed
        then obtain part lost where "buf = part @ lost" "put s2 = (put s1)(ofd := put s1 ofd @ part)" by blast
        then have "copied incoming put opened ifd ofd s WriteFailed s2" unfolding copied_def using law wlaw
          by (intro conjI exI [of _ "[]"] exI [of _ part] exI [of _ lost]) simp_all
        with Data False rd w no show ?thesis by (simp add: copy_loop.simps)
      qed
    qed
  qed
qed

lemma copy_or_exit_copies:
  assumes "0 < n"
  obtains r s' where "copy_or_exit K ifd ofd n s = Some (if r = AtEof then Ret () s' else Exited 1 s')" "copied incoming put opened ifd ofd s r s'"
  using copy_loop_copies [OF assms, of ifd ofd s] by (auto simp: copy_or_exit_def)

lemma accept_cases:
  assumes "c_accept K lfd s = (fd, s')"
  obtains "fd = -1" "opened s' = opened s" "put s' = put s" | "fd \<noteq> -1" "fd \<notin> opened s" "opened s' = insert fd (opened s)" "put s' = put s"
  using accepts [OF assms] by auto

text \<open>One connection of the echo server, in the parent and in the child.\<close>

lemma echo_conn_cases:
  assumes "cfd \<notin> opened s" "opened s1 = insert cfd (opened s)" "put s1 = put s" "lfd \<noteq> cfd"
  obtains (parent) s' where "echo_conn K lfd cfd s1 = Some (Ret () s')" "opened s' = opened s" "put s' = put s"
  | (child) st s' where "echo_conn K lfd cfd s1 = Some (Exited st s')" "served incoming put opened lfd cfd s1 st s'"
proof -
  obtain cpid s2 where f: "c_fork K s1 = (cpid, s2)" by force
  note f1 = forks [OF f]
  show ?thesis
  proof (cases "cpid = 0")
    case False
    obtain ok s3 where c: "c_close K cfd s2 = (ok, s3)" by force
    from closes [OF c] f1 assms have "opened s3 = opened s" "put s3 = put s" by auto
    with False f c parent [of s3] show ?thesis by (simp add: echo_conn_def)
  next
    case True
    obtain ok s3 where c: "c_close K lfd s2 = (ok, s3)" by force
    obtain r s' where r: "handleRequest K cfd s3 = Some (if r = AtEof then Ret () s' else Exited 1 s')" "copied incoming put opened cfd cfd s3 r s'"
      unfolding handleRequest_def by (rule copy_or_exit_copies [of ECHO_BUF_SIZE cfd cfd s3]) (simp_all add: ECHO_BUF_SIZE_def)
    have "echo_conn K lfd cfd s1 = Some (Exited (if r = AtEof then 0 else 1) s')"
      using True f c r(1) by (simp add: echo_conn_def thenO_def)
    moreover have "served incoming put opened lfd cfd s1 (if r = AtEof then 0 else 1) s'"
    proof -
      obtain sent part lost where h: "opened s' = opened s3" "incoming s3 = (incoming s')(cfd := sent @ part @ lost @ incoming s' cfd)"
        "put s' = (put s3)(cfd := put s3 cfd @ sent @ part)" "r \<noteq> WriteFailed \<longrightarrow> part = [] \<and> lost = []" "r = AtEof \<longrightarrow> incoming s' cfd = []"
        using r(2) unfolding copied_def by blast
      have io: "incoming s3 = incoming s1" "put s3 = put s1" "opened s3 = opened s1 - {lfd}" using closes [OF c] f1 by simp_all
      have "incoming s1 cfd = sent @ part @ lost @ incoming s' cfd" using fun_cong [OF h(2), of cfd] io(1) by simp
      moreover have "put s' = (put s1)(cfd := put s1 cfd @ sent @ part)" "opened s' = opened s1 - {lfd}"
        using h(1,3) io(2,3) by simp_all
      moreover have "r = AtEof \<longrightarrow> part = [] \<and> lost = [] \<and> incoming s' cfd = []" using h(4,5) by auto
      ultimately show ?thesis by (intro servedI [where sent = sent and part = part and lost = lost]) simp_all
    qed
    ultimately show ?thesis using child by blast
  qed
qed

lemma echo_rounds_ok:
  assumes "lfd \<in> opened s" and "round = echo_round K lfd \<or> round = echo_v2_round K lfd"
  shows "rounds_ok K incoming put opened lfd s (echo_rounds round n s)"
  using assms(1)
proof (induction n arbitrary: s)
  case 0
  then show ?case by (simp add: rounds_ok_def)
next
  case (Suc n)
  obtain cfd s1 where a: "c_accept K lfd s = (cfd, s1)" by force
  from a show ?case
  proof (cases rule: accept_cases)
    case 1
    with assms(2) a have "round s = Some (Exited 1 s1) \<or> round s = Some (Ret () s1)"
      by (auto simp: echo_round_def echo_v2_round_def fd_or_exit_def thenO_def)
    then show ?thesis
    proof
      assume "round s = Some (Exited 1 s1)"
      with 1 a show ?thesis by (auto simp: rounds_ok_def thenO_def)
    next
      assume "round s = Some (Ret () s1)"
      moreover have "rounds_ok K incoming put opened lfd s1 (echo_rounds round n s1)" using Suc 1 by simp
      ultimately show ?thesis using rounds_ok_cong [OF 1(2,3)] by (simp add: thenO_def)
    qed
  next
    case 2
    with assms(2) a have r: "round s = echo_conn K lfd cfd s1"
      by (auto simp: echo_round_def echo_v2_round_def fd_or_exit_def thenO_def)
    from 2 Suc.prems have "lfd \<noteq> cfd" by auto
    show ?thesis
    proof (cases rule: echo_conn_cases [OF 2(2,3,4) \<open>lfd \<noteq> cfd\<close>, case_names parent child])
      case (parent s')
      with Suc have "rounds_ok K incoming put opened lfd s' (echo_rounds round n s')" by simp
      with parent(1) r rounds_ok_cong [OF parent(2,3)] show ?thesis by (simp add: thenO_def)
    next
      case (child st s')
      with 2 a have "\<exists>t t1 cfd. c_accept K lfd t = (cfd, t1) \<and> cfd \<notin> opened s \<and> opened t1 = insert cfd (opened s) \<and>
          put t1 = put s \<and> served incoming put opened lfd cfd t1 st s'" by blast
      with r child(1) show ?thesis by (simp add: rounds_ok_def thenO_def)
    qed
  qed
qed

text \<open>The programs that copy: they end, and if all went well everything has been moved.\<close>

lemma copied_moved: "copied incoming put opened i ofd s AtEof s' \<Longrightarrow> moved incoming put i ofd s s'"
  by (auto simp: copied_def moved_def)

lemma copy_main_ends:
  assumes "a \<noteq> ''--help''"
  shows "\<exists>st s'. copy_main K [a, b] s = Some (Exited st s') \<and> (st = 0 \<longrightarrow>
    (\<exists>i ofd s1 s2. c_open_rd K a s = (i, s1) \<and> c_open_wr K b s1 = (ofd, s2) \<and> moved incoming put i ofd s2 s'))"
proof -
  obtain i s1 where i: "c_open_rd K a s = (i, s1)" by force
  obtain ofd s2 where ofd: "c_open_wr K b s1 = (ofd, s2)" by force
  obtain r s3 where r: "copy_or_exit K i ofd COPY_BUF_SIZE s2 = Some (if r = AtEof then Ret () s3 else Exited 1 s3)"
    "copied incoming put opened i ofd s2 r s3"
    by (rule copy_or_exit_copies [of COPY_BUF_SIZE i ofd s2]) (simp_all add: COPY_BUF_SIZE_def)
  obtain ok4 s4 where c4: "c_close K i s3 = (ok4, s4)" by force
  obtain ok5 s5 where c5: "c_close K ofd s4 = (ok5, s5)" by force
  note eval = copy_main_def fd_or_exit_def ok_or_exit_def thenO_def
  consider "i = -1" | "i \<noteq> -1" "ofd = -1" | "i \<noteq> -1" "ofd \<noteq> -1" "r \<noteq> AtEof" | "i \<noteq> -1" "ofd \<noteq> -1" "r = AtEof" "\<not> (ok4 \<and> ok5)"
    | "i \<noteq> -1" "ofd \<noteq> -1" "r = AtEof" "ok4" "ok5" by blast
  then show ?thesis
  proof cases
    case 5
    have "moved incoming put i ofd s2 s5"
      using copied_moved r(2) 5(3) closes [OF c4] closes [OF c5] by (simp add: moved_def)
    moreover have "copy_main K [a, b] s = Some (Exited 0 s5)"
      using 5 assms i ofd r(1) c4 c5 by (simp add: eval)
    ultimately show ?thesis using i ofd by blast
  next
    case 4
    then show ?thesis using assms i ofd r(1) c4 c5 by (cases ok4) (simp_all add: eval)
  qed (use assms i ofd r(1) in \<open>simp_all add: eval\<close>)
qed

lemma us_xfr_cl_ends:
  "\<exists>st s'. us_xfr_cl_main K s = Some (Exited st s') \<and> (st = 0 \<longrightarrow> (\<exists>sfd t. moved incoming put 0 sfd t s'))"
proof -
  obtain sfd s1 where a: "k_socket (c_net K) AF_UNIX SOCK_STREAM 0 s = (sfd, s1)" by force
  obtain ok s2 where b: "k_connect (c_net K) sfd (sockaddr_bytes xfr_addr) sizeof_sockaddr_un s1 = (ok, s2)" by force
  obtain r s3 where r: "copy_or_exit K 0 sfd XFR_BUF_SIZE s2 = Some (if r = AtEof then Ret () s3 else Exited 1 s3)"
    "copied incoming put opened 0 sfd s2 r s3"
    by (rule copy_or_exit_copies [of XFR_BUF_SIZE 0 sfd s2]) (simp_all add: XFR_BUF_SIZE_def)
  note eval = us_xfr_cl_main_def fd_or_exit_def ok_or_exit_def thenO_def
  show ?thesis
  proof (cases "sfd \<noteq> -1 \<and> ok \<and> r = AtEof")
    case True
    then have "us_xfr_cl_main K s = Some (Exited 0 s3)" using a b r(1) by (simp add: eval)
    with copied_moved r(2) True show ?thesis by blast
  next
    case False
    then have "\<exists>t. us_xfr_cl_main K s = Some (Exited 1 t)" using a b r(1) by (auto simp: eval)
    then show ?thesis by auto
  qed
qed

lemma xfr_rounds_end:
  "xfr_ok K incoming put opened sfd n s (xfr_rounds K sfd n s)"
proof (induction n arbitrary: s)
  case 0
  then show ?case by (simp add: xfr_ok_def)
next
  case (Suc n)
  obtain cfd s1 where a: "c_accept K sfd s = (cfd, s1)" by force
  from a show ?case
  proof (cases rule: accept_cases)
    case 1
    with a show ?thesis by (simp add: xfr_ok_def xfr_round_def fd_or_exit_def thenO_def)
  next
    case 2
    obtain r s2 where r: "copy_or_exit K cfd 1 XFR_BUF_SIZE s1 = Some (if r = AtEof then Ret () s2 else Exited 1 s2)"
      "copied incoming put opened cfd 1 s1 r s2"
      by (rule copy_or_exit_copies [of XFR_BUF_SIZE cfd 1 s1]) (simp_all add: XFR_BUF_SIZE_def)
    show ?thesis
    proof (cases "r = AtEof")
      case False
      with a 2 r(1) show ?thesis by (simp add: xfr_ok_def xfr_round_def fd_or_exit_def thenO_def)
    next
      case True
      obtain ok s3 where c: "c_close K cfd s2 = (ok, s3)" by force
      have round: "xfr_round K sfd s = Some (Ret () s3)"
        using a 2 r(1) True c by (simp add: xfr_round_def fd_or_exit_def thenO_def)
      have cp: "copied incoming put opened cfd 1 s1 AtEof s2" using r(2) True by simp
      have "put s2 1 = put s1 1 @ incoming s1 cfd" using copied_moved [OF cp] unfolding moved_def by blast
      moreover have "opened s2 = opened s1" using cp unfolding copied_def by blast
      ultimately have s3: "put s3 1 = put s 1 @ incoming s1 cfd" "opened s3 = opened s"
        using 2 closes [OF c] by auto
      have "\<exists>t t1 cfd'. c_accept K sfd t = (cfd', t1) \<and> incoming s1 cfd = incoming t1 cfd'" using a by blast
      then have "xfr_ok K incoming put opened sfd (Suc n) s (xfr_rounds K sfd n s3)"
        using xfr_ok_Suc [OF Suc s3] by blast
      with round show ?thesis by (simp add: thenO_def)
    qed
  qed
qed

end

section \<open>A reference process\<close>

text \<open>Connections wait in a queue, each with what its peer sends; descriptors are numbered upwards.\<close>

record refio =
  ri_in :: "int \<Rightarrow> string"
  ri_put :: "int \<Rightarrow> string"
  ri_open :: "int set"
  ri_next :: int
  ri_conns :: "string list"
  ri_fork :: int
  ri_errno :: int

definition ri_new :: "string \<Rightarrow> refio \<Rightarrow> int \<times> refio" where
  "ri_new d s = (if ri_next s < 0 \<or> ri_next s \<in> ri_open s then (-1, s)
     else (ri_next s, s\<lparr>ri_open := insert (ri_next s) (ri_open s), ri_in := (ri_in s)(ri_next s := d), ri_next := ri_next s + 1\<rparr>))"

definition ri_accept :: "refio \<Rightarrow> int \<times> refio" where
  "ri_accept s = (case ri_conns s of [] \<Rightarrow> (-1, s) | d # ds \<Rightarrow> ri_new d (s\<lparr>ri_conns := ds\<rparr>))"

definition ri_read :: "int \<Rightarrow> refio reader" where
  "ri_read fd s n = (Data (take n (ri_in s fd)), s\<lparr>ri_in := (ri_in s)(fd := drop n (ri_in s fd))\<rparr>)"

definition ref_copyk :: "refio copyk" where
  "ref_copyk = \<lparr>c_net = \<lparr>k_getaddrinfo = (\<lambda>h sv hi s. (None, s)), k_socket = (\<lambda>f t p s. ri_new [] s), k_connect = (\<lambda>fd a l s. (True, s)),
       k_reuseaddr = (\<lambda>fd s. (True, s)), k_bind = (\<lambda>fd a l s. (True, s)), k_listen = (\<lambda>fd n s. (True, s)),
       k_close = (\<lambda>fd s. (True, s\<lparr>ri_open := ri_open s - {fd}\<rparr>)), k_set_errno = (\<lambda>e s. s\<lparr>ri_errno := e\<rparr>), k_errno = ri_errno\<rparr>,
     c_dk = \<lparr>d_fork = (\<lambda>s. (InChild, s)), d_setsid = (\<lambda>s. (0, s)), d_umask = (\<lambda>m s. s), d_chdir = (\<lambda>p s. (0, s)), d_open_max = 0,
       d_close = (\<lambda>fd s. (0, s\<lparr>ri_open := ri_open s - {fd}\<rparr>)), d_open = (\<lambda>p s. ri_new [] s), d_dup2 = (\<lambda>a b s. (b, s))\<rparr>,
     c_open_rd = ri_new, c_open_wr = (\<lambda>n. ri_new []), c_read = ri_read,
     c_write = (\<lambda>fd s bs. (Wrote (length bs), s\<lparr>ri_put := (ri_put s)(fd := ri_put s fd @ bs)\<rparr>)),
     c_close = (\<lambda>fd s. (True, s\<lparr>ri_open := ri_open s - {fd}\<rparr>)), c_accept = (\<lambda>fd. ri_accept), c_shutdown_wr = (\<lambda>fd s. (True, s)),
     c_remove = (\<lambda>p s. (Some ENOENT, s)), c_fork = (\<lambda>s. (ri_fork s, s)), c_sigchld = (\<lambda>s. (True, s)), c_waitpid = (\<lambda>s. (False, s))\<rparr>"

interpretation rio: streams ref_copyk ri_in ri_put ri_open
  by unfold_locales
    (auto simp: ref_copyk_def ri_read_def ri_accept_def ri_new_def fun_eq_iff split: list.splits if_splits)

section \<open>Properties\<close>

text \<open>
  C36. Both echo servers, after any number of rounds: the parent has exactly the descriptors it
  started with and has sent nothing itself, or it has ended with status 1 after a failed
  \<open>accept\<close>; and a child ends after it has returned to its client what it received, all of it
  if its status is 0, and a beginning of it otherwise, without the listening socket.
\<close>

theorem echo_servers:
  assumes "streams K incoming put opened" and "lfd \<in> opened s"
  shows "rounds_ok K incoming put opened lfd s (echo_rounds (echo_round K lfd) n s) \<and>
    rounds_ok K incoming put opened lfd s (echo_rounds (echo_v2_round K lfd) n s)"
  using streams.echo_rounds_ok [OF assms] by blast

definition two_clients :: "int \<Rightarrow> refio" where
  "two_clients f = \<lparr>ri_in = (\<lambda>_. []), ri_put = (\<lambda>_. []), ri_open = {0, 1, 3}, ri_next = 4, ri_conns = [''hello'', ''bye''], ri_fork = f, ri_errno = 0\<rparr>"

text \<open>The parent after two connections, and the child of the first.\<close>

theorem echo_servers_witness:
  "\<exists>s' s''. echo_rounds (echo_round ref_copyk 3) 2 (two_clients 42) = Some (Ret () s') \<and> ri_open s' = {0, 1, 3} \<and>
     echo_rounds (echo_round ref_copyk 3) 2 (two_clients 0) = Some (Exited 0 s'') \<and> ri_put s'' 4 = ''hello''"
proof -
  have "\<exists>s'. echo_rounds (echo_round ref_copyk 3) 2 (two_clients 42) = Some (Ret () s')"
    by (simp add: numeral_2_eq_2 echo_round_def echo_conn_def ref_copyk_def ri_accept_def ri_new_def two_clients_def fd_or_exit_def
      thenO_def)
  then obtain s' where s': "echo_rounds (echo_round ref_copyk 3) 2 (two_clients 42) = Some (Ret () s')" by blast
  have "ri_open s' = ri_open (two_clients 42)"
    using echo_servers [OF rio.streams_axioms, of 3 "two_clients 42" 2] s' by (simp add: rounds_ok_def two_clients_def)
  moreover have "\<exists>s''. echo_rounds (echo_round ref_copyk 3) 2 (two_clients 0) = Some (Exited 0 s'') \<and> ri_put s'' 4 = ''hello''"
    by (simp add: numeral_2_eq_2 echo_round_def echo_conn_def handleRequest_def copy_or_exit_def copy_loop.simps ECHO_BUF_SIZE_def
      ref_copyk_def ri_accept_def ri_new_def ri_read_def two_clients_def fd_or_exit_def thenO_def)
  ultimately show ?thesis using s' by (auto simp: two_clients_def)
qed



end
