(* ===== verification/Barrier_Demo.thy ===== *)
theory Barrier_Demo
  imports Schedules
begin

text \<open>
  \<open>src/tlpi-book/threads/pthread_barrier_demo.c\<close>: threads that meet at a barrier a number of times.
  Every call that prints, sleeps or waits is a step; a step carries the result of its library
  call (a value other than 0 is its failure) and a free choice: what \<open>random()\<close> returns, and which of
  the threads that leave the barrier together gets \<open>PTHREAD_BARRIER_SERIAL_THREAD\<close>, which POSIX
  leaves open.  A barrier lets all go when the number of threads given at its creation have called
  \<open>pthread_barrier_wait\<close>, and starts afresh.
\<close>

definition PTHREAD_BARRIER_SERIAL_THREAD :: int where
  "PTHREAD_BARRIER_SERIAL_THREAD = -1"

text \<open>What the process prints, line by line; \<open>LBlank\<close> is an empty line.\<close>

datatype line = LStarted nat | LAbout nat int int | LPassed nat int int | LBlank | LTerminating nat

datatype tpc = TStart | TLoop | TSleep int | TWait | TBlocked | TReleased int | TSerial | TFinal | TEnd

record bthread =
  t_pc :: tpc
  t_j :: int

datatype mpc = MArgs | MInit | MCreate nat | MBlank | MJoin nat | MExit int

record bstate =
  threads :: "bthread list"
  mainpc :: mpc
  numBarriers :: int
  numThreads :: int
  printed :: "line list"

text \<open>\<open>Main r\<close>: a step of the main thread; \<open>Thread i r w\<close>: a step of thread \<open>i\<close>; \<open>r\<close> is the result of its call
  and \<open>w\<close> the choice.\<close>

datatype event = Main int | Thread nat int nat

definition start :: bstate where
  "start = \<lparr>threads = [], mainpc = MArgs, numBarriers = 0, numThreads = 0, printed = []\<rparr>"

definition exited :: "bstate \<Rightarrow> bool" where
  "exited s \<longleftrightarrow> (case mainpc s of MExit n \<Rightarrow> True | _ \<Rightarrow> False)"

definition errExitEN :: "bstate \<Rightarrow> bstate" where
  "errExitEN s = s\<lparr>mainpc := MExit 1\<rparr>"

definition set_thread :: "nat \<Rightarrow> bthread \<Rightarrow> bstate \<Rightarrow> bstate" where
  "set_thread i t s = s\<lparr>threads := (threads s)[i := t]\<rparr>"

definition put :: "line \<Rightarrow> bstate \<Rightarrow> bstate" where
  "put l s = s\<lparr>printed := printed s @ [l]\<rparr>"

definition blocked :: "bthread \<Rightarrow> bool" where
  "blocked t \<longleftrightarrow> t_pc t = TBlocked"

text \<open>The barrier lets thread \<open>i\<close>, the last to arrive, and all that wait go; \<open>w\<close> is told that it is the one.\<close>

definition release :: "nat \<Rightarrow> nat \<Rightarrow> bthread list \<Rightarrow> bthread list" where
  "release i w ts =
     map (\<lambda>(k, t). if k = i \<or> blocked t
                   then t\<lparr>t_pc := TReleased (if k = w then PTHREAD_BARRIER_SERIAL_THREAD else 0)\<rparr> else t)
       (enumerate 0 ts)"

definition barrier_wait :: "nat \<Rightarrow> nat \<Rightarrow> bstate \<Rightarrow> bstate option" where
  "barrier_wait i w s =
     (let ts = threads s in
      if int (length (filter blocked ts)) + 1 = numThreads s then
        (if w < length ts \<and> (w = i \<or> blocked (ts ! w)) then Some (s\<lparr>threads := release i w ts\<rparr>) else None)
      else Some (set_thread i ((ts ! i)\<lparr>t_pc := TBlocked\<rparr>) s))"

definition thread_step :: "nat \<Rightarrow> int \<Rightarrow> nat \<Rightarrow> bstate \<Rightarrow> bstate option" where
  "thread_step i r w s =
     (if exited s \<or> length (threads s) \<le> i then None
      else
        (let t = threads s ! i in
         case t_pc t of
           TStart \<Rightarrow> Some (put (LStarted i) (set_thread i (t\<lparr>t_pc := TLoop, t_j := 0\<rparr>) s))
         | TLoop \<Rightarrow>
             Some (set_thread i (t\<lparr>t_pc := (if t_j t < numBarriers s then TSleep (int w mod 5 + 1) else TFinal)\<rparr>) s)
         | TSleep nsecs \<Rightarrow> Some (put (LAbout i (t_j t) nsecs) (set_thread i (t\<lparr>t_pc := TWait\<rparr>) s))
         | TWait \<Rightarrow> if r \<noteq> 0 then Some (errExitEN s) else barrier_wait i w s
         | TBlocked \<Rightarrow> None
         | TReleased v \<Rightarrow>
             if v = 0 then Some (put (LPassed i (t_j t) v) (set_thread i (t\<lparr>t_pc := TLoop, t_j := t_j t + 1\<rparr>) s))
             else if v = PTHREAD_BARRIER_SERIAL_THREAD then
               Some (put (LPassed i (t_j t) v) (set_thread i (t\<lparr>t_pc := TSerial\<rparr>) s))
             else Some (errExitEN s)
         | TSerial \<Rightarrow> Some (put LBlank (set_thread i (t\<lparr>t_pc := TLoop, t_j := t_j t + 1\<rparr>) s))
         | TFinal \<Rightarrow> Some (put (LTerminating i) (set_thread i (t\<lparr>t_pc := TEnd\<rparr>) s))
         | TEnd \<Rightarrow> None))"

text \<open>\<open>calloc\<close> multiplies with a check: a negative number of threads, read as a \<open>size_t\<close>, makes it fail.  A
  barrier for no threads is refused.\<close>

definition main_step :: "string list \<Rightarrow> int \<Rightarrow> bstate \<Rightarrow> bstate option" where
  "main_step args r s =
     (case mainpc s of
        MArgs \<Rightarrow>
          if length args \<noteq> 2 \<or> hd args = ''--help'' then Some (errExitEN s)
          else
            (let s = s\<lparr>numBarriers := atoi (args ! 0), numThreads := atoi (args ! 1)\<rparr> in
             if r \<noteq> 0 \<or> numThreads s < 0 then Some (errExitEN s) else Some (s\<lparr>mainpc := MInit\<rparr>))
      | MInit \<Rightarrow> if r \<noteq> 0 \<or> numThreads s = 0 then Some (errExitEN s) else Some (s\<lparr>mainpc := MCreate 0\<rparr>)
      | MCreate k \<Rightarrow>
          if int k < numThreads s then
            if r \<noteq> 0 then Some (errExitEN s)
            else Some (s\<lparr>threads := threads s @ [\<lparr>t_pc = TStart, t_j = 0\<rparr>], mainpc := MCreate (Suc k)\<rparr>)
          else Some (s\<lparr>mainpc := MBlank\<rparr>)
      | MBlank \<Rightarrow> Some (put LBlank (s\<lparr>mainpc := MJoin 0\<rparr>))
      | MJoin k \<Rightarrow>
          if int k < numThreads s then
            if r \<noteq> 0 then Some (errExitEN s)
            else if t_pc (threads s ! k) = TEnd then Some (s\<lparr>mainpc := MJoin (Suc k)\<rparr>) else None
          else Some (s\<lparr>mainpc := MExit 0\<rparr>)
      | MExit n \<Rightarrow> None)"

fun step :: "string list \<Rightarrow> event \<Rightarrow> bstate \<Rightarrow> bstate option" where
  "step args (Main r) s = main_step args r s"
| "step args (Thread i r w) s = thread_step i r w s"

section \<open>Invariant\<close>

text \<open>How often a thread has been let go by the barrier: the same number for all threads at all times.\<close>

definition gone :: "bthread \<Rightarrow> int" where
  "gone t = (case t_pc t of TReleased v \<Rightarrow> t_j t + 1 | TSerial \<Rightarrow> t_j t + 1 | _ \<Rightarrow> t_j t)"

definition thread_ok :: "int \<Rightarrow> bthread \<Rightarrow> bool" where
  "thread_ok m t \<longleftrightarrow> 0 \<le> t_j t \<and>
     (case t_pc t of
        TStart \<Rightarrow> t_j t = 0 | TLoop \<Rightarrow> t_j t \<le> max 0 m | TSleep nsecs \<Rightarrow> t_j t < m \<and> 1 \<le> nsecs \<and> nsecs \<le> 5
      | TReleased v \<Rightarrow> t_j t < m \<and> v \<in> {0, PTHREAD_BARRIER_SERIAL_THREAD}
      | TFinal \<Rightarrow> t_j t = max 0 m | TEnd \<Rightarrow> t_j t = max 0 m | _ \<Rightarrow> t_j t < m)"

text \<open>The lines of one thread, without the seconds and the value returned.\<close>

fun by_thread :: "nat \<Rightarrow> line \<Rightarrow> bool" where
  "by_thread i (LStarted k) = (k = i)"
| "by_thread i (LAbout k j z) = (k = i)"
| "by_thread i (LPassed k j z) = (k = i)"
| "by_thread i LBlank = False"
| "by_thread i (LTerminating k) = (k = i)"

fun erased :: "line \<Rightarrow> line" where
  "erased (LAbout k j z) = LAbout k j 0"
| "erased (LPassed k j z) = LPassed k j 0"
| "erased l = l"

definition lines_of :: "nat \<Rightarrow> line list \<Rightarrow> line list" where
  "lines_of i ls = map erased (filter (by_thread i) ls)"

definition laps :: "nat \<Rightarrow> int \<Rightarrow> line list" where
  "laps i j = LStarted i # concat (map (\<lambda>k. [LAbout i (int k) 0, LPassed i (int k) 0]) [0..<nat j])"

definition expected :: "nat \<Rightarrow> bthread \<Rightarrow> line list" where
  "expected i t =
     (case t_pc t of
        TStart \<Rightarrow> [] | TLoop \<Rightarrow> laps i (t_j t) | TSleep nsecs \<Rightarrow> laps i (t_j t) | TSerial \<Rightarrow> laps i (t_j t + 1)
      | TFinal \<Rightarrow> laps i (t_j t) | TEnd \<Rightarrow> laps i (t_j t) @ [LTerminating i]
      | _ \<Rightarrow> laps i (t_j t) @ [LAbout i (t_j t) 0])"

text \<open>No line says that a thread has passed a barrier before all threads have come to it.\<close>

fun about :: "nat \<Rightarrow> int \<Rightarrow> line \<Rightarrow> bool" where
  "about k j (LAbout k' j' z) = (k' = k \<and> j' = j)"
| "about k j _ = False"

definition in_order :: "nat \<Rightarrow> line list \<Rightarrow> bool" where
  "in_order n ls \<longleftrightarrow>
     (\<forall>p<length ls. case ls ! p of LPassed i j v \<Rightarrow> (\<forall>k<n. \<exists>q<p. about k j (ls ! q)) | _ \<Rightarrow> True)"

fun is_serial :: "int \<Rightarrow> line \<Rightarrow> bool" where
  "is_serial j (LPassed i j' v) = (j' = j \<and> v = PTHREAD_BARRIER_SERIAL_THREAD)"
| "is_serial j _ = False"

definition serials :: "int \<Rightarrow> line list \<Rightarrow> nat" where
  "serials j ls = length (filter (is_serial j) ls)"

definition to_be_serial :: "int \<Rightarrow> bthread \<Rightarrow> int" where
  "to_be_serial j t = (if t_pc t = TReleased PTHREAD_BARRIER_SERIAL_THREAD \<and> t_j t = j then 1 else 0)"

definition threads_ok :: "int \<Rightarrow> bstate \<Rightarrow> bool" where
  "threads_ok g s \<longleftrightarrow> (threads s \<noteq> [] \<longrightarrow> int (length (threads s)) \<le> numThreads s) \<and> (int (length (threads s)) < numThreads s \<longrightarrow> g = 0) \<and>
     (0 < numThreads s \<longrightarrow> int (length (filter blocked (threads s))) < numThreads s) \<and>
     (\<forall>t\<in>set (threads s). thread_ok (numBarriers s) t \<and> gone t = g)"

definition printed_ok :: "int \<Rightarrow> bstate \<Rightarrow> bool" where
  "printed_ok g s \<longleftrightarrow> (\<forall>i<length (threads s). lines_of i (printed s) = expected i (threads s ! i)) \<and>
     (\<forall>i\<ge>length (threads s). lines_of i (printed s) = []) \<and>
     in_order (nat (numThreads s)) (printed s)"

definition serial_ok :: "int \<Rightarrow> bstate \<Rightarrow> bool" where
  "serial_ok g s \<longleftrightarrow> (\<forall>j. int (serials j (printed s)) + sum_list (map (to_be_serial j) (threads s)) = (if 0 \<le> j \<and> j < g then 1 else 0))"

definition main_ok :: "string list \<Rightarrow> bstate \<Rightarrow> bool" where
  "main_ok args s \<longleftrightarrow>
     (mainpc s = MArgs \<or> mainpc s = MExit 1 \<and> printed s = [] \<or>
      length args = 2 \<and> numBarriers s = atoi (args ! 0) \<and> numThreads s = atoi (args ! 1)) \<and>
     (case mainpc s of
        MArgs \<Rightarrow> threads s = [] \<and> printed s = [] \<and> numThreads s = 0
      | MInit \<Rightarrow> threads s = [] \<and> 0 \<le> numThreads s
      | MCreate k \<Rightarrow> length (threads s) = k \<and> 0 < numThreads s
      | MBlank \<Rightarrow> int (length (threads s)) = numThreads s \<and> 0 < numThreads s
      | MJoin k \<Rightarrow> int (length (threads s)) = numThreads s \<and> 0 < numThreads s \<and> int k \<le> numThreads s \<and> (\<forall>i<k. t_pc (threads s ! i) = TEnd)
      | MExit n \<Rightarrow> n = 1 \<or>
          n = 0 \<and> int (length (threads s)) = numThreads s \<and> 0 < numThreads s \<and> (\<forall>t\<in>set (threads s). t_pc t = TEnd))"

definition bar_at :: "string list \<Rightarrow> int \<Rightarrow> bstate \<Rightarrow> bool" where
  "bar_at args g s \<longleftrightarrow> threads_ok g s \<and> printed_ok g s \<and> serial_ok g s \<and> main_ok args s"

definition bar_inv :: "string list \<Rightarrow> bstate \<Rightarrow> bool" where
  "bar_inv args s \<longleftrightarrow> (\<exists>g. bar_at args g s)"

lemmas bar_parts = threads_ok_def printed_ok_def serial_ok_def

lemma bar_inv_start: "bar_inv args start"
proof -
  have "bar_at args 0 start"
    by (simp add: bar_at_def bar_parts main_ok_def start_def lines_of_def in_order_def serials_def)
  then show ?thesis by (auto simp: bar_inv_def)
qed

lemma lines_of_append [simp]: "lines_of i (xs @ ys) = lines_of i xs @ lines_of i ys"
  by (simp add: lines_of_def)

lemma lines_of_Nil [simp]: "lines_of i [] = []"
  by (simp add: lines_of_def)

lemma lines_of_Cons [simp]: "lines_of i (l # ls) = (if by_thread i l then erased l # lines_of i ls else lines_of i ls)"
  by (simp add: lines_of_def)

lemma serials_append [simp]: "serials j (xs @ ys) = serials j xs + serials j ys"
  by (simp add: serials_def)

lemma serials_Nil [simp]: "serials j [] = 0"
  by (simp add: serials_def)

lemma serials_Cons [simp]: "serials j (l # ls) = (if is_serial j l then Suc (serials j ls) else serials j ls)"
  by (simp add: serials_def)

lemma laps_next: "0 \<le> j \<Longrightarrow> laps i (j + 1) = laps i j @ [LAbout i j 0, LPassed i j 0]"
  by (simp add: laps_def nat_add_distrib)

lemma expected_about:
  assumes "thread_ok m t" "gone t = j + 1" "0 \<le> j"
  shows "LAbout i j 0 \<in> set (expected i t)"
proof -
  have "LAbout i j 0 \<in> set (laps i (j + 1))" using assms(3) by (simp add: laps_next)
  with assms show ?thesis by (cases "t_pc t") (auto simp: expected_def gone_def thread_ok_def)
qed

lemma about_of_lines: "LAbout k j 0 \<in> set (lines_of k ls) \<Longrightarrow> \<exists>q<length ls. about k j (ls ! q)"
proof -
  assume "LAbout k j 0 \<in> set (lines_of k ls)"
  then obtain l where "l \<in> set ls" "by_thread k l" "erased l = LAbout k j 0" by (auto simp: lines_of_def)
  moreover from this(3) have "about k j l" by (cases l) auto
  ultimately show ?thesis by (metis in_set_conv_nth)
qed

lemma in_order_append:
  assumes "in_order n ls" "\<And>i j v k. l = LPassed i j v \<Longrightarrow> k < n \<Longrightarrow> LAbout k j 0 \<in> set (lines_of k ls)"
  shows "in_order n (ls @ [l])"
  unfolding in_order_def
proof (intro allI impI)
  fix p assume p: "p < length (ls @ [l])"
  show "case (ls @ [l]) ! p of LPassed i j v \<Rightarrow> \<forall>k<n. \<exists>q<p. about k j ((ls @ [l]) ! q) | _ \<Rightarrow> True"
  proof (cases "p < length ls")
    case True
    with assms(1) have "case ls ! p of LPassed i j v \<Rightarrow> \<forall>k<n. \<exists>q<p. about k j (ls ! q) | _ \<Rightarrow> True"
      by (simp add: in_order_def)
    moreover have "(ls @ [l]) ! q = ls ! q" if "q \<le> p" for q using that True by (simp add: nth_append)
    ultimately show ?thesis by (cases "ls ! p") (simp_all, metis less_imp_le)
  next
    case False
    with p have [simp]: "p = length ls" by simp
    show ?thesis
    proof (cases l)
      case (LPassed i j v)
      have "\<exists>q<length ls. about k j ((ls @ [l]) ! q)" if "k < n" for k
        using about_of_lines [OF assms(2) [OF LPassed that]] by (auto simp: nth_append)
      with LPassed show ?thesis by simp
    qed simp_all
  qed
qed

lemma filter_update_length:
  "i < length xs \<Longrightarrow> \<not> P (xs ! i) \<Longrightarrow> length (filter P (xs[i := y])) = length (filter P xs) + (if P y then 1 else 0)"
proof (induction xs arbitrary: i)
  case (Cons x xs)
  then show ?case by (cases i) auto
qed simp

lemma length_filter_card: "length (filter P xs) = card {k. k < length xs \<and> P (xs ! k)}"
  by (simp add: length_filter_conv_card)

lemma filter_others:
  assumes "i < length xs" "\<not> P (xs ! i)" "length xs \<le> Suc (length (filter P xs))" "k < length xs" "k \<noteq> i"
  shows "P (xs ! k)"
proof (rule ccontr)
  assume "\<not> P (xs ! k)"
  then have "{k. k < length xs \<and> P (xs ! k)} \<subseteq> {..<length xs} - {i, k}" using assms(2) by auto
  then have "card {k. k < length xs \<and> P (xs ! k)} \<le> card ({..<length xs} - {i, k})" by (intro card_mono) auto
  also have "\<dots> = length xs - 2" using assms(1,4,5) by (subst card_Diff_subset) auto
  finally show False using assms(1,3,4,5) by (simp add: length_filter_card)
qed

lemma filter_not_all: "i < length xs \<Longrightarrow> \<not> P (xs ! i) \<Longrightarrow> length (filter P xs) < length xs"
  by (rule length_filter_less [of "xs ! i"]) auto

lemma main_ok_threads:
  assumes "main_ok args s" "\<not> exited s" "threads s \<noteq> []" "length ts = length (threads s)"
    "\<And>k. k < length (threads s) \<Longrightarrow> t_pc (threads s ! k) = TEnd \<Longrightarrow> ts ! k = threads s ! k"
  shows "main_ok args (s\<lparr>threads := ts, printed := ls\<rparr>)"
  using assms by (cases "mainpc s") (auto simp: main_ok_def exited_def)

text \<open>A thread goes on by itself, perhaps printing a line.\<close>

lemma bar_at_moved:
  assumes "bar_at args g s" "\<not> exited s" "i < length (threads s)"
    and s': "s' = s\<lparr>threads := (threads s)[i := y], printed := printed s @ ls\<rparr>"
    and t: "\<not> blocked (threads s ! i)" "t_pc (threads s ! i) \<noteq> TEnd"
    and y: "thread_ok (numBarriers s) y" "gone y = gone (threads s ! i)"
      "blocked y \<Longrightarrow> int (length (filter blocked (threads s))) + 1 < numThreads s"
    and ls: "ls = [] \<or> ls = [l]" "\<And>k. k \<noteq> i \<Longrightarrow> lines_of k ls = []" "expected i y = expected i (threads s ! i) @ lines_of i ls"
      "\<And>i' j v. l = LPassed i' j v \<Longrightarrow> gone y = j + 1 \<and> 0 \<le> j"
      "\<And>j. int (serials j ls) + to_be_serial j y = to_be_serial j (threads s ! i)"
  shows "bar_at args g s'"
proof -
  let ?ts = "threads s"
  from assms(1) have iv: "threads_ok g s" "printed_ok g s" "serial_ok g s" "main_ok args s" by (simp_all add: bar_at_def)
  have ne: "?ts \<noteq> []" using assms(3) by auto
  have g: "gone y = g" using iv(1) y(2) assms(3) by (simp add: threads_ok_def)
  have "threads_ok g s'"
    unfolding threads_ok_def
  proof (intro conjI impI)
    show "int (length (filter blocked (threads s'))) < numThreads s'" if "0 < numThreads s'"
      using that iv(1) y(3) t(1) assms(3) by (simp add: s' threads_ok_def filter_update_length)
    show "\<forall>t\<in>set (threads s'). thread_ok (numBarriers s') t \<and> gone t = g"
      using iv(1) y(1) g set_update_subset_insert [of ?ts i y] by (fastforce simp: s' threads_ok_def)
  qed (use iv(1) ne in \<open>simp_all add: s' threads_ok_def\<close>)
  moreover have "printed_ok g s'"
    unfolding printed_ok_def
  proof (intro conjI allI impI)
    show "lines_of k (printed s') = expected k (threads s' ! k)" if "k < length (threads s')" for k
      using that iv(2) ls(2,3) assms(3) by (cases "k = i") (simp_all add: s' printed_ok_def)
    show "lines_of k (printed s') = []" if "length (threads s') \<le> k" for k
      using that iv(2) ls(2) assms(3) by (simp add: s' printed_ok_def)
    have about: "LAbout k j 0 \<in> set (lines_of k (printed s))" if l: "l = LPassed i' j v" and k: "k < nat (numThreads s)" for i' j v k
    proof -
      from ls(4) [OF l] g have j: "g = j + 1" "0 \<le> j" by simp_all
      with iv(1) k have k': "k < length ?ts" by (auto simp: threads_ok_def)
      with iv(1) j have "thread_ok (numBarriers s) (?ts ! k)" "gone (?ts ! k) = j + 1" by (simp_all add: threads_ok_def)
      from expected_about [OF this j(2)] iv(2) k' show ?thesis by (simp add: printed_ok_def)
    qed
    have "in_order (nat (numThreads s)) (printed s @ ls)"
      using ls(1) iv(2) in_order_append [of "nat (numThreads s)" "printed s" l] about by (auto simp: printed_ok_def)
    then show "in_order (nat (numThreads s')) (printed s')" by (simp add: s')
  qed
  moreover have "serial_ok g s'"
    unfolding serial_ok_def
  proof
    fix j
    have "int (serials j (printed s)) + sum_list (map (to_be_serial j) ?ts) = (if 0 \<le> j \<and> j < g then 1 else 0)"
      using iv(3) by (simp add: serial_ok_def)
    moreover have "sum_list (map (to_be_serial j) (threads s')) = sum_list (map (to_be_serial j) ?ts) - int (serials j ls)"
      using ls(5) [of j] by (simp add: s' sum_list_update_int [OF assms(3)])
    ultimately show "int (serials j (printed s')) + sum_list (map (to_be_serial j) (threads s')) = (if 0 \<le> j \<and> j < g then 1 else 0)"
      by (simp add: s')
  qed
  moreover have "main_ok args s'"
    unfolding s'
  proof (rule main_ok_threads [OF iv(4) assms(2) ne])
    show "?ts[i := y] ! k = ?ts ! k" if "t_pc (?ts ! k) = TEnd" for k using that t(2) by (metis nth_list_update_neq)
  qed simp
  ultimately show ?thesis by (simp add: bar_at_def)
qed

text \<open>All threads leave the barrier.\<close>

lemma release_nth:
  "k < length ts \<Longrightarrow> release i w ts ! k =
    (if k = i \<or> blocked (ts ! k) then (ts ! k)\<lparr>t_pc := TReleased (if k = w then PTHREAD_BARRIER_SERIAL_THREAD else 0)\<rparr> else ts ! k)"
  by (simp add: release_def nth_enumerate_eq)

lemma release_length [simp]: "length (release i w ts) = length ts"
  by (simp add: release_def)

lemma bar_at_released:
  assumes "bar_at args g s" "\<not> exited s" "i < length (threads s)" "t_pc (threads s ! i) = TWait"
    "int (length (filter blocked (threads s))) + 1 = numThreads s" "w < length (threads s)"
    and s': "s' = s\<lparr>threads := release i w (threads s)\<rparr>"
  shows "bar_at args (g + 1) s'"
proof -
  let ?ts = "threads s" and ?rs = "release i w (threads s)"
  from assms(1) have iv: "threads_ok g s" "printed_ok g s" "serial_ok g s" "main_ok args s" by (simp_all add: bar_at_def)
  have ne: "?ts \<noteq> []" and i: "\<not> blocked (?ts ! i)" using assms(3,4) by (auto simp: blocked_def)
  have len: "int (length ?ts) = numThreads s"
    using filter_not_all [of i ?ts blocked] assms(3,5) i iv(1) ne by (simp add: threads_ok_def)
  have old: "t_pc (?ts ! k) \<in> {TWait, TBlocked}" if "k < length ?ts" for k
    using filter_others [of i ?ts blocked k] assms(3,4,5) i that len by (cases "k = i") (auto simp: blocked_def)
  have nth: "?rs ! k = (?ts ! k)\<lparr>t_pc := TReleased (if k = w then PTHREAD_BARRIER_SERIAL_THREAD else 0)\<rparr>" if "k < length ?ts" for k
    using filter_others [of i ?ts blocked k] assms(3,5) i that len by (cases "k = i") (simp_all add: release_nth)
  have j: "t_j (?ts ! k) = g" "0 \<le> g" "g < numBarriers s" if "k < length ?ts" for k
  proof -
    from iv(1) that have "thread_ok (numBarriers s) (?ts ! k)" "gone (?ts ! k) = g" by (simp_all add: threads_ok_def)
    with old [OF that] show "t_j (?ts ! k) = g" "0 \<le> g" "g < numBarriers s" by (auto simp: thread_ok_def gone_def)
  qed
  have "thread_ok (numBarriers s) t \<and> gone t = g + 1 \<and> \<not> blocked t" if "t \<in> set ?rs" for t
  proof -
    from that obtain k where k: "k < length ?ts" "t = ?rs ! k" by (auto simp: in_set_conv_nth)
    with j [OF k(1)] show ?thesis by (simp add: nth thread_ok_def gone_def blocked_def)
  qed
  moreover from this have "filter blocked ?rs = []" by (auto simp: filter_empty_conv)
  ultimately have "threads_ok (g + 1) s'" using len ne by (simp add: threads_ok_def s')
  moreover have "expected k (?rs ! k) = expected k (?ts ! k)" if "k < length ?ts" for k
    using old [OF that] by (auto simp: nth [OF that] expected_def)
  with iv(2) have "printed_ok (g + 1) s'" by (simp add: printed_ok_def s')
  moreover have "serial_ok (g + 1) s'"
    unfolding serial_ok_def
  proof
    fix z
    have "sum_list (map (to_be_serial z) ?ts) = 0"
      using old by (intro sum_list_0_all) (fastforce simp: to_be_serial_def in_set_conv_nth)
    with iv(3) [unfolded serial_ok_def, THEN spec, of z] have "int (serials z (printed s)) = (if 0 \<le> z \<and> z < g then 1 else 0)" by simp
    moreover have "sum_list (map (to_be_serial z) ?rs) = (\<Sum>k<length ?ts. to_be_serial z (?rs ! k))"
      by (simp add: sum_list_sum_nth atLeast0LessThan)
    moreover have "\<dots> = (\<Sum>k<length ?ts. if k = w then (if g = z then 1 else 0) else 0)"
      by (rule sum.cong) (auto simp: nth j(1) to_be_serial_def PTHREAD_BARRIER_SERIAL_THREAD_def)
    moreover have "\<dots> = (if g = z then 1 else 0)" using assms(6) by simp
    ultimately show "int (serials z (printed s')) + sum_list (map (to_be_serial z) (threads s')) = (if 0 \<le> z \<and> z < g + 1 then 1 else 0)"
      using j(2) [OF assms(3)] by (simp add: s')
  qed
  moreover have "s' = s\<lparr>threads := ?rs, printed := printed s\<rparr>" by (simp add: s')
  moreover have "main_ok args (s\<lparr>threads := ?rs, printed := printed s\<rparr>)"
  proof (rule main_ok_threads [OF iv(4) assms(2) ne])
    show "?rs ! k = ?ts ! k" if "k < length ?ts" "t_pc (?ts ! k) = TEnd" for k using old [OF that(1)] that(2) by simp
  qed simp
  ultimately show ?thesis by (simp add: bar_at_def)
qed

lemma bar_at_exit: "bar_at args g s \<Longrightarrow> bar_at args g (errExitEN s)"
  by (auto simp: bar_at_def bar_parts main_ok_def errExitEN_def split: mpc.splits)

lemmas thread_facts = thread_ok_def gone_def blocked_def expected_def to_be_serial_def PTHREAD_BARRIER_SERIAL_THREAD_def

lemma bar_inv_thread_step:
  assumes "bar_at args g s" "thread_step i r w s = Some s'"
  shows "bar_inv args s'"
proof -
  let ?t = "threads s ! i"
  from assms(2) have ex: "\<not> exited s" and i: "i < length (threads s)" by (auto simp: thread_step_def split: if_splits)
  then have step: "(case t_pc ?t of
           TStart \<Rightarrow> Some (put (LStarted i) (set_thread i (?t\<lparr>t_pc := TLoop, t_j := 0\<rparr>) s))
         | TLoop \<Rightarrow>
             Some (set_thread i (?t\<lparr>t_pc := (if t_j ?t < numBarriers s then TSleep (int w mod 5 + 1) else TFinal)\<rparr>) s)
         | TSleep nsecs \<Rightarrow> Some (put (LAbout i (t_j ?t) nsecs) (set_thread i (?t\<lparr>t_pc := TWait\<rparr>) s))
         | TWait \<Rightarrow> if r \<noteq> 0 then Some (errExitEN s) else barrier_wait i w s
         | TBlocked \<Rightarrow> None
         | TReleased v \<Rightarrow>
             if v = 0 then Some (put (LPassed i (t_j ?t) v) (set_thread i (?t\<lparr>t_pc := TLoop, t_j := t_j ?t + 1\<rparr>) s))
             else if v = PTHREAD_BARRIER_SERIAL_THREAD then
               Some (put (LPassed i (t_j ?t) v) (set_thread i (?t\<lparr>t_pc := TSerial\<rparr>) s))
             else Some (errExitEN s)
         | TSerial \<Rightarrow> Some (put LBlank (set_thread i (?t\<lparr>t_pc := TLoop, t_j := t_j ?t + 1\<rparr>) s))
         | TFinal \<Rightarrow> Some (put (LTerminating i) (set_thread i (?t\<lparr>t_pc := TEnd\<rparr>) s))
         | TEnd \<Rightarrow> None) = Some s'"
    using assms(2) by (simp add: thread_step_def Let_def)
  have tok: "thread_ok (numBarriers s) ?t" using assms(1) i by (simp add: bar_at_def threads_ok_def)
  note moved = bar_at_moved [OF assms(1) ex i]
  note simps = put_def set_thread_def thread_facts laps_next
  have "\<exists>g. bar_at args g s'"
  proof (cases "t_pc ?t")
    case TStart
    have "bar_at args g s'"
      by (rule moved [where y = "?t\<lparr>t_pc := TLoop, t_j := 0\<rparr>" and ls = "[LStarted i]" and l = "LStarted i"])
        (use TStart step tok in \<open>auto simp: simps laps_def\<close>)
    then show ?thesis ..
  next
    case TLoop
    have "bar_at args g s'"
      by (rule moved [where y = "?t\<lparr>t_pc := (if t_j ?t < numBarriers s then TSleep (int w mod 5 + 1) else TFinal)\<rparr>" and ls = "[]" and l = LBlank])
        (use TLoop step tok in \<open>auto simp: simps split: if_splits\<close>)
    then show ?thesis ..
  next
    case (TSleep nsecs)
    have "bar_at args g s'"
      by (rule moved [where y = "?t\<lparr>t_pc := TWait\<rparr>" and ls = "[LAbout i (t_j ?t) nsecs]" and l = "LAbout i (t_j ?t) nsecs"])
        (use TSleep step tok in \<open>auto simp: simps\<close>)
    then show ?thesis ..
  next
    case (TReleased v)
    with tok have v: "v = 0 \<or> v = PTHREAD_BARRIER_SERIAL_THREAD" by (simp add: thread_ok_def)
    have "bar_at args g s'"
      by (rule moved [where y = "if v = 0 then ?t\<lparr>t_pc := TLoop, t_j := t_j ?t + 1\<rparr> else ?t\<lparr>t_pc := TSerial\<rparr>" and ls = "[LPassed i (t_j ?t) v]" and l = "LPassed i (t_j ?t) v"])
        (use TReleased step tok v in \<open>auto simp: simps\<close>)
    then show ?thesis ..
  next
    case TSerial
    have "bar_at args g s'"
      by (rule moved [where y = "?t\<lparr>t_pc := TLoop, t_j := t_j ?t + 1\<rparr>" and ls = "[LBlank]" and l = LBlank]) (use TSerial step tok in \<open>auto simp: simps\<close>)
    then show ?thesis ..
  next
    case TFinal
    have "bar_at args g s'"
      by (rule moved [where y = "?t\<lparr>t_pc := TEnd\<rparr>" and ls = "[LTerminating i]" and l = "LTerminating i"]) (use TFinal step tok in \<open>auto simp: simps\<close>)
    then show ?thesis ..
  next
    case TWait
    show ?thesis
    proof (cases "r = 0")
      case False
      with TWait step bar_at_exit [OF assms(1)] show ?thesis by auto
    next
      case True
      with TWait step have bw: "barrier_wait i w s = Some s'" by simp
      show ?thesis
      proof (cases "int (length (filter blocked (threads s))) + 1 = numThreads s")
        case True
        with bw have "w < length (threads s)" "s' = s\<lparr>threads := release i w (threads s)\<rparr>"
          by (auto simp: barrier_wait_def Let_def split: if_splits)
        from bar_at_released [OF assms(1) ex i TWait True this] show ?thesis ..
      next
        case False
        moreover have "int (length (filter blocked (threads s))) < numThreads s"
          using assms(1) i by (fastforce simp: bar_at_def threads_ok_def)
        moreover have "s' = s\<lparr>threads := (threads s)[i := ?t\<lparr>t_pc := TBlocked\<rparr>], printed := printed s @ []\<rparr>"
          using bw False by (auto simp: barrier_wait_def set_thread_def Let_def)
        ultimately have "bar_at args g s'"
          by (intro moved [where y = "?t\<lparr>t_pc := TBlocked\<rparr>" and ls = "[]" and l = LBlank]) (use TWait tok in \<open>auto simp: simps\<close>)
        then show ?thesis ..
      qed
    qed
  qed (use step in simp_all)
  then show ?thesis by (simp add: bar_inv_def)
qed

lemma bar_at_created:
  assumes "bar_at args g s" "mainpc s = MCreate k" "int k < numThreads s"
    and s': "s' = s\<lparr>threads := threads s @ [\<lparr>t_pc = TStart, t_j = 0\<rparr>], mainpc := MCreate (Suc k)\<rparr>"
  shows "bar_at args g s'"
proof -
  from assms(1) have iv: "threads_ok g s" "printed_ok g s" "serial_ok g s" "main_ok args s" by (simp_all add: bar_at_def)
  have k: "length (threads s) = k" "0 < numThreads s" using iv(4) assms(2) by (simp_all add: main_ok_def)
  with iv(1) assms(3) have g: "g = 0" by (simp add: threads_ok_def)
  have "threads_ok g s'" using iv(1) assms(3) k g by (auto simp: threads_ok_def s' thread_ok_def gone_def blocked_def)
  moreover have "printed_ok g s'"
    using iv(2) k by (auto simp: printed_ok_def s' nth_append expected_def less_Suc_eq)
  moreover have "serial_ok g s'" using iv(3) by (simp add: serial_ok_def s' to_be_serial_def)
  moreover have "main_ok args s'" using iv(4) assms(2) k by (simp add: main_ok_def s')
  ultimately show ?thesis by (simp add: bar_at_def)
qed

lemma bar_at_main:
  "bar_at args g s \<Longrightarrow> main_ok args (s\<lparr>mainpc := pc\<rparr>) \<Longrightarrow> bar_at args g (s\<lparr>mainpc := pc\<rparr>)"
  by (simp add: bar_at_def bar_parts)

lemma bar_inv_main_step:
  assumes "bar_at args g s" "main_step args r s = Some s'"
  shows "bar_inv args s'"
proof -
  from assms(1) have m: "main_ok args s" by (simp add: bar_at_def)
  have "\<exists>g. bar_at args g s'"
  proof (cases "s' = errExitEN s")
    case True
    with bar_at_exit [OF assms(1)] show ?thesis by auto
  next
    case False
    show ?thesis
    proof (cases "mainpc s")
      case MArgs
      let ?s = "s\<lparr>numBarriers := atoi (args ! 0), numThreads := atoi (args ! 1)\<rparr>"
      from MArgs m have e: "threads s = []" "printed s = []" by (simp_all add: main_ok_def)
      from MArgs assms(2) False have l: "length args = 2" "s' = errExitEN ?s \<or> 0 \<le> atoi (args ! 1) \<and> s' = ?s\<lparr>mainpc := MInit\<rparr>"
        by (auto simp: main_step_def Let_def split: if_splits)
      then have "bar_at args 0 s'"
        using e by (auto simp: bar_at_def bar_parts main_ok_def errExitEN_def serials_def lines_of_def in_order_def)
      then show ?thesis ..
    next
      case MInit
      with assms(2) False have "s' = s\<lparr>mainpc := MCreate 0\<rparr>" "numThreads s \<noteq> 0" by (auto simp: main_step_def split: if_splits)
      with MInit m bar_at_main [OF assms(1), of "MCreate 0"] show ?thesis by (auto simp: main_ok_def)
    next
      case (MCreate k)
      show ?thesis
      proof (cases "int k < numThreads s")
        case True
        with MCreate assms(2) False have "s' = s\<lparr>threads := threads s @ [\<lparr>t_pc = TStart, t_j = 0\<rparr>], mainpc := MCreate (Suc k)\<rparr>"
          by (auto simp: main_step_def split: if_splits)
        from bar_at_created [OF assms(1) MCreate True this] show ?thesis ..
      next
        case no: False
        with MCreate assms(2) have s': "s' = s\<lparr>mainpc := MBlank\<rparr>" by (simp add: main_step_def)
        have "int (length (threads s)) = numThreads s"
          using m MCreate no assms(1) by (auto simp: main_ok_def bar_at_def threads_ok_def)
        with MCreate m bar_at_main [OF assms(1), of MBlank] s' show ?thesis by (auto simp: main_ok_def)
      qed
    next
      case MBlank
      then have s': "s' = s\<lparr>mainpc := MJoin 0, printed := printed s @ [LBlank]\<rparr>" using assms(2) by (simp add: main_step_def put_def)
      have "in_order (nat (numThreads s)) (printed s @ [LBlank])"
        using assms(1) by (intro in_order_append) (simp_all add: bar_at_def printed_ok_def)
      with assms(1) MBlank have "bar_at args g s'" by (auto simp: s' bar_at_def bar_parts main_ok_def)
      then show ?thesis ..
    next
      case (MJoin k)
      show ?thesis
      proof (cases "int k < numThreads s")
        case True
        with MJoin assms(2) False have "s' = s\<lparr>mainpc := MJoin (Suc k)\<rparr>" "t_pc (threads s ! k) = TEnd"
          by (auto simp: main_step_def split: if_splits)
        with MJoin True m bar_at_main [OF assms(1), of "MJoin (Suc k)"] show ?thesis by (auto simp: main_ok_def less_Suc_eq)
      next
        case no: False
        with MJoin assms(2) have "s' = s\<lparr>mainpc := MExit 0\<rparr>" by (simp add: main_step_def)
        moreover have "\<forall>t\<in>set (threads s). t_pc t = TEnd"
          using m MJoin no by (auto simp: main_ok_def in_set_conv_nth)
        ultimately show ?thesis using MJoin m bar_at_main [OF assms(1), of "MExit 0"] by (auto simp: main_ok_def)
      qed
    qed (use assms(2) in \<open>simp add: main_step_def\<close>)
  qed
  then show ?thesis by (simp add: bar_inv_def)
qed

lemma bar_inv_step: "bar_inv args s \<Longrightarrow> step args e s = Some s' \<Longrightarrow> bar_inv args s'"
  by (cases e) (auto simp: bar_inv_def [of args s] intro: bar_inv_main_step bar_inv_thread_step)

section \<open>Progress\<close>

lemma bthread_can_go:
  assumes "bar_at args g s" "\<not> exited s" "i < length (threads s)" "t_pc (threads s ! i) \<noteq> TEnd"
  shows "\<not> blocked (threads s ! i) \<Longrightarrow> \<exists>w. thread_step i 0 w s \<noteq> None"
proof -
  assume nb: "\<not> blocked (threads s ! i)"
  have "thread_step i 0 i s \<noteq> None"
    using assms(2-4) nb by (cases "t_pc (threads s ! i)") (auto simp: thread_step_def barrier_wait_def blocked_def Let_def)
  then show ?thesis ..
qed

text \<open>When a thread waits at the barrier and another one has ended or waits too, a third can go on.\<close>

lemma bar_not_stuck:
  assumes "bar_at args g s" "\<not> exited s"
  shows "main_step args 0 s \<noteq> None \<or> (\<exists>i w. thread_step i 0 w s \<noteq> None)"
proof (cases "mainpc s")
  case (MJoin k)
  from assms(1) have iv: "threads_ok g s" "main_ok args s" by (simp_all add: bar_at_def)
  show ?thesis
  proof (cases "int k < numThreads s \<and> t_pc (threads s ! k) \<noteq> TEnd")
    case True
    with iv MJoin have k: "k < length (threads s)" by (simp add: main_ok_def)
    show ?thesis
    proof (cases "blocked (threads s ! k)")
      case False
      with bthread_can_go [OF assms k] True show ?thesis by blast
    next
      case b: True
      have "\<exists>i<length (threads s). \<not> blocked (threads s ! i)"
      proof (rule ccontr)
        assume "\<not> ?thesis"
        then have "filter blocked (threads s) = threads s" by (auto simp: in_set_conv_nth intro!: filter_True)
        with iv MJoin show False by (simp add: threads_ok_def main_ok_def)
      qed
      then obtain i where i: "i < length (threads s)" "\<not> blocked (threads s ! i)" by blast
      have "t_pc (threads s ! i) \<noteq> TEnd"
      proof
        assume "t_pc (threads s ! i) = TEnd"
        moreover have "thread_ok (numBarriers s) (threads s ! i)" "thread_ok (numBarriers s) (threads s ! k)"
          "gone (threads s ! i) = gone (threads s ! k)" using iv(1) i(1) k by (simp_all add: threads_ok_def)
        ultimately show False using b by (simp add: thread_ok_def gone_def blocked_def)
      qed
      with bthread_can_go [OF assms i(1)] i(2) show ?thesis by blast
    qed
  qed (use MJoin in \<open>auto simp: main_step_def\<close>)
qed (use assms(2) in \<open>auto simp: main_step_def exited_def Let_def\<close>)

text \<open>How many steps are left: six for each lap of each thread.\<close>

definition thread_left :: "int \<Rightarrow> bthread \<Rightarrow> int" where
  "thread_left m t =
     (let l = 6 * (max 0 m - t_j t) in
      case t_pc t of
        TStart \<Rightarrow> l + 3 | TLoop \<Rightarrow> l + 2 | TSleep nsecs \<Rightarrow> l + 1 | TWait \<Rightarrow> l | TBlocked \<Rightarrow> l - 1 | TReleased v \<Rightarrow> l - 2
      | TSerial \<Rightarrow> l - 3 | TFinal \<Rightarrow> l + 1 | TEnd \<Rightarrow> l)"

definition main_left :: "int \<Rightarrow> int \<Rightarrow> mpc \<Rightarrow> int" where
  "main_left m n pc =
     (case pc of
        MArgs \<Rightarrow> n * (6 * max 0 m + 5) + 5
      | MInit \<Rightarrow> n * (6 * max 0 m + 5) + 4
      | MCreate k \<Rightarrow> (n - int k) * (6 * max 0 m + 4) + n + 3
      | MBlank \<Rightarrow> n + 2 | MJoin k \<Rightarrow> n - int k + 1 | MExit _ \<Rightarrow> 0)"

definition threads_asked :: "string list \<Rightarrow> int" where
  "threads_asked args = max 0 (atoi (args ! 1))"

definition left :: "string list \<Rightarrow> bstate \<Rightarrow> int" where
  "left args s =
     (if exited s then 0
      else sum_list (map (thread_left (atoi (args ! 0))) (threads s)) + main_left (atoi (args ! 0)) (threads_asked args) (mainpc s))"

lemma thread_left_nonneg: "thread_ok m t \<Longrightarrow> 0 \<le> thread_left m t"
  by (cases "t_pc t") (auto simp: thread_ok_def thread_left_def Let_def)

lemma args_of:
  assumes "main_ok args s" "\<not> exited s" "mainpc s \<noteq> MArgs"
  shows "numBarriers s = atoi (args ! 0)" "numThreads s = atoi (args ! 1)"
  using assms by (auto simp: main_ok_def exited_def)

lemma bar_left_positive:
  assumes "bar_at args g s" "\<not> exited s"
  shows "0 < left args s"
proof -
  from assms(1) have iv: "threads_ok g s" "main_ok args s" by (simp_all add: bar_at_def)
  note a = args_of [OF iv(2) assms(2)]
  have "0 \<le> sum_list (map (thread_left (atoi (args ! 0))) (threads s))"
  proof (cases "mainpc s = MArgs")
    case False
    with iv(1) a show ?thesis by (intro sum_list_nonneg) (auto simp: threads_ok_def intro: thread_left_nonneg)
  qed (use iv(2) in \<open>simp add: main_ok_def\<close>)
  moreover have "0 < main_left (atoi (args ! 0)) (threads_asked args) (mainpc s)"
  proof (cases "mainpc s")
    case (MCreate k)
    with iv a have "int k \<le> threads_asked args" by (cases "threads s = []") (auto simp: threads_ok_def main_ok_def threads_asked_def)
    then have "0 \<le> (threads_asked args - int k) * (6 * max 0 (atoi (args ! 0)) + 4)" by (intro mult_nonneg_nonneg) simp_all
    with MCreate show ?thesis by (simp add: main_left_def threads_asked_def)
  next
    case (MJoin k)
    with iv a show ?thesis by (simp add: main_left_def main_ok_def threads_asked_def)
  qed (use assms(2) in \<open>auto simp: main_left_def exited_def threads_asked_def intro!: add_nonneg_pos\<close>)
  ultimately show ?thesis using assms(2) by (simp add: left_def)
qed

lemma bleft_main_step:
  assumes "bar_at args g s" "main_step args r s = Some s'"
  shows "left args s' < left args s"
proof -
  from assms(1) have iv: "threads_ok g s" "main_ok args s" by (simp_all add: bar_at_def)
  have ex: "\<not> exited s" using assms(2) by (auto simp: exited_def main_step_def split: mpc.splits)
  note pos = bar_left_positive [OF assms(1) ex] and a = args_of [OF iv(2) ex]
  show ?thesis
  proof (cases "exited s'")
    case True
    with pos show ?thesis by (simp add: left_def)
  next
    case False
    then have ne: "s' \<noteq> errExitEN t" for t by (auto simp: errExitEN_def exited_def)
    show ?thesis
    proof (cases "mainpc s")
      case (MCreate k)
      show ?thesis
      proof (cases "int k < numThreads s")
        case True
        with MCreate assms(2) ne have "s' = s\<lparr>threads := threads s @ [\<lparr>t_pc = TStart, t_j = 0\<rparr>], mainpc := MCreate (Suc k)\<rparr>"
          by (auto simp: main_step_def split: if_splits)
        with MCreate ex False show ?thesis by (simp add: left_def main_left_def thread_left_def algebra_simps)
      next
        case no: False
        have "int k = threads_asked args"
          using iv a MCreate no by (cases "threads s = []") (auto simp: threads_ok_def main_ok_def threads_asked_def)
        moreover have "s' = s\<lparr>mainpc := MBlank\<rparr>" using MCreate no assms(2) by (simp add: main_step_def)
        ultimately show ?thesis using MCreate ex False by (simp add: left_def main_left_def)
      qed
    qed (use assms(2) ne ex False in \<open>auto simp: main_step_def left_def main_left_def put_def exited_def Let_def algebra_simps split: if_splits\<close>)
  qed
qed

lemma sum_list_map2_less:
  fixes f :: "'a \<Rightarrow> int"
  assumes "length ys = length xs" "xs \<noteq> []" "\<And>k. k < length xs \<Longrightarrow> f (ys ! k) < f (xs ! k)"
  shows "sum_list (map f ys) < sum_list (map f xs)"
  using assms by (auto simp: sum_list_sum_nth intro!: sum_strict_mono)

lemma bleft_thread_step:
  assumes "bar_at args g s" "thread_step i r w s = Some s'"
  shows "left args s' < left args s"
proof -
  let ?t = "threads s ! i" and ?m = "atoi (args ! 0)"
  from assms(2) have ex: "\<not> exited s" and i: "i < length (threads s)" by (auto simp: thread_step_def split: if_splits)
  from assms(1) have iv: "threads_ok g s" "main_ok args s" by (simp_all add: bar_at_def)
  have "mainpc s \<noteq> MArgs" using iv(2) i by (auto simp: main_ok_def)
  note pos = bar_left_positive [OF assms(1) ex] and a = args_of [OF iv(2) ex this]
  have tok: "thread_ok ?m (threads s ! k)" if "k < length (threads s)" for k using iv(1) a(1) that by (simp add: threads_ok_def)
  have less: "left args s' < left args s"
    if "sum_list (map (thread_left ?m) (threads s')) < sum_list (map (thread_left ?m) (threads s))" "mainpc s' = mainpc s"
    using that ex by (simp add: left_def exited_def)
  have one: "left args s' < left args s" if "threads s' = (threads s)[i := y]" "thread_left ?m y < thread_left ?m ?t" "mainpc s' = mainpc s" for y
    using that i by (intro less) (simp_all add: sum_list_update_int)
  note simps = thread_step_def Let_def put_def set_thread_def thread_left_def
  show ?thesis
  proof (cases "\<exists>t. s' = errExitEN t")
    case True
    with pos show ?thesis by (auto simp: left_def errExitEN_def exited_def)
  next
    case False
    show ?thesis
    proof (cases "t_pc ?t")
      case TWait
      with False assms(2) ex i have bw: "barrier_wait i w s = Some s'" by (auto simp: thread_step_def Let_def split: if_splits)
      show ?thesis
      proof (cases "int (length (filter blocked (threads s))) + 1 = numThreads s")
        case True
        with bw have s': "s' = s\<lparr>threads := release i w (threads s)\<rparr>" by (auto simp: barrier_wait_def Let_def split: if_splits)
        have "k = i \<or> blocked (threads s ! k)" if "k < length (threads s)" for k
          using filter_others [OF i, of blocked k] TWait that True iv(1) i by (fastforce simp: threads_ok_def blocked_def)
        moreover have "threads s \<noteq> []" using i by auto
        ultimately have "sum_list (map (thread_left ?m) (release i w (threads s))) < sum_list (map (thread_left ?m) (threads s))"
          using TWait by (intro sum_list_map2_less) (fastforce simp: release_nth thread_left_def blocked_def Let_def)+
        then show ?thesis by (intro less) (simp_all add: s')
      next
        case no: False
        show ?thesis
          by (rule one [where y = "?t\<lparr>t_pc := TBlocked\<rparr>"]) (use bw no TWait in \<open>auto simp: barrier_wait_def simps\<close>)
      qed
    next
      case TStart
      show ?thesis by (rule one [where y = "?t\<lparr>t_pc := TLoop, t_j := 0\<rparr>"]) (use TStart assms(2) ex i tok [OF i] in \<open>auto simp: simps thread_ok_def\<close>)
    next
      case TLoop
      show ?thesis
        by (rule one [where y = "?t\<lparr>t_pc := (if t_j ?t < numBarriers s then TSleep (int w mod 5 + 1) else TFinal)\<rparr>"])
          (use TLoop assms(2) ex i tok [OF i] in \<open>auto simp: simps\<close>)
    next
      case (TSleep nsecs)
      show ?thesis by (rule one [where y = "?t\<lparr>t_pc := TWait\<rparr>"]) (use TSleep assms(2) ex i in \<open>auto simp: simps\<close>)
    next
      case (TReleased v)
      show ?thesis
        by (rule one [where y = "if v = 0 then ?t\<lparr>t_pc := TLoop, t_j := t_j ?t + 1\<rparr> else ?t\<lparr>t_pc := TSerial\<rparr>"])
          (use TReleased False assms(2) ex i in \<open>auto simp: simps split: if_splits\<close>)
    next
      case TSerial
      show ?thesis by (rule one [where y = "?t\<lparr>t_pc := TLoop, t_j := t_j ?t + 1\<rparr>"]) (use TSerial assms(2) ex i in \<open>auto simp: simps\<close>)
    next
      case TFinal
      show ?thesis by (rule one [where y = "?t\<lparr>t_pc := TEnd\<rparr>"]) (use TFinal assms(2) ex i in \<open>auto simp: simps\<close>)
    qed (use assms(2) ex i in \<open>auto simp: thread_step_def\<close>)
  qed
qed

lemma bar_left_step: "bar_inv args s \<Longrightarrow> step args e s = Some s' \<Longrightarrow> left args s' + 1 \<le> left args s + 0"
  by (cases e) (auto simp: bar_inv_def dest: bleft_main_step bleft_thread_step)

interpretation barsteps: bounded_steps "step args" "bar_inv args" "left args" "\<lambda>e. 0" for args
  by unfold_locales (rule bar_inv_step, assumption+, rule bar_left_step)

section \<open>Property\<close>

fun failing :: "event \<Rightarrow> bool" where
  "failing (Main r) = (r \<noteq> 0)"
| "failing (Thread i r w) = (r \<noteq> 0)"

definition good_args :: "string list \<Rightarrow> bool" where
  "good_args args \<longleftrightarrow> length args = 2 \<and> hd args \<noteq> ''--help'' \<and> 0 < atoi (args ! 1)"

lemma bar_failing_step:
  assumes "bar_inv args s" "step args e s = Some s'" "mainpc s' = MExit 1" "mainpc s \<noteq> MExit 1" "good_args args"
  shows "failing e"
proof -
  from assms(1) obtain g where iv: "threads_ok g s" "main_ok args s" by (auto simp: bar_inv_def bar_at_def)
  show ?thesis
  proof (cases e)
    case (Main r)
    with assms(2-5) iv(2) show ?thesis
      by (cases "mainpc s") (auto simp: main_step_def good_args_def put_def main_ok_def errExitEN_def Let_def split: if_splits)
  next
    case (Thread i r w)
    with assms(2) have i: "i < length (threads s)" by (auto simp: thread_step_def split: if_splits)
    with iv(1) have "thread_ok (numBarriers s) (threads s ! i)" by (simp add: threads_ok_def)
    with Thread assms(2-4) show ?thesis
      by (cases "t_pc (threads s ! i)")
        (auto simp: thread_step_def barrier_wait_def set_thread_def put_def thread_ok_def Let_def split: if_splits)
  qed
qed

lemma printed_in_order:
  assumes "bar_at args g s"
  shows "in_order (nat (atoi (args ! 1))) (printed s)"
proof (cases "printed s = []")
  case False
  with assms have "numThreads s = atoi (args ! 1)" by (auto simp: bar_at_def main_ok_def)
  with assms show ?thesis by (simp add: bar_at_def printed_ok_def)
qed (simp add: in_order_def)

lemma serials_le_1:
  assumes "bar_at args g s"
  shows "serials j (printed s) \<le> 1"
proof -
  have "0 \<le> sum_list (map (to_be_serial j) (threads s))" by (intro sum_list_nonneg) (auto simp: to_be_serial_def)
  with assms show ?thesis by (auto simp: bar_at_def serial_ok_def dest!: spec [of _ j] split: if_splits)
qed

lemma final_lines:
  assumes "bar_at args g s" "mainpc s = MExit 0"
  shows "i < nat (atoi (args ! 1)) \<Longrightarrow> lines_of i (printed s) = laps i (max 0 (atoi (args ! 0))) @ [LTerminating i]"
    and "serials j (printed s) = (if 0 \<le> j \<and> j < atoi (args ! 0) then 1 else 0)"
proof -
  from assms have iv: "threads_ok g s" "printed_ok g s" "serial_ok g s" "main_ok args s" by (simp_all add: bar_at_def)
  from iv(4) assms(2) have m: "numBarriers s = atoi (args ! 0)" "numThreads s = atoi (args ! 1)" "int (length (threads s)) = numThreads s"
    "threads s \<noteq> []" "\<forall>t\<in>set (threads s). t_pc t = TEnd" by (auto simp: main_ok_def)
  have t: "t_pc t = TEnd" "t_j t = max 0 (atoi (args ! 0))" "gone t = g" if "t \<in> set (threads s)" for t
  proof -
    from that iv(1) have "thread_ok (numBarriers s) t" "gone t = g" by (simp_all add: threads_ok_def)
    with that m(1,5) show "t_pc t = TEnd" "t_j t = max 0 (atoi (args ! 0))" "gone t = g" by (simp_all add: thread_ok_def)
  qed
  show "lines_of i (printed s) = laps i (max 0 (atoi (args ! 0))) @ [LTerminating i]" if "i < nat (atoi (args ! 1))"
  proof -
    have i: "i < length (threads s)" using that m(2,3) by simp
    with t(1,2) [OF nth_mem [OF i]] iv(2) show ?thesis by (simp add: printed_ok_def expected_def)
  qed
  from t [OF hd_in_set [OF m(4)]] have g: "g = max 0 (atoi (args ! 0))" by (simp add: gone_def)
  have "sum_list (map (to_be_serial j) (threads s)) = 0"
    using t(1) by (intro sum_list_0_all) (auto simp: to_be_serial_def)
  with iv(3) [unfolded serial_ok_def, THEN spec, of j] show "serials j (printed s) = (if 0 \<le> j \<and> j < atoi (args ! 0) then 1 else 0)"
    by (auto simp: g split: if_splits)
qed

text \<open>
  C20. Under every schedule, and whichever thread the barrier chooses, the demonstration takes a
  bounded number of steps and cannot get stuck; no thread reports that it has passed a barrier before
  all threads have announced that they come to it; and at most one thread per barrier is told
  that it is the one.  It ends with success only after every thread has printed exactly its
  lines, lap by lap, and for each barrier exactly one thread was the one; with failure only
  after a call failed.
\<close>

theorem barrier_demo_correct:
  assumes "good_args args" and "runs (step args) es start = Some s"
  shows "int (length es) \<le> atoi (args ! 1) * (6 * max 0 (atoi (args ! 0)) + 5) + 5 \<and>
    in_order (nat (atoi (args ! 1))) (printed s) \<and> (\<forall>j. serials j (printed s) \<le> 1) \<and>
    (main_step args 0 s \<noteq> None \<or> (\<exists>i w. thread_step i 0 w s \<noteq> None) \<or>
     mainpc s = MExit 0 \<and> (\<forall>i<nat (atoi (args ! 1)). lines_of i (printed s) = laps i (max 0 (atoi (args ! 0))) @ [LTerminating i]) \<and>
       (\<forall>j. serials j (printed s) = (if 0 \<le> j \<and> j < atoi (args ! 0) then 1 else 0)) \<or>
     mainpc s = MExit 1 \<and> (\<exists>e\<in>set es. failing e))"
proof -
  note inv = barsteps.runs_invar [OF assms(2) bar_inv_start]
  then obtain g where g: "bar_at args g s" by (auto simp: bar_inv_def)
  have "0 \<le> left args s" using bar_left_positive [OF g] by (cases "exited s") (auto simp: left_def)
  moreover have "left args start = atoi (args ! 1) * (6 * max 0 (atoi (args ! 0)) + 5) + 5"
    using assms(1) by (simp add: left_def start_def exited_def main_left_def threads_asked_def good_args_def)
  ultimately have "int (length es) \<le> atoi (args ! 1) * (6 * max 0 (atoi (args ! 0)) + 5) + 5"
    using barsteps.runs_length [OF assms(2) bar_inv_start] by simp
  moreover have "mainpc s = MExit 0 \<or> mainpc s = MExit 1" if "exited s"
    using g that by (auto simp: bar_at_def main_ok_def exited_def split: mpc.splits)
  moreover have "\<exists>e\<in>set es. failing e" if "mainpc s = MExit 1"
    by (rule barsteps.runs_enters_invar [OF assms(2) bar_inv_start, of "\<lambda>s. mainpc s = MExit 1"])
      (use that assms(1) bar_failing_step in \<open>auto simp: start_def\<close>)
  ultimately show ?thesis
    using bar_not_stuck [OF g] final_lines [OF g] printed_in_order [OF g] serials_le_1 [OF g] by blast
qed

text \<open>Two threads and one barrier, at which the first to arrive is chosen.\<close>

definition example_schedule :: "event list" where
  "example_schedule = replicate 4 (Main 0) @ replicate 4 (Thread 1 0 7) @ replicate 3 (Thread 0 0 3) @ [Thread 0 0 1] @
     replicate 3 (Thread 0 0 0) @ replicate 4 (Thread 1 0 0) @ replicate 5 (Main 0)"

theorem barrier_demo_correct_witness:
  "\<exists>s. runs (step [''1'', ''2'']) example_schedule start = Some s \<and> mainpc s = MExit 0 \<and> serials 0 (printed s) = 1 \<and>
    lines_of 0 (printed s) = [LStarted 0, LAbout 0 0 0, LPassed 0 0 0, LTerminating 0]"
proof -
  have a: "atoi ''1'' = 1" "atoi ''2'' = 2" by code_simp+
  have g: "good_args [''1'', ''2'']" by (simp add: good_args_def a)
  have "\<exists>s. runs (step [''1'', ''2'']) example_schedule start = Some s \<and> mainpc s = MExit 0"
    by (simp add: example_schedule_def numeral_eq_Suc main_step_def thread_step_def set_thread_def put_def exited_def start_def a Let_def
        barrier_wait_def release_def blocked_def PTHREAD_BARRIER_SERIAL_THREAD_def)
  then obtain s where s: "runs (step [''1'', ''2'']) example_schedule start = Some s" "mainpc s = MExit 0"
    by (elim exE conjE) (rule that)
  have "main_step [''1'', ''2''] 0 s = None" "thread_step i 0 w s = None" for i w
    using s(2) by (simp_all add: main_step_def thread_step_def exited_def)
  with barrier_demo_correct [OF g s(1)] s(2) have "serials 0 (printed s) = 1" "lines_of 0 (printed s) = laps 0 1 @ [LTerminating 0]"
    by (auto simp: a)
  then show ?thesis using s by (auto simp: laps_def)
qed

end
