(* ===== verification/Simple_Init.thy ===== *)
theory Simple_Init
  imports Schedules Getopt
begin

text \<open>
  \<open>src/tlpi-book/namespaces/simple_init.c\<close>: an \<open>init\<close> process for a PID namespace with a small command
  loop.  The main program, its \<open>SIGCHLD\<close> handler and the children up to their \<open>execvp\<close> are
  interleaved steps; the handler interrupts the main program at any point, also between \<open>fork\<close> and
  \<open>pause\<close>.  What children do after \<open>execvp\<close>, namely end, stop and continue, and the adoption of orphans are
  steps of the environment.  A step carries the error number of its system call, 0 for success.
  \<open>wordexp\<close> is a parameter.
\<close>

definition CMD_SIZE :: nat where "CMD_SIZE = 10000"
definition EINVAL :: int where "EINVAL = 22"

section \<open>Commands\<close>

text \<open>What \<open>fgets\<close> takes of the input with room for \<open>n\<close> bytes, and what it leaves.\<close>

fun fgets_chunk :: "nat \<Rightarrow> string \<Rightarrow> string \<times> string" where
  "fgets_chunk 0 s = ([], s)"
| "fgets_chunk (Suc n) [] = ([], [])"
| "fgets_chunk (Suc n) (c # s) = (if c = nl then ([c], s) else apfst ((#) c) (fgets_chunk n s))"

text \<open>The buffer as a C string, without a final newline; \<open>None\<close> when the byte before the buffer is read.\<close>

definition strip_nl :: "string \<Rightarrow> string option" where
  "strip_nl chunk =
     (let c = takeWhile (\<lambda>x. x \<noteq> CHR 0x00) chunk in
      if c = [] then None else Some (if last c = nl then butlast c else c))"

text \<open>\<open>expand_words\<close> returns a null pointer if the expansion fails, leaves the process if there is no memory
  (\<open>r\<close> other than 0), and otherwise copies the words into a vector that a null pointer ends.\<close>

datatype expansion = NullVec | ExitVec | ArgVec "string option list"

definition expand_words :: "(string \<Rightarrow> string list option) \<Rightarrow> int \<Rightarrow> string \<Rightarrow> expansion" where
  "expand_words wordexp r c =
     (case wordexp c of
        None \<Rightarrow> NullVec
      | Some we_wordv \<Rightarrow>
          (let we_wordc = length we_wordv in
           if r \<noteq> 0 then ExitVec
           else
             (let arg_vec = foldl (\<lambda>v s. v[s := Some (we_wordv ! s)]) (replicate (we_wordc + 1) None) [0..<we_wordc]
              in ArgVec (arg_vec[we_wordc := None]))))"

lemma copy_words:
  "n \<le> length ws \<Longrightarrow> foldl (\<lambda>v s. v[s := Some (ws ! s)]) (replicate (length ws + 1) None) [0..<n] =
    map Some (take n ws) @ replicate (length ws + 1 - n) None" for ws :: "string list"
proof (induction n)
  case (Suc n)
  then have "replicate (length ws + 1 - n) None = None # replicate (length ws - n) (None :: string option)"
    by (simp add: Suc_diff_le)
  with Suc show ?case by (simp add: list_update_append take_Suc_conv_app_nth)
qed simp

lemma expand_words_eq:
  "expand_words wordexp 0 c = (case wordexp c of None \<Rightarrow> NullVec | Some ws \<Rightarrow> ArgVec (map Some ws @ [None]))"
proof (cases "wordexp c")
  case (Some ws)
  with copy_words [of "length ws" ws] show ?thesis by (simp add: expand_words_def Let_def list_update_append)
qed (simp add: expand_words_def)

section \<open>State\<close>

datatype cpc = CExpand | CSetpgid | CTcsetpgrp | CExec | CProgram | CStopped | CUndef | CZombie

text \<open>A child of init: \<open>c_news\<close>, a change of state that \<open>waitpid\<close> has not reported.\<close>

record child =
  c_pid :: int
  c_pc :: cpc
  c_cmd :: string
  c_args :: "string option list"
  c_news :: bool

datatype out = OPid | OMaking string | OMounting string | OPrompt | OExiting | ONewline | OCreated int | OTerminated int
  | OUnmounting string | OPerror string

datatype ipc = PSigaction | PSetpgid | PTcsetpgrp | PMountSlave | PMountProc | PPrompt | PGot string | PFork string
  | PCreated int | PPause | PPaused | PTcParent | PUmount | PExit int | PUndef

record ist =
  i_pc :: ipc
  i_verbose :: bool
  i_proc :: "string option"
  i_rest :: string
  i_children :: "child list"
  i_pending :: bool
  i_handler :: bool
  i_started :: "string list"
  i_fg :: int
  i_mounted :: bool
  i_log :: "out list"

datatype event = Main int int | Deliver | Handler int nat | Child nat int | Exits nat | Stops nat | Continues nat | Adopt int

text \<open>The process id of init in its namespace, which is also its process group.\<close>

definition SELF :: int where "SELF = 1"

definition running :: "ist \<Rightarrow> bool" where
  "running s \<longleftrightarrow> (case i_pc s of PExit n \<Rightarrow> False | PUndef \<Rightarrow> False | _ \<Rightarrow> True)"

definition put :: "out list \<Rightarrow> ist \<Rightarrow> ist" where
  "put os s = s\<lparr>i_log := i_log s @ os\<rparr>"

definition put_verbose :: "out list \<Rightarrow> ist \<Rightarrow> ist" where
  "put_verbose os s = (if i_verbose s then put os s else s)"

definition goto :: "ipc \<Rightarrow> ist \<Rightarrow> ist" where
  "goto p s = s\<lparr>i_pc := p\<rparr>"

definition errExit :: "string \<Rightarrow> ist \<Rightarrow> ist" where
  "errExit msg s = goto (PExit 1) (put [OPerror msg] s)"

section \<open>Main program\<close>

text \<open>The options, lines 108 to 115, and the state in which the calls of the program start.\<close>

fun init_options :: "(char \<times> string) list \<Rightarrow> ist \<Rightarrow> ist" where
  "init_options [] s = s"
| "init_options ((c, a) # os) s =
     (if c = CHR ''p'' then init_options os (s\<lparr>i_proc := Some a\<rparr>)
      else if c = CHR ''v'' then init_options os (s\<lparr>i_verbose := True\<rparr>)
      else goto (PExit 1) s)"

definition init_state :: "string list \<Rightarrow> string \<Rightarrow> int \<Rightarrow> ist" where
  "init_state argv stdin fg =
     init_options (fst (getopt ''p:v'' argv))
       \<lparr>i_pc = PSigaction, i_verbose = False, i_proc = None, i_rest = stdin, i_children = [], i_pending = False,
        i_handler = False, i_started = [], i_fg = fg, i_mounted = False, i_log = []\<rparr>"

definition new_child :: "int \<Rightarrow> string \<Rightarrow> cpc \<Rightarrow> child" where
  "new_child p c pc = \<lparr>c_pid = p, c_pc = pc, c_cmd = c, c_args = [], c_news = False\<rparr>"

text \<open>\<open>w\<close> is the process id that \<open>fork\<close> gives to the child, one that no other child has.\<close>

definition main_step :: "int \<Rightarrow> int \<Rightarrow> ist \<Rightarrow> ist option" where
  "main_step r w s =
     (if i_handler s then None
      else
        (case i_pc s of
           PSigaction \<Rightarrow> Some (if r \<noteq> 0 then errExit ''sigaction'' s else goto PSetpgid (put_verbose [OPid] s))
         | PSetpgid \<Rightarrow> Some (if r \<noteq> 0 then errExit ''setpgid'' s else goto PTcsetpgrp s)
         | PTcsetpgrp \<Rightarrow>
             Some (if r \<noteq> 0 then errExit ''tcsetpgrp-child'' s
                   else goto (if i_proc s = None then PPrompt else PMountSlave) (s\<lparr>i_fg := SELF\<rparr>))
         | PMountSlave \<Rightarrow>
             (let path = the (i_proc s);
                  s = put_verbose [OMaking path] s;
                  s = (if r \<noteq> 0 \<and> r \<noteq> EINVAL then put [OPerror ''mount-make-slave-/''] s else s)
              in Some (goto PMountProc (put_verbose [OMounting path] s)))
         | PMountProc \<Rightarrow> Some (if r \<noteq> 0 then errExit ''mount-procfs'' s else goto PPrompt (s\<lparr>i_mounted := True\<rparr>))
         | PPrompt \<Rightarrow>
             (let s = put [OPrompt] s in
              Some (if i_rest s = [] \<or> r \<noteq> 0 then goto PUmount (put [ONewline] (put_verbose [OExiting] s))
                    else (let (chunk, rest) = fgets_chunk (CMD_SIZE - 1) (i_rest s) in goto (PGot chunk) (s\<lparr>i_rest := rest\<rparr>))))
         | PGot chunk \<Rightarrow>
             Some (case strip_nl chunk of
                     None \<Rightarrow> goto PUndef s
                   | Some c \<Rightarrow> if c = [] then goto PPrompt s else goto (PFork c) s)
         | PFork c \<Rightarrow>
             if r \<noteq> 0 then Some (goto PUmount (put [OPerror ''fork''] s))
             else if w \<le> 0 \<or> w \<in> c_pid ` set (i_children s) then None
             else Some (goto (PCreated w)
                    (s\<lparr>i_children := i_children s @ [new_child w c CExpand], i_started := i_started s @ [c]\<rparr>))
         | PCreated p \<Rightarrow> Some (goto PPause (put_verbose [OCreated p] s))
         | PPause \<Rightarrow> Some (goto PPaused s)
         | PPaused \<Rightarrow> None
         | PTcParent \<Rightarrow> Some (if r \<noteq> 0 then errExit ''tcsetpgrp-parent'' s else goto PPrompt (s\<lparr>i_fg := SELF\<rparr>))
         | PUmount \<Rightarrow>
             Some (case i_proc s of
                     None \<Rightarrow> goto (PExit 0) s
                   | Some path \<Rightarrow>
                       (let s = put_verbose [OUnmounting path] s in
                        if r \<noteq> 0 then errExit ''umount-procfs'' s else goto (PExit 0) (s\<lparr>i_mounted := False\<rparr>)))
         | PExit n \<Rightarrow> None
         | PUndef \<Rightarrow> None))"

section \<open>Signal handler\<close>

text \<open>The signal is delivered; \<open>SIGCHLD\<close> is blocked while its handler runs.\<close>

definition deliver :: "ist \<Rightarrow> ist option" where
  "deliver s = (if running s \<and> i_pending s \<and> \<not> i_handler s then Some (s\<lparr>i_pending := False, i_handler := True\<rparr>) else None)"

text \<open>The handler returns, and with it a \<open>pause\<close> that it interrupted.\<close>

definition handler_return :: "ist \<Rightarrow> ist" where
  "handler_return s = s\<lparr>i_handler := False, i_pc := (if i_pc s = PPaused then PTcParent else i_pc s)\<rparr>"

text \<open>\<open>waitpid\<close> has reported child \<open>w\<close>; one that has ended is gone.\<close>

definition reap :: "nat \<Rightarrow> ist \<Rightarrow> ist" where
  "reap w s =
     (let c = i_children s ! w in
      s\<lparr>i_children := (if c_pc c = CZombie then take w (i_children s) @ drop (Suc w) (i_children s)
                       else (i_children s)[w := c\<lparr>c_news := False\<rparr>])\<rparr>)"

text \<open>One round of the loop of \<open>child_handler\<close>.  An error other than \<open>ECHILD\<close> is reported, and the loop goes on
  with a process id of -1.\<close>

definition child_handler :: "int \<Rightarrow> nat \<Rightarrow> ist \<Rightarrow> ist option" where
  "child_handler r w s =
     (if \<not> (running s \<and> i_handler s) then None
      else if r \<noteq> 0 then Some (put_verbose [OTerminated (-1)] (put [OPerror ''waitpid''] s))
      else if i_children s = [] then Some (handler_return s)
      else if \<not> (\<exists>c\<in>set (i_children s). c_news c) then Some (handler_return s)
      else if w < length (i_children s) \<and> c_news (i_children s ! w) then
        Some (put_verbose [OTerminated (c_pid (i_children s ! w))] (reap w s))
      else None)"

section \<open>Children\<close>

definition set_child :: "nat \<Rightarrow> child \<Rightarrow> ist \<Rightarrow> ist" where
  "set_child i c s = s\<lparr>i_children := (i_children s)[i := c]\<rparr>"

definition child_ends :: "nat \<Rightarrow> ist \<Rightarrow> ist" where
  "child_ends i s = (set_child i ((i_children s ! i)\<lparr>c_pc := CZombie, c_news := True\<rparr>) s)\<lparr>i_pending := True\<rparr>"

text \<open>The child before its \<open>execvp\<close>, which does not return if it succeeds.  A command without words makes the
  name of the program the null pointer.\<close>

definition child_step :: "(string \<Rightarrow> string list option) \<Rightarrow> nat \<Rightarrow> int \<Rightarrow> ist \<Rightarrow> ist option" where
  "child_step wordexp i r s =
     (if \<not> running s \<or> length (i_children s) \<le> i then None
      else
        (let c = i_children s ! i in
         case c_pc c of
           CExpand \<Rightarrow>
             (case expand_words wordexp r (c_cmd c) of
                NullVec \<Rightarrow> Some (child_ends i s)
              | ExitVec \<Rightarrow> Some (child_ends i s)
              | ArgVec arg_vec \<Rightarrow> Some (set_child i (c\<lparr>c_pc := CSetpgid, c_args := arg_vec\<rparr>) s))
         | CSetpgid \<Rightarrow> Some (if r \<noteq> 0 then child_ends i s else set_child i (c\<lparr>c_pc := CTcsetpgrp\<rparr>) s)
         | CTcsetpgrp \<Rightarrow>
             Some (if r \<noteq> 0 then child_ends i s else set_child i (c\<lparr>c_pc := CExec\<rparr>) (s\<lparr>i_fg := c_pid c\<rparr>))
         | CExec \<Rightarrow>
             Some (if c_args c ! 0 = None then set_child i (c\<lparr>c_pc := CUndef\<rparr>) s
                   else if r \<noteq> 0 then child_ends i s else set_child i (c\<lparr>c_pc := CProgram\<rparr>) s)
         | _ \<Rightarrow> None))"

text \<open>A child ends, stops or continues.  With \<open>SA_NOCLDSTOP\<close> only its end raises \<open>SIGCHLD\<close>.\<close>

definition child_exits :: "nat \<Rightarrow> ist \<Rightarrow> ist option" where
  "child_exits i s =
     (if running s \<and> i < length (i_children s) \<and> c_pc (i_children s ! i) \<noteq> CZombie then Some (child_ends i s) else None)"

definition child_moves :: "cpc \<Rightarrow> cpc \<Rightarrow> nat \<Rightarrow> ist \<Rightarrow> ist option" where
  "child_moves p q i s =
     (if running s \<and> i < length (i_children s) \<and> c_pc (i_children s ! i) = p
      then Some (set_child i ((i_children s ! i)\<lparr>c_pc := q, c_news := True\<rparr>) s) else None)"

text \<open>An orphan becomes a child of init.  Its last ancestor is a child of init at that time.\<close>

definition adopt :: "int \<Rightarrow> ist \<Rightarrow> ist option" where
  "adopt p s =
     (if running s \<and> i_children s \<noteq> [] \<and> 0 < p \<and> p \<notin> c_pid ` set (i_children s)
      then Some (s\<lparr>i_children := i_children s @ [new_child p [] CProgram]\<rparr>) else None)"

fun step :: "(string \<Rightarrow> string list option) \<Rightarrow> event \<Rightarrow> ist \<Rightarrow> ist option" where
  "step wordexp (Main r w) s = main_step r w s"
| "step wordexp Deliver s = deliver s"
| "step wordexp (Handler r w) s = child_handler r w s"
| "step wordexp (Child i r) s = child_step wordexp i r s"
| "step wordexp (Exits i) s = child_exits i s"
| "step wordexp (Stops i) s = child_moves CProgram CStopped i s"
| "step wordexp (Continues i) s = child_moves CStopped CProgram i s"
| "step wordexp (Adopt p) s = adopt p s"

section \<open>Commands of the input\<close>

lemma fgets_chunk_length: "length (snd (fgets_chunk n s)) + length (fst (fgets_chunk n s)) = length s"
  by (induction n s rule: fgets_chunk.induct) auto

lemma fgets_chunk_nonempty: "s \<noteq> [] \<Longrightarrow> 0 < n \<Longrightarrow> fst (fgets_chunk n s) \<noteq> []"
  by (cases "(n, s)" rule: fgets_chunk.cases) auto

lemma fgets_chunk_set: "set (fst (fgets_chunk n s)) \<union> set (snd (fgets_chunk n s)) = set s"
  by (induction n s rule: fgets_chunk.induct) auto

text \<open>The commands in an input, read with a buffer of \<open>CMD_SIZE\<close> bytes.\<close>

function chunks :: "string \<Rightarrow> string list" where
  "chunks s = (if s = [] then [] else fst (fgets_chunk (CMD_SIZE - 1) s) # chunks (snd (fgets_chunk (CMD_SIZE - 1) s)))"
  by pat_completeness auto
termination
proof (relation "measure length", simp)
  fix s :: string assume "s \<noteq> []"
  then have "fst (fgets_chunk (CMD_SIZE - 1) s) \<noteq> []" by (rule fgets_chunk_nonempty) (simp add: CMD_SIZE_def)
  then have "0 < length (fst (fgets_chunk (CMD_SIZE - 1) s))" by simp
  with fgets_chunk_length [of "CMD_SIZE - 1" s] show "(snd (fgets_chunk (CMD_SIZE - 1) s), s) \<in> measure length"
    unfolding in_measure by linarith
qed

declare chunks.simps [simp del]

definition command_of :: "string \<Rightarrow> string list" where
  "command_of chunk = (case strip_nl chunk of Some c \<Rightarrow> if c = [] then [] else [c] | None \<Rightarrow> [])"

definition commands :: "string \<Rightarrow> string list" where
  "commands s = concat (map command_of (chunks s))"

lemma commands_Nil [simp]: "commands [] = []"
  by (simp add: commands_def chunks.simps)

lemma commands_next:
  "s \<noteq> [] \<Longrightarrow> commands s = command_of (fst (fgets_chunk (CMD_SIZE - 1) s)) @ commands (snd (fgets_chunk (CMD_SIZE - 1) s))"
  by (subst commands_def, subst chunks.simps) (simp add: commands_def)

lemma fgets_chunk_line:
  "nl \<notin> set l \<Longrightarrow> length l < n \<Longrightarrow> fgets_chunk n (l @ nl # s) = (l @ [nl], s)"
proof (induction l arbitrary: n)
  case Nil
  then show ?case by (cases n) auto
next
  case (Cons c l)
  then show ?case by (cases n) auto
qed

text \<open>A line is short enough if it fits the buffer with its newline.\<close>

definition plain_line :: "string \<Rightarrow> bool" where
  "plain_line l \<longleftrightarrow> length l + 1 < CMD_SIZE \<and> nl \<notin> set l \<and> CHR 0x00 \<notin> set l"

lemma strip_nl_line: "plain_line l \<Longrightarrow> strip_nl (l @ [nl]) = Some l"
proof -
  assume "plain_line l"
  then have "takeWhile (\<lambda>x. x \<noteq> CHR 0x00) (l @ [nl]) = l @ [nl]"
    by (intro takeWhile_eq_all_conv [THEN iffD2]) (auto simp: plain_line_def)
  then show ?thesis by (simp add: strip_nl_def)
qed

lemma commands_unlines:
  "\<forall>l\<in>set ls. plain_line l \<Longrightarrow> commands (unlines ls) = filter (\<lambda>l. l \<noteq> []) ls"
proof (induction ls)
  case (Cons l ls)
  have "fgets_chunk (CMD_SIZE - 1) (l @ nl # unlines ls) = (l @ [nl], unlines ls)"
    using Cons.prems by (intro fgets_chunk_line) (auto simp: plain_line_def)
  with Cons strip_nl_line [of l] commands_next [of "l @ nl # unlines ls"] show ?case
    by (simp add: unlines_def command_of_def)
qed (simp add: unlines_def)

section \<open>Invariant\<close>

text \<open>No child that has ended is forgotten: the signal is pending or the handler is at work.\<close>

definition children_ok :: "ist \<Rightarrow> bool" where
  "children_ok s \<longleftrightarrow> (\<forall>c\<in>set (i_children s). c_pc c = CZombie \<longrightarrow> c_news c \<and> (i_pending s \<or> i_handler s))"

text \<open>The commands started so far and those still to come.\<close>

definition upcoming :: "ist \<Rightarrow> string list" where
  "upcoming s = (case i_pc s of PGot chunk \<Rightarrow> command_of chunk | PFork c \<Rightarrow> [c] | _ \<Rightarrow> [])"

definition input_ok :: "string \<Rightarrow> ist \<Rightarrow> bool" where
  "input_ok stdin s \<longleftrightarrow>
     (if i_pc s = PUmount \<or> \<not> running s then \<exists>zs. i_started s @ zs = commands stdin
      else i_started s @ upcoming s @ commands (i_rest s) = commands stdin)"

definition pc_ok :: "ist \<Rightarrow> bool" where
  "pc_ok s \<longleftrightarrow>
     (case i_pc s of
        PGot chunk \<Rightarrow> chunk \<noteq> [] \<and> CHR 0x00 \<notin> set chunk
      | PExit n \<Rightarrow> n \<in> {0, 1} \<and> (n = 0 \<longrightarrow> \<not> i_mounted s)
      | PUndef \<Rightarrow> False
      | _ \<Rightarrow> True) \<and>
     CHR 0x00 \<notin> set (i_rest s) \<and> (i_mounted s \<or> i_pc s \<in> {PMountSlave, PMountProc} \<longrightarrow> i_proc s \<noteq> None) \<and>
     (i_handler s \<longrightarrow> running s)"

definition init_inv :: "string \<Rightarrow> ist \<Rightarrow> bool" where
  "init_inv stdin s \<longleftrightarrow> children_ok s \<and> input_ok stdin s \<and> pc_ok s"

lemmas init_parts = init_inv_def children_ok_def input_ok_def pc_ok_def upcoming_def running_def

text \<open>Output and jumps change nothing else.\<close>

lemma put_fields [simp]:
  "i_verbose (put os s) = i_verbose s"
  "i_proc (put os s) = i_proc s"
  "i_rest (put os s) = i_rest s"
  "i_children (put os s) = i_children s"
  "i_pending (put os s) = i_pending s"
  "i_handler (put os s) = i_handler s"
  "i_started (put os s) = i_started s"
  "i_fg (put os s) = i_fg s"
  "i_mounted (put os s) = i_mounted s"
  "i_pc (put os s) = i_pc s"
  by (simp_all add: put_def put_verbose_def goto_def errExit_def)

lemma put_verbose_fields [simp]:
  "i_verbose (put_verbose os s) = i_verbose s"
  "i_proc (put_verbose os s) = i_proc s"
  "i_rest (put_verbose os s) = i_rest s"
  "i_children (put_verbose os s) = i_children s"
  "i_pending (put_verbose os s) = i_pending s"
  "i_handler (put_verbose os s) = i_handler s"
  "i_started (put_verbose os s) = i_started s"
  "i_fg (put_verbose os s) = i_fg s"
  "i_mounted (put_verbose os s) = i_mounted s"
  "i_pc (put_verbose os s) = i_pc s"
  by (simp_all add: put_def put_verbose_def goto_def errExit_def)

lemma goto_fields [simp]:
  "i_verbose (goto p s) = i_verbose s"
  "i_proc (goto p s) = i_proc s"
  "i_rest (goto p s) = i_rest s"
  "i_children (goto p s) = i_children s"
  "i_pending (goto p s) = i_pending s"
  "i_handler (goto p s) = i_handler s"
  "i_started (goto p s) = i_started s"
  "i_fg (goto p s) = i_fg s"
  "i_mounted (goto p s) = i_mounted s"
  "i_pc (goto p s) = p"
  by (simp_all add: put_def put_verbose_def goto_def errExit_def)

lemma errExit_fields [simp]:
  "i_verbose (errExit msg s) = i_verbose s"
  "i_proc (errExit msg s) = i_proc s"
  "i_rest (errExit msg s) = i_rest s"
  "i_children (errExit msg s) = i_children s"
  "i_pending (errExit msg s) = i_pending s"
  "i_handler (errExit msg s) = i_handler s"
  "i_started (errExit msg s) = i_started s"
  "i_fg (errExit msg s) = i_fg s"
  "i_mounted (errExit msg s) = i_mounted s"
  "i_pc (errExit msg s) = PExit 1"
  by (simp_all add: put_def put_verbose_def goto_def errExit_def)

lemma init_options_fields:
  "(i_pc (init_options os s) = i_pc s \<or> i_pc (init_options os s) = PExit 1) \<and> i_rest (init_options os s) = i_rest s \<and>
   i_children (init_options os s) = i_children s \<and> i_pending (init_options os s) = i_pending s \<and>
   i_handler (init_options os s) = i_handler s \<and> i_started (init_options os s) = i_started s \<and>
   i_mounted (init_options os s) = i_mounted s"
  by (induction os s rule: init_options.induct) (simp_all add: goto_def)

lemma init_inv_start: "CHR 0x00 \<notin> set stdin \<Longrightarrow> init_inv stdin (init_state argv stdin fg)"
  using init_options_fields [of "fst (getopt ''p:v'' argv)"
      "\<lparr>i_pc = PSigaction, i_verbose = False, i_proc = None, i_rest = stdin, i_children = [], i_pending = False,
        i_handler = False, i_started = [], i_fg = fg, i_mounted = False, i_log = []\<rparr>"]
  by (auto simp: init_state_def init_parts)

lemma strip_nl_plain: "chunk \<noteq> [] \<Longrightarrow> CHR 0x00 \<notin> set chunk \<Longrightarrow> strip_nl chunk = Some (if last chunk = nl then butlast chunk else chunk)"
proof -
  assume "chunk \<noteq> []" "CHR 0x00 \<notin> set chunk"
  moreover from this(2) have tw: "takeWhile (\<lambda>x. x \<noteq> CHR 0x00) chunk = chunk" by (intro takeWhile_eq_all_conv [THEN iffD2]) auto
  ultimately show ?thesis unfolding strip_nl_def tw by (simp add: Let_def)
qed

text \<open>The program moves from one plain point to another.\<close>

definition plain_pc :: "ipc \<Rightarrow> bool" where
  "plain_pc p \<longleftrightarrow> (case p of PGot chunk \<Rightarrow> False | PFork c \<Rightarrow> False | PUmount \<Rightarrow> False | PExit n \<Rightarrow> False | PUndef \<Rightarrow> False | _ \<Rightarrow> True)"

lemma init_inv_moves:
  assumes "init_inv stdin s" "plain_pc (i_pc s)" "plain_pc (i_pc t) \<or> i_pc t = PExit 1"
    "i_children t = i_children s" "i_pending t = i_pending s" "i_handler t = i_handler s" "\<not> i_handler s" "i_started t = i_started s"
    "i_rest t = i_rest s" "i_mounted t \<or> i_pc t \<in> {PMountSlave, PMountProc} \<longrightarrow> i_proc t \<noteq> None"
  shows "init_inv stdin t"
  unfolding init_inv_def
proof (intro conjI)
  show "children_ok t" using assms by (simp add: init_inv_def children_ok_def)
  have "i_started s @ commands (i_rest s) = commands stdin"
    using assms(1,2) by (cases "i_pc s") (simp_all add: init_inv_def input_ok_def plain_pc_def upcoming_def running_def)
  then show "input_ok stdin t"
    using assms(3,8,9) by (cases "i_pc t") (auto simp: input_ok_def plain_pc_def upcoming_def running_def)
  show "pc_ok t" using assms by (cases "i_pc t") (simp_all add: init_inv_def pc_ok_def plain_pc_def)
qed

lemma init_inv_main:
  assumes "init_inv stdin s" "main_step r w s = Some s'"
  shows "init_inv stdin s'"
proof -
  from assms have h: "\<not> i_handler s" by (simp add: main_step_def split: if_splits)
  have mp: "i_mounted s \<longrightarrow> i_proc s \<noteq> None" using assms(1) by (simp add: init_inv_def pc_ok_def)
  show ?thesis
  proof (cases "i_pc s")
    case (PGot chunk)
    with assms(1) have c: "chunk \<noteq> []" "CHR 0x00 \<notin> set chunk" by (simp_all add: init_parts)
    obtain l where l: "strip_nl chunk = Some l" using strip_nl_plain [OF c] by blast
    have "s' = (if l = [] then goto PPrompt s else goto (PFork l) s)"
      using PGot assms(2) h l by (simp add: main_step_def)
    with assms(1) PGot l h show ?thesis by (auto simp: init_parts command_of_def)
  next
    case PPrompt
    show ?thesis
    proof (cases "i_rest s = [] \<or> r \<noteq> 0")
      case True
      with PPrompt assms(2) h have "s' = goto PUmount (put [ONewline] (put_verbose [OExiting] (put [OPrompt] s)))"
        by (simp add: main_step_def Let_def)
      with assms(1) PPrompt show ?thesis by (simp add: init_parts) blast
    next
      case False
      obtain chunk rest where f: "fgets_chunk (CMD_SIZE - 1) (i_rest s) = (chunk, rest)" by fastforce
      have s': "s' = goto (PGot chunk) ((put [OPrompt] s)\<lparr>i_rest := rest\<rparr>)"
        using False PPrompt assms(2) h f by (simp add: main_step_def Let_def)
      have "chunk \<noteq> []" using fgets_chunk_nonempty [of "i_rest s" "CMD_SIZE - 1"] False f by (simp add: CMD_SIZE_def)
      moreover have "set chunk \<union> set rest = set (i_rest s)" using fgets_chunk_set [of "CMD_SIZE - 1" "i_rest s"] f by simp
      moreover have "commands (i_rest s) = command_of chunk @ commands rest" using commands_next [of "i_rest s"] False f by simp
      ultimately show ?thesis using assms(1) PPrompt by (auto simp: s' init_parts)
    qed
  next
    case (PFork c)
    show ?thesis
    proof (cases "r = 0")
      case True
      with PFork assms(2) h have "s' = goto (PCreated w) (s\<lparr>i_children := i_children s @ [new_child w c CExpand], i_started := i_started s @ [c]\<rparr>)"
        by (simp add: main_step_def split: if_splits)
      with assms(1) PFork show ?thesis by (simp add: init_parts new_child_def)
    next
      case False
      with PFork assms(2) h have "s' = goto PUmount (put [OPerror ''fork''] s)" by (simp add: main_step_def)
      with assms(1) PFork show ?thesis by (simp add: init_parts) blast
    qed
  next
    case PUmount
    have "s' = goto (PExit 0) s \<and> i_proc s = None \<or> (\<exists>os. s' = goto (PExit 0) ((put_verbose os s)\<lparr>i_mounted := False\<rparr>) \<or> s' = errExit ''umount-procfs'' (put_verbose os s))"
      using PUmount assms(2) h by (cases "i_proc s") (auto simp: main_step_def Let_def)
    with assms(1) PUmount h show ?thesis by (auto simp: init_parts)
  next
    case PMountSlave
    then have "s' = goto PMountProc (put_verbose [OMounting (the (i_proc s))]
        (if r \<noteq> 0 \<and> r \<noteq> EINVAL then put [OPerror ''mount-make-slave-/''] (put_verbose [OMaking (the (i_proc s))] s)
         else put_verbose [OMaking (the (i_proc s))] s))"
      using assms(2) h by (simp add: main_step_def Let_def)
    with assms(1) PMountSlave h show ?thesis
      by (intro init_inv_moves [of stdin s s']) (auto simp: plain_pc_def init_inv_def pc_ok_def)
  next
    case PMountProc
    then have s': "s' = (if r \<noteq> 0 then errExit ''mount-procfs'' s else goto PPrompt (s\<lparr>i_mounted := True\<rparr>))"
      using assms(2) h by (simp add: main_step_def)
    with assms(1) PMountProc h show ?thesis
      by (intro init_inv_moves [of stdin s s']) (auto simp: plain_pc_def init_inv_def pc_ok_def)
  qed ((rule init_inv_moves [OF assms(1)]; use assms(2) h mp in \<open>auto simp: main_step_def plain_pc_def split: if_splits\<close>)+)
qed

text \<open>A child changes; the program stays where it is, or leaves \<open>pause\<close>.\<close>

lemma init_inv_children:
  assumes "init_inv stdin s" "i_started t = i_started s" "i_rest t = i_rest s" "i_mounted t = i_mounted s" "i_proc t = i_proc s"
    "i_pc t = i_pc s \<or> i_pc s = PPaused \<and> i_pc t = PTcParent" "i_handler t \<longrightarrow> running s"
    "children_ok t"
  shows "init_inv stdin t"
  using assms by (cases "i_pc s") (auto simp: init_inv_def input_ok_def pc_ok_def upcoming_def running_def)

lemma children_ok_update:
  assumes "children_ok s" "i_children t = (i_children s)[i := c]" "c_pc c = CZombie \<longrightarrow> c_news c \<and> (i_pending t \<or> i_handler t)"
    "i_pending s \<or> i_handler s \<longrightarrow> i_pending t \<or> i_handler t"
  shows "children_ok t"
  using assms set_update_subset_insert [of "i_children s" i c] by (fastforce simp: children_ok_def)

lemma child_ends_fields [simp]:
  "i_started (child_ends i s) = i_started s" "i_rest (child_ends i s) = i_rest s" "i_mounted (child_ends i s) = i_mounted s"
  "i_proc (child_ends i s) = i_proc s" "i_pc (child_ends i s) = i_pc s" "i_handler (child_ends i s) = i_handler s"
  "i_pending (child_ends i s)"
  by (simp_all add: child_ends_def set_child_def)

lemma init_inv_child_ends:
  assumes "init_inv stdin s" "running s"
  shows "init_inv stdin (child_ends i s)"
proof (rule init_inv_children [OF assms(1)])
  show "children_ok (child_ends i s)"
    by (rule children_ok_update [of s _ i "(i_children s ! i)\<lparr>c_pc := CZombie, c_news := True\<rparr>"])
      (use assms in \<open>simp_all add: init_inv_def child_ends_def set_child_def\<close>)
qed (use assms(2) in simp_all)

lemma init_inv_set_child:
  assumes "init_inv stdin s" "running s" "c_pc c \<noteq> CZombie"
  shows "init_inv stdin (set_child i c (s\<lparr>i_fg := z\<rparr>))"
proof (rule init_inv_children [OF assms(1)])
  show "children_ok (set_child i c (s\<lparr>i_fg := z\<rparr>))"
    by (rule children_ok_update [of s _ i c]) (use assms in \<open>simp_all add: init_inv_def set_child_def\<close>)
qed (use assms(2) in \<open>simp_all add: set_child_def\<close>)

lemma child_stepE:
  assumes "child_step wordexp i r s = Some s'"
  obtains (ends) "s' = child_ends i s" "running s" "i < length (i_children s)" "c_pc (i_children s ! i) \<in> {CExpand, CSetpgid, CTcsetpgrp, CExec}"
  | (moves) c z where "s' = set_child i c (s\<lparr>i_fg := z\<rparr>)" "running s" "i < length (i_children s)" "c_news c = c_news (i_children s ! i)"
      "(c_pc (i_children s ! i), c_pc c) \<in> {(CExpand, CSetpgid), (CSetpgid, CTcsetpgrp), (CTcsetpgrp, CExec), (CExec, CUndef), (CExec, CProgram)}"
proof -
  let ?c = "i_children s ! i"
  from assms have r: "running s" "i < length (i_children s)" by (auto simp: child_step_def split: if_splits)
  have "s' = child_ends i s \<and> c_pc ?c \<in> {CExpand, CSetpgid, CTcsetpgrp, CExec} \<or> (\<exists>c z. s' = set_child i c (s\<lparr>i_fg := z\<rparr>) \<and> c_news c = c_news ?c \<and>
      (c_pc ?c, c_pc c) \<in> {(CExpand, CSetpgid), (CSetpgid, CTcsetpgrp), (CTcsetpgrp, CExec), (CExec, CUndef), (CExec, CProgram)})"
  proof (cases "c_pc ?c")
    case CExpand
    with assms r show ?thesis
      by (auto simp: child_step_def Let_def split: expansion.splits intro!: exI [of _ "?c\<lparr>c_pc := CSetpgid, c_args := _\<rparr>"] exI [of _ "i_fg s"])
  next
    case CSetpgid
    with assms r have "s' = child_ends i s \<or> s' = set_child i (?c\<lparr>c_pc := CTcsetpgrp\<rparr>) (s\<lparr>i_fg := i_fg s\<rparr>)"
      by (auto simp: child_step_def Let_def split: if_splits)
    with CSetpgid show ?thesis by fastforce
  next
    case CTcsetpgrp
    with assms r have "s' = child_ends i s \<or> s' = set_child i (?c\<lparr>c_pc := CExec\<rparr>) (s\<lparr>i_fg := c_pid ?c\<rparr>)"
      by (auto simp: child_step_def Let_def split: if_splits)
    with CTcsetpgrp show ?thesis by fastforce
  next
    case CExec
    with assms r have "s' = child_ends i s \<or> s' = set_child i (?c\<lparr>c_pc := CUndef\<rparr>) (s\<lparr>i_fg := i_fg s\<rparr>) \<or>
        s' = set_child i (?c\<lparr>c_pc := CProgram\<rparr>) (s\<lparr>i_fg := i_fg s\<rparr>)"
      by (auto simp: child_step_def Let_def split: if_splits)
    with CExec show ?thesis by fastforce
  qed (use assms r in \<open>simp_all add: child_step_def\<close>)
  with r show ?thesis using that by blast
qed

lemma reap_fields [simp]:
  "i_started (reap w s) = i_started s" "i_rest (reap w s) = i_rest s" "i_mounted (reap w s) = i_mounted s"
  "i_proc (reap w s) = i_proc s" "i_pc (reap w s) = i_pc s" "i_handler (reap w s) = i_handler s" "i_pending (reap w s) = i_pending s"
  by (simp_all add: reap_def Let_def)

lemma child_handlerE:
  assumes "child_handler r w s = Some s'"
  obtains (failed) "s' = put_verbose [OTerminated (-1)] (put [OPerror ''waitpid''] s)" "running s" "i_handler s" "r \<noteq> 0"
  | (return) "s' = handler_return s" "running s" "i_handler s" "\<forall>c\<in>set (i_children s). \<not> c_news c"
  | (reaped) os where "s' = put_verbose os (reap w s)" "running s" "i_handler s" "w < length (i_children s)" "c_news (i_children s ! w)"
proof -
  from assms have r: "running s" "i_handler s" by (auto simp: child_handler_def split: if_splits)
  consider "r \<noteq> 0" | "r = 0" "\<forall>c\<in>set (i_children s). \<not> c_news c" | "r = 0" "\<exists>c\<in>set (i_children s). c_news c" by blast
  then show ?thesis
  proof cases
    case 1
    with assms r failed show ?thesis by (simp add: child_handler_def)
  next
    case 2
    with assms r return show ?thesis by (auto simp: child_handler_def split: if_splits)
  next
    case 3
    then have "i_children s \<noteq> []" by auto
    with 3 assms r have "s' = put_verbose [OTerminated (c_pid (i_children s ! w))] (reap w s)" "w < length (i_children s)" "c_news (i_children s ! w)"
      by (auto simp: child_handler_def split: if_splits)
    with r reaped show ?thesis by blast
  qed
qed

lemma init_inv_handler:
  assumes "init_inv stdin s" "child_handler r w s = Some s'"
  shows "init_inv stdin s'"
proof (cases rule: child_handlerE [OF assms(2), case_names failed return reaped])
  case failed
  then show ?thesis
    using assms(1) by (intro init_inv_children [OF assms(1)]) (simp_all add: init_inv_def children_ok_def)
next
  case return
  with assms(1) show ?thesis
    by (intro init_inv_children [OF assms(1)]) (auto simp: handler_return_def init_inv_def children_ok_def)
next
  case (reaped os)
  have "set (i_children (reap w s)) \<subseteq> set (i_children s) \<union> {c. c_pc c \<noteq> CZombie}"
    using set_update_subset_insert [of "i_children s" w "(i_children s ! w)\<lparr>c_news := False\<rparr>"]
    by (auto simp: reap_def Let_def dest: in_set_takeD in_set_dropD)
  with reaped assms(1) show ?thesis
    by (intro init_inv_children [OF assms(1)]) (auto simp: init_inv_def children_ok_def)
qed

lemma init_inv_step:
  assumes "init_inv stdin s" "step wordexp e s = Some s'"
  shows "init_inv stdin s'"
proof (cases e)
  case (Main r w)
  with init_inv_main [OF assms(1)] assms(2) show ?thesis by simp
next
  case Deliver
  with assms show ?thesis
    by (intro init_inv_children [OF assms(1)]) (auto simp: deliver_def init_inv_def children_ok_def split: if_splits)
next
  case (Handler r w)
  with init_inv_handler [OF assms(1)] assms(2) show ?thesis by simp
next
  case (Child i r)
  with assms(2) have "child_step wordexp i r s = Some s'" by simp
  then show ?thesis
    by (cases rule: child_stepE) (auto intro: init_inv_child_ends init_inv_set_child assms(1))
next
  case (Exits i)
  with assms show ?thesis by (auto simp: child_exits_def intro: init_inv_child_ends split: if_splits)
next
  case (Stops i)
  with assms init_inv_set_child [OF assms(1), where z = "i_fg s"] show ?thesis by (auto simp: child_moves_def split: if_splits)
next
  case (Continues i)
  with assms init_inv_set_child [OF assms(1), where z = "i_fg s"] show ?thesis by (auto simp: child_moves_def split: if_splits)
next
  case (Adopt p)
  with assms show ?thesis
    by (intro init_inv_children [OF assms(1)]) (auto simp: adopt_def init_inv_def children_ok_def new_child_def split: if_splits)
qed

section \<open>Progress\<close>

text \<open>Steps of init itself that are not failures.\<close>

definition can_go :: "ist \<Rightarrow> bool" where
  "can_go s \<longleftrightarrow> (\<exists>w. main_step 0 w s \<noteq> None) \<or> deliver s \<noteq> None \<or> (\<exists>w. child_handler 0 w s \<noteq> None)"

lemma fresh_pid: "\<exists>w>0. w \<notin> c_pid ` set cs"
proof -
  let ?w = "Max (insert 0 (c_pid ` set cs)) + 1"
  have le: "x \<le> Max (insert 0 (c_pid ` set cs))" if "x \<in> insert 0 (c_pid ` set cs)" for x using that by (intro Max_ge) simp_all
  have "0 < ?w" using le [of 0] by simp
  moreover have "?w \<notin> c_pid ` set cs"
  proof
    assume "?w \<in> c_pid ` set cs"
    from le [OF insertI2 [OF this]] show False by simp
  qed
  ultimately show ?thesis by blast
qed

lemma main_can_go:
  assumes "running s" "\<not> i_handler s" "i_pc s \<noteq> PPaused"
  shows "\<exists>w. main_step 0 w s \<noteq> None"
proof (cases "i_pc s")
  case (PFork c)
  obtain w where "0 < w" "w \<notin> c_pid ` set (i_children s)" using fresh_pid by blast
  with PFork assms(2) have "main_step 0 w s \<noteq> None" by (simp add: main_step_def)
  then show ?thesis ..
qed (use assms in \<open>simp_all add: main_step_def running_def Let_def\<close>)

lemma init_not_stuck:
  assumes "running s"
  shows "can_go s \<or> i_pc s = PPaused \<and> \<not> i_pending s \<and> \<not> i_handler s"
proof (cases "i_handler s")
  case True
  have "\<exists>w. child_handler 0 w s \<noteq> None"
  proof (cases "\<exists>c\<in>set (i_children s). c_news c")
    case news: True
    then obtain w where "w < length (i_children s)" "c_news (i_children s ! w)" by (auto simp: in_set_conv_nth)
    with True assms news have "child_handler 0 w s \<noteq> None" by (auto simp: child_handler_def)
    then show ?thesis ..
  qed (use True assms in \<open>auto simp: child_handler_def\<close>)
  then show ?thesis by (simp add: can_go_def)
next
  case False
  with assms main_can_go [OF assms False] show ?thesis by (auto simp: can_go_def deliver_def)
qed

text \<open>How many steps are left to init and to its children before their programs.\<close>

definition child_left :: "child \<Rightarrow> int" where
  "child_left c = (if c_news c then 1 else 0) +
     (case c_pc c of CExpand \<Rightarrow> 8 | CSetpgid \<Rightarrow> 7 | CTcsetpgrp \<Rightarrow> 6 | CExec \<Rightarrow> 5 | _ \<Rightarrow> 0)"

definition main_left :: "ipc \<Rightarrow> int" where
  "main_left p =
     (case p of
        PSigaction \<Rightarrow> 7 | PSetpgid \<Rightarrow> 6 | PTcsetpgrp \<Rightarrow> 5 | PMountSlave \<Rightarrow> 4 | PMountProc \<Rightarrow> 3 | PPrompt \<Rightarrow> 2
      | PGot chunk \<Rightarrow> 16 | PFork c \<Rightarrow> 15 | PCreated n \<Rightarrow> 6 | PPause \<Rightarrow> 5 | PPaused \<Rightarrow> 4 | PTcParent \<Rightarrow> 3 | PUmount \<Rightarrow> 1
      | PExit n \<Rightarrow> 0 | PUndef \<Rightarrow> 0)"

definition children_left :: "ist \<Rightarrow> int" where
  "children_left s = sum_list (map child_left (i_children s)) + (if i_pending s then 2 else 0) + (if i_handler s then 1 else 0)"

definition left :: "ist \<Rightarrow> int" where
  "left s = (if running s then main_left (i_pc s) + 16 * int (length (i_rest s)) + children_left s else 0)"

text \<open>What the environment adds: children that change their state, orphans, and errors of \<open>waitpid\<close>.\<close>

fun env_cost :: "event \<Rightarrow> int" where
  "env_cost (Exits i) = 4"
| "env_cost (Stops i) = 2"
| "env_cost (Continues i) = 2"
| "env_cost (Adopt p) = 1"
| "env_cost (Handler r w) = (if r \<noteq> 0 then 1 else 0)"
| "env_cost _ = 0"

lemma child_left_nonneg: "0 \<le> child_left c"
  by (simp add: child_left_def split: cpc.split)

lemma children_left_nonneg: "0 \<le> children_left s"
  by (auto simp: children_left_def intro!: add_nonneg_nonneg sum_list_nonneg child_left_nonneg)

lemma init_left_positive: "running s \<Longrightarrow> 0 < left s"
  using children_left_nonneg [of s] by (cases "i_pc s") (simp_all add: left_def main_left_def running_def)

lemma children_left_same: "i_children t = i_children s \<Longrightarrow> i_pending t = i_pending s \<Longrightarrow> i_handler t = i_handler s \<Longrightarrow> children_left t = children_left s"
  by (simp add: children_left_def)

lemma left_init_step:
  assumes "init_inv stdin s" "main_step r w s = Some s'"
  shows "left s' < left s"
proof -
  have run: "running s" and h: "\<not> i_handler s" using assms(2) by (auto simp: main_step_def running_def split: if_splits ipc.splits)
  show ?thesis
  proof (cases "running s'")
    case False
    with init_left_positive [OF run] show ?thesis by (simp add: left_def)
  next
    case True
    have same: "left s' < left s" if "main_left (i_pc s') < main_left (i_pc s)" "i_children s' = i_children s" "i_pending s' = i_pending s"
        "i_handler s' = i_handler s" "i_rest s' = i_rest s"
      using that run True children_left_same [OF that(2-4)] by (simp add: left_def)
    show ?thesis
    proof (cases "i_pc s")
      case PPrompt
      show ?thesis
      proof (cases "i_rest s = [] \<or> r \<noteq> 0")
        case True
        with PPrompt assms(2) h have "s' = goto PUmount (put [ONewline] (put_verbose [OExiting] (put [OPrompt] s)))"
          by (simp add: main_step_def Let_def)
        with PPrompt show ?thesis by (intro same) (simp_all add: main_left_def)
      next
        case no: False
        obtain chunk rest where f: "fgets_chunk (CMD_SIZE - 1) (i_rest s) = (chunk, rest)" by fastforce
        have s': "s' = goto (PGot chunk) ((put [OPrompt] s)\<lparr>i_rest := rest\<rparr>)"
          using no PPrompt assms(2) h f by (simp add: main_step_def Let_def)
        have "chunk \<noteq> []" using fgets_chunk_nonempty [of "i_rest s" "CMD_SIZE - 1"] no f by (simp add: CMD_SIZE_def)
        then have "length rest < length (i_rest s)"
          using fgets_chunk_length [of "CMD_SIZE - 1" "i_rest s"] f by (cases chunk) auto
        moreover have "children_left s' = children_left s" by (simp add: s' children_left_def)
        ultimately show ?thesis using PPrompt run True by (simp add: left_def main_left_def s')
      qed
    next
      case (PFork c)
      show ?thesis
      proof (cases "r = 0")
        case yes: True
        with PFork assms(2) h have "s' = goto (PCreated w) (s\<lparr>i_children := i_children s @ [new_child w c CExpand], i_started := i_started s @ [c]\<rparr>)"
          by (simp add: main_step_def split: if_splits)
        with PFork run True show ?thesis by (simp add: left_def main_left_def children_left_def child_left_def new_child_def)
      next
        case False
        with PFork assms(2) h show ?thesis by (intro same) (auto simp: main_step_def main_left_def)
      qed
    next
      case (PGot chunk)
      with assms(1) have c: "chunk \<noteq> []" "CHR 0x00 \<notin> set chunk" by (simp_all add: init_inv_def pc_ok_def)
      obtain l where "strip_nl chunk = Some l" using strip_nl_plain [OF c] by blast
      with PGot assms(2) h have "s' = goto PPrompt s \<or> s' = goto (PFork l) s" by (auto simp: main_step_def split: if_splits)
      with PGot show ?thesis by (intro same) (auto simp: main_left_def)
    next
      case PUmount
      with assms(2) h True show ?thesis
        by (cases "i_proc s") (auto simp: main_step_def running_def Let_def split: if_splits)
    qed (rule same; use assms(2) h True in \<open>auto simp: main_step_def main_left_def running_def Let_def split: if_splits\<close>)+
  qed
qed

lemma child_ends_left:
  assumes "i < length (i_children s)" "c_pc (i_children s ! i) \<noteq> CZombie"
  shows "children_left (child_ends i s) \<le> children_left s + 3 - (case c_pc (i_children s ! i) of CExpand \<Rightarrow> 8 | CSetpgid \<Rightarrow> 7 | CTcsetpgrp \<Rightarrow> 6 | CExec \<Rightarrow> 5 | _ \<Rightarrow> 0)"
  using assms by (simp add: children_left_def child_ends_def set_child_def sum_list_update_int child_left_def)

lemma set_child_left:
  "i < length (i_children s) \<Longrightarrow> children_left (set_child i c (s\<lparr>i_fg := z\<rparr>)) = children_left s - child_left (i_children s ! i) + child_left c"
  by (simp add: children_left_def set_child_def sum_list_update_int)

lemma left_children:
  "i_pc t = i_pc s \<Longrightarrow> i_rest t = i_rest s \<Longrightarrow> children_left t \<le> children_left s + n \<Longrightarrow> 0 \<le> n \<or> running s \<Longrightarrow> running s \<Longrightarrow> left t \<le> left s + n"
  by (simp add: left_def running_def)

lemma reap_left:
  assumes "w < length (i_children s)" "c_news (i_children s ! w)"
  shows "children_left (reap w s) + 1 \<le> children_left s"
proof (cases "c_pc (i_children s ! w) = CZombie")
  case True
  have "sum_list (map child_left (i_children s)) =
      sum_list (map child_left (take w (i_children s) @ i_children s ! w # drop (Suc w) (i_children s)))"
    using assms(1) by (simp add: id_take_nth_drop [symmetric])
  with True assms(2) show ?thesis by (simp add: reap_def children_left_def child_left_def Let_def)
next
  case False
  with assms show ?thesis by (simp add: reap_def children_left_def sum_list_update_int child_left_def Let_def)
qed

lemma init_left_step:
  assumes "init_inv stdin s" "step wordexp e s = Some s'"
  shows "left s' + 1 \<le> left s + env_cost e"
proof (cases e)
  case (Main r w)
  with left_init_step [OF assms(1)] assms(2) show ?thesis by force
next
  case Deliver
  with assms(2) show ?thesis by (auto simp: deliver_def left_def children_left_def running_def split: if_splits)
next
  case (Handler r w)
  with assms(2) have "child_handler r w s = Some s'" by simp
  then show ?thesis
  proof (cases rule: child_handlerE)
    case failed
    then have "children_left s' = children_left s" by (simp add: children_left_def)
    with failed Handler show ?thesis by (simp add: left_def running_def)
  next
    case return
    then have "children_left s' + 1 = children_left s" by (simp add: children_left_def handler_return_def)
    moreover have "main_left (i_pc s') \<le> main_left (i_pc s)" "running s'" "i_rest s' = i_rest s"
      using return by (simp_all add: handler_return_def main_left_def running_def)
    ultimately show ?thesis using return Handler by (simp add: left_def)
  next
    case (reaped os)
    then have "children_left s' = children_left (reap w s)" by (simp add: children_left_def)
    with reap_left [OF reaped(4,5)] left_children [of s' s "-1"] reaped Handler show ?thesis by simp
  qed
next
  case (Child i r)
  with assms(2) have "child_step wordexp i r s = Some s'" by simp
  then show ?thesis
  proof (cases rule: child_stepE)
    case ends
    with child_ends_left [of i s] have "children_left s' \<le> children_left s + -1" by auto
    with left_children [of s' s "-1"] ends Child show ?thesis by simp
  next
    case (moves c z)
    then have "child_left c + 1 \<le> child_left (i_children s ! i)" by (auto simp: child_left_def)
    with set_child_left [OF moves(3), of c z] moves(1) have "children_left s' \<le> children_left s + -1" by simp
    with left_children [of s' s "-1"] moves(1,2) Child show ?thesis by (simp add: set_child_def)
  qed
next
  case (Exits i)
  then have e: "running s" "i < length (i_children s)" "c_pc (i_children s ! i) \<noteq> CZombie" "s' = child_ends i s"
    using assms(2) by (auto simp: child_exits_def split: if_splits)
  with child_ends_left [OF e(2,3)] have "children_left s' \<le> children_left s + 3" by (auto split: cpc.splits)
  with left_children [of s' s 3] e Exits show ?thesis by simp
next
  case (Stops i)
  then have e: "running s" "i < length (i_children s)" "c_pc (i_children s ! i) = CProgram"
      "s' = set_child i ((i_children s ! i)\<lparr>c_pc := CStopped, c_news := True\<rparr>) (s\<lparr>i_fg := i_fg s\<rparr>)"
    using assms(2) by (auto simp: child_moves_def split: if_splits)
  have "children_left s' \<le> children_left s + 1" using set_child_left [OF e(2), where z = "i_fg s"] e(3,4) by (simp add: child_left_def)
  with left_children [of s' s 1] e(1,4) Stops show ?thesis by (simp add: set_child_def)
next
  case (Continues i)
  then have e: "running s" "i < length (i_children s)" "c_pc (i_children s ! i) = CStopped"
      "s' = set_child i ((i_children s ! i)\<lparr>c_pc := CProgram, c_news := True\<rparr>) (s\<lparr>i_fg := i_fg s\<rparr>)"
    using assms(2) by (auto simp: child_moves_def split: if_splits)
  have "children_left s' \<le> children_left s + 1" using set_child_left [OF e(2), where z = "i_fg s"] e(3,4) by (simp add: child_left_def)
  with left_children [of s' s 1] e(1,4) Continues show ?thesis by (simp add: set_child_def)
next
  case (Adopt p)
  with assms(2) show ?thesis
    by (auto simp: adopt_def left_def children_left_def child_left_def new_child_def running_def split: if_splits)
qed

interpretation initsteps: bounded_steps "step wordexp" "init_inv stdin" left env_cost for wordexp stdin
  by unfold_locales (rule init_inv_step, assumption+, rule init_left_step)

section \<open>Property\<close>

definition failing :: "event \<Rightarrow> bool" where
  "failing e \<longleftrightarrow> (case e of Main r w \<Rightarrow> r \<noteq> 0 | _ \<Rightarrow> False)"

definition good_options :: "string list \<Rightarrow> bool" where
  "good_options argv \<longleftrightarrow> (\<forall>(c, a)\<in>set (fst (getopt ''p:v'' argv)). c = CHR ''p'' \<or> c = CHR ''v'')"

lemma init_options_pc: "\<forall>(c, a)\<in>set os. c = CHR ''p'' \<or> c = CHR ''v'' \<Longrightarrow> i_pc (init_options os s) = i_pc s"
  by (induction os s rule: init_options.induct) auto

lemma init_state_pc: "good_options argv \<Longrightarrow> i_pc (init_state argv stdin fg) = PSigaction"
  by (simp add: init_state_def good_options_def init_options_pc)

lemma pc_of_other_steps:
  assumes "step wordexp e s = Some s'" "\<And>r w. e \<noteq> Main r w"
  shows "i_pc s' = i_pc s \<or> i_pc s' = PTcParent" "i_started s' = i_started s"
proof -
  have "(i_pc s' = i_pc s \<or> i_pc s' = PTcParent) \<and> i_started s' = i_started s"
  proof (cases e)
    case (Handler r w)
    with assms(1) have "child_handler r w s = Some s'" by simp
    then show ?thesis by (cases rule: child_handlerE) (simp_all add: handler_return_def)
  next
    case (Child i r)
    with assms(1) have "child_step wordexp i r s = Some s'" by simp
    then show ?thesis by (cases rule: child_stepE) (simp_all add: set_child_def)
  qed (use assms in \<open>auto simp: deliver_def child_exits_def child_moves_def adopt_def set_child_def split: if_splits\<close>)
  then show "i_pc s' = i_pc s \<or> i_pc s' = PTcParent" "i_started s' = i_started s" by blast+
qed

lemma exit_1_failing:
  assumes "step wordexp e s = Some s'" "i_pc s' = PExit 1" "i_pc s \<noteq> PExit 1"
  shows "failing e"
proof (cases "\<exists>r w. e = Main r w")
  case True
  then obtain r w where "e = Main r w" by blast
  with assms show ?thesis
    by (cases "i_pc s") (auto simp: main_step_def failing_def Let_def split: if_splits option.splits prod.splits)
qed (use pc_of_other_steps [OF assms(1)] assms in auto)

definition cut_short :: "string \<Rightarrow> ist \<Rightarrow> bool" where
  "cut_short stdin s \<longleftrightarrow> (i_pc s = PUmount \<or> i_pc s = PExit 0) \<and> i_started s \<noteq> commands stdin"

lemma cut_short_failing:
  assumes "init_inv stdin s" "step wordexp e s = Some s'" "cut_short stdin s'" "\<not> cut_short stdin s"
  shows "failing e"
proof (cases "\<exists>r w. e = Main r w")
  case True
  then obtain r w where e: "e = Main r w" by blast
  with assms(2) have st: "main_step r w s = Some s'" by simp
  then have h: "\<not> i_handler s" by (simp add: main_step_def split: if_splits)
  show ?thesis
  proof (cases "i_pc s")
    case PPrompt
    show ?thesis
    proof (cases "r = 0")
      case True
      with PPrompt st h assms(3) have "i_rest s = []" "i_started s' = i_started s"
        by (auto simp: main_step_def cut_short_def Let_def split: if_splits prod.splits)
      moreover from this(1) PPrompt assms(1) have "i_started s = commands stdin"
        by (simp add: init_inv_def input_ok_def upcoming_def running_def)
      ultimately show ?thesis using assms(3) by (simp add: cut_short_def)
    qed (simp add: e failing_def)
  next
    case PUmount
    with st h have "i_started s' = i_started s"
      by (cases "i_proc s") (auto simp: main_step_def Let_def split: if_splits)
    with assms(3,4) PUmount show ?thesis by (simp add: cut_short_def)
  qed (use st h assms(3) in \<open>auto simp: e main_step_def cut_short_def failing_def Let_def split: if_splits option.splits\<close>)
next
  case False
  with pc_of_other_steps [OF assms(2)] assms(3,4) show ?thesis by (auto simp: cut_short_def)
qed

lemma prefix_started: "init_inv stdin s \<Longrightarrow> \<exists>zs. i_started s @ zs = commands stdin"
  by (cases "i_pc s = PUmount \<or> \<not> running s") (auto simp: init_inv_def input_ok_def)

text \<open>
  C17. For an input of lines that fit the buffer, under every schedule of the program, its handler and
  its children, whenever signals arrive: init takes a number of steps that is bounded by its
  input and by the changes of its children; a child that has ended is never forgotten, because the signal
  is pending or the handler is reaping; the commands started are the lines of the input that
  are not empty, in order; and init can go on unless it waits in \<open>pause\<close> with nothing left to
  reap, or has ended.  It ends with success only when the procfs is unmounted again and, unless a
  call failed, all commands have been started, and with failure only after a call failed.
\<close>

theorem simple_init_correct:
  assumes "good_options argv" and "\<forall>l\<in>set ls. plain_line l"
    and "runs (step wordexp) es (init_state argv (unlines ls) fg) = Some s"
  shows "int (length es) \<le> 7 + 16 * int (length (unlines ls)) + sum_list (map env_cost es) \<and>
    ((\<exists>c\<in>set (i_children s). c_pc c = CZombie) \<longrightarrow> i_pending s \<or> i_handler s) \<and>
    (\<exists>zs. i_started s @ zs = filter (\<lambda>l. l \<noteq> []) ls) \<and>
    (can_go s \<or>
     i_pc s = PPaused \<and> (\<forall>c\<in>set (i_children s). c_pc c \<noteq> CZombie) \<or>
     i_pc s = PExit 0 \<and> \<not> i_mounted s \<and> (i_started s = filter (\<lambda>l. l \<noteq> []) ls \<or> (\<exists>e\<in>set es. failing e)) \<or>
     i_pc s = PExit 1 \<and> (\<exists>e\<in>set es. failing e))"
proof -
  let ?start = "init_state argv (unlines ls) fg"
  have "CHR 0x00 \<notin> set (unlines ls)" using assms(2) by (auto simp: unlines_def plain_line_def)
  note inv0 = init_inv_start [OF this, of argv fg]
  note inv = initsteps.runs_invar [OF assms(3) inv0] and cmds = commands_unlines [OF assms(2)]
  have pc0: "i_pc ?start = PSigaction" by (rule init_state_pc [OF assms(1)])
  have "i_rest ?start = unlines ls" "i_children ?start = []" "\<not> i_pending ?start" "\<not> i_handler ?start"
    by (simp_all add: init_state_def init_options_fields)
  with pc0 have "left ?start = 7 + 16 * int (length (unlines ls))"
    by (simp add: left_def running_def main_left_def children_left_def)
  moreover have "0 \<le> left s" using init_left_positive [of s] by (cases "running s") (simp_all add: left_def)
  ultimately have "int (length es) \<le> 7 + 16 * int (length (unlines ls)) + sum_list (map env_cost es)"
    using initsteps.runs_length [OF assms(3) inv0] by simp
  moreover have z: "\<forall>c\<in>set (i_children s). c_pc c = CZombie \<longrightarrow> i_pending s \<or> i_handler s"
    using inv by (auto simp: init_inv_def children_ok_def)
  moreover have "\<exists>e\<in>set es. failing e" if "i_pc s = PExit 1"
    by (rule initsteps.runs_enters_invar [OF assms(3) inv0, of "\<lambda>s. i_pc s = PExit 1"]) (use that pc0 exit_1_failing in auto)
  moreover have "\<exists>e\<in>set es. failing e" if "cut_short (unlines ls) s"
    by (rule initsteps.runs_enters_invar [OF assms(3) inv0, of "cut_short (unlines ls)"])
      (use that pc0 cut_short_failing in \<open>auto simp: cut_short_def\<close>)
  moreover have "i_pc s = PExit 0 \<and> \<not> i_mounted s \<or> i_pc s = PExit 1" if "\<not> running s"
    using inv that by (auto simp: init_inv_def pc_ok_def running_def split: ipc.splits)
  ultimately show ?thesis
    using init_not_stuck [of s] prefix_started [OF inv] unfolding cut_short_def cmds by blast
qed

text \<open>One command, whose program ends while init is in \<open>pause\<close>.\<close>

definition example_schedule :: "event list" where
  "example_schedule = replicate 5 (Main 0 0) @ [Main 0 2] @ replicate 4 (Child 0 0) @ replicate 2 (Main 0 0) @ [Exits 0, Deliver] @
     replicate 2 (Handler 0 0) @ replicate 3 (Main 0 0)"

lemma example_input: "plain_line ''ls''" "fgets_chunk (CMD_SIZE - 1) (unlines [''ls'']) = (''ls'' @ [nl], [])"
proof -
  show p: "plain_line ''ls''" by (simp add: plain_line_def CMD_SIZE_def)
  have "unlines [''ls''] = ''ls'' @ nl # []" by (simp add: unlines_def)
  then show "fgets_chunk (CMD_SIZE - 1) (unlines [''ls'']) = (''ls'' @ [nl], [])"
    using fgets_chunk_line [of "''ls''" "CMD_SIZE - 1" "[]"] by (simp add: CMD_SIZE_def)
qed

lemmas example_simps = numeral_eq_Suc main_step_def init_state_def getopt_def goto_def put_def put_verbose_def running_def
  new_child_def deliver_def child_handler_def handler_return_def reap_def child_step_def expand_words_eq child_exits_def
  child_ends_def set_child_def

theorem simple_init_correct_witness:
  "\<exists>s. runs (step (\<lambda>c. Some [c])) example_schedule (init_state [''init''] (unlines [''ls'']) 0) = Some s \<and> i_pc s = PExit 0 \<and>
    i_started s = [''ls''] \<and> i_children s = []"
proof -
  have g: "good_options [''init'']" by (simp add: good_options_def getopt_def)
  have l: "\<forall>l\<in>set [''ls'']. plain_line l" by (simp add: example_input)
  have st: "strip_nl (''ls'' @ [nl]) = Some ''ls''" by (rule strip_nl_line) (rule example_input)
  have ne: "unlines [''ls''] \<noteq> []" by (simp add: unlines_def)
  have "\<exists>s. runs (step (\<lambda>c. Some [c])) example_schedule (init_state [''init''] (unlines [''ls'']) 0) = Some s \<and> i_pc s = PExit 0 \<and> i_children s = []"
    using st ne example_input(2) by (simp add: example_schedule_def example_simps Let_def)
  then obtain s where s: "runs (step (\<lambda>c. Some [c])) example_schedule (init_state [''init''] (unlines [''ls'']) 0) = Some s" "i_pc s = PExit 0"
    "i_children s = []" by (elim exE conjE) (rule that)
  have "\<not> can_go s" using s(2) by (simp add: can_go_def main_step_def deliver_def child_handler_def running_def)
  moreover have "\<not> (\<exists>e\<in>set example_schedule. failing e)" by (simp add: example_schedule_def failing_def)
  ultimately have "i_started s = filter (\<lambda>l. l \<noteq> []) [''ls'']" using simple_init_correct [OF g l s(1)] s(2) by auto
  then show ?thesis using s by auto
qed

text \<open>If the child ends before init has called \<open>pause\<close>, no signal is left to interrupt it: nothing can
  happen any more, and the rest of the input is never read.\<close>

definition lost_schedule :: "event list" where
  "lost_schedule = replicate 5 (Main 0 0) @ [Main 0 2] @ replicate 4 (Child 0 0) @ [Exits 0, Deliver] @ replicate 2 (Handler 0 0) @
     replicate 2 (Main 0 0)"

lemma paused_alone:
  assumes "i_pc s = PPaused" "\<not> i_pending s" "\<not> i_handler s" "i_children s = []"
  shows "step wordexp e s = None"
  using assms by (cases e) (simp_all add: main_step_def deliver_def child_handler_def child_step_def child_exits_def child_moves_def adopt_def)

lemma lost_signal:
  "\<exists>s. runs (step (\<lambda>c. Some [c])) lost_schedule (init_state [''init''] (unlines [''ls'']) 0) = Some s \<and> i_pc s = PPaused \<and>
    (\<forall>e. step (\<lambda>c. Some [c]) e s = None)"
proof -
  have st: "strip_nl (''ls'' @ [nl]) = Some ''ls''" by (rule strip_nl_line) (rule example_input)
  have ne: "unlines [''ls''] \<noteq> []" by (simp add: unlines_def)
  have "\<exists>s. runs (step (\<lambda>c. Some [c])) lost_schedule (init_state [''init''] (unlines [''ls'']) 0) = Some s \<and> i_pc s = PPaused \<and>
      \<not> i_pending s \<and> \<not> i_handler s \<and> i_children s = []"
    using st ne example_input(2) by (simp add: lost_schedule_def example_simps Let_def)
  with paused_alone show ?thesis by blast
qed

end
