(* ===== verification/Datagrams.thy ===== *)
theory Datagrams
  imports Unix_Sockets Daemon "HOL-Library.Sublist"
begin

text \<open>
  Services over datagrams: upper case over UNIX domain sockets (\<open>sockets/ud_ucase_sv.c\<close>, \<open>ud_ucase_cl.c\<close>) and
  over IPv6 (\<open>sockets/i6d_ucase_sv.c\<close>, \<open>i6d_ucase_cl.c\<close>), and echo over UDP (\<open>sockets/id_echo_sv.c\<close>,
  \<open>id_echo_cl.c\<close>).  The calls are the record \<open>dgk\<close>; endless servers are given as their state after any
  number of rounds.  The locale \<open>dg_queue\<close> is what a server relies on, \<open>dg_peer\<close> what a client relies on, with
  the service at the other end as a parameter.
\<close>

section \<open>Calls\<close>

text \<open>An address is the bytes of its structure.  \<open>g_recvfrom\<close> gives the bytes stored and the address of the
  sender, \<open>g_sendto\<close> and \<open>g_write\<close> the number returned; \<open>g_ntop\<close> and \<open>g_pton\<close> convert the 16 bytes of an IPv6
  address, and \<open>g_nameinfo\<close> is \<open>getnameinfo\<close>.\<close>

record 's dgk =
  g_net :: "'s unixk"
  g_dk :: "'s dk"
  g_remove :: "string \<Rightarrow> 's \<Rightarrow> int option \<times> 's"
  g_recvfrom :: "int \<Rightarrow> nat \<Rightarrow> 's \<Rightarrow> (string \<times> string) option \<times> 's"
  g_sendto :: "int \<Rightarrow> string \<Rightarrow> string \<Rightarrow> 's \<Rightarrow> int \<times> 's"
  g_read :: "int \<Rightarrow> nat \<Rightarrow> 's \<Rightarrow> string option \<times> 's"
  g_write :: "int \<Rightarrow> string \<Rightarrow> 's \<Rightarrow> int \<times> 's"
  g_print :: "string \<Rightarrow> 's \<Rightarrow> 's"
  g_syslog :: "string \<Rightarrow> 's \<Rightarrow> 's"
  g_getpid :: int
  g_ntop :: "string \<Rightarrow> string option"
  g_pton :: "string \<Rightarrow> string option"
  g_nameinfo :: "string \<Rightarrow> (string \<times> string) option"

text \<open>Calls whose failure ends the program with status 1.\<close>

definition fd_or_fail :: "int \<times> 's \<Rightarrow> (int, 's) outcome" where
  "fd_or_fail r = (case r of (fd, s) \<Rightarrow> if fd = -1 then Exited 1 s else Ret fd s)"

definition ok_or_fail :: "bool \<times> 's \<Rightarrow> (unit, 's) outcome" where
  "ok_or_fail r = (case r of (ok, s) \<Rightarrow> if ok then Ret () s else Exited 1 s)"

fun dg_rounds :: "('c \<Rightarrow> 's \<Rightarrow> ('c, 's) outcome) \<Rightarrow> nat \<Rightarrow> 'c \<Rightarrow> 's \<Rightarrow> ('c, 's) outcome" where
  "dg_rounds rnd 0 c s = Ret c s"
| "dg_rounds rnd (Suc n) c s = andThen (rnd c s) (\<lambda>c s. dg_rounds rnd n c s)"

section \<open>Upper case\<close>

definition BUF_SIZE :: nat where "BUF_SIZE = 10"
definition SV_SOCK_PATH :: string where "SV_SOCK_PATH = ''/tmp/ud_ucase''"
definition PORT_NUM :: nat where "PORT_NUM = 50002"
definition AF_INET6 :: int where "AF_INET6 = 10"
definition ENOENT :: int where "ENOENT = 2"

definition toupper :: "char \<Rightarrow> char" where
  "toupper c = (let n = (of_char c :: nat) in if 97 \<le> n \<and> n \<le> 122 then char_of (n - 32) else c)"

text \<open>The loop over the bytes received.\<close>

function upper_loop :: "nat \<Rightarrow> string \<Rightarrow> string" where
  "upper_loop j buf = (if j < length buf then upper_loop (Suc j) (buf[j := toupper (buf ! j)]) else buf)"
  by pat_completeness auto
termination by (relation "measure (\<lambda>(j, buf). length buf - j)") auto

declare upper_loop.simps [simp del]

text \<open>One round of the loop.  \<open>claddr\<close> is the structure for the address of the client, of which \<open>recvfrom\<close>
  overwrites as much as there is; \<open>say\<close> gives the message about it.\<close>

definition ucase_round :: "'s dgk \<Rightarrow> (nat \<Rightarrow> string \<Rightarrow> string) \<Rightarrow> int \<Rightarrow> string \<Rightarrow> 's \<Rightarrow> (string, 's) outcome" where
  "ucase_round K say sfd claddr s =
     (case g_recvfrom K sfd BUF_SIZE s of
        (None, s) \<Rightarrow> Exited 1 s
      | (Some (buf, sender), s) \<Rightarrow>
          (let claddr = sender @ drop (length sender) claddr;
               s = g_print K (say (length buf) claddr) s;
               buf = upper_loop 0 buf
           in case g_sendto K sfd buf (take (length sender) claddr) s of
                (n, s) \<Rightarrow> if n \<noteq> int (length buf) then Exited 1 s else Ret claddr s))"

definition ud_text :: "nat \<Rightarrow> string \<Rightarrow> string" where
  "ud_text n claddr = ''Server received '' @ show_nat n @ '' bytes from '' @ before (drop 2 claddr) (CHR 0x00) @ [nl]"

definition ud_sv_addr :: sockaddr_un where
  "ud_sv_addr =
     (let a = \<lparr>sun_family = 0, sun_path = replicate SUN_PATH_SIZE (CHR 0x00)\<rparr>; a = a\<lparr>sun_family := AF_UNIX\<rparr>
      in a\<lparr>sun_path := strncpy (sun_path a) SV_SOCK_PATH (SUN_PATH_SIZE - 1)\<rparr>)"

definition ud_ucase_sv_main :: "'s dgk \<Rightarrow> nat \<Rightarrow> string \<Rightarrow> 's \<Rightarrow> (string, 's) outcome" where
  "ud_ucase_sv_main K n junk s =
     andThen (fd_or_fail (k_socket (g_net K) AF_UNIX SOCK_DGRAM 0 s)) (\<lambda>sfd s.
     andThen (case g_remove K SV_SOCK_PATH s of (e, s) \<Rightarrow> ok_or_fail (e = None \<or> e = Some ENOENT, s)) (\<lambda>_ s.
     andThen (ok_or_fail (k_bind (g_net K) sfd (sockaddr_bytes ud_sv_addr) sizeof_sockaddr_un s)) (\<lambda>_ s.
     dg_rounds (ucase_round K ud_text sfd) n junk s)))"

text \<open>\<open>struct sockaddr_in6\<close>: family, port and flow label, address and scope; 28 bytes.\<close>

definition in6_address :: "string \<Rightarrow> nat \<Rightarrow> string" where
  "in6_address addr port =
     [char_of (nat AF_INET6), CHR 0x00, char_of (port div 256), char_of (port mod 256)] @ replicate 4 (CHR 0x00) @ addr @
     replicate 4 (CHR 0x00)"

definition i6d_text :: "'s dgk \<Rightarrow> nat \<Rightarrow> string \<Rightarrow> string" where
  "i6d_text K n claddr =
     (case g_ntop K (take 16 (drop 8 claddr)) of
        None \<Rightarrow> ''Couldn't convert client address to string'' @ [nl]
      | Some claddrStr \<Rightarrow>
          ''Server received '' @ show_nat n @ '' bytes from ('' @ claddrStr @ '', '' @
          show_nat (of_char (claddr ! 2) * 256 + of_char (claddr ! 3)) @ '')'' @ [nl])"

definition i6d_ucase_sv_main :: "'s dgk \<Rightarrow> nat \<Rightarrow> string \<Rightarrow> 's \<Rightarrow> (string, 's) outcome" where
  "i6d_ucase_sv_main K n junk s =
     andThen (fd_or_fail (k_socket (g_net K) AF_INET6 SOCK_DGRAM 0 s)) (\<lambda>sfd s.
     andThen (ok_or_fail (k_bind (g_net K) sfd (in6_address (replicate 16 (CHR 0x00)) PORT_NUM) 28 s)) (\<lambda>_ s.
     dg_rounds (ucase_round K (i6d_text K) sfd) n junk s))"

text \<open>The clients send one message after the other and show each answer.\<close>

fun ucase_cl_loop :: "'s dgk \<Rightarrow> int \<Rightarrow> string \<Rightarrow> nat \<Rightarrow> string list \<Rightarrow> 's \<Rightarrow> (unit, 's) outcome" where
  "ucase_cl_loop K sfd svaddr j [] s = Ret () s"
| "ucase_cl_loop K sfd svaddr j (msg # msgs) s =
     (case g_sendto K sfd msg svaddr s of (n, s) \<Rightarrow>
        if n \<noteq> int (length msg) then Exited 1 s
        else
          (case g_recvfrom K sfd BUF_SIZE s of
             (None, s) \<Rightarrow> Exited 1 s
           | (Some (resp, _), s) \<Rightarrow>
               ucase_cl_loop K sfd svaddr (Suc j) msgs
                 (g_print K (''Response '' @ show_nat j @ '': '' @ before resp (CHR 0x00) @ [nl]) s)))"

definition ud_cl_path :: "int \<Rightarrow> string" where
  "ud_cl_path getpid = snprintf SUN_PATH_SIZE (''/tmp/ud_ucase_cl.'' @ show_int getpid)"

definition ud_cl_addr :: "int \<Rightarrow> sockaddr_un" where
  "ud_cl_addr getpid =
     (let a = \<lparr>sun_family = 0, sun_path = replicate SUN_PATH_SIZE (CHR 0x00)\<rparr>; a = a\<lparr>sun_family := AF_UNIX\<rparr>; p = ud_cl_path getpid @ [CHR 0x00]
      in a\<lparr>sun_path := p @ drop (length p) (sun_path a)\<rparr>)"

definition ud_ucase_cl_main :: "'s dgk \<Rightarrow> string list \<Rightarrow> 's \<Rightarrow> (unit, 's) outcome" where
  "ud_ucase_cl_main K args s =
     (if args = [] \<or> hd args = ''--help'' then Exited 1 s
      else
        andThen (fd_or_fail (k_socket (g_net K) AF_UNIX SOCK_DGRAM 0 s)) (\<lambda>sfd s.
        andThen (ok_or_fail (k_bind (g_net K) sfd (sockaddr_bytes (ud_cl_addr (g_getpid K))) sizeof_sockaddr_un s)) (\<lambda>_ s.
        andThen (ucase_cl_loop K sfd (sockaddr_bytes ud_sv_addr) 1 args s) (\<lambda>_ s.
        Exited 0 (snd (g_remove K (ud_cl_path (g_getpid K)) s))))))"

definition i6d_ucase_cl_main :: "'s dgk \<Rightarrow> string list \<Rightarrow> 's \<Rightarrow> (unit, 's) outcome" where
  "i6d_ucase_cl_main K args s =
     (if length args < 2 \<or> hd args = ''--help'' then Exited 1 s
      else
        andThen (fd_or_fail (k_socket (g_net K) AF_INET6 SOCK_DGRAM 0 s)) (\<lambda>sfd s.
        case g_pton K (hd args) of
          None \<Rightarrow> Exited 1 s
        | Some addr \<Rightarrow>
            andThen (ucase_cl_loop K sfd (in6_address addr PORT_NUM) 1 (tl args) s) (\<lambda>_ s. Exited 0 s)))"

section \<open>Echo\<close>

definition SERVICE :: string where "SERVICE = ''echo''"
definition ECHO_BUF_SIZE :: nat where "ECHO_BUF_SIZE = 500"
definition IS_ADDR_STR_LEN :: nat where "IS_ADDR_STR_LEN = 4096"

definition echo_dg_round :: "'s dgk \<Rightarrow> int \<Rightarrow> unit \<Rightarrow> 's \<Rightarrow> (unit, 's) outcome" where
  "echo_dg_round K sfd _ s =
     (case g_recvfrom K sfd ECHO_BUF_SIZE s of
        (None, s) \<Rightarrow> Exited 1 s
      | (Some (buf, claddr), s) \<Rightarrow>
          (case g_sendto K sfd buf claddr s of
             (n, s) \<Rightarrow>
               Ret () (if n \<noteq> int (length buf)
                       then g_syslog K (''Error echoing response to '' @ inetAddressStr (g_nameinfo K) claddr IS_ADDR_STR_LEN) s else s)))"

definition id_echo_sv_main :: "'s dgk \<Rightarrow> nat \<Rightarrow> 's \<Rightarrow> (unit, 's) outcome" where
  "id_echo_sv_main K n s =
     andThen (becomeDaemon (g_dk K) 0 s) (\<lambda>r s.
     if r = -1 then Exited 1 s
     else
       andThen (case inetBind (g_net K) SERVICE SOCK_DGRAM False s of
                  ((sfd, _), s) \<Rightarrow> if sfd = -1 then Exited 1 (g_syslog K ''Could not create server socket'' s) else Ret sfd s) (\<lambda>sfd s.
       dg_rounds (echo_dg_round K sfd) n () s))"

fun echo_cl_loop :: "'s dgk \<Rightarrow> int \<Rightarrow> string list \<Rightarrow> 's \<Rightarrow> (unit, 's) outcome" where
  "echo_cl_loop K sfd [] s = Ret () s"
| "echo_cl_loop K sfd (msg # msgs) s =
     (case g_write K sfd msg s of (n, s) \<Rightarrow>
        if n \<noteq> int (length msg) then Exited 1 s
        else
          (case g_read K sfd ECHO_BUF_SIZE s of
             (None, s) \<Rightarrow> Exited 1 s
           | (Some buf, s) \<Rightarrow>
               echo_cl_loop K sfd msgs
                 (g_print K (''['' @ show_nat (length buf) @ '' bytes] '' @ before buf (CHR 0x00) @ [nl]) s)))"

definition id_echo_cl_main :: "'s dgk \<Rightarrow> string list \<Rightarrow> 's \<Rightarrow> (unit, 's) outcome" where
  "id_echo_cl_main K args s =
     (if args = [] \<or> hd args = ''--help'' then Exited 1 s
      else
        andThen (fd_or_fail (inetConnect (g_net K) (Some (hd args)) SERVICE SOCK_DGRAM s)) (\<lambda>sfd s.
        andThen (echo_cl_loop K sfd (tl args) s) (\<lambda>_ s. Exited 0 s)))"

section \<open>Servers\<close>

text \<open>What the services answer to a message.\<close>

definition ucase_answer :: "string \<Rightarrow> string" where
  "ucase_answer m = map toupper (take BUF_SIZE m)"

definition echo_answer :: "string \<Rightarrow> string" where
  "echo_answer m = take ECHO_BUF_SIZE m"

lemma upper_loop_from: "j \<le> length buf \<Longrightarrow> upper_loop j buf = take j buf @ map toupper (drop j buf)"
proof (induction j buf rule: upper_loop.induct)
  case (1 j buf)
  show ?case
  proof (cases "j < length buf")
    case True
    then have "take (Suc j) (buf[j := toupper (buf ! j)]) = take j buf @ [toupper (buf ! j)]"
      by (simp add: take_Suc_conv_app_nth)
    with True 1 show ?thesis by (simp add: upper_loop.simps [of j buf] Cons_nth_drop_Suc [symmetric])
  qed (use 1 in \<open>simp add: upper_loop.simps\<close>)
qed

lemma upper_loop_map [simp]: "upper_loop 0 buf = map toupper buf"
  by (simp add: upper_loop_from)

lemma toupper_null [simp]: "toupper c = CHR 0x00 \<longleftrightarrow> c = CHR 0x00"
proof (cases "97 \<le> (of_char c :: nat) \<and> (of_char c :: nat) \<le> 122")
  case True
  then have m: "(of_char c - 32 :: nat) mod 256 = of_char c - 32" "0 < (of_char c - 32 :: nat)" by (auto intro: mod_less)
  have "toupper c \<noteq> CHR 0x00"
  proof
    assume "toupper c = CHR 0x00"
    with True have "char_of (of_char c - 32 :: nat) = CHR 0x00" by (simp add: toupper_def)
    then have "(of_char (char_of (of_char c - 32 :: nat)) :: nat) = of_char (CHR 0x00)" by (rule arg_cong)
    with m show False by simp
  qed
  with True show ?thesis by auto
qed (auto simp: toupper_def Let_def)

lemma ucase_answer_null: "CHR 0x00 \<notin> set m \<Longrightarrow> CHR 0x00 \<notin> set (ucase_answer m)"
proof
  assume m: "CHR 0x00 \<notin> set m" "CHR 0x00 \<in> set (ucase_answer m)"
  from m(2) obtain x where x: "x \<in> set (take BUF_SIZE m)" "CHR 0x00 = toupper x" by (auto simp: ucase_answer_def)
  from x(2) [symmetric] have "x = CHR 0x00" by (simp only: toupper_null)
  with x(1) m(1) show False by (auto dest: in_set_takeD)
qed

text \<open>The upper case server has answered \<open>n\<close> datagrams, each to its sender and in their order; or it has ended
  because a call failed, at most one datagram being left without an answer.\<close>

definition ucase_served ::
    "('s \<Rightarrow> (string \<times> string) list) \<Rightarrow> ('s \<Rightarrow> (string \<times> string) list) \<Rightarrow> nat \<Rightarrow> 's \<Rightarrow> ('c, 's) outcome \<Rightarrow> bool" where
  "ucase_served arrived sent n s r \<longleftrightarrow>
     (case r of
        Ret _ s' \<Rightarrow> \<exists>ds. length ds = n \<and> arrived s = ds @ arrived s' \<and> sent s' = sent s @ map (map_prod ucase_answer id) ds
      | Exited st s' \<Rightarrow> st = 1 \<and> (\<exists>ds rest. length ds < n \<and> arrived s = ds @ rest \<and> (arrived s' = rest \<or> arrived s' = tl rest) \<and>
          sent s' = sent s @ map (map_prod ucase_answer id) ds)
      | _ \<Rightarrow> False)"

text \<open>The echo server goes on when an answer cannot be sent, and ends only when it cannot receive.\<close>

definition echo_served ::
    "('s \<Rightarrow> (string \<times> string) list) \<Rightarrow> ('s \<Rightarrow> (string \<times> string) list) \<Rightarrow> nat \<Rightarrow> 's \<Rightarrow> ('c, 's) outcome \<Rightarrow> bool" where
  "echo_served arrived sent n s r \<longleftrightarrow>
     (case r of
        Ret _ s' \<Rightarrow> \<exists>ds as. length ds = n \<and> arrived s = ds @ arrived s' \<and> sent s' = sent s @ as \<and>
          subseq as (map (map_prod echo_answer id) ds)
      | Exited st s' \<Rightarrow> st = 1 \<and> (\<exists>ds as. length ds < n \<and> arrived s = ds @ arrived s' \<and> sent s' = sent s @ as \<and>
          subseq as (map (map_prod echo_answer id) ds))
      | _ \<Rightarrow> False)"

locale dg_queue =
  fixes K :: "'s dgk" and sfd :: int and arrived :: "'s \<Rightarrow> (string \<times> string) list" and sent :: "'s \<Rightarrow> (string \<times> string) list"
  assumes receives: "g_recvfrom K sfd n s = (r, s') \<Longrightarrow> sent s' = sent s \<and>
      (case r of
         None \<Rightarrow> arrived s' = arrived s
       | Some (buf, a) \<Rightarrow> \<exists>m. arrived s = (m, a) # arrived s' \<and> buf = take n m)"
    and sends: "g_sendto K sfd buf to s = (k, s') \<Longrightarrow> arrived s' = arrived s \<and>
      sent s' = (if k = int (length buf) then sent s @ [(buf, to)] else sent s)"
    and prints: "arrived (g_print K t s) = arrived s" "sent (g_print K t s) = sent s"
    and logs: "arrived (g_syslog K t s) = arrived s" "sent (g_syslog K t s) = sent s"
begin

lemma ucase_round_cases:
  obtains (stopped) s' where "ucase_round K say sfd c s = Exited 1 s'" "sent s' = sent s" "arrived s' = arrived s \<or> arrived s' = tl (arrived s)"
  | (answered) c' s' d where "ucase_round K say sfd c s = Ret c' s'" "arrived s = d # arrived s'" "sent s' = sent s @ [map_prod ucase_answer id d]"
proof -
  obtain r s1 where r: "g_recvfrom K sfd BUF_SIZE s = (r, s1)" by force
  note law = receives [OF r]
  show ?thesis
  proof (cases r)
    case None
    with law r stopped [of s1] show ?thesis by (simp add: ucase_round_def)
  next
    case (Some bf)
    obtain buf a where bf: "bf = (buf, a)" by force
    with law Some obtain m where m: "sent s1 = sent s" "arrived s = (m, a) # arrived s1" "buf = take BUF_SIZE m" by auto
    let ?c = "a @ drop (length a) c"
    obtain k s2 where k: "g_sendto K sfd (map toupper buf) a (g_print K (say (length buf) ?c) s1) = (k, s2)" by force
    note law2 = sends [OF k, unfolded prints]
    show ?thesis
    proof (cases "k = int (length buf)")
      case True
      with law2 m have "sent s2 = sent s @ [map_prod ucase_answer id (m, a)]" "arrived s = (m, a) # arrived s2"
        by (simp_all add: ucase_answer_def)
      moreover have "ucase_round K say sfd c s = Ret ?c s2" using True r Some bf k by (simp add: ucase_round_def Let_def)
      ultimately show ?thesis using answered by blast
    next
      case False
      with law2 m have "sent s2 = sent s" "arrived s2 = tl (arrived s)" by simp_all
      moreover have "ucase_round K say sfd c s = Exited 1 s2" using False r Some bf k by (simp add: ucase_round_def Let_def)
      ultimately show ?thesis using stopped by blast
    qed
  qed
qed

lemma ucase_rounds_serve: "ucase_served arrived sent n s (dg_rounds (ucase_round K say sfd) n c s)"
proof (induction n arbitrary: c s)
  case (Suc n)
  show ?case
  proof (cases rule: ucase_round_cases [of say c s, case_names stopped answered])
    case (stopped s')
    then have "\<exists>ds rest. length ds < Suc n \<and> arrived s = ds @ rest \<and> (arrived s' = rest \<or> arrived s' = tl rest) \<and>
        sent s' = sent s @ map (map_prod ucase_answer id) ds"
      by (intro exI [of _ "[]"] exI [of _ "arrived s"]) simp
    with stopped(1) show ?thesis by (simp add: ucase_served_def)
  next
    case (answered c' s' d)
    note IH = Suc.IH [of s' c']
    let ?f = "map_prod ucase_answer id"
    have "ucase_served arrived sent (Suc n) s (dg_rounds (ucase_round K say sfd) n c' s')"
    proof (cases "dg_rounds (ucase_round K say sfd) n c' s'")
      case (Ret u t)
      with IH obtain ds where "length ds = n" "arrived s' = ds @ arrived t" "sent t = sent s' @ map ?f ds"
        by (auto simp: ucase_served_def)
      with answered(2,3) have "length (d # ds) = Suc n \<and> arrived s = (d # ds) @ arrived t \<and> sent t = sent s @ map ?f (d # ds)" by simp
      then have "\<exists>ds. length ds = Suc n \<and> arrived s = ds @ arrived t \<and> sent t = sent s @ map ?f ds" by (rule exI)
      with Ret show ?thesis by (simp only: ucase_served_def outcome.case)
    next
      case (Exited st t)
      with IH obtain ds rest where e: "st = 1" "length ds < n" "arrived s' = ds @ rest" "arrived t = rest \<or> arrived t = tl rest"
          "sent t = sent s' @ map ?f ds"
        by (auto simp: ucase_served_def)
      with answered(2,3) have "length (d # ds) < Suc n \<and> arrived s = (d # ds) @ rest \<and> (arrived t = rest \<or> arrived t = tl rest) \<and>
          sent t = sent s @ map ?f (d # ds)" by simp
      with Exited e(1) show ?thesis by (simp only: ucase_served_def outcome.case) blast
    qed (use IH in \<open>simp_all add: ucase_served_def\<close>)
    with answered(1) show ?thesis by simp
  qed
qed (simp add: ucase_served_def)

lemma echo_round_cases:
  obtains (stopped) s' where "echo_dg_round K sfd () s = Exited 1 s'" "sent s' = sent s" "arrived s' = arrived s"
  | (handled) s' d as where "echo_dg_round K sfd () s = Ret () s'" "arrived s = d # arrived s'" "sent s' = sent s @ as"
      "as = [] \<or> as = [map_prod echo_answer id d]"
proof -
  obtain r s1 where r: "g_recvfrom K sfd ECHO_BUF_SIZE s = (r, s1)" by force
  note law = receives [OF r]
  show ?thesis
  proof (cases r)
    case None
    with law r stopped [of s1] show ?thesis by (simp add: echo_dg_round_def)
  next
    case (Some bf)
    obtain buf a where bf: "bf = (buf, a)" by force
    with law Some obtain m where m: "sent s1 = sent s" "arrived s = (m, a) # arrived s1" "buf = take ECHO_BUF_SIZE m" by auto
    obtain k s2 where k: "g_sendto K sfd buf a s1 = (k, s2)" by force
    let ?s = "if k \<noteq> int (length buf) then g_syslog K (''Error echoing response to '' @ inetAddressStr (g_nameinfo K) a IS_ADDR_STR_LEN) s2 else s2"
    have "echo_dg_round K sfd () s = Ret () ?s" using r Some bf k by (simp add: echo_dg_round_def)
    moreover have "arrived s = (m, a) # arrived ?s" using m sends [OF k] logs by simp
    moreover have "sent ?s = sent s @ (if k = int (length buf) then [map_prod echo_answer id (m, a)] else [])"
      using m sends [OF k] logs by (simp add: echo_answer_def)
    ultimately show ?thesis
      using handled [of ?s "(m, a)" "if k = int (length buf) then [map_prod echo_answer id (m, a)] else []"] by simp
  qed
qed

lemma echo_dg_rounds_serve: "echo_served arrived sent n s (dg_rounds (echo_dg_round K sfd) n () s)"
proof (induction n arbitrary: s)
  case (Suc n)
  show ?case
  proof (cases rule: echo_round_cases [of s, case_names stopped handled])
    case (stopped s')
    then have "\<exists>ds as. length ds < Suc n \<and> arrived s = ds @ arrived s' \<and> sent s' = sent s @ as \<and> subseq as (map (map_prod echo_answer id) ds)"
      by (intro exI [of _ "[]"]) simp
    with stopped(1) show ?thesis by (simp add: echo_served_def)
  next
    case (handled s' d as)
    note IH = Suc.IH [of s']
    let ?f = "map_prod echo_answer id"
    have ext: "\<exists>ds2 as2. length ds2 = Suc (length ds) \<and> arrived s = ds2 @ a \<and> t = sent s @ as2 \<and> subseq as2 (map ?f ds2)"
      if "arrived s' = ds @ a" "t = sent s' @ as1" "subseq as1 (map ?f ds)" for ds as1 a t
      using that handled(2,3,4) by (intro exI [of _ "d # ds"] exI [of _ "as @ as1"]) (auto intro: subseq_Cons')
    have "echo_served arrived sent (Suc n) s (dg_rounds (echo_dg_round K sfd) n () s')"
    proof (cases "dg_rounds (echo_dg_round K sfd) n () s'")
      case (Ret u t)
      with IH obtain ds as1 where "length ds = n" "arrived s' = ds @ arrived t" "sent t = sent s' @ as1" "subseq as1 (map ?f ds)"
        by (auto simp: echo_served_def)
      with ext [of ds "arrived t" "sent t" as1] Ret show ?thesis by (auto simp: echo_served_def)
    next
      case (Exited st t)
      with IH obtain ds as1 where "st = 1" "length ds < n" "arrived s' = ds @ arrived t" "sent t = sent s' @ as1" "subseq as1 (map ?f ds)"
        by (auto simp: echo_served_def)
      with ext [of ds "arrived t" "sent t" as1] Exited show ?thesis by (auto simp: echo_served_def)
    qed (use IH in \<open>simp_all add: echo_served_def\<close>)
    with handled(1) show ?thesis by simp
  qed
qed (simp add: echo_served_def)

end

section \<open>Clients\<close>

text \<open>What the clients show for their messages.\<close>

fun responses :: "nat \<Rightarrow> string list \<Rightarrow> string" where
  "responses j [] = []"
| "responses j (m # ms) = ''Response '' @ show_nat j @ '': '' @ ucase_answer m @ [nl] @ responses (Suc j) ms"

definition echoed :: "string list \<Rightarrow> string" where
  "echoed ms = concat (map (\<lambda>m. ''['' @ show_nat (length (echo_answer m)) @ '' bytes] '' @ echo_answer m @ [nl]) ms)"

text \<open>The program ends; with status 0 it has shown \<open>text\<close> and nothing else.\<close>

definition shows_only :: "('s \<Rightarrow> string list \<times> string) \<Rightarrow> string \<Rightarrow> 's \<Rightarrow> ('a, 's) outcome \<Rightarrow> bool" where
  "shows_only view t s r \<longleftrightarrow>
     (case r of Exited st s' \<Rightarrow> st = 1 \<or> st = 0 \<and> snd (view s') = snd (view s) @ t | _ \<Rightarrow> False)"

text \<open>The socket of a client: \<open>view\<close> gives the answers that wait to be read, and the output of the program.
  A datagram that was sent brings the answer of the service, \<open>service\<close>; none is lost.\<close>

locale dg_peer =
  fixes K :: "'s dgk" and view :: "'s \<Rightarrow> string list \<times> string" and service :: "string \<Rightarrow> string"
  assumes csendto: "g_sendto K fd m a s = (n1, s1) \<Longrightarrow> n1 = int (length m) \<Longrightarrow> view s1 = apfst (\<lambda>w. w @ [service m]) (view s)"
    and cwrite: "g_write K fd m s = (n1, s1) \<Longrightarrow> n1 = int (length m) \<Longrightarrow> view s1 = apfst (\<lambda>w. w @ [service m]) (view s)"
    and crecvfrom: "g_recvfrom K fd n s = (Some (r2, a2), s2) \<Longrightarrow> \<exists>d. view s = apfst ((#) d) (view s2) \<and> r2 = take n d"
    and cread: "g_read K fd n s = (Some r2, s2) \<Longrightarrow> \<exists>d. view s = apfst ((#) d) (view s2) \<and> r2 = take n d"
    and cprint: "view (g_print K t s) = apsnd (\<lambda>out. out @ t) (view s)"
    and other: "view (snd (g_remove K p s)) = view s" "view (snd (k_socket (g_net K) f ty pr s)) = view s"
      "view (snd (k_bind (g_net K) fd a l s)) = view s" "view (snd (k_connect (g_net K) fd a l s)) = view s"
      "view (snd (k_close (g_net K) fd s)) = view s" "view (k_set_errno (g_net K) e s) = view s"
      "view (snd (k_getaddrinfo (g_net K) h sv hi s)) = view s"
begin

lemma other_eq:
  "k_socket (g_net K) f ty pr s = (fd, s') \<Longrightarrow> view s' = view s" "k_bind (g_net K) fd a l s = (b, s') \<Longrightarrow> view s' = view s"
  "k_connect (g_net K) fd a l s = (b, s') \<Longrightarrow> view s' = view s" "k_getaddrinfo (g_net K) h sv hi s = (ai, s') \<Longrightarrow> view s' = view s"
  using other by (metis snd_conv)+

lemma connect_loop_view: "connect_loop (g_net K) rps s = (fd, s') \<Longrightarrow> view s' = view s"
proof (induction rps arbitrary: s)
  case (Cons rp rps)
  obtain sfd s1 where a: "k_socket (g_net K) (ai_family rp) (ai_socktype rp) (ai_protocol rp) s = (sfd, s1)" by force
  obtain ok s2 where b: "k_connect (g_net K) sfd (ai_addr rp) (ai_addrlen rp) s1 = (ok, s2)" by force
  note v = other_eq(1) [OF a] other_eq(3) [OF b]
  from Cons.prems a b v Cons.IH [of s1] Cons.IH [of "snd (k_close (g_net K) sfd s2)"] show ?case
    by (auto simp: other split: if_splits)
qed simp

lemma inetConnect_view: "inetConnect (g_net K) h sv ty s = (fd, s') \<Longrightarrow> view s' = view s"
  by (auto simp: inetConnect_def other other_eq(4) dest!: connect_loop_view split: prod.splits option.splits)

lemma ucase_cl_loop_shows:
  assumes "service = ucase_answer" "\<forall>m\<in>set ms. CHR 0x00 \<notin> set m" "fst (view s) = []"
  shows "(\<exists>s'. ucase_cl_loop K fd a j ms s = Exited 1 s') \<or>
    (\<exists>s'. ucase_cl_loop K fd a j ms s = Ret () s' \<and> view s' = ([], snd (view s) @ responses j ms))"
  using assms(2,3)
proof (induction ms arbitrary: j s)
  case Nil
  then show ?case by (cases "view s") simp
next
  case (Cons m ms)
  obtain n s1 where a: "g_sendto K fd m a s = (n, s1)" by force
  obtain r s2 where b: "g_recvfrom K fd BUF_SIZE s1 = (r, s2)" by force
  show ?case
  proof (cases "n = int (length m) \<and> r \<noteq> None")
    case False
    with a b show ?thesis by (cases r) auto
  next
    case True
    then obtain resp a2 where r: "r = Some (resp, a2)" by auto
    from csendto [OF a] True Cons.prems(2) have v1: "view s1 = ([ucase_answer m], snd (view s))" by (cases "view s") (simp add: assms(1))
    from crecvfrom [OF b [unfolded r]] v1 have v2: "view s2 = ([], snd (view s))" "resp = ucase_answer m"
      by (cases "view s2"; auto simp: ucase_answer_def)+
    have "before resp (CHR 0x00) = resp"
      using Cons.prems(1) v2(2) by (intro before_absent) (simp add: ucase_answer_null)
    then have step: "ucase_cl_loop K fd a j (m # ms) s =
        ucase_cl_loop K fd a (Suc j) ms (g_print K (''Response '' @ show_nat j @ '': '' @ ucase_answer m @ [nl]) s2)"
      using a b r True v2(2) by simp
    show ?thesis
      unfolding step using Cons.IH [of "g_print K (''Response '' @ show_nat j @ '': '' @ ucase_answer m @ [nl]) s2" "Suc j"] Cons.prems(1) v2(1)
      by (simp add: cprint)
  qed
qed

lemma echo_cl_loop_shows:
  assumes "service = echo_answer" "\<forall>m\<in>set ms. CHR 0x00 \<notin> set m" "fst (view s) = []"
  shows "(\<exists>s'. echo_cl_loop K fd ms s = Exited 1 s') \<or>
    (\<exists>s'. echo_cl_loop K fd ms s = Ret () s' \<and> view s' = ([], snd (view s) @ echoed ms))"
  using assms(2,3)
proof (induction ms arbitrary: s)
  case Nil
  then show ?case by (cases "view s") (simp add: echoed_def)
next
  case (Cons m ms)
  obtain n s1 where a: "g_write K fd m s = (n, s1)" by force
  obtain r s2 where b: "g_read K fd ECHO_BUF_SIZE s1 = (r, s2)" by force
  show ?case
  proof (cases "n = int (length m) \<and> r \<noteq> None")
    case False
    with a b show ?thesis by (cases r) auto
  next
    case True
    then obtain buf where r: "r = Some buf" by auto
    from cwrite [OF a] True Cons.prems(2) have v1: "view s1 = ([echo_answer m], snd (view s))" by (cases "view s") (simp add: assms(1))
    from cread [OF b [unfolded r]] v1 have v2: "view s2 = ([], snd (view s))" "buf = echo_answer m"
      by (cases "view s2"; auto simp: echo_answer_def)+
    have "before buf (CHR 0x00) = buf"
      using Cons.prems(1) v2(2) by (intro before_absent) (auto simp: echo_answer_def dest: in_set_takeD)
    then have step: "echo_cl_loop K fd (m # ms) s =
        echo_cl_loop K fd ms (g_print K (''['' @ show_nat (length (echo_answer m)) @ '' bytes] '' @ echo_answer m @ [nl]) s2)"
      using a b r True v2(2) by simp
    show ?thesis
      unfolding step using Cons.IH [of "g_print K (''['' @ show_nat (length (echo_answer m)) @ '' bytes] '' @ echo_answer m @ [nl]) s2"]
        Cons.prems(1) v2(1) by (simp add: cprint echoed_def)
  qed
qed

lemma ud_ucase_cl_shows:
  assumes "service = ucase_answer" "\<forall>m\<in>set ms. CHR 0x00 \<notin> set m" "fst (view s) = []"
  shows "shows_only view (responses 1 ms) s (ud_ucase_cl_main K ms s)"
proof -
  obtain fd s1 where a: "k_socket (g_net K) AF_UNIX SOCK_DGRAM 0 s = (fd, s1)" by force
  obtain ok s2 where b: "k_bind (g_net K) fd (sockaddr_bytes (ud_cl_addr (g_getpid K))) sizeof_sockaddr_un s1 = (ok, s2)" by force
  have v: "view s2 = view s" using other_eq(1) [OF a] other_eq(2) [OF b] by simp
  with ucase_cl_loop_shows [OF assms(1,2), of s2 fd "sockaddr_bytes ud_sv_addr" 1] assms(3) show ?thesis
    by (auto simp: ud_ucase_cl_main_def fd_or_fail_def ok_or_fail_def a b shows_only_def other)
qed

lemma i6d_ucase_cl_shows:
  assumes "service = ucase_answer" "\<forall>m\<in>set ms. CHR 0x00 \<notin> set m" "fst (view s) = []"
  shows "shows_only view (responses 1 ms) s (i6d_ucase_cl_main K (h # ms) s)"
proof -
  obtain fd s1 where a: "k_socket (g_net K) AF_INET6 SOCK_DGRAM 0 s = (fd, s1)" by force
  note v = other_eq(1) [OF a]
  show ?thesis
  proof (cases "g_pton K h")
    case (Some addr)
    with v ucase_cl_loop_shows [OF assms(1,2), of s1 fd "in6_address addr PORT_NUM" 1] assms(3) show ?thesis
      by (auto simp: i6d_ucase_cl_main_def fd_or_fail_def a shows_only_def)
  qed (simp add: i6d_ucase_cl_main_def fd_or_fail_def a shows_only_def)
qed

lemma id_echo_cl_shows:
  assumes "service = echo_answer" "\<forall>m\<in>set ms. CHR 0x00 \<notin> set m" "fst (view s) = []"
  shows "shows_only view (echoed ms) s (id_echo_cl_main K (h # ms) s)"
proof -
  obtain fd s1 where a: "inetConnect (g_net K) (Some h) SERVICE SOCK_DGRAM s = (fd, s1)" by force
  with inetConnect_view [OF a] echo_cl_loop_shows [OF assms(1,2), of s1 fd] assms(3) show ?thesis
    by (auto simp: id_echo_cl_main_def fd_or_fail_def shows_only_def)
qed

end

section \<open>Addresses\<close>

lemma show_int_inj: "show_int i = show_int j \<Longrightarrow> LONG_MIN \<le> i \<Longrightarrow> i \<le> LONG_MAX \<Longrightarrow> LONG_MIN \<le> j \<Longrightarrow> j \<le> LONG_MAX \<Longrightarrow> i = j"
  using strtol_show_int [of i "[]"] strtol_show_int [of j "[]"] by simp

lemma show_int_plain:
  assumes "- (10 ^ 10) < i" "i < 10 ^ 10"
  shows "length (show_int i) \<le> 11" "CHR 0x00 \<notin> set (show_int i)"
proof -
  have n: "length (show_nat k) \<le> 10" if "k < 10 ^ 10" for k using show_nat_length [OF that] by simp
  have z: "CHR 0x00 \<notin> set (show_nat k)" for k
    using show_nat_digits [of "CHR 0x00" k] by (auto simp: is_digit_in_def digit_val_def)
  have "nat i < 10 ^ 10" "nat (- i) < 10 ^ 10" using assms by (simp_all add: nat_less_eq_zless [symmetric] nat_less_iff)
  from n [OF this(1)] n [OF this(2)] show "length (show_int i) \<le> 11" by (simp add: show_int_def)
  show "CHR 0x00 \<notin> set (show_int i)" using z by (simp add: show_int_def)
qed

lemma null_terminated_inj:
  "CHR 0x00 \<notin> set p \<Longrightarrow> CHR 0x00 \<notin> set q \<Longrightarrow> p @ CHR 0x00 # x = q @ CHR 0x00 # y \<Longrightarrow> p = q"
  by (metis before_append_Cons)

text \<open>An address as the kernel expects it: 110 bytes, the family, and a path that a null byte ends and that is
  followed by null bytes only.\<close>

definition well_formed_un :: "string \<Rightarrow> string \<Rightarrow> bool" where
  "well_formed_un p bytes \<longleftrightarrow> length bytes = sizeof_sockaddr_un \<and> take 2 bytes = [char_of (nat AF_UNIX), CHR 0x00] \<and>
     CHR 0x00 \<notin> set p \<and> (\<exists>k>0. drop 2 bytes = p @ replicate k (CHR 0x00))"

lemma ud_cl_path_full:
  assumes "INT_MIN \<le> i" "i \<le> INT_MAX"
  shows "ud_cl_path i = ''/tmp/ud_ucase_cl.'' @ show_int i" "CHR 0x00 \<notin> set (ud_cl_path i)" "length (ud_cl_path i) \<le> 28"
proof -
  have i: "- (10 ^ 10) < i" "i < 10 ^ 10" using assms by (simp_all add: INT_MIN_def INT_MAX_def)
  note l = show_int_plain [OF i]
  from l(1) show p: "ud_cl_path i = ''/tmp/ud_ucase_cl.'' @ show_int i"
    unfolding ud_cl_path_def by (intro snprintf_fits) (simp add: SUN_PATH_SIZE_def)
  show "CHR 0x00 \<notin> set (ud_cl_path i)" using l(2) unfolding p by simp
  show "length (ud_cl_path i) \<le> 28" using l(1) unfolding p by simp
qed

lemma ud_cl_bytes:
  assumes "INT_MIN \<le> i" "i \<le> INT_MAX"
  shows "sockaddr_bytes (ud_cl_addr i) =
    [char_of (nat AF_UNIX), CHR 0x00] @ ud_cl_path i @ CHR 0x00 # replicate (107 - length (ud_cl_path i)) (CHR 0x00)"
  by (simp add: sockaddr_bytes_def ud_cl_addr_def SUN_PATH_SIZE_def)

lemma ud_sv_bytes: "sockaddr_bytes ud_sv_addr = [char_of (nat AF_UNIX), CHR 0x00] @ SV_SOCK_PATH @ CHR 0x00 # replicate 94 (CHR 0x00)"
proof -
  have "replicate 94 (CHR 0x00) @ [CHR 0x00] = CHR 0x00 # replicate 94 (CHR 0x00)" by (rule replicate_append_same)
  then show ?thesis by (simp add: sockaddr_bytes_def ud_sv_addr_def SUN_PATH_SIZE_def SV_SOCK_PATH_def strncpy_def)
qed

text \<open>
  C24. The addresses of the upper case service are values of their C type: for every process id, the
  structure that the client fills has the size of \<open>struct sockaddr_un\<close>, its path is complete and ends
  with a null byte inside the array; it is not the address of the server, and clients with
  different process ids have different addresses.
\<close>

theorem ud_client_address:
  assumes "INT_MIN \<le> i" "i \<le> INT_MAX" "INT_MIN \<le> j" "j \<le> INT_MAX"
  shows "well_formed_un (''/tmp/ud_ucase_cl.'' @ show_int i) (sockaddr_bytes (ud_cl_addr i)) \<and>
    well_formed_un SV_SOCK_PATH (sockaddr_bytes ud_sv_addr) \<and> sockaddr_bytes (ud_cl_addr i) \<noteq> sockaddr_bytes ud_sv_addr \<and>
    (sockaddr_bytes (ud_cl_addr i) = sockaddr_bytes (ud_cl_addr j) \<longleftrightarrow> i = j)"
proof -
  note bi = ud_cl_bytes [OF assms(1,2)] and bj = ud_cl_bytes [OF assms(3,4)]
    and pi = ud_cl_path_full [OF assms(1,2)] and pj = ud_cl_path_full [OF assms(3,4)]
  have sv: "CHR 0x00 \<notin> set SV_SOCK_PATH" "length SV_SOCK_PATH = 13" by (simp_all add: SV_SOCK_PATH_def)
  have rep: "CHR 0x00 # replicate k (CHR 0x00) = replicate (Suc k) (CHR 0x00)" for k by simp
  have "drop 2 (sockaddr_bytes (ud_cl_addr i)) = ud_cl_path i @ replicate (Suc (107 - length (ud_cl_path i))) (CHR 0x00)"
    unfolding bi by simp
  then have "well_formed_un (ud_cl_path i) (sockaddr_bytes (ud_cl_addr i))"
    unfolding well_formed_un_def using pi(2,3) by (auto simp: bi sizeof_sockaddr_un_def SUN_PATH_SIZE_def)
  moreover have "drop 2 (sockaddr_bytes ud_sv_addr) = SV_SOCK_PATH @ replicate (Suc 94) (CHR 0x00)" unfolding ud_sv_bytes rep by simp
  then have "well_formed_un SV_SOCK_PATH (sockaddr_bytes ud_sv_addr)"
    unfolding well_formed_un_def using sv by (auto simp: ud_sv_bytes sizeof_sockaddr_un_def SUN_PATH_SIZE_def)
  moreover have "sockaddr_bytes (ud_cl_addr i) \<noteq> sockaddr_bytes ud_sv_addr"
  proof
    assume "sockaddr_bytes (ud_cl_addr i) = sockaddr_bytes ud_sv_addr"
    then have "ud_cl_path i = SV_SOCK_PATH" unfolding bi ud_sv_bytes using null_terminated_inj [OF pi(2) sv(1)] by simp
    then show False by (simp add: pi(1) SV_SOCK_PATH_def)
  qed
  moreover have "i = j" if "sockaddr_bytes (ud_cl_addr i) = sockaddr_bytes (ud_cl_addr j)"
  proof -
    from that have "ud_cl_path i = ud_cl_path j" unfolding bi bj using null_terminated_inj [OF pi(2) pj(2)] by simp
    then have "show_int i = show_int j" by (simp add: pi(1) pj(1))
    with assms show ?thesis by (intro show_int_inj) (simp_all add: INT_MIN_def INT_MAX_def LONG_MIN_def LONG_MAX_def)
  qed
  ultimately show ?thesis unfolding pi(1) by blast
qed

theorem ud_client_address_witness:
  "well_formed_un (''/tmp/ud_ucase_cl.'' @ show_int 4711) (sockaddr_bytes (ud_cl_addr 4711)) \<and>
   sockaddr_bytes (ud_cl_addr 4711) \<noteq> sockaddr_bytes (ud_cl_addr 4712)"
  using ud_client_address [of 4711 4712] by (simp add: INT_MIN_def INT_MAX_def)

section \<open>A reference network\<close>

text \<open>Datagrams that wait for a server, answers that were sent, answers that wait for a client, and the output.\<close>

record refdg =
  rd_arrived :: "(string \<times> string) list"
  rd_sent :: "(string \<times> string) list"
  rd_waiting :: "string list"
  rd_out :: string

definition rd_take :: "nat \<Rightarrow> refdg \<Rightarrow> (string \<times> string) option \<times> refdg" where
  "rd_take n s = (case rd_arrived s of [] \<Rightarrow> (None, s) | (m, a) # ds \<Rightarrow> (Some (take n m, a), s\<lparr>rd_arrived := ds\<rparr>))"

definition rd_next :: "nat \<Rightarrow> refdg \<Rightarrow> string option \<times> refdg" where
  "rd_next n s = (case rd_waiting s of [] \<Rightarrow> (None, s) | d # ds \<Rightarrow> (Some (take n d), s\<lparr>rd_waiting := ds\<rparr>))"

definition ref_un :: "refdg unixk" where
  "ref_un = \<lparr>k_getaddrinfo = (\<lambda>h sv hi s. (Some [\<lparr>ai_family = 2, ai_socktype = SOCK_DGRAM, ai_protocol = 0, ai_addr = ''peer'', ai_addrlen = 4\<rparr>], s)),
     k_socket = (\<lambda>f t p s. (3, s)), k_connect = (\<lambda>fd a l s. (True, s)), k_reuseaddr = (\<lambda>fd s. (True, s)), k_bind = (\<lambda>fd a l s. (True, s)),
     k_listen = (\<lambda>fd n s. (True, s)), k_close = (\<lambda>fd s. (True, s)), k_set_errno = (\<lambda>e s. s), k_errno = (\<lambda>s. 0)\<rparr>"

definition ref_dk :: "refdg dk" where
  "ref_dk = \<lparr>d_fork = (\<lambda>s. (InChild, s)), d_setsid = (\<lambda>s. (0, s)), d_umask = (\<lambda>m s. s), d_chdir = (\<lambda>p s. (0, s)), d_open_max = 0,
     d_close = (\<lambda>fd s. (0, s)), d_open = (\<lambda>p s. (0, s)), d_dup2 = (\<lambda>a b s. (b, s))\<rparr>"

text \<open>The calls as a server sees them, and as a client of a service does.\<close>

definition ref_server :: "refdg dgk" where
  "ref_server = \<lparr>g_net = ref_un, g_dk = ref_dk, g_remove = (\<lambda>p s. (Some ENOENT, s)), g_recvfrom = (\<lambda>fd. rd_take),
     g_sendto = (\<lambda>fd m a s. (int (length m), s\<lparr>rd_sent := rd_sent s @ [(m, a)]\<rparr>)), g_read = (\<lambda>fd. rd_next),
     g_write = (\<lambda>fd m s. (-1, s)), g_print = (\<lambda>t s. s\<lparr>rd_out := rd_out s @ t\<rparr>), g_syslog = (\<lambda>t s. s), g_getpid = 42,
     g_ntop = Some, g_pton = Some, g_nameinfo = (\<lambda>a. None)\<rparr>"

definition rd_ask :: "(string \<Rightarrow> string) \<Rightarrow> string \<Rightarrow> refdg \<Rightarrow> int \<times> refdg" where
  "rd_ask service m s = (int (length m), s\<lparr>rd_waiting := rd_waiting s @ [service m]\<rparr>)"

definition ref_client :: "(string \<Rightarrow> string) \<Rightarrow> refdg dgk" where
  "ref_client service = ref_server\<lparr>g_recvfrom := (\<lambda>fd n s. map_prod (map_option (\<lambda>d. (d, []))) id (rd_next n s)),
     g_sendto := (\<lambda>fd m a. rd_ask service m), g_write := (\<lambda>fd m. rd_ask service m)\<rparr>"

interpretation rdq: dg_queue ref_server 3 rd_arrived rd_sent
  by unfold_locales (auto simp: ref_server_def rd_take_def split: list.splits prod.splits)

interpretation rdp: dg_peer "ref_client service" "\<lambda>s. (rd_waiting s, rd_out s)" service for service
  by unfold_locales (auto simp: ref_client_def ref_server_def ref_un_def rd_ask_def rd_next_def split: list.splits)

section \<open>Properties\<close>


definition two_datagrams :: refdg where
  "two_datagrams = \<lparr>rd_arrived = [(''hello, world'', ''a''), (''x'', ''b'')], rd_sent = [], rd_waiting = [], rd_out = []\<rparr>"


text \<open>
  The datagram clients against their services, when no datagram is lost: the clients always end, and
  with status 0 only after each message has been answered; what they then have shown is exactly the
  answers of the service, one line per message and in order.
\<close>

theorem datagram_clients:
  assumes "dg_peer K1 view ucase_answer" "dg_peer K2 view echo_answer" "\<forall>m\<in>set ms. CHR 0x00 \<notin> set m" "fst (view s) = []"
  shows "shows_only view (responses 1 ms) s (ud_ucase_cl_main K1 ms s) \<and> shows_only view (responses 1 ms) s (i6d_ucase_cl_main K1 (h # ms) s) \<and>
    shows_only view (echoed ms) s (id_echo_cl_main K2 (h # ms) s)"
  by (intro conjI dg_peer.ud_ucase_cl_shows [OF assms(1) refl assms(3,4)] dg_peer.i6d_ucase_cl_shows [OF assms(1) refl assms(3,4)]
      dg_peer.id_echo_cl_shows [OF assms(2) refl assms(3,4)])

theorem datagram_clients_witness:
  "\<exists>s'. ud_ucase_cl_main (ref_client ucase_answer) [''one'', ''two''] (two_datagrams\<lparr>rd_arrived := []\<rparr>) = Exited 0 s' \<and>
     rd_out s' = responses 1 [''one'', ''two'']"
proof -
  let ?s = "two_datagrams\<lparr>rd_arrived := []\<rparr>" and ?ms = "[''one'', ''two'']"
  have "\<exists>s'. ud_ucase_cl_main (ref_client ucase_answer) ?ms ?s = Exited 0 s'"
    by (simp add: ud_ucase_cl_main_def fd_or_fail_def ok_or_fail_def ref_client_def ref_server_def ref_un_def rd_ask_def rd_next_def
        two_datagrams_def)
  then obtain s' where s': "ud_ucase_cl_main (ref_client ucase_answer) ?ms ?s = Exited 0 s'" by blast
  have "\<forall>m\<in>set ?ms. CHR 0x00 \<notin> set m" "fst (rd_waiting ?s, rd_out ?s) = []" by (simp_all add: two_datagrams_def)
  from datagram_clients [OF rdp.dg_peer_axioms rdp.dg_peer_axioms this]
  have "shows_only (\<lambda>s. (rd_waiting s, rd_out s)) (responses 1 ?ms) ?s (ud_ucase_cl_main (ref_client ucase_answer) ?ms ?s)" by blast
  with s' have "rd_out s' = responses 1 ?ms" unfolding s' shows_only_def by (simp add: two_datagrams_def)
  with s' show ?thesis by blast
qed

end
