(* ===== verification/Thread_Incr.thy ===== *)
theory Thread_Incr
  imports Schedules Get_Num
begin

text \<open>
  Two threads that increment one variable: \<open>src/tlpi-book/threads/thread_incr.c\<close> without protection,
  \<open>thread_incr_mutex.c\<close>, \<open>thread_incr_rwlock.c\<close>, \<open>thread_incr_spinlock.c\<close> and \<open>psem/thread_incr_psem.c\<close> each with a
  lock of another kind.  The programs differ in the lock and in whether it is initialised by a call;
  loading and storing \<open>glob\<close> are steps of their own, as in the code.  A step carries the result of its
  library call.  Incrementing \<open>INT_MAX\<close> is undefined.
\<close>

datatype variant = Plain | Mutex | Rwlock | Spinlock | Psem

definition locking :: "variant \<Rightarrow> bool" where
  "locking v \<longleftrightarrow> v \<noteq> Plain"

definition needs_init :: "variant \<Rightarrow> bool" where
  "needs_init v \<longleftrightarrow> v \<in> {Rwlock, Spinlock, Psem}"

datatype tpc = TTest | TLock | TLoad | TStore | TUnlock | TEnd

record ithread =
  t_pc :: tpc
  t_j :: int
  t_loc :: int

datatype mpc = MArgs | MInit | MCreate nat | MJoin nat | MExit int | MUndef

record istate =
  threads :: "ithread list"
  holder :: "nat option"
  glob :: int
  loops :: int
  mainpc :: mpc
  shown :: "int option"

datatype event = Main int | Thread nat int

definition start :: istate where
  "start = \<lparr>threads = [], holder = None, glob = 0, loops = 0, mainpc = MArgs, shown = None\<rparr>"

definition running :: "istate \<Rightarrow> bool" where
  "running s \<longleftrightarrow> (case mainpc s of MExit n \<Rightarrow> False | MUndef \<Rightarrow> False | _ \<Rightarrow> True)"

definition errExitEN :: "istate \<Rightarrow> istate" where
  "errExitEN s = s\<lparr>mainpc := MExit 1\<rparr>"

definition set_thread :: "nat \<Rightarrow> ithread \<Rightarrow> istate \<Rightarrow> istate" where
  "set_thread i t s = s\<lparr>threads := (threads s)[i := t]\<rparr>"

definition threadFunc :: "variant \<Rightarrow> nat \<Rightarrow> int \<Rightarrow> istate \<Rightarrow> istate option" where
  "threadFunc v i r s =
     (if \<not> running s \<or> length (threads s) \<le> i then None
      else
        (let t = threads s ! i in
         case t_pc t of
           TTest \<Rightarrow> Some (set_thread i (t\<lparr>t_pc := (if t_j t < loops s then if locking v then TLock else TLoad else TEnd)\<rparr>) s)
         | TLock \<Rightarrow>
             if r \<noteq> 0 then Some (errExitEN s)
             else if holder s = None then Some (set_thread i (t\<lparr>t_pc := TLoad\<rparr>) (s\<lparr>holder := Some i\<rparr>)) else None
         | TLoad \<Rightarrow> Some (set_thread i (t\<lparr>t_pc := TStore, t_loc := glob s\<rparr>) s)
         | TStore \<Rightarrow>
             if t_loc t = INT_MAX then Some (s\<lparr>mainpc := MUndef\<rparr>)
             else
               (let t = t\<lparr>t_loc := t_loc t + 1\<rparr>; s = s\<lparr>glob := t_loc t\<rparr> in
                Some (set_thread i (if locking v then t\<lparr>t_pc := TUnlock\<rparr> else t\<lparr>t_pc := TTest, t_j := t_j t + 1\<rparr>) s))
         | TUnlock \<Rightarrow>
             if r \<noteq> 0 then Some (errExitEN s)
             else Some (set_thread i (t\<lparr>t_pc := TTest, t_j := t_j t + 1\<rparr>) (s\<lparr>holder := None\<rparr>))
         | TEnd \<Rightarrow> None))"

definition loops_of :: "string list \<Rightarrow> string + int" where
  "loops_of args = (if args \<noteq> [] then getInt (Some (hd args)) GN_GT_0 (Some ''num-loops'') else Inr 10000000)"

definition main_step :: "variant \<Rightarrow> string list \<Rightarrow> int \<Rightarrow> istate \<Rightarrow> istate option" where
  "main_step v args r s =
     (case mainpc s of
        MArgs \<Rightarrow>
          (case loops_of args of
             Inl e \<Rightarrow> Some (errExitEN s)
           | Inr n \<Rightarrow> Some (s\<lparr>loops := n, mainpc := (if needs_init v then MInit else MCreate 0)\<rparr>))
      | MInit \<Rightarrow> if r \<noteq> 0 then Some (errExitEN s) else Some (s\<lparr>mainpc := MCreate 0\<rparr>)
      | MCreate k \<Rightarrow>
          if k < 2 then
            if r \<noteq> 0 then Some (errExitEN s)
            else Some (s\<lparr>threads := threads s @ [\<lparr>t_pc = TTest, t_j = 0, t_loc = 0\<rparr>], mainpc := MCreate (Suc k)\<rparr>)
          else Some (s\<lparr>mainpc := MJoin 0\<rparr>)
      | MJoin k \<Rightarrow>
          if k < 2 then
            if r \<noteq> 0 then Some (errExitEN s)
            else if t_pc (threads s ! k) = TEnd then Some (s\<lparr>mainpc := MJoin (Suc k)\<rparr>) else None
          else Some (s\<lparr>shown := Some (glob s), mainpc := MExit 0\<rparr>)
      | MExit n \<Rightarrow> None
      | MUndef \<Rightarrow> None)"

fun step :: "variant \<Rightarrow> string list \<Rightarrow> event \<Rightarrow> istate \<Rightarrow> istate option" where
  "step v args (Main r) s = main_step v args r s"
| "step v args (Thread i r) s = threadFunc v i r s"

text \<open>The five programs.\<close>

definition thread_incr :: "string list \<Rightarrow> event \<Rightarrow> istate \<Rightarrow> istate option" where
  "thread_incr = step Plain"

definition thread_incr_mutex :: "string list \<Rightarrow> event \<Rightarrow> istate \<Rightarrow> istate option" where
  "thread_incr_mutex = step Mutex"

definition thread_incr_rwlock :: "string list \<Rightarrow> event \<Rightarrow> istate \<Rightarrow> istate option" where
  "thread_incr_rwlock = step Rwlock"

definition thread_incr_spinlock :: "string list \<Rightarrow> event \<Rightarrow> istate \<Rightarrow> istate option" where
  "thread_incr_spinlock = step Spinlock"

definition thread_incr_psem :: "string list \<Rightarrow> event \<Rightarrow> istate \<Rightarrow> istate option" where
  "thread_incr_psem = step Psem"

lemmas program_defs = thread_incr_def thread_incr_mutex_def thread_incr_rwlock_def thread_incr_spinlock_def thread_incr_psem_def

section \<open>Invariant\<close>

text \<open>How many increments a thread has completed.\<close>

definition added :: "ithread \<Rightarrow> int" where
  "added t = (if t_pc t = TUnlock then t_j t + 1 else t_j t)"

definition thread_ok :: "variant \<Rightarrow> int \<Rightarrow> ithread \<Rightarrow> bool" where
  "thread_ok v n t \<longleftrightarrow> 0 \<le> t_j t \<and> t_j t \<le> n \<and> (t_pc t \<in> {TLock, TLoad, TStore, TUnlock} \<longrightarrow> t_j t < n) \<and>
     (t_pc t = TEnd \<longrightarrow> t_j t = n) \<and> (t_pc t \<in> {TLock, TUnlock} \<longrightarrow> locking v)"

text \<open>With a lock \<open>glob\<close> is the number of increments, at every moment; without one it can only be less.\<close>

definition sum_ok :: "variant \<Rightarrow> istate \<Rightarrow> bool" where
  "sum_ok v s \<longleftrightarrow> 0 \<le> glob s \<and> glob s \<le> sum_list (map added (threads s)) \<and>
     (0 < sum_list (map added (threads s)) \<longrightarrow> 0 < glob s) \<and>
     (locking v \<longrightarrow> glob s = sum_list (map added (threads s))) \<and>
     (\<forall>i<length (threads s). t_pc (threads s ! i) = TStore \<longrightarrow>
        (if locking v then t_loc (threads s ! i) = glob s
         else 0 \<le> t_loc (threads s ! i) \<and> t_loc (threads s ! i) \<le> sum_list (map added (threads s))))"

definition lock_ok :: "variant \<Rightarrow> istate \<Rightarrow> bool" where
  "lock_ok v s \<longleftrightarrow>
     (if locking v then
        (\<forall>i<length (threads s). (t_pc (threads s ! i) \<in> {TLoad, TStore, TUnlock}) = (holder s = Some i)) \<and>
        (\<forall>i. holder s = Some i \<longrightarrow> i < length (threads s))
      else holder s = None)"

definition main_ok :: "string list \<Rightarrow> istate \<Rightarrow> bool" where
  "main_ok args s \<longleftrightarrow> (mainpc s = MArgs \<or> loops_of args = Inr (loops s) \<or> mainpc s = MExit 1) \<and>
     (case mainpc s of
        MArgs \<Rightarrow> threads s = [] | MInit \<Rightarrow> threads s = [] | MCreate k \<Rightarrow> length (threads s) = k \<and> k \<le> 2
      | MJoin k \<Rightarrow> length (threads s) = 2 \<and> k \<le> 2 \<and> (\<forall>i<k. t_pc (threads s ! i) = TEnd)
      | MExit n \<Rightarrow> n = 1 \<or> n = 0 \<and> length (threads s) = 2 \<and> (\<forall>t\<in>set (threads s). t_pc t = TEnd) \<and> shown s = Some (glob s)
      | MUndef \<Rightarrow> False)"

definition incr_inv :: "variant \<Rightarrow> string list \<Rightarrow> istate \<Rightarrow> bool" where
  "incr_inv v args s \<longleftrightarrow> length (threads s) \<le> 2 \<and> (\<forall>t\<in>set (threads s). thread_ok v (loops s) t) \<and> sum_ok v s \<and> lock_ok v s \<and> main_ok args s"

text \<open>A number of increments that the variable can hold.\<close>

definition fits :: "string list \<Rightarrow> bool" where
  "fits args \<longleftrightarrow> (\<exists>n. loops_of args = Inr n \<and> 0 < n \<and> 2 * n \<le> INT_MAX)"

lemma incr_inv_start: "incr_inv v args start"
  by (simp add: incr_inv_def start_def sum_ok_def lock_ok_def main_ok_def)

lemma incr_inv_exit: "incr_inv v args s \<Longrightarrow> incr_inv v args (errExitEN s)"
proof -
  assume iv: "incr_inv v args s"
  have "sum_ok v (errExitEN s) = sum_ok v s" "lock_ok v (errExitEN s) = lock_ok v s"
    by (simp_all add: sum_ok_def lock_ok_def errExitEN_def)
  with iv show ?thesis by (simp add: incr_inv_def main_ok_def errExitEN_def)
qed

text \<open>A thread at its store has increments left, so that the sum is less than twice the number of loops.\<close>

lemma added_bounds: "thread_ok v n t \<Longrightarrow> 0 \<le> added t \<and> added t \<le> n"
  by (auto simp: thread_ok_def added_def)

lemma sum_at_store:
  assumes "length ts \<le> 2" "\<forall>t\<in>set ts. thread_ok v n t" "i < length ts" "t_pc (ts ! i) = TStore"
  shows "sum_list (map added ts) < 2 * n"
proof -
  have b: "0 \<le> added t" "added t \<le> n" if "t \<in> set ts" for t using that assms(2) added_bounds by blast+
  have "added (ts ! i) < n" using assms(2-4) by (auto simp: added_def thread_ok_def)
  moreover have "sum_list (map added ts) \<le> added (ts ! i) + n"
  proof -
    from assms(1,3) have "length ts = 1 \<or> length ts = 2" by auto
    then consider t where "ts = [t]" | t u where "ts = [t, u]" by (auto simp: numeral_2_eq_2 length_Suc_conv)
    then show ?thesis
    proof cases
      case (1 t)
      with b [of t] assms(3) show ?thesis by simp
    next
      case (2 t u)
      with b [of t] b [of u] assms(3) show ?thesis by (cases i) auto
    qed
  qed
  ultimately show ?thesis by simp
qed

lemma incr_moved:
  assumes "incr_inv v args s" "running s" "i < length (threads s)" "t_pc (threads s ! i) \<noteq> TEnd"
    and s': "s' = s\<lparr>threads := (threads s)[i := y], holder := h, glob := g\<rparr>"
    and "thread_ok v (loops s) y" "sum_ok v s'" "lock_ok v s'"
  shows "incr_inv v args s'"
proof -
  have "\<forall>t\<in>set (threads s'). thread_ok v (loops s) t"
    using assms(1,6) set_update_subset_insert [of "threads s" i y] by (fastforce simp: s' incr_inv_def)
  moreover have "main_ok args s'"
  proof (cases "mainpc s")
    case (MJoin k)
    have "(threads s)[i := y] ! j = threads s ! j" if "t_pc (threads s ! j) = TEnd" for j using that assms(4) by (metis nth_list_update_neq)
    with MJoin assms(1) show ?thesis by (simp add: incr_inv_def main_ok_def s')
  qed (use assms(1,2,3) in \<open>auto simp: incr_inv_def main_ok_def s' running_def\<close>)
  ultimately show ?thesis using assms(1,7,8) by (simp add: incr_inv_def s')
qed

lemma sum_ok_moved:
  assumes "sum_ok v s" "i < length (threads s)" "added y = added (threads s ! i)" "t_pc y = TStore \<longrightarrow> t_loc y = glob s"
    and s': "threads s' = (threads s)[i := y]" "glob s' = glob s"
  shows "sum_ok v s'"
proof -
  have "sum_list (map added (threads s')) = sum_list (map added (threads s))"
    using assms(2,3) by (simp add: s' sum_list_update_int)
  with assms show ?thesis by (auto simp: sum_ok_def nth_list_update)
qed

lemma lock_ok_moved:
  assumes "lock_ok v s" "i < length (threads s)" "threads s' = (threads s)[i := y]"
    "if locking v then (t_pc y \<in> {TLoad, TStore, TUnlock}) = (holder s' = Some i) else holder s' = holder s"
    "holder s' = holder s \<or> holder s = None \<and> holder s' = Some i \<or> holder s = Some i \<and> holder s' = None"
  shows "lock_ok v s'"
  using assms by (auto simp: lock_ok_def nth_list_update split: if_splits)

lemma sum_ok_stored:
  assumes "incr_inv v args s" "i < length (threads s)" "t_pc (threads s ! i) = TStore" "added y = t_j (threads s ! i) + 1" "t_pc y \<noteq> TStore"
    and s': "threads s' = (threads s)[i := y]" "glob s' = t_loc (threads s ! i) + 1"
  shows "sum_ok v s'"
proof -
  from assms(1) have iv: "sum_ok v s" "lock_ok v s" by (simp_all add: incr_inv_def)
  have sum: "sum_list (map added (threads s')) = sum_list (map added (threads s)) + 1"
    using assms(2,3,4) by (simp add: s' sum_list_update_int) (simp add: added_def)
  have loc: "if locking v then t_loc (threads s ! i) = glob s else 0 \<le> t_loc (threads s ! i) \<and> t_loc (threads s ! i) \<le> sum_list (map added (threads s))"
    using iv(1) assms(2,3) unfolding sum_ok_def by blast
  show ?thesis
  proof (cases "locking v")
    case True
    have "t_pc (threads s ! j) \<noteq> TStore" if "j < length (threads s)" "j \<noteq> i" for j
    proof
      assume "t_pc (threads s ! j) = TStore"
      with that(1) assms(2,3) iv(2) True have "holder s = Some j" "holder s = Some i" unfolding lock_ok_def by auto
      with that(2) show False by simp
    qed
    with True iv(1) loc sum assms(2,5) show ?thesis by (auto simp: sum_ok_def s' nth_list_update)
  next
    case False
    have "t_loc (threads s ! j) \<le> sum_list (map added (threads s)) + 1 \<and> 0 \<le> t_loc (threads s ! j)"
      if "j < length (threads s)" "t_pc (threads s ! j) = TStore" for j
      using iv(1) False that unfolding sum_ok_def by fastforce
    with False loc assms(2,5) show ?thesis unfolding sum_ok_def sum by (auto simp: s' nth_list_update)
  qed
qed

lemma incr_inv_thread:
  assumes "fits args" "incr_inv v args s" "threadFunc v i r s = Some s'"
  shows "incr_inv v args s'"
proof -
  let ?t = "threads s ! i"
  from assms(3) have run: "running s" and i: "i < length (threads s)" by (auto simp: threadFunc_def split: if_splits)
  from assms(2) have iv: "sum_ok v s" "lock_ok v s" "main_ok args s" "length (threads s) \<le> 2"
      "\<forall>t\<in>set (threads s). thread_ok v (loops s) t" by (simp_all add: incr_inv_def)
  have tok: "thread_ok v (loops s) ?t" using iv(5) i by simp
  have own: "locking v \<Longrightarrow> (t_pc ?t \<in> {TLoad, TStore, TUnlock}) = (holder s = Some i)" using iv(2) i unfolding lock_ok_def by simp
  have free: "\<not> locking v \<Longrightarrow> holder s = None" using iv(2) by (simp add: lock_ok_def)
  note moved = incr_moved [OF assms(2) run i] and same = sum_ok_moved [OF iv(1) i] and lck = lock_ok_moved [OF iv(2) i]
  show ?thesis
  proof (cases "t_pc ?t")
    case TTest
    let ?y = "?t\<lparr>t_pc := (if t_j ?t < loops s then if locking v then TLock else TLoad else TEnd)\<rparr>"
    have s': "s' = s\<lparr>threads := (threads s)[i := ?y], holder := holder s, glob := glob s\<rparr>"
      using TTest assms(3) run i by (auto simp: threadFunc_def set_thread_def Let_def)
    show ?thesis
    proof (rule moved [OF _ s'])
      show "sum_ok v s'" by (rule same [of ?y]) (use TTest in \<open>simp_all add: s' added_def\<close>)
      show "lock_ok v s'" by (rule lck [of _ ?y]) (use TTest own free in \<open>auto simp: s'\<close>)
    qed (use TTest tok in \<open>auto simp: thread_ok_def\<close>)
  next
    case TLock
    show ?thesis
    proof (cases "r = 0")
      case True
      let ?y = "?t\<lparr>t_pc := TLoad\<rparr>"
      have h: "holder s = None" and s': "s' = s\<lparr>threads := (threads s)[i := ?y], holder := Some i, glob := glob s\<rparr>"
        using True TLock assms(3) run i by (auto simp: threadFunc_def set_thread_def Let_def split: if_splits)
      have l: "locking v" using TLock tok by (simp add: thread_ok_def)
      show ?thesis
      proof (rule moved [OF _ s'])
        show "sum_ok v s'" by (rule same [of ?y]) (use TLock in \<open>simp_all add: s' added_def\<close>)
        show "lock_ok v s'" by (rule lck [of _ ?y]) (use h l in \<open>auto simp: s'\<close>)
      qed (use TLock tok in \<open>auto simp: thread_ok_def\<close>)
    qed (use TLock assms(3) run i incr_inv_exit [OF assms(2)] in \<open>simp add: threadFunc_def\<close>)
  next
    case TLoad
    let ?y = "?t\<lparr>t_pc := TStore, t_loc := glob s\<rparr>"
    have s': "s' = s\<lparr>threads := (threads s)[i := ?y], holder := holder s, glob := glob s\<rparr>"
      using TLoad assms(3) run i by (auto simp: threadFunc_def set_thread_def Let_def)
    show ?thesis
    proof (rule moved [OF _ s'])
      show "sum_ok v s'" by (rule same [of ?y]) (use TLoad in \<open>simp_all add: s' added_def\<close>)
      show "lock_ok v s'" by (rule lck [of _ ?y]) (use TLoad own free in \<open>auto simp: s'\<close>)
    qed (use TLoad tok in \<open>auto simp: thread_ok_def\<close>)
  next
    case TStore
    have "t_loc ?t \<le> sum_list (map added (threads s))" using iv(1) i TStore unfolding sum_ok_def by (auto split: if_splits)
    moreover have "2 * loops s \<le> INT_MAX" using assms(1) iv(3) run i by (auto simp: fits_def main_ok_def running_def)
    ultimately have ni: "t_loc ?t \<noteq> INT_MAX" using sum_at_store [OF iv(4,5) i TStore] by simp
    let ?y = "if locking v then ?t\<lparr>t_loc := t_loc ?t + 1, t_pc := TUnlock\<rparr> else ?t\<lparr>t_loc := t_loc ?t + 1, t_pc := TTest, t_j := t_j ?t + 1\<rparr>"
    have s': "s' = s\<lparr>threads := (threads s)[i := ?y], holder := holder s, glob := t_loc ?t + 1\<rparr>"
      using TStore assms(3) run i ni by (auto simp: threadFunc_def set_thread_def Let_def)
    show ?thesis
    proof (rule moved [OF _ s'])
      show "sum_ok v s'" by (rule sum_ok_stored [OF assms(2) i TStore, of ?y]) (simp_all add: s' added_def)
      show "lock_ok v s'" by (rule lck [of _ ?y]) (use TStore own free in \<open>auto simp: s'\<close>)
    qed (use TStore tok in \<open>auto simp: thread_ok_def\<close>)
  next
    case TUnlock
    show ?thesis
    proof (cases "r = 0")
      case True
      let ?y = "?t\<lparr>t_pc := TTest, t_j := t_j ?t + 1\<rparr>"
      have s': "s' = s\<lparr>threads := (threads s)[i := ?y], holder := None, glob := glob s\<rparr>"
        using True TUnlock assms(3) run i by (auto simp: threadFunc_def set_thread_def Let_def)
      have l: "locking v" using TUnlock tok by (simp add: thread_ok_def)
      show ?thesis
      proof (rule moved [OF _ s'])
        show "sum_ok v s'" by (rule same [of ?y]) (use TUnlock in \<open>simp_all add: s' added_def\<close>)
        show "lock_ok v s'" by (rule lck [of _ ?y]) (use TUnlock own l in \<open>auto simp: s'\<close>)
      qed (use TUnlock tok in \<open>auto simp: thread_ok_def\<close>)
    qed (use TUnlock assms(3) run i incr_inv_exit [OF assms(2)] in \<open>simp add: threadFunc_def\<close>)
  qed (use assms(3) run i in \<open>simp add: threadFunc_def\<close>)
qed

lemma incr_inv_main:
  assumes "incr_inv v args s" "main_step v args r s = Some s'" "fits args"
  shows "incr_inv v args s'"
proof (cases "s' = errExitEN s")
  case True
  with incr_inv_exit [OF assms(1)] show ?thesis by simp
next
  case False
  from assms(1) have iv: "sum_ok v s" "lock_ok v s" "main_ok args s" "length (threads s) \<le> 2"
      "\<forall>t\<in>set (threads s). thread_ok v (loops s) t" by (simp_all add: incr_inv_def)
  have goes: "incr_inv v args (s\<lparr>mainpc := p, shown := x\<rparr>)" if "main_ok args (s\<lparr>mainpc := p, shown := x\<rparr>)" for p x
  proof -
    let ?s = "s\<lparr>mainpc := p, shown := x\<rparr>"
    have "sum_ok v ?s = sum_ok v s" "lock_ok v ?s = lock_ok v s" by (simp_all add: sum_ok_def lock_ok_def)
    with iv that show ?thesis by (simp add: incr_inv_def)
  qed
  show ?thesis
  proof (cases "mainpc s")
    case MArgs
    with assms(2) False obtain n where n: "loops_of args = Inr n" "s' = s\<lparr>loops := n, mainpc := (if needs_init v then MInit else MCreate 0)\<rparr>"
      by (auto simp: main_step_def split: sum.splits)
    have "threads s = []" using iv(3) MArgs by (simp add: main_ok_def)
    moreover have "sum_ok v s' = sum_ok v s" "lock_ok v s' = lock_ok v s" by (simp_all add: n(2) sum_ok_def lock_ok_def)
    ultimately show ?thesis using iv n by (simp add: incr_inv_def main_ok_def)
  next
    case MInit
    with assms(2) False have "s' = s\<lparr>mainpc := MCreate 0, shown := shown s\<rparr>" by (auto simp: main_step_def split: if_splits)
    with goes [where p = "MCreate 0" and x = "shown s"] iv(3) MInit show ?thesis by (simp add: main_ok_def)
  next
    case (MCreate k)
    show ?thesis
    proof (cases "k < 2")
      case True
      let ?n = "\<lparr>t_pc = TTest, t_j = 0, t_loc = 0\<rparr>"
      from True MCreate assms(2) False have s': "s' = s\<lparr>threads := threads s @ [?n], mainpc := MCreate (Suc k)\<rparr>"
        by (auto simp: main_step_def split: if_splits)
      have len: "length (threads s) = k" using iv(3) MCreate by (simp add: main_ok_def)
      have "added ?n = 0" by (simp add: added_def)
      then have "sum_ok v s'" using iv(1) by (auto simp: sum_ok_def s' nth_append less_Suc_eq)
      moreover have "holder s \<noteq> Some (length (threads s))" using iv(2) by (auto simp: lock_ok_def split: if_splits)
      then have "lock_ok v s'" using iv(2) by (auto simp: lock_ok_def s' nth_append less_Suc_eq split: if_splits)
      moreover have "main_ok args s'" "length (threads s') \<le> 2" using iv(3) MCreate True len by (auto simp: main_ok_def s')
      moreover have "0 \<le> loops s"
      proof -
        have "loops_of args = Inr (loops s)" using iv(3) MCreate by (simp add: main_ok_def)
        then have "0 < loops s" using assms(3) by (simp add: fits_def)
        then show ?thesis by simp
      qed
      then have "thread_ok v (loops s) ?n" by (simp add: thread_ok_def)
      with iv(5) have "\<forall>t\<in>set (threads s'). thread_ok v (loops s') t" by (simp add: s')
      ultimately show ?thesis by (simp add: incr_inv_def)
    next
      case no: False
      with MCreate assms(2) have "s' = s\<lparr>mainpc := MJoin 0, shown := shown s\<rparr>" by (auto simp: main_step_def)
      with goes [where p = "MJoin 0" and x = "shown s"] iv(3) MCreate no show ?thesis by (simp add: main_ok_def)
    qed
  next
    case (MJoin k)
    show ?thesis
    proof (cases "k < 2")
      case True
      with MJoin assms(2) False have "s' = s\<lparr>mainpc := MJoin (Suc k), shown := shown s\<rparr>" "t_pc (threads s ! k) = TEnd"
        by (auto simp: main_step_def split: if_splits)
      with goes [where p = "MJoin (Suc k)" and x = "shown s"] iv(3) MJoin True show ?thesis by (auto simp: main_ok_def less_Suc_eq)
    next
      case no: False
      with MJoin assms(2) have "s' = s\<lparr>mainpc := MExit 0, shown := Some (glob s)\<rparr>" by (auto simp: main_step_def)
      moreover have "\<forall>t\<in>set (threads s). t_pc t = TEnd" using iv(3) MJoin no by (auto simp: main_ok_def in_set_conv_nth)
      ultimately show ?thesis using goes [where p = "MExit 0" and x = "Some (glob s)"] iv(3) MJoin by (auto simp: main_ok_def)
    qed
  qed (use assms(2) in \<open>simp_all add: main_step_def\<close>)
qed

section \<open>Progress\<close>

lemma incr_not_stuck:
  assumes "incr_inv v args s" "running s"
  shows "main_step v args 0 s \<noteq> None \<or> (\<exists>i. threadFunc v i 0 s \<noteq> None)"
proof (cases "\<exists>k<2. mainpc s = MJoin k \<and> t_pc (threads s ! k) \<noteq> TEnd")
  case True
  then obtain k where k: "k < 2" "mainpc s = MJoin k" "t_pc (threads s ! k) \<noteq> TEnd" by blast
  from assms(1) k have len: "length (threads s) = 2" and lk: "lock_ok v s" by (simp_all add: incr_inv_def main_ok_def)
  show ?thesis
  proof (cases "holder s")
    case None
    have "threadFunc v k 0 s \<noteq> None"
      using k len assms(2) None by (cases "t_pc (threads s ! k)") (auto simp: threadFunc_def Let_def)
    then show ?thesis by blast
  next
    case (Some i)
    then have l: "locking v" using lk by (auto simp: lock_ok_def split: if_splits)
    with Some lk have i: "i < length (threads s)" by (simp add: lock_ok_def)
    with Some lk l have "t_pc (threads s ! i) \<in> {TLoad, TStore, TUnlock}" by (simp add: lock_ok_def)
    then have "threadFunc v i 0 s \<noteq> None" using i assms(2) by (auto simp: threadFunc_def Let_def)
    then show ?thesis by blast
  qed
next
  case False
  then show ?thesis
    using assms(2) by (cases "mainpc s") (auto simp: main_step_def running_def split: sum.splits)
qed

definition thread_left :: "int \<Rightarrow> ithread \<Rightarrow> int" where
  "thread_left n t =
     (let l = 6 * (n - t_j t) in
      case t_pc t of TTest \<Rightarrow> l + 1 | TLock \<Rightarrow> l | TLoad \<Rightarrow> l - 1 | TStore \<Rightarrow> l - 2 | TUnlock \<Rightarrow> l - 3 | TEnd \<Rightarrow> l)"

definition main_left :: "int \<Rightarrow> mpc \<Rightarrow> int" where
  "main_left n p =
     (case p of
        MArgs \<Rightarrow> 12 * n + 10 | MInit \<Rightarrow> 12 * n + 9 | MCreate k \<Rightarrow> (2 - int k) * (6 * n + 2) + 4 | MJoin k \<Rightarrow> 3 - int k
      | MExit _ \<Rightarrow> 0 | MUndef \<Rightarrow> 0)"

definition loops_asked :: "string list \<Rightarrow> int" where
  "loops_asked args = (case loops_of args of Inr n \<Rightarrow> n | Inl _ \<Rightarrow> 0)"

definition left :: "string list \<Rightarrow> istate \<Rightarrow> int" where
  "left args s =
     (if running s then sum_list (map (thread_left (loops_asked args)) (threads s)) + main_left (loops_asked args) (mainpc s) else 0)"

definition incr_ok :: "variant \<Rightarrow> string list \<Rightarrow> istate \<Rightarrow> bool" where
  "incr_ok v args s \<longleftrightarrow> fits args \<and> incr_inv v args s"

lemma loops_asked_eq:
  assumes "incr_ok v args s" "running s" "mainpc s \<noteq> MArgs"
  shows "loops_asked args = loops s"
  using assms by (auto simp: incr_ok_def incr_inv_def main_ok_def loops_asked_def running_def)

lemma incr_left_positive:
  assumes "incr_ok v args s" "running s"
  shows "0 < left args s"
proof -
  let ?n = "loops_asked args"
  have n: "0 < ?n" using assms(1) by (auto simp: incr_ok_def fits_def loops_asked_def)
  have "0 \<le> sum_list (map (thread_left ?n) (threads s))"
  proof (cases "mainpc s = MArgs")
    case True
    then show ?thesis using assms(1) by (simp add: incr_ok_def incr_inv_def main_ok_def)
  next
    case False
    have "0 \<le> thread_left ?n t" if "t \<in> set (threads s)" for t
      using that assms(1) loops_asked_eq [OF assms False]
      by (cases "t_pc t") (auto simp: incr_ok_def incr_inv_def thread_ok_def thread_left_def Let_def)
    then show ?thesis by (intro sum_list_nonneg) auto
  qed
  moreover have "0 < main_left ?n (mainpc s)"
  proof (cases "mainpc s")
    case (MCreate k)
    with assms(1) n have "0 \<le> (2 - int k) * (6 * ?n + 2)" by (intro mult_nonneg_nonneg) (simp_all add: incr_ok_def incr_inv_def main_ok_def)
    with MCreate show ?thesis by (simp add: main_left_def)
  qed (use assms n in \<open>simp_all add: main_left_def running_def incr_ok_def incr_inv_def main_ok_def\<close>)
  ultimately show ?thesis using assms(2) by (simp add: left_def)
qed

lemma incr_left_main:
  assumes "incr_ok v args s" "main_step v args r s = Some s'"
  shows "left args s' < left args s"
proof -
  have run: "running s" using assms(2) by (auto simp: main_step_def running_def split: mpc.splits)
  show ?thesis
  proof (cases "running s'")
    case False
    with incr_left_positive [OF assms(1) run] show ?thesis by (simp add: left_def)
  next
    case True
    then have ne: "s' \<noteq> errExitEN s" by (auto simp: errExitEN_def running_def)
    show ?thesis
    proof (cases "mainpc s")
      case (MCreate k)
      have k: "k \<le> 2" using MCreate assms(1) by (simp add: incr_ok_def incr_inv_def main_ok_def)
      show ?thesis
      proof (cases "k < 2")
        case yes: True
        with MCreate assms(2) ne have "s' = s\<lparr>threads := threads s @ [\<lparr>t_pc = TTest, t_j = 0, t_loc = 0\<rparr>], mainpc := MCreate (Suc k)\<rparr>"
          by (auto simp: main_step_def split: if_splits)
        with MCreate run True show ?thesis by (simp add: left_def main_left_def thread_left_def algebra_simps)
      next
        case False
        with k have "k = 2" by simp
        moreover have "s' = s\<lparr>mainpc := MJoin 0\<rparr>" using MCreate False assms(2) by (simp add: main_step_def)
        ultimately show ?thesis using MCreate run True by (simp add: left_def main_left_def)
      qed
    next
      case MArgs
      with assms(2) ne obtain n where "s' = s\<lparr>loops := n, mainpc := (if needs_init v then MInit else MCreate 0)\<rparr>"
        by (auto simp: main_step_def split: sum.splits)
      with MArgs run True show ?thesis by (simp add: left_def main_left_def)
    next
      case MInit
      with assms(2) ne have "s' = s\<lparr>mainpc := MCreate 0\<rparr>" by (auto simp: main_step_def split: if_splits)
      with MInit run True show ?thesis by (simp add: left_def main_left_def)
    next
      case (MJoin k)
      with assms(2) ne True have "s' = s\<lparr>mainpc := MJoin (Suc k)\<rparr>"
        by (auto simp: main_step_def running_def split: if_splits)
      with MJoin run True show ?thesis by (simp add: left_def main_left_def)
    qed (use assms(2) in \<open>simp_all add: main_step_def\<close>)
  qed
qed

lemma threadFunc_moves:
  assumes "threadFunc v i r s = Some s'" "running s'"
  shows "\<exists>y. threads s' = (threads s)[i := y] \<and> mainpc s' = mainpc s \<and> thread_left n y < thread_left n (threads s ! i)"
proof -
  let ?t = "threads s ! i"
  from assms(1) have run: "running s" and i: "i < length (threads s)" by (auto simp: threadFunc_def split: if_splits)
  have ne: "s' \<noteq> errExitEN s" "s' \<noteq> s\<lparr>mainpc := MUndef\<rparr>" using assms(2) by (auto simp: errExitEN_def running_def)
  note simps = threadFunc_def set_thread_def thread_left_def Let_def
  show ?thesis
  proof (cases "t_pc ?t")
    case TTest
    show ?thesis
      by (rule exI [of _ "?t\<lparr>t_pc := (if t_j ?t < loops s then if locking v then TLock else TLoad else TEnd)\<rparr>"])
        (use TTest assms(1) run i in \<open>auto simp: simps\<close>)
  next
    case TLock
    show ?thesis
      by (rule exI [of _ "?t\<lparr>t_pc := TLoad\<rparr>"]) (use TLock assms(1) run i ne in \<open>auto simp: simps split: if_splits\<close>)
  next
    case TLoad
    show ?thesis
      by (rule exI [of _ "?t\<lparr>t_pc := TStore, t_loc := glob s\<rparr>"]) (use TLoad assms(1) run i in \<open>auto simp: simps\<close>)
  next
    case TStore
    show ?thesis
      by (rule exI [of _ "if locking v then ?t\<lparr>t_loc := t_loc ?t + 1, t_pc := TUnlock\<rparr> else ?t\<lparr>t_loc := t_loc ?t + 1, t_pc := TTest, t_j := t_j ?t + 1\<rparr>"])
        (use TStore assms(1) run i ne in \<open>auto simp: simps split: if_splits\<close>)
  next
    case TUnlock
    show ?thesis
      by (rule exI [of _ "?t\<lparr>t_pc := TTest, t_j := t_j ?t + 1\<rparr>"]) (use TUnlock assms(1) run i ne in \<open>auto simp: simps split: if_splits\<close>)
  qed (use assms(1) run i in \<open>simp add: threadFunc_def\<close>)
qed

lemma incr_left_thread:
  assumes "incr_ok v args s" "threadFunc v i r s = Some s'"
  shows "left args s' < left args s"
proof -
  from assms(2) have run: "running s" and i: "i < length (threads s)" by (auto simp: threadFunc_def split: if_splits)
  show ?thesis
  proof (cases "running s'")
    case False
    with incr_left_positive [OF assms(1) run] show ?thesis by (simp add: left_def)
  next
    case True
    from threadFunc_moves [OF assms(2) True, of "loops_asked args"] obtain y where
      "threads s' = (threads s)[i := y]" "mainpc s' = mainpc s" "thread_left (loops_asked args) y < thread_left (loops_asked args) (threads s ! i)"
      by blast
    with run True i show ?thesis by (simp add: left_def sum_list_update_int)
  qed
qed

lemma incr_ok_step: "incr_ok v args s \<Longrightarrow> step v args e s = Some s' \<Longrightarrow> incr_ok v args s'"
  by (cases e) (auto simp: incr_ok_def intro: incr_inv_main incr_inv_thread)

lemma incr_left_step: "incr_ok v args s \<Longrightarrow> step v args e s = Some s' \<Longrightarrow> left args s' + 1 \<le> left args s + 0"
  by (cases e) (auto dest: incr_left_main incr_left_thread)

interpretation incrsteps: bounded_steps "step v args" "incr_ok v args" "left args" "\<lambda>e. 0" for v args
  by unfold_locales (rule incr_ok_step, assumption+, rule incr_left_step)

section \<open>Property\<close>

fun failing :: "event \<Rightarrow> bool" where
  "failing (Main r) = (r \<noteq> 0)" | "failing (Thread i r) = (r \<noteq> 0)"

lemma incr_failing_step:
  assumes "incr_ok v args s" "step v args e s = Some s'" "mainpc s' = MExit 1" "mainpc s \<noteq> MExit 1"
  shows "failing e"
proof (cases e)
  case (Main r)
  with assms show ?thesis
    by (cases "mainpc s") (auto simp: main_step_def incr_ok_def fits_def split: if_splits)
next
  case (Thread i r)
  with assms(2-4) show ?thesis
    by (cases "t_pc (threads s ! i)") (auto simp: threadFunc_def set_thread_def Let_def split: if_splits)
qed

lemma incr_final:
  assumes "incr_ok v args s" "mainpc s = MExit 0"
  shows "\<exists>g. shown s = Some g \<and> 1 \<le> g \<and> g \<le> 2 * loops_asked args \<and> (locking v \<longrightarrow> g = 2 * loops_asked args)"
proof -
  from assms have iv: "sum_ok v s" "main_ok args s" "\<forall>t\<in>set (threads s). thread_ok v (loops s) t" "fits args"
    by (simp_all add: incr_ok_def incr_inv_def)
  from iv(2) assms(2) have m: "loops_of args = Inr (loops s)" "length (threads s) = 2" "\<forall>t\<in>set (threads s). t_pc t = TEnd"
    "shown s = Some (glob s)" by (auto simp: main_ok_def)
  have n: "loops_asked args = loops s" "0 < loops s" using m(1) iv(4) by (auto simp: loops_asked_def fits_def)
  from m(2) obtain t u where tu: "threads s = [t, u]" by (auto simp: numeral_2_eq_2 length_Suc_conv)
  have "added x = loops s" if "x \<in> set (threads s)" for x
  proof -
    from that iv(3) m(3) have "thread_ok v (loops s) x" "t_pc x = TEnd" by blast+
    then show ?thesis by (simp add: added_def thread_ok_def)
  qed
  then have "added t = loops s" "added u = loops s" by (simp_all add: tu)
  then have "sum_list (map added (threads s)) = 2 * loops s" by (simp add: tu)
  with iv(1) n m(4) show ?thesis by (auto simp: sum_ok_def)
qed

text \<open>
  C21. Two threads increment one variable a given number of times each, under every schedule: with a
  mutex, a read-write lock, a spin lock or a semaphore the value shown at the end is exactly twice
  that number, and without protection it is between 1 and that.  The programs take a bounded
  number of steps and cannot get stuck; they end with failure only after a call failed, and if twice
  the number fits an \<open>int\<close> their behaviour is defined.
\<close>

theorem thread_incr_correct:
  assumes "fits args" and "runs (prog args) es start = Some s"
    and "(prog, safe) \<in> {(thread_incr, False), (thread_incr_mutex, True), (thread_incr_rwlock, True), (thread_incr_spinlock, True),
      (thread_incr_psem, True)}"
  shows "int (length es) \<le> 12 * loops_asked args + 10 \<and>
    ((\<exists>e. \<not> failing e \<and> prog args e s \<noteq> None) \<or>
     mainpc s = MExit 0 \<and> (\<exists>g. shown s = Some g \<and> 1 \<le> g \<and> g \<le> 2 * loops_asked args \<and> (safe \<longrightarrow> g = 2 * loops_asked args)) \<or>
     mainpc s = MExit 1 \<and> (\<exists>e\<in>set es. failing e))"
proof -
  from assms(3) obtain v where v: "prog = step v" "safe = locking v" by (auto simp: program_defs locking_def)
  note run = assms(2) [unfolded v]
  have ok0: "incr_ok v args start" using assms(1) incr_inv_start by (simp add: incr_ok_def)
  note ok = incrsteps.runs_invar [OF run ok0]
  have "0 \<le> left args s" using incr_left_positive [OF ok] by (cases "running s") (auto simp: left_def)
  moreover have "left args start = 12 * loops_asked args + 10" by (simp add: left_def start_def running_def main_left_def)
  ultimately have "int (length es) \<le> 12 * loops_asked args + 10" using incrsteps.runs_length [OF run ok0] by simp
  moreover have "mainpc s = MExit 0 \<or> mainpc s = MExit 1" if "\<not> running s"
    using ok that by (auto simp: incr_ok_def incr_inv_def main_ok_def running_def split: mpc.splits)
  moreover have "\<exists>e\<in>set es. failing e" if "mainpc s = MExit 1"
    by (rule incrsteps.runs_enters_invar [OF run ok0, of "\<lambda>s. mainpc s = MExit 1"])
      (use that incr_failing_step in \<open>auto simp: start_def\<close>)
  moreover have "\<exists>e. \<not> failing e \<and> prog args e s \<noteq> None" if "running s"
    using incr_not_stuck [of v args s] ok that unfolding v incr_ok_def by (metis failing.simps step.simps)
  ultimately show ?thesis using incr_final [OF ok] unfolding v(2) by blast
qed

lemma one_loop: "loops_of [''1''] = Inr 1"
proof -
  have "getInt (Some ''1'') GN_GT_0 (Some ''num-loops'') = Inr 1" by code_simp
  then show ?thesis by (simp add: loops_of_def)
qed

definition example_schedule :: "event list" where
  "example_schedule = replicate 4 (Main 0) @ replicate 5 (Thread 0 0) @ [Thread 0 0] @ replicate 6 (Thread 1 0) @ replicate 3 (Main 0)"

theorem thread_incr_correct_witness:
  "\<exists>s. runs (thread_incr_mutex [''1'']) example_schedule start = Some s \<and> mainpc s = MExit 0 \<and> shown s = Some 2"
proof -
  have f: "fits [''1'']" by (simp add: fits_def one_loop INT_MAX_def)
  have "\<exists>s. runs (thread_incr_mutex [''1'']) example_schedule start = Some s \<and> mainpc s = MExit 0"
    by (simp add: example_schedule_def thread_incr_mutex_def numeral_eq_Suc main_step_def threadFunc_def set_thread_def running_def start_def one_loop
        locking_def needs_init_def INT_MAX_def Let_def)
  then obtain s where s: "runs (thread_incr_mutex [''1'']) example_schedule start = Some s" "mainpc s = MExit 0" by blast
  have "thread_incr_mutex [''1''] e s = None" for e
    using s(2) by (cases e) (simp_all add: thread_incr_mutex_def main_step_def threadFunc_def running_def)
  with thread_incr_correct [of "[''1'']" thread_incr_mutex example_schedule s True, OF f s(1)] s have "shown s = Some 2" by (auto simp: loops_asked_def one_loop)
  with s show ?thesis by blast
qed

text \<open>Without a lock an increment can be lost.\<close>

lemma lost_update:
  "\<exists>es s. runs (thread_incr [''1'']) es start = Some s \<and> mainpc s = MExit 0 \<and> shown s = Some 1"
  by (rule exI [of _ "replicate 4 (Main 0) @ [Thread 0 0, Thread 0 0, Thread 1 0, Thread 1 0, Thread 0 0, Thread 1 0, Thread 0 0, Thread 1 0] @
      replicate 3 (Main 0)"])
    (simp add: thread_incr_def numeral_eq_Suc main_step_def threadFunc_def set_thread_def running_def start_def one_loop locking_def needs_init_def
      INT_MAX_def Let_def)

end
