(* ===== verification/Change_Case.thy ===== *)
theory Change_Case
  imports Schedules Datagrams
begin

text \<open>
  \<open>src/tlpi-book/pipes/change_case.c\<close>: a parent sends its input to a child through one pipe and receives it in
  upper case through another.  Both processes are interleaved steps over the two pipes and over
  who holds which end of them, since the end of a pipe is reached, or a write to it is fatal, only when all
  processes have closed the other end.  A step carries the result of its system call (a value other
  than 0 is its failure) and, for the standard input, how many bytes the call delivers.
\<close>

definition BUF_SIZE :: nat where "BUF_SIZE = 100"

text \<open>The capacity of a pipe on Linux.  A write of at most \<open>PIPE_BUF\<close> bytes is not divided.\<close>

definition PIPE_CAP :: nat where "PIPE_CAP = 65536"

datatype ppc = PPipe1 | PPipe2 | PFork | PClose1 | PClose2 | PRead | PWrite string | PBack | PPrint string | PExit int | PKilled
datatype cpc = CNone | CClose1 | CClose2 | CRead | CWrite string | CExit int | CKilled

text \<open>Which ends of the pipes \<open>outbound\<close> and \<open>inbound\<close> a process has open: for reading and for writing.\<close>

record ends =
  out_r :: bool
  out_w :: bool
  in_r :: bool
  in_w :: bool

definition no_ends :: ends where
  "no_ends = \<lparr>out_r = False, out_w = False, in_r = False, in_w = False\<rparr>"

record ccs =
  parent :: ppc
  child :: cpc
  p_ends :: ends
  c_ends :: ends
  stdin :: string
  outbound :: string
  inbound :: string
  stdout :: string

datatype event = Parent int nat | Child int

definition start :: "string \<Rightarrow> ccs" where
  "start input = \<lparr>parent = PPipe1, child = CNone, p_ends = no_ends, c_ends = no_ends, stdin = input, outbound = [], inbound = [], stdout = []\<rparr>"

text \<open>The end of a process closes its descriptors.\<close>

definition p_leave :: "ppc \<Rightarrow> ccs \<Rightarrow> ccs" where
  "p_leave p s = s\<lparr>parent := p, p_ends := no_ends\<rparr>"

definition c_leave :: "cpc \<Rightarrow> ccs \<Rightarrow> ccs" where
  "c_leave c s = s\<lparr>child := c, c_ends := no_ends\<rparr>"

definition parent_step :: "int \<Rightarrow> nat \<Rightarrow> ccs \<Rightarrow> ccs option" where
  "parent_step r k s =
     (case parent s of
        PPipe1 \<Rightarrow> Some (if r \<noteq> 0 then p_leave (PExit 1) s
          else s\<lparr>parent := PPipe2, p_ends := (p_ends s)\<lparr>out_r := True, out_w := True\<rparr>\<rparr>)
      | PPipe2 \<Rightarrow> Some (if r \<noteq> 0 then p_leave (PExit 1) s
          else s\<lparr>parent := PFork, p_ends := (p_ends s)\<lparr>in_r := True, in_w := True\<rparr>\<rparr>)
      | PFork \<Rightarrow> Some (if r \<noteq> 0 then p_leave (PExit 1) s else s\<lparr>parent := PClose1, child := CClose1, c_ends := p_ends s\<rparr>)
      | PClose1 \<Rightarrow> Some (if r \<noteq> 0 then p_leave (PExit 1) s else s\<lparr>parent := PClose2, p_ends := (p_ends s)\<lparr>out_r := False\<rparr>\<rparr>)
      | PClose2 \<Rightarrow> Some (if r \<noteq> 0 then p_leave (PExit 1) s else s\<lparr>parent := PRead, p_ends := (p_ends s)\<lparr>in_w := False\<rparr>\<rparr>)
      | PRead \<Rightarrow>
          if r \<noteq> 0 then Some (p_leave (PExit 1) s)
          else if stdin s = [] then Some (p_leave (PExit 0) s)
          else if 0 < k \<and> k \<le> BUF_SIZE \<and> k \<le> length (stdin s)
          then Some (s\<lparr>parent := PWrite (take k (stdin s)), stdin := drop k (stdin s)\<rparr>)
          else None
      | PWrite buf \<Rightarrow>
          if \<not> (out_r (p_ends s) \<or> out_r (c_ends s)) then Some (p_leave PKilled s)
          else if r \<noteq> 0 then Some (p_leave (PExit 1) s)
          else if length (outbound s) + length buf \<le> PIPE_CAP then Some (s\<lparr>parent := PBack, outbound := outbound s @ buf\<rparr>)
          else None
      | PBack \<Rightarrow>
          if r \<noteq> 0 then Some (p_leave (PExit 1) s)
          else if inbound s \<noteq> [] then Some (s\<lparr>parent := PPrint (take BUF_SIZE (inbound s)), inbound := drop BUF_SIZE (inbound s)\<rparr>)
          else if \<not> (in_w (p_ends s) \<or> in_w (c_ends s)) then Some (s\<lparr>parent := PRead\<rparr>)
          else None
      | PPrint buf \<Rightarrow> Some (if r \<noteq> 0 then p_leave (PExit 1) s else s\<lparr>parent := PRead, stdout := stdout s @ buf\<rparr>)
      | PExit n \<Rightarrow> None
      | PKilled \<Rightarrow> None)"

definition child_step :: "int \<Rightarrow> ccs \<Rightarrow> ccs option" where
  "child_step r s =
     (case child s of
        CNone \<Rightarrow> None
      | CClose1 \<Rightarrow> Some (if r \<noteq> 0 then c_leave (CExit 1) s else s\<lparr>child := CClose2, c_ends := (c_ends s)\<lparr>out_w := False\<rparr>\<rparr>)
      | CClose2 \<Rightarrow> Some (if r \<noteq> 0 then c_leave (CExit 1) s else s\<lparr>child := CRead, c_ends := (c_ends s)\<lparr>in_r := False\<rparr>\<rparr>)
      | CRead \<Rightarrow>
          if r \<noteq> 0 then Some (c_leave (CExit 1) s)
          else if outbound s \<noteq> [] then
            Some (s\<lparr>child := CWrite (upper_loop 0 (take BUF_SIZE (outbound s))), outbound := drop BUF_SIZE (outbound s)\<rparr>)
          else if \<not> (out_w (p_ends s) \<or> out_w (c_ends s)) then Some (c_leave (CExit 0) s)
          else None
      | CWrite buf \<Rightarrow>
          if \<not> (in_r (p_ends s) \<or> in_r (c_ends s)) then Some (c_leave CKilled s)
          else if r \<noteq> 0 then Some (c_leave (CExit 1) s)
          else if length (inbound s) + length buf \<le> PIPE_CAP then Some (s\<lparr>child := CRead, inbound := inbound s @ buf\<rparr>)
          else None
      | CExit n \<Rightarrow> None
      | CKilled \<Rightarrow> None)"

fun step :: "event \<Rightarrow> ccs \<Rightarrow> ccs option" where
  "step (Parent r k) s = parent_step r k s"
| "step (Child r) s = child_step r s"

section \<open>Invariant\<close>

text \<open>The ends that are open at each point.\<close>

definition p_ends_at :: "ppc \<Rightarrow> ends" where
  "p_ends_at p =
     (case p of
        PPipe1 \<Rightarrow> no_ends | PPipe2 \<Rightarrow> no_ends\<lparr>out_r := True, out_w := True\<rparr>
      | PFork \<Rightarrow> \<lparr>out_r = True, out_w = True, in_r = True, in_w = True\<rparr> | PClose1 \<Rightarrow> \<lparr>out_r = True, out_w = True, in_r = True, in_w = True\<rparr>
      | PClose2 \<Rightarrow> \<lparr>out_r = False, out_w = True, in_r = True, in_w = True\<rparr>
      | PExit n \<Rightarrow> no_ends | PKilled \<Rightarrow> no_ends | _ \<Rightarrow> \<lparr>out_r = False, out_w = True, in_r = True, in_w = False\<rparr>)"

definition c_ends_at :: "cpc \<Rightarrow> ends" where
  "c_ends_at c =
     (case c of
        CNone \<Rightarrow> no_ends | CClose1 \<Rightarrow> \<lparr>out_r = True, out_w = True, in_r = True, in_w = True\<rparr>
      | CClose2 \<Rightarrow> \<lparr>out_r = True, out_w = False, in_r = True, in_w = True\<rparr>
      | CExit n \<Rightarrow> no_ends | CKilled \<Rightarrow> no_ends | _ \<Rightarrow> \<lparr>out_r = True, out_w = False, in_r = False, in_w = True\<rparr>)"

definition ends_ok :: "ccs \<Rightarrow> bool" where
  "ends_ok s \<longleftrightarrow> p_ends s = p_ends_at (parent s) \<and> c_ends s = c_ends_at (child s) \<and>
     (child s = CNone \<longrightarrow> parent s \<in> {PPipe1, PPipe2, PFork, PExit 1}) \<and> (parent s \<in> {PPipe1, PPipe2, PFork} \<longrightarrow> child s = CNone)"

text \<open>One buffer is on its way at a time.\<close>

definition round_trip :: "string \<Rightarrow> ccs \<Rightarrow> bool" where
  "round_trip b s \<longleftrightarrow> b \<noteq> [] \<and> length b \<le> BUF_SIZE \<and>
     (outbound s = b \<and> inbound s = [] \<and> child s \<in> {CClose1, CClose2, CRead} \<or>
      outbound s = [] \<and> inbound s = [] \<and> child s = CWrite (map toupper b) \<or>
      outbound s = [] \<and> inbound s = map toupper b \<and> child s = CRead)"

definition quiet :: "ccs \<Rightarrow> bool" where
  "quiet s \<longleftrightarrow> outbound s = [] \<and> inbound s = []"

definition in_step :: "string \<Rightarrow> ccs \<Rightarrow> bool" where
  "in_step input s \<longleftrightarrow>
     (case parent s of
        PWrite b \<Rightarrow> quiet s \<and> b \<noteq> [] \<and> length b \<le> BUF_SIZE \<and> child s \<in> {CClose1, CClose2, CRead} \<and> map toupper input = stdout s @ map toupper (b @ stdin s)
      | PBack \<Rightarrow> \<exists>b. round_trip b s \<and> map toupper input = stdout s @ map toupper (b @ stdin s)
      | PPrint b \<Rightarrow> quiet s \<and> child s = CRead \<and> map toupper input = stdout s @ b @ map toupper (stdin s)
      | PExit n \<Rightarrow> n = 0 \<and> quiet s \<and> stdin s = [] \<and> child s \<in> {CClose1, CClose2, CRead, CExit 0} \<and> map toupper input = stdout s
      | PKilled \<Rightarrow> False
      | _ \<Rightarrow> quiet s \<and> child s \<in> {CNone, CClose1, CClose2, CRead} \<and> map toupper input = stdout s @ map toupper (stdin s))"

text \<open>A process has failed: what is still printed is what was on its way to the parent.\<close>

definition printing :: "ppc \<Rightarrow> string" where
  "printing p = (case p of PPrint b \<Rightarrow> b | _ \<Rightarrow> [])"

definition failed :: "ccs \<Rightarrow> bool" where
  "failed s \<longleftrightarrow> parent s \<in> {PExit 1, PKilled} \<or> child s \<in> {CExit 1, CKilled}"

definition after_failure :: "string \<Rightarrow> ccs \<Rightarrow> bool" where
  "after_failure input s \<longleftrightarrow>
     parent s \<in> {PExit 1, PKilled} \<and> (\<exists>z. stdout s @ z = map toupper input) \<or>
     child s \<in> {CExit 1, CKilled} \<and> (\<exists>z. stdout s @ printing (parent s) @ inbound s @ z = map toupper input) \<and> parent s \<notin> {PPipe1, PPipe2, PFork}"

definition cc_inv :: "string \<Rightarrow> ccs \<Rightarrow> bool" where
  "cc_inv input s \<longleftrightarrow> ends_ok s \<and> (in_step input s \<or> after_failure input s)"

lemma cc_inv_start: "cc_inv input (start input)"
  by (simp add: cc_inv_def start_def ends_ok_def in_step_def quiet_def p_ends_at_def c_ends_at_def no_ends_def)

lemma in_step_prefix: "in_step input s \<Longrightarrow> \<exists>z. stdout s @ printing (parent s) @ z = map toupper input"
  by (auto simp: in_step_def printing_def split: ppc.splits)

lemma in_step_child_fails:
  assumes "in_step input s"
  shows "\<exists>z. stdout s @ printing (parent s) @ inbound s @ z = map toupper input"
proof (cases "parent s")
  case PBack
  with assms obtain b where b: "round_trip b s" "map toupper input = stdout s @ map toupper (b @ stdin s)" by (auto simp: in_step_def)
  then have "inbound s = [] \<or> inbound s = map toupper b" by (auto simp: round_trip_def)
  with b(2) PBack show ?thesis by (auto simp: printing_def)
qed (use assms in \<open>auto simp: in_step_def printing_def quiet_def\<close>)

lemma cc_prefix: "cc_inv input s \<Longrightarrow> \<exists>z. stdout s @ z = map toupper input"
  using in_step_prefix [of input s] by (auto simp: cc_inv_def after_failure_def)

lemma ends_parent:
  assumes "ends_ok s" "parent_step r k s = Some s'"
  shows "ends_ok s'"
proof (cases "parent s")
  case PRead
  with assms show ?thesis
    by (auto simp: parent_step_def p_leave_def ends_ok_def p_ends_at_def no_ends_def split: if_splits)
next
  case (PWrite b)
  with assms show ?thesis
    by (auto simp: parent_step_def p_leave_def ends_ok_def p_ends_at_def no_ends_def split: if_splits)
next
  case PBack
  with assms show ?thesis
    by (auto simp: parent_step_def p_leave_def ends_ok_def p_ends_at_def no_ends_def split: if_splits)
qed (use assms in \<open>auto simp: parent_step_def p_leave_def ends_ok_def p_ends_at_def c_ends_at_def no_ends_def split: if_splits\<close>)

lemma ends_child:
  assumes "ends_ok s" "child_step r s = Some s'"
  shows "ends_ok s'"
  using assms by (cases "child s") (auto simp: child_step_def c_leave_def ends_ok_def c_ends_at_def no_ends_def split: if_splits)

text \<open>A failure of the parent, or of the child.\<close>

lemma parent_fails: "cc_inv input s \<Longrightarrow> p \<in> {PExit 1, PKilled} \<Longrightarrow> after_failure input (p_leave p s)"
  using cc_prefix [of input s] by (auto simp: after_failure_def p_leave_def)

lemma child_fails: "in_step input s \<Longrightarrow> child s \<noteq> CNone \<Longrightarrow> ends_ok s \<Longrightarrow> c \<in> {CExit 1, CKilled} \<Longrightarrow> after_failure input (c_leave c s)"
  using in_step_child_fails [of input s] by (auto simp: after_failure_def c_leave_def ends_ok_def)

lemma in_step_parent:
  assumes "ends_ok s" "in_step input s" "parent_step r k s = Some s'" "s' \<noteq> p_leave (PExit 1) s" "s' \<noteq> p_leave PKilled s"
  shows "in_step input s'"
proof (cases "parent s")
  case PRead
  with assms(3,4) consider "stdin s = []" "s' = p_leave (PExit 0) s"
    | "0 < k" "k \<le> BUF_SIZE" "k \<le> length (stdin s)" "s' = s\<lparr>parent := PWrite (take k (stdin s)), stdin := drop k (stdin s)\<rparr>"
    by (auto simp: parent_step_def split: if_splits)
  then show ?thesis
  proof cases
    case 1
    with PRead assms(1,2) show ?thesis by (auto simp: in_step_def p_leave_def quiet_def ends_ok_def)
  next
    case 2
    have "map toupper (take k (stdin s)) @ map toupper (drop k (stdin s)) = map toupper (stdin s)"
      by (simp add: map_append [symmetric] del: map_append)
    with 2 PRead assms(1,2) show ?thesis by (auto simp: in_step_def quiet_def ends_ok_def)
  qed
next
  case (PWrite b)
  with assms(3,4,5) have "s' = s\<lparr>parent := PBack, outbound := outbound s @ b\<rparr>" by (auto simp: parent_step_def split: if_splits)
  with PWrite assms(2) show ?thesis by (auto simp: in_step_def quiet_def round_trip_def intro!: exI [of _ b])
next
  case PBack
  with assms(2) obtain b where b: "round_trip b s" "map toupper input = stdout s @ map toupper (b @ stdin s)" by (auto simp: in_step_def)
  show ?thesis
  proof (cases "inbound s = []")
    case True
    with b(1) have "in_w (c_ends s)" using assms(1) by (auto simp: round_trip_def ends_ok_def c_ends_at_def)
    with PBack True assms(3,4) show ?thesis by (auto simp: parent_step_def split: if_splits)
  next
    case False
    with b(1) have "inbound s = map toupper b" "outbound s = []" "child s = CRead" "length b \<le> BUF_SIZE" by (auto simp: round_trip_def)
    moreover have "s' = s\<lparr>parent := PPrint (take BUF_SIZE (inbound s)), inbound := drop BUF_SIZE (inbound s)\<rparr>"
      using PBack False assms(3,4) by (auto simp: parent_step_def split: if_splits)
    ultimately show ?thesis using b(2) by (simp add: in_step_def quiet_def)
  qed
qed (use assms in \<open>auto simp: parent_step_def in_step_def quiet_def ends_ok_def split: if_splits\<close>)

lemma take_drop_append: "take n xs @ drop n xs @ z = xs @ z"
  by (metis append.assoc append_take_drop_id)

lemma cc_inv_parent:
  assumes "cc_inv input s" "parent_step r k s = Some s'"
  shows "cc_inv input s'"
proof (cases "s' = p_leave (PExit 1) s \<or> s' = p_leave PKilled s")
  case True
  with parent_fails [OF assms(1)] ends_parent [of s r k s'] assms show ?thesis by (auto simp: cc_inv_def)
next
  case False
  have e: "ends_ok s" "ends_ok s'" using assms ends_parent [of s r k s'] by (simp_all add: cc_inv_def)
  show ?thesis
  proof (cases "in_step input s")
    case True
    with in_step_parent [OF e(1) True assms(2)] False e(2) show ?thesis by (simp add: cc_inv_def)
  next
    case no: False
    with assms have "after_failure input s" "parent s \<notin> {PExit 1, PKilled}" by (auto simp: cc_inv_def parent_step_def)
    then obtain z where c: "child s \<in> {CExit 1, CKilled}" "stdout s @ printing (parent s) @ inbound s @ z = map toupper input"
      "parent s \<notin> {PPipe1, PPipe2, PFork}" by (auto simp: after_failure_def)
    have dead: "\<not> out_r (c_ends s)" using e(1) c(1) by (auto simp: ends_ok_def c_ends_at_def no_ends_def)
    have "after_failure input s'"
    proof (cases "parent s")
      case (PWrite b)
      then have "\<not> out_r (p_ends s)" using e(1) by (simp add: ends_ok_def p_ends_at_def)
      with PWrite dead assms(2) False show ?thesis by (simp add: parent_step_def)
    next
      case PRead
      with assms(2) False c show ?thesis by (auto simp: parent_step_def after_failure_def printing_def p_leave_def split: if_splits)
    next
      case PBack
      with assms(2) False c(2) have "stdout s' @ printing (parent s') @ inbound s' @ z = map toupper input" "parent s' \<notin> {PPipe1, PPipe2, PFork}"
          "child s' = child s"
        by (auto simp: parent_step_def printing_def take_drop_append split: if_splits)
      with c(1) show ?thesis by (auto simp: after_failure_def)
    next
      case (PPrint b)
      with assms(2) False c show ?thesis by (auto simp: parent_step_def after_failure_def printing_def split: if_splits)
    next
      case PClose1
      with assms(2) False c show ?thesis by (auto simp: parent_step_def after_failure_def printing_def split: if_splits)
    next
      case PClose2
      with assms(2) False c show ?thesis by (auto simp: parent_step_def after_failure_def printing_def split: if_splits)
    qed (use assms(2) c(3) in \<open>auto simp: parent_step_def\<close>)
    with e(2) show ?thesis by (simp add: cc_inv_def)
  qed
qed

lemma in_step_closes:
  assumes "in_step input s" "child s \<in> {CClose1, CClose2}" "c \<in> {CClose2, CRead}"
  shows "in_step input (s\<lparr>child := c, c_ends := x\<rparr>)"
proof (cases "parent s")
  case PBack
  with assms obtain b where b: "round_trip b s" "map toupper input = stdout s @ map toupper (b @ stdin s)" by (auto simp: in_step_def)
  then have "round_trip b (s\<lparr>child := c, c_ends := x\<rparr>)" using assms(2,3) by (auto simp: round_trip_def)
  with b(2) PBack show ?thesis by (simp add: in_step_def) blast
qed (use assms in \<open>auto simp: in_step_def quiet_def\<close>)

lemma cc_inv_child:
  assumes "cc_inv input s" "child_step r s = Some s'"
  shows "cc_inv input s'"
proof -
  have e: "ends_ok s" "ends_ok s'" using assms ends_child [of s r s'] by (simp_all add: cc_inv_def)
  have c: "child s \<noteq> CNone" using assms(2) by (auto simp: child_step_def)
  have "in_step input s' \<or> after_failure input s'"
  proof (cases "in_step input s")
    case False
    with assms have "after_failure input s" "child s \<notin> {CExit 1, CKilled}" by (auto simp: cc_inv_def child_step_def)
    then have "parent s \<in> {PExit 1, PKilled}" "\<exists>z. stdout s @ z = map toupper input" by (auto simp: after_failure_def)
    moreover have "parent s' = parent s" "stdout s' = stdout s"
      using assms(2) by (cases "child s"; auto simp: child_step_def c_leave_def split: if_splits)+
    ultimately show ?thesis by (simp add: after_failure_def)
  next
    case True
    note fails = child_fails [OF True c e(1)]
    show ?thesis
    proof (cases "s' = c_leave (CExit 1) s \<or> s' = c_leave CKilled s")
      case True
      with fails show ?thesis by auto
    next
      case no: False
      show ?thesis
      proof (cases "child s")
        case CRead
        show ?thesis
        proof (cases "outbound s = []")
          case yes: True
          with CRead no assms(2) have "\<not> out_w (p_ends s)" "s' = c_leave (CExit 0) s" by (auto simp: child_step_def split: if_splits)
          with True CRead e(1) show ?thesis
            by (auto simp: in_step_def ends_ok_def p_ends_at_def c_leave_def quiet_def split: ppc.splits)
        next
          case False
          with CRead no assms(2) have s': "s' = s\<lparr>child := CWrite (map toupper (take BUF_SIZE (outbound s))), outbound := drop BUF_SIZE (outbound s)\<rparr>"
            by (auto simp: child_step_def split: if_splits)
          from True False have "parent s = PBack" by (auto simp: in_step_def quiet_def split: ppc.splits)
          with True False CRead s' show ?thesis by (auto simp: in_step_def round_trip_def)
        qed
      next
        case (CWrite b)
        with no assms(2) have s': "s' = s\<lparr>child := CRead, inbound := inbound s @ b\<rparr>" by (auto simp: child_step_def split: if_splits)
        from True CWrite have "parent s = PBack" by (auto simp: in_step_def split: ppc.splits)
        with True CWrite s' show ?thesis by (auto simp: in_step_def round_trip_def)
      next
        case CClose1
        with no assms(2) have "s' = s\<lparr>child := CClose2, c_ends := (c_ends s)\<lparr>out_w := False\<rparr>\<rparr>" by (simp add: child_step_def split: if_splits)
        with in_step_closes [OF True] CClose1 show ?thesis by simp
      next
        case CClose2
        with no assms(2) have "s' = s\<lparr>child := CRead, c_ends := (c_ends s)\<lparr>in_r := False\<rparr>\<rparr>" by (simp add: child_step_def split: if_splits)
        with in_step_closes [OF True] CClose2 show ?thesis by simp
      qed (use assms(2) in \<open>simp_all add: child_step_def\<close>)
    qed
  qed
  with e(2) show ?thesis by (simp add: cc_inv_def)
qed

section \<open>Progress\<close>

definition ended :: "ccs \<Rightarrow> bool" where
  "ended s \<longleftrightarrow> (case parent s of PExit n \<Rightarrow> True | PKilled \<Rightarrow> True | _ \<Rightarrow> False) \<and>
     (case child s of CNone \<Rightarrow> True | CExit n \<Rightarrow> True | CKilled \<Rightarrow> True | _ \<Rightarrow> False)"

fun failing :: "event \<Rightarrow> bool" where
  "failing (Parent r k) = (r \<noteq> 0)" | "failing (Child r) = (r \<noteq> 0)"

lemma child_can_go:
  assumes "ends_ok s" "child s \<in> {CClose1, CClose2} \<or> child s = CRead \<and> (outbound s \<noteq> [] \<or> \<not> out_w (p_ends s)) \<or>
    (\<exists>b. child s = CWrite b \<and> (\<not> in_r (p_ends s) \<or> length (inbound s) + length b \<le> PIPE_CAP))"
  shows "child_step 0 s \<noteq> None"
  using assms by (auto simp: child_step_def ends_ok_def c_ends_at_def)

lemma parent_can_go:
  assumes "ends_ok s" "parent s \<notin> {PRead, PBack}" "\<And>b. parent s \<noteq> PWrite b" "\<And>n. parent s \<noteq> PExit n" "parent s \<noteq> PKilled"
  shows "parent_step 0 0 s \<noteq> None"
  using assms by (cases "parent s") (auto simp: parent_step_def)

lemma cc_not_stuck:
  assumes "cc_inv input s" "\<not> ended s"
  shows "\<exists>e. \<not> failing e \<and> step e s \<noteq> None"
proof -
  have e: "ends_ok s" using assms(1) by (simp add: cc_inv_def)
  have p: ?thesis if "parent_step 0 k s \<noteq> None" for k using that by (intro exI [of _ "Parent 0 k"]) simp
  have c: ?thesis if "child_step 0 s \<noteq> None" using that by (intro exI [of _ "Child 0"]) simp
  have gone: "parent s \<in> {PExit n, PKilled} \<Longrightarrow> p_ends s = no_ends" for n using e by (auto simp: ends_ok_def p_ends_at_def)
  consider (parent_ended) n where "parent s \<in> {PExit n, PKilled}" | (reads) "parent s = PRead" | (writes) b where "parent s = PWrite b"
    | (answer) "parent s = PBack" | (other) "parent s \<notin> {PRead, PBack}" "\<And>b. parent s \<noteq> PWrite b" "\<And>n. parent s \<noteq> PExit n" "parent s \<noteq> PKilled"
    by (cases "parent s") auto
  then show ?thesis
  proof cases
    case parent_ended
    note g = gone [OF this]
    show ?thesis
    proof (rule c, rule child_can_go [OF e])
      show "child s \<in> {CClose1, CClose2} \<or> child s = CRead \<and> (outbound s \<noteq> [] \<or> \<not> out_w (p_ends s)) \<or>
          (\<exists>b. child s = CWrite b \<and> (\<not> in_r (p_ends s) \<or> length (inbound s) + length b \<le> PIPE_CAP))"
        using assms(2) parent_ended g by (cases "child s") (auto simp: ended_def no_ends_def)
    qed
  next
    case reads
    then have "parent_step 0 (min BUF_SIZE (length (stdin s))) s \<noteq> None" by (simp add: parent_step_def BUF_SIZE_def)
    then show ?thesis by (rule p)
  next
    case (writes b)
    have "out_r (c_ends s) \<longrightarrow> length (outbound s) + length b \<le> PIPE_CAP"
    proof
      assume r: "out_r (c_ends s)"
      then have "child s \<notin> {CExit 1, CKilled}" using e by (auto simp: ends_ok_def c_ends_at_def no_ends_def)
      with assms(1) writes have "in_step input s" by (auto simp: cc_inv_def after_failure_def)
      with writes show "length (outbound s) + length b \<le> PIPE_CAP" by (simp add: in_step_def quiet_def PIPE_CAP_def BUF_SIZE_def)
    qed
    moreover have "\<not> out_r (p_ends s)" using e writes by (simp add: ends_ok_def p_ends_at_def)
    ultimately have "parent_step 0 0 s \<noteq> None" using writes by (auto simp: parent_step_def)
    then show ?thesis by (rule p)
  next
    case answer
    show ?thesis
    proof (cases "in_step input s")
      case True
      with answer obtain b where b: "round_trip b s" by (auto simp: in_step_def)
      then consider "inbound s \<noteq> []" | "outbound s = b" "b \<noteq> []" "child s \<in> {CClose1, CClose2, CRead}"
        | "inbound s = []" "child s = CWrite (map toupper b)" "length b \<le> BUF_SIZE" by (auto simp: round_trip_def)
      then show ?thesis
      proof cases
        case 1
        with answer show ?thesis by (intro p [of 0]) (simp add: parent_step_def)
      next
        case 2
        then show ?thesis by (intro c child_can_go [OF e]) auto
      next
        case 3
        then show ?thesis by (intro c child_can_go [OF e]) (simp add: PIPE_CAP_def BUF_SIZE_def)
      qed
    next
      case False
      with assms(1) answer have "child s \<in> {CExit 1, CKilled}" by (auto simp: cc_inv_def after_failure_def)
      then have "\<not> in_w (c_ends s)" "\<not> in_w (p_ends s)" using e answer by (auto simp: ends_ok_def c_ends_at_def p_ends_at_def no_ends_def)
      with answer show ?thesis by (intro p [of 0]) (simp add: parent_step_def)
    qed
  next
    case other
    from parent_can_go [OF e other] show ?thesis by (rule p)
  qed
qed

text \<open>How far each byte has to go, and how many steps without bytes are left.\<close>

definition p_left :: "ppc \<Rightarrow> int" where
  "p_left p =
     (case p of
        PPipe1 \<Rightarrow> 9 | PPipe2 \<Rightarrow> 8 | PFork \<Rightarrow> 7 | PClose1 \<Rightarrow> 3 | PClose2 \<Rightarrow> 2 | PRead \<Rightarrow> 1 | PWrite b \<Rightarrow> 1 + 14 * int (length b) | PBack \<Rightarrow> 2
      | PPrint b \<Rightarrow> 2 + 6 * int (length b) | PExit n \<Rightarrow> 0 | PKilled \<Rightarrow> 0)"

definition c_left :: "cpc \<Rightarrow> int" where
  "c_left c =
     (case c of CNone \<Rightarrow> 0 | CClose1 \<Rightarrow> 3 | CClose2 \<Rightarrow> 2 | CRead \<Rightarrow> 1 | CWrite b \<Rightarrow> 2 + 10 * int (length b) | CExit n \<Rightarrow> 0 | CKilled \<Rightarrow> 0)"

definition left :: "ccs \<Rightarrow> int" where
  "left s = p_left (parent s) + c_left (child s) + 16 * int (length (stdin s)) + 12 * int (length (outbound s)) + 8 * int (length (inbound s))"

lemma length_take_drop: "int (length (drop n xs)) = int (length xs) - int (length (take n xs))"
  by simp

lemma cc_left_parent:
  assumes "cc_inv input s" "parent_step r k s = Some s'"
  shows "left s' < left s"
proof (cases "parent s")
  case PRead
  with assms(2) show ?thesis
    by (auto simp: parent_step_def left_def p_leave_def p_left_def split: if_splits)
next
  case (PWrite b)
  have "b \<noteq> []" if "out_r (c_ends s)"
  proof -
    from that assms(1) have "child s \<notin> {CExit 1, CKilled}" by (auto simp: cc_inv_def ends_ok_def c_ends_at_def no_ends_def)
    with assms(1) PWrite have "in_step input s" by (auto simp: cc_inv_def after_failure_def)
    with PWrite show ?thesis by (simp add: in_step_def)
  qed
  moreover have "\<not> out_r (p_ends s)" using assms(1) PWrite by (simp add: cc_inv_def ends_ok_def p_ends_at_def)
  ultimately show ?thesis
    using PWrite assms(2) by (cases b) (auto simp: parent_step_def left_def p_leave_def p_left_def split: if_splits)
next
  case PBack
  show ?thesis
  proof (cases "r = 0 \<and> inbound s \<noteq> []")
    case True
    with PBack assms(2) have s': "s' = s\<lparr>parent := PPrint (take BUF_SIZE (inbound s)), inbound := drop BUF_SIZE (inbound s)\<rparr>"
      by (simp add: parent_step_def)
    have "0 < length (take BUF_SIZE (inbound s))" using True by (simp add: BUF_SIZE_def)
    with length_take_drop [of BUF_SIZE "inbound s"] PBack show ?thesis unfolding left_def s' p_left_def by simp
  qed (use PBack assms(2) in \<open>auto simp: parent_step_def left_def p_leave_def p_left_def split: if_splits\<close>)
next
  case PFork
  with assms show ?thesis
    by (auto simp: parent_step_def left_def p_leave_def p_left_def c_left_def cc_inv_def ends_ok_def split: if_splits)
qed (use assms(2) in \<open>auto simp: parent_step_def left_def p_leave_def p_left_def split: if_splits\<close>)

lemma cc_left_child:
  assumes "child_step r s = Some s'"
  shows "left s' < left s"
proof (cases "child s")
  case CRead
  show ?thesis
  proof (cases "r = 0 \<and> outbound s \<noteq> []")
    case True
    with CRead assms have s': "s' = s\<lparr>child := CWrite (map toupper (take BUF_SIZE (outbound s))), outbound := drop BUF_SIZE (outbound s)\<rparr>"
      by (simp add: child_step_def)
    have "1 \<le> int (length (take BUF_SIZE (outbound s)))" using True by (cases "outbound s") (simp_all add: BUF_SIZE_def)
    with length_take_drop [of BUF_SIZE "outbound s"] CRead show ?thesis unfolding left_def s' c_left_def
      by (simp del: length_take length_drop)
  qed (use CRead assms in \<open>auto simp: child_step_def left_def c_leave_def c_left_def split: if_splits\<close>)
qed (use assms in \<open>auto simp: child_step_def left_def c_leave_def c_left_def split: if_splits\<close>)

lemma cc_inv_step: "cc_inv input s \<Longrightarrow> step e s = Some s' \<Longrightarrow> cc_inv input s'"
  by (cases e) (auto intro: cc_inv_parent cc_inv_child)

lemma cc_left_step: "cc_inv input s \<Longrightarrow> step e s = Some s' \<Longrightarrow> left s' + 1 \<le> left s + 0"
  by (cases e) (auto dest: cc_left_parent cc_left_child)

interpretation ccsteps: bounded_steps step "cc_inv input" left "\<lambda>e. 0" for input
  by unfold_locales (rule cc_inv_step, assumption+, rule cc_left_step)

section \<open>Property\<close>

lemma failing_move:
  assumes "cc_inv input s" "step e s = Some s'" "failed s'" "\<not> failed s"
  shows "failing e"
proof -
  have i: "in_step input s" and e: "ends_ok s" using assms(1,4) by (auto simp: cc_inv_def after_failure_def failed_def)
  show ?thesis
  proof (cases e)
    case (Parent r k)
    have "out_r (c_ends s)" if "parent s = PWrite b" for b
      using i e that by (auto simp: in_step_def ends_ok_def c_ends_at_def)
    with Parent assms(2-4) show ?thesis
      by (cases "parent s") (auto simp: parent_step_def failed_def p_leave_def split: if_splits)
  next
    case (Child r)
    have "in_r (p_ends s)" if "child s = CWrite b" for b
      using i e that by (auto simp: in_step_def ends_ok_def p_ends_at_def split: ppc.splits)
    with Child assms(2-4) show ?thesis
      by (cases "child s") (auto simp: child_step_def failed_def c_leave_def split: if_splits)
  qed
qed

lemma cc_finished:
  assumes "cc_inv input s" "ended s" "\<not> failed s"
  shows "parent s = PExit 0 \<and> child s = CExit 0 \<and> stdout s = map toupper input"
proof -
  have i: "in_step input s" using assms(1,3) by (auto simp: cc_inv_def after_failure_def failed_def)
  with assms(2) show ?thesis by (auto simp: in_step_def ended_def split: ppc.splits cpc.splits)
qed

text \<open>
  C22. Whatever its input, however the reads from it are divided and whatever the schedule of the two processes:
  what \<open>change_case\<close> has printed is at every moment a beginning of its input in upper case, also when
  calls fail.  Parent and child take a bounded number of steps together and cannot wait for each other for
  ever: unless both have ended, one of them can go on.  If no call failed, both end with status 0
  and the whole input has been printed.
\<close>

theorem change_case_correct:
  assumes "runs step es (start input) = Some s"
  shows "int (length es) \<le> 9 + 16 * int (length input) \<and> (\<exists>z. stdout s @ z = map toupper input) \<and>
    ((\<exists>e. \<not> failing e \<and> step e s \<noteq> None) \<or>
     parent s = PExit 0 \<and> child s = CExit 0 \<and> stdout s = map toupper input \<or>
     ended s \<and> (\<exists>e\<in>set es. failing e))"
proof -
  note inv = ccsteps.runs_invar [OF assms cc_inv_start]
  have "0 \<le> left s" by (auto simp: left_def p_left_def c_left_def split: ppc.split cpc.split)
  moreover have "left (start input) = 9 + 16 * int (length input)" by (simp add: left_def start_def p_left_def c_left_def)
  ultimately have "int (length es) \<le> 9 + 16 * int (length input)" using ccsteps.runs_length [OF assms cc_inv_start] by simp
  moreover have "\<exists>e\<in>set es. failing e" if "failed s"
    by (rule ccsteps.runs_enters_invar [OF assms cc_inv_start, of failed])
      (use that failing_move in \<open>auto simp: start_def failed_def\<close>)
  ultimately show ?thesis using cc_not_stuck [OF inv] cc_finished [OF inv] cc_prefix [OF inv] by blast
qed

text \<open>Six bytes in two reads.\<close>

definition example_schedule :: "event list" where
  "example_schedule = [Parent 0 0, Parent 0 0, Parent 0 0, Parent 0 0, Parent 0 0, Child 0, Child 0, Parent 0 4, Parent 0 0, Child 0, Child 0,
     Parent 0 0, Parent 0 0, Parent 0 2, Parent 0 0, Child 0, Child 0, Parent 0 0, Parent 0 0, Parent 0 0, Child 0]"

theorem change_case_correct_witness:
  "\<exists>s. runs step example_schedule (start ''abcdef'') = Some s \<and> parent s = PExit 0 \<and> stdout s = map toupper ''abcdef''"
proof -
  have "\<exists>s. runs step example_schedule (start ''abcdef'') = Some s \<and> parent s = PExit 0 \<and> child s = CExit 0"
    by (simp add: example_schedule_def start_def parent_step_def child_step_def p_leave_def c_leave_def no_ends_def
        BUF_SIZE_def PIPE_CAP_def)
  then obtain s where s: "runs step example_schedule (start ''abcdef'') = Some s" "parent s = PExit 0" "child s = CExit 0" by blast
  have none: "step e s = None" for e using s(2,3) by (cases e) (simp_all add: parent_step_def child_step_def)
  have "\<not> (\<exists>e. \<not> failing e \<and> step e s \<noteq> None)" by (simp add: none)
  moreover have "\<not> (\<exists>e\<in>set example_schedule. failing e)" by (simp add: example_schedule_def)
  ultimately have "stdout s = map toupper ''abcdef''" using change_case_correct [OF s(1)] by blast
  with s show ?thesis by blast
qed

end
