(* ===== verification/Posix_Mq.thy ===== *)
theory Posix_Mq
  imports Ipc_Create "HOL-Library.Multiset"
begin

text \<open>
  Programs on POSIX message queues: \<open>src/tlpi-book/pmsg/pmsg_create.c\<close>, \<open>pmsg_send.c\<close>, \<open>pmsg_receive.c\<close>,
  \<open>pmsg_getattr.c\<close> and \<open>pmsg_unlink.c\<close>.  The calls are the record \<open>mqk\<close>; \<open>mq_kernel\<close> is what the programs rely
  on, and \<open>mq_terminal\<close> adds a standard output that takes everything.  A program ends with status 0
  or 1; the text of diagnostics is left out.
\<close>

section \<open>Calls\<close>

definition O_RDONLY :: "32 word" where "O_RDONLY = 0"
definition O_WRONLY :: "32 word" where "O_WRONLY = 1"
definition O_RDWR :: "32 word" where "O_RDWR = 2"
definition O_CREAT :: "32 word" where "O_CREAT = 0x40"
definition O_EXCL :: "32 word" where "O_EXCL = 0x80"
definition O_NONBLOCK :: "32 word" where "O_NONBLOCK = 0x800"

record mq_attr =
  mq_maxmsg :: int
  mq_msgsize :: int
  mq_curmsgs :: int

text \<open>\<open>q_open\<close> gives a descriptor or -1; its third argument is permissions and attributes, where they are
  passed.  \<open>q_write\<close> is \<open>write\<close> to the standard output and gives the number of bytes or -1.\<close>

record 's mqk =
  q_open :: "string \<Rightarrow> 32 word \<Rightarrow> (32 word \<times> (int \<times> int) option) option \<Rightarrow> 's \<Rightarrow> int \<times> 's"
  q_send :: "int \<Rightarrow> string \<Rightarrow> 32 word \<Rightarrow> 's \<Rightarrow> bool \<times> 's"
  q_getattr :: "int \<Rightarrow> 's \<Rightarrow> mq_attr option \<times> 's"
  q_malloc :: "int \<Rightarrow> 's \<Rightarrow> bool \<times> 's"
  q_receive :: "int \<Rightarrow> int \<Rightarrow> 's \<Rightarrow> (string \<times> 32 word) option \<times> 's"
  q_unlink :: "string \<Rightarrow> 's \<Rightarrow> bool \<times> 's"
  q_write :: "string \<Rightarrow> 's \<Rightarrow> int \<times> 's"

section \<open>Programs\<close>

text \<open>The loops over options that only set flags.\<close>

fun flag_opts :: "(char \<times> 32 word) list \<Rightarrow> (char \<times> string) list \<Rightarrow> 32 word \<Rightarrow> 32 word option" where
  "flag_opts tbl [] flags = Some flags"
| "flag_opts tbl ((opt, _) # opts) flags =
     (case map_of tbl opt of None \<Rightarrow> None | Some f \<Rightarrow> flag_opts tbl opts (flags OR f))"

record pmsg_opts =
  po_flags :: "32 word"
  po_maxmsg :: int
  po_msgsize :: int
  po_attrp :: bool

fun pmsg_create_opts :: "(char \<times> string) list \<Rightarrow> pmsg_opts \<Rightarrow> pmsg_opts option" where
  "pmsg_create_opts [] p = Some p"
| "pmsg_create_opts ((opt, optarg) # opts) p =
     (if opt = CHR ''c'' then pmsg_create_opts opts (p\<lparr>po_flags := po_flags p OR O_CREAT\<rparr>)
      else if opt = CHR ''m'' then pmsg_create_opts opts (p\<lparr>po_maxmsg := atoi optarg, po_attrp := True\<rparr>)
      else if opt = CHR ''s'' then pmsg_create_opts opts (p\<lparr>po_msgsize := atoi optarg, po_attrp := True\<rparr>)
      else if opt = CHR ''x'' then pmsg_create_opts opts (p\<lparr>po_flags := po_flags p OR O_EXCL\<rparr>)
      else None)"

definition no_pmsg_opts :: pmsg_opts where
  "no_pmsg_opts = \<lparr>po_flags = O_RDWR, po_maxmsg = 10, po_msgsize = 2048, po_attrp = False\<rparr>"

definition pmsg_create_main :: "'s mqk \<Rightarrow> string list \<Rightarrow> 's \<Rightarrow> (unit, 's) outcome" where
  "pmsg_create_main K argv s =
     (let (opts, args) = getopt ''cm:s:x'' argv in
      case pmsg_create_opts opts no_pmsg_opts of
        None \<Rightarrow> Exited 1 s
      | Some p \<Rightarrow>
          (case args of
             [] \<Rightarrow> Exited 1 s
           | name # args \<Rightarrow>
               (case octal_perms args of
                  Inl e \<Rightarrow> Exited 1 s
                | Inr perms \<Rightarrow>
                    (case q_open K name (po_flags p) (Some (perms, if po_attrp p then Some (po_maxmsg p, po_msgsize p) else None)) s of
                       (mqd, s) \<Rightarrow> Exited (if mqd = -1 then 1 else 0) s))))"

definition pmsg_send_main :: "'s mqk \<Rightarrow> string list \<Rightarrow> 's \<Rightarrow> (unit, 's) outcome" where
  "pmsg_send_main K argv s =
     (let (opts, args) = getopt ''n'' argv in
      case flag_opts [(CHR ''n'', O_NONBLOCK)] opts O_WRONLY of
        None \<Rightarrow> Exited 1 s
      | Some flags \<Rightarrow>
          if length args < 2 then Exited 1 s
          else
            (case q_open K (args ! 0) flags None s of
               (mqd, s) \<Rightarrow>
                 if mqd = -1 then Exited 1 s
                 else
                   (let prio = (if length args > 2 then word_of_int (atoi (args ! 2)) else 0) in
                    case q_send K mqd (args ! 1) prio s of (ok, s) \<Rightarrow> Exited (if ok then 0 else 1) s)))"

text \<open>\<open>printf\<close> writes at once to a terminal, and keeps its text until the end of the process otherwise, while
  \<open>write\<close> always writes at once.  \<open>stdout_exit\<close> ends the process and writes what was kept.\<close>

definition stdout_printf :: "'s mqk \<Rightarrow> bool \<Rightarrow> string \<Rightarrow> 's \<Rightarrow> string \<times> 's" where
  "stdout_printf K tty txt s = (if tty then ([], snd (q_write K txt s)) else (txt, s))"

definition stdout_exit :: "'s mqk \<Rightarrow> int \<Rightarrow> string \<Rightarrow> 's \<Rightarrow> (unit, 's) outcome" where
  "stdout_exit K status kept s = Exited status (if kept = [] then s else snd (q_write K kept s))"

definition receive_text :: "string \<Rightarrow> 32 word \<Rightarrow> string" where
  "receive_text buffer prio = ''Read '' @ show_nat (length buffer) @ '' bytes; priority = '' @ show_nat (unat prio) @ [nl]"

definition pmsg_receive_main :: "'s mqk \<Rightarrow> bool \<Rightarrow> string list \<Rightarrow> 's \<Rightarrow> (unit, 's) outcome" where
  "pmsg_receive_main K tty argv s =
     (let (opts, args) = getopt ''n'' argv in
      case flag_opts [(CHR ''n'', O_NONBLOCK)] opts O_RDONLY of
        None \<Rightarrow> Exited 1 s
      | Some flags \<Rightarrow>
          if args = [] then Exited 1 s
          else
            (case q_open K (args ! 0) flags None s of
               (mqd, s) \<Rightarrow>
                 if mqd = -1 then Exited 1 s
                 else
                   (case q_getattr K mqd s of
                      (None, s) \<Rightarrow> Exited 1 s
                    | (Some attr, s) \<Rightarrow>
                        (case q_malloc K (mq_msgsize attr) s of
                           (False, s) \<Rightarrow> Exited 1 s
                         | (True, s) \<Rightarrow>
                             (case q_receive K mqd (mq_msgsize attr) s of
                                (None, s) \<Rightarrow> Exited 1 s
                              | (Some (buffer, prio), s) \<Rightarrow>
                                  (case stdout_printf K tty (receive_text buffer prio) s of
                                     (kept, s) \<Rightarrow>
                                       (case q_write K buffer s of
                                          (n, s) \<Rightarrow> if n = -1 then stdout_exit K 1 kept s
                                                    else stdout_exit K 0 kept (snd (q_write K [nl] s)))))))))"

definition pmsg_getattr_main :: "'s mqk \<Rightarrow> bool \<Rightarrow> string list \<Rightarrow> 's \<Rightarrow> (unit, 's) outcome" where
  "pmsg_getattr_main K tty argv s =
     (if length argv \<noteq> 2 \<or> argv ! 1 = ''--help'' then Exited 1 s
      else
        (case q_open K (argv ! 1) O_RDONLY None s of
           (mqd, s) \<Rightarrow>
             if mqd = -1 then Exited 1 s
             else
               (case q_getattr K mqd s of
                  (None, s) \<Rightarrow> Exited 1 s
                | (Some attr, s) \<Rightarrow>
                    (case stdout_printf K tty (unlines
                       [''Maximum # of messages on queue:   '' @ show_int (mq_maxmsg attr),
                        ''Maximum message size:             '' @ show_int (mq_msgsize attr),
                        ''# of messages currently on queue: '' @ show_int (mq_curmsgs attr)]) s of
                       (kept, s) \<Rightarrow> stdout_exit K 0 kept s))))"

definition pmsg_unlink_main :: "'s mqk \<Rightarrow> string list \<Rightarrow> 's \<Rightarrow> (unit, 's) outcome" where
  "pmsg_unlink_main K argv s =
     (if length argv \<noteq> 2 \<or> argv ! 1 = ''--help'' then Exited 1 s
      else (case q_unlink K (argv ! 1) s of (ok, s) \<Rightarrow> Exited (if ok then 0 else 1) s))"

section \<open>Queues by priority\<close>

text \<open>A message is placed after those of at least its priority; the next one to be received is the first.\<close>

definition enqueue :: "string \<times> 32 word \<Rightarrow> (string \<times> 32 word) list \<Rightarrow> (string \<times> 32 word) list" where
  "enqueue x q = takeWhile (\<lambda>y. snd x \<le> snd y) q @ x # dropWhile (\<lambda>y. snd x \<le> snd y) q"

definition by_priority :: "(string \<times> 32 word) list \<Rightarrow> (string \<times> 32 word) list" where
  "by_priority = sort_key (\<lambda>x. - uint (snd x))"

abbreviation low :: "string \<times> 32 word \<Rightarrow> int" where
  "low x \<equiv> - uint (snd x)"

lemma le_low: "snd x \<le> snd y \<longleftrightarrow> low y \<le> low x"
  by (simp add: word_le_def)

lemma sorted_enqueue: "sorted (map low q) \<Longrightarrow> sorted (map low (enqueue x q))"
proof (induction q)
  case (Cons y q)
  then show ?case
    by (cases "snd x \<le> snd y") (auto simp: enqueue_def le_low dest!: set_takeWhileD set_dropWhileD)
qed (simp add: enqueue_def)

lemma filter_enqueue:
  assumes "sorted (map low q)"
  shows "filter (\<lambda>y. low k = low y) (enqueue x q) = filter (\<lambda>y. low k = low y) (q @ [x])"
proof -
  have "dropWhile (\<lambda>y. snd x \<le> snd y) q = filter (\<lambda>y. \<not> snd x \<le> snd y) q"
    using assms
  proof (induction q)
    case (Cons y q)
    have "filter (\<lambda>z. \<not> snd x \<le> snd z) q = q" if "\<not> snd x \<le> snd y"
      using Cons.prems that by (intro filter_True) (auto simp: le_low)
    with Cons show ?case by auto
  qed simp
  then have "filter (\<lambda>y. low k = low y) (dropWhile (\<lambda>y. snd x \<le> snd y) q) = []" if "low k = low x"
    using that by (auto simp: filter_empty_conv le_low)
  moreover have "filter (\<lambda>y. low k = low y) q = filter (\<lambda>y. low k = low y) (takeWhile (\<lambda>y. snd x \<le> snd y) q) @
      filter (\<lambda>y. low k = low y) (dropWhile (\<lambda>y. snd x \<le> snd y) q)"
    by (metis filter_append takeWhile_dropWhile_id)
  ultimately show ?thesis unfolding enqueue_def filter_append by (cases "low k = low x") simp_all
qed

lemma mset_enqueue: "mset (enqueue x q) = add_mset x (mset q)"
proof -
  have "mset (takeWhile P q) + mset (dropWhile P q) = mset q" for P :: "string \<times> 32 word \<Rightarrow> bool"
    by (metis mset_append takeWhile_dropWhile_id)
  then show ?thesis by (simp add: enqueue_def)
qed

lemma enqueue_by_priority: "enqueue x (by_priority ms) = by_priority (ms @ [x])"
  unfolding by_priority_def
proof (rule sym, rule properties_for_sort_key)
  let ?q = "sort_key low ms"
  show "mset (enqueue x ?q) = mset (ms @ [x])" by (simp add: mset_enqueue)
  show "filter (\<lambda>y. low k = low y) (enqueue x ?q) = filter (\<lambda>y. low k = low y) (ms @ [x])" if "k \<in> set (enqueue x ?q)" for k
  proof -
    have "filter (\<lambda>y. low k = low y) ?q = filter (\<lambda>y. low k = low y) ms" by (simp only: eq_commute [of "low k"] sort_key_stable)
    then show ?thesis unfolding filter_enqueue [OF sorted_sort_key] filter_append by (rule arg_cong)
  qed
  show "sorted (map low (enqueue x ?q))" by (rule sorted_enqueue) simp
qed

text \<open>What the programs rely on: \<open>queue s name\<close> is the queue of that name, in the order in which its messages
  will be received, \<open>refers\<close> the queue a descriptor refers to, and \<open>out\<close> the standard output.  No descriptor is -1.\<close>

locale mq_kernel =
  fixes K :: "'s mqk" and queue :: "'s \<Rightarrow> string \<Rightarrow> (string \<times> 32 word) list" and refers :: "'s \<Rightarrow> int \<Rightarrow> string option"
    and out :: "'s \<Rightarrow> string"
  assumes open_queue: "q_open K name flags x s = (q, s') \<Longrightarrow>
      queue s' = queue s \<and> out s' = out s \<and> (q \<noteq> -1 \<longrightarrow> refers s' q = Some name)"
    and send_queue: "q_send K q m p s = (ok, s') \<Longrightarrow> refers s q = Some name \<Longrightarrow>
      queue s' = (if ok then (queue s)(name := enqueue (m, p) (queue s name)) else queue s) \<and> out s' = out s"
    and getattr_queue: "q_getattr K q s = (a, s') \<Longrightarrow> queue s' = queue s \<and> out s' = out s \<and> refers s' = refers s"
    and malloc_queue: "q_malloc K n s = (ok, s') \<Longrightarrow> queue s' = queue s \<and> out s' = out s \<and> refers s' = refers s"
    and receive_queue: "q_receive K q n s = (r, s') \<Longrightarrow> refers s q = Some name \<Longrightarrow>
      out s' = out s \<and> (case r of None \<Rightarrow> queue s' = queue s
        | Some x \<Rightarrow> queue s name = x # queue s' name \<and> queue s' = (queue s)(name := queue s' name))"
    and write_queue: "q_write K txt s = (n, s') \<Longrightarrow> queue s' = queue s"
begin

lemma snd_write_queue [simp]: "queue (snd (q_write K txt s)) = queue s"
  by (cases "q_write K txt s") (simp add: write_queue)

text \<open>A sender either fails and leaves all queues as they are or has placed its message in one of them.\<close>

lemma pmsg_send_queue:
  assumes "getopt ''n'' argv = (opts, args)"
  shows "\<exists>s'. pmsg_send_main K argv s = Exited 1 s' \<and> queue s' = queue s \<and> out s' = out s \<or>
    pmsg_send_main K argv s = Exited 0 s' \<and> out s' = out s \<and> 2 \<le> length args \<and>
      queue s' = (queue s)(args ! 0 := enqueue (args ! 1, if length args > 2 then word_of_int (atoi (args ! 2)) else 0) (queue s (args ! 0)))"
proof (cases "flag_opts [(CHR ''n'', O_NONBLOCK)] opts O_WRONLY")
  case (Some flags)
  obtain q s1 where o: "q_open K (args ! 0) flags None s = (q, s1)" by fastforce
  note so = open_queue [OF o]
  show ?thesis
  proof (cases "length args < 2 \<or> q = -1")
    case False
    let ?prio = "if length args > 2 then word_of_int (atoi (args ! 2)) else 0"
    obtain ok s2 where snd: "q_send K q (args ! 1) ?prio s1 = (ok, s2)" by fastforce
    from so False have "refers s1 q = Some (args ! 0)" by blast
    from send_queue [OF snd this] so snd o Some False assms show ?thesis by (cases ok) (simp_all add: pmsg_send_main_def Let_def)
  qed (use so o Some assms in \<open>auto simp: pmsg_send_main_def\<close>)
qed (use assms in \<open>simp add: pmsg_send_main_def\<close>)

text \<open>A receiver takes at most one message, the first, and none if it fails before it has received one.\<close>

lemma pmsg_receive_queue:
  assumes "getopt ''n'' argv = (opts, args)"
  obtains (nothing) s' where "pmsg_receive_main K tty argv s = Exited 1 s'" "queue s' = queue s" "out s' = out s"
  | (message) m p s1 kept s2 n s3 where "queue s (args ! 0) = (m, p) # queue s1 (args ! 0)"
      "queue s1 = (queue s)(args ! 0 := queue s1 (args ! 0))" "out s1 = out s"
      "stdout_printf K tty (receive_text m p) s1 = (kept, s2)" "q_write K m s2 = (n, s3)"
      "pmsg_receive_main K tty argv s = (if n = -1 then stdout_exit K 1 kept s3 else stdout_exit K 0 kept (snd (q_write K [nl] s3)))"
proof (cases "flag_opts [(CHR ''n'', O_NONBLOCK)] opts O_RDONLY")
  case None
  with assms have "pmsg_receive_main K tty argv s = Exited 1 s" by (simp add: pmsg_receive_main_def)
  then show ?thesis by (rule nothing) simp_all
next
  case (Some flags)
  obtain q s1 where o: "q_open K (args ! 0) flags None s = (q, s1)" by fastforce
  obtain a s2 where a: "q_getattr K q s1 = (a, s2)" by fastforce
  obtain ok s3 where m: "q_malloc K (mq_msgsize (the a)) s2 = (ok, s3)" by fastforce
  obtain r s4 where r: "q_receive K q (mq_msgsize (the a)) s3 = (r, s4)" by fastforce
  note calls = o a m r and kept = open_queue [OF o] getattr_queue [OF a] malloc_queue [OF m]
  show ?thesis
  proof (cases "args = [] \<or> q = -1 \<or> a = None \<or> \<not> ok \<or> r = None")
    case True
    have "refers s3 q = Some (args ! 0)" if "q \<noteq> -1" using kept that by simp
    with receive_queue [OF r] have "r = None \<Longrightarrow> q \<noteq> -1 \<Longrightarrow> queue s4 = queue s3 \<and> out s4 = out s3" by simp
    with True kept have "\<exists>s'. pmsg_receive_main K tty argv s = Exited 1 s' \<and> queue s' = queue s \<and> out s' = out s"
      using calls Some assms by (cases a; cases ok; cases r) (auto simp: pmsg_receive_main_def)
    then obtain s' where "pmsg_receive_main K tty argv s = Exited 1 s'" "queue s' = queue s" "out s' = out s" by blast
    then show ?thesis by (rule nothing)
  next
    case False
    then obtain attr b p where some: "a = Some attr" "r = Some (b, p)" by (cases r) auto
    obtain kept s5 where pr: "stdout_printf K tty (receive_text b p) s4 = (kept, s5)" by fastforce
    obtain n s6 where w: "q_write K b s5 = (n, s6)" by fastforce
    from False kept have "refers s3 q = Some (args ! 0)" by simp
    from receive_queue [OF r this] kept some show ?thesis
      using calls Some assms False pr w
      by (intro message [of b p s4 kept s5 n s6]) (auto simp: pmsg_receive_main_def)
  qed
qed

end

section \<open>Sequences of programs\<close>

text \<open>Programs run one after the other, \<open>None\<close> unless all end with status 0.\<close>

fun all_succeed :: "('s \<Rightarrow> (unit, 's) outcome) list \<Rightarrow> 's \<Rightarrow> 's option" where
  "all_succeed [] s = Some s"
| "all_succeed (p # ps) s = (case p s of Exited n s' \<Rightarrow> if n = 0 then all_succeed ps s' else None | _ \<Rightarrow> None)"

lemma all_succeed_append: "all_succeed (ps @ qs) s = Option.bind (all_succeed ps s) (all_succeed qs)"
  by (induction ps arbitrary: s) (auto split: outcome.splits)

text \<open>Command lines; \<open>--\<close> keeps a name or a text that starts with a hyphen from being read as an option.\<close>

definition send_argv :: "string \<Rightarrow> string \<times> 32 word \<Rightarrow> string list" where
  "send_argv name x = [''pmsg_send'', ''--'', name, fst x, show_nat (unat (snd x))]"

definition receive_argv :: "string \<Rightarrow> string list" where
  "receive_argv name = [''pmsg_receive'', ''--'', name]"

lemma getopt_argv:
  "getopt ostr (send_argv name x) = ([], [name, fst x, show_nat (unat (snd x))])" "getopt ostr (receive_argv name) = ([], [name])"
  by (simp_all add: getopt_def send_argv_def receive_argv_def getopt_run.simps)

lemma atoi_prio: "word_of_int (atoi (show_nat (unat p))) = p" for p :: "32 word"
proof -
  have "int (unat p) < 2 ^ 32" using unsigned_less [where w = p and ?'a = int] by simp
  then have "int (unat p) \<le> LONG_MAX" by (simp add: LONG_MAX_def)
  moreover have "LONG_MIN \<le> int (unat p)" using order_trans [of LONG_MIN 0 "int (unat p)"] by (simp add: LONG_MIN_def)
  ultimately have "fst (strtol (show_nat (unat p)) 10) = int (unat p)"
    using strtol_show_int [of "int (unat p)" "[]"] by (simp add: show_int_def)
  then have "word_of_int (atoi (show_nat (unat p))) = word_of_int (signed_take_bit 31 (uint p))"
    by (simp add: atoi_def cast_int_def)
  also have "\<dots> = p"
  proof (rule bit_word_eqI)
    fix n assume "n < LENGTH(32)"
    then have "min n 31 = n" by simp
    then show "bit (word_of_int (signed_take_bit 31 (uint p)) :: 32 word) n = bit p n"
      using \<open>n < LENGTH(32)\<close> by (simp add: bit_word_of_int_iff bit_signed_take_bit_iff bit_uint_iff min.commute [of 31])
  qed
  finally show ?thesis .
qed

text \<open>What a receiver shows of a message: on a terminal its description first, otherwise last.\<close>

definition shown :: "bool \<Rightarrow> string \<times> 32 word \<Rightarrow> string" where
  "shown tty x = (let d = receive_text (fst x) (snd x); t = fst x @ [nl] in if tty then d @ t else t @ d)"

locale mq_terminal = mq_kernel K queue refers out
  for K :: "'s mqk" and queue :: "'s \<Rightarrow> string \<Rightarrow> (string \<times> 32 word) list" and refers :: "'s \<Rightarrow> int \<Rightarrow> string option"
    and out :: "'s \<Rightarrow> string" +
  assumes write_all: "q_write K txt s = (n, s') \<Longrightarrow> n = int (length txt) \<and> out s' = out s @ txt"
begin

lemma snd_write_out [simp]: "out (snd (q_write K txt s)) = out s @ txt"
  by (cases "q_write K txt s") (simp add: write_all)

lemma receive_shows:
  assumes "pmsg_receive_main K tty (receive_argv name) s = Exited 0 s'"
  shows "\<exists>x xs. queue s name = x # xs \<and> queue s' = (queue s)(name := xs) \<and> out s' = out s @ shown tty x"
proof (rule pmsg_receive_queue [OF getopt_argv(2), of tty name s])
  fix m p s1 kept s2 n s3
  assume q: "queue s ([name] ! 0) = (m, p) # queue s1 ([name] ! 0)" "queue s1 = (queue s)([name] ! 0 := queue s1 ([name] ! 0))" "out s1 = out s"
    and pr: "stdout_printf K tty (receive_text m p) s1 = (kept, s2)" and w: "q_write K m s2 = (n, s3)"
    and r: "pmsg_receive_main K tty (receive_argv name) s =
      (if n = - 1 then stdout_exit K 1 kept s3 else stdout_exit K 0 kept (snd (q_write K [nl] s3)))"
  have "receive_text m p \<noteq> []" by (simp add: receive_text_def)
  moreover from write_all [OF w] write_queue [OF w] have "n \<noteq> -1" "out s3 = out s2 @ m" "queue s3 = queue s2" by simp_all
  ultimately have "queue s' = queue s1 \<and> out s' = out s1 @ shown tty (m, p)"
    using pr r assms by (auto simp: stdout_printf_def stdout_exit_def shown_def Let_def split: if_splits)
  with q show ?thesis by fastforce
qed (use assms in simp)

lemma sends_queue:
  "all_succeed (map (\<lambda>x. pmsg_send_main K (send_argv name x)) ms) s = Some s' \<Longrightarrow> queue s name = by_priority ns \<Longrightarrow>
     queue s' = (queue s)(name := by_priority (ns @ ms)) \<and> out s' = out s"
proof (induction ms arbitrary: s ns)
  case (Cons x ms)
  from pmsg_send_queue [OF getopt_argv(1) [of "''n''" name x], of s] Cons.prems
  obtain s1 where s1: "pmsg_send_main K (send_argv name x) s = Exited 0 s1" "out s1 = out s"
    "queue s1 = (queue s)(name := enqueue x (queue s name))" by (auto simp: atoi_prio)
  with Cons.prems(2) have "queue s1 name = by_priority (ns @ [x])" by (simp add: enqueue_by_priority)
  from Cons.IH [OF _ this] Cons.prems(1) s1 show ?case by (auto simp: fun_eq_iff)
qed (auto simp: fun_upd_idem)

lemma receives_queue:
  "all_succeed (replicate n (pmsg_receive_main K tty (receive_argv name))) s = Some s' \<Longrightarrow>
     n \<le> length (queue s name) \<and> queue s' = (queue s)(name := drop n (queue s name)) \<and>
     out s' = out s @ concat (map (shown tty) (take n (queue s name)))"
proof (induction n arbitrary: s)
  case (Suc n)
  then obtain s1 where s1: "pmsg_receive_main K tty (receive_argv name) s = Exited 0 s1"
    "all_succeed (replicate n (pmsg_receive_main K tty (receive_argv name))) s1 = Some s'" by (auto split: outcome.splits if_splits)
  from receive_shows [OF s1(1)] Suc.IH [OF s1(2)] show ?case by auto
qed simp

end

section \<open>Reference queues\<close>

record refmq =
  rq_queue :: "string \<Rightarrow> (string \<times> 32 word) list"
  rq_name :: "string option"
  rq_out :: string

definition ref_mqk :: "refmq mqk" where
  "ref_mqk = \<lparr>q_open = (\<lambda>name flags x s. (3, s\<lparr>rq_name := Some name\<rparr>)),
     q_send = (\<lambda>q m p s. case rq_name s of None \<Rightarrow> (False, s)
       | Some name \<Rightarrow> (True, s\<lparr>rq_queue := (rq_queue s)(name := enqueue (m, p) (rq_queue s name))\<rparr>)),
     q_getattr = (\<lambda>q s. (Some \<lparr>mq_maxmsg = 10, mq_msgsize = 8192, mq_curmsgs = 0\<rparr>, s)),
     q_malloc = (\<lambda>n s. (True, s)),
     q_receive = (\<lambda>q n s. case rq_name s of None \<Rightarrow> (None, s)
       | Some name \<Rightarrow> (case rq_queue s name of [] \<Rightarrow> (None, s) | x # xs \<Rightarrow> (Some x, s\<lparr>rq_queue := (rq_queue s)(name := xs)\<rparr>))),
     q_unlink = (\<lambda>name s. (True, s\<lparr>rq_queue := (rq_queue s)(name := [])\<rparr>)),
     q_write = (\<lambda>txt s. (int (length txt), s\<lparr>rq_out := rq_out s @ txt\<rparr>))\<rparr>"

interpretation rmq: mq_terminal ref_mqk rq_queue "\<lambda>s q. rq_name s" rq_out
  by unfold_locales (auto simp: ref_mqk_def split: option.splits list.splits)

section \<open>Properties\<close>

text \<open>
  C25. POSIX queues from the command line: after \<open>pmsg_send\<close> has put messages of any text and
  any 32-bit priority into an empty queue, successful runs of \<open>pmsg_receive\<close> show them by falling priority,
  and those of one priority in the order in which they were sent, each once and completely; there
  are no more of these runs than messages, the queue keeps exactly the rest, and no other
  queue is touched.
\<close>

theorem pmsg_by_priority:
  assumes "mq_terminal K queue refers out" and "queue s name = []"
    and "all_succeed (map (\<lambda>x. pmsg_send_main K (send_argv name x)) ms @
      replicate n (pmsg_receive_main K tty (receive_argv name))) s = Some s'"
  shows "n \<le> length ms \<and> queue s' = (queue s)(name := drop n (by_priority ms)) \<and>
    out s' = out s @ concat (map (shown tty) (take n (by_priority ms)))"
proof -
  from assms(3) obtain s1 where s1: "all_succeed (map (\<lambda>x. pmsg_send_main K (send_argv name x)) ms) s = Some s1"
    "all_succeed (replicate n (pmsg_receive_main K tty (receive_argv name))) s1 = Some s'"
    by (auto simp: all_succeed_append Option.bind_eq_Some_conv)
  have "queue s name = by_priority []" by (simp add: assms(2) by_priority_def)
  from mq_terminal.sends_queue [OF assms(1) s1(1) this] mq_terminal.receives_queue [OF assms(1) s1(2)]
  show ?thesis by (simp add: by_priority_def)
qed

theorem pmsg_by_priority_witness:
  "\<exists>s'. all_succeed (map (\<lambda>x. pmsg_send_main ref_mqk (send_argv ''/q'' x)) [(''low'', 1), (''-n'', 7), (''high'', 7)] @
      replicate 2 (pmsg_receive_main ref_mqk True (receive_argv ''/q''))) \<lparr>rq_queue = (\<lambda>_. []), rq_name = None, rq_out = []\<rparr> = Some s' \<and>
    rq_queue s' ''/q'' = [(''low'', 1)] \<and> rq_out s' = shown True (''-n'', 7) @ shown True (''high'', 7)"
proof -
  let ?ms = "[(''low'', 1), (''-n'', 7), (''high'', 7)] :: (string \<times> 32 word) list"
  let ?s = "\<lparr>rq_queue = (\<lambda>_. []), rq_name = None, rq_out = []\<rparr>"
  let ?run = "all_succeed (map (\<lambda>x. pmsg_send_main ref_mqk (send_argv ''/q'' x)) ?ms @
    replicate 2 (pmsg_receive_main ref_mqk True (receive_argv ''/q''))) ?s"
  have "\<exists>s'. ?run = Some s'"
    by (simp add: pmsg_send_main_def pmsg_receive_main_def getopt_argv atoi_prio ref_mqk_def enqueue_def stdout_printf_def
        stdout_exit_def numeral_2_eq_2)
  then obtain s' where s': "?run = Some s'" by blast
  have "by_priority ?ms = [(''-n'', 7), (''high'', 7), (''low'', 1)]" by (simp add: by_priority_def)
  with pmsg_by_priority [OF rmq.mq_terminal_axioms _ s'] have "rq_queue s' ''/q'' = [(''low'', 1)]"
    "rq_out s' = shown True (''-n'', 7) @ shown True (''high'', 7)" by simp_all
  with s' show ?thesis by blast
qed

end
