(* ===== verification/Sv_Messages.thy ===== *)
theory Sv_Messages
  imports Posix_Mq
begin

text \<open>
  Programs on System V message queues: \<open>src/tlpi-book/svmsg/svmsg_send.c\<close>, \<open>svmsg_receive.c\<close> and \<open>svmsg_rm.c\<close>.  The
  calls are the record \<open>svk\<close>, and the locale \<open>sv_queues\<close> is what the programs rely on, the rules by which \<open>msgrcv\<close>
  chooses a message included.  Storing a message outside \<open>mtext\<close>, and printing bytes of it that were
  never stored, are undefined.
\<close>

section \<open>Calls\<close>

definition MAX_MTEXT :: nat where "MAX_MTEXT = 1024"
definition IPC_NOWAIT :: "32 word" where "IPC_NOWAIT = 0x800"
definition MSG_NOERROR :: "32 word" where "MSG_NOERROR = 0x1000"
definition MSG_EXCEPT :: "32 word" where "MSG_EXCEPT = 0x2000"

lemmas MSG_defs = IPC_NOWAIT_def MSG_NOERROR_def MSG_EXCEPT_def

text \<open>A message is its type and the bytes of its body.  \<open>v_rmid\<close> is \<open>msgctl\<close> with \<open>IPC_RMID\<close>.\<close>

record 's svk =
  v_msgsnd :: "int \<Rightarrow> int \<times> string \<Rightarrow> 32 word \<Rightarrow> 's \<Rightarrow> bool \<times> 's"
  v_msgrcv :: "int \<Rightarrow> 64 word \<Rightarrow> int \<Rightarrow> 32 word \<Rightarrow> 's \<Rightarrow> (int \<times> string) option \<times> 's"
  v_rmid :: "int \<Rightarrow> 's \<Rightarrow> bool \<times> 's"
  v_print :: "string \<Rightarrow> 's \<Rightarrow> 's"

definition num_or_exit :: "string + int \<Rightarrow> 's \<Rightarrow> (int, 's) outcome" where
  "num_or_exit r s = (case r of Inl e \<Rightarrow> Exited 1 s | Inr i \<Rightarrow> Ret i s)"

section \<open>Programs\<close>

text \<open>The body of the message: none without an operand, else its text with the null byte.  \<open>msgLen\<close> is an
  \<open>int\<close>.\<close>

definition mtext_of :: "string list \<Rightarrow> 's \<Rightarrow> (string, 's) outcome" where
  "mtext_of args s =
     (case args of
        [] \<Rightarrow> Ret [] s
      | t # _ \<Rightarrow>
          (let msgLen = cast_int (int (length t) + 1) in
           if msgLen > int MAX_MTEXT then Exited 1 s
           else if msgLen < 0 then Undefd
           else Ret (take (nat msgLen) (t @ [CHR 0x00])) s))"

definition svmsg_send_main :: "'s svk \<Rightarrow> string list \<Rightarrow> 's \<Rightarrow> (unit, 's) outcome" where
  "svmsg_send_main K argv s =
     (let (opts, args) = getopt ''n'' argv in
      case flag_opts [(CHR ''n'', IPC_NOWAIT)] opts 0 of
        None \<Rightarrow> Exited 1 s
      | Some flags \<Rightarrow>
          if length args < 2 \<or> length args > 3 then Exited 1 s
          else
            andThen (num_or_exit (getInt (Some (args ! 0)) 0 (Some ''msqid'')) s) (\<lambda>msqid s.
            andThen (num_or_exit (getInt (Some (args ! 1)) 0 (Some ''msg-type'')) s) (\<lambda>mtype s.
            andThen (mtext_of (drop 2 args) s) (\<lambda>mtext s.
            case v_msgsnd K msqid (mtype, mtext) flags s of (ok, s) \<Rightarrow> Exited (if ok then 0 else 1) s))))"

fun receive_opts :: "(char \<times> string) list \<Rightarrow> 32 word \<times> int \<Rightarrow> (32 word \<times> int) option" where
  "receive_opts [] (flags, type) = Some (flags, type)"
| "receive_opts ((opt, optarg) # opts) (flags, type) =
     (if opt = CHR ''e'' then receive_opts opts (flags OR MSG_NOERROR, type)
      else if opt = CHR ''n'' then receive_opts opts (flags OR IPC_NOWAIT, type)
      else if opt = CHR ''t'' then receive_opts opts (flags, atoi optarg)
      else if opt = CHR ''x'' then receive_opts opts (flags OR MSG_EXCEPT, type)
      else None)"

definition received_text :: "int \<times> string \<Rightarrow> string" where
  "received_text m =
     ''Received: type='' @ show_int (fst m) @ ''; length='' @ show_nat (length (snd m)) @
     (if snd m \<noteq> [] then ''; body='' @ before (snd m) (CHR 0x00) else []) @ [nl]"

definition svmsg_receive_main :: "'s svk \<Rightarrow> string list \<Rightarrow> 's \<Rightarrow> (unit, 's) outcome" where
  "svmsg_receive_main K argv s =
     (let (opts, args) = getopt ''ent:x'' argv in
      case receive_opts opts (0, 0) of
        None \<Rightarrow> Exited 1 s
      | Some (flags, type) \<Rightarrow>
          if length args < 1 \<or> length args > 2 then Exited 1 s
          else
            andThen (num_or_exit (getInt (Some (args ! 0)) 0 (Some ''msqid'')) s) (\<lambda>msqid s.
            andThen (if length args > 1 then num_or_exit (getInt (Some (args ! 1)) 0 (Some ''max-bytes'')) s
                     else Ret (int MAX_MTEXT) s) (\<lambda>maxBytes s.
            case v_msgrcv K msqid (word_of_int maxBytes) type flags s of
              (None, s) \<Rightarrow> Exited 1 s
            | (Some m, s) \<Rightarrow>
                if length (snd m) > MAX_MTEXT \<or> snd m \<noteq> [] \<and> CHR 0x00 \<notin> set (snd m) then Undefd
                else Exited 0 (v_print K (received_text m) s))))"

fun rm_loop :: "'s svk \<Rightarrow> string list \<Rightarrow> 's \<Rightarrow> (unit, 's) outcome" where
  "rm_loop K [] s = Exited 0 s"
| "rm_loop K (a # args) s =
     andThen (num_or_exit (getInt (Some a) 0 (Some ''msqid'')) s) (\<lambda>msqid s.
     case v_rmid K msqid s of (ok, s) \<Rightarrow> if ok then rm_loop K args s else Exited 1 s)"

definition svmsg_rm_main :: "'s svk \<Rightarrow> string list \<Rightarrow> 's \<Rightarrow> (unit, 's) outcome" where
  "svmsg_rm_main K argv s =
     (if length argv > 1 \<and> argv ! 1 = ''--help'' then Exited 1 s else rm_loop K (tl argv) s)"

section \<open>Queues\<close>

text \<open>The rules of \<open>msgrcv\<close>: type 0 asks for the first message, a positive type for the first of that type (with
  \<open>MSG_EXCEPT\<close> of another type), a negative type for the first of the lowest type up to its absolute
  value.\<close>

definition wanted :: "int \<Rightarrow> bool \<Rightarrow> (int \<times> string) list \<Rightarrow> int \<times> string \<Rightarrow> bool" where
  "wanted type ex q m \<longleftrightarrow>
     (if type = 0 then True
      else if type > 0 then (fst m = type) \<noteq> ex
      else fst m \<le> - type \<and> (\<forall>m'\<in>set q. fst m \<le> fst m'))"

text \<open>The first element that satisfies a predicate, and the list without it.\<close>

fun take_first :: "('a \<Rightarrow> bool) \<Rightarrow> 'a list \<Rightarrow> ('a \<times> 'a list) option" where
  "take_first P [] = None"
| "take_first P (x # xs) = (if P x then Some (x, xs) else map_option (map_prod id ((#) x)) (take_first P xs))"

lemma take_first_None [simp]: "take_first P xs = None \<longleftrightarrow> (\<forall>x\<in>set xs. \<not> P x)"
  by (induction xs) auto

lemma take_first_filter:
  "take_first P xs = Some (x, ys) \<Longrightarrow> filter P xs = x # filter P ys \<and> filter (\<lambda>x. \<not> P x) xs = filter (\<lambda>x. \<not> P x) ys \<and>
     insert x (set ys) = set xs"
  by (induction xs arbitrary: ys) (auto split: if_splits)

lemma num_or_exit_if: "(if c then num_or_exit r s else Ret k s) = num_or_exit (if c then r else Inr k) s"
  by (simp add: num_or_exit_def)

lemma num_or_exit_simps [simp]: "num_or_exit (Inl e) s = Exited 1 s" "num_or_exit (Inr i) s = Ret i s"
  by (simp_all add: num_or_exit_def)

text \<open>Bodies that can be received into \<open>mtext\<close> and printed; without option \<open>-e\<close> they are not truncated.\<close>

definition printable :: "string \<Rightarrow> bool" where
  "printable b \<longleftrightarrow> length b \<le> MAX_MTEXT \<and> (b \<noteq> [] \<longrightarrow> CHR 0x00 \<in> set b)"

lemma receive_opts_no_e:
  "receive_opts opts (flags, type) = Some (flags', type') \<Longrightarrow> CHR ''e'' \<notin> fst ` set opts \<Longrightarrow>
     flags' AND MSG_NOERROR = flags AND MSG_NOERROR"
proof (induction opts "(flags, type)" arbitrary: flags type rule: receive_opts.induct)
  case (2 opt optarg opts flags type)
  then show ?case by (auto simp: MSG_defs bit.conj_disj_distrib2 split: if_splits)
qed simp

lemma mtext_of_printable: "mtext_of args s = Ret b s' \<Longrightarrow> printable b \<and> s' = s"
  if "\<forall>a\<in>set args. int (length a) < INT_MAX"
proof (cases args)
  case (Cons t rest)
  with that have "cast_int (int (length t) + 1) = int (length t) + 1" by (intro cast_int_id) (auto simp: INT_MIN_def INT_MAX_def)
  moreover assume "mtext_of args s = Ret b s'"
  ultimately show ?thesis
    by (auto simp: mtext_of_def Cons printable_def Let_def nat_add_distrib split: if_splits)
qed (auto simp: mtext_of_def printable_def)

section \<open>Command lines\<close>

text \<open>A message to be sent: its type and its text, if it has one.\<close>

definition message_of :: "int \<times> string option \<Rightarrow> int \<times> string" where
  "message_of x = (fst x, case snd x of None \<Rightarrow> [] | Some t \<Rightarrow> t @ [CHR 0x00])"

definition sendable :: "int \<times> string option \<Rightarrow> bool" where
  "sendable x \<longleftrightarrow> INT_MIN \<le> fst x \<and> fst x \<le> INT_MAX \<and>
     (case snd x of None \<Rightarrow> True | Some t \<Rightarrow> CHR 0x00 \<notin> set t \<and> length t < MAX_MTEXT)"

definition snd_argv :: "int \<Rightarrow> int \<times> string option \<Rightarrow> string list" where
  "snd_argv q x = [''svmsg_send'', ''--'', show_int q, show_int (fst x)] @ (case snd x of None \<Rightarrow> [] | Some t \<Rightarrow> [t])"

definition rcv_argv :: "int \<Rightarrow> bool \<Rightarrow> int \<Rightarrow> string list" where
  "rcv_argv type ex q = [''svmsg_receive'', ''-t'', show_int type] @ (if ex then [''-x''] else []) @ [''--'', show_int q]"

lemma getopt_sv_argv:
  "getopt ''n'' (snd_argv q x) = ([], [show_int q, show_int (fst x)] @ (case snd x of None \<Rightarrow> [] | Some t \<Rightarrow> [t]))"
  "getopt ''ent:x'' (rcv_argv type ex q) = ((CHR ''t'', show_int type) # (if ex then [(CHR ''x'', [])] else []), [show_int q])"
  by (simp_all add: getopt_def snd_argv_def rcv_argv_def getopt_run.simps opt_known_def takes_arg_def)

lemma getInt_show_int: "INT_MIN \<le> i \<Longrightarrow> i \<le> INT_MAX \<Longrightarrow> getInt (Some (show_int i)) 0 name = Inr i"
  using getNum_roundtrip [of i 0 name] int_is_long [of i] by (simp add: gn_base_def)

lemma svmsg_send_argv:
  assumes "sendable x" "INT_MIN \<le> q" "q \<le> INT_MAX"
  shows "svmsg_send_main K (snd_argv q x) s = (case v_msgsnd K q (message_of x) 0 s of (ok, s) \<Rightarrow> Exited (if ok then 0 else 1) s)"
proof -
  have "cast_int (int (length t) + 1) = int (length t) + 1" if "length t < MAX_MTEXT" for t :: string
    using that by (intro cast_int_id) (auto simp: INT_MIN_def INT_MAX_def MAX_MTEXT_def)
  with assms show ?thesis
    by (auto simp: svmsg_send_main_def getopt_sv_argv getInt_show_int sendable_def mtext_of_def message_of_def nat_add_distrib
        split: option.splits)
qed

lemma message_printable: "sendable x \<Longrightarrow> printable (snd (message_of x))"
  by (auto simp: sendable_def message_of_def printable_def split: option.splits)

lemma wanted_positive: "0 \<le> type \<Longrightarrow> wanted type ex q = wanted type ex []"
  by (rule ext) (auto simp: wanted_def)

locale sv_queues =
  fixes K :: "'s svk" and queue :: "'s \<Rightarrow> int \<Rightarrow> (int \<times> string) list" and out :: "'s \<Rightarrow> string"
  assumes snd_queue: "v_msgsnd K q m flags s = (ok, s') \<Longrightarrow>
      queue s' = (if ok then (queue s)(q := queue s q @ [m]) else queue s) \<and> out s' = out s"
    and rcv_queue: "v_msgrcv K q n type flags s = (r, s') \<Longrightarrow>
      out s' = out s \<and> (case r of None \<Rightarrow> queue s' = queue s
        | Some m \<Rightarrow> \<exists>b xs. take_first (wanted type (flags AND MSG_EXCEPT \<noteq> 0) (queue s q)) (queue s q) = Some ((fst m, b), xs) \<and>
            snd m = take (unat n) b \<and> (length b \<le> unat n \<or> flags AND MSG_NOERROR \<noteq> 0) \<and> queue s' = (queue s)(q := xs))"
    and rmid_queue: "v_rmid K q s = (ok, s') \<Longrightarrow> queue s' = (if ok then (queue s)(q := []) else queue s) \<and> out s' = out s"
    and print_queue: "queue (v_print K txt s) = queue s \<and> out (v_print K txt s) = out s @ txt"
begin

lemma receive_cases:
  assumes "getopt ''ent:x'' argv = (opts, args)"
  obtains (nothing) s' where "svmsg_receive_main K argv s = Exited 1 s'" "queue s' = queue s" "out s' = out s"
  | (message) flags type msqid n m s1 where "receive_opts opts (0, 0) = Some (flags, type)"
      "getInt (Some (args ! 0)) 0 (Some ''msqid'') = Inr msqid" "v_msgrcv K msqid n type flags s = (Some m, s1)"
      "length args = 1 \<longrightarrow> n = word_of_int (int MAX_MTEXT)"
      "svmsg_receive_main K argv s = (if length (snd m) > MAX_MTEXT \<or> snd m \<noteq> [] \<and> CHR 0x00 \<notin> set (snd m) then Undefd
         else Exited 0 (v_print K (received_text m) s1))"
proof (cases "receive_opts opts (0, 0) = None \<or> length args < 1 \<or> length args > 2")
  case True
  with assms have "svmsg_receive_main K argv s = Exited 1 s"
    by (cases "receive_opts opts (0, 0)") (auto simp: svmsg_receive_main_def)
  then show ?thesis by (rule nothing) simp_all
next
  case False
  then obtain flags type where ft: "receive_opts opts (0, 0) = Some (flags, type)" by auto
  let ?id = "getInt (Some (args ! 0)) 0 (Some ''msqid'')"
  let ?max = "if length args > 1 then getInt (Some (args ! 1)) 0 (Some ''max-bytes'') else Inr (int MAX_MTEXT)"
  have main: "svmsg_receive_main K argv s = andThen (num_or_exit ?id s) (\<lambda>msqid s. andThen (num_or_exit ?max s) (\<lambda>maxBytes s.
      case v_msgrcv K msqid (word_of_int maxBytes) type flags s of
        (None, s) \<Rightarrow> Exited 1 s
      | (Some m, s) \<Rightarrow> if length (snd m) > MAX_MTEXT \<or> snd m \<noteq> [] \<and> CHR 0x00 \<notin> set (snd m) then Undefd
          else Exited 0 (v_print K (received_text m) s)))"
    using False unfolding svmsg_receive_main_def assms num_or_exit_if by (simp add: ft)
  show ?thesis
  proof (cases ?id)
    case (Inl e)
    with main have "svmsg_receive_main K argv s = Exited 1 s" by simp
    then show ?thesis by (rule nothing) simp_all
  next
    case id: (Inr msqid)
    show ?thesis
    proof (cases ?max)
      case (Inl e)
      have "svmsg_receive_main K argv s = Exited 1 s" unfolding main id Inl by simp
      then show ?thesis by (rule nothing) simp_all
    next
      case (Inr k)
      obtain r s1 where r: "v_msgrcv K msqid (word_of_int k) type flags s = (r, s1)" by fastforce
      show ?thesis
      proof (cases r)
        case None
        then have "svmsg_receive_main K argv s = Exited 1 s1" unfolding main id Inr by (simp add: r)
        then show ?thesis by (rule nothing) (use rcv_queue [OF r] None in simp_all)
      next
        case (Some m)
        note rcv = r [unfolded Some]
        have "length args = 1 \<longrightarrow> (word_of_int k :: 64 word) = word_of_int (int MAX_MTEXT)" using Inr by auto
        from ft id rcv this show ?thesis by (rule message) (unfold main id Inr, simp add: rcv)
      qed
    qed
  qed
qed

text \<open>Without \<open>-e\<close> a receiver of printable messages is defined, and takes and shows exactly one of them.\<close>

lemma receive_printable:
  assumes "getopt ''ent:x'' argv = (opts, args)" "CHR ''e'' \<notin> fst ` set opts" "\<forall>i. \<forall>m\<in>set (queue s i). printable (snd m)"
  obtains (nothing) s' where "svmsg_receive_main K argv s = Exited 1 s'" "queue s' = queue s" "out s' = out s"
  | (message) flags type msqid m xs s' where "receive_opts opts (0, 0) = Some (flags, type)"
      "getInt (Some (args ! 0)) 0 (Some ''msqid'') = Inr msqid" "svmsg_receive_main K argv s = Exited 0 s'"
      "take_first (wanted type (flags AND MSG_EXCEPT \<noteq> 0) (queue s msqid)) (queue s msqid) = Some (m, xs)"
      "queue s' = (queue s)(msqid := xs)" "out s' = out s @ received_text m"
proof (rule receive_cases [OF assms(1), of s])
  fix flags type msqid n m s1
  assume o: "receive_opts opts (0, 0) = Some (flags, type)" and id: "getInt (Some (args ! 0)) 0 (Some ''msqid'') = Inr msqid"
    and r: "v_msgrcv K msqid n type flags s = (Some m, s1)"
    and main: "svmsg_receive_main K argv s = (if length (snd m) > MAX_MTEXT \<or> snd m \<noteq> [] \<and> CHR 0x00 \<notin> set (snd m) then Undefd
      else Exited 0 (v_print K (received_text m) s1))"
  from receive_opts_no_e [OF o assms(2)] have "flags AND MSG_NOERROR = 0" by simp
  with rcv_queue [OF r] obtain b xs where
    b: "take_first (wanted type (flags AND MSG_EXCEPT \<noteq> 0) (queue s msqid)) (queue s msqid) = Some ((fst m, b), xs)"
      "snd m = b" "queue s1 = (queue s)(msqid := xs)" "out s1 = out s" by auto
  from take_first_filter [OF b(1)] have "(fst m, b) \<in> set (queue s msqid)" by blast
  with assms(3) have "printable b" by force
  with b(2) main have ex: "svmsg_receive_main K argv s = Exited 0 (v_print K (received_text m) s1)" by (auto simp: printable_def)
  from b(1,2) have "take_first (wanted type (flags AND MSG_EXCEPT \<noteq> 0) (queue s msqid)) (queue s msqid) = Some (m, xs)" by (cases m) simp
  from o id ex this show thesis by (rule message) (use print_queue b in simp_all)
qed (rule nothing)

lemma sv_sends_queue:
  "all_succeed (map (\<lambda>x. svmsg_send_main K (snd_argv q x)) ms) s = Some s' \<Longrightarrow> \<forall>x\<in>set ms. sendable x \<Longrightarrow>
     INT_MIN \<le> q \<Longrightarrow> q \<le> INT_MAX \<Longrightarrow> queue s' = (queue s)(q := queue s q @ map message_of ms) \<and> out s' = out s"
proof (induction ms arbitrary: s)
  case (Cons x ms)
  obtain ok s1 where s1: "v_msgsnd K q (message_of x) 0 s = (ok, s1)" by fastforce
  with Cons.prems svmsg_send_argv [of x q K s]
  have "ok" "all_succeed (map (\<lambda>x. svmsg_send_main K (snd_argv q x)) ms) s1 = Some s'" by (auto split: if_splits)
  with Cons.IH [of s1] Cons.prems snd_queue [OF s1] show ?case by (auto simp: fun_eq_iff)
qed (simp add: fun_upd_idem)

lemma sv_receive_argv:
  assumes "svmsg_receive_main K (rcv_argv type ex q) s = Exited 0 s'" "\<forall>i. \<forall>m\<in>set (queue s i). printable (snd m)"
    "0 \<le> type" "type \<le> INT_MAX" "INT_MIN \<le> q" "q \<le> INT_MAX"
  shows "\<exists>m xs. take_first (wanted type ex []) (queue s q) = Some (m, xs) \<and> queue s' = (queue s)(q := xs) \<and>
    out s' = out s @ received_text m"
proof -
  have ty: "atoi (show_int type) = type" using assms(3,4) by (intro atoi_show_int) (simp_all add: INT_MIN_def)
  let ?opts = "(CHR ''t'', show_int type) # (if ex then [(CHR ''x'', [])] else [])"
  have opts: "receive_opts ?opts (0, 0) = Some (if ex then MSG_EXCEPT else 0, type)" by (simp add: ty)
  have ne: "CHR ''e'' \<notin> fst ` set ?opts" by auto
  have ex: "((if ex then MSG_EXCEPT else 0) AND MSG_EXCEPT \<noteq> 0) = ex" by (simp add: MSG_defs)
  show ?thesis
  proof (rule receive_printable [OF getopt_sv_argv(2) ne assms(2)])
    fix flags type' msqid m xs s1
    assume "receive_opts ?opts (0, 0) = Some (flags, type')" "getInt (Some ([show_int q] ! 0)) 0 (Some ''msqid'') = Inr msqid"
      and r: "svmsg_receive_main K (rcv_argv type ex q) s = Exited 0 s1"
        "take_first (wanted type' (flags AND MSG_EXCEPT \<noteq> 0) (queue s msqid)) (queue s msqid) = Some (m, xs)"
        "queue s1 = (queue s)(msqid := xs)" "out s1 = out s @ received_text m"
    with opts getInt_show_int [OF assms(5,6)] have "flags = (if ex then MSG_EXCEPT else 0)" "type' = type" "msqid = q" by auto
    with r assms(1) show ?thesis by (simp add: ex wanted_positive [OF assms(3), of ex "queue s q"])
  qed (use assms(1) in simp)
qed

text \<open>The messages that are wanted are received one after the other; the others stay.\<close>

lemma sv_receives_queue:
  fixes type q :: int and ex :: bool
  assumes "0 \<le> type" "type \<le> INT_MAX" "INT_MIN \<le> q" "q \<le> INT_MAX"
  defines "W \<equiv> wanted type ex []"
  shows "all_succeed (replicate n (svmsg_receive_main K (rcv_argv type ex q))) s = Some s' \<Longrightarrow>
    \<forall>i. \<forall>m\<in>set (queue s i). printable (snd m) \<Longrightarrow>
    n \<le> length (filter W (queue s q)) \<and> filter W (queue s' q) = drop n (filter W (queue s q)) \<and>
    filter (\<lambda>m. \<not> W m) (queue s' q) = filter (\<lambda>m. \<not> W m) (queue s q) \<and> (\<forall>i. i \<noteq> q \<longrightarrow> queue s' i = queue s i) \<and>
    (\<forall>i. \<forall>m\<in>set (queue s' i). printable (snd m)) \<and> out s' = out s @ concat (map received_text (take n (filter W (queue s q))))"
proof (induction n arbitrary: s)
  case (Suc n)
  then obtain s1 where s1: "svmsg_receive_main K (rcv_argv type ex q) s = Exited 0 s1"
    "all_succeed (replicate n (svmsg_receive_main K (rcv_argv type ex q))) s1 = Some s'" by (auto split: outcome.splits if_splits)
  from sv_receive_argv [OF s1(1) Suc.prems(2) assms(1-4)] obtain m xs where
    m: "take_first W (queue s q) = Some (m, xs)" "queue s1 = (queue s)(q := xs)" "out s1 = out s @ received_text m"
    unfolding W_def by blast
  note f = take_first_filter [OF m(1)]
  then have "set xs \<subseteq> set (queue s q)" by blast
  with Suc.prems(2) m(2) have "\<forall>i. \<forall>m\<in>set (queue s1 i). printable (snd m)" by (metis fun_upd_apply subsetD)
  from Suc.IH [OF s1(2) this] m(2,3) f show ?case by simp
qed simp

end

section \<open>Reference queues\<close>

record refsv =
  rs_queue :: "int \<Rightarrow> (int \<times> string) list"
  rs_out :: string

definition ref_svk :: "refsv svk" where
  "ref_svk = \<lparr>v_msgsnd = (\<lambda>q m flags s. if fst m < 1 then (False, s) else (True, s\<lparr>rs_queue := (rs_queue s)(q := rs_queue s q @ [m])\<rparr>)),
     v_msgrcv = (\<lambda>q n type flags s.
       case take_first (wanted type (flags AND MSG_EXCEPT \<noteq> 0) (rs_queue s q)) (rs_queue s q) of
         None \<Rightarrow> (None, s)
       | Some (m, xs) \<Rightarrow>
           if length (snd m) \<le> unat n \<or> flags AND MSG_NOERROR \<noteq> 0
           then (Some (fst m, take (unat n) (snd m)), s\<lparr>rs_queue := (rs_queue s)(q := xs)\<rparr>) else (None, s)),
     v_rmid = (\<lambda>q s. (True, s\<lparr>rs_queue := (rs_queue s)(q := [])\<rparr>)),
     v_print = (\<lambda>txt s. s\<lparr>rs_out := rs_out s @ txt\<rparr>)\<rparr>"

interpretation rsv: sv_queues ref_svk rs_queue rs_out
  by unfold_locales (auto simp: ref_svk_def split: if_splits option.splits)

section \<open>Properties\<close>

text \<open>
  C26. System V queues from the command line: messages of any type and of texts of at most 1023
  bytes that \<open>svmsg_send\<close> has put into an empty queue come out of \<open>svmsg_receive\<close> complete, those that option
  \<open>-t\<close> (with \<open>-x\<close>: all others) asks for, in the order in which they were sent, once each; the rest
  of the queue and all other queues keep their messages.  As long as only messages with a null
  byte in their first 1024 bytes are around, \<open>svmsg_receive\<close> is defined for every command line without \<open>-e\<close>.
\<close>

theorem svmsg_by_type:
  assumes "sv_queues K queue out" "queue s q = []" "\<forall>x\<in>set ms. sendable x" "\<forall>i. \<forall>m\<in>set (queue s i). printable (snd m)"
    and "0 \<le> type" "type \<le> INT_MAX" "INT_MIN \<le> q" "q \<le> INT_MAX"
    and "all_succeed (map (\<lambda>x. svmsg_send_main K (snd_argv q x)) ms @ replicate n (svmsg_receive_main K (rcv_argv type ex q))) s = Some s'"
  shows "out s' = out s @ concat (map received_text (take n (filter (wanted type ex []) (map message_of ms)))) \<and>
    filter (wanted type ex []) (queue s' q) = drop n (filter (wanted type ex []) (map message_of ms)) \<and>
    filter (\<lambda>m. \<not> wanted type ex [] m) (queue s' q) = filter (\<lambda>m. \<not> wanted type ex [] m) (map message_of ms) \<and>
    n \<le> length (filter (wanted type ex []) (map message_of ms)) \<and> (\<forall>i. i \<noteq> q \<longrightarrow> queue s' i = queue s i) \<and>
    (\<forall>argv opts args. getopt ''ent:x'' argv = (opts, args) \<and> CHR ''e'' \<notin> fst ` set opts \<longrightarrow> svmsg_receive_main K argv s' \<noteq> Undefd)"
proof -
  from assms(9) obtain s1 where s1: "all_succeed (map (\<lambda>x. svmsg_send_main K (snd_argv q x)) ms) s = Some s1"
    "all_succeed (replicate n (svmsg_receive_main K (rcv_argv type ex q))) s1 = Some s'"
    by (auto simp: all_succeed_append Option.bind_eq_Some_conv)
  note q1 = sv_queues.sv_sends_queue [OF assms(1) s1(1) assms(3,7,8)]
  then have "\<forall>i. \<forall>m\<in>set (queue s1 i). printable (snd m)" using assms(2-4) message_printable by auto
  note r = sv_queues.sv_receives_queue [OF assms(1,5-8) s1(2) this]
  then have pr: "\<forall>i. \<forall>m\<in>set (queue s' i). printable (snd m)" by blast
  have "svmsg_receive_main K argv s' \<noteq> Undefd" if "getopt ''ent:x'' argv = (opts, args)" "CHR ''e'' \<notin> fst ` set opts" for argv opts args
    by (rule sv_queues.receive_printable [OF assms(1) that pr]) simp_all
  with r q1 assms(2) show ?thesis by simp
qed

theorem svmsg_by_type_witness:
  "\<exists>s'. all_succeed (map (\<lambda>x. svmsg_send_main ref_svk (snd_argv 5 x)) [(2, Some ''b''), (1, Some ''a''), (2, None)] @
      replicate 2 (svmsg_receive_main ref_svk (rcv_argv 2 False 5))) \<lparr>rs_queue = (\<lambda>_. []), rs_out = []\<rparr> = Some s' \<and>
    rs_out s' = received_text (2, ''b'' @ [CHR 0x00]) @ received_text (2, []) \<and>
    filter (\<lambda>m. \<not> wanted 2 False [] m) (rs_queue s' 5) = [(1, ''a'' @ [CHR 0x00])]"
proof -
  let ?ms = "[(2, Some ''b''), (1, Some ''a''), (2, None)] :: (int \<times> string option) list"
  let ?s = "\<lparr>rs_queue = (\<lambda>_. []), rs_out = []\<rparr>"
  let ?run = "all_succeed (map (\<lambda>x. svmsg_send_main ref_svk (snd_argv 5 x)) ?ms @ replicate 2 (svmsg_receive_main ref_svk (rcv_argv 2 False 5))) ?s"
  have b: "INT_MIN \<le> 5" "(5::int) \<le> INT_MAX" "INT_MIN \<le> 2" "(2::int) \<le> INT_MAX" "INT_MIN \<le> 1" "(1::int) \<le> INT_MAX"
    by (simp_all add: INT_MIN_def INT_MAX_def)
  have ok: "\<forall>x\<in>set ?ms. sendable x" by (simp add: sendable_def b MAX_MTEXT_def)
  have "svmsg_send_main ref_svk (snd_argv 5 x) s = (case v_msgsnd ref_svk 5 (message_of x) 0 s of (r, s) \<Rightarrow> Exited (if r then 0 else 1) s)"
    if "x \<in> set ?ms" for x s using ok that b by (intro svmsg_send_argv) auto
  moreover have two: "replicate 2 p = [p, p]" for p :: "refsv \<Rightarrow> (unit, refsv) outcome" by (simp add: numeral_2_eq_2)
  ultimately have "\<exists>s'. ?run = Some s'"
    by (simp add: svmsg_receive_main_def getopt_sv_argv getInt_show_int atoi_show_int b ref_svk_def message_of_def wanted_def two
        MAX_MTEXT_def MSG_defs)
  then obtain s' where s': "?run = Some s'" by blast
  from svmsg_by_type [OF rsv.sv_queues_axioms _ ok _ _ b(4,1,2) s'] have "rs_out s' = received_text (2, ''b'' @ [CHR 0x00]) @ received_text (2, [])"
    "filter (\<lambda>m. \<not> wanted 2 False [] m) (rs_queue s' 5) = [(1, ''a'' @ [CHR 0x00])]"
    by (simp_all add: message_of_def wanted_def)
  with s' show ?thesis by blast
qed

text \<open>A body that \<open>-e\<close> has truncated is printed beyond its end, and a body longer than \<open>mtext\<close> is stored beyond
  its end when \<open>max-bytes\<close> allows it.\<close>

lemma receive_overruns:
  "svmsg_receive_main ref_svk [''svmsg_receive'', ''-e'', ''5'', ''2''] \<lparr>rs_queue = (\<lambda>_. [(1, ''abc'' @ [CHR 0x00])]), rs_out = []\<rparr> = Undefd"
  "svmsg_receive_main ref_svk [''svmsg_receive'', ''5'', ''2000''] \<lparr>rs_queue = (\<lambda>_. [(1, replicate 1500 (CHR 0x00))]), rs_out = []\<rparr> = Undefd"
proof -
  have g: "getopt ''ent:x'' [''svmsg_receive'', ''-e'', ''5'', ''2''] = ([(CHR ''e'', [])], [''5'', ''2''])"
    "getopt ''ent:x'' [''svmsg_receive'', ''5'', ''2000''] = ([], [''5'', ''2000''])"
    "getInt (Some ''5'') 0 (Some ''msqid'') = Inr 5" "getInt (Some ''2'') 0 (Some ''max-bytes'') = Inr 2"
    "getInt (Some ''2000'') 0 (Some ''max-bytes'') = Inr 2000" by code_simp+
  show "svmsg_receive_main ref_svk [''svmsg_receive'', ''-e'', ''5'', ''2''] \<lparr>rs_queue = (\<lambda>_. [(1, ''abc'' @ [CHR 0x00])]), rs_out = []\<rparr> = Undefd"
    by (simp add: svmsg_receive_main_def g ref_svk_def wanted_def MSG_defs)
  show "svmsg_receive_main ref_svk [''svmsg_receive'', ''5'', ''2000''] \<lparr>rs_queue = (\<lambda>_. [(1, replicate 1500 (CHR 0x00))]), rs_out = []\<rparr> = Undefd"
    by (simp add: svmsg_receive_main_def g ref_svk_def wanted_def MSG_defs MAX_MTEXT_def)
qed

end
