(* ===== verification/Posix_Objects.thy ===== *)
theory Posix_Objects
  imports Sv_Messages
begin

text \<open>
  Programs on POSIX semaphores and shared memory: \<open>src/tlpi-book/psem/psem_create.c\<close>, \<open>psem_post.c\<close>,
  \<open>psem_wait.c\<close>, \<open>psem_trywait.c\<close>, \<open>psem_timedwait.c\<close>, \<open>psem_getvalue.c\<close>, \<open>psem_unlink.c\<close>, and \<open>pshm/pshm_create.c\<close>,
  \<open>pshm_write.c\<close>, \<open>pshm_read.c\<close>, \<open>pshm_unlink.c\<close>.  The calls are the records \<open>psemk\<close> and \<open>pshmk\<close>; the locales
  \<open>named_semaphores\<close> and \<open>named_memory\<close> are what the programs rely on.  A call that blocks is one that
  returns later: what the contract says holds at the time of its return.
\<close>

section \<open>Semaphores\<close>

text \<open>\<open>e_open\<close> gives a semaphore or \<open>None\<close> for \<open>SEM_FAILED\<close>; its third argument is permissions and value, where
  they are passed.\<close>

record 's psemk =
  e_open :: "string \<Rightarrow> 32 word \<Rightarrow> (32 word \<times> 32 word) option \<Rightarrow> 's \<Rightarrow> int option \<times> 's"
  e_post :: "int \<Rightarrow> 's \<Rightarrow> bool \<times> 's"
  e_wait :: "int \<Rightarrow> 's \<Rightarrow> bool \<times> 's"
  e_trywait :: "int \<Rightarrow> 's \<Rightarrow> bool \<times> 's"
  e_gettime :: "'s \<Rightarrow> (int \<times> int) option \<times> 's"
  e_timedwait :: "int \<Rightarrow> int \<times> int \<Rightarrow> 's \<Rightarrow> bool \<times> 's"
  e_getvalue :: "int \<Rightarrow> 's \<Rightarrow> int option \<times> 's"
  e_unlink :: "string \<Rightarrow> 's \<Rightarrow> bool \<times> 's"
  e_getpid :: int
  e_print :: "string \<Rightarrow> 's \<Rightarrow> 's"

abbreviation create_flags :: "(char \<times> 32 word) list" where
  "create_flags \<equiv> [(CHR ''c'', O_CREAT), (CHR ''x'', O_EXCL)]"

definition psem_create_main :: "'s psemk \<Rightarrow> string list \<Rightarrow> 's \<Rightarrow> (unit, 's) outcome" where
  "psem_create_main K argv s =
     (let (opts, args) = getopt ''cx'' argv in
      case flag_opts create_flags opts 0 of
        None \<Rightarrow> Exited 1 s
      | Some flags \<Rightarrow>
          if args = [] then Exited 1 s
          else
            (case octal_perms (drop 1 args) of
               Inl e \<Rightarrow> Exited 1 s
             | Inr perms \<Rightarrow>
                 andThen (if length args \<le> 2 then Ret 0 s else num_or_exit (getInt (Some (args ! 2)) 0 (Some ''value'')) s) (\<lambda>v s.
                 case e_open K (args ! 0) flags (Some (perms, word_of_int v)) s of
                   (sem, s) \<Rightarrow> Exited (if sem = None then 1 else 0) s)))"

text \<open>The part that the programs on an existing semaphore share.\<close>

definition with_sem :: "'s psemk \<Rightarrow> string \<Rightarrow> (int \<Rightarrow> 's \<Rightarrow> (unit, 's) outcome) \<Rightarrow> 's \<Rightarrow> (unit, 's) outcome" where
  "with_sem K name op s = (case e_open K name 0 None s of (None, s) \<Rightarrow> Exited 1 s | (Some sem, s) \<Rightarrow> op sem s)"

definition psem_post_main :: "'s psemk \<Rightarrow> string list \<Rightarrow> 's \<Rightarrow> (unit, 's) outcome" where
  "psem_post_main K argv s =
     (if length argv \<noteq> 2 then Exited 1 s
      else with_sem K (argv ! 1) (\<lambda>sem s. case e_post K sem s of (ok, s) \<Rightarrow> Exited (if ok then 0 else 1) s) s)"

definition wait_text :: "'s psemk \<Rightarrow> string" where
  "wait_text K = show_int (e_getpid K) @ '' sem_wait() succeeded'' @ [nl]"

definition psem_wait_main :: "'s psemk \<Rightarrow> string list \<Rightarrow> 's \<Rightarrow> (unit, 's) outcome" where
  "psem_wait_main K argv s =
     (if length argv < 2 \<or> argv ! 1 = ''--help'' then Exited 1 s
      else with_sem K (argv ! 1) (\<lambda>sem s. case e_wait K sem s of
             (ok, s) \<Rightarrow> if ok then Exited 0 (e_print K (wait_text K) s) else Exited 1 s) s)"

definition psem_trywait_main :: "'s psemk \<Rightarrow> string list \<Rightarrow> 's \<Rightarrow> (unit, 's) outcome" where
  "psem_trywait_main K argv s =
     (if length argv < 2 \<or> argv ! 1 = ''--help'' then Exited 1 s
      else with_sem K (argv ! 1) (\<lambda>sem s. case e_trywait K sem s of (ok, s) \<Rightarrow> Exited (if ok then 0 else 1) s) s)"

definition psem_timedwait_main :: "'s psemk \<Rightarrow> string list \<Rightarrow> 's \<Rightarrow> (unit, 's) outcome" where
  "psem_timedwait_main K argv s =
     (if length argv \<noteq> 3 \<or> argv ! 1 = ''--help'' then Exited 1 s
      else with_sem K (argv ! 1) (\<lambda>sem s.
             case e_gettime K s of
               (None, s) \<Rightarrow> Exited 1 s
             | (Some (tv_sec, tv_nsec), s) \<Rightarrow>
                 (case e_timedwait K sem (tv_sec + atoi (argv ! 2), tv_nsec) s of
                    (ok, s) \<Rightarrow> if ok then Exited 0 (e_print K (wait_text K) s) else Exited 1 s)) s)"

definition psem_getvalue_main :: "'s psemk \<Rightarrow> string list \<Rightarrow> 's \<Rightarrow> (unit, 's) outcome" where
  "psem_getvalue_main K argv s =
     (if length argv \<noteq> 2 then Exited 1 s
      else with_sem K (argv ! 1) (\<lambda>sem s.
             case e_getvalue K sem s of
               (None, s) \<Rightarrow> Exited 1 s
             | (Some v, s) \<Rightarrow> Exited 0 (e_print K (show_int v @ [nl]) s)) s)"

definition psem_unlink_main :: "'s psemk \<Rightarrow> string list \<Rightarrow> 's \<Rightarrow> (unit, 's) outcome" where
  "psem_unlink_main K argv s =
     (if length argv \<noteq> 2 \<or> argv ! 1 = ''--help'' then Exited 1 s
      else (case e_unlink K (argv ! 1) s of (ok, s) \<Rightarrow> Exited (if ok then 0 else 1) s))"

section \<open>Shared memory\<close>

text \<open>\<open>h_mmap\<close> maps an object from its beginning and gives an address, \<open>None\<close> for \<open>MAP_FAILED\<close>; \<open>h_store\<close> is
  \<open>memcpy\<close> to an address, \<open>h_write\<close> is \<open>write\<close> of bytes at an address to the standard output.\<close>

record 's pshmk =
  h_open :: "string \<Rightarrow> 32 word \<Rightarrow> 32 word \<Rightarrow> 's \<Rightarrow> int \<times> 's"
  h_ftruncate :: "int \<Rightarrow> 64 word \<Rightarrow> 's \<Rightarrow> bool \<times> 's"
  h_fstat :: "int \<Rightarrow> 's \<Rightarrow> 64 word option \<times> 's"
  h_mmap :: "64 word \<Rightarrow> bool \<Rightarrow> int \<Rightarrow> 's \<Rightarrow> int option \<times> 's"
  h_close :: "int \<Rightarrow> 's \<Rightarrow> bool \<times> 's"
  h_store :: "int \<Rightarrow> string \<Rightarrow> 's \<Rightarrow> 's"
  h_write :: "int \<Rightarrow> 64 word \<Rightarrow> 's \<Rightarrow> 's"
  h_unlink :: "string \<Rightarrow> 's \<Rightarrow> bool \<times> 's"
  h_print :: "string \<Rightarrow> 's \<Rightarrow> 's"

definition long_perms :: "string list \<Rightarrow> 's \<Rightarrow> (int, 's) outcome" where
  "long_perms args s =
     (case args of
        [] \<Rightarrow> Ret (uint (S_IRUSR OR S_IWUSR)) s
      | a # _ \<Rightarrow> num_or_exit (getLong (Some a) GN_BASE_8 (Some ''octal-perms'')) s)"

definition pshm_create_main :: "'s pshmk \<Rightarrow> string list \<Rightarrow> 's \<Rightarrow> (unit, 's) outcome" where
  "pshm_create_main K argv s =
     (let (opts, args) = getopt ''cx'' argv in
      case flag_opts create_flags opts O_RDWR of
        None \<Rightarrow> Exited 1 s
      | Some flags \<Rightarrow>
          if length args < 2 then Exited 1 s
          else
            andThen (num_or_exit (getLong (Some (args ! 1)) GN_ANY_BASE (Some ''size'')) s) (\<lambda>sz s.
            andThen (long_perms (drop 2 args) s) (\<lambda>perms s.
            case h_open K (args ! 0) flags (word_of_int perms) s of
              (fd, s) \<Rightarrow>
                if fd = -1 then Exited 1 s
                else
                  (case h_ftruncate K fd (word_of_int sz) s of
                     (False, s) \<Rightarrow> Exited 1 s
                   | (True, s) \<Rightarrow>
                       (case h_mmap K (word_of_int sz) True fd s of
                          (addr, s) \<Rightarrow> Exited (if addr = None then 1 else 0) s)))))"

definition pshm_write_main :: "'s pshmk \<Rightarrow> string list \<Rightarrow> 's \<Rightarrow> (unit, 's) outcome" where
  "pshm_write_main K argv s =
     (if length argv \<noteq> 3 \<or> argv ! 1 = ''--help'' then Exited 1 s
      else
        (case h_open K (argv ! 1) O_RDWR 0 s of
           (fd, s) \<Rightarrow>
             if fd = -1 then Exited 1 s
             else
               (let len = word_of_nat (length (argv ! 2)) in
                case h_ftruncate K fd len s of
                  (False, s) \<Rightarrow> Exited 1 s
                | (True, s) \<Rightarrow>
                    (let s = h_print K (''Resized to '' @ show_int (sint len) @ '' bytes'' @ [nl]) s in
                     case h_mmap K len True fd s of
                       (None, s) \<Rightarrow> Exited 1 s
                     | (Some addr, s) \<Rightarrow>
                         (case h_close K fd s of
                            (False, s) \<Rightarrow> Exited 1 s
                          | (True, s) \<Rightarrow>
                              (let s = h_print K (''copying '' @ show_int (sint len) @ '' bytes'' @ [nl]) s
                               in Exited 0 (h_store K addr (argv ! 2) s)))))))"

definition pshm_read_main :: "'s pshmk \<Rightarrow> string list \<Rightarrow> 's \<Rightarrow> (unit, 's) outcome" where
  "pshm_read_main K argv s =
     (if length argv \<noteq> 2 \<or> argv ! 1 = ''--help'' then Exited 1 s
      else
        (case h_open K (argv ! 1) O_RDONLY 0 s of
           (fd, s) \<Rightarrow>
             if fd = -1 then Exited 1 s
             else
               (case h_fstat K fd s of
                  (None, s) \<Rightarrow> Exited 1 s
                | (Some st_size, s) \<Rightarrow>
                    (case h_mmap K st_size False fd s of
                       (None, s) \<Rightarrow> Exited 1 s
                     | (Some addr, s) \<Rightarrow>
                         (case h_close K fd s of
                            (False, s) \<Rightarrow> Exited 1 s
                          | (True, s) \<Rightarrow> Exited 0 (h_print K [nl] (h_write K addr st_size s)))))))"

definition pshm_unlink_main :: "'s pshmk \<Rightarrow> string list \<Rightarrow> 's \<Rightarrow> (unit, 's) outcome" where
  "pshm_unlink_main K argv s =
     (if length argv \<noteq> 2 \<or> argv ! 1 = ''--help'' then Exited 1 s
      else (case h_unlink K (argv ! 1) s of (ok, s) \<Rightarrow> Exited (if ok then 0 else 1) s))"

section \<open>Contract of semaphores\<close>

text \<open>\<open>val s name\<close> is the value of the semaphore of that name, if there is one, and \<open>names\<close> the name of an open
  semaphore.\<close>

locale named_semaphores =
  fixes K :: "'s psemk" and val :: "'s \<Rightarrow> string \<Rightarrow> nat option" and names :: "'s \<Rightarrow> int \<Rightarrow> string option" and out :: "'s \<Rightarrow> string"
  assumes open_sem: "e_open K name flags x s = (r, s') \<Longrightarrow> out s' = out s \<and>
      (case r of None \<Rightarrow> val s' = val s
       | Some sem \<Rightarrow> names s' sem = Some name \<and>
           (case val s name of Some v \<Rightarrow> val s' = val s
            | None \<Rightarrow> \<exists>perms v. x = Some (perms, v) \<and> val s' = (val s)(name \<mapsto> unat v)))"
    and post_sem: "e_post K sem s = (ok, s') \<Longrightarrow> names s sem = Some name \<Longrightarrow> val s name = Some v \<Longrightarrow>
      out s' = out s \<and> val s' = (if ok then (val s)(name \<mapsto> Suc v) else val s)"
    and take_sem: "w \<in> {e_wait K, e_trywait K, \<lambda>sem. e_timedwait K sem t} \<Longrightarrow> w sem s = (ok, s') \<Longrightarrow> names s sem = Some name \<Longrightarrow>
      val s name = Some v \<Longrightarrow> out s' = out s \<and> (if ok then 0 < v \<and> val s' = (val s)(name \<mapsto> v - 1) else val s' = val s)"
    and gettime_sem: "e_gettime K s = (now, s') \<Longrightarrow> out s' = out s \<and> val s' = val s \<and> names s' = names s"
    and getvalue_sem: "e_getvalue K sem s = (r, s') \<Longrightarrow> names s sem = Some name \<Longrightarrow> val s name = Some v \<Longrightarrow>
      out s' = out s \<and> val s' = val s \<and> (r = None \<or> r = Some (int v))"
    and print_sem: "out (e_print K txt s) = out s @ txt \<and> val (e_print K txt s) = val s"

text \<open>The programs on an existing semaphore, and what they do to its value and print.\<close>

datatype psem_cmd = Post | Wait | Trywait | Timedwait string | Getvalue

fun psem_run :: "'s psemk \<Rightarrow> string \<Rightarrow> psem_cmd \<Rightarrow> 's \<Rightarrow> (unit, 's) outcome" where
  "psem_run K name Post = psem_post_main K [''psem_post'', name]"
| "psem_run K name Wait = psem_wait_main K [''psem_wait'', name]"
| "psem_run K name Trywait = psem_trywait_main K [''psem_trywait'', name]"
| "psem_run K name (Timedwait secs) = psem_timedwait_main K [''psem_timedwait'', name, secs]"
| "psem_run K name Getvalue = psem_getvalue_main K [''psem_getvalue'', name]"

fun sem_effect :: "string \<Rightarrow> psem_cmd \<Rightarrow> nat \<Rightarrow> (nat \<times> string) option" where
  "sem_effect txt Post v = Some (Suc v, [])"
| "sem_effect txt Wait v = (if 0 < v then Some (v - 1, txt) else None)"
| "sem_effect txt Trywait v = (if 0 < v then Some (v - 1, []) else None)"
| "sem_effect txt (Timedwait secs) v = (if 0 < v then Some (v - 1, txt) else None)"
| "sem_effect txt Getvalue v = Some (v, show_nat v @ [nl])"

fun sem_effects :: "string \<Rightarrow> psem_cmd list \<Rightarrow> nat \<Rightarrow> (nat \<times> string) option" where
  "sem_effects txt [] v = Some (v, [])"
| "sem_effects txt (c # cs) v =
     (case sem_effect txt c v of None \<Rightarrow> None | Some (v, o1) \<Rightarrow> map_option (map_prod id ((@) o1)) (sem_effects txt cs v))"

context named_semaphores
begin

lemma with_sem_open:
  assumes "with_sem K name op s = Exited 0 s'" "val s name = Some v"
  obtains sem s1 where "op sem s1 = Exited 0 s'" "names s1 sem = Some name" "val s1 = val s" "out s1 = out s"
proof -
  obtain r s1 where o: "e_open K name 0 None s = (r, s1)" by fastforce
  with assms(1) obtain sem where sem: "r = Some sem" "op sem s1 = Exited 0 s'" by (auto simp: with_sem_def split: option.splits)
  from open_sem [OF o] sem(1) assms(2) have "names s1 sem = Some name" "val s1 = val s" "out s1 = out s" by simp_all
  with sem(2) show thesis by (rule that)
qed

text \<open>One lemma for the three ways to wait.\<close>

lemma take_sem_effect:
  assumes "(case w sem s of (ok, s) \<Rightarrow> if ok then Exited 0 (f s) else Exited 1 s) = Exited 0 s'"
    and "w \<in> {e_wait K, e_trywait K, \<lambda>sem. e_timedwait K sem t}" "names s sem = Some name" "val s name = Some v"
    and "\<And>s. val (f s) = val s \<and> out (f s) = out s @ msg"
  shows "0 < v \<and> val s' = (val s)(name \<mapsto> v - 1) \<and> out s' = out s @ msg"
proof -
  obtain ok s1 where w: "w sem s = (ok, s1)" by fastforce
  from take_sem [OF assms(2) w assms(3,4)] assms(1,5) w show ?thesis by (auto split: if_splits)
qed

lemma psem_run_effect:
  assumes "psem_run K name c s = Exited 0 s'" "val s name = Some v" "name \<noteq> ''--help''"
  shows "\<exists>v' txt. sem_effect (wait_text K) c v = Some (v', txt) \<and> val s' = (val s)(name \<mapsto> v') \<and> out s' = out s @ txt"
proof (cases c)
  case Post
  let ?op = "\<lambda>sem s. case e_post K sem s of (ok, s) \<Rightarrow> Exited (if ok then 0 else 1) s"
  from Post assms have "with_sem K name ?op s = Exited 0 s'" by (simp add: psem_post_main_def)
  then obtain sem s1 where s1: "?op sem s1 = (Exited 0 s' :: (unit, 's) outcome)" "names s1 sem = Some name" "val s1 = val s" "out s1 = out s"
    using assms(2) by (rule with_sem_open)
  obtain ok s2 where p: "e_post K sem s1 = (ok, s2)" by fastforce
  with s1(1) have "ok" "s2 = s'" by (auto split: if_splits)
  with post_sem [OF p s1(2)] s1(3,4) assms(2) Post show ?thesis by simp
next
  case Wait
  let ?op = "\<lambda>sem s. case e_wait K sem s of (ok, s) \<Rightarrow> if ok then Exited 0 (e_print K (wait_text K) s) else Exited 1 s"
  from Wait assms have "with_sem K name ?op s = Exited 0 s'" by (simp add: psem_wait_main_def)
  then obtain sem s1 where s1: "?op sem s1 = (Exited 0 s' :: (unit, 's) outcome)" "names s1 sem = Some name" "val s1 = val s" "out s1 = out s"
    using assms(2) by (rule with_sem_open)
  from take_sem_effect [where w = "e_wait K" and f = "e_print K (wait_text K)" and msg = "wait_text K" and v = v, OF s1(1) _ s1(2)] s1(3,4) assms(2) Wait print_sem show ?thesis by auto
next
  case Trywait
  let ?op = "\<lambda>sem s. case e_trywait K sem s of (ok, s) \<Rightarrow> if ok then Exited 0 (id s) else Exited 1 s"
  have "(if ok then Exited 0 (id s) else Exited 1 s) = (Exited (if ok then 0 else 1) s :: (unit, 's) outcome)" for ok s by simp
  with Trywait assms have "with_sem K name ?op s = Exited 0 s'" by (simp add: psem_trywait_main_def)
  then obtain sem s1 where s1: "?op sem s1 = (Exited 0 s' :: (unit, 's) outcome)" "names s1 sem = Some name" "val s1 = val s" "out s1 = out s"
    using assms(2) by (rule with_sem_open)
  from take_sem_effect [where w = "e_trywait K" and f = id and msg = "[]" and v = v, OF s1(1) _ s1(2)] s1(3,4) assms(2) Trywait show ?thesis by auto
next
  case (Timedwait secs)
  let ?op = "\<lambda>t sem s. case e_timedwait K sem t s of (ok, s) \<Rightarrow> if ok then Exited 0 (e_print K (wait_text K) s) else Exited 1 s"
  let ?main = "\<lambda>sem s. case e_gettime K s of (None, s) \<Rightarrow> Exited 1 s
    | (Some (tv_sec, tv_nsec), s) \<Rightarrow> ?op (tv_sec + atoi secs, tv_nsec) sem s"
  have nth: "[''psem_timedwait'', name, secs] ! 2 = secs" by simp
  from assms(1) have "with_sem K name ?main s = Exited 0 s'"
    using assms(3) unfolding Timedwait psem_run.simps psem_timedwait_main_def nth by simp
  then obtain sem s1 where s1: "?main sem s1 = (Exited 0 s' :: (unit, 's) outcome)" "names s1 sem = Some name" "val s1 = val s" "out s1 = out s"
    using assms(2) by (rule with_sem_open)
  from s1(1) obtain tm s2 where t: "e_gettime K s1 = (Some tm, s2)" "?op (fst tm + atoi secs, snd tm) sem s2 = (Exited 0 s' :: (unit, 's) outcome)"
    by (auto split: prod.splits option.splits)
  have "names s2 sem = Some name" "val s2 name = Some v" "val s2 = val s" "out s2 = out s" using gettime_sem [OF t(1)] s1(2-4) assms(2) by simp_all
  with take_sem_effect [where w = "\<lambda>sem. e_timedwait K sem (fst tm + atoi secs, snd tm)" and f = "e_print K (wait_text K)" and
      msg = "wait_text K" and t = "(fst tm + atoi secs, snd tm)" and name = name and v = v, OF t(2)] print_sem Timedwait
  show ?thesis by auto
next
  case Getvalue
  let ?op = "\<lambda>sem s. case e_getvalue K sem s of (None, s) \<Rightarrow> Exited 1 s | (Some v, s) \<Rightarrow> Exited 0 (e_print K (show_int v @ [nl]) s)"
  from Getvalue assms have "with_sem K name ?op s = Exited 0 s'" by (simp add: psem_getvalue_main_def)
  then obtain sem s1 where s1: "?op sem s1 = (Exited 0 s' :: (unit, 's) outcome)" "names s1 sem = Some name" "val s1 = val s" "out s1 = out s"
    using assms(2) by (rule with_sem_open)
  obtain r s2 where g: "e_getvalue K sem s1 = (r, s2)" by fastforce
  from getvalue_sem [OF g s1(2)] s1 g assms(2) Getvalue print_sem show ?thesis by (auto simp: show_int_def fun_upd_idem split: option.splits)
qed

lemma psem_runs_effects:
  "all_succeed (map (psem_run K name) cs) s = Some s' \<Longrightarrow> val s name = Some v \<Longrightarrow> name \<noteq> ''--help'' \<Longrightarrow>
     \<exists>v' txt. sem_effects (wait_text K) cs v = Some (v', txt) \<and> val s' = (val s)(name \<mapsto> v') \<and> out s' = out s @ txt"
proof (induction cs arbitrary: s v)
  case (Cons c cs)
  then obtain s1 where s1: "psem_run K name c s = Exited 0 s1" "all_succeed (map (psem_run K name) cs) s1 = Some s'"
    by (auto split: outcome.splits if_splits)
  from psem_run_effect [OF s1(1) Cons.prems(2,3)] obtain v1 o1 where v1: "sem_effect (wait_text K) c v = Some (v1, o1)"
    "val s1 = (val s)(name \<mapsto> v1)" "out s1 = out s @ o1" by blast
  with Cons.IH [OF s1(2) _ Cons.prems(3), of v1] show ?case by (auto simp: fun_eq_iff)
qed (simp add: fun_upd_idem)

end

definition psem_create_argv :: "string \<Rightarrow> int \<Rightarrow> string list" where
  "psem_create_argv name v = [''psem_create'', ''-c'', ''--'', name, ''600'', show_int v]"

lemma psem_create_argv_run:
  assumes "0 \<le> v" "v \<le> INT_MAX"
  shows "psem_create_main K (psem_create_argv name v) s =
    (case e_open K name O_CREAT (Some (0x180, word_of_int v)) s of (sem, s) \<Rightarrow> Exited (if sem = None then 1 else 0) s)"
proof -
  have g: "getopt ''cx'' (psem_create_argv name v) = ([(CHR ''c'', [])], [name, ''600'', show_int v])"
    by (simp add: getopt_def psem_create_argv_def getopt_run.simps opt_known_def takes_arg_def)
  have p: "getInt (Some ''600'') GN_BASE_8 (Some ''octal-perms'') = Inr 384" by code_simp
  have n: "getInt (Some (show_int v)) 0 (Some ''value'') = Inr v" using assms by (intro getInt_show_int) (simp_all add: INT_MIN_def)
  show ?thesis by (simp add: psem_create_main_def g octal_perms_def p n)
qed

definition takes :: "psem_cmd \<Rightarrow> bool" where
  "takes c \<longleftrightarrow> c \<noteq> Post \<and> c \<noteq> Getvalue"

lemma sem_effects_count:
  "sem_effects txt cs v = Some (v', o') \<Longrightarrow> int v' = int v + int (length (filter ((=) Post) cs)) - int (length (filter takes cs))"
proof (induction cs arbitrary: v o')
  case (Cons c cs)
  then show ?case by (cases c) (auto simp: takes_def split: if_splits option.splits)
qed simp

section \<open>Reference semaphores\<close>

record refps =
  rp_val :: "string \<Rightarrow> nat option"
  rp_open :: "string option"
  rp_out :: string

definition rp_take :: "int \<Rightarrow> refps \<Rightarrow> bool \<times> refps" where
  "rp_take sem s =
     (case rp_open s of None \<Rightarrow> (False, s)
      | Some name \<Rightarrow>
          (case rp_val s name of None \<Rightarrow> (False, s)
           | Some v \<Rightarrow> if 0 < v then (True, s\<lparr>rp_val := (rp_val s)(name \<mapsto> v - 1)\<rparr>) else (False, s)))"

definition ref_psemk :: "refps psemk" where
  "ref_psemk = \<lparr>e_open = (\<lambda>name flags x s.
       case (rp_val s name, x) of
         (Some v, _) \<Rightarrow> (Some 1, s\<lparr>rp_open := Some name\<rparr>)
       | (None, None) \<Rightarrow> (None, s)
       | (None, Some (perms, v)) \<Rightarrow> (Some 1, s\<lparr>rp_open := Some name, rp_val := (rp_val s)(name \<mapsto> unat v)\<rparr>)),
     e_post = (\<lambda>sem s. case rp_open s of None \<Rightarrow> (False, s)
       | Some name \<Rightarrow> (case rp_val s name of None \<Rightarrow> (False, s) | Some v \<Rightarrow> (True, s\<lparr>rp_val := (rp_val s)(name \<mapsto> Suc v)\<rparr>))),
     e_wait = rp_take, e_trywait = rp_take, e_gettime = (\<lambda>s. (Some (0, 0), s)), e_timedwait = (\<lambda>sem t. rp_take sem),
     e_getvalue = (\<lambda>sem s. case rp_open s of None \<Rightarrow> (None, s) | Some name \<Rightarrow> (map_option int (rp_val s name), s)),
     e_unlink = (\<lambda>name s. (True, s\<lparr>rp_val := (rp_val s)(name := None)\<rparr>)), e_getpid = 100,
     e_print = (\<lambda>txt s. s\<lparr>rp_out := rp_out s @ txt\<rparr>)\<rparr>"

interpretation rps: named_semaphores ref_psemk rp_val "\<lambda>s sem. rp_open s" rp_out
  by unfold_locales (auto simp: ref_psemk_def rp_take_def split: option.splits prod.splits if_splits)

text \<open>
  C27. POSIX semaphores from the command line: after \<open>psem_create\<close> with any value, every sequence of successful
  runs of \<open>psem_post\<close>, \<open>psem_wait\<close>, \<open>psem_trywait\<close>, \<open>psem_timedwait\<close> and \<open>psem_getvalue\<close> does to the semaphore what a
  counter does that is never taken below 0: its value is the first one, plus the posts, less
  the waits; what is printed are the values at the time and the messages of the waiters; no other
  semaphore changes.
\<close>

theorem psem_counts:
  assumes "named_semaphores K val names out" "name \<noteq> ''--help''" "0 \<le> v" "v \<le> INT_MAX" "val s name = None"
    and "all_succeed (psem_create_main K (psem_create_argv name v) # map (psem_run K name) cs) s = Some s'"
  shows "\<exists>v' o'. sem_effects (wait_text K) cs (nat v) = Some (v', o') \<and> val s' = (val s)(name \<mapsto> v') \<and> out s' = out s @ o' \<and>
    int v' = v + int (length (filter ((=) Post) cs)) - int (length (filter takes cs))"
proof -
  obtain r s1 where o: "e_open K name O_CREAT (Some (0x180, word_of_int v)) s = (r, s1)" by fastforce
  with assms(6) psem_create_argv_run [OF assms(3,4), of K name s] have r: "r \<noteq> None" "all_succeed (map (psem_run K name) cs) s1 = Some s'"
    by (auto split: if_splits)
  have "unat (word_of_int v :: 32 word) = nat v" using assms(3,4) by (simp add: unat_eq_nat_uint uint_word_of_int_eq take_bit_int_eq_self INT_MAX_def)
  with named_semaphores.open_sem [OF assms(1) o] r(1) assms(5) have s1: "val s1 = (val s)(name \<mapsto> nat v)" "out s1 = out s" by auto
  from named_semaphores.psem_runs_effects [OF assms(1) r(2) _ assms(2), of "nat v"] s1 obtain v' o' where
    v': "sem_effects (wait_text K) cs (nat v) = Some (v', o')" "val s' = (val s)(name \<mapsto> v')" "out s' = out s @ o'" by (auto simp: fun_eq_iff)
  with sem_effects_count [OF v'(1)] assms(3) show ?thesis by auto
qed

theorem psem_counts_witness:
  "\<exists>s'. all_succeed (psem_create_main ref_psemk (psem_create_argv ''/sem'' 1) # map (psem_run ref_psemk ''/sem'') [Post, Trywait, Getvalue])
      \<lparr>rp_val = (\<lambda>_. None), rp_open = None, rp_out = []\<rparr> = Some s' \<and> rp_val s' ''/sem'' = Some 1 \<and> rp_out s' = show_nat 1 @ [nl]"
proof -
  let ?s = "\<lparr>rp_val = (\<lambda>_. None), rp_open = None, rp_out = []\<rparr>" and ?cs = "[Post, Trywait, Getvalue]"
  let ?run = "all_succeed (psem_create_main ref_psemk (psem_create_argv ''/sem'' 1) # map (psem_run ref_psemk ''/sem'') ?cs) ?s"
  have one: "(0::int) \<le> 1" "(1::int) \<le> INT_MAX" by (simp_all add: INT_MAX_def)
  have "\<exists>s'. ?run = Some s'"
    by (simp add: psem_create_argv_run [OF one] ref_psemk_def psem_post_main_def psem_trywait_main_def psem_getvalue_main_def with_sem_def rp_take_def)
  then obtain s' where s': "?run = Some s'" by blast
  from psem_counts [OF rps.named_semaphores_axioms _ one _ s'] have "rp_val s' ''/sem'' = Some 1" "rp_out s' = show_nat 1 @ [nl]" by auto
  with s' show ?thesis by blast
qed

section \<open>Contract of shared memory\<close>

text \<open>\<open>object\<close> is the content of each object, \<open>fdname\<close> the object of a descriptor, and \<open>mapping\<close> the object at an
  address and how much of it is mapped.\<close>

definition resize :: "nat \<Rightarrow> string \<Rightarrow> string" where
  "resize n c = take n c @ replicate (n - length c) (CHR 0x00)"

lemma length_resize [simp]: "length (resize n c) = n"
  by (simp add: resize_def)

lemma unat_word_of_nat_64: "n < 2 ^ 64 \<Longrightarrow> unat (word_of_nat n :: 64 word) = n"
  by (simp add: unsigned_of_nat take_bit_nat_eq_self)

locale named_memory =
  fixes K :: "'s pshmk" and object :: "'s \<Rightarrow> string \<Rightarrow> string option" and fdname :: "'s \<Rightarrow> int \<Rightarrow> string option"
    and mapping :: "'s \<Rightarrow> int \<Rightarrow> (string \<times> nat) option" and out :: "'s \<Rightarrow> string"
  assumes open_object: "h_open K name flags perms s = (fd, s') \<Longrightarrow> out s' = out s \<and>
      (if fd = -1 then object s' = object s
       else fdname s' fd = Some name \<and>
         (if object s name \<noteq> None then object s' = object s else flags AND O_CREAT \<noteq> 0 \<and> object s' = (object s)(name \<mapsto> [])))"
    and ftruncate_object: "h_ftruncate K fd n s = (ok, s') \<Longrightarrow> fdname s fd = Some name \<Longrightarrow> object s name = Some c \<Longrightarrow>
      out s' = out s \<and> fdname s' = fdname s \<and> object s' = (if ok then (object s)(name \<mapsto> resize (unat n) c) else object s)"
    and fstat_object: "h_fstat K fd s = (r, s') \<Longrightarrow> fdname s fd = Some name \<Longrightarrow> object s name = Some c \<Longrightarrow>
      out s' = out s \<and> fdname s' = fdname s \<and> object s' = object s \<and> (\<forall>n. r = Some n \<longrightarrow> unat n = length c)"
    and mmap_object: "h_mmap K n wr fd s = (a, s') \<Longrightarrow> fdname s fd = Some name \<Longrightarrow>
      out s' = out s \<and> object s' = object s \<and> (\<forall>addr. a = Some addr \<longrightarrow> n \<noteq> 0 \<and> mapping s' addr = Some (name, unat n))"
    and close_object: "h_close K fd s = (ok, s') \<Longrightarrow> out s' = out s \<and> object s' = object s \<and> mapping s' = mapping s"
    and store_object: "mapping s addr = Some (name, k) \<Longrightarrow> length t \<le> k \<Longrightarrow> object s name = Some c \<Longrightarrow> k \<le> length c \<Longrightarrow>
      out (h_store K addr t s) = out s \<and> object (h_store K addr t s) = (object s)(name \<mapsto> t @ drop (length t) c)"
    and write_object: "mapping s addr = Some (name, k) \<Longrightarrow> unat n \<le> k \<Longrightarrow> object s name = Some c \<Longrightarrow> k \<le> length c \<Longrightarrow>
      out (h_write K addr n s) = out s @ take (unat n) c \<and> object (h_write K addr n s) = object s"
    and print_object: "out (h_print K txt s) = out s @ txt \<and> object (h_print K txt s) = object s \<and> fdname (h_print K txt s) = fdname s \<and>
      mapping (h_print K txt s) = mapping s"

definition size_line :: "string \<Rightarrow> string \<Rightarrow> string" where
  "size_line verb t = verb @ show_nat (length t) @ '' bytes'' @ [nl]"

lemma all_succeed_Cons: "all_succeed (p # ps) s = Some s' \<Longrightarrow> \<exists>s1. p s = Exited 0 s1 \<and> all_succeed ps s1 = Some s'"
  by (auto split: outcome.splits if_splits)

context named_memory
begin

lemma open_success:
  assumes "h_open K name flags perms s = (fd, s')" "fd \<noteq> -1"
  shows "fdname s' fd = Some name \<and> out s' = out s \<and> object s' = (object s)(name \<mapsto> case object s name of None \<Rightarrow> [] | Some c \<Rightarrow> c)"
  using open_object [OF assms(1)] assms(2) by (auto split: if_splits option.splits)

text \<open>What each program does when it ends with status 0.\<close>

lemma pshm_create_effect:
  assumes "pshm_create_main K argv s = Exited 0 s'" "getopt ''cx'' argv = (opts, args)"
  shows "\<exists>k. getLong (Some (args ! 1)) GN_ANY_BASE (Some ''size'') = Inr k \<and> out s' = out s \<and>
    object s' = (object s)(args ! 0 \<mapsto> resize (unat (word_of_int k :: 64 word)) (case object s (args ! 0) of None \<Rightarrow> [] | Some c \<Rightarrow> c))"
proof -
  let ?c = "case object s (args ! 0) of None \<Rightarrow> [] | Some c \<Rightarrow> c"
  from assms obtain flags where "flag_opts create_flags opts O_RDWR = Some flags" "\<not> length args < 2"
    by (auto simp: pshm_create_main_def split: option.splits if_splits)
  note main = assms(1) [unfolded pshm_create_main_def assms(2) prod.case Let_def, simplified this, simplified]
  from main obtain k where k: "getLong (Some (args ! 1)) GN_ANY_BASE (Some ''size'') = Inr k"
    by (cases "getLong (Some (args ! 1)) GN_ANY_BASE (Some ''size'')") auto
  from main k obtain perms where p: "long_perms (drop 2 args) s = Ret perms s"
    by (auto simp: long_perms_def num_or_exit_def split: list.splits sum.splits)
  obtain fd s1 where o: "h_open K (args ! 0) flags (word_of_int perms) s = (fd, s1)" by fastforce
  obtain ok s2 where t: "h_ftruncate K fd (word_of_int k) s1 = (ok, s2)" by fastforce
  obtain a s3 where m: "h_mmap K (word_of_int k) True fd s2 = (a, s3)" by fastforce
  from main k p o t m have r: "fd \<noteq> -1" "ok" "s3 = s'" by (auto split: if_splits bool.splits)
  note e1 = open_success [OF o r(1)]
  then have "object s1 (args ! 0) = Some ?c" by simp
  from ftruncate_object [OF t _ this] e1 r(2) have e2: "fdname s2 fd = Some (args ! 0)" "out s2 = out s"
    "object s2 = (object s)(args ! 0 \<mapsto> resize (unat (word_of_int k :: 64 word)) ?c)" by auto
  with mmap_object [OF m e2(1)] k r(3) show ?thesis by simp
qed

lemma pshm_write_effect:
  assumes "pshm_write_main K [p, name, t] s = Exited 0 s'" "length t < 2 ^ 63"
  shows "t \<noteq> [] \<and> object s' = (object s)(name \<mapsto> t) \<and> out s' = out s @ size_line ''Resized to '' t @ size_line ''copying '' t"
proof -
  let ?c = "case object s name of None \<Rightarrow> [] | Some c \<Rightarrow> c" and ?len = "word_of_nat (length t) :: 64 word"
  have len: "unat ?len = length t" using assms(2) by (intro unat_word_of_nat_64) simp
  have "sint ?len = int (length t)" using assms(2) by (simp add: signed_of_nat signed_take_bit_int_eq_self)
  then have show_len: "show_int (sint ?len) = show_nat (length t)" by (simp add: show_int_def)
  obtain fd s1 where o: "h_open K name O_RDWR 0 s = (fd, s1)" by fastforce
  obtain ok s2 where tr: "h_ftruncate K fd ?len s1 = (ok, s2)" by fastforce
  let ?s2 = "h_print K (size_line ''Resized to '' t) s2"
  obtain a s3 where m: "h_mmap K ?len True fd ?s2 = (a, s3)" by fastforce
  obtain ok' s4 where cl: "h_close K fd s3 = (ok', s4)" by fastforce
  let ?s4 = "h_print K (size_line ''copying '' t) s4"
  from assms(1) o tr m cl have r: "fd \<noteq> -1" "ok" "ok'" "\<exists>addr. a = Some addr \<and> s' = h_store K addr t ?s4"
    by (auto simp: pshm_write_main_def Let_def show_len size_line_def split: if_splits option.splits bool.splits)
  then obtain addr where addr: "a = Some addr" "s' = h_store K addr t ?s4" by blast
  note e1 = open_success [OF o r(1)]
  then have "object s1 name = Some ?c" by simp
  from ftruncate_object [OF tr _ this] e1 r(2) len have e2: "fdname s2 fd = Some name" "out s2 = out s"
    "object s2 = (object s)(name \<mapsto> resize (length t) ?c)" by auto
  from mmap_object [OF m, of name] e2 print_object addr(1) have "?len \<noteq> 0" "mapping s3 addr = Some (name, unat ?len)"
    "out s3 = out s @ size_line ''Resized to '' t" "object s3 = (object s)(name \<mapsto> resize (length t) ?c)" by simp_all
  with close_object [OF cl] print_object len have e3: "t \<noteq> []" "mapping ?s4 addr = Some (name, length t)"
    "out ?s4 = out s @ size_line ''Resized to '' t @ size_line ''copying '' t" "object ?s4 = (object s)(name \<mapsto> resize (length t) ?c)" by auto
  then have "object ?s4 name = Some (resize (length t) ?c)" by simp
  from store_object [OF e3(2) _ this] e3 addr(2) show ?thesis by simp
qed

lemma pshm_read_effect:
  assumes "pshm_read_main K [p, name] s = Exited 0 s'" "object s name = Some c"
  shows "object s' = object s \<and> out s' = out s @ c @ [nl]"
proof -
  obtain fd s1 where o: "h_open K name O_RDONLY 0 s = (fd, s1)" by fastforce
  obtain r s2 where st: "h_fstat K fd s1 = (r, s2)" by fastforce
  obtain a s3 where m: "h_mmap K (the r) False fd s2 = (a, s3)" by fastforce
  obtain ok s4 where cl: "h_close K fd s3 = (ok, s4)" by fastforce
  from assms(1) o st m cl have r: "fd \<noteq> -1" "\<exists>n addr. r = Some n \<and> a = Some addr \<and> s' = h_print K [nl] (h_write K addr n s4)"
    by (auto simp: pshm_read_main_def split: if_splits option.splits bool.splits)
  then obtain n addr where n: "r = Some n" "a = Some addr" "s' = h_print K [nl] (h_write K addr n s4)" by blast
  from open_object [OF o] r(1) assms(2) have e1: "fdname s1 fd = Some name" "object s1 name = Some c" "object s1 = object s" "out s1 = out s" by simp_all
  from fstat_object [OF st e1(1,2)] n(1) e1 have e2: "fdname s2 fd = Some name" "unat n = length c" "object s2 = object s" "out s2 = out s" by simp_all
  from mmap_object [OF m e2(1)] close_object [OF cl] n(1,2) e2
  have e3: "mapping s4 addr = Some (name, length c)" "object s4 = object s" "out s4 = out s" by simp_all
  with write_object [OF e3(1), of n c] assms(2) e2(2) n(3) print_object show ?thesis by simp
qed

end

section \<open>Reference memory\<close>

record refsh =
  rh_object :: "string \<Rightarrow> string option"
  rh_name :: "string option"
  rh_map :: "(string \<times> nat) option"
  rh_out :: string

definition ref_pshmk :: "refsh pshmk" where
  "ref_pshmk = \<lparr>h_open = (\<lambda>name flags perms s.
       if rh_object s name \<noteq> None then (3, s\<lparr>rh_name := Some name\<rparr>)
       else if flags AND O_CREAT \<noteq> 0 then (3, s\<lparr>rh_name := Some name, rh_object := (rh_object s)(name \<mapsto> [])\<rparr>)
       else (-1, s)),
     h_ftruncate = (\<lambda>fd n s. case rh_name s of None \<Rightarrow> (False, s)
       | Some name \<Rightarrow> (True, s\<lparr>rh_object := (rh_object s)(name := map_option (resize (unat n)) (rh_object s name))\<rparr>)),
     h_fstat = (\<lambda>fd s. case rh_name s of None \<Rightarrow> (None, s)
       | Some name \<Rightarrow> (case rh_object s name of None \<Rightarrow> (None, s)
           | Some c \<Rightarrow> (if length c < 2 ^ 64 then Some (word_of_nat (length c)) else None, s))),
     h_mmap = (\<lambda>n wr fd s. case rh_name s of None \<Rightarrow> (None, s)
       | Some name \<Rightarrow> if n = 0 then (None, s) else (Some 0, s\<lparr>rh_map := Some (name, unat n)\<rparr>)),
     h_close = (\<lambda>fd s. (True, s)),
     h_store = (\<lambda>addr t s. case rh_map s of None \<Rightarrow> s
       | Some (name, k) \<Rightarrow> s\<lparr>rh_object := (rh_object s)(name := map_option (\<lambda>c. t @ drop (length t) c) (rh_object s name))\<rparr>),
     h_write = (\<lambda>addr n s. case rh_map s of None \<Rightarrow> s
       | Some (name, k) \<Rightarrow> (case rh_object s name of None \<Rightarrow> s | Some c \<Rightarrow> s\<lparr>rh_out := rh_out s @ take (unat n) c\<rparr>)),
     h_unlink = (\<lambda>name s. (True, s\<lparr>rh_object := (rh_object s)(name := None)\<rparr>)),
     h_print = (\<lambda>txt s. s\<lparr>rh_out := rh_out s @ txt\<rparr>)\<rparr>"

interpretation rsh: named_memory ref_pshmk rh_object "\<lambda>s fd. rh_name s" "\<lambda>s addr. rh_map s" rh_out
  by unfold_locales (auto simp: ref_pshmk_def unat_word_of_nat_64 split: option.splits if_splits)

text \<open>
  C28. Shared memory from the command line: a text that \<open>pshm_write\<close> puts into an object, created
  by \<open>pshm_create\<close> with any size and any options, is what \<open>pshm_read\<close> prints, byte for byte, null bytes included and
  whatever the object held before; the object then has exactly that size, and no other object is
  touched.  An empty text is never written with success.
\<close>

theorem pshm_roundtrip:
  assumes "named_memory K object fdname mapping out" "getopt ''cx'' argv = (opts, name # args)" "length t < 2 ^ 63"
    and "all_succeed [pshm_create_main K argv, pshm_write_main K [p, name, t], pshm_read_main K [q, name]] s = Some s'"
  shows "t \<noteq> [] \<and> object s' = (object s)(name \<mapsto> t) \<and>
    out s' = out s @ size_line ''Resized to '' t @ size_line ''copying '' t @ t @ [nl]"
proof -
  from all_succeed_Cons [OF assms(4)] obtain s1 where s1: "pshm_create_main K argv s = Exited 0 s1"
    "all_succeed [pshm_write_main K [p, name, t], pshm_read_main K [q, name]] s1 = Some s'" by blast
  from all_succeed_Cons [OF s1(2)] obtain s2 where s2: "pshm_write_main K [p, name, t] s1 = Exited 0 s2"
    "all_succeed [pshm_read_main K [q, name]] s2 = Some s'" by blast
  from all_succeed_Cons [OF s2(2)] have s3: "pshm_read_main K [q, name] s2 = Exited 0 s'" by simp
  from named_memory.pshm_create_effect [OF assms(1) s1(1) assms(2)] obtain c where e1: "object s1 = (object s)(name \<mapsto> c)" "out s1 = out s" by auto
  note e2 = named_memory.pshm_write_effect [OF assms(1) s2(1) assms(3)]
  then have e2': "object s2 name = Some t" "object s2 = (object s)(name \<mapsto> t)" unfolding e1(1) by simp_all
  show ?thesis using named_memory.pshm_read_effect [OF assms(1) s3 e2'(1)] e2 [THEN conjunct1] e2 [THEN conjunct2, THEN conjunct2] unfolding e1(2) e2'(2) by (auto simp: fun_eq_iff)
qed

theorem pshm_roundtrip_witness:
  "\<exists>s'. all_succeed [pshm_create_main ref_pshmk [''pshm_create'', ''-c'', ''/shm'', ''100''], pshm_write_main ref_pshmk [''pshm_write'', ''/shm'', ''hello''],
      pshm_read_main ref_pshmk [''pshm_read'', ''/shm'']] \<lparr>rh_object = (\<lambda>_. None), rh_name = None, rh_map = None, rh_out = []\<rparr> = Some s' \<and>
    rh_object s' ''/shm'' = Some ''hello''"
proof -
  let ?argv = "[''pshm_create'', ''-c'', ''/shm'', ''100'']" and ?s = "\<lparr>rh_object = (\<lambda>_. None), rh_name = None, rh_map = None, rh_out = []\<rparr>"
  let ?run = "all_succeed [pshm_create_main ref_pshmk ?argv, pshm_write_main ref_pshmk [''pshm_write'', ''/shm'', ''hello''],
    pshm_read_main ref_pshmk [''pshm_read'', ''/shm'']] ?s"
  have g: "getopt ''cx'' ?argv = ([(CHR ''c'', [])], [''/shm'', ''100''])" by code_simp
  have k: "getLong (Some ''100'') GN_ANY_BASE (Some ''size'') = Inr 100" by code_simp
  have "\<exists>s'. ?run = Some s'"
    by (simp add: pshm_create_main_def g k long_perms_def ref_pshmk_def O_RDWR_def O_CREAT_def pshm_write_main_def pshm_read_main_def Let_def resize_def)
  then obtain s' where s': "?run = Some s'" by blast
  from pshm_roundtrip [OF rsh.named_memory_axioms g _ s'] have "rh_object s' ''/shm'' = Some ''hello''" by simp
  with s' show ?thesis by blast
qed

end
