(* ===== verification/Self_Pipe.thy ===== *)
theory Self_Pipe
  imports Schedules Get_Num
begin

text \<open>
  \<open>src/tlpi-book/altio/self_pipe.c\<close>: waiting for descriptors and for a signal at the same time, by a handler that
  writes to a pipe of its own process.  The main program, the handler, and what makes \<open>select\<close>
  return are interleaved steps; between a call that fails and the test of \<open>errno\<close> there is a point at which
  the handler may run.  A step carries the error number of its call, 0 for success.  The handler runs to its
  end before the main program goes on.
\<close>

definition FD_SETSIZE :: int where "FD_SETSIZE = 1024"
definition EINTR :: int where "EINTR = 4"
definition EAGAIN :: int where "EAGAIN = 11"
definition PIPE_CAP :: nat where "PIPE_CAP = 65536"

datatype line = LCaught | LReady nat | LFd int bool | LPipe int bool | LTimeout int

datatype spc = SPipe | SGetfl0 | SSetfl0 | SGetfl1 | SSetfl1 | SSigaction | SSelect | SFailed | SCheck nat | SDrain nat | SDrainTest nat
  | SPrint nat | SExit int | SKilled | SUndef

text \<open>\<open>sp_pipe\<close> is the number of bytes in the pipe, \<open>sp_pfd\<close> the descriptor of its reading end; \<open>sp_avail\<close>, the other
  descriptors that can be read, \<open>sp_expired\<close> and \<open>sp_intr\<close> (a signal has arrived during \<open>select\<close>) are the
  environment.  An \<open>fd_set\<close> is the list of its members.\<close>

record spst =
  sp_pc :: spc
  sp_fds :: "int list"
  sp_pto :: "int option"
  sp_nfds :: int
  sp_readfds :: "int list"
  sp_pfd :: int
  sp_pipe :: nat
  sp_errno :: int
  sp_avail :: "int list"
  sp_expired :: bool
  sp_intr :: bool
  sp_out :: "line list"

datatype event = Main int int | Signal int | Readable int | Expire

section \<open>Arguments\<close>

definition FD_SET :: "int \<Rightarrow> int list \<Rightarrow> int list" where
  "FD_SET fd fds = (if fd \<in> set fds then fds else fds @ [fd])"

text \<open>The loop over the descriptors: \<open>Inl\<close> with the point at which the program ends, or the numbers, \<open>nfds\<close> and
  the set.  A negative number is outside the bits of an \<open>fd_set\<close>.\<close>

fun read_fds :: "string list \<Rightarrow> int list \<Rightarrow> int \<Rightarrow> int list \<Rightarrow> spc + int list \<times> int \<times> int list" where
  "read_fds [] fds nfds readfds = Inr (fds, nfds, readfds)"
| "read_fds (a # args) fds nfds readfds =
     (case getInt (Some a) 0 (Some ''fd'') of
        Inl e \<Rightarrow> Inl (SExit 1)
      | Inr fd \<Rightarrow>
          if fd \<ge> FD_SETSIZE then Inl (SExit 1)
          else if fd < 0 then Inl SUndef
          else read_fds args (fds @ [fd]) (if fd \<ge> nfds then fd + 1 else nfds) (FD_SET fd readfds))"

definition blank :: spst where
  "blank = \<lparr>sp_pc = SPipe, sp_fds = [], sp_pto = None, sp_nfds = 0, sp_readfds = [], sp_pfd = -1, sp_pipe = 0, sp_errno = 0,
     sp_avail = [], sp_expired = False, sp_intr = False, sp_out = []\<rparr>"

definition start :: "string list \<Rightarrow> spst" where
  "start args =
     (if args = [] \<or> hd args = ''--help'' then blank\<lparr>sp_pc := SExit 1\<rparr>
      else
        (case if hd args = ''-'' then Inr None else map_sum id Some (getLong (Some (hd args)) 0 (Some ''timeout'')) of
           Inl e \<Rightarrow> blank\<lparr>sp_pc := SExit 1\<rparr>
         | Inr pto \<Rightarrow>
             (case read_fds (tl args) [] 0 [] of
                Inl p \<Rightarrow> blank\<lparr>sp_pc := p\<rparr>
              | Inr (fds, nfds, readfds) \<Rightarrow> blank\<lparr>sp_fds := fds, sp_pto := pto, sp_nfds := nfds, sp_readfds := readfds\<rparr>)))"

section \<open>Main program\<close>

definition goto :: "spc \<Rightarrow> spst \<Rightarrow> spst" where
  "goto p s = s\<lparr>sp_pc := p\<rparr>"

definition readable :: "spst \<Rightarrow> int \<Rightarrow> bool" where
  "readable s fd \<longleftrightarrow> fd < sp_nfds s \<and> (if fd = sp_pfd s then 0 < sp_pipe s else fd \<in> set (sp_avail s))"

definition ready_set :: "spst \<Rightarrow> int list" where
  "ready_set s = filter (readable s) (sp_readfds s)"

definition bad_timeout :: "spst \<Rightarrow> bool" where
  "bad_timeout s \<longleftrightarrow> (case sp_pto s of None \<Rightarrow> False | Some t \<Rightarrow> t < 0)"

definition final_lines :: "spst \<Rightarrow> nat \<Rightarrow> int \<Rightarrow> line list" where
  "final_lines s ready left =
     [LReady ready] @ map (\<lambda>fd. LFd fd (fd \<in> set (sp_readfds s))) (sp_fds s) @ [LPipe (sp_pfd s) (sp_pfd s \<in> set (sp_readfds s))] @
     (if sp_pto s = None then [] else [LTimeout left])"

text \<open>\<open>w\<close> is the descriptor of the pipe, or the time left that \<open>select\<close> has stored.  \<open>select\<close> refuses a negative
  timeout, and it fails with \<open>EINTR\<close> only after a signal.\<close>

definition main_step :: "int \<Rightarrow> int \<Rightarrow> spst \<Rightarrow> spst option" where
  "main_step r w s =
     (case sp_pc s of
        SPipe \<Rightarrow>
          if r \<noteq> 0 then Some (goto (SExit 1) s)
          else if w < 0 then None
          else if w \<ge> FD_SETSIZE then Some (goto SUndef s)
          else Some (goto SGetfl0 (s\<lparr>sp_pfd := w, sp_readfds := FD_SET w (sp_readfds s), sp_nfds := max (sp_nfds s) (w + 1)\<rparr>))
      | SGetfl0 \<Rightarrow> Some (goto (if r \<noteq> 0 then SExit 1 else SSetfl0) s)
      | SSetfl0 \<Rightarrow> Some (goto (if r \<noteq> 0 then SExit 1 else SGetfl1) s)
      | SGetfl1 \<Rightarrow> Some (goto (if r \<noteq> 0 then SExit 1 else SSetfl1) s)
      | SSetfl1 \<Rightarrow> Some (goto (if r \<noteq> 0 then SExit 1 else SSigaction) s)
      | SSigaction \<Rightarrow> Some (goto (if r \<noteq> 0 then SExit 1 else SSelect) s)
      | SSelect \<Rightarrow>
          if r = EINTR then if sp_intr s then Some (goto SFailed (s\<lparr>sp_errno := r, sp_intr := False\<rparr>)) else None
          else if r \<noteq> 0 \<or> bad_timeout s then Some (goto SFailed (s\<lparr>sp_errno := (if r \<noteq> 0 then r else 22)\<rparr>))
          else if ready_set s \<noteq> [] \<or> sp_expired s
          then Some (goto (SCheck (length (ready_set s))) (s\<lparr>sp_readfds := ready_set s, sp_intr := False\<rparr>))
          else None
      | SFailed \<Rightarrow> Some (goto (if sp_errno s = EINTR then SSelect else SExit 1) s)
      | SCheck n \<Rightarrow>
          Some (if sp_pfd s \<in> set (sp_readfds s) then goto (SDrain n) (s\<lparr>sp_out := sp_out s @ [LCaught]\<rparr>) else goto (SPrint n) s)
      | SDrain n \<Rightarrow>
          if r \<noteq> 0 then Some (goto (SDrainTest n) (s\<lparr>sp_errno := r\<rparr>))
          else if sp_pipe s = 0 then Some (goto (SDrainTest n) (s\<lparr>sp_errno := EAGAIN\<rparr>))
          else Some (s\<lparr>sp_pipe := sp_pipe s - 1\<rparr>)
      | SDrainTest n \<Rightarrow> Some (goto (if sp_errno s = EAGAIN then SPrint n else SExit 1) s)
      | SPrint n \<Rightarrow> Some (goto (SExit 0) (s\<lparr>sp_out := sp_out s @ final_lines s n w\<rparr>))
      | SExit n \<Rightarrow> None
      | SKilled \<Rightarrow> None
      | SUndef \<Rightarrow> None)"

section \<open>Handler\<close>

fun ended :: "spc \<Rightarrow> bool" where
  "ended (SExit n) = True"
| "ended SKilled = True"
| "ended SUndef = True"
| "ended _ = False"

text \<open>The points before the handler is installed, and those before \<open>select\<close> has returned.\<close>

fun before_handler :: "spc \<Rightarrow> bool" where
  "before_handler SPipe = True"
| "before_handler SGetfl0 = True"
| "before_handler SSetfl0 = True"
| "before_handler SGetfl1 = True"
| "before_handler SSetfl1 = True"
| "before_handler SSigaction = True"
| "before_handler _ = False"

fun early :: "spc \<Rightarrow> bool" where
  "early SSelect = True"
| "early SFailed = True"
| "early p = before_handler p"

text \<open>A write to the pipe fails with \<open>EAGAIN\<close> exactly when the pipe is full.\<close>

definition handler :: "int \<Rightarrow> spst \<Rightarrow> spst option" where
  "handler r s =
     (let savedErrno = sp_errno s; s = (if r \<noteq> 0 then s\<lparr>sp_errno := r\<rparr> else s) in
      if r \<noteq> 0 \<and> sp_errno s \<noteq> EAGAIN then Some (goto (SExit 1) s)
      else if (r = EAGAIN) \<noteq> (sp_pipe s = PIPE_CAP) then None
      else Some (s\<lparr>sp_pipe := (if r = 0 then sp_pipe s + 1 else sp_pipe s), sp_errno := savedErrno\<rparr>))"

text \<open>\<open>SIGINT\<close> kills the process before the handler is installed.\<close>

definition signal :: "int \<Rightarrow> spst \<Rightarrow> spst option" where
  "signal r s =
     (if ended (sp_pc s) then None
      else if before_handler (sp_pc s) then Some (goto SKilled s)
      else handler r (s\<lparr>sp_intr := sp_intr s \<or> sp_pc s = SSelect\<rparr>))"

text \<open>Of the calls of the main program only \<open>select\<close> blocks, so that only it is interrupted.\<close>

fun step :: "event \<Rightarrow> spst \<Rightarrow> spst option" where
  "step (Main r w) s = (if r = EINTR \<and> sp_pc s \<noteq> SSelect then None else main_step r w s)"
| "step (Signal r) s = signal r s"
| "step (Readable fd) s = (if \<not> ended (sp_pc s) \<and> fd \<noteq> sp_pfd s then Some (s\<lparr>sp_avail := fd # sp_avail s\<rparr>) else None)"
| "step Expire s = (if \<not> ended (sp_pc s) \<and> sp_pto s \<noteq> None then Some (s\<lparr>sp_expired := True\<rparr>) else None)"

section \<open>Signals before the return of select\<close>

fun is_signal :: "event \<Rightarrow> bool" where
  "is_signal (Signal r) = True"
| "is_signal e = False"

lemma goto_simps [simp]:
  "sp_pc (goto p s) = p" "sp_fds (goto p s) = sp_fds s" "sp_pto (goto p s) = sp_pto s" "sp_nfds (goto p s) = sp_nfds s"
  "sp_readfds (goto p s) = sp_readfds s" "sp_pfd (goto p s) = sp_pfd s" "sp_pipe (goto p s) = sp_pipe s" "sp_errno (goto p s) = sp_errno s"
  "sp_avail (goto p s) = sp_avail s" "sp_expired (goto p s) = sp_expired s" "sp_intr (goto p s) = sp_intr s" "sp_out (goto p s) = sp_out s"
  by (simp_all add: goto_def)


section \<open>Invariant\<close>

definition sp_inv :: "spst \<Rightarrow> bool" where
  "sp_inv s \<longleftrightarrow> sp_pipe s \<le> PIPE_CAP \<and>
     (early (sp_pc s) \<and> sp_pc s \<noteq> SPipe \<longrightarrow> sp_pfd s \<in> set (sp_readfds s) \<and> sp_pfd s < sp_nfds s) \<and>
     (early (sp_pc s) \<longrightarrow> sp_out s = []) \<and> (before_handler (sp_pc s) \<longrightarrow> sp_pipe s = 0)"

lemma FD_SET_mem [simp]: "fd \<in> set (FD_SET fd fds)" "set (FD_SET fd fds) = insert fd (set fds)"
  by (auto simp: FD_SET_def)

lemma read_fds_stops: "read_fds args fds nfds readfds = Inl p \<Longrightarrow> p \<in> {SExit 1, SUndef}"
  by (induction args fds nfds readfds rule: read_fds.induct) (auto split: sum.splits if_splits)

lemma start_pc: "sp_pc (start args) \<in> {SPipe, SExit 1, SUndef}"
  by (auto simp: start_def blank_def dest: read_fds_stops split: sum.splits)

lemma start_fields: "sp_pipe (start args) = 0" "sp_out (start args) = []" "\<not> sp_intr (start args)"
  by (auto simp: start_def blank_def split: sum.splits)

lemma sp_inv_start: "sp_inv (start args)"
  using start_pc [of args] by (auto simp: sp_inv_def start_fields)

lemma handler_cases:
  assumes "handler r s = Some s'"
  obtains (fails) "sp_pc s' = SExit 1" "sp_out s' = sp_out s" "sp_pipe s' = sp_pipe s" "r \<noteq> 0"
  | (writes) k where "s' = s\<lparr>sp_pipe := k\<rparr>" "0 < k" "k \<le> PIPE_CAP \<or> sp_pipe s > PIPE_CAP" "sp_pipe s \<le> k" "k \<le> sp_pipe s + 1"
proof (cases "r \<noteq> 0 \<and> r \<noteq> EAGAIN")
  case True
  with assms have "s' = goto (SExit 1) (s\<lparr>sp_errno := r\<rparr>)" by (simp add: handler_def Let_def)
  with True show ?thesis by (intro fails) simp_all
next
  case False
  with assms have c: "(r = EAGAIN) = (sp_pipe s = PIPE_CAP)" "s' = s\<lparr>sp_pipe := (if r = 0 then sp_pipe s + 1 else sp_pipe s)\<rparr>"
    by (auto simp: handler_def Let_def split: if_splits)
  with False show ?thesis by (intro writes [of "if r = 0 then sp_pipe s + 1 else sp_pipe s"]) (auto simp: PIPE_CAP_def EAGAIN_def)
qed

lemma before_handler_early: "before_handler p \<Longrightarrow> early p \<and> \<not> ended p" "p = SSelect \<Longrightarrow> \<not> before_handler p"
  by (cases p; simp)+

lemma sp_inv_main: "sp_inv s \<Longrightarrow> main_step r w s = Some s' \<Longrightarrow> sp_inv s'"
  by (cases "sp_pc s") (auto simp: main_step_def sp_inv_def  split: if_splits)

lemma sp_inv_signal:
  assumes "sp_inv s" "signal r s = Some s'"
  shows "sp_inv s'"
proof (cases "before_handler (sp_pc s)")
  case False
  let ?s = "s\<lparr>sp_intr := sp_intr s \<or> sp_pc s = SSelect\<rparr>"
  from False assms(2) have h: "handler r ?s = Some s'" by (simp add: signal_def split: if_splits)
  show ?thesis
    by (rule handler_cases [OF h]) (use assms(1) False in \<open>auto simp: sp_inv_def\<close>)
qed (use assms in \<open>auto simp: signal_def sp_inv_def  split: if_splits\<close>)

lemma sp_inv_step: "sp_inv s \<Longrightarrow> step e s = Some s' \<Longrightarrow> sp_inv s'"
proof (cases e)
  case (Main r w)
  then show "sp_inv s \<Longrightarrow> step e s = Some s' \<Longrightarrow> sp_inv s'" using sp_inv_main by (simp split: if_splits)
next
  case (Signal r)
  then show "sp_inv s \<Longrightarrow> step e s = Some s' \<Longrightarrow> sp_inv s'" using sp_inv_signal by simp
qed (auto simp: sp_inv_def  split: if_splits)

lemma sp_inv_runs: "runs step es s = Some s' \<Longrightarrow> sp_inv s \<Longrightarrow> sp_inv s'"
  by (induction es arbitrary: s) (auto split: option.splits intro: sp_inv_step)

text \<open>Until \<open>select\<close> returns, the pipe has a byte exactly if the handler has run.\<close>

lemma early_step:
  assumes "step e s = Some s'" "early (sp_pc s')" "sp_inv s"
  shows "early (sp_pc s) \<and> (0 < sp_pipe s' \<longleftrightarrow> 0 < sp_pipe s \<or> is_signal e)"
proof (cases e)
  case (Main r w)
  with assms show ?thesis by (cases "sp_pc s") (auto simp: main_step_def  split: if_splits)
next
  case (Signal r)
  let ?s = "s\<lparr>sp_intr := sp_intr s \<or> sp_pc s = SSelect\<rparr>"
  from Signal assms have h: "handler r ?s = Some s'" by (auto simp: signal_def  split: if_splits)
  show ?thesis by (rule handler_cases [OF h]) (use Signal assms(2) in auto)
qed (use assms in \<open>auto split: if_splits\<close>)

lemma early_runs:
  "runs step es s = Some s' \<Longrightarrow> early (sp_pc s') \<Longrightarrow> sp_inv s \<Longrightarrow> early (sp_pc s) \<and> (0 < sp_pipe s' \<longleftrightarrow> 0 < sp_pipe s \<or> (\<exists>e\<in>set es. is_signal e))"
proof (induction es arbitrary: s)
  case (Cons e es)
  then obtain s1 where s1: "step e s = Some s1" "runs step es s1 = Some s'" by (auto split: option.splits)
  from Cons.IH [OF s1(2) Cons.prems(2) sp_inv_step [OF Cons.prems(3) s1(1)]] early_step [OF s1(1) _ Cons.prems(3)] show ?case by auto
qed simp

section \<open>Number of steps\<close>

definition pc_left :: "spst \<Rightarrow> int" where
  "pc_left s = (case sp_pc s of SPipe \<Rightarrow> 12 | SGetfl0 \<Rightarrow> 11 | SSetfl0 \<Rightarrow> 10 | SGetfl1 \<Rightarrow> 9 | SSetfl1 \<Rightarrow> 8 | SSigaction \<Rightarrow> 7 | SSelect \<Rightarrow> 6
     | SFailed \<Rightarrow> (if sp_errno s = EINTR then 7 else 1) | SCheck n \<Rightarrow> 5 | SDrain n \<Rightarrow> 4 | SDrainTest n \<Rightarrow> 3 | SPrint n \<Rightarrow> 1 | _ \<Rightarrow> 0)"

definition left :: "spst \<Rightarrow> int" where
  "left s = pc_left s + int (sp_pipe s) + (if sp_intr s then 2 else 0)"

fun cost :: "event \<Rightarrow> int" where
  "cost (Main r w) = 0"
| "cost (Signal r) = 4"
| "cost (Readable fd) = 1"
| "cost Expire = 1"

lemma left_main: "main_step r w s = Some s' \<Longrightarrow> left s' + 1 \<le> left s"
  by (cases "sp_pc s") (auto simp: main_step_def left_def pc_left_def EINTR_def split: if_splits)

lemma left_signal:
  assumes "signal r s = Some s'" 
  shows "left s' \<le> left s + 3"
proof (cases "before_handler (sp_pc s)")
  case False
  let ?s = "s\<lparr>sp_intr := sp_intr s \<or> sp_pc s = SSelect\<rparr>"
  from False assms have h: "handler r ?s = Some s'" by (simp add: signal_def split: if_splits)
  have p: "0 \<le> pc_left s" by (auto simp: pc_left_def split: spc.split)
  have i: "sp_intr s' = sp_intr ?s" using h by (auto simp: handler_def Let_def split: if_splits)
  show ?thesis
  proof (rule handler_cases [OF h])
    assume "sp_pc s' = SExit 1" "sp_pipe s' = sp_pipe ?s"
    with p i show ?thesis by (simp add: left_def pc_left_def [of s'])
  next
    fix k assume "s' = ?s\<lparr>sp_pipe := k\<rparr>" "k \<le> sp_pipe ?s + 1"
    moreover from this have "pc_left s' = pc_left s" by (simp add: pc_left_def)
    ultimately show ?thesis using i by (simp add: left_def)
  qed
next
  case True
  with assms have "s' = goto SKilled s" by (simp add: signal_def split: if_splits)
  then show ?thesis by (auto simp: left_def pc_left_def split: spc.split)
qed

lemma left_env: "left (s\<lparr>sp_avail := fds\<rparr>) = left s" "left (s\<lparr>sp_expired := b\<rparr>) = left s"
  by (simp_all add: left_def pc_left_def)

definition sp_ok :: "spst \<Rightarrow> bool" where
  "sp_ok s \<longleftrightarrow> sp_inv s \<and> \<not> bad_timeout s"

lemma step_pto:
  assumes "step e s = Some s'"
  shows "sp_pto s' = sp_pto s"
proof (cases e)
  case (Main r w)
  with assms show ?thesis by (cases "sp_pc s") (auto simp: main_step_def split: if_splits)
next
  case (Signal r)
  with assms show ?thesis by (auto simp: signal_def handler_def Let_def split: if_splits)
qed (use assms in \<open>auto split: if_splits\<close>)

interpretation spsteps: bounded_steps step sp_ok left cost
proof
  fix s e s' assume i: "sp_ok s" and st: "step e s = Some s'"
  show "sp_ok s'" using i sp_inv_step [OF _ st] step_pto [OF st] by (simp add: sp_ok_def bad_timeout_def)
  show "left s' + 1 \<le> left s + cost e"
    using st by (cases e) (auto simp: left_env dest: left_main left_signal split: if_splits)
qed

section \<open>After the return of select\<close>

text \<open>What is printed when \<open>select\<close> returns in state \<open>s\<close>, and the progress of the program towards it.\<close>

definition report :: "bool \<Rightarrow> spst \<Rightarrow> int \<Rightarrow> line list" where
  "report caught s tleft =
     (if caught then [LCaught] else []) @ final_lines (s\<lparr>sp_readfds := ready_set s\<rparr>) (length (ready_set s)) tleft"

definition caught :: "spst \<Rightarrow> bool" where
  "caught s \<longleftrightarrow> sp_pfd s \<in> set (ready_set s)"

definition reporting :: "spst \<Rightarrow> spst \<Rightarrow> bool" where
  "reporting s1 s \<longleftrightarrow> sp_fds s = sp_fds s1 \<and> sp_pto s = sp_pto s1 \<and> sp_pfd s = sp_pfd s1 \<and> sp_readfds s = ready_set s1 \<and>
     (case sp_pc s of
        SCheck n \<Rightarrow> n = length (ready_set s1) \<and> sp_out s = []
      | SDrain n \<Rightarrow> n = length (ready_set s1) \<and> caught s1 \<and> sp_out s = [LCaught]
      | SDrainTest n \<Rightarrow> n = length (ready_set s1) \<and> caught s1 \<and> sp_out s = [LCaught]
      | SPrint n \<Rightarrow> n = length (ready_set s1) \<and> sp_out s = (if caught s1 then [LCaught] else [])
      | SExit n \<Rightarrow> \<exists>tleft. sp_out s = report (caught s1) s1 tleft
      | _ \<Rightarrow> False)"

fun late :: "spc \<Rightarrow> bool" where
  "late (SCheck n) = True"
| "late (SDrain n) = True"
| "late (SDrainTest n) = True"
| "late (SPrint n) = True"
| "late (SExit n) = (n = 0)"
| "late _ = False"

lemma final_lines_cong:
  "sp_fds s = sp_fds s1 \<Longrightarrow> sp_pto s = sp_pto s1 \<Longrightarrow> sp_pfd s = sp_pfd s1 \<Longrightarrow> sp_readfds s = ready_set s1 \<Longrightarrow>
     final_lines s n t = final_lines (s1\<lparr>sp_readfds := ready_set s1\<rparr>) n t"
  by (simp add: final_lines_def)

lemma late_main:
  assumes "main_step r w s = Some s'" "late (sp_pc s')" "sp_inv s"
  shows "late (sp_pc s) \<and> (\<forall>s1. reporting s1 s \<longrightarrow> reporting s1 s') \<or> sp_pc s = SSelect \<and> r = 0 \<and> reporting s s'"
proof (cases "sp_pc s")
  case (SPrint n)
  with assms have s': "s' = goto (SExit 0) (s\<lparr>sp_out := sp_out s @ final_lines s n w\<rparr>)" by (simp add: main_step_def)
  have "reporting s1 s'" if "reporting s1 s" for s1
    using that SPrint final_lines_cong [of s s1 n w] by (auto simp: s' reporting_def report_def)
  with SPrint show ?thesis by simp
qed (use assms in \<open>auto simp: main_step_def reporting_def sp_inv_def caught_def split: if_splits\<close>)

lemma reporting_cong:
  "sp_pc t = sp_pc s \<Longrightarrow> sp_fds t = sp_fds s \<Longrightarrow> sp_pto t = sp_pto s \<Longrightarrow> sp_pfd t = sp_pfd s \<Longrightarrow> sp_readfds t = sp_readfds s \<Longrightarrow>
     sp_out t = sp_out s \<Longrightarrow> reporting s1 t = reporting s1 s"
  by (cases "sp_pc s") (simp_all add: reporting_def)

lemma late_step:
  assumes "step e s = Some s'" "late (sp_pc s')" "sp_inv s"
  shows "late (sp_pc s) \<and> (\<forall>s1. reporting s1 s \<longrightarrow> reporting s1 s') \<or> sp_pc s = SSelect \<and> (\<exists>w. e = Main 0 w) \<and> reporting s s'"
proof (cases e)
  case (Main r w)
  with late_main [of r w s s'] assms show ?thesis by (auto split: if_splits)
next
  case (Signal r)
  let ?s = "s\<lparr>sp_intr := sp_intr s \<or> sp_pc s = SSelect\<rparr>"
  from Signal assms have h: "handler r ?s = Some s'" by (auto simp: signal_def split: if_splits)
  show ?thesis by (rule handler_cases [OF h]) (use assms(2) reporting_cong [of s' s] in auto)
next
  case (Readable fd)
  with assms reporting_cong [of s' s] show ?thesis by (auto split: if_splits)
next
  case Expire
  with assms reporting_cong [of s' s] show ?thesis by (auto split: if_splits)
qed

lemma late_runs:
  assumes "runs step es s0 = Some s" "late (sp_pc s)" "\<not> late (sp_pc s0)" "sp_inv s0"
  shows "\<exists>es1 w es2 s1. es = es1 @ Main 0 w # es2 \<and> runs step es1 s0 = Some s1 \<and> sp_pc s1 = SSelect \<and> reporting s1 s"
  using assms(1,2)
proof (induction es arbitrary: s rule: rev_induct)
  case (snoc e es)
  then obtain t where t: "runs step es s0 = Some t" "step e t = Some s"
    by (auto simp: runs_append Option.bind_eq_Some_conv split: option.splits)
  have inv: "sp_inv t" by (rule sp_inv_runs [OF t(1) assms(4)])
  from late_step [OF t(2) snoc.prems(2) inv] show ?case
  proof
    assume l: "late (sp_pc t) \<and> (\<forall>s1. reporting s1 t \<longrightarrow> reporting s1 s)"
    with snoc.IH [OF t(1)] obtain es1 w es2 s1 where "es = es1 @ Main 0 w # es2" "runs step es1 s0 = Some s1" "sp_pc s1 = SSelect"
      "reporting s1 s" by blast
    then have "es @ [e] = es1 @ Main 0 w # (es2 @ [e])" "runs step es1 s0 = Some s1" "sp_pc s1 = SSelect" "reporting s1 s" by simp_all
    then show ?thesis by blast
  qed (use t(1) in blast)
qed (use assms(3) in simp)

section \<open>Properties\<close>

fun failing :: "event \<Rightarrow> bool" where
  "failing (Main r w) = (r \<noteq> 0 \<and> r \<noteq> EINTR)"
| "failing (Signal r) = (r \<noteq> 0 \<and> r \<noteq> EAGAIN)"
| "failing _ = False"

definition failed :: "spst \<Rightarrow> bool" where
  "failed s \<longleftrightarrow> (case sp_pc s of SExit n \<Rightarrow> n \<noteq> 0 | SFailed \<Rightarrow> sp_errno s \<noteq> EINTR | SDrainTest n \<Rightarrow> sp_errno s \<noteq> EAGAIN | _ \<Rightarrow> False)"

lemma failed_cong: "sp_pc t = sp_pc s \<Longrightarrow> sp_errno t = sp_errno s \<Longrightarrow> failed t = failed s"
  by (cases "sp_pc s") (simp_all add: failed_def)

lemma failing_enters:
  assumes "sp_ok s" "step e s = Some s'" "failed s'" "\<not> failed s"
  shows "failing e"
proof (cases e)
  case (Main r w)
  with assms show ?thesis by (cases "sp_pc s") (auto simp: main_step_def failed_def sp_ok_def split: if_splits)
next
  case (Signal r)
  let ?s = "s\<lparr>sp_intr := sp_intr s \<or> sp_pc s = SSelect\<rparr>"
  have "\<not> before_handler (sp_pc s)"
  proof
    assume "before_handler (sp_pc s)"
    with Signal assms show False by (auto simp: signal_def failed_def split: if_splits)
  qed
  with Signal assms(2) have h: "handler r ?s = Some s'" by (auto simp: signal_def split: if_splits)
  have "sp_pc s' = sp_pc s \<and> sp_errno s' = sp_errno s \<or> failing e" using h Signal by (auto simp: handler_def Let_def split: if_splits)
  with assms(3,4) failed_cong [of s' s] show ?thesis by auto
next
  case (Readable fd)
  with assms failed_cong [of s' s] show ?thesis by (auto split: if_splits)
next
  case Expire
  with assms failed_cong [of s' s] show ?thesis by (auto split: if_splits)
qed

lemma sp_not_stuck:
  assumes "\<not> ended (sp_pc s)"
  shows "main_step 0 0 s \<noteq> None \<or> sp_pc s = SSelect \<and> ready_set s = [] \<and> \<not> sp_expired s"
  using assms by (cases "sp_pc s") (auto simp: main_step_def EINTR_def FD_SETSIZE_def)

lemma caught_iff:
  assumes "runs step es (start args) = Some s" "sp_pc s = SSelect"
  shows "caught s \<longleftrightarrow> (\<exists>e\<in>set es. is_signal e)"
proof -
  have "sp_inv s" by (rule sp_inv_runs [OF assms(1) sp_inv_start])
  with assms(2) have "caught s \<longleftrightarrow> 0 < sp_pipe s" by (auto simp: caught_def ready_set_def readable_def sp_inv_def)
  with early_runs [OF assms(1) _ sp_inv_start] assms(2) show ?thesis by (simp add: start_fields)
qed

text \<open>
  C19. The self-pipe program, for every schedule of its steps, of signals at any time after the handler is
  installed, and of descriptors that become readable: a signal that is handled before \<open>select\<close> returns is never
  missed, since \<open>select\<close> then cannot block, and it is reported.  The program ends with status 0 only
  after it has printed exactly the report of the descriptors that were ready when \<open>select\<close> returned, with
  the line about the signal if and only if the handler had run by then.  It takes a bounded number
  of steps per signal, ends with failure only after a call failed (an interrupted \<open>select\<close>, or a full
  pipe in the handler, is no failure, whatever happens to \<open>errno\<close>), and waits only in \<open>select\<close>.
\<close>

theorem self_pipe_correct:
  assumes "sp_pc (start args) = SPipe" "\<not> bad_timeout (start args)" "runs step es (start args) = Some s"
  shows "int (length es) \<le> 12 + sum_list (map cost es) \<and>
    (sp_pc s = SSelect \<and> (\<exists>e\<in>set es. is_signal e) \<longrightarrow> main_step 0 0 s \<noteq> None) \<and>
    (ended (sp_pc s) \<or> main_step 0 0 s \<noteq> None \<or> sp_pc s = SSelect \<and> ready_set s = [] \<and> \<not> sp_expired s) \<and>
    (sp_pc s = SExit 0 \<longrightarrow> (\<exists>es1 w es2 s1 tleft. es = es1 @ Main 0 w # es2 \<and> runs step es1 (start args) = Some s1 \<and> sp_pc s1 = SSelect \<and>
       sp_out s = report (\<exists>e\<in>set es1. is_signal e) s1 tleft)) \<and>
    (sp_pc s = SExit 1 \<longrightarrow> (\<exists>e\<in>set es. failing e))"
proof (intro conjI impI)
  have ok: "sp_ok (start args)" using assms(2) sp_inv_start by (simp add: sp_ok_def)
  have "0 \<le> left s" by (auto simp: left_def pc_left_def split: spc.split)
  moreover have "left (start args) = 12" using assms(1) by (simp add: left_def pc_left_def start_fields)
  ultimately show "int (length es) \<le> 12 + sum_list (map cost es)" using spsteps.runs_length [OF assms(3) ok] by simp
  show "ended (sp_pc s) \<or> main_step 0 0 s \<noteq> None \<or> sp_pc s = SSelect \<and> ready_set s = [] \<and> \<not> sp_expired s" using sp_not_stuck by blast
  show "main_step 0 0 s \<noteq> None" if "sp_pc s = SSelect \<and> (\<exists>e\<in>set es. is_signal e)"
    using sp_not_stuck [of s] caught_iff [OF assms(3)] that by (auto simp: caught_def)
  show "\<exists>es1 w es2 s1 tleft. es = es1 @ Main 0 w # es2 \<and> runs step es1 (start args) = Some s1 \<and> sp_pc s1 = SSelect \<and>
       sp_out s = report (\<exists>e\<in>set es1. is_signal e) s1 tleft" if "sp_pc s = SExit 0"
  proof -
    from late_runs [OF assms(3) _ _ sp_inv_start] that assms(1) obtain es1 w es2 s1 where
      s1: "es = es1 @ Main 0 w # es2" "runs step es1 (start args) = Some s1" "sp_pc s1 = SSelect" "reporting s1 s" by auto
    from s1(4) that caught_iff [OF s1(2,3)] obtain tleft where "sp_out s = report (\<exists>e\<in>set es1. is_signal e) s1 tleft"
      by (auto simp: reporting_def)
    with s1(1-3) show ?thesis by blast
  qed
  show "\<exists>e\<in>set es. failing e" if "sp_pc s = SExit 1"
    by (rule spsteps.runs_enters_invar [OF assms(3) ok, of failed]) (use that assms(1) failing_enters in \<open>auto simp: failed_def\<close>)
qed

text \<open>A signal that arrives in \<open>select\<close>, which is then called again.\<close>

definition example_schedule :: "event list" where
  "example_schedule = [Main 0 3, Main 0 0, Main 0 0, Main 0 0, Main 0 0, Main 0 0, Signal 0, Main EINTR 0, Main 0 0, Main 0 0, Main 0 0,
     Main 0 0, Main 0 0, Main 0 0, Main 0 0]"

theorem self_pipe_correct_witness:
  "\<exists>s. runs step example_schedule (start [''-'', ''0'']) = Some s \<and> sp_pc s = SExit 0 \<and>
    sp_out s = [LCaught, LReady 1, LFd 0 False, LPipe 3 True]"
proof -
  have z: "getInt (Some ''0'') 0 (Some ''fd'') = Inr 0" by code_simp
  have st: "start [''-'', ''0''] = blank\<lparr>sp_fds := [0], sp_nfds := 1, sp_readfds := [0]\<rparr>"
    by (simp add: start_def z FD_SETSIZE_def FD_SET_def blank_def)
  then have b: "sp_pc (start [''-'', ''0'']) = SPipe" "\<not> bad_timeout (start [''-'', ''0''])" by (simp_all add: blank_def bad_timeout_def)
  have "\<exists>s. runs step example_schedule (start [''-'', ''0'']) = Some s \<and> sp_pc s = SExit 0 \<and>
      sp_out s = [LCaught, LReady 1, LFd 0 False, LPipe 3 True]"
    by (simp add: example_schedule_def st blank_def main_step_def goto_def signal_def handler_def ready_set_def readable_def
        FD_SET_def final_lines_def bad_timeout_def PIPE_CAP_def FD_SETSIZE_def EINTR_def EAGAIN_def)
  then obtain s where s: "runs step example_schedule (start [''-'', ''0'']) = Some s" "sp_pc s = SExit 0"
    "sp_out s = [LCaught, LReady 1, LFd 0 False, LPipe 3 True]" by blast
  from self_pipe_correct [OF b s(1)] s show ?thesis by blast
qed

end
