(* ===== verification/Mq_Notify.thy ===== *)
theory Mq_Notify
  imports Schedules "HOL-Library.Multiset"
begin

text \<open>
  Programs that are told of new messages by a signal: \<open>src/tlpi-book/pmsg/mq_notify_sig.c\<close>, \<open>mq_notify_sigwaitinfo.c\<close> and
  \<open>mq_notify_via_signal.c\<close>.  The kernel notifies once, when a message arrives at an empty queue, and forgets the
  registration; so the programs have to register anew before they empty the queue.  The program, the
  senders and the signal are interleaved steps.  A step of the program carries the error number of its call, 0
  for success.  Messages are represented by their lengths, all that the programs show of them; the
  queue is in the order in which messages are received, and a new one may be placed anywhere in it, as its
  priority wants.
\<close>

definition EAGAIN :: int where "EAGAIN = 11"

datatype variant = Sig | Sigwait | Via

datatype line = LRead nat | LAccepted | LWork int

datatype npc = NOpen | NGetattr | NMalloc | NMask | NSigaction | NFirst | NWait | NCheck | NNotify | NDrain | NTest | NWork
  | NExit int | NKilled

text \<open>\<open>n_reg\<close>: the process is registered for notification; \<open>n_sig\<close>: the signal is pending; \<open>n_got\<close> is \<open>gotSig\<close>.\<close>

record nst =
  n_pc :: npc
  n_queue :: "nat list"
  n_reg :: bool
  n_sig :: bool
  n_got :: bool
  n_j :: int
  n_errno :: int
  n_out :: "line list"

text \<open>\<open>Wake\<close>: \<open>sleep\<close> returns; \<open>Send len k\<close>: a message arrives at place \<open>k\<close> of the queue; \<open>Deliver\<close>: the handler runs;
  \<open>Stray\<close>: another process sends the signal.\<close>

datatype event = Main int | Wake | Send nat nat | Deliver | Stray

definition start :: "nat list \<Rightarrow> nst" where
  "start q = \<lparr>n_pc = NOpen, n_queue = q, n_reg = False, n_sig = False, n_got = True, n_j = 0, n_errno = 0, n_out = []\<rparr>"

definition goto :: "npc \<Rightarrow> nst \<Rightarrow> nst" where
  "goto p s = s\<lparr>n_pc := p\<rparr>"

text \<open>The order of the calls before the loop.\<close>

fun after :: "variant \<Rightarrow> npc \<Rightarrow> npc" where
  "after v NOpen = (if v = Via then NSigaction else NGetattr)"
| "after v NGetattr = NMalloc"
| "after v NMalloc = (if v = Via then NCheck else NMask)"
| "after v NMask = (if v = Sigwait then NFirst else NSigaction)"
| "after v NSigaction = (if v = Via then NGetattr else NFirst)"
| "after v p = p"

text \<open>\<open>mq_notify\<close> fails if a process is registered already.  \<open>mq_receive\<close> fails with \<open>EAGAIN\<close> exactly if the queue is empty.  \<open>sigsuspend\<close> and \<open>sigwaitinfo\<close> return when the signal is
  pending.\<close>

definition main_step :: "variant \<Rightarrow> int \<Rightarrow> nst \<Rightarrow> nst option" where
  "main_step v r s =
     (case n_pc s of
        NFirst \<Rightarrow> Some (if r \<noteq> 0 \<or> n_reg s then goto (NExit 1) s else goto NWait (s\<lparr>n_reg := True\<rparr>))
      | NWait \<Rightarrow>
          if v = Sigwait \<and> r \<noteq> 0 then Some (goto (NExit 1) s)
          else if n_sig s then Some (goto NNotify (s\<lparr>n_sig := False, n_out := n_out s @ (if v = Sigwait then [LAccepted] else [])\<rparr>))
          else None
      | NCheck \<Rightarrow> Some (if n_got s then goto NNotify (s\<lparr>n_got := False\<rparr>) else goto NWork (s\<lparr>n_out := n_out s @ [LWork (n_j s)]\<rparr>))
      | NNotify \<Rightarrow> Some (if r \<noteq> 0 \<or> n_reg s then goto (NExit 1) s else goto NDrain (s\<lparr>n_reg := True\<rparr>))
      | NDrain \<Rightarrow>
          if r \<noteq> 0 \<and> r \<noteq> EAGAIN then Some (goto NTest (s\<lparr>n_errno := r\<rparr>))
          else
            (case n_queue s of
               [] \<Rightarrow> Some (goto NTest (s\<lparr>n_errno := EAGAIN\<rparr>))
             | numRead # q \<Rightarrow> Some (s\<lparr>n_queue := q, n_out := n_out s @ [LRead numRead]\<rparr>))
      | NTest \<Rightarrow>
          Some (if n_errno s \<noteq> EAGAIN then goto (NExit 1) s
                else if v = Via then goto NWork (s\<lparr>n_out := n_out s @ [LWork (n_j s)]\<rparr>) else goto NWait s)
      | NWork \<Rightarrow> None
      | NExit n \<Rightarrow> None
      | NKilled \<Rightarrow> None
      | p \<Rightarrow> Some (if r \<noteq> 0 then goto (NExit 1) s else goto (after v p) s))"

definition wake :: "nst \<Rightarrow> nst option" where
  "wake s = (if n_pc s = NWork then Some (goto NCheck (s\<lparr>n_j := n_j s + 1\<rparr>)) else None)"

fun ended :: "npc \<Rightarrow> bool" where
  "ended (NExit n) = True"
| "ended NKilled = True"
| "ended _ = False"

text \<open>Whether the handler is installed and the signal not blocked, and whether the signal is blocked.\<close>

fun handled :: "variant \<Rightarrow> npc \<Rightarrow> bool" where
  "handled v NOpen = False"
| "handled v NSigaction = False"
| "handled v p = (v = Via \<and> \<not> ended p)"

fun masked :: "variant \<Rightarrow> npc \<Rightarrow> bool" where
  "masked v NSigaction = (v = Sig)"
| "masked v p = (v \<noteq> Via \<and> p \<notin> {NOpen, NGetattr, NMalloc, NMask})"

definition handler :: "variant \<Rightarrow> nst \<Rightarrow> nst option" where
  "handler v s = (if handled v (n_pc s) \<and> n_sig s then Some (s\<lparr>n_sig := False, n_got := True\<rparr>) else None)"

text \<open>The kernel: a message for an empty queue raises the signal of the process that is registered.\<close>

definition send :: "nat \<Rightarrow> nat \<Rightarrow> nst \<Rightarrow> nst option" where
  "send len k s =
     (if ended (n_pc s) \<or> length (n_queue s) < k then None
      else
        (let s' = s\<lparr>n_queue := take k (n_queue s) @ len # drop k (n_queue s)\<rparr> in
         Some (if n_queue s = [] \<and> n_reg s then s'\<lparr>n_reg := False, n_sig := True\<rparr> else s')))"

definition stray :: "variant \<Rightarrow> nst \<Rightarrow> nst option" where
  "stray v s =
     (if ended (n_pc s) then None
      else if handled v (n_pc s) \<or> masked v (n_pc s) then Some (s\<lparr>n_sig := True\<rparr>) else Some (goto NKilled s))"

fun step :: "variant \<Rightarrow> event \<Rightarrow> nst \<Rightarrow> nst option" where
  "step v (Main r) s = main_step v r s"
| "step v Wake s = wake s"
| "step v (Send len k) s = send len k s"
| "step v Deliver s = handler v s"
| "step v Stray s = stray v s"

definition mq_notify_sig :: "event \<Rightarrow> nst \<Rightarrow> nst option" where
  "mq_notify_sig = step Sig"

definition mq_notify_sigwaitinfo :: "event \<Rightarrow> nst \<Rightarrow> nst option" where
  "mq_notify_sigwaitinfo = step Sigwait"

definition mq_notify_via_signal :: "event \<Rightarrow> nst \<Rightarrow> nst option" where
  "mq_notify_via_signal = step Via"

lemmas program_steps = mq_notify_sig_def mq_notify_sigwaitinfo_def mq_notify_via_signal_def

section \<open>Invariant\<close>

lemma notify_goto_simps [simp]:
  "n_pc (goto p s) = p" "n_queue (goto p s) = n_queue s" "n_reg (goto p s) = n_reg s" "n_sig (goto p s) = n_sig s"
  "n_got (goto p s) = n_got s" "n_j (goto p s) = n_j s" "n_errno (goto p s) = n_errno s" "n_out (goto p s) = n_out s"
  by (simp_all add: goto_def)

text \<open>The next notification is somewhere: the process is registered, or has been notified and will see it, or is
  about to register.\<close>

fun to_register :: "variant \<Rightarrow> npc \<Rightarrow> bool" where
  "to_register v NNotify = True"
| "to_register v NCheck = False"
| "to_register v NWait = False"
| "to_register v NDrain = False"
| "to_register v NTest = False"
| "to_register v NWork = False"
| "to_register v p = (v \<noteq> Via)"

definition tokens :: "variant \<Rightarrow> nst \<Rightarrow> nat" where
  "tokens v s = of_bool (n_reg s) + of_bool (n_sig s) + of_bool (v = Via \<and> n_got s) + of_bool (to_register v (n_pc s))"

text \<open>Points at which the queue has been found empty since the last registration.\<close>

fun drained :: "npc \<Rightarrow> int \<Rightarrow> bool" where
  "drained NWait e = True"
| "drained NWork e = True"
| "drained NCheck e = True"
| "drained NTest e = (e = EAGAIN)"
| "drained p e = False"

fun pc_ok :: "variant \<Rightarrow> npc \<Rightarrow> bool" where
  "pc_ok v NCheck = (v = Via)"
| "pc_ok v NWork = (v = Via)"
| "pc_ok v NMask = (v \<noteq> Via)"
| "pc_ok v NFirst = (v \<noteq> Via)"
| "pc_ok v NWait = (v \<noteq> Via)"
| "pc_ok v p = True"

fun before_loop :: "npc \<Rightarrow> bool" where
  "before_loop NOpen = True"
| "before_loop NGetattr = True"
| "before_loop NMalloc = True"
| "before_loop NMask = True"
| "before_loop NSigaction = True"
| "before_loop NFirst = True"
| "before_loop p = False"

definition n_inv :: "variant \<Rightarrow> nst \<Rightarrow> bool" where
  "n_inv v s \<longleftrightarrow> n_pc s = NExit 1 \<or>
     \<not> ended (n_pc s) \<and> tokens v s = 1 \<and> pc_ok v (n_pc s) \<and> (before_loop (n_pc s) \<longrightarrow> \<not> n_reg s) \<and> (n_reg s \<and> drained (n_pc s) (n_errno s) \<longrightarrow> n_queue s = [])"

lemma n_inv_start: "n_inv v (start q)"
  by (simp add: n_inv_def start_def tokens_def)

lemma n_inv_main:
  assumes "n_inv v s" "main_step v r s = Some s'" "n_pc s \<noteq> NFirst"
  shows "n_inv v s'"
  using assms by (cases "n_pc s"; auto simp: main_step_def n_inv_def tokens_def split: if_splits list.splits)

lemma n_inv_send:
  assumes "n_inv v s" "send len k s = Some s'"
  shows "n_inv v s'"
proof -
  from assms(2) have ne: "\<not> ended (n_pc s)" and s': "s' = (if n_queue s = [] \<and> n_reg s
      then s\<lparr>n_queue := take k (n_queue s) @ len # drop k (n_queue s), n_reg := False, n_sig := True\<rparr>
      else s\<lparr>n_queue := take k (n_queue s) @ len # drop k (n_queue s)\<rparr>)"
    by (auto simp: send_def Let_def split: if_splits)
  from assms(1) ne have i: "tokens v s = 1" "pc_ok v (n_pc s)" "before_loop (n_pc s) \<longrightarrow> \<not> n_reg s" "n_reg s \<and> drained (n_pc s) (n_errno s) \<longrightarrow> n_queue s = []" by (auto simp: n_inv_def)
  show ?thesis
  proof (cases "n_queue s = [] \<and> n_reg s")
    case True
    with i s' ne show ?thesis by (auto simp: n_inv_def tokens_def)
  next
    case False
    with i(4) have "\<not> (n_reg s \<and> drained (n_pc s) (n_errno s))" by auto
    with False i s' ne show ?thesis by (auto simp: n_inv_def tokens_def)
  qed
qed

lemma n_inv_handler: "n_inv v s \<Longrightarrow> handler v s = Some s' \<Longrightarrow> n_inv v s'"
  by (cases "n_pc s"; auto simp: handler_def n_inv_def tokens_def split: if_splits)

lemma n_inv_wake: "n_inv v s \<Longrightarrow> wake s = Some s' \<Longrightarrow> n_inv v s'"
  by (auto simp: wake_def n_inv_def tokens_def split: if_splits)

section \<open>Schedules without stray signals\<close>

text \<open>\<open>mq_notify_sig\<close> and \<open>mq_notify_sigwaitinfo\<close> that have registered while the queue was empty.\<close>

definition listening :: nst where
  "listening = (start [])\<lparr>n_pc := NWait, n_reg := True\<rparr>"

lemma listening_reached:
  "runs mq_notify_sig (replicate 6 (Main 0)) (start []) = Some listening"
  "runs mq_notify_sigwaitinfo (replicate 5 (Main 0)) (start []) = Some listening"
  by (simp_all add: program_steps numeral_eq_Suc start_def main_step_def goto_def listening_def)

definition n_ok :: "variant \<Rightarrow> nst \<Rightarrow> bool" where
  "n_ok v s \<longleftrightarrow> n_inv v s \<and> n_pc s \<noteq> NFirst \<and> (v \<noteq> Via \<longrightarrow> n_pc s \<notin> {NOpen, NGetattr, NMalloc, NMask, NSigaction})"

definition quietly :: "variant \<Rightarrow> event \<Rightarrow> nst \<Rightarrow> nst option" where
  "quietly v e s = (if e = Stray then None else step v e s)"

lemma runs_quietly: "Stray \<notin> set es \<Longrightarrow> runs (quietly v) es s = runs (step v) es s"
  by (induction es arbitrary: s) (auto simp: quietly_def split: option.splits)

lemma n_ok_start: "n_ok Via (start q)" "v \<noteq> Via \<Longrightarrow> n_ok v listening"
  by (simp_all add: n_ok_def n_inv_def listening_def start_def tokens_def)

lemma n_ok_step:
  assumes "n_ok v s" "quietly v e s = Some s'"
  shows "n_ok v s'"
proof -
  from assms(1) have i: "n_inv v s" and f: "n_pc s \<noteq> NFirst" and pc: "v \<noteq> Via \<longrightarrow> n_pc s \<notin> {NOpen, NGetattr, NMalloc, NMask, NSigaction}"
    by (auto simp: n_ok_def)
  show ?thesis
  proof (cases e)
    case (Main r)
    with assms(2) have m: "main_step v r s = Some s'" by (simp add: quietly_def)
    then have "n_pc s' \<noteq> NFirst \<and> (v \<noteq> Via \<longrightarrow> n_pc s' \<notin> {NOpen, NGetattr, NMalloc, NMask, NSigaction})"
      using f pc i by (cases "n_pc s"; auto simp: main_step_def n_inv_def split: if_splits list.splits)
    with n_inv_main [OF i m f] show ?thesis by (simp add: n_ok_def)
  next
    case (Send len k)
    with assms(2) have m: "send len k s = Some s'" by (simp add: quietly_def)
    then have "n_pc s' = n_pc s" by (auto simp: send_def Let_def split: if_splits)
    with n_inv_send [OF i m] f pc show ?thesis by (simp add: n_ok_def)
  next
    case Deliver
    with assms(2) have m: "handler v s = Some s'" by (simp add: quietly_def)
    then have "n_pc s' = n_pc s" by (auto simp: handler_def split: if_splits)
    with n_inv_handler [OF i m] f pc show ?thesis by (simp add: n_ok_def)
  next
    case Wake
    with assms(2) have m: "wake s = Some s'" by (simp add: quietly_def)
    then have "n_pc s' = NCheck" by (auto simp: wake_def split: if_splits)
    with n_inv_wake [OF i m] show ?thesis by (simp add: n_ok_def)
  qed (use assms(2) in \<open>simp add: quietly_def\<close>)
qed

section \<open>Number of steps\<close>

fun pc_left :: "variant \<Rightarrow> npc \<Rightarrow> int" where
  "pc_left v NOpen = 12"
| "pc_left v NGetattr = 10"
| "pc_left v NMalloc = 9"
| "pc_left v NMask = (if v = Via then 12 else 8)"
| "pc_left v NSigaction = (if v = Via then 11 else 7)"
| "pc_left v NFirst = 6"
| "pc_left v NWait = 1"
| "pc_left v NCheck = 2"
| "pc_left v NNotify = 6"
| "pc_left v NDrain = 5"
| "pc_left v NTest = 4"
| "pc_left v NWork = 1"
| "pc_left v (NExit n) = 0"
| "pc_left v NKilled = 0"

definition left :: "variant \<Rightarrow> nst \<Rightarrow> int" where
  "left v s = pc_left v (n_pc s) + int (length (n_queue s)) + (if n_sig s then 7 else 0) + (if n_got s then 6 else 0)"

fun cost :: "event \<Rightarrow> int" where
  "cost (Main r) = 0"
| "cost Wake = 2"
| "cost (Send len k) = 9"
| "cost Deliver = 0"
| "cost Stray = 0"

lemma left_notify_step: "main_step v r s = Some s' \<Longrightarrow> left v s' + 1 \<le> left v s"
  by (cases "n_pc s"; auto simp: main_step_def left_def split: if_splits list.splits)

interpretation nsteps: bounded_steps "quietly v" "n_ok v" "left v" cost for v
proof
  fix s e s' assume i: "n_ok v s" and st: "quietly v e s = Some s'"
  show "n_ok v s'" by (rule n_ok_step [OF i st])
  show "left v s' + 1 \<le> left v s + cost e"
    using st by (cases e)
      (auto simp: quietly_def left_def send_def handler_def wake_def Let_def dest!: left_notify_step split: if_splits)
qed

section \<open>Accounting\<close>

fun read_length :: "line \<Rightarrow> nat list" where
  "read_length (LRead n) = [n]"
| "read_length _ = []"

definition reads :: "line list \<Rightarrow> nat list" where
  "reads ls = concat (map read_length ls)"

fun sent_length :: "event \<Rightarrow> nat list" where
  "sent_length (Send len k) = [len]"
| "sent_length e = []"

definition account :: "nst \<Rightarrow> nat multiset" where
  "account s = mset (reads (n_out s)) + mset (n_queue s)"

lemma mset_insert: "mset (take k xs @ x # drop k xs) = add_mset x (mset xs)"
proof -
  have "mset (take k xs) + mset (drop k xs) = mset xs" by (simp flip: mset_append)
  then show ?thesis by simp
qed

lemma account_step:
  assumes "step v e s = Some s'"
  shows "account s' = account s + mset (sent_length e)"
proof (cases e)
  case (Main r)
  with assms show ?thesis
    by (cases "n_pc s") (auto simp: main_step_def account_def reads_def split: if_splits list.splits)
next
  case (Send len k)
  with assms show ?thesis using mset_insert [of k "n_queue s" len] by (auto simp: send_def account_def Let_def split: if_splits)
qed (use assms in \<open>auto simp: wake_def handler_def stray_def account_def split: if_splits\<close>)

lemma account_runs: "runs (step v) es s = Some s' \<Longrightarrow> account s' = account s + mset (concat (map sent_length es))"
  by (induction es arbitrary: s) (auto simp: account_step ac_simps split: option.splits)

section \<open>Properties\<close>

text \<open>The program waits and has no notification to see.\<close>

definition waiting :: "nst \<Rightarrow> bool" where
  "waiting s \<longleftrightarrow> (n_pc s = NWait \<or> n_pc s = NWork \<and> \<not> n_got s) \<and> \<not> n_sig s"

fun failing :: "event \<Rightarrow> bool" where
  "failing (Main r) = (r \<noteq> 0)"
| "failing e = False"

definition failed :: "nst \<Rightarrow> bool" where
  "failed s \<longleftrightarrow> ended (n_pc s) \<or> n_pc s = NTest \<and> n_errno s \<noteq> EAGAIN"

lemma waiting_drained: "n_ok v s \<Longrightarrow> waiting s \<Longrightarrow> n_queue s = []"
  by (cases "n_reg s"; auto simp: n_ok_def n_inv_def waiting_def tokens_def)

lemma notify_failing_enters:
  assumes "n_ok v s" "quietly v e s = Some s'" "failed s'" "\<not> failed s"
  shows "failing e"
proof (cases e)
  case (Main r)
  have "\<not> n_reg s" if "n_pc s = NNotify" using assms(1) that by (auto simp: n_ok_def n_inv_def tokens_def)
  moreover from Main assms(2) have "main_step v r s = Some s'" by (simp add: quietly_def)
  ultimately show ?thesis
    using Main assms(1,3,4) by (cases "n_pc s"; auto simp: main_step_def failed_def n_ok_def split: if_splits list.splits)
qed (use assms in \<open>auto simp: quietly_def failed_def wake_def send_def handler_def Let_def split: if_splits\<close>)

lemma notify_not_stuck:
  assumes "n_ok v s" "\<not> ended (n_pc s)"
  shows "main_step v 0 s \<noteq> None \<or> wake s \<noteq> None \<or> waiting s"
  using assms by (cases "n_pc s"; auto simp: main_step_def wake_def waiting_def split: list.splits)


text \<open>A message that arrives while \<open>mq_notify_via_signal\<close> empties the queue, behind an old one.\<close>

definition example_schedule :: "event list" where
  "example_schedule = [Main 0, Main 0, Main 0, Main 0, Main 0, Main 0, Main 0, Send 7 0, Main 0, Main 0, Main 0, Deliver, Wake, Main 0, Main 0, Main 0,
     Main 0]"


text \<open>If a message is in the queue when \<open>mq_notify_sig\<close> or \<open>mq_notify_sigwaitinfo\<close> registers, the program waits
  and no further message wakes it.\<close>

definition forgotten :: "nst \<Rightarrow> bool" where
  "forgotten s \<longleftrightarrow> n_pc s = NWait \<and> \<not> n_sig s \<and> n_queue s \<noteq> []"

lemma forgotten_reached: "\<exists>s. runs mq_notify_sig (replicate 6 (Main 0)) (start [5]) = Some s \<and> forgotten s"
  by (simp add: program_steps numeral_eq_Suc start_def main_step_def goto_def forgotten_def)

lemma forgotten_for_ever:
  assumes "forgotten s" "v \<noteq> Via" "step v e s = Some s'" "\<not> failing e" "e \<noteq> Stray"
  shows "forgotten s' \<and> n_out s' = n_out s"
  using assms by (cases e) (auto simp: forgotten_def main_step_def wake_def send_def handler_def Let_def split: if_splits)

end
