(* ===== verification/Spec2Isabelle.thy ===== *)
theory Spec2Isabelle
  imports Get_Num Error_Functions Rdwrn Read_Line Inotify_Props Environ Svsem_Op Semaphores Shm_Transfer Acl_Update
    Execlp Seqnum Msg_File Pid_File Userns_Exec System_Cmd Daemon Seek_IO Ipc_Create
    Prod_Condvar Fifo_Seqnum Check_Password Daemon_Sighup Tty_Functions File_Perms Itimerspec Wait_Status
    Unix_Sockets Script Thread_Multijoin Stream_Copy
    Barrier_Demo Simple_Init Datagrams Thread_Incr Change_Case
    Posix_Mq Sv_Messages Posix_Objects Self_Pipe Mq_Notify
begin

text \<open>
  Verification of the system programs under \<open>src/tlpi-book\<close>, the programs that accompany a
  book on the Linux programming interface.  The repository is a collection: a small
  library (\<open>lib\<close>), modules of functions shared by programs (\<open>sockets\<close>, \<open>svsem\<close>, \<open>filelock\<close>,
  \<open>users_groups\<close>), and programs.  The development models those with logic of their own and
  leaves aside the many that only show what one system call does.

  \<^bold>\<open>Conventions.\<close>  \<open>Prelude\<close> has the outcome type of C code (a value, \<open>exit\<close>, \<open>abort\<close>, undefined
  behaviour) and what the sources use of the C library on strings and numbers (\<open>strtol\<close>,
  \<open>atoi\<close>, \<open>strchr\<close>, \<open>snprintf\<close>, decimal output); \<open>Getopt\<close> has \<open>getopt\<close>.  System calls and code
  outside the repository (the kernel, \<open>libacl\<close>, the password file) are parameters, records
  of functions over a state of type \<open>'k\<close> or \<open>'s\<close>; what a program relies on is a locale, and
  each locale is interpreted on a reference implementation, which also serves the
  witnesses.  Machine integers are words, or integers with the conversion written out.  A
  loop that the kernel can keep running is a \<^theory_text>\<open>partial_function\<close> in the option type, where
  \<open>None\<close> means that it does not end, and is shown to end under the contract; an endless server
  loop is given as its state after any number of rounds.

  \<^bold>\<open>Library.\<close>
  \<^item> \<open>Get_Num\<close> (\<open>lib/get_num.c\<close>): \<open>getInt\<close> and \<open>getLong\<close> read back printed numbers, and what
    they accept is in range and obeys the flags.
  \<^item> \<open>Error_Functions\<close> (\<open>lib/error_functions.c\<close>): diagnostics keep \<open>errno\<close>, and the terminating
    functions do not return.
  \<^item> \<open>Rdwrn\<close> (\<open>sockets/rdwrn.c\<close>): \<open>readn\<close> and \<open>writen\<close> transfer everything for every kernel that
    honours the contract \<open>byte_source\<close> (or \<open>byte_sink\<close>), whatever the partial transfers and interruptions.
  \<^item> \<open>Read_Line\<close> (\<open>sockets/read_line.c\<close>, \<open>read_line_buf.c\<close>): both readers implement the interface
    \<open>line_source\<close>, on which their clients' lemmas rest.
  \<^item> \<open>Environ\<close> (\<open>proc/setenv.c\<close>), \<open>Execlp\<close> (\<open>procexec/execlp.c\<close>): functions of the C library
    written on top of simpler ones; the search of \<open>execlp\<close> equals a reference search, and its
    two array overruns are shown.
  \<^item> \<open>Inet_Sockets\<close> (\<open>sockets/inet_sockets.c\<close>): no descriptor is lost (contract \<open>descriptors\<close>),
    except when \<open>listen\<close> fails.  \<open>Unix_Sockets\<close> (\<open>sockets/unix_sockets.c\<close>): the same for UNIX domain
    sockets, with \<open>errno\<close> kept (contract \<open>unix_kernel\<close>, which extends \<open>descriptors\<close>).
  \<^item> \<open>Semaphores\<close> (\<open>svsem/binary_sems.c\<close>, \<open>event_flags.c\<close>): binary semaphores and event flags on
    System V semaphores (contract \<open>semaphores\<close>).
  \<^item> \<open>Pid_File\<close> (\<open>filelock/region_locking.c\<close>, \<open>create_pid_file.c\<close>): one running instance
    (contract \<open>record_locks\<close>).

  \<^item> \<open>System_Cmd\<close> (\<open>procexec/system.c\<close>): \<open>system\<close> restores the signal attributes of its caller,
    collects its child and always ends (contract \<open>children\<close>).
  \<^item> \<open>Daemon\<close> (\<open>daemons/become_daemon.c\<close>): a daemon leads no session, has no terminal and only the
    descriptors asked for (contract \<open>daemon_kernel\<close>).
  \<^item> \<open>Tty_Functions\<close> (\<open>tty/tty_functions.c\<close>): cbreak and raw mode, bit by bit, on terminals that
    carry out what they are asked (contract \<open>terminal\<close>).
  \<^item> \<open>Pty\<close> (\<open>pty/pty_master_open.c\<close>, \<open>pty/pty_fork.c\<close>): a child on a pseudoterminal, with exactly the
    descriptors and the controlling terminal it should have (contract \<open>pty_kernel\<close>).
  \<^item> \<open>File_Perms\<close> (\<open>files/file_perms.c\<close>), \<open>Itimerspec\<close> (\<open>timers/itimerspec_from_str.c\<close>), \<open>Wait_Status\<close>
    (\<open>procexec/print_wait_status.c\<close>): the texts of permissions, timer settings and wait statuses
    say exactly what they stand for.

  \<^bold>\<open>Programs.\<close>
  \<^item> \<open>inotify/inotify_dtree.c\<close>, a monitor that keeps a cache of all directories of some trees in
    step with inotify events.  \<open>Watch_Cache\<close>: the cache and its log; \<open>Inotify_Dtree\<close>: root paths, tree
    walk, renames, event loop, commands, \<open>main\<close>; \<open>Inotify_Invariant\<close>: the invariant \<open>dtree_ok\<close> and
    that every operation keeps it; \<open>Inotify_Run\<close>: the contracts \<open>wd_kernel\<close> and
    \<open>inotify_kernel\<close> and what follows for whole runs; \<open>Inotify_Loop\<close>: the event loop ends, with
    the contract \<open>inotify_queue\<close> (two rounds per event bound its fuel); \<open>Inotify_Effects\<close>: what
    the tree operations do to the cache seen as a finite map; \<open>Inotify_Props\<close>: the reference
    kernel and the properties.
  \<^item> \<open>Svsem_Op\<close> (\<open>svsem/svsem_op.c\<close>): the language of semaphore operations; round trip and the
    wrap-around of 16-bit fields.
  \<^item> \<open>Shm_Transfer\<close> (\<open>svshm/svshm_xfr_*.c\<close>): writer and reader as interleaved steps; mutual
    exclusion, and under every schedule the transfer finishes, complete and in order.
  \<^item> \<open>Acl_Spec\<close>, \<open>Acl_Update\<close> (\<open>acl/acl_update.c\<close>, \<open>users_groups/ugid_functions.c\<close>): parsing ACLs
    and changing those of files, over the contracts \<open>acl_library\<close> and \<open>acl_files\<close>; the program
    does what its arguments say to the named files and to nothing else.
  \<^item> \<open>Seqnum\<close> (\<open>sockets/is_seqnum_*.c\<close>, \<open>is_seqnum_v2_*.c\<close>): both servers refine one description
    of the service (contract \<open>clients\<close>, built on \<open>byte_source\<close> and \<open>line_source\<close>).
  \<^item> \<open>Msg_File\<close> (\<open>svmsg/svmsg_file_*.c\<close>): a file server over message queues; every request is
    served once, and the client learns the exact size (contracts \<open>file_queue\<close>, \<open>server_kernel\<close>).
    Child and client share only the queue, first in first out, so that the run of the
    one followed by that of the other stands for all interleavings.
  \<^item> \<open>Userns_Exec\<close> (\<open>namespaces/userns_child_exec.c\<close>): parent and child as interleaved steps; the
    command starts only after the ID maps are written (contract \<open>proc_files\<close>).

  \<^item> \<open>Seek_IO\<close> (\<open>fileio/seek_io.c\<close>): the commands do to a file what they mean (contract
    \<open>regular_file\<close>).
  \<^item> \<open>Ipc_Create\<close> (\<open>svmsg/svmsg_create.c\<close>, \<open>svsem/svsem_create.c\<close>, \<open>svshm/svshm_create.c\<close>): the one
    request that a command line asks for, whatever the order of its options.
  \<^item> \<open>Stream_Copy\<close> (\<open>fileio/copy.c\<close>, \<open>sockets/us_xfr_*.c\<close>, \<open>us_xfr_v2_*.c\<close>, \<open>is_echo_*.c\<close>): programs around one
    copying loop; everything is copied, the echo server returns what it receives and its parent
    loses no descriptor (contract \<open>streams\<close>).
  \<^item> \<open>Prod_Condvar\<close> (\<open>threads/prod_condvar.c\<close>): producers and consumer around a mutex and a condition
    variable as interleaved steps; under every schedule, spurious wake-ups included, nothing is
    lost and the process ends.  A wake-up without a reason is a step of the environment, and the
    bound on the number of steps counts them.  \<open>Thread_Multijoin\<close> (\<open>threads/thread_multijoin.c\<close>): joining
    threads in the order in which they end, with the mutex held; no deadlock, each thread once.
    \<open>Barrier_Demo\<close> (\<open>threads/pthread_barrier_demo.c\<close>): nobody passes a barrier before all have come to it,
    and one thread per barrier is told that it is the one.  \<open>Thread_Incr\<close> (\<open>threads/thread_incr*.c\<close>,
    \<open>psem/thread_incr_psem.c\<close>): two threads increment one variable, exactly with any of four locks, and
    with lost updates without one.  All rest on \<open>Schedules\<close>, whose locale \<open>bounded_steps\<close> turns an invariant and a measure into
    facts about all schedules.
  \<^item> \<open>Script\<close> (\<open>pty/script.c\<close>), which composes \<open>Pty\<close> and \<open>Tty_Functions\<close>: a recorded terminal session; what
    is relayed, shown and recorded agrees byte for byte, and the terminal gets its settings back
    (contract \<open>script_kernel\<close>, which joins \<open>terminal\<close> and \<open>pty_kernel\<close>).
  \<^item> \<open>Fifo_Seqnum\<close> (\<open>pipes/fifo_seqnum_*.c\<close>): the sequence number service over FIFOs, down to the bytes
    of its messages; the blocks handed out are disjoint (contract \<open>request_fifo\<close>).
  \<^item> \<open>Check_Password\<close> (\<open>cap/check_password_caps.c\<close>, \<open>users_groups/check_password.c\<close>): a password is
    accepted only against the record of the user; no capability is left when it is read, and its
    text is erased (contract \<open>proc_caps\<close>).
  \<^item> \<open>Daemon_Sighup\<close> (\<open>daemons/daemon_SIGHUP.c\<close>, on \<open>Daemon\<close>): the log of the daemon for every sequence
    of sleeps and signals, also signals that arrive between the test and the next sleep.
  \<^item> \<open>Simple_Init\<close> (\<open>namespaces/simple_init.c\<close>): the main loop of an init process, its \<open>SIGCHLD\<close> handler and its
    children as interleaved steps; no child is forgotten and commands start in order.  Lemma \<open>lost_signal\<close>
    shows the schedule in which \<open>pause\<close> misses the signal it waits for.
  \<^item> \<open>Self_Pipe\<close> (\<open>altio/self_pipe.c\<close>): the remedy against lost signals; a signal handled before \<open>select\<close> returns is
    never missed, and the handler leaves \<open>errno\<close> as it finds it.
  \<^item> \<open>Mq_Notify\<close> (\<open>pmsg/mq_notify_sig.c\<close>, \<open>mq_notify_sigwaitinfo.c\<close>, \<open>mq_notify_via_signal.c\<close>): notification of new messages
    by a signal; all messages are read when the program waits.  Lemma \<open>forgotten_for_ever\<close> shows that two of the programs
    miss messages that are there before they register.
  \<^item> \<open>Change_Case\<close> (\<open>pipes/change_case.c\<close>): two processes and two pipes, with the ends that each of them has
    open; they never wait for each other for ever.
  \<^item> \<open>Datagrams\<close> (\<open>sockets/ud_ucase_*.c\<close>, \<open>i6d_ucase_*.c\<close>, \<open>id_echo_*.c\<close>, on \<open>Unix_Sockets\<close>, \<open>Inet_Sockets\<close> and
    \<open>Daemon\<close>): services over datagrams; every datagram is answered once, to its sender (contracts
    \<open>dg_queue\<close> and \<open>dg_peer\<close>).
  \<^item> \<open>Posix_Mq\<close> (\<open>pmsg/pmsg_*.c\<close>), \<open>Sv_Messages\<close> (\<open>svmsg/svmsg_send.c\<close>, \<open>svmsg_receive.c\<close>, \<open>svmsg_rm.c\<close>), \<open>Posix_Objects\<close>
    (\<open>psem/psem_*.c\<close>, \<open>pshm/pshm_*.c\<close>): the command-line programs on message queues, semaphores and shared
    memory; what sequences of their runs do to a queue, a counter or an object (contracts \<open>mq_kernel\<close>,
    which \<open>mq_terminal\<close> extends, \<open>sv_queues\<close>, \<open>named_semaphores\<close> and \<open>named_memory\<close>).

  \<^bold>\<open>Not modelled.\<close>  Programs that only print what the kernel or the C library returns; the
  shared library and signal demonstrations; text of diagnostics where a program
  exits after it, which is represented by the exit status or an error value.  Release of
  memory is left out throughout, as is the effect of running out of memory, except where
  the code tests for it.  \<open>int\<close> counters of messages and transfers are unbounded integers.

  \<^bold>\<open>What is left.\<close>  The programs with shared state or logic of their own that remain are those
  that pass descriptors and credentials (\<open>sockets/scm_*.c\<close>), \<open>altio/select_mq.c\<close>, \<open>inotify/rand_dtree.c\<close> (random trees for
  testing) and the short programs of \<open>namespaces\<close>; the others print what the kernel returns, so that a
  model would restate its parameters.
\<close>

end
